(* ===== verification/Prelude.thy ===== *)
theory Prelude
  imports Main "HOL-Library.Word" "HOL-Library.Monad_Syntax"
begin

unbundle bit_operations_syntax

section \<open>Prelude: the C fragment the models are written in\<close>

text \<open>
  Shared vocabulary of the development: bytes and buffers with checked access, the unsigned
  integer types of the code as naturals with their wrap-around written out, and loops.

  A computation that C leaves without a defined result (an access outside an object) or
  that never returns is \<open>None\<close> in the option monad. A theorem that such a computation is
  \<open>Some\<close> is therefore both a memory-safety and a termination statement. Where the two have
  to be told apart (a loop that never ends although every access is in bounds),
  \<open>c_steps\<close> counts the iterations of the loop.
\<close>

named_theorems c_defs "definitions unfolded to run a closed model term"

type_synonym byte = "8 word"
type_synonym bytes = "byte list"
type_synonym u32 = "32 word"

subsection \<open>Checked access to buffers\<close>

text \<open>\<open>rd xs i\<close> is \<open>xs[i]\<close>, \<open>wr xs i v\<close> is \<open>xs[i] = v\<close>; outside the object they have no
  result.\<close>

definition rd :: "'a list \<Rightarrow> nat \<Rightarrow> 'a option" where
  "rd xs i = (if i < length xs then Some (xs ! i) else None)"

definition wr :: "'a list \<Rightarrow> nat \<Rightarrow> 'a \<Rightarrow> 'a list option" where
  "wr xs i v = (if i < length xs then Some (xs[i := v]) else None)"

text \<open>\<open>rd_mem xs i n\<close> are the bytes \<open>memcpy\<close> reads from \<open>xs + i\<close>; \<open>wr_mem xs i ys\<close> is
  \<open>memcpy (xs + i, ys, length ys)\<close>.\<close>

definition rd_mem :: "'a list \<Rightarrow> nat \<Rightarrow> nat \<Rightarrow> 'a list option" where
  "rd_mem xs i n = (if i + n \<le> length xs then Some (take n (drop i xs)) else None)"

definition wr_mem :: "'a list \<Rightarrow> nat \<Rightarrow> 'a list \<Rightarrow> 'a list option" where
  "wr_mem xs i ys =
     (if i + length ys \<le> length xs
      then Some (take i xs @ ys @ drop (i + length ys) xs) else None)"

lemmas mem_defs = rd_def wr_def rd_mem_def wr_mem_def

lemma rd_Some [simp]: "i < length xs \<Longrightarrow> rd xs i = Some (xs ! i)"
  by (simp add: rd_def)

lemma wr_Some [simp]: "i < length xs \<Longrightarrow> wr xs i v = Some (xs[i := v])"
  by (simp add: wr_def)

lemma rd_wr_first [simp]:
  "xs \<noteq> [] \<Longrightarrow> rd xs 0 = Some (xs ! 0)" "xs \<noteq> [] \<Longrightarrow> wr xs 0 v = Some (xs[0 := v])"
  by (simp_all add: rd_def wr_def)

lemma wr_length: "wr xs i v = Some ys \<Longrightarrow> length ys = length xs"
  by (auto simp: wr_def split: if_splits)

lemma wr_mem_length: "wr_mem xs i ys = Some zs \<Longrightarrow> length zs = length xs"
  by (auto simp: wr_mem_def split: if_splits)

lemma rd_mem_length: "rd_mem xs i n = Some ys \<Longrightarrow> length ys = n"
  by (auto simp: rd_mem_def split: if_splits)

lemma wr_mem_Some [simp]:
  "i + length ys \<le> length xs \<Longrightarrow>
   wr_mem xs i ys = Some (take i xs @ ys @ drop (i + length ys) xs)"
  by (simp add: wr_mem_def)

lemma rd_mem_Some [simp]: "i + n \<le> length xs \<Longrightarrow> rd_mem xs i n = Some (take n (drop i xs))"
  by (simp add: rd_mem_def)

lemma take_Suc_update: "k < length xs \<Longrightarrow> take (Suc k) (xs[k := v]) = take k xs @ [v]"
  by (simp add: take_Suc_conv_app_nth)

lemma take_append_le: "n \<le> length xs \<Longrightarrow> take n (xs @ ys) = take n xs"
  by simp

subsection \<open>Unsigned integers\<close>

text \<open>
  An \<open>unsigned short\<close> holds its value modulo \<open>2 ^ 16\<close>, an \<open>unsigned\<close> modulo \<open>2 ^ 32\<close>.
  \<open>sz_sub\<close> is the difference of two \<open>size_t\<close> (64-bit) values, which wraps.
\<close>

definition u16 :: "nat \<Rightarrow> nat" where
  "u16 n = n mod 65536"

definition uint32 :: "nat \<Rightarrow> nat" where
  "uint32 n = n mod 4294967296"

definition sz_sub :: "nat \<Rightarrow> nat \<Rightarrow> nat" where
  "sz_sub a b = (if b \<le> a then a - b else a + 18446744073709551616 - b)"

lemma u16_id [simp]: "n < 65536 \<Longrightarrow> u16 n = n"
  by (simp add: u16_def)

lemma u16_less [simp]: "u16 n < 65536"
  by (simp add: u16_def)

lemma u16_le: "u16 n \<le> n"
  by (simp add: u16_def)

lemma uint32_id [simp]: "n < 4294967296 \<Longrightarrow> uint32 n = n"
  by (simp add: uint32_def)

lemma sz_sub_le [simp]: "b \<le> a \<Longrightarrow> sz_sub a b = a - b"
  by (simp add: sz_sub_def)

text \<open>Two bytes in network order, as the code assembles and splits them.\<close>

definition be16 :: "byte \<Rightarrow> byte \<Rightarrow> nat" where
  "be16 hi lo = push_bit 8 (255 AND unat hi) OR (255 AND unat lo)"

definition byte_of :: "nat \<Rightarrow> byte" where
  "byte_of n = of_nat (255 AND n)"

lemma unat_byte_less [simp]: "unat (b :: byte) < 256"
  using unsigned_less [of b] by simp

lemma nat_and_255: "255 AND (n::nat) = n mod 256"
  using take_bit_eq_mask [of 8 n] by (simp add: mask_eq_exp_minus_1 take_bit_eq_mod ac_simps)

lemma nat_and_63: "63 AND (n::nat) = n mod 64"
  using take_bit_eq_mask [of 6 n] by (simp add: mask_eq_exp_minus_1 take_bit_eq_mod ac_simps)

lemma unat_byte_of: "unat (byte_of n) = n mod 256"
  by (simp add: byte_of_def nat_and_255 unat_of_nat)

lemma nat_or_disjoint:
  assumes "(b::nat) < 2 ^ k"
  shows "push_bit k a OR b = a * 2 ^ k + b"
proof -
  have "push_bit k a AND b = 0"
  proof (rule bit_eqI)
    fix n
    show "bit (push_bit k a AND b) n \<longleftrightarrow> bit (0::nat) n"
    proof (cases "n < k")
      case True
      then show ?thesis by (simp add: bit_simps)
    next
      case False
      then have "\<not> bit b n"
        using assms by (metis bit_take_bit_iff take_bit_nat_eq_self_iff)
      then show ?thesis by (simp add: bit_simps)
    qed
  qed
  then have "push_bit k a OR b = push_bit k a + b"
    by (simp add: disjunctive_add_eq_or)
  then show ?thesis by (simp add: push_bit_eq_mult)
qed

lemma nat_or_less: "x < 2 ^ n \<Longrightarrow> y < 2 ^ n \<Longrightarrow> x OR y < (2 :: nat) ^ n"
  by (metis take_bit_or take_bit_nat_eq_self_iff)

lemma be16_eq: "be16 hi lo = unat hi * 256 + unat lo"
proof -
  have "unat lo mod 256 < 2 ^ 8" by simp
  from nat_or_disjoint [OF this] show ?thesis
    by (simp add: be16_def nat_and_255)
qed

lemma be16_less [simp]: "be16 hi lo < 65536"
  unfolding be16_eq using unat_byte_less [of hi] unat_byte_less [of lo] by linarith

lemma be16_bytes: "be16 (byte_of (drop_bit 8 n)) (byte_of n) = u16 n"
proof -
  have "(n div 256 mod 256) * 256 + n mod 256 = n mod (256 * 256)"
    by (simp only: mod_mult2_eq [of n 256 256] mult.commute)
  then show ?thesis
    by (simp add: be16_eq unat_byte_of drop_bit_eq_div u16_def)
qed

lemma be16_inj: "be16 a b = be16 c d \<longleftrightarrow> a = c \<and> b = d"
proof
  assume eq: "be16 a b = be16 c d"
  have "be16 a b div 256 = unat a \<and> be16 a b mod 256 = unat b" for a b
    using unat_byte_less [of b] by (simp add: be16_eq)
  with eq have "unat a = unat c \<and> unat b = unat d" by metis
  then show "a = c \<and> b = d" by (simp add: word_unat_eq_iff)
qed simp

lemma unat_less_exp_iff: "unat (w :: 'a::len word) < 2 ^ k \<longleftrightarrow> take_bit k w = w"
proof -
  have "unat w < 2 ^ k \<longleftrightarrow> unat (take_bit k w) = unat w"
    by (simp add: unsigned_take_bit_eq take_bit_nat_eq_self_iff)
  also have "\<dots> \<longleftrightarrow> take_bit k w = w"
    by (auto dest: unsigned_word_eqI)
  finally show ?thesis .
qed

subsection \<open>Loops\<close>

text \<open>
  A \<open>while\<close> loop or a \<open>goto retry\<close> is a step on the loop's variables: \<open>Inl s\<close> goes round
  again with \<open>s\<close>, \<open>Inr r\<close> leaves the loop with \<open>r\<close>, and \<open>None\<close> is an access outside an
  object. \<open>c_while\<close> runs it, and is \<open>None\<close> also when it never leaves.
\<close>

partial_function (option) c_while :: "('s \<Rightarrow> ('s + 'r) option) \<Rightarrow> 's \<Rightarrow> 'r option" where
  "c_while step s =
     (case step s of
        None \<Rightarrow> None
      | Some x \<Rightarrow> (case x of Inl s' \<Rightarrow> c_while step s' | Inr r \<Rightarrow> Some r))"

declare c_while.simps [code]

fun c_steps :: "('s \<Rightarrow> ('s + 'r) option) \<Rightarrow> nat \<Rightarrow> 's \<Rightarrow> ('s + 'r) option" where
  "c_steps step 0 s = Some (Inl s)"
| "c_steps step (Suc n) s =
     (case step s of
        None \<Rightarrow> None
      | Some x \<Rightarrow> (case x of Inl s' \<Rightarrow> c_steps step n s' | Inr r \<Rightarrow> Some (Inr r)))"

lemma c_while_stop: "step s = Some (Inr r) \<Longrightarrow> c_while step s = Some r"
  by (simp add: c_while.simps)

lemma c_while_next: "step s = Some (Inl s') \<Longrightarrow> c_while step s = c_while step s'"
  by (subst c_while.simps) simp

lemma c_while_oob: "step s = None \<Longrightarrow> c_while step s = None"
  by (simp add: c_while.simps)

text \<open>The result of a loop comes out of finitely many iterations.\<close>

lemma c_while_steps:
  fixes step :: "'s \<Rightarrow> ('s + 'r) option"
  assumes "c_while step s = Some r"
  shows "\<exists>n. c_steps step n s = Some (Inr r)"
proof (rule c_while.raw_induct
    [where P = "\<lambda>step s r. \<exists>n. c_steps step n s = Some (Inr r)", OF _ assms])
  fix f and step :: "'s \<Rightarrow> ('s + 'r) option" and s r
  assume IH: "\<And>step s r. f step s = Some r \<Longrightarrow> \<exists>n. c_steps step n s = Some (Inr r)"
    and eq: "(case step s of None \<Rightarrow> None
      | Some x \<Rightarrow> (case x of Inl s' \<Rightarrow> f step s' | Inr r \<Rightarrow> Some r)) = Some r"
  show "\<exists>n. c_steps step n s = Some (Inr r)"
  proof (cases "step s")
    case None
    with eq show ?thesis by simp
  next
    case (Some x)
    show ?thesis
    proof (cases x)
      case (Inl s')
      with eq Some obtain n where "c_steps step n s' = Some (Inr r)"
        using IH [of step s' r] by auto
      with Some Inl have "c_steps step (Suc n) s = Some (Inr r)" by simp
      then show ?thesis ..
    next
      case (Inr r')
      with eq Some have "c_steps step 1 s = Some (Inr r)" by simp
      then show ?thesis ..
    qed
  qed
qed

lemma c_while_diverges:
  assumes "\<And>n. \<exists>s'. c_steps step n s = Some (Inl s')"
  shows "c_while step s = None"
proof (rule ccontr)
  assume "c_while step s \<noteq> None"
  then obtain r where "c_while step s = Some r" by auto
  then obtain n where "c_steps step n s = Some (Inr r)" by (rule exE [OF c_while_steps])
  with assms [of n] show False by auto
qed

text \<open>Partial correctness: an invariant that every iteration keeps.\<close>

lemma c_steps_invariant:
  assumes "c_steps step n s = Some x" and "I s"
    and "\<And>s s'. I s \<Longrightarrow> step s = Some (Inl s') \<Longrightarrow> I s'"
    and "\<And>s r. I s \<Longrightarrow> step s = Some (Inr r) \<Longrightarrow> Q r"
  shows "case x of Inl s' \<Rightarrow> I s' | Inr r \<Rightarrow> Q r"
  using assms(1,2)
proof (induction n arbitrary: s)
  case 0
  then show ?case by auto
next
  case (Suc n)
  then show ?case
    by (auto split: option.splits sum.splits dest: assms(3,4))
qed

lemma c_while_invariant:
  assumes "c_while step s = Some r" and "I s"
    and "\<And>s s'. I s \<Longrightarrow> step s = Some (Inl s') \<Longrightarrow> I s'"
    and "\<And>s r. I s \<Longrightarrow> step s = Some (Inr r) \<Longrightarrow> Q r"
  shows "Q r"
proof -
  obtain n where "c_steps step n s = Some (Inr r)" using c_while_steps [OF assms(1)] ..
  then have "case (Inr r) of Inl s' \<Rightarrow> I s' | Inr r \<Rightarrow> Q r"
    by (rule c_steps_invariant [where I = I and Q = Q]) (use assms in blast)+
  then show ?thesis by simp
qed

text \<open>
  Total correctness, as an interface: a loop whose body keeps an invariant, stays inside its
  buffers, and shrinks a measure whenever it goes round again. Each bounded loop of the code
  is an instance.
\<close>

locale bounded_loop =
  fixes step :: "'s \<Rightarrow> ('s + 'r) option"
    and inv :: "'s \<Rightarrow> bool"
    and size_of :: "'s \<Rightarrow> nat"
    and post :: "'r \<Rightarrow> bool"
  assumes defined: "inv s \<Longrightarrow> step s \<noteq> None"
    and keeps: "inv s \<Longrightarrow> step s = Some (Inl s') \<Longrightarrow> inv s'"
    and shrinks: "inv s \<Longrightarrow> step s = Some (Inl s') \<Longrightarrow> size_of s' < size_of s"
    and leaves: "inv s \<Longrightarrow> step s = Some (Inr r) \<Longrightarrow> post r"
begin

lemma returns: "inv s \<Longrightarrow> \<exists>r. c_while step s = Some r \<and> post r"
proof (induction "size_of s" arbitrary: s rule: less_induct)
  case less
  from defined [OF less.prems] obtain x where x: "step s = Some x" by auto
  show ?case
  proof (cases x)
    case (Inl s')
    with x have st: "step s = Some (Inl s')" by simp
    from less.hyps [OF shrinks [OF less.prems st] keeps [OF less.prems st]]
    show ?thesis by (simp add: c_while_next [of step, OF st])
  next
    case (Inr r)
    with x leaves [OF less.prems, of r] show ?thesis
      by (simp add: c_while_stop)
  qed
qed

lemma result: "inv s \<Longrightarrow> c_while step s = Some r \<Longrightarrow> post r"
  using returns [of s] by auto

end

text \<open>A conditional bind for the error codes of the code: \<open>Inl e\<close> is an early
  \<open>return e\<close>, \<open>Inr x\<close> goes on with \<open>x\<close>.\<close>

definition ebind :: "('e + 'a) option \<Rightarrow> ('a \<Rightarrow> ('e + 'b) option) \<Rightarrow> ('e + 'b) option" where
  "ebind m f = (case m of None \<Rightarrow> None
     | Some x \<Rightarrow> (case x of Inl e \<Rightarrow> Some (Inl e) | Inr a \<Rightarrow> f a))"

lemma ebind_simps [simp]:
  "ebind None f = None"
  "ebind (Some (Inl e)) f = Some (Inl e)"
  "ebind (Some (Inr a)) f = f a"
  by (simp_all add: ebind_def)

lemma ebind_Some_Inr:
  "ebind m f = Some (Inr b) \<longleftrightarrow> (\<exists>a. m = Some (Inr a) \<and> f a = Some (Inr b))"
  by (auto simp: ebind_def split: option.splits sum.splits)

lemma sint_sub_small:
  assumes "unat (x :: u32) < 2 ^ 31" "unat y < 2 ^ 31"
  shows "sint (x - y) = int (unat x) - int (unat y)"
proof -
  have u: "uint x = int (unat x)" "uint y = int (unat y)" by simp_all
  define m n where mn: "m = unat x" "n = unat y"
  have le_mn: "m < 2 ^ 31" "n < 2 ^ 31" using assms by (simp_all add: mn)
  have "sint (x - y) = signed_take_bit 31 (uint x - uint y)"
    by (simp add: sint_uint uint_word_ariths signed_take_bit_eq_if_positive take_bit_eq_mod del: uint_nat)
       (simp add: signed_take_bit_eq_take_bit_shift take_bit_eq_mod mod_add_left_eq)
  moreover have "- (2 ^ 31) \<le> uint x - uint y" "uint x - uint y < 2 ^ 31"
    using le_mn unfolding u mn [symmetric] by simp_all
  ultimately show ?thesis unfolding u by (simp add: signed_take_bit_int_eq_self)
qed

lemma bind_weak: "m = m' \<Longrightarrow> Option.bind m f = Option.bind m' f"
  by simp

lemma replicate_num: "replicate (numeral k) x = x # replicate (pred_numeral k) x"
  by (simp add: numeral_eq_Suc)

end
