(* ===== verification/Strings.thy ===== *)
theory Strings
  imports Prelude
begin

section \<open>Utility routines: C strings, domain name text, number printing\<close>

text \<open>
  \<open>src/libs/async/src/dns/dns.c\<close>, UTILITY ROUTINES, the routines that rewrite the text of a
  domain name (\<open>dns_d_trim\<close>, \<open>dns_d_anchor\<close>, \<open>dns_d_cleave\<close>, \<open>dns_d_init\<close>), the
  \<open>dns__print*\<close> family, and \<open>dns_strerror\<close> with the error codes.

  A \<open>char *\<close> is the byte list of the object it points into. A buffer that a function fills
  is taken and returned whole; a source and a destination that are the same object are two
  arguments with the same value, since every copy between them is a \<open>memmove\<close> made before
  any other write.
\<close>

subsection \<open>The C library functions the code calls on strings\<close>

definition of_string :: "string \<Rightarrow> bytes" where
  "of_string s = List.map of_char s"

fun c_strlen :: "bytes \<Rightarrow> nat option" where
  "c_strlen [] = None"
| "c_strlen (b # bs) = (if b = 0 then Some 0 else map_option Suc (c_strlen bs))"

fun c_memchr :: "bytes \<Rightarrow> byte \<Rightarrow> nat \<Rightarrow> nat option option" where
  "c_memchr bs c 0 = Some None"
| "c_memchr [] c (Suc n) = None"
| "c_memchr (b # bs) c (Suc n) =
     (if b = c then Some (Some 0) else map_option (map_option Suc) (c_memchr bs c n))"

definition c_tolower :: "byte \<Rightarrow> byte" where
  "c_tolower b = (if 65 \<le> b \<and> b \<le> 90 then b + 32 else b)"

fun c_strcasecmp :: "bytes \<Rightarrow> bytes \<Rightarrow> int option" where
  "c_strcasecmp (a # as) (b # bs) =
     (if c_tolower a \<noteq> c_tolower b then Some (uint (c_tolower a) - uint (c_tolower b))
      else if a = 0 then Some 0
      else c_strcasecmp as bs)"
| "c_strcasecmp _ _ = None"

fun c_strcmp :: "bytes \<Rightarrow> bytes \<Rightarrow> int option" where
  "c_strcmp (a # as) (b # bs) =
     (if a \<noteq> b then Some (uint a - uint b) else if a = 0 then Some 0 else c_strcmp as bs)"
| "c_strcmp _ _ = None"

fun c_memcmp :: "bytes \<Rightarrow> bytes \<Rightarrow> nat \<Rightarrow> int option" where
  "c_memcmp as bs 0 = Some 0"
| "c_memcmp (a # as) (b # bs) (Suc n) =
     (if a \<noteq> b then Some (uint a - uint b) else c_memcmp as bs n)"
| "c_memcmp _ _ (Suc n) = None"

text \<open>The text of \<open>%d\<close>, \<open>%u\<close> and \<open>%hu\<close> for a number that is not negative.\<close>

fun decimal_text :: "nat \<Rightarrow> bytes" where
  "decimal_text n =
     (if n < 10 then [of_nat (48 + n)]
      else decimal_text (n div 10) @ [of_nat (48 + n mod 10)])"

declare decimal_text.simps [simp del]

subsection \<open>Error codes\<close>

text \<open>\<open>enum dns_errno\<close>, the \<open>errno\<close> values the code itself returns, and the ones it passes on.\<close>

datatype dns_error =
    DNS_ENOBUFS | DNS_EILLEGAL | DNS_EORDER | DNS_ESECTION | DNS_EUNKNOWN | DNS_EADDRESS
  | DNS_ENOQUERY | DNS_ENOANSWER | DNS_EFETCHED | DNS_ESERVICE | DNS_ENONAME | DNS_EFAIL
  | ENAMETOOLONG | EINVAL | DNS_ETIMEDOUT | DNS_EAGAIN | EPERM | ECONNREFUSED
  | DNS_EINTR | DNS_EISCONN | DNS_EINPROGRESS | DNS_EALREADY
  | OS_ERROR nat

definition DNS_EBASE :: int where
  "DNS_EBASE = - ((push_bit 24 100 OR push_bit 16 110 OR push_bit 8 115) OR 64)"

fun dns_errno :: "dns_error \<Rightarrow> int option" where
  "dns_errno DNS_ENOBUFS = Some DNS_EBASE"
| "dns_errno DNS_EILLEGAL = Some (DNS_EBASE + 1)"
| "dns_errno DNS_EORDER = Some (DNS_EBASE + 2)"
| "dns_errno DNS_ESECTION = Some (DNS_EBASE + 3)"
| "dns_errno DNS_EUNKNOWN = Some (DNS_EBASE + 4)"
| "dns_errno DNS_EADDRESS = Some (DNS_EBASE + 5)"
| "dns_errno DNS_ENOQUERY = Some (DNS_EBASE + 6)"
| "dns_errno DNS_ENOANSWER = Some (DNS_EBASE + 7)"
| "dns_errno DNS_EFETCHED = Some (DNS_EBASE + 8)"
| "dns_errno DNS_ESERVICE = Some (DNS_EBASE + 9)"
| "dns_errno DNS_ENONAME = Some (DNS_EBASE + 10)"
| "dns_errno DNS_EFAIL = Some (DNS_EBASE + 11)"
| "dns_errno _ = None"

text \<open>\<open>strerror(3)\<close> is the argument \<open>os\<close>.\<close>

fun dns_strerror :: "(dns_error \<Rightarrow> string) \<Rightarrow> dns_error \<Rightarrow> string" where
  "dns_strerror os DNS_ENOBUFS = ''DNS packet buffer too small''"
| "dns_strerror os DNS_EILLEGAL = ''Illegal DNS RR name or data''"
| "dns_strerror os DNS_EORDER = ''Attempt to push RR out of section order''"
| "dns_strerror os DNS_ESECTION = ''Invalid section specified''"
| "dns_strerror os DNS_EUNKNOWN = ''Unknown DNS error''"
| "dns_strerror os DNS_EADDRESS = ''Invalid textual address form''"
| "dns_strerror os DNS_ENOQUERY = ''Bad execution state (missing query packet)''"
| "dns_strerror os DNS_ENOANSWER = ''Bad execution state (missing answer packet)''"
| "dns_strerror os DNS_EFETCHED = ''Answer already fetched''"
| "dns_strerror os DNS_ESERVICE =
     ''The application passed was not recognized for the specified socket type''"
| "dns_strerror os DNS_ENONAME = ''The name does not resolve for the supplied parameters''"
| "dns_strerror os DNS_EFAIL =
     ''A non-recoverable error occurred when attempting to resolve the name''"
| "dns_strerror os e = os e"

subsection \<open>String copies\<close>

text \<open>\<open>while (*src++ && n < m) ++n\<close>: the byte \<open>src[n]\<close> is read before \<open>n < m\<close> is tested.
  The first argument is \<open>m - n\<close>.\<close>

fun dns_strnlen_loop :: "nat \<Rightarrow> bytes \<Rightarrow> nat \<Rightarrow> nat option" where
  "dns_strnlen_loop 0 src n = do { c \<leftarrow> rd src n; Some n }"
| "dns_strnlen_loop (Suc k) src n = do {
     c \<leftarrow> rd src n;
     if c \<noteq> 0 then dns_strnlen_loop k src (n + 1) else Some n }"

definition dns_strnlen :: "bytes \<Rightarrow> nat \<Rightarrow> nat option" where
  "dns_strnlen src m = dns_strnlen_loop m src 0"

definition dns_strnlcpy :: "bytes \<Rightarrow> nat \<Rightarrow> bytes \<Rightarrow> nat \<Rightarrow> (bytes \<times> nat) option" where
  "dns_strnlcpy dst lim src m = do {
     len \<leftarrow> dns_strnlen src m;
     if lim > 0 then do {
       let n = min (lim - 1) len;
       xs \<leftarrow> rd_mem src 0 n;
       dst \<leftarrow> wr_mem dst 0 xs;
       dst \<leftarrow> wr dst n 0;
       Some (dst, len) }
     else Some (dst, len) }"

text \<open>The copying loop of \<open>dns_strlcpy\<close> and \<open>dns_strlcat\<close>: \<open>k\<close> is \<open>e - d\<close>, \<open>d\<close> and \<open>s\<close> are
  offsets. \<open>Some d\<close> is the return out of the loop, at the copied NUL; \<open>None\<close> is leaving it
  at \<open>d = e\<close>, with \<open>d[-1]\<close> already overwritten.\<close>

fun dns_strlcpy_loop :: "nat \<Rightarrow> bytes \<Rightarrow> nat \<Rightarrow> bytes \<Rightarrow> nat \<Rightarrow> (bytes \<times> nat \<times> nat option) option" where
  "dns_strlcpy_loop 0 dst d src s = do { dst \<leftarrow> wr dst (d - 1) 0; Some (dst, s, None) }"
| "dns_strlcpy_loop (Suc k) dst d src s = do {
     ch \<leftarrow> rd src s;
     dst \<leftarrow> wr dst d ch;
     if ch = 0 then Some (dst, s, Some d) else dns_strlcpy_loop k dst (d + 1) src (s + 1) }"

definition dns_strlcpy :: "bytes \<Rightarrow> bytes \<Rightarrow> nat \<Rightarrow> (bytes \<times> nat) option" where
  "dns_strlcpy dst src lim =
     (if 0 < lim then do {
        (dst, s, r) \<leftarrow> dns_strlcpy_loop lim dst 0 src 0;
        (case r of
           Some d \<Rightarrow> Some (dst, s)
         | None \<Rightarrow> do { n \<leftarrow> c_strlen (drop s src); Some (dst, s + n) }) }
      else do { n \<leftarrow> c_strlen src; Some (dst, n) })"

definition dns_strlcat :: "bytes \<Rightarrow> bytes \<Rightarrow> nat \<Rightarrow> (bytes \<times> nat) option" where
  "dns_strlcat dst src lim = do {
     r \<leftarrow> c_memchr dst 0 lim;
     (case r of
        Some d \<Rightarrow>
          (if d < lim then do {
             (dst, s, r) \<leftarrow> dns_strlcpy_loop (lim - d) dst d src 0;
             (case r of
                Some d \<Rightarrow> Some (dst, d)
              | None \<Rightarrow> do { n \<leftarrow> c_strlen (drop s src); Some (dst, lim + n) }) }
           else do { n \<leftarrow> c_strlen src; Some (dst, lim + n) })
      | None \<Rightarrow> do { n \<leftarrow> c_strlen src; Some (dst, lim + n) }) }"

subsection \<open>Printing\<close>

definition dns__printchar :: "bytes \<Rightarrow> nat \<Rightarrow> nat \<Rightarrow> byte \<Rightarrow> (bytes \<times> nat) option" where
  "dns__printchar dst lim cp ch = do {
     dst \<leftarrow> (if cp < lim then wr dst cp ch else Some dst);
     Some (dst, 1) }"

definition dns__printstring ::
    "bytes \<Rightarrow> nat \<Rightarrow> nat \<Rightarrow> bytes \<Rightarrow> nat \<Rightarrow> (bytes \<times> nat) option" where
  "dns__printstring dst lim cp src len = do {
     dst \<leftarrow> (if cp < lim then do {
        xs \<leftarrow> rd_mem src 0 (min len (lim - cp));
        wr_mem dst cp xs } else Some dst);
     Some (dst, len) }"

definition dns__printnul :: "bytes \<Rightarrow> nat \<Rightarrow> nat \<Rightarrow> bytes option" where
  "dns__printnul dst lim off = (if lim > 0 then wr dst (min off (lim - 1)) 0 else Some dst)"

text \<open>The digit loop runs with \<open>d\<close> from \<open>1000000000\<close> down to \<open>1\<close>; \<open>d = 0\<close> ends it. \<open>tmp\<close> is the
  list of digits stored so far, its length is \<open>cp\<close>.\<close>

function dns__print10_digits :: "nat \<Rightarrow> nat \<Rightarrow> bytes \<Rightarrow> bytes" where
  "dns__print10_digits d n tmp =
     (if d = 0 then tmp
      else (let ch = n div d in
        if ch \<noteq> 0 \<or> length tmp > 0
        then dns__print10_digits (d div 10) (n - ch * d) (tmp @ [of_nat (48 + ch)])
        else dns__print10_digits (d div 10) n tmp))"
  by pat_completeness auto

termination dns__print10_digits
  by (relation "measure fst") auto

declare dns__print10_digits.simps [simp del]

fun dns__print10_pad :: "nat \<Rightarrow> bytes \<Rightarrow> nat \<Rightarrow> nat \<Rightarrow> (bytes \<times> nat) option" where
  "dns__print10_pad 0 dst lim dp = Some (dst, dp)"
| "dns__print10_pad (Suc k) dst lim dp = do {
     (dst, n) \<leftarrow> dns__printchar dst lim dp 48;
     dns__print10_pad k dst lim (dp + n) }"

definition dns__print10 :: "bytes \<Rightarrow> nat \<Rightarrow> nat \<Rightarrow> nat \<Rightarrow> nat \<Rightarrow> (bytes \<times> nat) option" where
  "dns__print10 dst lim off n pad0 = do {
     let pad = max 1 pad0;
     let tmp = dns__print10_digits 1000000000 n [];
     let cp = length tmp;
     (dst, dp) \<leftarrow> dns__print10_pad (pad - cp) dst lim off;
     (dst, k) \<leftarrow> dns__printstring dst lim dp tmp cp;
     Some (dst, dp + k - off) }"

subsection \<open>The text of a domain name\<close>

definition DNS_D_MAXLABEL :: nat where [c_defs]: "DNS_D_MAXLABEL = 63"
definition DNS_D_MAXNAME :: nat where [c_defs]: "DNS_D_MAXNAME = 255"

text \<open>The flag word of \<open>dns_d_init\<close> and \<open>dns_d_trim\<close>.\<close>

definition DNS_D_ANCHOR :: nat where [c_defs]: "DNS_D_ANCHOR = 1"
definition DNS_D_CLEAVE :: nat where [c_defs]: "DNS_D_CLEAVE = 2"
definition DNS_D_TRIM :: nat where [c_defs]: "DNS_D_TRIM = 4"

definition put :: "bytes \<Rightarrow> nat \<Rightarrow> nat \<Rightarrow> byte \<Rightarrow> bytes option" where
  "put dst lim dp ch = (if dp < lim then wr dst dp ch else Some dst)"

text \<open>The copying loop of \<open>dns_d_trim\<close> over the bytes \<open>src[sp..<len]\<close>; \<open>lc\<close> is the byte
  before, \<open>0\<close> at the start.\<close>

fun dns_d_trim_loop :: "bytes \<Rightarrow> byte \<Rightarrow> bytes \<Rightarrow> nat \<Rightarrow> nat \<Rightarrow> (bytes \<times> nat \<times> byte) option" where
  "dns_d_trim_loop [] lc dst lim dp = Some (dst, dp, lc)"
| "dns_d_trim_loop (c # cs) lc dst lim dp =
     (if c = 46 \<and> lc = 46 then dns_d_trim_loop cs c dst lim dp
      else do {
        dst \<leftarrow> put dst lim dp c;
        dns_d_trim_loop cs c dst lim (dp + 1) })"

definition dns_d_trim :: "bytes \<Rightarrow> nat \<Rightarrow> bytes \<Rightarrow> nat \<Rightarrow> nat \<Rightarrow> (bytes \<times> nat) option" where
  "dns_d_trim dst lim src len flags = do {
     text \<leftarrow> rd_mem src 0 len;
     (dst, dp, lc) \<leftarrow> dns_d_trim_loop (dropWhile (\<lambda>c. c = 46) text) 0 dst lim 0;
     (dst, dp) \<leftarrow>
       (if flags AND DNS_D_ANCHOR \<noteq> 0 \<and> lc \<noteq> 46
        then do { dst \<leftarrow> put dst lim dp 46; Some (dst, dp + 1) }
        else Some (dst, dp));
     dst \<leftarrow> (if lim > 0 then wr dst (min dp (lim - 1)) 0 else Some dst);
     Some (dst, dp) }"

definition dns_d_anchor :: "bytes \<Rightarrow> nat \<Rightarrow> bytes \<Rightarrow> nat \<Rightarrow> (bytes \<times> nat) option" where
  "dns_d_anchor dst lim src len =
     (if len = 0 then Some (dst, 0)
      else do {
        xs \<leftarrow> rd_mem src 0 (min lim len);
        dst \<leftarrow> wr_mem dst 0 xs;
        c \<leftarrow> rd src (len - 1);
        (dst, len) \<leftarrow>
          (if c \<noteq> 46 then do { dst \<leftarrow> put dst lim len 46; Some (dst, len + 1) }
           else Some (dst, len));
        dst \<leftarrow> (if lim > 0 then wr dst (min (lim - 1) len) 0 else Some dst);
        Some (dst, len) })"

definition dns_d_cleave :: "bytes \<Rightarrow> nat \<Rightarrow> bytes \<Rightarrow> nat \<Rightarrow> (bytes \<times> nat) option" where
  "dns_d_cleave dst lim src len =
     (if len = 0 then Some (dst, 0)
      else do {
        r \<leftarrow> c_memchr (drop 1 src) 46 (len - 1);
        (case r of
           None \<Rightarrow> Some (dst, 0)
         | Some i \<Rightarrow> do {
             let dot = i + 1;
             let len = len - dot;
             let (src, len) = (if len > 1 then (drop (dot + 1) src, len - 1) else (drop dot src, len));
             xs \<leftarrow> rd_mem src 0 (min lim len);
             dst \<leftarrow> wr_mem dst 0 xs;
             dst \<leftarrow> (if lim > 0 then wr dst (min (lim - 1) len) 0 else Some dst);
             Some (dst, len) }) })"

definition dns_d_init :: "bytes \<Rightarrow> nat \<Rightarrow> bytes \<Rightarrow> nat \<Rightarrow> nat \<Rightarrow> bytes option" where
  "dns_d_init dst lim src len flags = do {
     dst \<leftarrow> (if flags AND DNS_D_TRIM \<noteq> 0
            then do { (dst, n) \<leftarrow> dns_d_trim dst lim src len flags; Some dst }
            else Some dst);
     (if flags AND DNS_D_ANCHOR \<noteq> 0
      then do { (dst, n) \<leftarrow> dns_d_anchor dst lim src len; Some dst }
      else do {
        xs \<leftarrow> rd_mem src 0 (min lim len);
        dst \<leftarrow> wr_mem dst 0 xs;
        (if lim > 0 then wr dst (min len (lim - 1)) 0 else Some dst) }) }"

subsection \<open>What a filled buffer holds\<close>

text \<open>The string a routine leaves in a buffer of \<open>lim\<close> bytes: the part of \<open>xs\<close> that fits,
  and its NUL.\<close>

definition holds_cstr :: "nat \<Rightarrow> bytes \<Rightarrow> bytes \<Rightarrow> bool" where
  "holds_cstr lim xs dst \<longleftrightarrow>
     (lim > 0 \<longrightarrow> take (min (lim - 1) (length xs) + 1) dst = take (lim - 1) xs @ [0])"

text \<open>What the buffer holds once \<open>dstp = length xs\<close> bytes of text have been produced: the
  part of \<open>xs\<close> that fits under \<open>lim\<close>.\<close>

definition holds_text :: "nat \<Rightarrow> bytes \<Rightarrow> bytes \<Rightarrow> bool" where
  "holds_text lim xs dst \<longleftrightarrow> lim \<le> length dst \<and> take (min lim (length xs)) dst = take lim xs"

lemma holds_text_Nil [simp]: "holds_text lim [] dst \<longleftrightarrow> lim \<le> length dst"
  by (simp add: holds_text_def)

lemma holds_text_put:
  assumes "holds_text lim xs dst"
  shows "\<exists>dst'. put dst lim (length xs) ch = Some dst' \<and> length dst' = length dst \<and>
     holds_text lim (xs @ [ch]) dst'"
proof (cases "length xs < lim")
  case True
  then have "take (Suc (length xs)) (dst[length xs := ch]) = xs @ [ch]"
    using assms by (subst take_Suc_update) (auto simp: holds_text_def)
  moreover have "min lim (Suc (length xs)) = Suc (length xs)" "take lim (xs @ [ch]) = xs @ [ch]"
    using True by auto
  ultimately show ?thesis using True assms by (simp add: put_def holds_text_def)
next
  case False
  then show ?thesis using assms by (simp add: put_def holds_text_def)
qed

lemma holds_text_mem:
  assumes "holds_text lim xs dst" and "length ys = n"
  shows "\<exists>dst'. (if length xs < lim
       then wr_mem dst (length xs) (take (lim - length xs) ys) else Some dst) = Some dst' \<and>
     length dst' = length dst \<and> holds_text lim (xs @ ys) dst'"
proof (cases "length xs < lim")
  case True
  define r where "r = take (lim - length xs) ys"
  have r: "min lim (length xs + length ys) = length xs + length r"
    "length xs + length r \<le> length dst" "take (length xs) dst = xs"
    using True assms by (auto simp: holds_text_def r_def)
  have "take (length xs + length r) ((xs @ r) @ drop (length xs + length r) dst) = xs @ r"
    by (simp only: take_append length_append) simp
  moreover have "take lim (xs @ ys) = xs @ r" using True by (simp add: r_def)
  ultimately show ?thesis using True assms(1) r
    by (simp add: holds_text_def r_def [symmetric])
next
  case False
  then show ?thesis using assms by (simp add: holds_text_def)
qed

lemma holds_text_nul:
  assumes "holds_text lim xs dst"
  shows "\<exists>dst'. (if lim > 0 then wr dst (min (length xs) (lim - 1)) 0 else Some dst) = Some dst' \<and>
     length dst' = length dst \<and> holds_cstr lim xs dst'"
proof (cases "lim = 0")
  case True
  then show ?thesis by (simp add: holds_cstr_def)
next
  case False
  define k where "k = min (length xs) (lim - 1)"
  have k: "k < length dst" "k \<le> min lim (length xs)"
    using assms False by (auto simp: holds_text_def k_def)
  have "take k dst = take k (take (min lim (length xs)) dst)"
    using k by (simp add: min_absorb1)
  also have "\<dots> = take k (take lim xs)" using assms by (simp add: holds_text_def)
  also have "\<dots> = take (lim - 1) xs"
    using False by (cases "length xs \<le> lim - 1") (simp_all add: k_def min_def)
  finally have "take (Suc k) (dst[k := 0]) = take (lim - 1) xs @ [0]"
    using k by (simp add: take_Suc_update)
  then show ?thesis using k(1) False
    by (simp add: holds_cstr_def k_def min.commute)
qed

lemma holds_cstr_fits:
  assumes "holds_cstr lim xs dst" "length xs < lim"
  shows "\<exists>rest. dst = xs @ 0 # rest"
proof -
  have "min (lim - 1) (length xs) = length xs" "take (lim - 1) xs = xs" using assms(2) by simp_all
  then have "take (length xs + 1) dst = xs @ [0]"
    using assms by (simp add: holds_cstr_def)
  then have "dst = (xs @ [0]) @ drop (length xs + 1) dst" by (metis append_take_drop_id)
  then show ?thesis by (metis append.assoc append_Cons append_Nil)
qed

lemma c_tolower_0 [simp]: "c_tolower b = 0 \<longleftrightarrow> b = 0"
proof (cases "65 \<le> b \<and> b \<le> 90")
  case True
  then have "65 \<le> unat b" "unat b \<le> 90" by (simp_all add: word_le_nat_alt)
  then have "unat (b + 32) = unat b + 32" by (simp add: unat_word_ariths)
  with True \<open>65 \<le> unat b\<close> show ?thesis by (auto simp: c_tolower_def)
next
  case False
  then show ?thesis by (auto simp: c_tolower_def)
qed

lemma strcasecmp_Cons_0:
  "c_strcasecmp (a # as) (b # bs) = Some 0 \<longleftrightarrow>
     c_tolower a = c_tolower b \<and> (a = 0 \<or> c_strcasecmp as bs = Some 0)"
  by (auto simp: word_uint_eq_iff)

lemma c_strlen_append: "0 \<notin> set s \<Longrightarrow> c_strlen (s @ 0 # t) = Some (length s)"
  by (induction s) auto

end
