(* ===== verification/Packet.thy ===== *)
theory Packet
  imports Strings
begin

section \<open>Packets: layout, header, counts, sizing\<close>

text \<open>
  \<open>struct dns_packet\<close> of \<open>dns.h\<close> and the PACKET ROUTINES of \<open>dns.c\<close> that do not look into
  names or records. \<open>p_data\<close> is the flexible array \<open>data[]\<close>, whose first 12 bytes are the
  \<open>header\<close> of the union; its length is what was allocated for it. The list links \<open>cqe\<close>
  belong to a cache that the code never fills and are left out. Positions are
  \<open>unsigned short\<close>, sizes \<open>size_t\<close>.
\<close>

record dns_s_memo =
  m_base :: nat
  m_end :: nat

record dns_packet =
  p_dict :: "nat list"
  p_qd :: dns_s_memo
  p_an :: dns_s_memo
  p_ns :: dns_s_memo
  p_ar :: dns_s_memo
  p_size :: nat
  p_end :: nat
  p_data :: bytes

definition DNS_P_DICTSIZE :: nat where [c_defs]: "DNS_P_DICTSIZE = 16"

text \<open>\<open>offsetof (struct dns_packet, data)\<close> where pointers and \<open>size_t\<close> have eight bytes.\<close>

definition OFFSETOF_DATA :: nat where [c_defs]: "OFFSETOF_DATA = 84"

definition dns_p_calcsize :: "nat \<Rightarrow> nat" where
  "dns_p_calcsize n = OFFSETOF_DATA + max 12 n"

definition dns_p_sizeof :: "dns_packet \<Rightarrow> nat" where
  "dns_p_sizeof P = dns_p_calcsize (p_end P)"

definition DNS_P_QBUFSIZ :: nat where [c_defs]: "DNS_P_QBUFSIZ = dns_p_calcsize (256 + 4)"

subsection \<open>Sections, types and classes\<close>

text \<open>The enumerations are the C integers, since the code takes masks of sections and any
  16-bit type or class.\<close>

definition DNS_S_QD :: nat where [c_defs]: "DNS_S_QD = 1"
definition DNS_S_AN :: nat where [c_defs]: "DNS_S_AN = 2"
definition DNS_S_NS :: nat where [c_defs]: "DNS_S_NS = 4"
definition DNS_S_AR :: nat where [c_defs]: "DNS_S_AR = 8"
definition DNS_S_ALL :: nat where [c_defs]: "DNS_S_ALL = 15"

definition DNS_C_IN :: nat where [c_defs]: "DNS_C_IN = 1"
definition DNS_C_ANY :: nat where [c_defs]: "DNS_C_ANY = 255"

definition DNS_T_A :: nat where [c_defs]: "DNS_T_A = 1"
definition DNS_T_NS :: nat where [c_defs]: "DNS_T_NS = 2"
definition DNS_T_CNAME :: nat where [c_defs]: "DNS_T_CNAME = 5"
definition DNS_T_SOA :: nat where [c_defs]: "DNS_T_SOA = 6"
definition DNS_T_PTR :: nat where [c_defs]: "DNS_T_PTR = 12"
definition DNS_T_MX :: nat where [c_defs]: "DNS_T_MX = 15"
definition DNS_T_TXT :: nat where [c_defs]: "DNS_T_TXT = 16"
definition DNS_T_AAAA :: nat where [c_defs]: "DNS_T_AAAA = 28"
definition DNS_T_SRV :: nat where [c_defs]: "DNS_T_SRV = 33"
definition DNS_T_OPT :: nat where [c_defs]: "DNS_T_OPT = 41"
definition DNS_T_SSHFP :: nat where [c_defs]: "DNS_T_SSHFP = 44"
definition DNS_T_SPF :: nat where [c_defs]: "DNS_T_SPF = 99"
definition DNS_T_ALL :: nat where [c_defs]: "DNS_T_ALL = 255"

subsection \<open>The header\<close>

text \<open>A 16-bit field of the header, through \<open>ntohs\<close> and \<open>htons\<close>. The header lies within the
  allocation, which has at least 12 bytes.\<close>

definition rd16 :: "bytes \<Rightarrow> nat \<Rightarrow> nat option" where
  "rd16 xs i = do { a \<leftarrow> rd xs i; b \<leftarrow> rd xs (i + 1); Some (be16 a b) }"

definition wr16 :: "bytes \<Rightarrow> nat \<Rightarrow> nat \<Rightarrow> bytes option" where
  "wr16 xs i v = do { xs \<leftarrow> wr xs i (byte_of (drop_bit 8 v)); wr xs (i + 1) (byte_of v) }"

definition hd16 :: "dns_packet \<Rightarrow> nat \<Rightarrow> nat" where
  "hd16 P i = be16 (p_data P ! i) (p_data P ! (i + 1))"

definition hd16_set :: "dns_packet \<Rightarrow> nat \<Rightarrow> nat \<Rightarrow> dns_packet" where
  "hd16_set P i v =
     P\<lparr>p_data := (p_data P)[i := byte_of (drop_bit 8 v), i + 1 := byte_of v]\<rparr>"

definition hd_qid :: "dns_packet \<Rightarrow> nat" where "hd_qid P = hd16 P 0"
definition hd_qdcount :: "dns_packet \<Rightarrow> nat" where "hd_qdcount P = hd16 P 4"
definition hd_ancount :: "dns_packet \<Rightarrow> nat" where "hd_ancount P = hd16 P 6"
definition hd_nscount :: "dns_packet \<Rightarrow> nat" where "hd_nscount P = hd16 P 8"
definition hd_arcount :: "dns_packet \<Rightarrow> nat" where "hd_arcount P = hd16 P 10"

text \<open>The flag bits, as a little-endian compiler lays the bit-fields out: \<open>rd tc aa opcode qr\<close>
  from bit 0 of byte 2, \<open>rcode unused ra\<close> from bit 0 of byte 3.\<close>

definition hd_rd :: "dns_packet \<Rightarrow> bool" where "hd_rd P = bit (p_data P ! 2) 0"
definition hd_tc :: "dns_packet \<Rightarrow> bool" where "hd_tc P = bit (p_data P ! 2) 1"
definition hd_aa :: "dns_packet \<Rightarrow> bool" where "hd_aa P = bit (p_data P ! 2) 2"
definition hd_opcode :: "dns_packet \<Rightarrow> nat" where
  "hd_opcode P = unat (take_bit 4 (drop_bit 3 (p_data P ! 2)))"
definition hd_qr :: "dns_packet \<Rightarrow> bool" where "hd_qr P = bit (p_data P ! 2) 7"
definition hd_rcode :: "dns_packet \<Rightarrow> nat" where
  "hd_rcode P = unat (take_bit 4 (p_data P ! 3))"
definition hd_ra :: "dns_packet \<Rightarrow> bool" where "hd_ra P = bit (p_data P ! 3) 7"

subsection \<open>Operations\<close>

definition dns_p_count :: "dns_packet \<Rightarrow> nat \<Rightarrow> nat" where
  "dns_p_count P section =
     (if section = DNS_S_QD then hd_qdcount P
      else if section = DNS_S_AN then hd_ancount P
      else if section = DNS_S_NS then hd_nscount P
      else if section = DNS_S_AR then hd_arcount P
      else (if section AND DNS_S_QD \<noteq> 0 then hd_qdcount P else 0) +
           (if section AND DNS_S_AN \<noteq> 0 then hd_ancount P else 0) +
           (if section AND DNS_S_NS \<noteq> 0 then hd_nscount P else 0) +
           (if section AND DNS_S_AR \<noteq> 0 then hd_arcount P else 0))"

definition memo0 :: dns_s_memo where "memo0 = \<lparr>m_base = 0, m_end = 0\<rparr>"

text \<open>\<open>dns_p_init\<close> on an object of \<open>size\<close> bytes, which holds \<open>raw\<close> from \<open>data\<close> on; the
  assertion is the \<open>None\<close>. Only the header is cleared.\<close>

definition dns_p_init :: "bytes \<Rightarrow> nat \<Rightarrow> dns_packet option" where
  "dns_p_init raw sz =
     (if sz \<ge> OFFSETOF_DATA + 12
      then Some \<lparr>p_dict = replicate DNS_P_DICTSIZE 0,
                 p_qd = memo0, p_an = memo0, p_ns = memo0, p_ar = memo0,
                 p_size = sz - OFFSETOF_DATA, p_end = 12,
                 p_data = replicate 12 0 @ drop 12 raw\<rparr>
      else None)"

text \<open>\<open>dns_p_make\<close>, with an allocator that succeeds; what \<open>malloc\<close> leaves in the new object
  is taken to be zero.\<close>

definition dns_p_make :: "nat \<Rightarrow> dns_packet option" where
  "dns_p_make len = dns_p_init (replicate (max 12 len) 0) (dns_p_calcsize len)"

definition realloc_bytes :: "bytes \<Rightarrow> nat \<Rightarrow> bytes" where
  "realloc_bytes xs n = take n xs @ replicate (n - length xs) 0"

definition dns_p_grow_size :: "nat \<Rightarrow> nat" where
  "dns_p_grow_size sz0 =
     (let sz = sz0 OR drop_bit 1 sz0;
          sz = sz OR drop_bit 2 sz;
          sz = sz OR drop_bit 4 sz;
          sz = sz OR drop_bit 8 sz
      in sz + 1)"

definition dns_p_grow :: "dns_packet option \<Rightarrow> (dns_error + dns_packet) option" where
  "dns_p_grow P =
     (case P of
        None \<Rightarrow> do { P \<leftarrow> dns_p_make DNS_P_QBUFSIZ; Some (Inr P) }
      | Some P \<Rightarrow>
          (let sz = dns_p_grow_size (dns_p_sizeof P) in
           if sz > 65536 then Some (Inl DNS_ENOBUFS)
           else Some (Inr (P\<lparr>p_data := realloc_bytes (p_data P) (max 12 sz), p_size := sz\<rparr>))))"

definition dns_p_copy :: "dns_packet \<Rightarrow> dns_packet \<Rightarrow> dns_packet option" where
  "dns_p_copy P P0 = do {
     let P = P\<lparr>p_end := min (p_size P) (p_end P0)\<rparr>;
     xs \<leftarrow> rd_mem (p_data P0) 0 (p_end P);
     d \<leftarrow> wr_mem (p_data P) 0 xs;
     Some (P\<lparr>p_data := d\<rparr>) }"

definition dns_s_unstudy :: "dns_s_memo \<Rightarrow> dns_s_memo" where
  "dns_s_unstudy m = m\<lparr>m_base := 0, m_end := 0\<rparr>"

definition dns_p_unstudy :: "dns_packet \<Rightarrow> dns_packet" where
  "dns_p_unstudy P =
     P\<lparr>p_qd := dns_s_unstudy (p_qd P), p_an := dns_s_unstudy (p_an P),
       p_ns := dns_s_unstudy (p_ns P), p_ar := dns_s_unstudy (p_ar P)\<rparr>"

subsection \<open>Well-formed packets\<close>

text \<open>The invariant of every packet the library builds or receives: the allocation has room
  for the header, positions fit an \<open>unsigned short\<close>, and \<open>end\<close> never passes \<open>size\<close>.\<close>

definition wf_packet :: "dns_packet \<Rightarrow> bool" where
  "wf_packet P \<longleftrightarrow>
     length (p_data P) = p_size P \<and> 12 \<le> p_end P \<and> p_end P \<le> p_size P \<and> p_size P \<le> 65535 \<and>
     length (p_dict P) = DNS_P_DICTSIZE \<and> (\<forall>d \<in> set (p_dict P). d < 65536)"

text \<open>What reading a packet relies on: a received packet may have any \<open>end\<close>, even one
  shorter than a header.\<close>

definition readable :: "dns_packet \<Rightarrow> bool" where
  "readable P \<longleftrightarrow> p_end P \<le> length (p_data P) \<and> p_end P < 65536 \<and> 12 \<le> length (p_data P)"

lemma wf_packet_readable [simp]: "wf_packet P \<Longrightarrow> readable P"
  by (simp add: wf_packet_def readable_def)

lemma readable_rd: "readable P \<Longrightarrow> i < p_end P \<Longrightarrow> rd (p_data P) i = Some (p_data P ! i)"
  by (simp add: readable_def)

lemma rd16_Some [simp]:
  "i + 1 < length xs \<Longrightarrow> rd16 xs i = Some (be16 (xs ! i) (xs ! (i + 1)))"
  by (simp add: rd16_def)

lemma wr16_Some [simp]:
  "i + 1 < length xs \<Longrightarrow> wr16 xs i v = Some (xs[i := byte_of (drop_bit 8 v), i + 1 := byte_of v])"
  by (simp add: wr16_def)

lemma hd16_less [simp]: "hd16 P i < 65536"
  by (simp add: hd16_def)

lemma dns_p_count_less: "dns_p_count P section < 4 * 65536"
  using hd16_less [of P 4] hd16_less [of P 6] hd16_less [of P 8] hd16_less [of P 10]
  unfolding dns_p_count_def hd_qdcount_def hd_ancount_def hd_nscount_def hd_arcount_def
  by (auto simp del: hd16_less)

lemma dns_p_count_QD_less [simp]: "dns_p_count P DNS_S_QD < 65536"
  by (simp add: dns_p_count_def hd_qdcount_def)

lemma hd16_set_same: "i + 1 < length (p_data P) \<Longrightarrow> hd16 (hd16_set P i v) i = u16 v"
  by (simp add: hd16_set_def hd16_def be16_bytes)

lemma hd16_set_other:
  "j \<noteq> i \<Longrightarrow> j \<noteq> i + 1 \<Longrightarrow> j + 1 \<noteq> i \<Longrightarrow> hd16 (hd16_set P i v) j = hd16 P j"
  by (simp add: hd16_set_def hd16_def)

lemma hd16_set_simps [simp]:
  "p_size (hd16_set P i v) = p_size P" "p_end (hd16_set P i v) = p_end P"
  "p_dict (hd16_set P i v) = p_dict P" "length (p_data (hd16_set P i v)) = length (p_data P)"
  "p_qd (hd16_set P i v) = p_qd P" "p_an (hd16_set P i v) = p_an P"
  "p_ns (hd16_set P i v) = p_ns P" "p_ar (hd16_set P i v) = p_ar P"
  by (simp_all add: hd16_set_def)

lemma hd16_set_wf [simp]: "wf_packet (hd16_set P i v) = wf_packet P"
  by (simp add: wf_packet_def)

lemma dns_p_make_wf:
  "len \<le> 65535 \<Longrightarrow> \<exists>P. dns_p_make len = Some P \<and> wf_packet P \<and> p_end P = 12 \<and> p_size P = max 12 len"
  by (auto simp: dns_p_make_def dns_p_init_def dns_p_calcsize_def wf_packet_def c_defs)

lemma dns_p_copy_wf:
  "wf_packet P \<Longrightarrow> wf_packet P0 \<Longrightarrow> \<exists>P'. dns_p_copy P P0 = Some P' \<and> wf_packet P' \<and>
     p_end P' = min (p_size P) (p_end P0) \<and>
     take (p_end P') (p_data P') = take (p_end P') (p_data P0)"
  by (auto simp: dns_p_copy_def wf_packet_def Let_def min_def)

lemma realloc_bytes_length [simp]: "length (realloc_bytes xs n) = n"
  by (simp add: realloc_bytes_def)


end
