(* ===== verification/Names.thy ===== *)
theory Names
  imports Packet
begin

section \<open>Domain names in packets\<close>

text \<open>
  DOMAIN NAME ROUTINES of \<open>dns.c\<close>: labels and their compression pointers
  (\<open>dns_l_expand\<close>, \<open>dns_l_skip\<close>), names (\<open>dns_d_comp\<close>, \<open>dns_d_skip\<close>, \<open>dns_d_expand\<close>,
  \<open>dns_d_push\<close>) and the compression dictionary (\<open>dns_p_dictadd\<close>). Each \<open>while\<close> or
  \<open>goto retry\<close> is a step function run by \<open>c_while\<close>.
\<close>

definition DNS_D_MAXPTRS :: nat where [c_defs]: "DNS_D_MAXPTRS = 127"

subsection \<open>Labels\<close>

text \<open>\<open>0x03 & (b >> 6)\<close>, \<open>0x3f & b\<close> and the 14-bit offset of a pointer.\<close>

definition lab_type :: "byte \<Rightarrow> nat" where
  "lab_type b = 3 AND drop_bit 6 (unat b)"

definition lab_len :: "byte \<Rightarrow> nat" where
  "lab_len b = 63 AND unat b"

definition lab_ptr :: "byte \<Rightarrow> byte \<Rightarrow> nat" where
  "lab_ptr a b = push_bit 8 (63 AND unat a) OR (255 AND unat b)"

text \<open>The result is the buffer, \<open>*nxt\<close> and the length.\<close>

definition dns_l_expand_step ::
    "bytes \<Rightarrow> nat \<Rightarrow> bytes \<Rightarrow> nat \<Rightarrow> nat \<times> nat \<Rightarrow> (nat \<times> nat + bytes \<times> nat \<times> nat) option" where
  "dns_l_expand_step dst lim data end = (\<lambda>(src, nptrs).
     let invalid = Some (Inr (dst, u16 end, 0)) in
     if src \<ge> end then invalid
     else do {
       b \<leftarrow> rd data src;
       if lab_type b = 0 then do {
         let len = lab_len b;
         let src = u16 (src + 1);
         if sz_sub end src < len then invalid
         else do {
           dst \<leftarrow> (if lim > 0 then do {
              xs \<leftarrow> rd_mem data src (min lim len);
              dst \<leftarrow> wr_mem dst 0 xs;
              wr dst (min (lim - 1) len) 0 } else Some dst);
           Some (Inr (dst, u16 (src + len), len)) } }
       else if lab_type b = 3 then
         (if nptrs + 1 > DNS_D_MAXPTRS then invalid
          else if sz_sub end src < 2 then invalid
          else do {
            b1 \<leftarrow> rd data (src + 1);
            Some (Inl (lab_ptr b b1, nptrs + 1)) })
       else invalid })"

definition dns_l_expand ::
    "bytes \<Rightarrow> nat \<Rightarrow> nat \<Rightarrow> bytes \<Rightarrow> nat \<Rightarrow> (bytes \<times> nat \<times> nat) option" where
  "dns_l_expand dst lim src data end = c_while (dns_l_expand_step dst lim data end) (src, 0)"

definition dns_l_skip :: "nat \<Rightarrow> bytes \<Rightarrow> nat \<Rightarrow> nat option" where
  "dns_l_skip src data end =
     (if src \<ge> end then Some (u16 end)
      else do {
        b \<leftarrow> rd data src;
        if lab_type b = 0 then do {
          let len = lab_len b;
          let src = u16 (src + 1);
          if sz_sub end src < len then Some (u16 end)
          else Some (if len \<noteq> 0 then u16 (src + len) else u16 end) }
        else Some (u16 end) })"

subsection \<open>The dictionary\<close>

text \<open>\<open>for (i = 0; i < lengthof (P->dict) && P->dict[i]; i++) if (P->dict[i] == lptr)\<close>.\<close>

fun dict_replace :: "nat list \<Rightarrow> nat \<Rightarrow> nat \<Rightarrow> nat list option" where
  "dict_replace [] lptr dn = None"
| "dict_replace (d # ds) lptr dn =
     (if d = 0 then None
      else if d = lptr then Some (dn # ds)
      else map_option ((#) d) (dict_replace ds lptr dn))"

fun dict_append :: "nat list \<Rightarrow> nat \<Rightarrow> nat list" where
  "dict_append [] dn = []"
| "dict_append (d # ds) dn = (if d = 0 then dn # ds else d # dict_append ds dn)"

definition dns_p_dictadd_step :: "dns_packet \<Rightarrow> nat \<Rightarrow> nat \<Rightarrow> (nat + nat list) option" where
  "dns_p_dictadd_step P dn lp =
     (if lp < p_end P then do {
        b \<leftarrow> rd (p_data P) lp;
        r \<leftarrow> (if 192 = (192 AND unat b) \<and> sz_sub (p_end P) lp \<ge> 2 \<and> lp \<noteq> dn then do {
           b1 \<leftarrow> rd (p_data P) (lp + 1);
           Some (dict_replace (p_dict P) (lab_ptr b b1) dn) } else Some None);
        (case r of
           Some dict \<Rightarrow> Some (Inr dict)
         | None \<Rightarrow> do { lp \<leftarrow> dns_l_skip lp (p_data P) (p_end P); Some (Inl lp) }) }
      else Some (Inr (dict_append (p_dict P) dn)))"

definition dns_p_dictadd :: "dns_packet \<Rightarrow> nat \<Rightarrow> dns_packet option" where
  "dns_p_dictadd P dn = do {
     dict \<leftarrow> c_while (dns_p_dictadd_step P dn) dn;
     Some (P\<lparr>p_dict := dict\<rparr>) }"

subsection \<open>From text to labels\<close>

text \<open>The first loop of \<open>dns_d_comp\<close> over the bytes of the name, with \<open>dst.p\<close>, \<open>dst.x\<close>,
  \<open>src.p\<close>, \<open>src.x\<close>.\<close>

fun dns_d_comp_text ::
    "bytes \<Rightarrow> bytes \<Rightarrow> nat \<Rightarrow> nat \<Rightarrow> nat \<Rightarrow> nat \<Rightarrow> nat \<Rightarrow> (bytes \<times> nat \<times> nat \<times> nat \<times> nat) option" where
  "dns_d_comp_text [] dst lim dp dx sp sx = Some (dst, dp, dx, sp, sx)"
| "dns_d_comp_text (ch # cs) dst lim dp dx sp sx =
     (if ch = 46 then do {
        dst \<leftarrow> put dst lim dp (of_nat (63 AND (sx - sp)));
        dns_d_comp_text cs dst lim dx (dx + 1) (sx + 1) (sx + 1) }
      else do {
        dst \<leftarrow> put dst lim dx ch;
        dns_d_comp_text cs dst lim dp (dx + 1) sp (sx + 1) })"

text \<open>The two label buffers of the compression search. The innermost loop walks both names
  in step while their labels agree.\<close>

definition dns_d_comp_match_step ::
    "bytes \<Rightarrow> nat \<Rightarrow> dns_packet \<Rightarrow> (bytes \<times> nat \<times> nat) \<times> (bytes \<times> nat \<times> nat) \<Rightarrow>
     ((bytes \<times> nat \<times> nat) \<times> (bytes \<times> nat \<times> nat) + (bytes \<times> nat) \<times> (bytes \<times> nat)) option" where
  "dns_d_comp_match_step dst lim P = (\<lambda>((al, alen, ay), (bl, blen, by)). do {
     go \<leftarrow> (if alen \<noteq> 0 \<and> blen \<noteq> 0
           then do { c \<leftarrow> c_strcasecmp al bl; Some (c = 0) } else Some False);
     if go then do {
       (al, ay, alen) \<leftarrow> dns_l_expand al (DNS_D_MAXLABEL + 1) ay dst lim;
       (bl, by, blen) \<leftarrow> dns_l_expand bl (DNS_D_MAXLABEL + 1) by (p_data P) (p_end P);
       Some (Inl ((al, alen, ay), (bl, blen, by))) }
     else Some (Inr ((al, alen), (bl, blen))) })"

text \<open>The loop over the labels of one dictionary name. The buffers \<open>a.label\<close>, \<open>a.len\<close> keep
  what the innermost loop left in them, while \<open>a.x\<close> stays.\<close>

definition dns_d_comp_b_step ::
    "bytes \<Rightarrow> nat \<Rightarrow> dns_packet \<Rightarrow> nat \<Rightarrow> (bytes \<times> nat) \<times> bytes \<times> nat \<Rightarrow>
     ((bytes \<times> nat) \<times> bytes \<times> nat + nat option \<times> (bytes \<times> nat) \<times> bytes) option" where
  "dns_d_comp_b_step dst lim P ax = (\<lambda>((al, alen), bl, bp). do {
     (bl, bx, blen) \<leftarrow> dns_l_expand bl (DNS_D_MAXLABEL + 1) bp (p_data P) (p_end P);
     if blen = 0 then Some (Inr (None, (al, alen), bl))
     else do {
       ((al, alen), (bl, blen)) \<leftarrow>
         c_while (dns_d_comp_match_step dst lim P) ((al, alen, ax), (bl, blen, bx));
       if alen = 0 \<and> blen = 0 \<and> bp \<le> 16383 then Some (Inr (Some bp, (al, alen), bl))
       else Some (Inl ((al, alen), bl, bx)) } })"

fun dns_d_comp_dict ::
    "bytes \<Rightarrow> nat \<Rightarrow> dns_packet \<Rightarrow> nat \<Rightarrow> nat list \<Rightarrow> bytes \<times> nat \<Rightarrow> bytes \<Rightarrow>
     (nat option \<times> bytes \<times> bytes) option" where
  "dns_d_comp_dict dst lim P ax [] (al, alen) bl = Some (None, al, bl)"
| "dns_d_comp_dict dst lim P ax (d # ds) (al, alen) bl =
     (if d = 0 then Some (None, al, bl)
      else do {
        (r, a, bl) \<leftarrow> c_while (dns_d_comp_b_step dst lim P ax) ((al, alen), bl, d);
        (case r of
           Some bp \<Rightarrow> Some (Some bp, fst a, bl)
         | None \<Rightarrow> dns_d_comp_dict dst lim P ax ds a bl) })"

text \<open>The outermost loop, over the suffixes of the name just laid out in \<open>dst\<close>: leaving it
  with \<open>Some\<close> is the return after a pointer was written.\<close>

definition dns_d_comp_a_step ::
    "bytes \<Rightarrow> nat \<Rightarrow> dns_packet \<Rightarrow> bytes \<times> bytes \<times> nat \<Rightarrow>
     (bytes \<times> bytes \<times> nat + (bytes \<times> nat) option) option" where
  "dns_d_comp_a_step dst lim P = (\<lambda>(al, bl, ap). do {
     (al, ax, alen) \<leftarrow> dns_l_expand al (DNS_D_MAXLABEL + 1) ap dst lim;
     if alen = 0 then Some (Inr None)
     else do {
       (r, al, bl) \<leftarrow> dns_d_comp_dict dst lim P ax (p_dict P) (al, alen) bl;
       (case r of
          Some bp \<Rightarrow> do {
            dst \<leftarrow> wr dst ap (of_nat (192 OR (63 AND drop_bit 8 bp)));
            dst \<leftarrow> wr dst (u16 (ap + 1)) (of_nat (255 AND bp));
            Some (Inr (Some (dst, u16 (u16 (ap + 1) + 1)))) }
        | None \<Rightarrow> Some (Inl (al, bl, ax))) } })"

text \<open>The part of \<open>dns_d_comp\<close> before the search: the labels are laid out in \<open>dst\<close>, and the
  result is \<open>dst.p\<close>.\<close>

definition dns_d_comp_layout :: "bytes \<Rightarrow> nat \<Rightarrow> bytes \<Rightarrow> (bytes \<times> nat) option" where
  "dns_d_comp_layout dst lim text = do {
     (dst, dp, dx, sp, sx) \<leftarrow> dns_d_comp_text text dst lim 0 1 0 0;
     (dst, dp) \<leftarrow>
       (if sx > sp then do {
          dst \<leftarrow> put dst lim dp (of_nat (63 AND (sx - sp)));
          Some (dst, dx) }
        else Some (dst, dp));
     if dp > 1 then do { dst \<leftarrow> put dst lim dp 0; Some (dst, dp + 1) } else Some (dst, dp) }"

definition dns_d_comp ::
    "bytes \<Rightarrow> nat \<Rightarrow> bytes \<Rightarrow> nat \<Rightarrow> dns_packet \<Rightarrow> (bytes \<times> (dns_error + nat)) option" where
  "dns_d_comp dst lim src len P = do {
     text \<leftarrow> rd_mem src 0 len;
     (dst, dp) \<leftarrow> dns_d_comp_layout dst lim text;
     r \<leftarrow> (if dp < lim
          then c_while (dns_d_comp_a_step dst lim P)
                 (replicate (DNS_D_MAXLABEL + 1) 0, replicate (DNS_D_MAXLABEL + 1) 0, 0)
          else Some None);
     (case r of
        Some (dst, n) \<Rightarrow> Some (dst, Inr n)
      | None \<Rightarrow> Some (dst, if dp = 0 then Inl DNS_EILLEGAL else Inr dp)) }"

subsection \<open>Skipping and expanding names\<close>

definition dns_d_skip_step :: "dns_packet \<Rightarrow> nat \<Rightarrow> (nat + nat) option" where
  "dns_d_skip_step P src =
     (let invalid = Some (Inr (u16 (p_end P))) in
      if src < p_end P then do {
        b \<leftarrow> rd (p_data P) src;
        if lab_type b = 0 then
          (let len = lab_len b; src = u16 (src + 1) in
           if len = 0 then Some (Inr src)
           else if sz_sub (p_end P) src > len then Some (Inl (u16 (src + len)))
           else invalid)
        else if lab_type b = 3 then
          (if sz_sub (p_end P) src < 2 then invalid else Some (Inr (u16 (src + 2))))
        else invalid }
      else invalid)"

definition dns_d_skip :: "nat \<Rightarrow> dns_packet \<Rightarrow> nat option" where
  "dns_d_skip src P = c_while (dns_d_skip_step P) src"

text \<open>The state of the loop of \<open>dns_d_expand\<close>: \<open>dst\<close>, \<open>dstp\<close>, \<open>src\<close>, \<open>nptrs\<close>.\<close>

type_synonym expand_state = "bytes \<times> nat \<times> nat \<times> nat"

definition dns_d_expand_fail ::
    "bytes \<Rightarrow> nat \<Rightarrow> nat \<Rightarrow> (expand_state + bytes \<times> (dns_error + nat)) option" where
  "dns_d_expand_fail dst lim dstp = do {
     dst \<leftarrow> (if lim > 0 then wr dst (min dstp (lim - 1)) 0 else Some dst);
     Some (Inr (dst, Inl DNS_EILLEGAL)) }"

definition dns_d_expand_step ::
    "nat \<Rightarrow> dns_packet \<Rightarrow> expand_state \<Rightarrow> (expand_state + bytes \<times> (dns_error + nat)) option" where
  "dns_d_expand_step lim P = (\<lambda>(dst, dstp, src, nptrs).
     if src < p_end P then do {
       b \<leftarrow> rd (p_data P) src;
       if lab_type b = 0 then do {
         let len = lab_len b;
         if len = 0 then do {
           (dst, dstp) \<leftarrow>
             (if dstp = 0 then do { dst \<leftarrow> put dst lim dstp 46; Some (dst, dstp + 1) }
              else Some (dst, dstp));
           dst \<leftarrow> (if lim > 0 then wr dst (min dstp (lim - 1)) 0 else Some dst);
           Some (Inr (dst, Inr dstp)) }
         else do {
           let src = u16 (src + 1);
           if sz_sub (p_end P) src < len then dns_d_expand_fail dst lim dstp
           else do {
             dst \<leftarrow> (if dstp < lim then do {
                xs \<leftarrow> rd_mem (p_data P) src (min len (lim - dstp));
                wr_mem dst dstp xs } else Some dst);
             let src = u16 (src + len);
             let dstp = dstp + len;
             dst \<leftarrow> put dst lim dstp 46;
             Some (Inl (dst, dstp + 1, src, 0)) } } }
       else if lab_type b = 3 then
         (if nptrs + 1 > DNS_D_MAXPTRS then dns_d_expand_fail dst lim dstp
          else if sz_sub (p_end P) src < 2 then dns_d_expand_fail dst lim dstp
          else do {
            b1 \<leftarrow> rd (p_data P) (src + 1);
            Some (Inl (dst, dstp, lab_ptr b b1, nptrs + 1)) })
       else dns_d_expand_fail dst lim dstp }
     else dns_d_expand_fail dst lim dstp)"

definition dns_d_expand ::
    "bytes \<Rightarrow> nat \<Rightarrow> nat \<Rightarrow> dns_packet \<Rightarrow> (bytes \<times> (dns_error + nat)) option" where
  "dns_d_expand dst lim src P = c_while (dns_d_expand_step lim P) (dst, 0, src, 0)"

subsection \<open>Appending a name\<close>

text \<open>Operations that change a packet return it with the error code, \<open>None\<close> for \<open>0\<close>.\<close>

definition dns_d_push ::
    "dns_packet \<Rightarrow> bytes \<Rightarrow> nat \<Rightarrow> (dns_packet \<times> dns_error option) option" where
  "dns_d_push P dn len = do {
     let lim = sz_sub (p_size P) (p_end P);
     let dp = p_end P;
     (reg, r) \<leftarrow> dns_d_comp (drop dp (p_data P)) lim dn len P;
     let P = P\<lparr>p_data := take dp (p_data P) @ reg\<rparr>;
     (case r of
        Inl e \<Rightarrow> Some (P, Some e)
      | Inr n \<Rightarrow>
          (if n > lim then Some (P, Some DNS_ENOBUFS)
           else do {
             P \<leftarrow> dns_p_dictadd (P\<lparr>p_end := p_end P + n\<rparr>) (u16 dp);
             Some (P, None) })) }"


subsection \<open>Label bytes\<close>

lemma lab_len_eq: "lab_len b = unat b mod 64"
  by (simp add: lab_len_def nat_and_63)

lemma lab_len_le [simp]: "lab_len b \<le> 63"
  unfolding lab_len_eq using mod_less_divisor [of 64 "unat b"] by linarith

lemma lab_type_eq: "lab_type b = unat b div 64"
proof -
  have "3 AND n = n mod 4" for n :: nat
    using take_bit_eq_mask [of 2 n] by (simp add: mask_eq_exp_minus_1 take_bit_eq_mod ac_simps)
  moreover have "unat b div 64 < 4"
    by (rule less_mult_imp_div_less) (use unat_byte_less [of b] in linarith)
  ultimately show ?thesis by (simp add: lab_type_def drop_bit_eq_div)
qed

lemma lab_ptr_eq: "lab_ptr a b = unat a mod 64 * 256 + unat b"
proof -
  have "unat b mod 256 < 2 ^ 8" by simp
  from nat_or_disjoint [OF this] show ?thesis
    by (simp add: lab_ptr_def nat_and_255 nat_and_63)
qed

lemma lab_ptr_less [simp]: "lab_ptr a b < 16384"
proof -
  have "unat a mod 64 \<le> 63" using mod_less_divisor [of 64 "unat a"] by linarith
  with unat_byte_less [of b] show ?thesis unfolding lab_ptr_eq by linarith
qed

lemma lab_of_nat [simp]:
  "k \<le> 63 \<Longrightarrow> lab_type (of_nat k) = 0" "k \<le> 63 \<Longrightarrow> lab_len (of_nat k) = k"
  by (simp_all add: lab_type_eq lab_len_eq unat_of_nat)

subsection \<open>Skipping names\<close>

definition skip_inv :: "dns_packet \<Rightarrow> nat \<Rightarrow> nat \<Rightarrow> bool" where
  "skip_inv P s0 s \<longleftrightarrow> readable P \<and> s0 \<le> s \<and> (s = s0 \<or> s \<le> p_end P)"

definition skip_post :: "dns_packet \<Rightarrow> nat \<Rightarrow> nat \<Rightarrow> bool" where
  "skip_post P s0 r \<longleftrightarrow> r \<le> p_end P \<and> (s0 < p_end P \<longrightarrow> s0 < r)"

interpretation d_skip: bounded_loop "dns_d_skip_step P" "skip_inv P s0" "\<lambda>s. p_end P - s"
  "skip_post P s0" for P s0
proof unfold_locales
  fix s assume "skip_inv P s0 s"
  then show "dns_d_skip_step P s \<noteq> None"
    by (auto simp: dns_d_skip_step_def skip_inv_def readable_def Let_def)
next
  fix s s' assume "skip_inv P s0 s" "dns_d_skip_step P s = Some (Inl s')"
  then show "skip_inv P s0 s'" "p_end P - s' < p_end P - s"
    by (auto simp: dns_d_skip_step_def skip_inv_def readable_def Let_def split: if_splits)
next
  fix s r assume "skip_inv P s0 s" "dns_d_skip_step P s = Some (Inr r)"
  then show "skip_post P s0 r"
    by (auto simp: dns_d_skip_step_def skip_inv_def skip_post_def readable_def Let_def
        split: if_splits)
qed

lemma dns_d_skip_returns:
  "readable P \<Longrightarrow> \<exists>r. dns_d_skip src P = Some r \<and> r \<le> p_end P \<and> (src < p_end P \<longrightarrow> src < r)"
  using d_skip.returns [of P src src]
  by (simp add: dns_d_skip_def skip_inv_def skip_post_def)

subsection \<open>Single labels\<close>

lemma dns_l_skip_returns:
  "end \<le> length data \<Longrightarrow> end < 65536 \<Longrightarrow>
   \<exists>r. dns_l_skip src data end = Some r \<and> r \<le> end \<and> (src < end \<longrightarrow> src < r)"
  by (auto simp: dns_l_skip_def Let_def)

lemma copy_label:
  assumes "lim \<le> length dst" and "src + len \<le> length data"
  shows "\<exists>dst'. (if lim > 0 then do {
              xs \<leftarrow> rd_mem data src (min lim len);
              dst \<leftarrow> wr_mem dst 0 xs;
              wr dst (min (lim - 1) len) 0 } else Some dst) = Some dst' \<and>
     length dst' = length dst \<and> holds_cstr lim (take len (drop src data)) dst'"
proof (cases "lim = 0")
  case True
  then show ?thesis by (simp add: holds_cstr_def)
next
  case False
  define n where "n = min lim len"
  define k where "k = min (lim - 1) len"
  define ys where "ys = take n (drop src data)"
  have ys: "length ys = n" "n \<le> length dst" "k < length dst" "k \<le> n"
    using assms False by (auto simp: n_def k_def ys_def)
  have rd: "rd_mem data src n = Some ys"
    using assms by (simp add: n_def ys_def)
  have wm: "wr_mem dst 0 ys = Some (ys @ drop n dst)"
    using ys by simp
  have "take k ys = take k (take len (drop src data))"
    by (simp add: ys_def n_def k_def min_def)
  moreover have "take k (take len (drop src data)) = take (lim - 1) (take len (drop src data))"
    by (simp add: k_def)
  moreover have "take (Suc k) ((ys @ drop n dst)[k := 0]) = take k ys @ [0]"
    using ys by (subst take_Suc_update) auto
  moreover have "length (take len (drop src data)) = len" using assms by simp
  ultimately have "holds_cstr lim (take len (drop src data)) ((ys @ drop n dst)[k := 0])"
    by (simp add: holds_cstr_def k_def)
  then show ?thesis
    using False rd wm ys by (simp add: n_def [symmetric] k_def [symmetric] del: One_nat_def)
qed

lemma l_expand_step_label:
  assumes "lim \<le> length dst" "end \<le> length data" "end < 65536"
    and "lab_type (data ! src) = 0" "src + 1 + lab_len (data ! src) \<le> end"
  shows "\<exists>dst'. dns_l_expand_step dst lim data end (src, n) =
       Some (Inr (dst', src + 1 + lab_len (data ! src), lab_len (data ! src))) \<and>
     length dst' = length dst \<and>
     holds_cstr lim (take (lab_len (data ! src)) (drop (src + 1) data)) dst'"
proof -
  have "src + 1 + lab_len (data ! src) \<le> length data" using assms by simp
  from copy_label [OF assms(1) this] obtain dst' where dst':
    "(if lim > 0 then do {
        xs \<leftarrow> rd_mem data (src + 1) (min lim (lab_len (data ! src)));
        dst \<leftarrow> wr_mem dst 0 xs;
        wr dst (min (lim - 1) (lab_len (data ! src))) 0 } else Some dst) = Some dst'"
    "length dst' = length dst"
    "holds_cstr lim (take (lab_len (data ! src)) (drop (src + 1) data)) dst'" by auto
  moreover have "src < end" "u16 (src + 1) = src + 1" "src < length data"
    "\<not> sz_sub end (src + 1) < lab_len (data ! src)"
    "u16 (src + 1 + lab_len (data ! src)) = src + 1 + lab_len (data ! src)"
    using assms by auto
  ultimately show ?thesis
    using assms(4) unfolding dns_l_expand_step_def Let_def
    by (cases "lim = 0") (auto simp: bind_eq_Some_conv simp del: One_nat_def)
qed

lemma l_expand_step_ptr:
  assumes "end \<le> length data" "src + 1 < end" "lab_type (data ! src) = 3" "n < 127"
  shows "dns_l_expand_step dst lim data end (src, n) =
     Some (Inl (lab_ptr (data ! src) (data ! (src + 1)), n + 1))"
  using assms by (simp add: dns_l_expand_step_def Let_def c_defs)

lemma l_expand_step_invalid:
  assumes "end \<le> length data" "end < 65536"
    and "\<not> (src < end \<and> lab_type (data ! src) = 0 \<and> src + 1 + lab_len (data ! src) \<le> end)"
    and "\<not> (src + 1 < end \<and> lab_type (data ! src) = 3 \<and> n < 127)"
  shows "dns_l_expand_step dst lim data end (src, n) = Some (Inr (dst, end, 0))"
proof (cases "src < end")
  case False
  then show ?thesis using assms(2) by (simp add: dns_l_expand_step_def)
next
  case True
  then have "u16 (src + 1) = src + 1" using assms(2) by simp
  with True assms show ?thesis
    by (auto simp: dns_l_expand_step_def Let_def c_defs)
qed

definition lexp_inv :: "bytes \<Rightarrow> nat \<Rightarrow> bytes \<Rightarrow> nat \<Rightarrow> nat \<times> nat \<Rightarrow> bool" where
  "lexp_inv dst lim data end s \<longleftrightarrow>
     lim \<le> length dst \<and> end \<le> length data \<and> end < 65536 \<and> snd s \<le> 127"

definition lexp_post :: "bytes \<Rightarrow> nat \<Rightarrow> bytes \<Rightarrow> nat \<Rightarrow> bytes \<times> nat \<times> nat \<Rightarrow> bool" where
  "lexp_post dst lim data end = (\<lambda>(dst', nxt, len).
     length dst' = length dst \<and> nxt \<le> end \<and> len \<le> 63 \<and> 
     (len > 0 \<longrightarrow> len \<le> nxt \<and> holds_cstr lim (take len (drop (nxt - len) data)) dst'))"

lemma lexp_step_cases:
  assumes "lexp_inv dst lim data end (src, n)"
  obtains (ptr) "dns_l_expand_step dst lim data end (src, n) =
      Some (Inl (lab_ptr (data ! src) (data ! (src + 1)), n + 1))" "n < 127"
  | (out) r where "dns_l_expand_step dst lim data end (src, n) = Some (Inr r)"
      "lexp_post dst lim data end r"
proof -
  have inv: "lim \<le> length dst" "end \<le> length data" "end < 65536"
    using assms by (auto simp: lexp_inv_def)
  consider "src < end \<and> lab_type (data ! src) = 0 \<and> src + 1 + lab_len (data ! src) \<le> end"
    | "src + 1 < end \<and> lab_type (data ! src) = 3 \<and> n < 127"
    | "\<not> (src < end \<and> lab_type (data ! src) = 0 \<and> src + 1 + lab_len (data ! src) \<le> end)"
      "\<not> (src + 1 < end \<and> lab_type (data ! src) = 3 \<and> n < 127)" by blast
  then show thesis
  proof cases
    case 1
    then show thesis
      using l_expand_step_label [OF inv, of src n] by (auto intro!: out simp: lexp_post_def)
  next
    case 2
    then show thesis using l_expand_step_ptr [OF inv(2)] by (auto intro!: ptr)
  next
    case 3
    then show thesis
      using l_expand_step_invalid [OF inv(2,3) 3] by (intro out) (auto simp: lexp_post_def)
  qed
qed

interpretation l_expand: bounded_loop "dns_l_expand_step dst lim data end"
  "lexp_inv dst lim data end" "\<lambda>s. 127 - snd s" "lexp_post dst lim data end"
  for dst lim data "end"
proof unfold_locales
  fix s assume "lexp_inv dst lim data end s"
  then show "dns_l_expand_step dst lim data end s \<noteq> None"
    by (cases s) (metis lexp_step_cases option.distinct(1))
next
  fix s s' assume s: "lexp_inv dst lim data end s" "dns_l_expand_step dst lim data end s = Some (Inl s')"
  obtain src n where sn: "s = (src, n)" by force
  from s(1) [unfolded sn] have "snd s' = n + 1 \<and> n < 127"
    by (rule lexp_step_cases) (use s(2) sn in auto)
  then show "lexp_inv dst lim data end s'" "127 - snd s' < 127 - snd s"
    using s(1) by (auto simp: lexp_inv_def sn)
next
  fix s r assume s: "lexp_inv dst lim data end s" "dns_l_expand_step dst lim data end s = Some (Inr r)"
  obtain src n where sn: "s = (src, n)" by force
  from s(1) [unfolded sn] show "lexp_post dst lim data end r"
    by (rule lexp_step_cases) (use s(2) sn in auto)
qed

lemma dns_l_expand_returns:
  assumes "lim \<le> length dst" "end \<le> length data" "end < 65536"
  shows "\<exists>dst' nxt len. dns_l_expand dst lim src data end = Some (dst', nxt, len) \<and>
     lexp_post dst lim data end (dst', nxt, len)"
  using l_expand.returns [of dst lim data "end" "(src, 0)"] assms
  by (auto simp: dns_l_expand_def lexp_inv_def)

subsection \<open>The dictionary\<close>

lemma dict_replace_length: "dict_replace ds lptr dn = Some ds' \<Longrightarrow> length ds' = length ds"
  by (induction ds arbitrary: ds') (auto split: if_splits)

lemma dict_replace_set: "dict_replace ds lptr dn = Some ds' \<Longrightarrow> set ds' \<subseteq> insert dn (set ds)"
  by (induction ds arbitrary: ds') (auto split: if_splits)

lemma dict_append_length [simp]: "length (dict_append ds dn) = length ds"
  by (induction ds) auto

lemma dict_append_set: "set (dict_append ds dn) \<subseteq> insert dn (set ds)"
  by (induction ds) auto

definition dictadd_post :: "dns_packet \<Rightarrow> nat \<Rightarrow> nat list \<Rightarrow> bool" where
  "dictadd_post P dn ds \<longleftrightarrow> length ds = length (p_dict P) \<and> set ds \<subseteq> insert dn (set (p_dict P))"

interpretation dictadd: bounded_loop "dns_p_dictadd_step P dn" "\<lambda>lp. readable P"
  "\<lambda>lp. p_end P - lp" "dictadd_post P dn" for P dn
proof unfold_locales
  fix lp assume r: "readable P"
  have sk: "\<exists>r. dns_l_skip lp (p_data P) (p_end P) = Some r \<and> (lp < p_end P \<longrightarrow> lp < r)"
    using dns_l_skip_returns [of "p_end P" "p_data P" lp] r by (auto simp: readable_def)
  show "dns_p_dictadd_step P dn lp \<noteq> None"
    using sk r by (auto simp: dns_p_dictadd_step_def readable_def split: option.splits)
next
  fix lp lp' assume r: "readable P" and st: "dns_p_dictadd_step P dn lp = Some (Inl lp')"
  have "lp < p_end P \<and> dns_l_skip lp (p_data P) (p_end P) = Some lp'"
    using st by (auto simp: dns_p_dictadd_step_def bind_eq_Some_conv split: if_splits option.splits)
  then show "p_end P - lp' < p_end P - lp"
    using dns_l_skip_returns [of "p_end P" "p_data P" lp] r by (auto simp: readable_def)
next
  fix lp r assume "dns_p_dictadd_step P dn lp = Some (Inr r)"
  then show "dictadd_post P dn r"
    using dict_append_set [of "p_dict P" dn]
    by (auto simp: dns_p_dictadd_step_def dictadd_post_def bind_eq_Some_conv
        dest: dict_replace_length dict_replace_set split: if_splits option.splits)
qed

lemma dns_p_dictadd_returns:
  assumes "readable P"
  shows "\<exists>ds. dns_p_dictadd P dn = Some (P\<lparr>p_dict := ds\<rparr>) \<and> length ds = length (p_dict P) \<and>
     set ds \<subseteq> insert dn (set (p_dict P))"
  using dictadd.returns [of P dn dn] assms by (auto simp: dns_p_dictadd_def dictadd_post_def)


subsection \<open>The names a packet holds\<close>

text \<open>
  What \<open>dns_d_expand\<close> is meant to read: \<open>name_at P n src ls\<close> says that the labels \<open>ls\<close>
  start at \<open>src\<close>, where \<open>n\<close> pointers have been followed since the last label. No clause
  mentions a buffer.
\<close>

inductive name_at :: "dns_packet \<Rightarrow> nat \<Rightarrow> nat \<Rightarrow> bytes list \<Rightarrow> bool" for P where
  name_end: "src < p_end P \<Longrightarrow> p_data P ! src = 0 \<Longrightarrow> name_at P n src []"
| name_label: "src < p_end P \<Longrightarrow> lab_type (p_data P ! src) = 0 \<Longrightarrow> len = lab_len (p_data P ! src) \<Longrightarrow>
    0 < len \<Longrightarrow> src + 1 + len \<le> p_end P \<Longrightarrow> name_at P 0 (src + 1 + len) ls \<Longrightarrow>
    name_at P n src (take len (drop (src + 1) (p_data P)) # ls)"
| name_ptr: "src + 1 < p_end P \<Longrightarrow> lab_type (p_data P ! src) = 3 \<Longrightarrow> n < DNS_D_MAXPTRS \<Longrightarrow>
    name_at P (n + 1) (lab_ptr (p_data P ! src) (p_data P ! (src + 1))) ls \<Longrightarrow>
    name_at P n src ls"

fun name_text :: "bytes list \<Rightarrow> bytes" where
  "name_text [] = []"
| "name_text (l # ls) = l @ 46 # name_text ls"

definition name_full :: "bytes list \<Rightarrow> bytes" where
  "name_full ls = (if ls = [] then [46] else name_text ls)"

inductive_cases name_at_cases: "name_at P n src ls"

lemma lab_zero: "lab_type b = 0 \<Longrightarrow> lab_len b = 0 \<longleftrightarrow> b = 0"
proof
  assume "lab_type b = 0" "lab_len b = 0"
  then have "unat b div 64 = 0" "unat b mod 64 = 0" by (simp_all add: lab_type_eq lab_len_eq)
  then have "unat b = 0" using div_mult_mod_eq [of "unat b" 64] by simp
  then show "b = 0" by (simp add: unat_eq_0)
qed (simp add: lab_len_eq)

lemma lab_byte_0 [simp]: "lab_type 0 = 0" "lab_len 0 = 0"
  by (simp_all add: lab_type_eq lab_len_eq)

lemma name_at_end: "src < p_end P \<Longrightarrow> p_data P ! src = 0 \<Longrightarrow> name_at P n src ls \<longleftrightarrow> ls = []"
  by (auto intro: name_end elim: name_at_cases)

lemma name_at_label:
  assumes "src < p_end P" "lab_type (p_data P ! src) = 0" "0 < lab_len (p_data P ! src)"
  shows "name_at P n src ls \<longleftrightarrow> src + 1 + lab_len (p_data P ! src) \<le> p_end P \<and>
    (\<exists>ls'. name_at P 0 (src + 1 + lab_len (p_data P ! src)) ls' \<and>
       ls = take (lab_len (p_data P ! src)) (drop (src + 1) (p_data P)) # ls')"
proof
  assume "name_at P n src ls"
  then show "src + 1 + lab_len (p_data P ! src) \<le> p_end P \<and>
    (\<exists>ls'. name_at P 0 (src + 1 + lab_len (p_data P ! src)) ls' \<and>
       ls = take (lab_len (p_data P ! src)) (drop (src + 1) (p_data P)) # ls')"
    by (rule name_at_cases) (use assms in auto)
qed (use assms name_label [of src P "lab_len (p_data P ! src)" _ n] in blast)

lemma name_at_ptr:
  assumes "lab_type (p_data P ! src) = 3"
  shows "name_at P n src ls \<longleftrightarrow> src + 1 < p_end P \<and> n < DNS_D_MAXPTRS \<and>
    name_at P (n + 1) (lab_ptr (p_data P ! src) (p_data P ! (src + 1))) ls"
  using assms by (auto intro: name_ptr elim: name_at_cases)

lemma name_at_invalid:
  assumes "src < p_end P \<Longrightarrow> lab_type (p_data P ! src) \<noteq> 0 \<and> lab_type (p_data P ! src) \<noteq> 3"
  shows "\<not> name_at P n src ls"
  using assms by (auto elim: name_at_cases)

lemma name_at_bound: "name_at P n src ls \<Longrightarrow> src < p_end P"
  by (auto elim: name_at_cases)

text \<open>The labels at a position are determined.\<close>

lemma name_at_unique: "name_at P n src ls \<Longrightarrow> name_at P n src ls' \<Longrightarrow> ls = ls'"
proof (induction arbitrary: ls' rule: name_at.induct)
  case (name_end src n)
  then show ?case by (simp add: name_at_end)
next
  case (name_label src len ls n)
  obtain ls'' where "name_at P 0 (src + 1 + len) ls''"
    "ls' = take len (drop (src + 1) (p_data P)) # ls''"
    using name_at_label [THEN iffD1, OF _ _ _ name_label.prems] name_label.hyps by auto
  then show ?case using name_label.IH by blast
next
  case (name_ptr src n ls)
  from name_ptr.IH name_at_ptr [THEN iffD1, OF name_ptr.hyps(2) name_ptr.prems]
  show ?case by simp
qed

subsection \<open>Expanding a name\<close>


lemma expand_step_end:
  assumes "readable P" "src < p_end P" "p_data P ! src = 0" "holds_text lim xs dst"
  shows "\<exists>dst'. dns_d_expand_step lim P (dst, length xs, src, n) =
      Some (Inr (dst', Inr (length (if xs = [] then [46] else xs)))) \<and>
    length dst' = length dst \<and> holds_cstr lim (if xs = [] then [46] else xs) dst'"
proof -
  have "\<exists>d. (if xs = [] then put dst lim 0 46 else Some dst) = Some d \<and>
    length d = length dst \<and> holds_text lim (if xs = [] then [46] else xs) d"
    using holds_text_put [of lim "[]" dst 46] assms(4) by (cases "xs = []") auto
  then obtain d where d: "(if xs = [] then put dst lim 0 46 else Some dst) = Some d"
    "length d = length dst" "holds_text lim (if xs = [] then [46] else xs) d" by blast
  from holds_text_nul [OF d(3)] obtain d' where
    "(if lim > 0 then wr d (min (length (if xs = [] then [46] else xs)) (lim - 1)) 0 else Some d) = Some d'"
    "length d' = length d" "holds_cstr lim (if xs = [] then [46] else xs) d'" by auto
  note d' = this
  have rd: "rd (p_data P) src = Some (p_data P ! src)" by (rule readable_rd [OF assms(1,2)])
  show ?thesis
  proof (cases "xs = []")
    case True
    with d(1) have "put dst lim 0 46 = Some d" by simp
    then show ?thesis using True d' d(2) rd assms(2,3)
      by (cases "lim = 0") (simp_all add: dns_d_expand_step_def Let_def)
  next
    case False
    then show ?thesis using d' d rd assms(2,3)
      by (cases "lim = 0") (simp_all add: dns_d_expand_step_def Let_def)
  qed
qed

lemma expand_step_label:
  assumes "readable P" "src < p_end P" "lab_type (p_data P ! src) = 0"
    and "len = lab_len (p_data P ! src)" "0 < len" "src + 1 + len \<le> p_end P"
    and "holds_text lim xs dst"
  shows "\<exists>dst'. dns_d_expand_step lim P (dst, length xs, src, n) =
      Some (Inl (dst', length (xs @ take len (drop (src + 1) (p_data P)) @ [46]), src + 1 + len, 0)) \<and>
    length dst' = length dst \<and>
    holds_text lim (xs @ take len (drop (src + 1) (p_data P)) @ [46]) dst'"
proof -
  define l where "l = take len (drop (src + 1) (p_data P))"
  have l: "length l = len" using assms(1,6) by (auto simp: l_def readable_def min_def)
  have pe: "p_end P < 65536" "p_end P \<le> length (p_data P)" using assms(1) by (auto simp: readable_def)
  obtain d where d: "(if length xs < lim
       then wr_mem dst (length xs) (take (lim - length xs) l) else Some dst) = Some d"
    "length d = length dst" "holds_text lim (xs @ l) d"
    using holds_text_mem [OF assms(7) l] by auto
  obtain d' where d': "put d lim (length (xs @ l)) 46 = Some d'" "length d' = length d"
    "holds_text lim ((xs @ l) @ [46]) d'"
    using holds_text_put [OF d(3)] by blast
  have "rd_mem (p_data P) (src + 1) (min len (lim - length xs)) = Some (take (lim - length xs) l)"
    using assms(6) pe by (simp add: l_def min.commute)
  then have "(if length xs < lim then do {
        ys \<leftarrow> rd_mem (p_data P) (src + 1) (min len (lim - length xs));
        wr_mem dst (length xs) ys } else Some dst) = Some d"
    using d(1) by (cases "length xs < lim") simp_all
  moreover have "u16 (src + 1) = src + 1" "u16 (src + 1 + len) = src + 1 + len"
    "\<not> sz_sub (p_end P) (src + 1) < len"
    using assms(2,6) pe by auto
  moreover have "rd (p_data P) src = Some (p_data P ! src)" by (rule readable_rd [OF assms(1,2)])
  ultimately show ?thesis
    using assms(2,3,5) assms(4) [symmetric] d(2) d' l
    by (cases "length xs < lim")
      (simp_all add: dns_d_expand_step_def Let_def l_def [symmetric] del: One_nat_def rd_mem_Some)
qed

lemma expand_step_ptr:
  assumes "readable P" "src + 1 < p_end P" "lab_type (p_data P ! src) = 3" "n < DNS_D_MAXPTRS"
  shows "dns_d_expand_step lim P (dst, dp, src, n) =
     Some (Inl (dst, dp, lab_ptr (p_data P ! src) (p_data P ! (src + 1)), n + 1))"
  using assms by (auto simp: dns_d_expand_step_def Let_def readable_def)

lemma expand_fail:
  assumes "holds_text lim xs dst"
  shows "\<exists>dst'. dns_d_expand_fail dst lim (length xs) = Some (Inr (dst', Inl DNS_EILLEGAL)) \<and>
     length dst' = length dst \<and> holds_cstr lim xs dst'"
  using holds_text_nul [OF assms] by (auto simp: dns_d_expand_fail_def)

text \<open>In every other state the loop stops with an error: nothing is named there.\<close>

lemma expand_step_invalid:
  assumes "readable P" "holds_text lim xs dst"
    and "\<not> (src < p_end P \<and> lab_type (p_data P ! src) = 0 \<and>
            src + 1 + lab_len (p_data P ! src) \<le> p_end P)"
    and "\<not> (src + 1 < p_end P \<and> lab_type (p_data P ! src) = 3 \<and> n < DNS_D_MAXPTRS)"
  shows "dns_d_expand_step lim P (dst, length xs, src, n) = dns_d_expand_fail dst lim (length xs)"
proof (cases "src < p_end P")
  case False
  then show ?thesis by (simp add: dns_d_expand_step_def)
next
  case True
  then have u: "u16 (src + 1) = src + 1" "src + 1 \<le> p_end P"
    using assms(1) by (auto simp: readable_def)
  note rd = readable_rd [OF assms(1) True]
  consider "lab_type (p_data P ! src) = 0" "lab_len (p_data P ! src) \<noteq> 0"
      "p_end P - (src + 1) < lab_len (p_data P ! src)"
    | "lab_type (p_data P ! src) = 3" "p_end P - src < 2 \<or> n + 1 > DNS_D_MAXPTRS"
    | "lab_type (p_data P ! src) \<noteq> 0" "lab_type (p_data P ! src) \<noteq> 3"
    using assms(3,4) True by linarith
  then show ?thesis
  proof cases
    case 1
    with u rd True show ?thesis by (simp add: dns_d_expand_step_def Let_def)
  next
    case 2
    with u rd True show ?thesis by (auto simp: dns_d_expand_step_def Let_def)
  next
    case 3
    with u rd True show ?thesis by (simp add: dns_d_expand_step_def Let_def)
  qed
qed

lemma name_at_shape:
  assumes "name_at P n src ls"
  shows "(src < p_end P \<and> lab_type (p_data P ! src) = 0 \<and>
            src + 1 + lab_len (p_data P ! src) \<le> p_end P) \<or>
    (src + 1 < p_end P \<and> lab_type (p_data P ! src) = 3 \<and> n < DNS_D_MAXPTRS)"
  using assms by (rule name_at_cases) simp_all

text \<open>One iteration, by what the packet holds at \<open>src\<close>.\<close>

lemma expand_step_cases:
  assumes "readable P" "holds_text lim xs dst"
  obtains (stop) "name_at P n src []" "src < p_end P" "p_data P ! src = 0"
  | (label) len l dst' where "len = lab_len (p_data P ! src)"
      "src < p_end P" "lab_type (p_data P ! src) = 0" "0 < len" "src + 1 + len \<le> p_end P"
      "l = take len (drop (src + 1) (p_data P))"
      "dns_d_expand_step lim P (dst, length xs, src, n) =
         Some (Inl (dst', length (xs @ l @ [46]), src + 1 + len, 0))"
      "length dst' = length dst" "holds_text lim (xs @ l @ [46]) dst'"
  | (ptr) p where "p = lab_ptr (p_data P ! src) (p_data P ! (src + 1))"
      "src + 1 < p_end P" "lab_type (p_data P ! src) = 3" "n < DNS_D_MAXPTRS"
      "dns_d_expand_step lim P (dst, length xs, src, n) = Some (Inl (dst, length xs, p, n + 1))"
  | (invalid) dst' where "\<not> (\<exists>ls. name_at P n src ls)"
      "dns_d_expand_step lim P (dst, length xs, src, n) = Some (Inr (dst', Inl DNS_EILLEGAL))"
      "length dst' = length dst" "holds_cstr lim xs dst'"
proof -
  let ?b = "p_data P ! src"
  consider "src < p_end P" "lab_type ?b = 0" "src + 1 + lab_len ?b \<le> p_end P" "lab_len ?b = 0"
    | "src < p_end P" "lab_type ?b = 0" "src + 1 + lab_len ?b \<le> p_end P" "lab_len ?b \<noteq> 0"
    | "src + 1 < p_end P" "lab_type ?b = 3" "n < DNS_D_MAXPTRS"
    | "\<not> (src < p_end P \<and> lab_type ?b = 0 \<and> src + 1 + lab_len ?b \<le> p_end P)"
      "\<not> (src + 1 < p_end P \<and> lab_type ?b = 3 \<and> n < DNS_D_MAXPTRS)"
    by metis
  then show thesis
  proof cases
    case 1
    then have "?b = 0" using lab_zero by blast
    with 1 show thesis by (intro stop) (auto intro: name_end)
  next
    case 2
    then have "0 < lab_len ?b" by simp
    with 2 show thesis using expand_step_label [OF assms(1) 2(1,2) refl _ 2(3) assms(2), of n]
      by (auto intro!: label [OF refl])
  next
    case 3
    then show thesis using expand_step_ptr [OF assms(1) 3] by (auto intro!: ptr [OF refl])
  next
    case 4
    then have "\<not> (\<exists>ls. name_at P n src ls)" using name_at_shape by blast
    moreover obtain dst' where "dns_d_expand_fail dst lim (length xs) = Some (Inr (dst', Inl DNS_EILLEGAL))"
      "length dst' = length dst" "holds_cstr lim xs dst'" using expand_fail [OF assms(2)] by blast
    ultimately show thesis
      using expand_step_invalid [OF assms 4] by (intro invalid) simp_all
  qed
qed

text \<open>Where the packet holds a name the loop ends, with the text of the name.\<close>

lemma expand_complete:
  assumes "name_at P n src ls" "readable P" "holds_text lim xs dst"
  shows "\<exists>dst'. c_while (dns_d_expand_step lim P) (dst, length xs, src, n) =
      Some (dst', Inr (length (if xs = [] then name_full ls else xs @ name_text ls))) \<and>
    length dst' = length dst \<and>
    holds_cstr lim (if xs = [] then name_full ls else xs @ name_text ls) dst'"
  using assms
proof (induction arbitrary: xs dst rule: name_at.induct)
  case (name_end src n)
  from expand_step_end [OF name_end(3,1,2,4), of n] show ?case
    by (auto simp: name_full_def c_while_stop split: if_splits)
next
  case (name_label src len ls n)
  let ?l = "take len (drop (src + 1) (p_data P))"
  obtain d where d: "dns_d_expand_step lim P (dst, length xs, src, n) =
      Some (Inl (d, length (xs @ ?l @ [46]), src + 1 + len, 0))" "length d = length dst"
      "holds_text lim (xs @ ?l @ [46]) d"
    using expand_step_label [OF name_label.prems(1) name_label.hyps(1-5) name_label.prems(2), of n]
    by blast
  from name_label.IH [OF name_label.prems(1) d(3)] obtain d' where
    "c_while (dns_d_expand_step lim P) (d, length (xs @ ?l @ [46]), src + 1 + len, 0) =
       Some (d', Inr (length (xs @ name_text (?l # ls))))"
    "length d' = length d" "holds_cstr lim (xs @ name_text (?l # ls)) d'" by auto
  with d(2) show ?case by (auto simp: c_while_next [of "dns_d_expand_step lim P", OF d(1)] name_full_def)
next
  case (name_ptr src n ls)
  have st: "dns_d_expand_step lim P (dst, length xs, src, n) =
     Some (Inl (dst, length xs, lab_ptr (p_data P ! src) (p_data P ! (src + 1)), n + 1))"
    using expand_step_ptr [OF name_ptr.prems(1) name_ptr.hyps(1-3)] .
  show ?case using name_ptr.IH [OF name_ptr.prems] by (simp only: c_while_next [of "dns_d_expand_step lim P", OF st])
qed

lemma expand_sound:
  assumes "c_steps (dns_d_expand_step lim P) k (dst, length xs, src, n) = Some (Inr (dst', Inr m))"
    and "readable P" "holds_text lim xs dst"
  shows "\<exists>ls. name_at P n src ls"
  using assms
proof (induction k arbitrary: dst xs src n)
  case 0
  then show ?case by simp
next
  case (Suc k)
  from Suc.prems(2,3) show ?case
  proof (cases rule: expand_step_cases [where n = n and src = src])
    case stop
    then show ?thesis by blast
  next
    case (label len l d)
    then have "\<exists>ls. name_at P 0 (src + 1 + len) ls"
      using Suc.prems(1,2) by (intro Suc.IH [of d "xs @ l @ [46]"]) auto
    then show ?thesis using label by (blast intro: name_label)
  next
    case (ptr p)
    then have "\<exists>ls. name_at P (n + 1) p ls"
      using Suc.prems by (intro Suc.IH [of dst xs]) auto
    then show ?thesis using ptr by (blast intro: name_at.name_ptr)
  next
    case (invalid d)
    then show ?thesis using Suc.prems(1) by auto
  qed
qed

lemma expand_safe:
  assumes "readable P" "holds_text lim xs dst"
  shows "\<exists>x. c_steps (dns_d_expand_step lim P) k (dst, length xs, src, n) = Some x \<and>
    (\<forall>d r. x = Inr (d, r) \<longrightarrow> length d = length dst)"
  using assms
proof (induction k arbitrary: dst xs src n)
  case 0
  then show ?case by simp
next
  case (Suc k)
  from Suc.prems show ?case
  proof (cases rule: expand_step_cases [where n = n and src = src])
    case stop
    then show ?thesis using expand_step_end [OF Suc.prems(1) stop(2,3) Suc.prems(2), of n] by auto
  next
    case (label len l d)
    then show ?thesis using Suc.IH [of "xs @ l @ [46]" d "src + 1 + len" 0] Suc.prems by auto
  next
    case (ptr p)
    then show ?thesis using Suc.IH [of xs dst p "n + 1"] Suc.prems by auto
  next
    case (invalid d)
    then show ?thesis by auto
  qed
qed


text \<open>A packet of \<open>n\<close> bytes, all of them in use.\<close>

definition raw_packet :: "bytes \<Rightarrow> dns_packet" where
  "raw_packet d = \<lparr>p_dict = replicate DNS_P_DICTSIZE 0, p_qd = memo0, p_an = memo0, p_ns = memo0,
     p_ar = memo0, p_size = length d, p_end = length d, p_data = d\<rparr>"

lemma raw_packet_simps [simp]:
  "p_data (raw_packet d) = d" "p_end (raw_packet d) = length d" "p_size (raw_packet d) = length d"
  "p_qd (raw_packet d) = memo0" "p_an (raw_packet d) = memo0" "p_ns (raw_packet d) = memo0"
  "p_ar (raw_packet d) = memo0" "p_dict (raw_packet d) = replicate DNS_P_DICTSIZE 0"
  by (simp_all add: raw_packet_def)

lemma raw_packet_readable: "12 \<le> length d \<Longrightarrow> length d < 65536 \<Longrightarrow> readable (raw_packet d)"
  by (simp add: readable_def)

text \<open>C1: \<open>dns_d_expand\<close> reads exactly the names a packet holds. Where labels start at \<open>src\<close> it
  returns the length of their text (each label with its dot, the root as a single dot), and
  the buffer holds as much of that text as fits, NUL-terminated; and whenever it returns a
  length, labels do start at \<open>src\<close>.\<close>

theorem dns_d_expand_correct:
  assumes "readable P" and "lim \<le> length dst"
  shows "(\<forall>ls. name_at P 0 src ls \<longrightarrow>
      (\<exists>dst'. dns_d_expand dst lim src P = Some (dst', Inr (length (name_full ls))) \<and>
         length dst' = length dst \<and> holds_cstr lim (name_full ls) dst')) \<and>
    (\<forall>dst' m. dns_d_expand dst lim src P = Some (dst', Inr m) \<longrightarrow>
      (\<exists>ls. name_at P 0 src ls \<and> m = length (name_full ls)))"
proof (intro conjI allI impI)
  have ht: "holds_text lim [] dst" using assms(2) by simp
  show complete: "\<exists>dst'. dns_d_expand dst lim src P = Some (dst', Inr (length (name_full ls))) \<and>
      length dst' = length dst \<and> holds_cstr lim (name_full ls) dst'" if "name_at P 0 src ls" for ls
    using expand_complete [OF that assms(1) ht] by (simp add: dns_d_expand_def)
  fix dst' m assume r: "dns_d_expand dst lim src P = Some (dst', Inr m)"
  have "\<exists>k. c_steps (dns_d_expand_step lim P) k (dst, length ([] :: bytes), src, 0) =
      Some (Inr (dst', Inr m))"
    using c_while_steps [OF r [unfolded dns_d_expand_def]] by simp
  then obtain ls where "name_at P 0 src ls" using expand_sound [OF _ assms(1) ht] by blast
  with complete [OF this] r show "\<exists>ls. name_at P 0 src ls \<and> m = length (name_full ls)"
    by auto
qed

theorem dns_d_expand_correct_witness:
  "\<exists>dst'. dns_d_expand (replicate 8 0) 8 12 (raw_packet (replicate 12 0 @ [1, 97, 0])) =
     Some (dst', Inr 2) \<and> holds_cstr 8 [97, 46] dst'"
proof -
  let ?P = "raw_packet (replicate 12 0 @ [1, 97, 0])"
  have "name_at ?P 0 14 []" by (rule name_end) (simp_all add: nth_append)
  then have "name_at ?P 0 12 [[97]]"
    using name_label [of 12 ?P 1 "[]" 0] by (simp add: nth_append lab_type_eq lab_len_eq)
  then show ?thesis
    using dns_d_expand_correct [OF raw_packet_readable, of "replicate 12 0 @ [1, 97, 0]" 8
        "replicate 8 0" 12] by (auto simp: name_full_def)
qed

text \<open>C22: no access of \<open>dns_d_expand\<close> is out of bounds, whatever the packet holds and however
  long the loop has run.\<close>

theorem dns_d_expand_in_bounds:
  assumes "readable P" and "lim \<le> length dst"
  shows "c_steps (dns_d_expand_step lim P) k (dst, 0, src, 0) \<noteq> None"
  using expand_safe [OF assms(1), of lim "[]" dst k src 0] assms(2) by auto

theorem dns_d_expand_in_bounds_witness:
  "c_steps (dns_d_expand_step 8 (raw_packet (replicate 12 255))) 3 (replicate 8 0, 0, 0, 0) \<noteq> None"
  by (rule dns_d_expand_in_bounds [OF raw_packet_readable]) simp_all

lemma expand_self_steps:
  assumes "readable P" and "lim \<le> length dst"
    and "lab_type (p_data P ! src) = 0" and "len = lab_len (p_data P ! src)" and "0 < len"
    and "src + 1 + len + 1 < p_end P" and "lab_type (p_data P ! (src + 1 + len)) = 3"
    and "lab_ptr (p_data P ! (src + 1 + len)) (p_data P ! (src + 1 + len + 1)) = src"
  shows "\<exists>s. c_steps (dns_d_expand_step lim P) n (dst, 0, src, 0) = Some (Inl s)"
proof -
  let ?step = "dns_d_expand_step lim P"
  let ?q = "src + 1 + len"
  have a: "src < p_end P" "src + 1 + len \<le> p_end P" using assms(6) by auto
  have ptr: "?step (d, dp, ?q, 0) = Some (Inl (d, dp, src, 1))" for d dp
    using expand_step_ptr [OF assms(1,6,7), of 0 lim d dp] assms(8) by (simp add: c_defs)
  have lab: "\<exists>d' ys. ?step (d, length xs, src, m) = Some (Inl (d', length ys, ?q, 0)) \<and>
      holds_text lim ys d'" if "holds_text lim xs d" for d xs m
    using expand_step_label [OF assms(1) a(1) assms(3-5) a(2) that, of m] by blast
  have "holds_text lim xs d \<Longrightarrow>
      (\<exists>s. c_steps ?step k (d, length xs, src, m) = Some (Inl s)) \<and>
      (\<exists>s. c_steps ?step k (d, length xs, ?q, 0) = Some (Inl s))" for k d xs m
  proof (induction k arbitrary: d xs m)
    case 0
    then show ?case by simp
  next
    case (Suc k)
    obtain d' ys where st: "?step (d, length xs, src, m) = Some (Inl (d', length ys, ?q, 0))"
      and "holds_text lim ys d'" using lab [OF Suc.prems] by blast
    then have "\<exists>s. c_steps ?step (Suc k) (d, length xs, src, m) = Some (Inl s)"
      using Suc.IH [of ys d'] by simp
    moreover have "\<exists>s. c_steps ?step (Suc k) (d, length xs, ?q, 0) = Some (Inl s)"
      using Suc.IH [OF Suc.prems, of 1] ptr [of d "length xs"] by simp
    ultimately show ?case ..
  qed
  from this [of "[]"] show ?thesis using assms(2) by simp
qed

lemma expand_self_loop:
  assumes "readable P" and "lim \<le> length dst"
    and "lab_type (p_data P ! src) = 0" and "len = lab_len (p_data P ! src)" and "0 < len"
    and "src + 1 + len + 1 < p_end P" and "lab_type (p_data P ! (src + 1 + len)) = 3"
    and "lab_ptr (p_data P ! (src + 1 + len)) (p_data P ! (src + 1 + len + 1)) = src"
  shows "dns_d_expand dst lim src P = None"
  unfolding dns_d_expand_def by (rule c_while_diverges, rule expand_self_steps [OF assms])

text \<open>a label that is followed by a pointer back to itself makes \<open>dns_d_expand\<close> run for
  ever: \<open>nptrs\<close> is reset by every label, so that \<open>DNS_D_MAXPTRS\<close> never stops it.\<close>

theorem dns_d_expand_loops:
  assumes "readable P" and "lim \<le> length dst"
    and "lab_type (p_data P ! src) = 0" and "len = lab_len (p_data P ! src)" and "0 < len"
    and "src + 1 + len + 1 < p_end P" and "lab_type (p_data P ! (src + 1 + len)) = 3"
    and "lab_ptr (p_data P ! (src + 1 + len)) (p_data P ! (src + 1 + len + 1)) = src"
  shows "dns_d_expand dst lim src P = None"
  by (rule expand_self_loop [OF assms])

theorem dns_d_expand_loops_witness:
  "dns_d_expand (replicate 256 0) 256 12 (raw_packet (replicate 12 0 @ [1, 97, 192, 12])) = None"
  by (rule dns_d_expand_loops [OF raw_packet_readable, where len = 1])
    (simp_all add: nth_append lab_type_eq lab_len_eq lab_ptr_eq)

text \<open>\<open>dns_d_skip\<close> always returns, in bounds, at a position not past \<open>end\<close>; from a position
  inside the packet it moves forward.\<close>

theorem dns_d_skip_progress:
  assumes "readable P"
  shows "\<exists>r. dns_d_skip src P = Some r \<and> r \<le> p_end P \<and> (src < p_end P \<longrightarrow> src < r)"
  by (rule dns_d_skip_returns [OF assms])

theorem dns_d_skip_progress_witness:
  "\<exists>r. dns_d_skip 12 (raw_packet (replicate 14 1)) = Some r \<and> 12 < r"
  using dns_d_skip_progress [OF raw_packet_readable [of "replicate 14 1"], of 12] by auto

subsection \<open>Laying out a name\<close>

text \<open>A label that a name can carry, and the wire form of a name.\<close>

definition label_ok :: "bytes \<Rightarrow> bool" where
  "label_ok l \<longleftrightarrow> l \<noteq> [] \<and> length l \<le> DNS_D_MAXLABEL \<and> 46 \<notin> set l"

fun name_wire :: "bytes list \<Rightarrow> bytes" where
  "name_wire [] = [0]"
| "name_wire (l # ls) = of_nat (length l) # l @ name_wire ls"

text \<open>The first \<open>lim\<close> bytes of \<open>dst\<close> agree with \<open>xs\<close>.\<close>

definition agrees :: "nat \<Rightarrow> bytes \<Rightarrow> bytes \<Rightarrow> bool" where
  "agrees lim xs dst \<longleftrightarrow> lim \<le> length dst \<and> (\<forall>k < lim. k < length xs \<longrightarrow> dst ! k = xs ! k)"

lemma put_agrees:
  assumes "agrees lim xs dst" "n = length xs"
  shows "\<exists>dst'. put dst lim n ch = Some dst' \<and> length dst' = length dst \<and> agrees lim (xs @ [ch]) dst'"
  using assms by (cases "n < lim") (auto simp: put_def agrees_def nth_append nth_list_update)

text \<open>The bytes of one label go to the places after the one kept free for its length.\<close>

lemma comp_text_label:
  "46 \<notin> set l \<Longrightarrow> agrees lim (xs @ h # ys) dst \<Longrightarrow>
   \<exists>dst'. dns_d_comp_text (l @ cs) dst lim dp (length xs + 1 + length ys) sp sx =
        dns_d_comp_text cs dst' lim dp (length xs + 1 + length ys + length l) sp (sx + length l) \<and>
      length dst' = length dst \<and> agrees lim (xs @ h # ys @ l) dst'"
proof (induction l arbitrary: ys dst sx)
  case (Cons c l)
  obtain d where d: "put dst lim (length xs + 1 + length ys) c = Some d" "length d = length dst"
    "agrees lim (xs @ h # (ys @ [c])) d"
    using put_agrees [OF Cons.prems(2), of "length xs + 1 + length ys" c] by auto
  have "46 \<notin> set l" using Cons.prems(1) by simp
  from Cons.IH [OF this d(3), of "sx + 1"] d Cons.prems(1) show ?case by auto
qed auto

lemma put_agrees_hole:
  assumes "agrees lim (xs @ h # ys) dst"
  shows "\<exists>dst'. put dst lim (length xs) b = Some dst' \<and> length dst' = length dst \<and>
     agrees lim (xs @ b # ys) dst'"
  using assms
  by (cases "length xs < lim") (auto simp: put_def agrees_def nth_append nth_list_update nth_Cons split: nat.splits)

lemma agrees_hole: "agrees lim xs dst \<Longrightarrow> \<exists>h. agrees lim (xs @ [h]) dst"
  by (intro exI [of _ "dst ! length xs"]) (auto simp: agrees_def nth_append less_Suc_eq)

lemma comp_text_name:
  assumes "label_ok l" "agrees lim xs dst"
  shows "\<exists>dst'. dns_d_comp_text (l @ 46 # cs) dst lim (length xs) (length xs + 1) sp sp =
       dns_d_comp_text cs dst' lim (length xs + 1 + length l) (length xs + 1 + length l + 1)
         (sp + length l + 1) (sp + length l + 1) \<and>
     length dst' = length dst \<and> agrees lim (xs @ of_nat (length l) # l) dst'"
proof -
  obtain h where "agrees lim (xs @ h # []) dst" using agrees_hole [OF assms(2)] by auto
  from comp_text_label [OF _ this, of l "46 # cs" "length xs" sp sp] assms(1) obtain d where
    d: "dns_d_comp_text (l @ 46 # cs) dst lim (length xs) (length xs + 1) sp sp =
        dns_d_comp_text (46 # cs) d lim (length xs) (length xs + 1 + length l) sp (sp + length l)"
       "length d = length dst" "agrees lim (xs @ h # l) d"
    by (auto simp: label_ok_def)
  have len: "63 AND length l = length l"
    using assms(1) by (simp add: nat_and_63 label_ok_def DNS_D_MAXLABEL_def)
  from put_agrees_hole [OF d(3), of "of_nat (length l)"] obtain d' where
    "put d lim (length xs) (of_nat (length l)) = Some d'" "length d' = length d"
    "agrees lim (xs @ of_nat (length l) # l) d'" by auto
  with d show ?thesis by (auto simp: len)
qed

lemma comp_text_names:
  "\<forall>l \<in> set ls. label_ok l \<Longrightarrow> agrees lim xs dst \<Longrightarrow>
   \<exists>dst' n. dns_d_comp_text (name_text ls @ cs) dst lim (length xs) (length xs + 1) sp sp =
       dns_d_comp_text cs dst' lim (length xs + (length (name_wire ls) - 1)) (length xs + length (name_wire ls))
         n n \<and>
     length dst' = length dst \<and> agrees lim (xs @ butlast (name_wire ls)) dst'"
proof (induction ls arbitrary: xs dst sp)
  case (Cons l ls)
  have "name_wire ls \<noteq> []" by (cases ls) auto
  then have w: "length (name_wire ls) > 0" by simp
  from Cons.prems comp_text_name [of l lim xs dst "name_text ls @ cs" sp] obtain d where
    d: "dns_d_comp_text (l @ 46 # name_text ls @ cs) dst lim (length xs) (length xs + 1) sp sp =
        dns_d_comp_text (name_text ls @ cs) d lim (length (xs @ of_nat (length l) # l))
          (length (xs @ of_nat (length l) # l) + 1) (sp + length l + 1) (sp + length l + 1)"
      "length d = length dst" "agrees lim (xs @ of_nat (length l) # l) d" by auto
  have "\<forall>l \<in> set ls. label_ok l" using Cons.prems(1) by simp
  from Cons.IH [OF this d(3), of "sp + length l + 1"] obtain d' n where d':
    "dns_d_comp_text (name_text ls @ cs) d lim (length (xs @ of_nat (length l) # l))
      (length (xs @ of_nat (length l) # l) + 1) (sp + length l + 1) (sp + length l + 1) =
     dns_d_comp_text cs d' lim (length (xs @ of_nat (length l) # l) + (length (name_wire ls) - 1))
       (length (xs @ of_nat (length l) # l) + length (name_wire ls)) n n"
    "length d' = length d" "agrees lim ((xs @ of_nat (length l) # l) @ butlast (name_wire ls)) d'"
    by blast
  have n: "length xs + (length (name_wire (l # ls)) - 1) =
      length (xs @ of_nat (length l) # l) + (length (name_wire ls) - 1)"
    "length xs + length (name_wire (l # ls)) =
      length (xs @ of_nat (length l) # l) + length (name_wire ls)"
    using w by auto
  have "xs @ butlast (name_wire (l # ls)) = (xs @ of_nat (length l) # l) @ butlast (name_wire ls)"
    using \<open>name_wire ls \<noteq> []\<close> by (simp add: butlast_append)
  with d d' n show ?case by (metis append_Cons append_assoc name_text.simps(2))
qed auto

text \<open>The texts that name the labels \<open>ls\<close>: with the final dot or without it.\<close>

definition names_labels :: "bytes \<Rightarrow> bytes list \<Rightarrow> bool" where
  "names_labels text ls \<longleftrightarrow> (\<forall>l \<in> set ls. label_ok l) \<and>
     (text = name_full ls \<or> ls \<noteq> [] \<and> text = butlast (name_text ls))"

lemma name_wire_length: "length (name_wire ls) = Suc (length (name_text ls))"
  by (induction ls) auto

lemma name_wire_butlast: "butlast (name_wire ls) @ [0] = name_wire ls"
  by (induction ls) (auto simp: butlast_append)

lemma name_text_Cons_length: "ls \<noteq> [] \<Longrightarrow> \<forall>l \<in> set ls. label_ok l \<Longrightarrow> 2 \<le> length (name_text ls)"
  by (cases ls) (auto simp: label_ok_def Suc_le_eq)

lemma name_text_append: "name_text (ls @ ls') = name_text ls @ name_text ls'"
  by (induction ls) auto

lemma name_wire_append: "name_wire (ls @ ls') = butlast (name_wire ls) @ name_wire ls'"
proof (induction ls)
  case (Cons l ls)
  then show ?case using name_wire_butlast [of ls] by (auto simp: butlast_append)
qed simp

lemma comp_layout_anchored:
  assumes "\<forall>l \<in> set ls. label_ok l" "ls \<noteq> []" "lim \<le> length dst"
  shows "\<exists>dst'. dns_d_comp_layout dst lim (name_text ls) = Some (dst', length (name_wire ls)) \<and>
     length dst' = length dst \<and> agrees lim (name_wire ls) dst'"
proof -
  have "agrees lim [] dst" using assms(3) by (simp add: agrees_def)
  from comp_text_names [OF assms(1) this, of "[]" 0] obtain d n where
    d: "dns_d_comp_text (name_text ls) dst lim 0 1 0 0 =
        Some (d, length (name_wire ls) - 1, length (name_wire ls), n, n)"
      "length d = length dst" "agrees lim (butlast (name_wire ls)) d" by auto
  from put_agrees [OF d(3), of "length (name_wire ls) - 1" 0] obtain d' where
    "put d lim (length (name_wire ls) - 1) 0 = Some d'" "length d' = length d"
    "agrees lim (name_wire ls) d'" by (auto simp: name_wire_butlast)
  with d name_text_Cons_length [OF assms(2,1)] show ?thesis
    by (auto simp: dns_d_comp_layout_def name_wire_length)
qed

lemma comp_layout_unanchored:
  assumes "\<forall>l \<in> set ls. label_ok l" "label_ok l" "lim \<le> length dst"
  shows "\<exists>dst'. dns_d_comp_layout dst lim (name_text ls @ l) =
       Some (dst', length (name_wire (ls @ [l]))) \<and>
     length dst' = length dst \<and> agrees lim (name_wire (ls @ [l])) dst'"
proof -
  let ?w = "butlast (name_wire ls)"
  have "agrees lim [] dst" using assms(3) by (simp add: agrees_def)
  from comp_text_names [OF assms(1) this, of l 0] obtain d n where
    d: "dns_d_comp_text (name_text ls @ l) dst lim 0 1 0 0 =
        dns_d_comp_text l d lim (length ?w) (length ?w + 1) n n"
      "length d = length dst" "agrees lim ?w d" by (auto simp: name_wire_length)
  obtain h where "agrees lim (?w @ h # []) d" using agrees_hole [OF d(3)] by auto
  from comp_text_label [OF _ this, of l "[]" "length ?w" n n] assms(2) obtain d1 where
    d1: "dns_d_comp_text l d lim (length ?w) (length ?w + 1) n n =
         Some (d1, length ?w, length ?w + 1 + length l, n, n + length l)"
      "length d1 = length d" "agrees lim (?w @ h # l) d1" by (auto simp: label_ok_def)
  from put_agrees_hole [OF d1(3), of "of_nat (length l)"] obtain d2 where
    d2: "put d1 lim (length ?w) (of_nat (length l)) = Some d2" "length d2 = length d1"
      "agrees lim (?w @ of_nat (length l) # l) d2" by auto
  from put_agrees [OF d2(3) refl, of 0] obtain d3 where
    d3: "put d2 lim (length ?w + 1 + length l) 0 = Some d3" "length d3 = length d2"
      "agrees lim (?w @ of_nat (length l) # l @ [0]) d3" by auto
  have "63 AND length l = length l" "0 < length l"
    using assms(2) by (auto simp: nat_and_63 label_ok_def DNS_D_MAXLABEL_def)
  with d d1 d2 d3 show ?thesis
    by (auto simp: dns_d_comp_layout_def name_wire_append name_wire_length)
qed

lemma comp_layout:
  assumes "names_labels text ls" "lim \<le> length dst"
  shows "\<exists>dst'. dns_d_comp_layout dst lim text = Some (dst', length (name_wire ls)) \<and>
     length dst' = length dst \<and> agrees lim (name_wire ls) dst'"
proof -
  consider "ls = []" "text = [46]" | "ls \<noteq> []" "text = name_text ls"
    | ls0 l where "ls = ls0 @ [l]" "text = name_text ls0 @ l"
  proof (cases "ls = []")
    case False
    then obtain ls0 l where "ls = ls0 @ [l]" by (metis rev_exhaust)
    then have "butlast (name_text ls) = name_text ls0 @ l" by (simp add: name_text_append butlast_append)
    then show thesis
      using assms(1) that False \<open>ls = ls0 @ [l]\<close> by (auto simp: names_labels_def name_full_def)
  qed (use assms(1) that in \<open>auto simp: names_labels_def name_full_def\<close>)
  then show ?thesis
  proof cases
    case 1
    have "agrees lim [] dst" using assms(2) by (simp add: agrees_def)
    from put_agrees [OF this, of 0 0] 1 show ?thesis by (auto simp: dns_d_comp_layout_def)
  next
    case 2
    then show ?thesis using comp_layout_anchored assms by (auto simp: names_labels_def)
  next
    case 3
    then show ?thesis using comp_layout_unanchored assms by (auto simp: names_labels_def)
  qed
qed

subsection \<open>Without a dictionary\<close>

lemma wire_label:
  assumes "label_ok l"
  shows "lab_type (of_nat (length l)) = 0" "lab_len (of_nat (length l)) = length l" "0 < length l"
  using assms by (auto simp: label_ok_def DNS_D_MAXLABEL_def)

text \<open>\<open>data\<close> holds the wire form of \<open>ls\<close> from \<open>src\<close> on.\<close>

definition wire_at :: "bytes \<Rightarrow> nat \<Rightarrow> bytes list \<Rightarrow> bool" where
  "wire_at data src ls \<longleftrightarrow>
     src + length (name_wire ls) \<le> length data \<and>
     (\<forall>k < length (name_wire ls). data ! (src + k) = name_wire ls ! k)"

lemma wire_at_Nil: "wire_at data src [] \<Longrightarrow> data ! src = 0"
  by (simp add: wire_at_def)

lemma wire_at_Cons:
  assumes "wire_at data src (l # ls)"
  shows "data ! src = of_nat (length l)" "take (length l) (drop (src + 1) data) = l"
    "wire_at data (src + 1 + length l) ls"
proof -
  have a: "data ! (src + k) = name_wire (l # ls) ! k" if "k < length (name_wire (l # ls))" for k
    using assms that by (simp add: wire_at_def)
  have len: "src + length (name_wire (l # ls)) \<le> length data" using assms by (simp add: wire_at_def)
  show "data ! src = of_nat (length l)" using a [of 0] by simp
  show "take (length l) (drop (src + 1) data) = l"
  proof (rule nth_equalityI)
    fix i assume "i < length (take (length l) (drop (src + 1) data))"
    then show "take (length l) (drop (src + 1) data) ! i = l ! i"
      using a [of "Suc i"] len by (simp add: nth_append)
  qed (use len in simp)
  show "wire_at data (src + 1 + length l) ls"
    unfolding wire_at_def
  proof (intro conjI allI impI)
    fix k assume "k < length (name_wire ls)"
    then show "data ! (src + 1 + length l + k) = name_wire ls ! k"
      using a [of "Suc (length l + k)"] by (simp add: nth_append add_ac)
  qed (use len in simp)
qed

lemma wire_at_name_at:
  "\<forall>l \<in> set ls. label_ok l \<Longrightarrow> wire_at (p_data P) src ls \<Longrightarrow>
   src + length (name_wire ls) \<le> p_end P \<Longrightarrow> name_at P n src ls"
proof (induction ls arbitrary: src n)
  case Nil
  then show ?case by (intro name_end) (auto dest: wire_at_Nil)
next
  case (Cons l ls)
  note w = wire_at_Cons [OF Cons.prems(2)]
  have l: "label_ok l" "\<forall>l \<in> set ls. label_ok l" using Cons.prems(1) by auto
  have "name_at P 0 (src + 1 + length l) ls"
    using Cons.IH [OF l(2) w(3)] Cons.prems(3) by simp
  moreover note b = wire_label [OF l(1), folded w(1)]
  moreover have "src < p_end P" "src + 1 + length l \<le> p_end P" using Cons.prems(3) by simp_all
  ultimately have "name_at P n src (take (length l) (drop (src + 1) (p_data P)) # ls)"
    by (intro name_label [OF _ _ b(2) [symmetric]])
  then show ?case unfolding w(2) .
qed

lemma dns_l_expand_label:
  assumes "lim \<le> length dst" "end \<le> length data" "end < 65536"
    and "data ! src = b" "lab_type b = 0" "src + 1 + lab_len b \<le> end"
  obtains dst' where "dns_l_expand dst lim src data end = Some (dst', src + 1 + lab_len b, lab_len b)"
    "length dst' = length dst"
proof -
  from l_expand_step_label [OF assms(1-3), of src 0, unfolded assms(4), OF assms(5,6)] obtain dst' where
    "dns_l_expand_step dst lim data end (src, 0) = Some (Inr (dst', src + 1 + lab_len b, lab_len b))"
    "length dst' = length dst" by blast
  then show thesis using that c_while_stop [of "dns_l_expand_step dst lim data end"]
    unfolding dns_l_expand_def by blast
qed

lemma comp_dict_empty:
  "ds = [] \<or> hd ds = 0 \<Longrightarrow> dns_d_comp_dict dst lim P ax ds a bl = Some (None, fst a, bl)"
  by (cases ds; cases a) auto

text \<open>With nothing in the dictionary the search walks the labels just laid out and ends.\<close>

lemma comp_search_empty:
  assumes "lim < 65536" "p_dict P = [] \<or> hd (p_dict P) = 0" "lim \<le> length dst"
  shows "\<forall>l \<in> set ls. label_ok l \<Longrightarrow> wire_at dst ap ls \<Longrightarrow> ap + length (name_wire ls) \<le> lim \<Longrightarrow>
    length al = DNS_D_MAXLABEL + 1 \<Longrightarrow>
    c_while (dns_d_comp_a_step dst lim P) (al, bl, ap) = Some None"
proof (induction ls arbitrary: ap al bl)
  case Nil
  have "DNS_D_MAXLABEL + 1 \<le> length al" "ap + 1 + lab_len 0 \<le> lim" using Nil.prems by simp_all
  then obtain dst' where "dns_l_expand al (DNS_D_MAXLABEL + 1) ap dst lim = Some (dst', ap + 1 + lab_len 0, lab_len 0)"
    using dns_l_expand_label [OF _ assms(3,1) wire_at_Nil [OF Nil.prems(2)] lab_byte_0(1)] by metis
  then show ?case by (simp add: dns_d_comp_a_step_def c_while_stop)
next
  case (Cons l ls)
  note w = wire_at_Cons [OF Cons.prems(2)]
  have l: "label_ok l" "\<forall>l \<in> set ls. label_ok l" using Cons.prems(1) by auto
  note b = wire_label [OF l(1)]
  have "DNS_D_MAXLABEL + 1 \<le> length al" "ap + 1 + lab_len (of_nat (length l)) \<le> lim"
    using Cons.prems(3,4) unfolding b(2) by simp_all
  then obtain dst' where d: "dns_l_expand al (DNS_D_MAXLABEL + 1) ap dst lim = Some (dst', ap + 1 + length l, length l)"
      "length dst' = length al"
    using dns_l_expand_label [OF _ assms(3,1) w(1) b(1)] unfolding b(2) by metis
  then have "dns_d_comp_a_step dst lim P (al, bl, ap) = Some (Inl (dst', bl, ap + 1 + length l))"
    using wire_label [OF l(1)] assms(2) by (simp add: dns_d_comp_a_step_def comp_dict_empty)
  moreover have "c_while (dns_d_comp_a_step dst lim P) (dst', bl, ap + 1 + length l) = Some None"
    using Cons.IH [OF l(2) w(3)] Cons.prems(3,4) d(2) by simp
  ultimately show ?case by (simp add: c_while_next [of "dns_d_comp_a_step dst lim P"])
qed

lemma dns_d_comp_empty:
  assumes "names_labels text ls" "lim < 65536" "p_dict P = [] \<or> hd (p_dict P) = 0" "lim \<le> length dst"
    "take len src = text" "length text = len"
  shows "\<exists>dst'. dns_d_comp dst lim src len P = Some (dst', Inr (length (name_wire ls))) \<and>
     length dst' = length dst \<and> agrees lim (name_wire ls) dst'"
proof -
  have rd: "rd_mem src 0 len = Some text" using assms(5,6) by (auto simp: rd_mem_def)
  obtain dst' where d: "dns_d_comp_layout dst lim text = Some (dst', length (name_wire ls))"
    "length dst' = length dst" "agrees lim (name_wire ls) dst'"
    using comp_layout [OF assms(1,4)] by auto
  have n: "length (name_wire ls) \<noteq> 0" by (simp add: name_wire_length)
  show ?thesis
  proof (cases "length (name_wire ls) < lim")
    case True
    then have "wire_at dst' 0 ls" using d(3) by (auto simp: wire_at_def agrees_def)
    then have "c_while (dns_d_comp_a_step dst' lim P)
        (replicate (DNS_D_MAXLABEL + 1) 0, replicate (DNS_D_MAXLABEL + 1) 0, 0) = Some None"
      using comp_search_empty [OF assms(2,3), of dst' ls 0] assms(1,4) d(2) True
      by (auto simp: names_labels_def)
    then show ?thesis using rd d True n by (simp add: dns_d_comp_def)
  next
    case False
    then show ?thesis using rd d n by (simp add: dns_d_comp_def)
  qed
qed

text \<open>What \<open>dns_d_push\<close> makes of the bytes \<open>dns_d_comp\<close> wrote.\<close>

lemma dns_d_push_comp:
  assumes "wf_packet P" "dns_d_comp (drop (p_end P) (p_data P)) (p_size P - p_end P) src len P = Some (reg, Inr n)"
    and "length reg = p_size P - p_end P" "agrees (p_size P - p_end P) xs reg" "length xs = n"
  shows "\<exists>P'. dns_d_push P src len =
      Some (P', if p_end P + n \<le> p_size P then None else Some DNS_ENOBUFS) \<and>
    wf_packet P' \<and> p_size P' = p_size P \<and> take (p_end P) (p_data P') = take (p_end P) (p_data P) \<and>
    (if p_end P + n \<le> p_size P
     then p_end P' = p_end P + n \<and> (\<forall>k < n. p_data P' ! (p_end P + k) = xs ! k)
     else p_end P' = p_end P \<and> p_dict P' = p_dict P)"
proof -
  let ?e = "p_end P"
  have wf: "length (p_data P) = p_size P" "12 \<le> ?e" "?e \<le> p_size P" "p_size P < 65536"
    using assms(1) by (auto simp: wf_packet_def)
  have lim: "sz_sub (p_size P) ?e = p_size P - ?e" using wf by simp
  define P1 where "P1 = P\<lparr>p_data := take ?e (p_data P) @ reg\<rparr>"
  have P1: "wf_packet P1" "take ?e (p_data P1) = take ?e (p_data P)"
    using assms(1,3) wf by (auto simp: P1_def wf_packet_def)
  show ?thesis
  proof (cases "?e + n \<le> p_size P")
    case False
    then have "n > p_size P - ?e" using wf by simp
    then show ?thesis using assms(2) lim P1 False by (auto simp: dns_d_push_def P1_def)
  next
    case True
    then have n: "\<not> n > p_size P - ?e" using wf by simp
    let ?P2 = "P1\<lparr>p_end := ?e + n\<rparr>"
    have wf2: "wf_packet ?P2" using P1(1) True by (simp add: wf_packet_def P1_def)
    from dns_p_dictadd_returns [OF wf_packet_readable [OF wf2], of ?e] obtain ds where
      ds: "dns_p_dictadd ?P2 ?e = Some (?P2\<lparr>p_dict := ds\<rparr>)" "length ds = length (p_dict P)"
        "set ds \<subseteq> insert ?e (set (p_dict P))" by (auto simp: P1_def)
    have "dns_d_push P src len = Some (?P2\<lparr>p_dict := ds\<rparr>, None)"
      using assms(2) lim n ds(1) wf by (simp add: dns_d_push_def P1_def Let_def)
    moreover have "wf_packet (?P2\<lparr>p_dict := ds\<rparr>)"
      using wf2 ds(2,3) wf by (auto simp: wf_packet_def P1_def)
    moreover have "\<forall>k < n. p_data ?P2 ! (?e + k) = xs ! k"
      using assms(3,4,5) True wf by (auto simp: agrees_def P1_def nth_append)
    ultimately show ?thesis using True P1(2) by (auto simp: P1_def)
  qed
qed

text \<open>What it does to a packet that has no name yet.\<close>

lemma dns_d_push_empty:
  assumes "wf_packet P" "hd (p_dict P) = 0" "names_labels text ls"
    "take len src = text" "length text = len"
  shows "\<exists>P'. dns_d_push P src len =
      Some (P', if p_end P + length (name_wire ls) \<le> p_size P then None else Some DNS_ENOBUFS) \<and>
    wf_packet P' \<and> p_size P' = p_size P \<and> take (p_end P) (p_data P') = take (p_end P) (p_data P) \<and>
    (if p_end P + length (name_wire ls) \<le> p_size P
     then p_end P' = p_end P + length (name_wire ls) \<and> wire_at (p_data P') (p_end P) ls
     else p_end P' = p_end P \<and> p_dict P' = p_dict P)"
proof -
  have lim: "p_size P - p_end P < 65536" "p_size P - p_end P \<le> length (drop (p_end P) (p_data P))"
    using assms(1) by (auto simp: wf_packet_def)
  from dns_d_comp_empty [OF assms(3) lim(1) _ lim(2) assms(4,5), of P] assms(2) obtain reg where
    "dns_d_comp (drop (p_end P) (p_data P)) (p_size P - p_end P) src len P = Some (reg, Inr (length (name_wire ls)))"
    "length reg = p_size P - p_end P" "agrees (p_size P - p_end P) (name_wire ls) reg"
    using assms(1) by (auto simp: wf_packet_def)
  from dns_d_push_comp [OF assms(1) this refl] show ?thesis
    by (fastforce simp: wire_at_def wf_packet_def)
qed

text \<open>C2: a name pushed as the first one of a packet is read back by \<open>dns_d_expand\<close>: if it fits, the
  push succeeds, leaves the bytes before alone, and expanding at its place gives the same name with its
  final dot; otherwise the push fails and the packet ends where it did.\<close>

theorem dns_d_push_expand:
  assumes "wf_packet P" "hd (p_dict P) = 0" "names_labels text ls"
    "take len src = text" "length text = len" "lim \<le> length dst"
  shows "\<exists>P'. if p_end P + length (name_wire ls) \<le> p_size P
     then dns_d_push P src len = Some (P', None) \<and>
       take (p_end P) (p_data P') = take (p_end P) (p_data P) \<and>
       (\<exists>dst'. dns_d_expand dst lim (p_end P) P' = Some (dst', Inr (length (name_full ls))) \<and>
               holds_cstr lim (name_full ls) dst')
     else dns_d_push P src len = Some (P', Some DNS_ENOBUFS) \<and> p_end P' = p_end P"
proof -
  from dns_d_push_empty [OF assms(1-5)] obtain P' where P':
    "dns_d_push P src len =
      Some (P', if p_end P + length (name_wire ls) \<le> p_size P then None else Some DNS_ENOBUFS)"
    "wf_packet P'" "take (p_end P) (p_data P') = take (p_end P) (p_data P)"
    "if p_end P + length (name_wire ls) \<le> p_size P
     then p_end P' = p_end P + length (name_wire ls) \<and> wire_at (p_data P') (p_end P) ls
     else p_end P' = p_end P \<and> p_dict P' = p_dict P" by blast
  show ?thesis
  proof (cases "p_end P + length (name_wire ls) \<le> p_size P")
    case True
    then have "name_at P' 0 (p_end P) ls"
      using P'(4) assms(3) by (intro wire_at_name_at) (auto simp: names_labels_def)
    from expand_complete [OF this wf_packet_readable [OF P'(2)], of lim "[]" dst] show ?thesis
      using True P' assms(6) by (auto simp: dns_d_expand_def)
  next
    case False
    then show ?thesis using P' by auto
  qed
qed

theorem dns_d_push_expand_witness:
  "\<exists>P P' dst'. dns_p_make 64 = Some P \<and> dns_d_push P [97, 46] 2 = Some (P', None) \<and>
     dns_d_expand (replicate 8 0) 8 (p_end P) P' = Some (dst', Inr 2) \<and> holds_cstr 8 [97, 46] dst'"
proof -
  obtain P where P: "dns_p_make 64 = Some P" "wf_packet P" "hd (p_dict P) = 0" "p_end P = 12" "p_size P = 64"
    by (simp add: dns_p_make_def dns_p_init_def wf_packet_def c_defs dns_p_calcsize_def)
  have "names_labels [97, 46] [[97]]"
    by (simp add: names_labels_def label_ok_def name_full_def c_defs)
  from dns_d_push_expand [OF P(2,3) this, of 2 "[97, 46]" 8 "replicate 8 0"] P show ?thesis
    by (auto simp: name_full_def)
qed

subsection \<open>Names that are not read back\<close>

text \<open>A label of 64 bytes or more is not refused: its length is cut to six bits.\<close>

lemma comp_layout_one:
  assumes "46 \<notin> set l" "l \<noteq> []" "lim \<le> length dst"
  shows "\<exists>dst'. dns_d_comp_layout dst lim (l @ [46]) = Some (dst', length l + 2) \<and>
     length dst' = length dst \<and> agrees lim (of_nat (length l mod 64) # l @ [0]) dst'"
proof -
  have "agrees lim [] dst" using assms(3) by (simp add: agrees_def)
  then obtain h where "agrees lim ([] @ h # []) dst" using agrees_hole [of lim "[]" dst] by auto
  from comp_text_label [OF assms(1) this, of "[46]" 0 0 0] obtain d where
    d: "dns_d_comp_text (l @ [46]) dst lim 0 1 0 0 = dns_d_comp_text [46] d lim 0 (1 + length l) 0 (length l)"
      "length d = length dst" "agrees lim ([] @ h # l) d" by auto
  from put_agrees_hole [OF d(3), of "of_nat (length l mod 64)"] obtain d1 where
    d1: "put d lim 0 (of_nat (length l mod 64)) = Some d1" "length d1 = length d"
      "agrees lim (of_nat (length l mod 64) # l) d1" by auto
  from put_agrees [OF d1(3) refl, of 0] obtain d2 where
    "put d1 lim (length l + 1) 0 = Some d2" "length d2 = length d1"
    "agrees lim (of_nat (length l mod 64) # l @ [0]) d2" by auto
  with d d1 assms(2) show ?thesis
    by (auto simp: dns_d_comp_layout_def nat_and_63)
qed

text \<open>A name whose only label has 64 bytes, or any multiple of that, is accepted by
  \<open>dns_d_push\<close>, and reads back as the root name.\<close>

theorem dns_d_push_long_label:
  assumes "wf_packet P" "46 \<notin> set l" "l \<noteq> []" "length l mod 64 = 0"
    "p_end P + length l + 2 < p_size P" "lim \<le> length dst"
  shows "\<exists>P' dst'. dns_d_push P (l @ [46]) (length l + 1) = Some (P', None) \<and>
     dns_d_expand dst lim (p_end P) P' = Some (dst', Inr 1) \<and> holds_cstr lim [46] dst'"
proof -
  let ?e = "p_end P" and ?lim = "p_size P - p_end P"
  have wf: "length (p_data P) = p_size P" "?e \<le> p_size P" "p_size P < 65536"
    using assms(1) by (auto simp: wf_packet_def)
  then have "?lim \<le> length (drop ?e (p_data P))" by simp
  from comp_layout_one [OF assms(2,3) this] obtain reg where
    reg: "dns_d_comp_layout (drop ?e (p_data P)) ?lim (l @ [46]) = Some (reg, length l + 2)"
      "length reg = ?lim" "agrees ?lim (0 # l @ [0]) reg"
    using assms(4) wf by auto
  have "reg ! 0 = 0" using reg(3) assms(5) by (auto simp: agrees_def)
  have "0 + 1 + lab_len 0 \<le> ?lim" "?lim \<le> length reg" "?lim < 65536" using assms(5) reg(2) wf by auto
  then obtain d' where "dns_l_expand (replicate (DNS_D_MAXLABEL + 1) 0) (DNS_D_MAXLABEL + 1) 0 reg ?lim =
      Some (d', 0 + 1 + lab_len 0, lab_len 0)"
    using dns_l_expand_label [OF _ _ _ \<open>reg ! 0 = 0\<close> lab_byte_0(1)] by (metis length_replicate order_refl)
  then have "dns_d_comp (drop ?e (p_data P)) ?lim (l @ [46]) (length l + 1) P = Some (reg, Inr (length l + 2))"
    using reg(1) assms(5) by (simp add: dns_d_comp_def dns_d_comp_a_step_def c_while_stop)
  from dns_d_push_comp [OF assms(1) this reg(2,3)] obtain P' where
    P': "dns_d_push P (l @ [46]) (length l + 1) = Some (P', None)" "wf_packet P'"
      "p_end P' = ?e + (length l + 2)" "p_data P' ! ?e = 0"
    using assms(5) by auto
  then have "name_at P' 0 ?e []" by (intro name_end) auto
  from expand_complete [OF this wf_packet_readable [OF P'(2)], of lim "[]" dst] P'(1) assms(6)
  show ?thesis by (auto simp: dns_d_expand_def name_full_def)
qed

theorem dns_d_push_long_label_witness:
  "\<exists>P P' dst'. dns_p_make 128 = Some P \<and>
     dns_d_push P (replicate 64 97 @ [46]) (length (replicate 64 (97 :: byte)) + 1) = Some (P', None) \<and>
     dns_d_expand [0, 0] 2 (p_end P) P' = Some (dst', Inr 1) \<and> holds_cstr 2 [46] dst'"
proof -
  obtain P where P: "dns_p_make 128 = Some P" "wf_packet P" "p_end P = 12" "p_size P = 128"
    by (simp add: dns_p_make_def dns_p_init_def wf_packet_def c_defs dns_p_calcsize_def)
  from dns_d_push_long_label [OF P(2), of "replicate 64 97" 2 "[0, 0]"] P show ?thesis by auto
qed

text \<open>Two names pushed one after the other into a fresh packet of 64 bytes, and what the second
  one reads back as.\<close>

definition push_two :: "bytes \<Rightarrow> bytes \<Rightarrow> (bytes \<times> (dns_error + nat)) option" where
  "push_two m n = do {
     P \<leftarrow> dns_p_make 64;
     (P, e1) \<leftarrow> dns_d_push P m (length m);
     (Q, e2) \<leftarrow> dns_d_push P n (length n);
     if e1 = None \<and> e2 = None then dns_d_expand (replicate 8 0) 8 (p_end P) Q else None }"

text \<open>The step functions at their states, for evaluation by rewriting.\<close>

lemmas comp_step_eval =
  fun_cong [OF dns_l_expand_step_def, of _ _ _ _ "(s, n)" for s n, simplified prod.case]
  fun_cong [OF dns_d_comp_match_step_def,
    of _ _ _ "((al, alen, ay), bl, blen, by)" for al alen ay bl blen "by", simplified prod.case]
  fun_cong [OF dns_d_comp_b_step_def, of _ _ _ _ "((al, alen), bl, bp)" for al alen bl bp,
    simplified prod.case]
  fun_cong [OF dns_d_comp_a_step_def, of _ _ _ "(al, bl, ap)" for al bl ap, simplified prod.case]
  fun_cong [OF dns_d_expand_step_def, of _ _ "(dst, dp, src, n)" for dst dp src n,
    simplified prod.case]
  c_while.simps Let_def

lemmas name_eval =
  comp_step_eval lab_type_eq lab_len_eq lab_ptr_eq nat_and_63 nat_and_255 rd_mem_def wr_mem_def
  put_def replicate_num of_string_def c_tolower_def memo0_def c_defs dns_l_expand_def dns_l_skip_def
  dns_d_comp_def dns_d_comp_layout_def dns_d_push_def dns_p_dictadd_def dns_p_dictadd_step_def
  dns_d_expand_def dns_p_make_def dns_p_init_def dns_p_calcsize_def

text \<open>The compression of \<open>dns_d_comp\<close> can change a name: once \<open>a.b.c.c.\<close> is in a packet, pushing
  \<open>a.c.\<close> writes a pointer to \<open>c.c.\<close>, and \<open>c.c.\<close> is what is read back.\<close>

theorem dns_d_comp_wrong_name:
  "push_two (of_string ''a.b.c.c.'') (of_string ''a.c.'') =
     Some (of_string ''c.c.'' @ [0, 0, 0, 0], Inr 4)"
  by (simp add: push_two_def name_eval cong: bind_weak)

lemma dns_d_expand_sound:
  assumes "dns_d_expand dst lim src P = Some (dst', Inr m)" and "readable P" and "lim \<le> length dst"
  shows "\<exists>ls. name_at P 0 src ls \<and> m = length (name_full ls) \<and> length dst' = length dst \<and>
    holds_cstr lim (name_full ls) dst'"
proof -
  have ht: "holds_text lim [] dst" using assms(3) by simp
  have "\<exists>k. c_steps (dns_d_expand_step lim P) k (dst, length ([] :: bytes), src, 0) =
      Some (Inr (dst', Inr m))"
    using c_while_steps [OF assms(1) [unfolded dns_d_expand_def]] by simp
  then obtain ls where ls: "name_at P 0 src ls" using expand_sound [OF _ assms(2) ht] by blast
  obtain d where "dns_d_expand dst lim src P = Some (d, Inr (length (name_full ls)))"
      "length d = length dst" "holds_cstr lim (name_full ls) d"
    using expand_complete [OF ls assms(2) ht] by (auto simp: dns_d_expand_def)
  with ls assms(1) show ?thesis by auto
qed

lemma name_full_pos: "0 < length (name_full ls)"
  by (cases ls) (simp_all add: name_full_def)


end
