(* ===== verification/RR.thy ===== *)
theory RR
  imports Names
begin

section \<open>Resource records: locating and parsing\<close>

text \<open>
  RESOURCE RECORD ROUTINES of \<open>dns.c\<close> that find the records of a packet:
  \<open>dns_p_qend\<close>, \<open>dns_rr_parse\<close>, \<open>dns_rr_len\<close>, \<open>dns_rr_skip\<close>, \<open>dns_rr_section\<close>, and the
  memoised section bounds of \<open>dns_p_study\<close>. \<open>rr_dn_p\<close>, \<open>rr_dn_len\<close> are \<open>rr->dn.p\<close>,
  \<open>rr->dn.len\<close>, and \<open>rr_rd_p\<close>, \<open>rr_rd_len\<close> are \<open>rr->rd.p\<close>, \<open>rr->rd.len\<close>.
\<close>

record dns_rr =
  rr_section :: nat
  rr_dn_p :: nat
  rr_dn_len :: nat
  rr_type :: nat
  rr_klass :: nat
  rr_ttl :: nat
  rr_rd_p :: nat
  rr_rd_len :: nat

definition rr0 :: dns_rr where
  "rr0 = \<lparr>rr_section = 0, rr_dn_p = 0, rr_dn_len = 0, rr_type = 0, rr_klass = 0, rr_ttl = 0,
          rr_rd_p = 0, rr_rd_len = 0\<rparr>"

text \<open>Four bytes in network order; \<open>be31\<close> drops the top bit, as the code does with a TTL.\<close>

definition be32 :: "byte \<Rightarrow> byte \<Rightarrow> byte \<Rightarrow> byte \<Rightarrow> nat" where
  "be32 a b c d =
     push_bit 24 (255 AND unat a) OR push_bit 16 (255 AND unat b)
     OR push_bit 8 (255 AND unat c) OR (255 AND unat d)"

definition be31 :: "byte \<Rightarrow> byte \<Rightarrow> byte \<Rightarrow> byte \<Rightarrow> nat" where
  "be31 a b c d =
     push_bit 24 (127 AND unat a) OR push_bit 16 (255 AND unat b)
     OR push_bit 8 (255 AND unat c) OR (255 AND unat d)"

definition dns_p_qend_step :: "dns_packet \<Rightarrow> nat \<times> nat \<Rightarrow> (nat \<times> nat + nat) option" where
  "dns_p_qend_step P = (\<lambda>(i, qend).
     if i < dns_p_count P DNS_S_QD \<and> qend < p_end P then do {
       qend \<leftarrow> dns_d_skip qend P;
       if p_end P = qend then Some (Inr (u16 (p_end P)))
       else if sz_sub (p_end P) qend < 4 then Some (Inr (u16 (p_end P)))
       else Some (Inl (i + 1, u16 (qend + 4))) }
     else Some (Inr (u16 (min qend (p_end P)))))"

definition dns_p_qend :: "dns_packet \<Rightarrow> nat option" where
  "dns_p_qend P = c_while (dns_p_qend_step P) (0, 12)"

text \<open>\<open>rr\<close> is an in-out argument: a failing parse leaves some of its fields written, and a
  successful one leaves \<open>section\<close> alone unless the record is a question.\<close>

definition dns_rr_parse ::
    "dns_rr \<Rightarrow> nat \<Rightarrow> dns_packet \<Rightarrow> (dns_rr \<times> dns_error option) option" where
  "dns_rr_parse rr src P =
     (if src \<ge> p_end P then Some (rr, Some DNS_EILLEGAL)
      else do {
        p \<leftarrow> dns_d_skip src P;
        let rr = rr\<lparr>rr_dn_p := src, rr_dn_len := u16 (sz_sub p src)\<rparr>;
        if sz_sub (p_end P) p < 4 then Some (rr, Some DNS_EILLEGAL)
        else do {
          type \<leftarrow> rd16 (p_data P) p;
          klass \<leftarrow> rd16 (p_data P) (p + 2);
          let rr = rr\<lparr>rr_type := type, rr_klass := klass\<rparr>;
          let p = u16 (p + 4);
          qend \<leftarrow> dns_p_qend P;
          if src < qend
          then Some (rr\<lparr>rr_section := DNS_S_QD, rr_ttl := 0, rr_rd_p := 0, rr_rd_len := 0\<rparr>, None)
          else if sz_sub (p_end P) p < 4 then Some (rr, Some DNS_EILLEGAL)
          else do {
            b0 \<leftarrow> rd (p_data P) p; b1 \<leftarrow> rd (p_data P) (p + 1);
            b2 \<leftarrow> rd (p_data P) (p + 2); b3 \<leftarrow> rd (p_data P) (p + 3);
            let rr = rr\<lparr>rr_ttl := be31 b0 b1 b2 b3\<rparr>;
            let p = u16 (p + 4);
            if sz_sub (p_end P) p < 2 then Some (rr, Some DNS_EILLEGAL)
            else do {
              len \<leftarrow> rd16 (p_data P) p;
              let rr = rr\<lparr>rr_rd_len := len, rr_rd_p := u16 (p + 2)\<rparr>;
              let p = u16 (p + 2);
              if sz_sub (p_end P) p < len then Some (rr, Some DNS_EILLEGAL)
              else Some (rr, None) } } } })"

definition dns_rr_len :: "nat \<Rightarrow> dns_packet \<Rightarrow> nat option" where
  "dns_rr_len src P = do {
     rp \<leftarrow> dns_d_skip src P;
     let to_end = u16 (sz_sub (p_end P) src);
     if sz_sub (p_end P) rp < 4 then Some to_end
     else do {
       let rp = u16 (rp + 4);
       qend \<leftarrow> dns_p_qend P;
       if rp \<le> qend then Some (u16 (sz_sub rp src))
       else if sz_sub (p_end P) rp < 6 then Some to_end
       else do {
         let rp = u16 (rp + 6);
         rdlen \<leftarrow> rd16 (p_data P) (rp - 2);
         if sz_sub (p_end P) rp < rdlen then Some to_end
         else Some (u16 (sz_sub (u16 (rp + rdlen)) src)) } } }"

definition dns_rr_skip :: "nat \<Rightarrow> dns_packet \<Rightarrow> nat option" where
  "dns_rr_skip src P = do { n \<leftarrow> dns_rr_len src P; Some (u16 (src + n)) }"

definition dns_rr_section_step :: "nat \<Rightarrow> dns_packet \<Rightarrow> nat \<times> nat \<Rightarrow> (nat \<times> nat + nat) option" where
  "dns_rr_section_step src P = (\<lambda>(rp, index).
     if rp < src \<and> rp < p_end P
     then do { rp \<leftarrow> dns_rr_skip rp P; Some (Inl (rp, uint32 (index + 1))) }
     else Some (Inr index))"

text \<open>\<open>while (index >= count && section <= DNS_S_AR) { section <<= 1; count += ...; }\<close>: at most
  four shifts lead from \<open>DNS_S_QD\<close> past \<open>DNS_S_AR\<close>, which the first argument counts.\<close>

fun dns_rr_section_up :: "nat \<Rightarrow> dns_packet \<Rightarrow> nat \<Rightarrow> nat \<Rightarrow> nat \<Rightarrow> nat" where
  "dns_rr_section_up 0 P index sect count = sect"
| "dns_rr_section_up (Suc k) P index sect count =
     (if index \<ge> count \<and> sect \<le> DNS_S_AR
      then dns_rr_section_up k P index (2 * sect) (uint32 (count + dns_p_count P (2 * sect)))
      else sect)"

definition dns_rr_section :: "nat \<Rightarrow> dns_packet \<Rightarrow> nat option" where
  "dns_rr_section src P =
     (if m_base (p_qd P) \<le> src \<and> src < m_end (p_qd P) then Some DNS_S_QD
      else if m_base (p_an P) \<le> src \<and> src < m_end (p_an P) then Some DNS_S_AN
      else if m_base (p_ns P) \<le> src \<and> src < m_end (p_ns P) then Some DNS_S_NS
      else if m_base (p_ar P) \<le> src \<and> src < m_end (p_ar P) then Some DNS_S_AR
      else do {
        index \<leftarrow> c_while (dns_rr_section_step src P) (12, 0);
        Some (DNS_S_ALL AND
          dns_rr_section_up 4 P index DNS_S_QD (dns_p_count P DNS_S_QD)) })"

definition dns_rr_type :: "nat \<Rightarrow> dns_packet \<Rightarrow> nat option" where
  "dns_rr_type src P = do {
     (rr, e) \<leftarrow> dns_rr_parse rr0 src P;
     Some (case e of None \<Rightarrow> rr_type rr | Some _ \<Rightarrow> 0) }"

definition dns_rr_offset :: "dns_rr \<Rightarrow> nat" where
  "dns_rr_offset rr = rr_dn_p rr"

subsection \<open>Memoised section bounds\<close>

definition dns_s_study_step :: "dns_packet \<Rightarrow> nat \<times> nat \<Rightarrow> (nat \<times> nat + nat) option" where
  "dns_s_study_step P = (\<lambda>(count, rp).
     if count \<noteq> 0 \<and> rp < p_end P
     then do { rp \<leftarrow> dns_rr_skip rp P; Some (Inl (count - 1, rp)) }
     else Some (Inr rp))"

definition dns_s_study :: "nat \<Rightarrow> nat \<Rightarrow> dns_packet \<Rightarrow> dns_s_memo option" where
  "dns_s_study section base P = do {
     rp \<leftarrow> c_while (dns_s_study_step P) (u16 (dns_p_count P section), u16 base);
     Some \<lparr>m_base = u16 base, m_end = rp\<rparr> }"

definition dns_p_study :: "dns_packet \<Rightarrow> dns_packet option" where
  "dns_p_study P = do {
     qd \<leftarrow> dns_s_study DNS_S_QD 12 P;
     let P = P\<lparr>p_qd := qd\<rparr>;
     an \<leftarrow> dns_s_study DNS_S_AN (m_end qd) P;
     let P = P\<lparr>p_an := an\<rparr>;
     ns \<leftarrow> dns_s_study DNS_S_NS (m_end an) P;
     let P = P\<lparr>p_ns := ns\<rparr>;
     ar \<leftarrow> dns_s_study DNS_S_AR (m_end ns) P;
     Some (P\<lparr>p_ar := ar\<rparr>) }"


subsection \<open>Walking the records\<close>

definition qend_inv :: "dns_packet \<Rightarrow> nat \<times> nat \<Rightarrow> bool" where
  "qend_inv P s \<longleftrightarrow> readable P \<and> snd s < 65536"

interpretation p_qend: bounded_loop "dns_p_qend_step P" "qend_inv P"
  "\<lambda>s. dns_p_count P DNS_S_QD - fst s" "\<lambda>r. r \<le> p_end P" for P
proof unfold_locales
  fix s assume s: "qend_inv P s"
  then obtain r where "dns_d_skip (snd s) P = Some r" "r \<le> p_end P"
    using dns_d_skip_returns [of P "snd s"] by (auto simp: qend_inv_def)
  with s show "dns_p_qend_step P s \<noteq> None"
    and "\<And>s'. dns_p_qend_step P s = Some (Inl s') \<Longrightarrow> qend_inv P s'"
    and "\<And>s'. dns_p_qend_step P s = Some (Inl s') \<Longrightarrow>
      dns_p_count P DNS_S_QD - fst s' < dns_p_count P DNS_S_QD - fst s"
    and "\<And>r. dns_p_qend_step P s = Some (Inr r) \<Longrightarrow> r \<le> p_end P"
    by (auto simp: dns_p_qend_step_def qend_inv_def readable_def split: prod.splits if_splits)
qed

lemma dns_p_qend_returns: "readable P \<Longrightarrow> \<exists>q. dns_p_qend P = Some q \<and> q \<le> p_end P"
  using p_qend.returns [of P "(0, 12)"] by (auto simp: dns_p_qend_def qend_inv_def)

lemma readable_end: "readable P \<Longrightarrow> p_end P < 65536 \<and> p_end P \<le> length (p_data P)"
  by (simp add: readable_def)

text \<open>Every length \<open>dns_rr_len\<close> returns leads forward, and not past the end.\<close>

lemma dns_rr_len_returns:
  assumes "readable P" and "src < p_end P"
  shows "\<exists>n. dns_rr_len src P = Some n \<and> 0 < n \<and> src + n \<le> p_end P"
proof -
  obtain rp where rp: "dns_d_skip src P = Some rp" "rp \<le> p_end P" "src < rp"
    using dns_d_skip_returns [OF assms(1), of src] assms(2) by auto
  obtain q where q: "dns_p_qend P = Some q" "q \<le> p_end P"
    using dns_p_qend_returns [OF assms(1)] by auto
  note pe = readable_end [OF assms(1)]
  show ?thesis
    using rp q pe assms(2) by (auto simp: dns_rr_len_def Let_def)
qed

lemma dns_rr_skip_returns:
  assumes "readable P" and "src < p_end P"
  shows "\<exists>r. dns_rr_skip src P = Some r \<and> src < r \<and> r \<le> p_end P"
  using dns_rr_len_returns [OF assms] readable_end [OF assms(1)] by (auto simp: dns_rr_skip_def)

text \<open>What a successful parse promises: the record lies within the packet.\<close>

definition rr_within :: "dns_packet \<Rightarrow> dns_rr \<Rightarrow> bool" where
  "rr_within P rr \<longleftrightarrow> rr_dn_p rr < p_end P \<and> rr_dn_p rr + rr_dn_len rr \<le> p_end P \<and>
     rr_rd_p rr + rr_rd_len rr \<le> p_end P \<and> rr_type rr < 65536 \<and> rr_klass rr < 65536 \<and>
     rr_ttl rr < 2147483648"

lemma be31_less: "be31 a b c d < 2147483648"
proof -
  have "127 AND unat a < 2 ^ 7"
    using take_bit_eq_mask [of 7 "unat a"] take_bit_nat_less_exp [of 7 "unat a"]
    by (simp add: mask_eq_exp_minus_1 ac_simps)
  then have a: "push_bit 24 (127 AND unat a) < 2 ^ 31" by (simp add: push_bit_eq_mult)
  have b: "push_bit 16 (255 AND unat b) < (2::nat) ^ 31" "push_bit 8 (255 AND unat c) < (2::nat) ^ 31"
    "255 AND unat d < 2 ^ 31"
    using unat_byte_less [of b] unat_byte_less [of c] unat_byte_less [of d]
    by (auto simp: push_bit_eq_mult nat_and_255 simp del: unat_byte_less)
  have "be31 a b c d < 2 ^ 31" unfolding be31_def using a b by (blast intro: nat_or_less)
  then show ?thesis by simp
qed

lemma dns_rr_parse_returns:
  assumes "readable P"
  shows "\<exists>rr' e. dns_rr_parse rr src P = Some (rr', e) \<and>
    (src \<ge> p_end P \<longrightarrow> e \<noteq> None) \<and> (e = None \<longrightarrow> rr_within P rr' \<and> rr_dn_p rr' = src)"
proof (cases "src < p_end P")
  case False
  then show ?thesis by (simp add: dns_rr_parse_def)
next
  case True
  obtain rp where rp: "dns_d_skip src P = Some rp" "rp \<le> p_end P" "src < rp"
    using dns_d_skip_returns [OF assms(1), of src] True by auto
  obtain q where q: "dns_p_qend P = Some q" "q \<le> p_end P"
    using dns_p_qend_returns [OF assms(1)] by auto
  note pe = readable_end [OF assms(1)]
  show ?thesis
    using rp q pe True by (auto simp: dns_rr_parse_def Let_def rr_within_def be31_less)
qed


subsection \<open>Record positions\<close>

text \<open>Locating records reads the bytes below \<open>end\<close> only; the memoised bounds play no part.\<close>

definition same_bytes :: "dns_packet \<Rightarrow> dns_packet \<Rightarrow> bool" where
  "same_bytes P Q \<longleftrightarrow> p_data P = p_data Q \<and> p_end P = p_end Q"

lemma same_bytes_memo [simp]:
  "same_bytes (P\<lparr>p_qd := m\<rparr>) Q = same_bytes P Q" "same_bytes (P\<lparr>p_an := m\<rparr>) Q = same_bytes P Q"
  "same_bytes (P\<lparr>p_ns := m\<rparr>) Q = same_bytes P Q" "same_bytes (P\<lparr>p_ar := m\<rparr>) Q = same_bytes P Q"
  "same_bytes P P" "same_bytes (dns_p_unstudy P) Q = same_bytes P Q"
  by (simp_all add: same_bytes_def dns_p_unstudy_def)

lemma same_bytesD: "same_bytes P Q \<Longrightarrow> p_data P = p_data Q" "same_bytes P Q \<Longrightarrow> p_end P = p_end Q"
  by (simp_all add: same_bytes_def)

lemma same_bytes_d_skip: "same_bytes P Q \<Longrightarrow> dns_d_skip src P = dns_d_skip src Q"
proof -
  assume s: "same_bytes P Q"
  have "dns_d_skip_step P = dns_d_skip_step Q"
    unfolding dns_d_skip_step_def same_bytesD [OF s] ..
  then show ?thesis by (simp add: dns_d_skip_def)
qed

lemma same_bytes_count: "same_bytes P Q \<Longrightarrow> dns_p_count P s = dns_p_count Q s"
  by (simp add: same_bytes_def dns_p_count_def hd_qdcount_def hd_ancount_def hd_nscount_def
      hd_arcount_def hd16_def)

lemma same_bytes_qend: "same_bytes P Q \<Longrightarrow> dns_p_qend P = dns_p_qend Q"
proof -
  assume s: "same_bytes P Q"
  have "dns_p_qend_step P = dns_p_qend_step Q"
    unfolding dns_p_qend_step_def same_bytesD [OF s] same_bytes_d_skip [OF s] same_bytes_count [OF s] ..
  then show ?thesis by (simp add: dns_p_qend_def)
qed

lemma same_bytes_rr_skip: "same_bytes P Q \<Longrightarrow> dns_rr_skip src P = dns_rr_skip src Q"
proof -
  assume s: "same_bytes P Q"
  have "dns_rr_len src P = dns_rr_len src Q"
    unfolding dns_rr_len_def same_bytesD [OF s] same_bytes_d_skip [OF s] same_bytes_qend [OF s] ..
  then show ?thesis by (simp add: dns_rr_skip_def)
qed

text \<open>\<open>rr_pos P k\<close> is where the \<open>k\<close>-th record starts, or a position at the end once there are
  no more records.\<close>

fun rr_pos :: "dns_packet \<Rightarrow> nat \<Rightarrow> nat" where
  "rr_pos P 0 = 12"
| "rr_pos P (Suc k) =
     (if rr_pos P k < p_end P then the (dns_rr_skip (rr_pos P k) P) else rr_pos P k)"

lemma rr_pos_skip:
  assumes "readable P" "rr_pos P k < p_end P"
  shows "dns_rr_skip (rr_pos P k) P = Some (rr_pos P (Suc k))" "rr_pos P k < rr_pos P (Suc k)"
    "rr_pos P (Suc k) \<le> p_end P"
  using dns_rr_skip_returns [OF assms] assms(2) by auto

lemma rr_pos_mono: "readable P \<Longrightarrow> j \<le> k \<Longrightarrow> rr_pos P j \<le> rr_pos P k"
proof (induction k)
  case (Suc k)
  show ?case
  proof (cases "j = Suc k")
    case False
    with Suc have "rr_pos P j \<le> rr_pos P k" by simp
    also have "\<dots> \<le> rr_pos P (Suc k)"
      using rr_pos_skip(2) [OF Suc.prems(1), of k] by (cases "rr_pos P k < p_end P") auto
    finally show ?thesis .
  qed simp
qed simp

lemma rr_pos_less: "readable P \<Longrightarrow> j < k \<Longrightarrow> rr_pos P j < p_end P \<Longrightarrow> rr_pos P j < rr_pos P k"
  using rr_pos_skip(2) [of P j] rr_pos_mono [of P "Suc j" k] by simp

lemma rr_pos_less_iff:
  "readable P \<Longrightarrow> rr_pos P k < p_end P \<Longrightarrow> rr_pos P k < rr_pos P j \<longleftrightarrow> k < j"
  using rr_pos_less [of P k j] rr_pos_mono [of P j k] by (meson not_le)

lemma rr_pos_ge: "readable P \<Longrightarrow> rr_pos P k < p_end P \<Longrightarrow> k + 12 \<le> rr_pos P k"
proof (induction k)
  case (Suc k)
  then have "rr_pos P k < p_end P" by (auto split: if_splits)
  with Suc rr_pos_skip(2) [of P k] show ?case by simp
qed simp

lemma rr_pos_bound: "readable P \<Longrightarrow> rr_pos P k \<le> max 12 (p_end P)"
proof (induction k)
  case (Suc k)
  then show ?case using rr_pos_skip(3) [of P k] by (cases "rr_pos P k < p_end P") auto
qed simp

text \<open>The index \<open>dns_rr_section\<close> counts up to.\<close>

lemma section_index:
  assumes "readable P" "rr_pos P k < p_end P" "j \<le> k"
  shows "c_while (dns_rr_section_step (rr_pos P k) P) (rr_pos P j, j) = Some k"
  using assms(3)
proof (induction "k - j" arbitrary: j)
  case 0
  then show ?case by (intro c_while_stop) (simp add: dns_rr_section_step_def)
next
  case (Suc d)
  then have jk: "j < k" by simp
  have j: "rr_pos P j < rr_pos P k"
    using rr_pos_mono [OF assms(1), of j k] rr_pos_less [OF assms(1) jk] assms(2) jk by fastforce
  have "Suc j < 4294967296"
    using rr_pos_ge [OF assms(1,2)] jk assms(2) readable_end [OF assms(1)] by simp
  then have "dns_rr_section_step (rr_pos P k) P (rr_pos P j, j) = Some (Inl (rr_pos P (Suc j), Suc j))"
    using j assms(2) rr_pos_skip(1) [OF assms(1), of j]
    by (simp add: dns_rr_section_step_def del: rr_pos.simps)
  then show ?case
    using Suc.hyps(1) [of "Suc j"] Suc.hyps(2) jk by (simp add: c_while_next)
qed

text \<open>The section of the \<open>k\<close>-th record by the header's counts alone.\<close>

definition section_of :: "dns_packet \<Rightarrow> nat \<Rightarrow> nat" where
  "section_of P k =
     (if k < hd_qdcount P then DNS_S_QD
      else if k < hd_qdcount P + hd_ancount P then DNS_S_AN
      else if k < hd_qdcount P + hd_ancount P + hd_nscount P then DNS_S_NS
      else if k < hd_qdcount P + hd_ancount P + hd_nscount P + hd_arcount P then DNS_S_AR
      else 0)"

lemma hd_counts_less [simp]:
  "hd_qdcount P < 65536" "hd_ancount P < 65536" "hd_nscount P < 65536" "hd_arcount P < 65536"
  by (simp_all add: hd_qdcount_def hd_ancount_def hd_nscount_def hd_arcount_def)

lemma counts_at [simp]:
  "dns_p_count P (Suc 0) = hd_qdcount P" "dns_p_count P 2 = hd_ancount P"
  "dns_p_count P 4 = hd_nscount P" "dns_p_count P 8 = hd_arcount P" "dns_p_count P 16 = 0"
  by (simp_all add: dns_p_count_def c_defs)

lemma section_up: "15 AND dns_rr_section_up 4 P k 1 (hd_qdcount P) = section_of P k"
proof -
  have u: "uint32 (hd_qdcount P + hd_ancount P) = hd_qdcount P + hd_ancount P"
    "uint32 (hd_qdcount P + hd_ancount P + hd_nscount P) = hd_qdcount P + hd_ancount P + hd_nscount P"
    "uint32 (hd_qdcount P + hd_ancount P + hd_nscount P + hd_arcount P) =
       hd_qdcount P + hd_ancount P + hd_nscount P + hd_arcount P"
    using hd_counts_less [of P] by (simp_all del: hd_counts_less)
  have four: "(4 :: nat) = Suc (Suc (Suc (Suc 0)))" by simp
  show ?thesis
    unfolding four by (simp add: u section_of_def c_defs)
qed

lemma section_hard_way:
  assumes "readable P" "rr_pos P k < p_end P"
    and "m_end (p_qd P) \<le> m_base (p_qd P)" "m_end (p_an P) \<le> m_base (p_an P)"
    and "m_end (p_ns P) \<le> m_base (p_ns P)" "m_end (p_ar P) \<le> m_base (p_ar P)"
  shows "dns_rr_section (rr_pos P k) P = Some (section_of P k)"
  using assms section_index [OF assms(1,2), of 0] section_up [of P k]
  by (simp add: dns_rr_section_def DNS_S_ALL_def DNS_S_QD_def)


subsection \<open>The memoised bounds\<close>

lemma study_walk:
  assumes "readable P" "same_bytes Q P"
  shows "c_while (dns_s_study_step Q) (c, rr_pos P j) = Some (rr_pos P (j + c))"
proof (induction c arbitrary: j)
  case 0
  then show ?case by (simp add: c_while_stop dns_s_study_step_def)
next
  case (Suc c)
  have e: "p_end Q = p_end P" using assms(2) by (simp add: same_bytes_def)
  show ?case
  proof (cases "rr_pos P j < p_end P")
    case True
    then have "dns_s_study_step Q (Suc c, rr_pos P j) = Some (Inl (c, rr_pos P (Suc j)))"
      using rr_pos_skip(1) [OF assms(1) True]
      by (simp add: dns_s_study_step_def e same_bytes_rr_skip [OF assms(2)] del: rr_pos.simps)
    then show ?thesis using Suc [of "Suc j"] by (simp add: c_while_next del: rr_pos.simps)
  next
    case False
    then have "rr_pos P (j + n) = rr_pos P j" for n by (induction n) auto
    moreover have "dns_s_study_step Q (Suc c, rr_pos P j) = Some (Inr (rr_pos P j))"
      using False by (simp add: dns_s_study_step_def e)
    ultimately show ?thesis by (simp only: c_while_stop)
  qed
qed

lemma rr_pos_u16 [simp]: "readable P \<Longrightarrow> u16 (rr_pos P k) = rr_pos P k"
  using rr_pos_bound [of P k] readable_end [of P] by (simp add: max_def split: if_splits)

lemma study_section:
  assumes "readable P" "same_bytes Q P" "dns_p_count P s < 65536"
  shows "dns_s_study s (rr_pos P j) Q =
    Some \<lparr>m_base = rr_pos P j, m_end = rr_pos P (j + dns_p_count P s)\<rparr>"
  using assms study_walk [OF assms(1,2), of "dns_p_count P s" j]
  by (simp add: dns_s_study_def same_bytes_count [OF assms(2)])

text \<open>What \<open>dns_p_study\<close> memoises: each section from the first of its records to the first of
  the next section's.\<close>

definition studied :: "dns_packet \<Rightarrow> dns_packet" where
  "studied P =
     (let a = hd_qdcount P; b = a + hd_ancount P; c = b + hd_nscount P; d = c + hd_arcount P in
      P\<lparr>p_qd := \<lparr>m_base = 12, m_end = rr_pos P a\<rparr>,
        p_an := \<lparr>m_base = rr_pos P a, m_end = rr_pos P b\<rparr>,
        p_ns := \<lparr>m_base = rr_pos P b, m_end = rr_pos P c\<rparr>,
        p_ar := \<lparr>m_base = rr_pos P c, m_end = rr_pos P d\<rparr>\<rparr>)"

lemma dns_p_study_eq:
  assumes "readable P"
  shows "dns_p_study P = Some (studied P)"
proof -
  have "rr_pos P 0 = 12" by simp
  note qd = study_section [OF assms, of _ 1 0, simplified]
  note an = study_section [OF assms, of _ 2]
  note ns = study_section [OF assms, of _ 4]
  note ar = study_section [OF assms, of _ 8]
  show ?thesis
    using assms by (simp add: dns_p_study_def studied_def c_defs qd an ns ar Let_def)
qed

lemma same_bytes_studied: "same_bytes (studied P) P"
  by (simp add: studied_def Let_def same_bytes_def)

lemma same_bytes_rr_pos: "same_bytes P Q \<Longrightarrow> rr_pos P k = rr_pos Q k"
  by (induction k) (simp_all add: same_bytes_rr_skip same_bytesD(2))

lemma same_bytes_readable: "same_bytes P Q \<Longrightarrow> readable P = readable Q"
  by (simp add: same_bytes_def readable_def)

lemma same_bytes_section_of: "same_bytes P Q \<Longrightarrow> section_of P k = section_of Q k"
  by (simp add: section_of_def same_bytes_def hd_qdcount_def hd_ancount_def hd_nscount_def
      hd_arcount_def hd16_def)

lemma section_memoised:
  assumes "readable P" "rr_pos P k < p_end P"
  shows "dns_rr_section (rr_pos P k) (studied P) = Some (section_of P k)"
proof -
  let ?S = "studied P"
  define a where "a = hd_qdcount P"
  define b where "b = a + hd_ancount P"
  define c where "c = b + hd_nscount P"
  define d where "d = c + hd_arcount P"
  have lt: "rr_pos P k < rr_pos P j \<longleftrightarrow> k < j" for j by (rule rr_pos_less_iff [OF assms])
  then have le: "rr_pos P j \<le> rr_pos P k \<longleftrightarrow> j \<le> k" for j by (simp add: not_less [symmetric])
  have memos: "p_qd ?S = \<lparr>m_base = 12, m_end = rr_pos P a\<rparr>"
    "p_an ?S = \<lparr>m_base = rr_pos P a, m_end = rr_pos P b\<rparr>"
    "p_ns ?S = \<lparr>m_base = rr_pos P b, m_end = rr_pos P c\<rparr>"
    "p_ar ?S = \<lparr>m_base = rr_pos P c, m_end = rr_pos P d\<rparr>"
    by (simp_all add: studied_def Let_def a_def b_def c_def d_def)
  have zero: "12 \<le> rr_pos P k" using rr_pos_mono [OF assms(1), of 0 k] by simp
  have hard: "DNS_S_ALL AND dns_rr_section_up 4 ?S k DNS_S_QD (dns_p_count ?S DNS_S_QD) = section_of P k"
    using section_up [of ?S k] same_bytes_section_of [OF same_bytes_studied, of P k]
    by (simp add: c_defs)
  have "c_while (dns_rr_section_step (rr_pos P k) ?S) (12, 0) = Some k"
    using section_index [of ?S k 0] assms same_bytes_rr_pos [OF same_bytes_studied, of P]
      same_bytes_readable [OF same_bytes_studied, of P] same_bytesD(2) [OF same_bytes_studied, of P]
    by simp
  then have w: "dns_rr_section (rr_pos P k) ?S =
      (if k < a then Some DNS_S_QD
       else if a \<le> k \<and> k < b then Some DNS_S_AN
       else if b \<le> k \<and> k < c then Some DNS_S_NS
       else if c \<le> k \<and> k < d then Some DNS_S_AR
       else Some (section_of P k))"
    unfolding dns_rr_section_def memos by (simp add: hard lt le zero)
  show ?thesis
    unfolding w by (simp add: section_of_def a_def b_def c_def d_def)
qed

text \<open>C4: memoising is transparent. After \<open>dns_p_study\<close>, \<open>dns_rr_section\<close> gives every record
  of the packet the section it had before any study, which is the one the header's counts
  assign to its index; the study itself always returns.\<close>

theorem dns_p_study_transparent:
  assumes "readable P" and "rr_pos P k < p_end P"
  shows "\<exists>S. dns_p_study P = Some S \<and>
    dns_rr_section (rr_pos P k) S = dns_rr_section (rr_pos P k) (dns_p_unstudy P) \<and>
    dns_rr_section (rr_pos P k) S = Some (section_of P k)"
proof -
  let ?U = "dns_p_unstudy P"
  have u: "same_bytes ?U P" by simp
  have "dns_rr_section (rr_pos ?U k) ?U = Some (section_of ?U k)"
    using assms same_bytes_rr_pos [OF u, of k] same_bytes_readable [OF u] same_bytesD(2) [OF u]
    by (intro section_hard_way) (simp_all add: dns_p_unstudy_def dns_s_unstudy_def)
  then show ?thesis
    using section_memoised [OF assms] dns_p_study_eq [OF assms(1)]
    by (simp add: same_bytes_rr_pos [OF u] same_bytes_section_of [OF u])
qed

theorem dns_p_study_transparent_witness:
  "\<exists>S. dns_p_study (raw_packet (replicate 20 0)) = Some S \<and>
    dns_rr_section 12 S = Some (section_of (raw_packet (replicate 20 0)) 0)"
  using dns_p_study_transparent [OF raw_packet_readable [of "replicate 20 0"], of 0] by auto

text \<open>C34: walking a packet ends. From a position inside, \<open>dns_rr_skip\<close> returns, in bounds,
  a later position not past \<open>end\<close>.\<close>

theorem dns_rr_skip_progress:
  assumes "readable P" and "src < p_end P"
  shows "\<exists>r. dns_rr_skip src P = Some r \<and> src < r \<and> r \<le> p_end P"
  by (rule dns_rr_skip_returns [OF assms])

theorem dns_rr_skip_progress_witness:
  "\<exists>r. dns_rr_skip 12 (raw_packet (replicate 40 255)) = Some r \<and> 12 < r \<and> r \<le> 40"
  using dns_rr_skip_progress [OF raw_packet_readable [of "replicate 40 255"], of 12] by auto

text \<open>C33: \<open>dns_rr_parse\<close> always returns, in bounds; a record it accepts lies within the packet
  with its owner name and its data, and its TTL fits 31 bits.\<close>

theorem dns_rr_parse_within:
  assumes "readable P"
  shows "\<exists>rr' e. dns_rr_parse rr src P = Some (rr', e) \<and>
    (e = None \<longrightarrow> src < p_end P \<and> rr_dn_p rr' = src \<and> rr_within P rr')"
  using dns_rr_parse_returns [OF assms, of rr src] by (metis not_le)

theorem dns_rr_parse_within_witness:
  "\<exists>rr e. dns_rr_parse rr0 12 (raw_packet (replicate 30 0)) = Some (rr, e)"
  using dns_rr_parse_within [OF raw_packet_readable [of "replicate 30 0"], of rr0 12] by auto

lemma dns_rr_parse_dn: "dns_rr_parse rr0 src P = Some (rr, None) \<Longrightarrow> rr_dn_p rr = src"
  by (auto simp: dns_rr_parse_def Let_def split: if_splits Option.bind_splits)


end
