(* ===== verification/RData.thy ===== *)
theory RData
  imports RR
begin

section \<open>Resource record data\<close>

text \<open>
  The parsers, builders, comparisons and printers of each record type in \<open>dns.c\<close>, and the
  table \<open>dns_rrtypes\<close> through which \<open>dns_any_*\<close> reach them. A parser returns the structure
  it fills, whose buffers start as zeros; the fields a failed parse leaves behind are not
  kept, since no caller reads them.
\<close>

subsection \<open>Data\<close>

text \<open>\<open>dns_a\<close> is \<open>ntohl (s_addr)\<close>, \<open>dns_aaaa\<close> the 16 bytes \<open>s6_addr\<close>; a host name is the
  array \<open>char [DNS_D_MAXNAME + 1]\<close>, shared by \<open>dns_ns\<close>, \<open>dns_cname\<close> and \<open>dns_ptr\<close>.\<close>

type_synonym dns_a = nat
type_synonym dns_aaaa = bytes
type_synonym dns_ns = bytes

record dns_mx =
  mx_preference :: nat
  mx_host :: bytes

record dns_soa =
  soa_mname :: bytes
  soa_rname :: bytes
  soa_serial :: nat
  soa_refresh :: nat
  soa_retry :: nat
  soa_expire :: nat
  soa_minimum :: nat

record dns_srv =
  srv_priority :: nat
  srv_weight :: nat
  srv_port :: nat
  srv_target :: bytes

record dns_opt =
  opt_size :: nat
  opt_len :: nat
  opt_rcode :: nat
  opt_version :: nat
  opt_maxsize :: nat
  opt_data :: bytes

record dns_sshfp =
  fp_algo :: nat
  fp_type :: nat
  fp_sha1 :: bytes

record dns_txt =
  txt_size :: nat
  txt_len :: nat
  txt_data :: bytes

definition DNS_SSHFP_SHA1 :: nat where [c_defs]: "DNS_SSHFP_SHA1 = 1"
definition DNS_TXT_MINDATA :: nat where [c_defs]: "DNS_TXT_MINDATA = 1024"
definition DNS_OPT_MINDATA :: nat where [c_defs]: "DNS_OPT_MINDATA = 512"

text \<open>The union \<open>dns_any\<close>: one constructor for each member that is read. Reading a member
  other than the one last written has no result.\<close>

datatype dns_any =
    Any_a dns_a
  | Any_aaaa dns_aaaa
  | Any_mx dns_mx
  | Any_ns dns_ns
  | Any_soa dns_soa
  | Any_srv dns_srv
  | Any_opt dns_opt
  | Any_sshfp dns_sshfp
  | Any_rdata dns_txt

subsection \<open>Building blocks\<close>

text \<open>\<open>P->data[P->end++] = v\<close>.\<close>

definition p_put :: "dns_packet \<Rightarrow> byte \<Rightarrow> dns_packet option" where
  "p_put P v = do { d \<leftarrow> wr (p_data P) (p_end P) v; Some (P\<lparr>p_data := d, p_end := p_end P + 1\<rparr>) }"

definition p_put16 :: "dns_packet \<Rightarrow> nat \<Rightarrow> dns_packet option" where
  "p_put16 P n = do { P \<leftarrow> p_put P (byte_of (drop_bit 8 n)); p_put P (byte_of n) }"

definition p_room :: "dns_packet \<Rightarrow> nat" where
  "p_room P = sz_sub (p_size P) (p_end P)"

text \<open>\<open>P->end = end; return error\<close>.\<close>

definition p_fail :: "dns_packet \<Rightarrow> nat \<Rightarrow> dns_error \<Rightarrow> (dns_packet \<times> dns_error option) option" where
  "p_fail P e error = Some (P\<lparr>p_end := e\<rparr>, Some error)"

text \<open>The two bytes of RDLENGTH, filled in once the data is written.\<close>

definition p_rdlen :: "dns_packet \<Rightarrow> nat \<Rightarrow> (dns_packet \<times> dns_error option) option" where
  "p_rdlen P e = do {
     let len = p_end P - e - 2;
     d \<leftarrow> wr16 (p_data P) e len;
     Some (P\<lparr>p_data := d\<rparr>, None) }"

text \<open>\<open>dns_d_expand\<close> into a \<open>char [DNS_D_MAXNAME + 1]\<close>, with the two checks that follow it.\<close>

definition expand_host :: "nat \<Rightarrow> dns_packet \<Rightarrow> (dns_error + bytes) option" where
  "expand_host src P = do {
     (host, r) \<leftarrow> dns_d_expand (replicate (DNS_D_MAXNAME + 1) 0) (DNS_D_MAXNAME + 1) src P;
     Some (case r of
        Inl e \<Rightarrow> Inl e
      | Inr n \<Rightarrow> if n \<ge> DNS_D_MAXNAME + 1 then Inl DNS_EILLEGAL else Inr host) }"

subsection \<open>A\<close>

definition dns_a_parse :: "dns_rr \<Rightarrow> dns_packet \<Rightarrow> (dns_error + dns_a) option" where
  "dns_a_parse rr P =
     (if rr_rd_len rr \<noteq> 4 then Some (Inl DNS_EILLEGAL)
      else do {
        a \<leftarrow> rd (p_data P) (rr_rd_p rr);
        b \<leftarrow> rd (p_data P) (rr_rd_p rr + 1);
        c \<leftarrow> rd (p_data P) (rr_rd_p rr + 2);
        d \<leftarrow> rd (p_data P) (rr_rd_p rr + 3);
        Some (Inr (be32 a b c d)) })"

definition dns_a_push :: "dns_packet \<Rightarrow> dns_a \<Rightarrow> (dns_packet \<times> dns_error option) option" where
  "dns_a_push P a =
     (if p_room P < 6 then Some (P, Some DNS_ENOBUFS)
      else do {
        P \<leftarrow> p_put P 0;
        P \<leftarrow> p_put P 4;
        P \<leftarrow> p_put P (byte_of (drop_bit 24 a));
        P \<leftarrow> p_put P (byte_of (drop_bit 16 a));
        P \<leftarrow> p_put P (byte_of (drop_bit 8 a));
        P \<leftarrow> p_put P (byte_of a);
        Some (P, None) })"

definition dns_a_cmp :: "dns_a \<Rightarrow> dns_a \<Rightarrow> int" where
  "dns_a_cmp a b = (if a < b then -1 else if a > b then 1 else 0)"

fun dns_a_arpa_loop :: "nat \<Rightarrow> bytes \<Rightarrow> nat \<Rightarrow> nat \<Rightarrow> nat \<Rightarrow> (bytes \<times> nat) option" where
  "dns_a_arpa_loop 0 dst lim cp a4 = Some (dst, cp)"
| "dns_a_arpa_loop (Suc i) dst lim cp a4 = do {
     (dst, n) \<leftarrow> dns__print10 dst lim cp (255 AND a4) 0;
     let cp = cp + n;
     (dst, n) \<leftarrow> dns__printchar dst lim cp 46;
     dns_a_arpa_loop i dst lim (cp + n) (drop_bit 8 a4) }"

definition dns_a_arpa :: "bytes \<Rightarrow> nat \<Rightarrow> dns_a \<Rightarrow> (bytes \<times> nat) option" where
  "dns_a_arpa dst lim a = do {
     (dst, cp) \<leftarrow> dns_a_arpa_loop 4 dst lim 0 a;
     (dst, n) \<leftarrow> dns__printstring dst lim cp (of_string ''in-addr.arpa.'') 13;
     let cp = cp + n;
     dst \<leftarrow> dns__printnul dst lim cp;
     Some (dst, cp) }"

text \<open>\<open>inet_ntop\<close> is the argument \<open>ntop\<close>: the text it writes for an address.\<close>

definition dns_a_print :: "(dns_a \<Rightarrow> bytes) \<Rightarrow> bytes \<Rightarrow> nat \<Rightarrow> dns_a \<Rightarrow> (bytes \<times> nat) option" where
  "dns_a_print ntop dst lim a = do {
     (dst, n) \<leftarrow> dns__printstring dst lim 0 (ntop a) (length (ntop a));
     dst \<leftarrow> dns__printnul dst lim n;
     Some (dst, n) }"

subsection \<open>AAAA\<close>

definition dns_aaaa_parse :: "dns_rr \<Rightarrow> dns_packet \<Rightarrow> (dns_error + dns_aaaa) option" where
  "dns_aaaa_parse rr P =
     (if rr_rd_len rr \<noteq> 16 then Some (Inl DNS_EILLEGAL)
      else do { xs \<leftarrow> rd_mem (p_data P) (rr_rd_p rr) 16; Some (Inr xs) })"

definition dns_aaaa_push :: "dns_packet \<Rightarrow> dns_aaaa \<Rightarrow> (dns_packet \<times> dns_error option) option" where
  "dns_aaaa_push P aaaa =
     (if p_room P < 2 + 16 then Some (P, Some DNS_ENOBUFS)
      else do {
        P \<leftarrow> p_put P 0;
        P \<leftarrow> p_put P 16;
        xs \<leftarrow> rd_mem aaaa 0 16;
        d \<leftarrow> wr_mem (p_data P) (p_end P) xs;
        Some (P\<lparr>p_data := d, p_end := p_end P + 16\<rparr>, None) })"

definition dns_aaaa_cmp :: "dns_aaaa \<Rightarrow> dns_aaaa \<Rightarrow> int option" where
  "dns_aaaa_cmp a b = c_memcmp a b 16"

definition hex_digits :: bytes where
  "hex_digits = of_string ''0123456789abcdef''"

text \<open>The loop \<open>for (i = 15; i >= 0; i--)\<close>: the first argument is \<open>i + 1\<close>.\<close>

fun dns_aaaa_arpa_loop :: "nat \<Rightarrow> bytes \<Rightarrow> nat \<Rightarrow> nat \<Rightarrow> dns_aaaa \<Rightarrow> (bytes \<times> nat) option" where
  "dns_aaaa_arpa_loop 0 dst lim cp a = Some (dst, cp)"
| "dns_aaaa_arpa_loop (Suc i) dst lim cp a = do {
     b \<leftarrow> rd a i;
     (dst, n) \<leftarrow> dns__printchar dst lim cp (hex_digits ! (15 AND unat b));
     let cp = cp + n;
     (dst, n) \<leftarrow> dns__printchar dst lim cp 46;
     let cp = cp + n;
     (dst, n) \<leftarrow> dns__printchar dst lim cp (hex_digits ! (15 AND drop_bit 4 (unat b)));
     let cp = cp + n;
     (dst, n) \<leftarrow> dns__printchar dst lim cp 46;
     dns_aaaa_arpa_loop i dst lim (cp + n) a }"

definition dns_aaaa_arpa :: "bytes \<Rightarrow> nat \<Rightarrow> dns_aaaa \<Rightarrow> (bytes \<times> nat) option" where
  "dns_aaaa_arpa dst lim a = do {
     (dst, cp) \<leftarrow> dns_aaaa_arpa_loop 16 dst lim 0 a;
     (dst, n) \<leftarrow> dns__printstring dst lim cp (of_string ''ip6.arpa.'') 9;
     let cp = cp + n;
     dst \<leftarrow> dns__printnul dst lim cp;
     Some (dst, cp) }"

definition dns_aaaa_print ::
    "(dns_aaaa \<Rightarrow> bytes) \<Rightarrow> bytes \<Rightarrow> nat \<Rightarrow> dns_aaaa \<Rightarrow> (bytes \<times> nat) option" where
  "dns_aaaa_print ntop dst lim a = do {
     (dst, n) \<leftarrow> dns__printstring dst lim 0 (ntop a) (length (ntop a));
     dst \<leftarrow> dns__printnul dst lim n;
     Some (dst, n) }"

subsection \<open>MX\<close>

definition dns_mx_parse :: "dns_rr \<Rightarrow> dns_packet \<Rightarrow> (dns_error + dns_mx) option" where
  "dns_mx_parse rr P =
     (if rr_rd_len rr < 3 then Some (Inl DNS_EILLEGAL)
      else do {
        pref \<leftarrow> rd16 (p_data P) (rr_rd_p rr);
        ebind (expand_host (u16 (rr_rd_p rr + 2)) P)
          (\<lambda>host. Some (Inr \<lparr>mx_preference = pref, mx_host = host\<rparr>)) })"

definition dns_mx_push :: "dns_packet \<Rightarrow> dns_mx \<Rightarrow> (dns_packet \<times> dns_error option) option" where
  "dns_mx_push P mx =
     (if p_room P < 5 then Some (P, Some DNS_ENOBUFS)
      else do {
        let e = p_end P;
        P \<leftarrow> p_put16 (P\<lparr>p_end := e + 2\<rparr>) (mx_preference mx);
        n \<leftarrow> c_strlen (mx_host mx);
        (P, r) \<leftarrow> dns_d_push P (mx_host mx) n;
        (case r of Some error \<Rightarrow> p_fail P e error | None \<Rightarrow> p_rdlen P e) })"

definition dns_mx_cmp :: "dns_mx \<Rightarrow> dns_mx \<Rightarrow> int option" where
  "dns_mx_cmp a b =
     (let cmp = int (mx_preference a) - int (mx_preference b) in
      if cmp \<noteq> 0 then Some cmp else c_strcasecmp (mx_host a) (mx_host b))"

definition dns_mx_print :: "bytes \<Rightarrow> nat \<Rightarrow> dns_mx \<Rightarrow> (bytes \<times> nat) option" where
  "dns_mx_print dst lim mx = do {
     (dst, n) \<leftarrow> dns__print10 dst lim 0 (mx_preference mx) 0;
     let cp = n;
     (dst, n) \<leftarrow> dns__printchar dst lim cp 32;
     let cp = cp + n;
     len \<leftarrow> c_strlen (mx_host mx);
     (dst, n) \<leftarrow> dns__printstring dst lim cp (mx_host mx) len;
     let cp = cp + n;
     dst \<leftarrow> dns__printnul dst lim cp;
     Some (dst, cp) }"

definition dns_mx_cname :: "bytes \<Rightarrow> nat \<Rightarrow> dns_mx \<Rightarrow> (bytes \<times> nat) option" where
  "dns_mx_cname dst lim mx = dns_strlcpy dst (mx_host mx) lim"

subsection \<open>NS, CNAME, PTR\<close>

definition dns_ns_parse :: "dns_rr \<Rightarrow> dns_packet \<Rightarrow> (dns_error + dns_ns) option" where
  "dns_ns_parse rr P = expand_host (rr_rd_p rr) P"

definition dns_ns_push :: "dns_packet \<Rightarrow> dns_ns \<Rightarrow> (dns_packet \<times> dns_error option) option" where
  "dns_ns_push P ns =
     (if p_room P < 3 then Some (P, Some DNS_ENOBUFS)
      else do {
        let e = p_end P;
        n \<leftarrow> c_strlen ns;
        (P, r) \<leftarrow> dns_d_push (P\<lparr>p_end := e + 2\<rparr>) ns n;
        (case r of Some error \<Rightarrow> p_fail P e error | None \<Rightarrow> p_rdlen P e) })"

definition dns_ns_cmp :: "dns_ns \<Rightarrow> dns_ns \<Rightarrow> int option" where
  "dns_ns_cmp a b = c_strcasecmp a b"

definition dns_ns_print :: "bytes \<Rightarrow> nat \<Rightarrow> dns_ns \<Rightarrow> (bytes \<times> nat) option" where
  "dns_ns_print dst lim ns = do {
     len \<leftarrow> c_strlen ns;
     (dst, cp) \<leftarrow> dns__printstring dst lim 0 ns len;
     dst \<leftarrow> dns__printnul dst lim cp;
     Some (dst, cp) }"

definition dns_ns_cname :: "bytes \<Rightarrow> nat \<Rightarrow> dns_ns \<Rightarrow> (bytes \<times> nat) option" where
  "dns_ns_cname dst lim ns = dns_strlcpy dst ns lim"

definition dns_ptr_qname ::
    "bytes \<Rightarrow> nat \<Rightarrow> dns_a + dns_aaaa \<Rightarrow> (bytes \<times> nat) option" where
  "dns_ptr_qname dst lim addr = do {
     (dst, len) \<leftarrow> (case addr of
        Inr a6 \<Rightarrow> dns_aaaa_arpa dst lim a6
      | Inl a4 \<Rightarrow> dns_a_arpa dst lim a4);
     dst \<leftarrow> dns__printnul dst lim len;
     Some (dst, len) }"

subsection \<open>SOA\<close>

text \<open>The five numbers are read by one loop each, which checks every byte against \<open>P->end\<close>.\<close>

fun dns_soa_parse_ts :: "nat \<Rightarrow> nat \<Rightarrow> nat \<Rightarrow> dns_packet \<Rightarrow> (dns_error + nat \<times> nat) option" where
  "dns_soa_parse_ts 0 ts rp P = Some (Inr (uint32 ts, rp))"
| "dns_soa_parse_ts (Suc j) ts rp P =
     (if rp \<ge> p_end P then Some (Inl DNS_EILLEGAL)
      else do {
        b \<leftarrow> rd (p_data P) rp;
        dns_soa_parse_ts j (push_bit 8 ts OR unat b) (u16 (rp + 1)) P })"

text \<open>One round of the loop over MNAME and RNAME.\<close>

definition dns_soa_parse_dn :: "nat \<Rightarrow> dns_packet \<Rightarrow> (dns_error + bytes \<times> nat) option" where
  "dns_soa_parse_dn rp P =
     ebind (expand_host rp P) (\<lambda>host. do {
       rp \<leftarrow> dns_d_skip rp P;
       if rp \<ge> p_end P then Some (Inl DNS_EILLEGAL) else Some (Inr (host, rp)) })"

definition dns_soa_parse :: "dns_rr \<Rightarrow> dns_packet \<Rightarrow> (dns_error + dns_soa) option" where
  "dns_soa_parse rr P =
     (if rr_rd_p rr \<ge> p_end P then Some (Inl DNS_EILLEGAL)
      else
        ebind (dns_soa_parse_dn (rr_rd_p rr) P) (\<lambda>(mname, rp).
        ebind (dns_soa_parse_dn rp P) (\<lambda>(rname, rp).
        ebind (dns_soa_parse_ts 4 0 rp P) (\<lambda>(serial, rp).
        ebind (dns_soa_parse_ts 4 0 rp P) (\<lambda>(refresh, rp).
        ebind (dns_soa_parse_ts 4 0 rp P) (\<lambda>(retry, rp).
        ebind (dns_soa_parse_ts 4 0 rp P) (\<lambda>(expire, rp).
        ebind (dns_soa_parse_ts 4 0 rp P) (\<lambda>(minimum, rp).
          Some (Inr \<lparr>soa_mname = mname, soa_rname = rname, soa_serial = serial,
                     soa_refresh = refresh, soa_retry = retry, soa_expire = expire,
                     soa_minimum = minimum\<rparr>)))))))))"

text \<open>The loop over \<open>ts[]\<close> writes each number from \<open>P->end\<close> backwards, after making room.\<close>

fun dns_soa_push_ts :: "nat \<Rightarrow> dns_packet \<Rightarrow> nat list \<Rightarrow> (dns_packet \<times> dns_error option) option" where
  "dns_soa_push_ts e P [] = p_rdlen P e"
| "dns_soa_push_ts e P (t # ts) =
     (let P = P\<lparr>p_end := p_end P + 4\<rparr> in
      if p_end P \<ge> p_size P then p_fail P e DNS_ENOBUFS
      else do {
        d \<leftarrow> wr (p_data P) (p_end P - 1) (byte_of t);
        d \<leftarrow> wr d (p_end P - 2) (byte_of (drop_bit 8 t));
        d \<leftarrow> wr d (p_end P - 3) (byte_of (drop_bit 16 t));
        d \<leftarrow> wr d (p_end P - 4) (byte_of (drop_bit 24 t));
        dns_soa_push_ts e (P\<lparr>p_data := d\<rparr>) ts })"

definition dns_soa_push :: "dns_packet \<Rightarrow> dns_soa \<Rightarrow> (dns_packet \<times> dns_error option) option" where
  "dns_soa_push P soa =
     (let e = p_end P; P = P\<lparr>p_end := e + 2\<rparr> in
      if p_end P \<ge> p_size P then p_fail P e DNS_ENOBUFS
      else do {
        n \<leftarrow> c_strlen (soa_mname soa);
        (P, r) \<leftarrow> dns_d_push P (soa_mname soa) n;
        (case r of
           Some error \<Rightarrow> p_fail P e error
         | None \<Rightarrow> do {
             n \<leftarrow> c_strlen (soa_rname soa);
             (P, r) \<leftarrow> dns_d_push P (soa_rname soa) n;
             (case r of
                Some error \<Rightarrow> p_fail P e error
              | None \<Rightarrow>
                  dns_soa_push_ts e P
                    [4294967295 AND soa_serial soa, 2147483647 AND soa_refresh soa,
                     2147483647 AND soa_retry soa, 2147483647 AND soa_expire soa,
                     4294967295 AND soa_minimum soa]) }) })"

text \<open>The five comparisons that follow the names, each with its two branches.\<close>

fun dns_soa_cmp_ts :: "(nat \<times> nat) list \<Rightarrow> int" where
  "dns_soa_cmp_ts [] = 0"
| "dns_soa_cmp_ts ((x, y) # ts) =
     (if x > y then -1 else if x < y then 1 else dns_soa_cmp_ts ts)"

definition dns_soa_cmp :: "dns_soa \<Rightarrow> dns_soa \<Rightarrow> int option" where
  "dns_soa_cmp a b = do {
     cmp \<leftarrow> c_strcasecmp (soa_mname a) (soa_mname b);
     if cmp \<noteq> 0 then Some cmp
     else do {
       cmp \<leftarrow> c_strcasecmp (soa_rname a) (soa_rname b);
       if cmp \<noteq> 0 then Some cmp
       else Some (dns_soa_cmp_ts
         [(soa_serial a, soa_serial b), (soa_refresh a, soa_refresh b),
          (soa_retry a, soa_retry b), (soa_expire a, soa_expire b),
          (soa_minimum a, soa_minimum b)]) } }"

fun dns_soa_print_ts :: "bytes \<Rightarrow> nat \<Rightarrow> nat \<Rightarrow> nat list \<Rightarrow> (bytes \<times> nat) option" where
  "dns_soa_print_ts dst lim cp [] = Some (dst, cp)"
| "dns_soa_print_ts dst lim cp (t # ts) = do {
     (dst, n) \<leftarrow> dns__printchar dst lim cp 32;
     let cp = cp + n;
     (dst, n) \<leftarrow> dns__print10 dst lim cp t 0;
     dns_soa_print_ts dst lim (cp + n) ts }"

definition dns_soa_print :: "bytes \<Rightarrow> nat \<Rightarrow> dns_soa \<Rightarrow> (bytes \<times> nat) option" where
  "dns_soa_print dst lim soa = do {
     len \<leftarrow> c_strlen (soa_mname soa);
     (dst, cp) \<leftarrow> dns__printstring dst lim 0 (soa_mname soa) len;
     (dst, n) \<leftarrow> dns__printchar dst lim cp 32;
     let cp = cp + n;
     len \<leftarrow> c_strlen (soa_rname soa);
     (dst, n) \<leftarrow> dns__printstring dst lim cp (soa_rname soa) len;
     (dst, cp) \<leftarrow> dns_soa_print_ts dst lim (cp + n)
       [soa_serial soa, soa_refresh soa, soa_retry soa, soa_expire soa, soa_minimum soa];
     dst \<leftarrow> dns__printnul dst lim cp;
     Some (dst, cp) }"

subsection \<open>SRV\<close>

definition dns_srv_parse :: "dns_rr \<Rightarrow> dns_packet \<Rightarrow> (dns_error + dns_srv) option" where
  "dns_srv_parse rr P =
     (if rr_rd_len rr < 7 then Some (Inl DNS_EILLEGAL)
      else do {
        let rp = rr_rd_p rr;
        prio \<leftarrow> rd16 (p_data P) rp;
        weight \<leftarrow> rd16 (p_data P) (rp + 2);
        port \<leftarrow> rd16 (p_data P) (rp + 4);
        ebind (expand_host (u16 (rp + 6)) P) (\<lambda>host.
          Some (Inr \<lparr>srv_priority = prio, srv_weight = weight, srv_port = port,
                     srv_target = host\<rparr>)) })"

definition dns_srv_push :: "dns_packet \<Rightarrow> dns_srv \<Rightarrow> (dns_packet \<times> dns_error option) option" where
  "dns_srv_push P srv =
     (let e = p_end P in
      if p_room P < 2 then p_fail P e DNS_ENOBUFS
      else
       (let P = P\<lparr>p_end := e + 2\<rparr> in
        if p_room P < 6 then p_fail P e DNS_ENOBUFS
        else do {
          P \<leftarrow> p_put16 P (srv_priority srv);
          P \<leftarrow> p_put16 P (srv_weight srv);
          P \<leftarrow> p_put16 P (srv_port srv);
          n \<leftarrow> c_strlen (srv_target srv);
          (reg, r) \<leftarrow> dns_d_comp (drop (p_end P) (p_data P)) (p_room P) (srv_target srv) n P;
          let P = P\<lparr>p_data := take (p_end P) (p_data P) @ reg\<rparr>;
          (case r of
             Inl error \<Rightarrow> p_fail P e error
           | Inr len \<Rightarrow>
              (if p_room P < len then p_fail P e DNS_ENOBUFS
               else
                (let P = P\<lparr>p_end := p_end P + len\<rparr> in
                 if p_end P > 65535 then p_fail P e DNS_ENOBUFS
                 else p_rdlen P e))) }))"

definition dns_srv_cmp :: "dns_srv \<Rightarrow> dns_srv \<Rightarrow> int option" where
  "dns_srv_cmp a b =
     (let cmp = int (srv_priority a) - int (srv_priority b) in
      if cmp \<noteq> 0 then Some cmp
      else (let cmp = int (srv_weight a) - int (srv_weight b) in
      if cmp \<noteq> 0 then Some cmp
      else (let cmp = int (srv_port a) - int (srv_port b) in
      if cmp \<noteq> 0 then Some cmp
      else c_strcasecmp (srv_target a) (srv_target b))))"

definition dns_srv_print :: "bytes \<Rightarrow> nat \<Rightarrow> dns_srv \<Rightarrow> (bytes \<times> nat) option" where
  "dns_srv_print dst lim srv = do {
     (dst, n) \<leftarrow> dns__print10 dst lim 0 (srv_priority srv) 0;
     (dst, cp) \<leftarrow> dns_soa_print_ts dst lim n [srv_weight srv, srv_port srv];
     (dst, n) \<leftarrow> dns__printchar dst lim cp 32;
     let cp = cp + n;
     len \<leftarrow> c_strlen (srv_target srv);
     (dst, n) \<leftarrow> dns__printstring dst lim cp (srv_target srv) len;
     let cp = cp + n;
     dst \<leftarrow> dns__printnul dst lim cp;
     Some (dst, cp) }"

definition dns_srv_cname :: "bytes \<Rightarrow> nat \<Rightarrow> dns_srv \<Rightarrow> (bytes \<times> nat) option" where
  "dns_srv_cname dst lim srv = dns_strlcpy dst (srv_target srv) lim"

subsection \<open>OPT\<close>

definition dns_opt_ttl :: "dns_opt \<Rightarrow> nat" where
  "dns_opt_ttl opt = push_bit 24 (255 AND opt_rcode opt) OR push_bit 16 (255 AND opt_version opt)"

definition dns_opt_class :: "dns_opt \<Rightarrow> nat" where
  "dns_opt_class opt = opt_maxsize opt"

text \<open>\<open>data\<close> is at offset 20 of \<open>struct dns_opt\<close>.\<close>

definition dns_opt_init :: "bytes \<Rightarrow> nat \<Rightarrow> dns_opt option" where
  "dns_opt_init data n =
     (if n \<ge> 20
      then Some \<lparr>opt_size = n - 20, opt_len = 0, opt_rcode = 0, opt_version = 0,
                 opt_maxsize = 512, opt_data = data\<rparr>
      else None)"

definition dns_opt_parse :: "dns_opt \<Rightarrow> dns_rr \<Rightarrow> dns_packet \<Rightarrow> (dns_error + dns_opt) option" where
  "dns_opt_parse opt rr P = Some (Inr (opt\<lparr>opt_len := 0\<rparr>))"

definition dns_opt_push :: "dns_packet \<Rightarrow> dns_opt \<Rightarrow> (dns_packet \<times> dns_error option) option" where
  "dns_opt_push P opt = Some (P, None)"

definition dns_opt_cmp :: "dns_opt \<Rightarrow> dns_opt \<Rightarrow> int" where
  "dns_opt_cmp a b = 0"

text \<open>\<open>\\ddd\<close> for each byte; shared by \<open>dns_any_print\<close>.\<close>

fun print_escaped :: "bytes \<Rightarrow> nat \<Rightarrow> nat \<Rightarrow> bytes \<Rightarrow> (bytes \<times> nat) option" where
  "print_escaped dst lim p [] = Some (dst, p)"
| "print_escaped dst lim p (b # bs) = do {
     (dst, n) \<leftarrow> dns__printchar dst lim p 92;
     let p = p + n;
     (dst, n) \<leftarrow> dns__print10 dst lim p (unat b) 3;
     print_escaped dst lim (p + n) bs }"

definition print_quoted :: "bytes \<Rightarrow> nat \<Rightarrow> bytes \<Rightarrow> nat \<Rightarrow> (bytes \<times> nat) option" where
  "print_quoted dst lim data len = do {
     xs \<leftarrow> rd_mem data 0 len;
     (dst, p) \<leftarrow> dns__printchar dst lim 0 34;
     (dst, p) \<leftarrow> print_escaped dst lim p xs;
     (dst, n) \<leftarrow> dns__printchar dst lim p 34;
     let p = p + n;
     dst \<leftarrow> dns__printnul dst lim p;
     Some (dst, p) }"

definition dns_opt_print :: "bytes \<Rightarrow> nat \<Rightarrow> dns_opt \<Rightarrow> (bytes \<times> nat) option" where
  "dns_opt_print dst lim opt = print_quoted dst lim (opt_data opt) (opt_len opt)"

subsection \<open>SSHFP\<close>

definition dns_sshfp_parse :: "dns_rr \<Rightarrow> dns_packet \<Rightarrow> (dns_error + dns_sshfp) option" where
  "dns_sshfp_parse rr P =
     (let p = rr_rd_p rr; pe = rr_rd_p rr + rr_rd_len rr in
      if pe - p < 2 then Some (Inl DNS_EILLEGAL)
      else do {
        algo \<leftarrow> rd (p_data P) p;
        type \<leftarrow> rd (p_data P) (p + 1);
        let p = p + 2;
        if unat type = DNS_SSHFP_SHA1 then
          (if pe - p < 20 then Some (Inl DNS_EILLEGAL)
           else do {
             sha1 \<leftarrow> rd_mem (p_data P) p 20;
             Some (Inr \<lparr>fp_algo = unat algo, fp_type = unat type, fp_sha1 = sha1\<rparr>) })
        else Some (Inr \<lparr>fp_algo = unat algo, fp_type = unat type, fp_sha1 = replicate 20 0\<rparr>) })"

definition dns_sshfp_push :: "dns_packet \<Rightarrow> dns_sshfp \<Rightarrow> (dns_packet \<times> dns_error option) option" where
  "dns_sshfp_push P fp =
     (let p = p_end P; pe = p_size P in
      if uint32 (sz_sub pe p) < 4 then Some (P, Some DNS_ENOBUFS)
      else do {
        d \<leftarrow> wr (p_data P) (p + 2) (byte_of (fp_algo fp));
        d \<leftarrow> wr d (p + 3) (byte_of (fp_type fp));
        let p = p + 4;
        if fp_type fp = DNS_SSHFP_SHA1 then
          (if uint32 (sz_sub pe p) < 20 then Some (P\<lparr>p_data := d\<rparr>, Some DNS_ENOBUFS)
           else do {
             xs \<leftarrow> rd_mem (fp_sha1 fp) 0 20;
             d \<leftarrow> wr_mem d p xs;
             let p = p + 20;
             let n = p - p_end P - 2;
             P \<leftarrow> p_put16 (P\<lparr>p_data := d\<rparr>) n;
             Some (P\<lparr>p_end := p\<rparr>, None) })
        else Some (P\<lparr>p_data := d\<rparr>, Some DNS_EILLEGAL) })"

definition dns_sshfp_cmp :: "dns_sshfp \<Rightarrow> dns_sshfp \<Rightarrow> int option" where
  "dns_sshfp_cmp a b =
     (let cmp = int (fp_algo a) - int (fp_algo b) in
      if cmp \<noteq> 0 then Some cmp
      else (let cmp = int (fp_type a) - int (fp_type b) in
      if cmp \<noteq> 0 then Some cmp
      else if fp_type a = DNS_SSHFP_SHA1 then c_memcmp (fp_sha1 a) (fp_sha1 b) 20
      else Some 0))"

fun print_hex :: "bytes \<Rightarrow> nat \<Rightarrow> nat \<Rightarrow> bytes \<Rightarrow> (bytes \<times> nat) option" where
  "print_hex dst lim p [] = Some (dst, p)"
| "print_hex dst lim p (b # bs) = do {
     (dst, n) \<leftarrow> dns__printchar dst lim p (hex_digits ! (15 AND drop_bit 4 (unat b)));
     let p = p + n;
     (dst, n) \<leftarrow> dns__printchar dst lim p (hex_digits ! (15 AND unat b));
     print_hex dst lim (p + n) bs }"

definition dns_sshfp_print :: "bytes \<Rightarrow> nat \<Rightarrow> dns_sshfp \<Rightarrow> (bytes \<times> nat) option" where
  "dns_sshfp_print dst lim fp = do {
     (dst, p) \<leftarrow> dns__print10 dst lim 0 (fp_algo fp) 0;
     (dst, n) \<leftarrow> dns__printchar dst lim p 32;
     let p = p + n;
     (dst, n) \<leftarrow> dns__print10 dst lim p (fp_type fp) 0;
     let p = p + n;
     (dst, n) \<leftarrow> dns__printchar dst lim p 32;
     let p = p + n;
     (dst, p) \<leftarrow>
       (if fp_type fp = DNS_SSHFP_SHA1
        then do { xs \<leftarrow> rd_mem (fp_sha1 fp) 0 20; print_hex dst lim p xs }
        else do { (dst, n) \<leftarrow> dns__printchar dst lim p 48; Some (dst, p + n) });
     dst \<leftarrow> dns__printnul dst lim p;
     Some (dst, p) }"

subsection \<open>TXT and raw data\<close>

text \<open>\<open>data\<close> is at offset 16 of \<open>struct dns_txt\<close>.\<close>

definition dns_txt_init :: "bytes \<Rightarrow> nat \<Rightarrow> dns_txt option" where
  "dns_txt_init data n =
     (if n > 16 then Some \<lparr>txt_size = n - 16, txt_len = 0, txt_data = data\<rparr> else None)"

text \<open>The loop's variables are \<open>src.p\<close>, \<open>dst.p\<close> and \<open>txt->data\<close>.\<close>

definition dns_txt_parse_step ::
    "nat \<Rightarrow> nat \<Rightarrow> dns_packet \<Rightarrow> nat \<times> nat \<times> bytes \<Rightarrow>
     (nat \<times> nat \<times> bytes + dns_error + nat \<times> bytes) option" where
  "dns_txt_parse_step src_end dst_end P = (\<lambda>(sp, dp, data).
     if sp < src_end then do {
       b \<leftarrow> rd (p_data P) sp;
       let sp = sp + 1;
       let n = unat b;
       if src_end - sp < n \<or> sz_sub dst_end dp < n then Some (Inr (Inl DNS_EILLEGAL))
       else do {
         xs \<leftarrow> rd_mem (p_data P) sp n;
         data \<leftarrow> wr_mem data dp xs;
         Some (Inl (sp + n, dp + n, data)) } }
     else Some (Inr (Inr (dp, data))))"

definition dns_txt_parse :: "dns_txt \<Rightarrow> dns_rr \<Rightarrow> dns_packet \<Rightarrow> (dns_error + dns_txt) option" where
  "dns_txt_parse txt rr P =
     ebind (c_while (dns_txt_parse_step (rr_rd_p rr + rr_rd_len rr) (txt_size txt) P)
              (rr_rd_p rr, 0, txt_data txt))
       (\<lambda>(dp, data). Some (Inr (txt\<lparr>txt_len := dp, txt_data := data\<rparr>)))"

text \<open>The loop's variables are \<open>dst.p\<close>, \<open>src.p\<close> and \<open>P->data\<close>.\<close>

definition dns_txt_push_step ::
    "dns_txt \<Rightarrow> nat \<Rightarrow> nat \<times> nat \<times> bytes \<Rightarrow>
     (nat \<times> nat \<times> bytes + bytes \<times> (dns_error + nat)) option" where
  "dns_txt_push_step txt dst_end = (\<lambda>(dp, sp, d).
     if sp < txt_len txt then do {
       let n = min 255 (txt_len txt - sp);
       if dp \<ge> dst_end then Some (Inr (d, Inl DNS_ENOBUFS))
       else do {
         d \<leftarrow> wr d dp (of_nat n);
         let dp = dp + 1;
         if sz_sub dst_end dp < n then Some (Inr (d, Inl DNS_ENOBUFS))
         else do {
           xs \<leftarrow> rd_mem (txt_data txt) sp n;
           d \<leftarrow> wr_mem d dp xs;
           Some (Inl (dp + n, sp + n, d)) } } }
     else Some (Inr (d, Inr dp)))"

definition dns_txt_push :: "dns_packet \<Rightarrow> dns_txt \<Rightarrow> (dns_packet \<times> dns_error option) option" where
  "dns_txt_push P txt =
     (if p_room P < 2 then Some (P, Some DNS_ENOBUFS)
      else do {
        let n = txt_len txt + (txt_len txt + 254) div 255;
        d \<leftarrow> wr16 (p_data P) (p_end P) n;
        (d, r) \<leftarrow> c_while (dns_txt_push_step txt (p_size P)) (p_end P + 2, 0, d);
        let P = P\<lparr>p_data := d\<rparr>;
        (case r of
           Inl e \<Rightarrow> Some (P, Some e)
         | Inr dp \<Rightarrow> Some (P\<lparr>p_end := dp\<rparr>, None)) })"

definition dns_txt_cmp :: "dns_txt \<Rightarrow> dns_txt \<Rightarrow> int" where
  "dns_txt_cmp a b = -1"

fun dns_txt_print_loop :: "bytes \<Rightarrow> nat \<Rightarrow> nat \<Rightarrow> bytes \<Rightarrow> nat \<Rightarrow> (bytes \<times> nat) option" where
  "dns_txt_print_loop dst lim dp [] sp = Some (dst, dp)"
| "dns_txt_print_loop dst lim dp (ch # cs) sp = do {
     (dst, dp) \<leftarrow>
       (if sp mod 255 = 0 \<and> sp + 1 \<noteq> 1 then do {
          (dst, n) \<leftarrow> dns__printchar dst lim dp 34;
          let dp = dp + n;
          (dst, n) \<leftarrow> dns__printchar dst lim dp 32;
          let dp = dp + n;
          (dst, n) \<leftarrow> dns__printchar dst lim dp 34;
          Some (dst, dp + n) }
        else Some (dst, dp));
     (dst, dp) \<leftarrow>
       (if ch < 32 \<or> ch > 126 \<or> ch = 34 \<or> ch = 92 then do {
          (dst, n) \<leftarrow> dns__printchar dst lim dp 92;
          let dp = dp + n;
          (dst, n) \<leftarrow> dns__print10 dst lim dp (unat ch) 3;
          Some (dst, dp + n) }
        else do {
          (dst, n) \<leftarrow> dns__printchar dst lim dp ch;
          Some (dst, dp + n) });
     dns_txt_print_loop dst lim dp cs (sp + 1) }"

definition dns_txt_print :: "bytes \<Rightarrow> nat \<Rightarrow> dns_txt \<Rightarrow> (bytes \<times> nat) option" where
  "dns_txt_print dst lim txt = do {
     xs \<leftarrow> rd_mem (txt_data txt) 0 (txt_len txt);
     (dst, dp) \<leftarrow> dns__printchar dst lim 0 34;
     (dst, dp) \<leftarrow> dns_txt_print_loop dst lim dp xs 0;
     (dst, n) \<leftarrow> dns__printchar dst lim dp 34;
     let dp = dp + n;
     dst \<leftarrow> dns__printnul dst lim dp;
     Some (dst, dp) }"

subsection \<open>The table of record types\<close>

text \<open>The rows of \<open>dns_rrtypes\<close>, as the constructor of the member each type uses.\<close>

datatype rr_kind = K_a | K_aaaa | K_mx | K_ns | K_soa | K_srv | K_opt | K_txt | K_sshfp

definition dns_rrtypes :: "(nat \<times> string \<times> rr_kind) list" where
  "dns_rrtypes =
     [(DNS_T_A, ''A'', K_a), (DNS_T_AAAA, ''AAAA'', K_aaaa), (DNS_T_MX, ''MX'', K_mx),
      (DNS_T_NS, ''NS'', K_ns), (DNS_T_CNAME, ''CNAME'', K_ns), (DNS_T_SOA, ''SOA'', K_soa),
      (DNS_T_SRV, ''SRV'', K_srv), (DNS_T_OPT, ''OPT'', K_opt), (DNS_T_PTR, ''PTR'', K_ns),
      (DNS_T_TXT, ''TXT'', K_txt), (DNS_T_SPF, ''SPF'', K_txt), (DNS_T_SSHFP, ''SSHFP'', K_sshfp)]"

definition rr_kind_of :: "nat \<Rightarrow> rr_kind option" where
  "rr_kind_of type = map_option (\<lambda>(t, s, k). k) (List.find (\<lambda>(t, s, k). t = type) dns_rrtypes)"

text \<open>\<open>dns_any_init\<close> on a whole \<open>union dns_any\<close>, which is as large as its \<open>rdata\<close>.\<close>

definition dns_any_init :: dns_any where
  "dns_any_init =
     Any_rdata \<lparr>txt_size = DNS_TXT_MINDATA, txt_len = 0, txt_data = replicate DNS_TXT_MINDATA 0\<rparr>"

definition any_map :: "('a \<Rightarrow> dns_any) \<Rightarrow> (dns_error + 'a) option \<Rightarrow> (dns_error + dns_any) option" where
  "any_map f m = ebind m (\<lambda>x. Some (Inr (f x)))"

text \<open>\<open>dns_opt_parse\<close> keeps what the union holds: the fields of \<open>opt\<close> lie over \<open>rdata\<close>, \<open>rcode\<close>,
  \<open>version\<close> and \<open>maxsize\<close> over the first four bytes of its \<open>data\<close>.\<close>

definition dns_opt_of_any :: "dns_any \<Rightarrow> dns_opt option" where
  "dns_opt_of_any any = (case any of
     Any_opt opt \<Rightarrow> Some opt
   | Any_rdata txt \<Rightarrow> do {
       b0 \<leftarrow> rd (txt_data txt) 0; b1 \<leftarrow> rd (txt_data txt) 1;
       b2 \<leftarrow> rd (txt_data txt) 2; b3 \<leftarrow> rd (txt_data txt) 3;
       Some \<lparr>opt_size = txt_size txt, opt_len = txt_len txt, opt_rcode = unat b0,
             opt_version = unat b1, opt_maxsize = be16 b3 b2,
             opt_data = take DNS_OPT_MINDATA (drop 4 (txt_data txt))\<rparr> }
   | _ \<Rightarrow> None)"

definition dns_any_parse :: "dns_any \<Rightarrow> dns_rr \<Rightarrow> dns_packet \<Rightarrow> (dns_error + dns_any) option" where
  "dns_any_parse any rr P =
     (case rr_kind_of (rr_type rr) of
        Some K_a \<Rightarrow> any_map Any_a (dns_a_parse rr P)
      | Some K_aaaa \<Rightarrow> any_map Any_aaaa (dns_aaaa_parse rr P)
      | Some K_mx \<Rightarrow> any_map Any_mx (dns_mx_parse rr P)
      | Some K_ns \<Rightarrow> any_map Any_ns (dns_ns_parse rr P)
      | Some K_soa \<Rightarrow> any_map Any_soa (dns_soa_parse rr P)
      | Some K_srv \<Rightarrow> any_map Any_srv (dns_srv_parse rr P)
      | Some K_opt \<Rightarrow> do { opt \<leftarrow> dns_opt_of_any any; any_map Any_opt (dns_opt_parse opt rr P) }
      | Some K_txt \<Rightarrow> (case any of
           Any_rdata txt \<Rightarrow> any_map Any_rdata (dns_txt_parse txt rr P)
         | _ \<Rightarrow> None)
      | Some K_sshfp \<Rightarrow> any_map Any_sshfp (dns_sshfp_parse rr P)
      | None \<Rightarrow> (case any of
           Any_rdata txt \<Rightarrow>
             (if rr_rd_len rr > txt_size txt then Some (Inl DNS_EILLEGAL)
              else do {
                xs \<leftarrow> rd_mem (p_data P) (rr_rd_p rr) (rr_rd_len rr);
                data \<leftarrow> wr_mem (txt_data txt) 0 xs;
                Some (Inr (Any_rdata (txt\<lparr>txt_data := data, txt_len := rr_rd_len rr\<rparr>))) })
         | _ \<Rightarrow> None))"

definition dns_any_push ::
    "dns_packet \<Rightarrow> dns_any \<Rightarrow> nat \<Rightarrow> (dns_packet \<times> dns_error option) option" where
  "dns_any_push P any type =
     (case (rr_kind_of type, any) of
        (Some K_a, Any_a a) \<Rightarrow> dns_a_push P a
      | (Some K_aaaa, Any_aaaa a) \<Rightarrow> dns_aaaa_push P a
      | (Some K_mx, Any_mx mx) \<Rightarrow> dns_mx_push P mx
      | (Some K_ns, Any_ns ns) \<Rightarrow> dns_ns_push P ns
      | (Some K_soa, Any_soa soa) \<Rightarrow> dns_soa_push P soa
      | (Some K_srv, Any_srv srv) \<Rightarrow> dns_srv_push P srv
      | (Some K_opt, Any_opt opt) \<Rightarrow> dns_opt_push P opt
      | (Some K_txt, Any_rdata txt) \<Rightarrow> dns_txt_push P txt
      | (Some K_sshfp, Any_sshfp fp) \<Rightarrow> dns_sshfp_push P fp
      | (None, Any_rdata txt) \<Rightarrow>
          (if p_room P < txt_len txt + 2 then Some (P, Some DNS_ENOBUFS)
           else do {
             P \<leftarrow> p_put16 P (txt_len txt);
             xs \<leftarrow> rd_mem (txt_data txt) 0 (txt_len txt);
             d \<leftarrow> wr_mem (p_data P) (p_end P) xs;
             Some (P\<lparr>p_data := d, p_end := p_end P + txt_len txt\<rparr>, None) })
      | _ \<Rightarrow> None)"

definition dns_any_cmp :: "dns_any \<Rightarrow> nat \<Rightarrow> dns_any \<Rightarrow> nat \<Rightarrow> int option" where
  "dns_any_cmp a x b y =
     (if x \<noteq> y then Some (int x - int y)
      else (case (rr_kind_of x, a, b) of
        (Some K_a, Any_a a, Any_a b) \<Rightarrow> Some (dns_a_cmp a b)
      | (Some K_aaaa, Any_aaaa a, Any_aaaa b) \<Rightarrow> dns_aaaa_cmp a b
      | (Some K_mx, Any_mx a, Any_mx b) \<Rightarrow> dns_mx_cmp a b
      | (Some K_ns, Any_ns a, Any_ns b) \<Rightarrow> dns_ns_cmp a b
      | (Some K_soa, Any_soa a, Any_soa b) \<Rightarrow> dns_soa_cmp a b
      | (Some K_srv, Any_srv a, Any_srv b) \<Rightarrow> dns_srv_cmp a b
      | (Some K_opt, Any_opt a, Any_opt b) \<Rightarrow> Some (dns_opt_cmp a b)
      | (Some K_txt, Any_rdata a, Any_rdata b) \<Rightarrow> Some (dns_txt_cmp a b)
      | (Some K_sshfp, Any_sshfp a, Any_sshfp b) \<Rightarrow> dns_sshfp_cmp a b
      | (None, _, _) \<Rightarrow> Some (-1)
      | _ \<Rightarrow> None))"

definition dns_any_print ::
    "(dns_a \<Rightarrow> bytes) \<Rightarrow> (dns_aaaa \<Rightarrow> bytes) \<Rightarrow> bytes \<Rightarrow> nat \<Rightarrow> dns_any \<Rightarrow> nat \<Rightarrow>
     (bytes \<times> nat) option" where
  "dns_any_print ntop4 ntop6 dst lim any type =
     (case (rr_kind_of type, any) of
        (Some K_a, Any_a a) \<Rightarrow> dns_a_print ntop4 dst lim a
      | (Some K_aaaa, Any_aaaa a) \<Rightarrow> dns_aaaa_print ntop6 dst lim a
      | (Some K_mx, Any_mx mx) \<Rightarrow> dns_mx_print dst lim mx
      | (Some K_ns, Any_ns ns) \<Rightarrow> dns_ns_print dst lim ns
      | (Some K_soa, Any_soa soa) \<Rightarrow> dns_soa_print dst lim soa
      | (Some K_srv, Any_srv srv) \<Rightarrow> dns_srv_print dst lim srv
      | (Some K_opt, Any_opt opt) \<Rightarrow> dns_opt_print dst lim opt
      | (Some K_txt, Any_rdata txt) \<Rightarrow> dns_txt_print dst lim txt
      | (Some K_sshfp, Any_sshfp fp) \<Rightarrow> dns_sshfp_print dst lim fp
      | (None, Any_rdata txt) \<Rightarrow> print_quoted dst lim (txt_data txt) (txt_len txt)
      | _ \<Rightarrow> None)"

definition dns_any_cname :: "bytes \<Rightarrow> nat \<Rightarrow> dns_any \<Rightarrow> nat \<Rightarrow> (bytes \<times> nat) option" where
  "dns_any_cname dst lim any type =
     (case (rr_kind_of type, any) of
        (Some K_mx, Any_mx mx) \<Rightarrow> dns_mx_cname dst lim mx
      | (Some K_ns, Any_ns ns) \<Rightarrow> dns_ns_cname dst lim ns
      | (Some K_srv, Any_srv srv) \<Rightarrow> dns_srv_cname dst lim srv
      | (Some K_mx, _) \<Rightarrow> None
      | (Some K_ns, _) \<Rightarrow> None
      | (Some K_srv, _) \<Rightarrow> None
      | _ \<Rightarrow> Some (dst, 0))"

end
