(* ===== verification/Push.thy ===== *)
theory Push
  imports RData
begin

section \<open>Building packets\<close>

text \<open>
  \<open>dns_p_push\<close> appends a record to a packet under construction, \<open>dns_rr_copy\<close> carries one
  over from another packet. Both return the packet with an error code, \<open>None\<close> for \<open>0\<close>; on an
  error \<open>P->end\<close> is back where it was.
\<close>

text \<open>The \<open>switch (section)\<close> after the record is written: the order of sections, the header
  count, and the memoised bounds.\<close>

definition dns_p_push_update :: "dns_packet \<Rightarrow> nat \<Rightarrow> (dns_packet \<times> dns_error option) option" where
  "dns_p_push_update P section =
     (if section = DNS_S_QD then
        (if dns_p_count P (DNS_S_AN OR DNS_S_NS OR DNS_S_AR) \<noteq> 0 then Some (P, Some DNS_EORDER)
         else do {
           P \<leftarrow> (if m_base (p_qd P) = 0 then dns_p_study P else Some P);
           let P = hd16_set P 4 (hd_qdcount P + 1);
           let e = u16 (p_end P);
           Some (P\<lparr>p_qd := (p_qd P)\<lparr>m_end := e\<rparr>, p_an := \<lparr>m_base = e, m_end = e\<rparr>,
                   p_ns := \<lparr>m_base = e, m_end = e\<rparr>, p_ar := \<lparr>m_base = e, m_end = e\<rparr>\<rparr>, None) })
      else if section = DNS_S_AN then
        (if dns_p_count P (DNS_S_NS OR DNS_S_AR) \<noteq> 0 then Some (P, Some DNS_EORDER)
         else do {
           P \<leftarrow> (if m_base (p_an P) = 0 then dns_p_study P else Some P);
           let P = hd16_set P 6 (hd_ancount P + 1);
           let e = u16 (p_end P);
           Some (P\<lparr>p_an := (p_an P)\<lparr>m_end := e\<rparr>,
                   p_ns := \<lparr>m_base = e, m_end = e\<rparr>, p_ar := \<lparr>m_base = e, m_end = e\<rparr>\<rparr>, None) })
      else if section = DNS_S_NS then
        (if dns_p_count P DNS_S_AR \<noteq> 0 then Some (P, Some DNS_EORDER)
         else do {
           P \<leftarrow> (if m_base (p_ns P) = 0 then dns_p_study P else Some P);
           let P = hd16_set P 8 (hd_nscount P + 1);
           let e = u16 (p_end P);
           Some (P\<lparr>p_ns := (p_ns P)\<lparr>m_end := e\<rparr>, p_ar := \<lparr>m_base = e, m_end = e\<rparr>\<rparr>, None) })
      else if section = DNS_S_AR then do {
        P \<leftarrow> (if m_base (p_ar P) = 0 then dns_p_study P else Some P);
        let P = hd16_set P 10 (hd_arcount P + 1);
        let e = u16 (p_end P);
        Some (P\<lparr>p_ar := (p_ar P)\<lparr>m_end := e\<rparr>\<rparr>, None) }
      else Some (P, Some DNS_ESECTION))"

definition p_put_ttl :: "dns_packet \<Rightarrow> nat \<Rightarrow> dns_packet option" where
  "p_put_ttl P ttl = do {
     P \<leftarrow> p_put P (of_nat (127 AND drop_bit 24 ttl));
     P \<leftarrow> p_put P (byte_of (drop_bit 16 ttl));
     P \<leftarrow> p_put P (byte_of (drop_bit 8 ttl));
     p_put P (byte_of ttl) }"

text \<open>Everything before the label \<open>update\<close>.\<close>

definition dns_p_push_record ::
    "dns_packet \<Rightarrow> nat \<Rightarrow> bytes \<Rightarrow> nat \<Rightarrow> nat \<Rightarrow> nat \<Rightarrow> nat \<Rightarrow> dns_any \<Rightarrow>
     (dns_packet \<times> dns_error option) option" where
  "dns_p_push_record P section dn dnlen type klass ttl any = do {
     (P, r) \<leftarrow> dns_d_push P dn dnlen;
     (case r of
        Some e \<Rightarrow> Some (P, Some e)
      | None \<Rightarrow>
         (if p_room P < 4 then Some (P, Some DNS_ENOBUFS)
          else do {
            P \<leftarrow> p_put16 P type;
            P \<leftarrow> p_put16 P klass;
            if section = DNS_S_QD then Some (P, None)
            else if p_room P < 6 then Some (P, Some DNS_ENOBUFS)
            else do {
              P \<leftarrow> p_put_ttl P ttl;
              dns_any_push P any type } })) }"

definition dns_p_push ::
    "dns_packet \<Rightarrow> nat \<Rightarrow> bytes \<Rightarrow> nat \<Rightarrow> nat \<Rightarrow> nat \<Rightarrow> nat \<Rightarrow> dns_any \<Rightarrow>
     (dns_packet \<times> dns_error option) option" where
  "dns_p_push P section dn dnlen type klass ttl any = do {
     let e = p_end P;
     (P, r) \<leftarrow> dns_p_push_record P section dn dnlen type klass ttl any;
     (case r of
        Some error \<Rightarrow> p_fail P e error
      | None \<Rightarrow> do {
          (P, r) \<leftarrow> dns_p_push_update P section;
          (case r of
             Some error \<Rightarrow> p_fail P e error
           | None \<Rightarrow> Some (P, None)) }) }"

definition dns_rr_copy ::
    "dns_packet \<Rightarrow> dns_rr \<Rightarrow> dns_packet \<Rightarrow> (dns_packet \<times> dns_error option) option" where
  "dns_rr_copy P rr Q = do {
     (dn, r) \<leftarrow> dns_d_expand (replicate (DNS_D_MAXNAME + 1) 0) (DNS_D_MAXNAME + 1) (rr_dn_p rr) Q;
     (case r of
        Inl e \<Rightarrow> Some (P, Some e)
      | Inr len \<Rightarrow>
         (if len \<ge> DNS_D_MAXNAME + 1 then Some (P, Some DNS_EILLEGAL)
          else do {
            any \<leftarrow> (if rr_section rr \<noteq> DNS_S_QD then dns_any_parse dns_any_init rr Q
                   else Some (Inr dns_any_init));
            (case any of
               Inl e \<Rightarrow> Some (P, Some e)
             | Inr any \<Rightarrow>
                 dns_p_push P (rr_section rr) dn len (rr_type rr) (rr_klass rr) (rr_ttl rr) any) })) }"

end
