(* ===== verification/Codec.thy ===== *)
theory Codec
  imports Push
begin

unbundle bit_operations_syntax

section \<open>Records out and in\<close>

text \<open>
  What is pushed is what is parsed. An interface \<open>rdata_codec\<close> states what a builder and a
  parser of record data owe each other; the record types without names inside meet it, and so
  does the dispatch of \<open>dns_any_push\<close> and \<open>dns_any_parse\<close> over them. On top of it, a record
  pushed into a packet is read back by \<open>dns_rr_parse\<close> with all its fields.
\<close>

subsection \<open>Bytes at a place\<close>

definition has_bytes :: "bytes \<Rightarrow> nat \<Rightarrow> bytes \<Rightarrow> bool" where
  "has_bytes data i xs \<longleftrightarrow> i + length xs \<le> length data \<and> take (length xs) (drop i data) = xs"

lemma has_bytes_Nil [simp]: "has_bytes data i [] \<longleftrightarrow> i \<le> length data"
  by (simp add: has_bytes_def)

lemma has_bytes_Cons [simp]:
  "has_bytes data i (x # xs) \<longleftrightarrow> i < length data \<and> data ! i = x \<and> has_bytes data (Suc i) xs"
proof (cases "i < length data")
  case True
  then have "drop i data = data ! i # drop (Suc i) data" by (simp add: Cons_nth_drop_Suc)
  then show ?thesis using True by (auto simp: has_bytes_def)
qed (auto simp: has_bytes_def)

lemma has_bytes_append [simp]:
  "has_bytes data i (xs @ ys) \<longleftrightarrow> has_bytes data i xs \<and> has_bytes data (i + length xs) ys"
  by (induction xs arbitrary: i) (auto simp: has_bytes_def [of data _ ys])

lemma has_bytes_rd_mem: "has_bytes data i xs \<Longrightarrow> n = length xs \<Longrightarrow> rd_mem data i n = Some xs"
  by (simp add: has_bytes_def)

lemma has_bytes_wire: "wire_at data i ls \<Longrightarrow> has_bytes data i (name_wire ls)"
  by (auto simp: wire_at_def has_bytes_def intro!: nth_equalityI)

lemma has_bytes_wire_at: "has_bytes data i (name_wire ls) \<Longrightarrow> wire_at data i ls"
  unfolding wire_at_def has_bytes_def by (metis nth_drop nth_take add_leD1)

text \<open>The packet after the bytes \<open>xs\<close> have been appended.\<close>

definition p_app :: "dns_packet \<Rightarrow> bytes \<Rightarrow> dns_packet" where
  "p_app P xs = P\<lparr>p_data := take (p_end P) (p_data P) @ xs @ drop (p_end P + length xs) (p_data P),
                  p_end := p_end P + length xs\<rparr>"

lemma p_app_simps [simp]:
  "p_end (p_app P xs) = p_end P + length xs" "p_size (p_app P xs) = p_size P"
  "p_dict (p_app P xs) = p_dict P" "p_qd (p_app P xs) = p_qd P" "p_an (p_app P xs) = p_an P"
  "p_ns (p_app P xs) = p_ns P" "p_ar (p_app P xs) = p_ar P"
  by (simp_all add: p_app_def)

lemma p_app_data:
  assumes "p_end P + length xs \<le> length (p_data P)"
  shows "length (p_data (p_app P xs)) = length (p_data P)"
    "take (p_end P) (p_data (p_app P xs)) = take (p_end P) (p_data P)"
    "has_bytes (p_data (p_app P xs)) (p_end P) xs"
  using assms by (auto simp: p_app_def has_bytes_def)

lemma p_app_wf: "wf_packet P \<Longrightarrow> p_end P + length xs \<le> p_size P \<Longrightarrow> wf_packet (p_app P xs)"
  by (simp add: wf_packet_def p_app_data(1))

lemma p_app_app:
  assumes "p_end P + length xs + length ys \<le> length (p_data P)"
  shows "p_app (p_app P xs) ys = p_app P (xs @ ys)"
  using assms by (auto simp: p_app_def add_ac)

lemma p_app_Nil: "p_end P \<le> length (p_data P) \<Longrightarrow> p_app P [] = P"
  by (cases P) (simp add: p_app_def)

lemma p_put_app:
  assumes "p_end P + length xs < length (p_data P)"
  shows "p_put (p_app P xs) v = Some (p_app P (xs @ [v]))"
proof -
  have "p_put (p_app P xs) v = Some (p_app (p_app P xs) [v])"
    using assms by (simp add: p_put_def p_app_def upd_conv_take_nth_drop min_def)
  then show ?thesis using assms by (simp add: p_app_app)
qed

lemma p_put16_app:
  assumes "p_end P + length xs + 1 < length (p_data P)"
  shows "p_put16 (p_app P xs) n = Some (p_app P (xs @ [byte_of (drop_bit 8 n), byte_of n]))"
  using assms by (simp add: p_put16_def p_put_app)

lemma p_mem_app:
  assumes "p_end P + length xs + length ys \<le> length (p_data P)"
  shows "wr_mem (p_data (p_app P xs)) (p_end P + length xs) ys = Some (p_data (p_app P (xs @ ys)))"
    "(p_app P xs)\<lparr>p_data := p_data (p_app P (xs @ ys)), p_end := p_end P + length xs + length ys\<rparr> =
     p_app P (xs @ ys)"
  using assms by (simp_all add: p_app_def add_ac)

text \<open>Two bytes of length.\<close>

definition len16 :: "nat \<Rightarrow> bytes" where
  "len16 n = [byte_of (drop_bit 8 n), byte_of n]"

lemma len16_length [simp]: "length (len16 n) = 2" by (simp add: len16_def)

lemma rd16_len16: "has_bytes data i (len16 n) \<Longrightarrow> n < 65536 \<Longrightarrow> rd16 data i = Some n"
  by (simp add: len16_def be16_bytes)

lemma len16_small: "n < 256 \<Longrightarrow> len16 n = [0, of_nat n]"
  by (simp add: len16_def byte_of_def drop_bit_eq_div nat_and_255)

subsection \<open>The interface\<close>

text \<open>\<open>ok\<close> says what can be pushed, \<open>wire\<close> is its form on the wire, \<open>val\<close> what a reader sees of
  it.\<close>

locale rdata_codec =
  fixes push :: "dns_packet \<Rightarrow> 'a \<Rightarrow> (dns_packet \<times> dns_error option) option"
    and parse :: "dns_rr \<Rightarrow> dns_packet \<Rightarrow> (dns_error + 'a) option"
    and ok :: "'a \<Rightarrow> bool" and wire :: "'a \<Rightarrow> bytes" and val :: "'a \<Rightarrow> 'v"
  assumes push_fits: "wf_packet P \<Longrightarrow> ok a \<Longrightarrow> p_end P + 2 + length (wire a) \<le> p_size P \<Longrightarrow>
      push P a = Some (p_app P (len16 (length (wire a)) @ wire a), None)"
    and push_full: "wf_packet P \<Longrightarrow> ok a \<Longrightarrow> p_size P < p_end P + 2 + length (wire a) \<Longrightarrow>
      \<exists>P'. push P a = Some (P', Some DNS_ENOBUFS)"
    and parse_wire: "ok a \<Longrightarrow> has_bytes (p_data P) (rr_rd_p rr) (wire a) \<Longrightarrow>
      rr_rd_len rr = length (wire a) \<Longrightarrow> \<exists>a'. parse rr P = Some (Inr a') \<and> val a' = val a"
    and ok_length: "ok a \<Longrightarrow> length (wire a) < 65536"
begin

lemma push_parse:
  assumes "wf_packet P" "ok a" "p_end P + 2 + length (wire a) \<le> p_size P"
    "rr_rd_p rr = p_end P + 2" "rr_rd_len rr = length (wire a)"
  shows "\<exists>P' a'. push P a = Some (P', None) \<and> rd16 (p_data P') (p_end P) = Some (length (wire a)) \<and>
    parse rr P' = Some (Inr a') \<and> val a' = val a"
proof -
  let ?P = "p_app P (len16 (length (wire a)) @ wire a)"
  have "has_bytes (p_data ?P) (p_end P) (len16 (length (wire a)) @ wire a)"
    using assms by (intro p_app_data(3)) (simp add: wf_packet_def)
  then have b: "has_bytes (p_data ?P) (p_end P) (len16 (length (wire a)))"
    "has_bytes (p_data ?P) (p_end P + 2) (wire a)" by simp_all
  show ?thesis
    using push_fits [OF assms(1-3)] rd16_len16 [OF b(1) ok_length [OF assms(2)]]
      parse_wire [OF assms(2) _ assms(5), of ?P] b(2) assms(4) by auto
qed

end

subsection \<open>A and AAAA\<close>

lemma be32_eq: "be32 a b c d = be16 a b * 65536 + be16 c d"
proof -
  have ab: "push_bit 24 (255 AND unat a) OR push_bit 16 (255 AND unat b) = push_bit 16 (be16 a b)"
    by (simp add: be16_def push_bit_or)
  have "be32 a b c d = push_bit 16 (be16 a b) OR be16 c d"
    unfolding be32_def ab by (simp add: be16_def or.assoc)
  also have "\<dots> = be16 a b * 65536 + be16 c d"
    using nat_or_disjoint [of "be16 c d" 16 "be16 a b"] by (simp add: push_bit_eq_mult)
  finally show ?thesis .
qed

lemma be32_bytes:
  "be32 (byte_of (drop_bit 24 n)) (byte_of (drop_bit 16 n)) (byte_of (drop_bit 8 n)) (byte_of n) =
   n mod 4294967296"
proof -
  have "drop_bit 24 n = drop_bit 8 (drop_bit 16 n)" by simp
  then have "be16 (byte_of (drop_bit 24 n)) (byte_of (drop_bit 16 n)) = n div 65536 mod 65536"
    using be16_bytes [of "drop_bit 16 n"] by (simp add: u16_def drop_bit_eq_div)
  moreover have "n mod 4294967296 = 65536 * (n div 65536 mod 65536) + n mod 65536"
    using mod_mult2_eq [of n 65536 65536] by simp
  ultimately show ?thesis by (simp add: be32_eq be16_bytes u16_def)
qed

definition a_wire :: "dns_a \<Rightarrow> bytes" where
  "a_wire a = [byte_of (drop_bit 24 a), byte_of (drop_bit 16 a), byte_of (drop_bit 8 a), byte_of a]"

lemma a_wire_length [simp]: "length (a_wire a) = 4" by (simp add: a_wire_def)

lemma room_wf: "wf_packet P \<Longrightarrow> p_room P = p_size P - p_end P"
  by (simp add: wf_packet_def p_room_def)

interpretation a_codec: rdata_codec dns_a_push dns_a_parse "\<lambda>a. a < 4294967296" a_wire "\<lambda>a. a"
proof
  fix P and a :: dns_a and rr
  show "dns_a_push P a = Some (p_app P (len16 (length (a_wire a)) @ a_wire a), None)"
    if "wf_packet P" "p_end P + 2 + length (a_wire a) \<le> p_size P"
  proof -
    have "p_put P v = Some (p_app P [v])" for v
      using p_put_app [of P "[]" v] that p_app_Nil [of P] by (simp add: wf_packet_def a_wire_def)
    moreover have "\<not> p_room P < 6" "length (a_wire a) = 4" "p_end P + 6 \<le> length (p_data P)"
      using that by (simp_all add: room_wf a_wire_def wf_packet_def)
    ultimately show ?thesis
      by (simp add: dns_a_push_def p_put_app len16_small) (simp add: a_wire_def)
  qed
  show "\<exists>P'. dns_a_push P a = Some (P', Some DNS_ENOBUFS)"
    if "wf_packet P" "p_size P < p_end P + 2 + length (a_wire a)"
  proof -
    have "p_room P < 6" using that by (simp add: room_wf less_diff_conv2 wf_packet_def)
    then show ?thesis by (simp add: dns_a_push_def)
  qed
  show "\<exists>a'. dns_a_parse rr P = Some (Inr a') \<and> a' = a"
    if "a < 4294967296" "has_bytes (p_data P) (rr_rd_p rr) (a_wire a)" "rr_rd_len rr = length (a_wire a)"
    using that be32_bytes [of a] by (auto simp: dns_a_parse_def a_wire_def numeral_3_eq_3)
qed (simp add: a_wire_def)

interpretation aaaa_codec: rdata_codec dns_aaaa_push dns_aaaa_parse "\<lambda>a. length a = 16" "\<lambda>a. a" "\<lambda>a. a"
proof
  fix P and a :: dns_aaaa and rr
  show "dns_aaaa_push P a = Some (p_app P (len16 (length a) @ a), None)"
    if "wf_packet P" "length a = 16" "p_end P + 2 + length a \<le> p_size P"
  proof -
    have "p_put P v = Some (p_app P [v])" for v
      using p_put_app [of P "[]" v] that p_app_Nil [of P] by (simp add: wf_packet_def)
    moreover have "\<not> p_room P < 2 + 16" "p_end P + 18 \<le> length (p_data P)"
      using that by (simp_all add: room_wf wf_packet_def)
    ultimately show ?thesis
      using that(2) p_mem_app [of P "[0, 16]" a]
      by (simp add: dns_aaaa_push_def p_put_app len16_small)
  qed
  show "\<exists>P'. dns_aaaa_push P a = Some (P', Some DNS_ENOBUFS)"
    if "wf_packet P" "length a = 16" "p_size P < p_end P + 2 + length a"
  proof -
    have "p_room P < 2 + 16" using that by (simp add: room_wf less_diff_conv2 wf_packet_def)
    then show ?thesis by (simp add: dns_aaaa_push_def)
  qed
  show "\<exists>a'. dns_aaaa_parse rr P = Some (Inr a') \<and> a' = a"
    if "length a = 16" "has_bytes (p_data P) (rr_rd_p rr) a" "rr_rd_len rr = length a"
    using that has_bytes_rd_mem [OF that(2), of 16] by (simp add: dns_aaaa_parse_def)
qed simp


subsection \<open>SSHFP\<close>

definition fp_ok :: "dns_sshfp \<Rightarrow> bool" where
  "fp_ok fp \<longleftrightarrow> fp_type fp = DNS_SSHFP_SHA1 \<and> fp_algo fp < 256 \<and> length (fp_sha1 fp) = 20"

definition fp_wire :: "dns_sshfp \<Rightarrow> bytes" where
  "fp_wire fp = byte_of (fp_algo fp) # byte_of (fp_type fp) # fp_sha1 fp"

text \<open>The builder fills in the data before the length in front of it.\<close>

lemma fp_bytes:
  assumes "e + 24 \<le> length d" "length xs = 20"
  shows "(take (e + 4) (d[e + 2 := a, e + 3 := b]) @ xs @ drop (24 + e) d)[e := h, e + 1 := l] =
    take e d @ [h, l, a, b] @ xs @ drop (24 + e) d"
proof (rule nth_equalityI)
  fix i assume "i < length ((take (e + 4) (d[e + 2 := a, e + 3 := b]) @ xs @ drop (24 + e) d)[e := h, e + 1 := l])"
  then have i: "i < length d" using assms by simp
  consider "i < e" | "i = e" | "i = e + 1" | "i = e + 2" | "i = e + 3" | "e + 4 \<le> i" "i < e + 24"
    | "e + 24 \<le> i" by linarith
  then show "(take (e + 4) (d[e + 2 := a, e + 3 := b]) @ xs @ drop (24 + e) d)[e := h, e + 1 := l] ! i =
      (take e d @ [h, l, a, b] @ xs @ drop (24 + e) d) ! i"
    using assms i
  proof cases
    case 6
    then obtain j where "i = e + 4 + j" by (metis le_iff_add)
    then show ?thesis using assms 6 by (simp add: nth_append)
  next
    case 7
    then obtain j where "i = e + 24 + j" by (metis le_iff_add)
    then show ?thesis using assms by (simp add: nth_append)
  qed (simp_all add: nth_append)
qed (use assms in simp)

lemma wf_room32:
  assumes "wf_packet P"
  shows "uint32 (p_size P - n) = p_size P - n"
proof -
  have "p_size P - n < 4294967296" using assms by (auto simp: wf_packet_def)
  then show ?thesis by simp
qed

interpretation sshfp_codec: rdata_codec dns_sshfp_push dns_sshfp_parse fp_ok fp_wire "\<lambda>fp. fp"
proof
  fix P fp rr assume ok: "fp_ok fp"
  have len: "length (fp_wire fp) = 22" using ok by (simp add: fp_ok_def fp_wire_def)
  show "length (fp_wire fp) < 65536" by (simp add: len)
  {
    assume wf: "wf_packet P"
    let ?e = "p_end P"
    have sz: "uint32 (sz_sub (p_size P) ?e) = p_size P - ?e" "length (p_data P) = p_size P"
      using wf wf_room32 [OF wf] by (simp_all add: wf_packet_def)
    show "dns_sshfp_push P fp = Some (p_app P (len16 (length (fp_wire fp)) @ fp_wire fp), None)"
      if "?e + 2 + length (fp_wire fp) \<le> p_size P"
    proof -
      have room: "?e + 24 \<le> p_size P" "\<not> p_size P - ?e < 4" "\<not> p_size P - (?e + 4) < 20"
        using that len by simp_all
      let ?d = "(p_data P)[?e + 2 := byte_of (fp_algo fp), ?e + 3 := byte_of (fp_type fp)]"
      have sz4: "uint32 (sz_sub (p_size P) (?e + 4)) = p_size P - (?e + 4)"
        using wf_room32 [OF wf] room by simp
      have nn: "?e + 4 + 20 - ?e - 2 = 22" by simp
      have bs: "take (?e + 4) ?d @ fp_sha1 fp @ drop (24 + ?e) ?d =
          take (?e + 4) ?d @ fp_sha1 fp @ drop (24 + ?e) (p_data P)" by simp
      have p16: "p_put16 (P\<lparr>p_data := take (?e + 4) ?d @ fp_sha1 fp @ drop (24 + ?e) (p_data P)\<rparr>) 22 =
          Some (P\<lparr>p_data := take ?e (p_data P) @ [byte_of (drop_bit 8 22), byte_of 22, byte_of (fp_algo fp),
                   byte_of (fp_type fp)] @ fp_sha1 fp @ drop (24 + ?e) (p_data P), p_end := ?e + 2\<rparr>)"
        using fp_bytes [of ?e "p_data P" "fp_sha1 fp" "byte_of (fp_algo fp)" "byte_of (fp_type fp)"
            "byte_of (drop_bit 8 22)" "byte_of 22"] room sz ok
        by (simp add: p_put16_def p_put_def fp_ok_def)
      have "dns_sshfp_push P fp = Some (P\<lparr>p_data := take ?e (p_data P) @
          [byte_of (drop_bit 8 22), byte_of 22, byte_of (fp_algo fp),
                   byte_of (fp_type fp)] @ fp_sha1 fp @ drop (24 + ?e) (p_data P), p_end := 24 + ?e\<rparr>, None)"
        using room sz sz4 ok p16 unfolding dns_sshfp_push_def Let_def nn
        by (simp add: fp_ok_def del: One_nat_def)
      then show ?thesis
        by (simp add: p_app_def len16_def len) (simp add: fp_wire_def add_ac)
    qed
    show "\<exists>P'. dns_sshfp_push P fp = Some (P', Some DNS_ENOBUFS)"
      if "p_size P < ?e + 2 + length (fp_wire fp)"
    proof (cases "p_size P - ?e < 4")
      case True
      then show ?thesis using sz by (simp add: dns_sshfp_push_def Let_def)
    next
      case False
      then have "p_size P - (?e + 4) < 20" "uint32 (sz_sub (p_size P) (?e + 4)) = p_size P - (?e + 4)"
        using wf_room32 [OF wf] that len by simp_all
      then show ?thesis using False sz ok by (simp add: dns_sshfp_push_def Let_def fp_ok_def)
    qed
  }
  show "\<exists>fp'. dns_sshfp_parse rr P = Some (Inr fp') \<and> fp' = fp"
    if "has_bytes (p_data P) (rr_rd_p rr) (fp_wire fp)" "rr_rd_len rr = length (fp_wire fp)"
  proof -
    have "rd_mem (p_data P) (rr_rd_p rr + 2) 20 = Some (fp_sha1 fp)"
      using that(1) ok by (intro has_bytes_rd_mem) (simp_all add: fp_wire_def fp_ok_def)
    then show ?thesis using that ok len
      by (cases fp) (simp add: dns_sshfp_parse_def fp_wire_def fp_ok_def Let_def unat_byte_of c_defs)
  qed
qed


subsection \<open>TXT\<close>

text \<open>Strings of at most 255 bytes, each behind its length.\<close>

function txt_wire :: "bytes \<Rightarrow> bytes" where
  "txt_wire xs = (if xs = [] then [] else
     (let n = min 255 (length xs) in of_nat n # take n xs @ txt_wire (drop n xs)))"
  by auto
termination by (relation "measure length") auto

declare txt_wire.simps [simp del]

lemma txt_wire_Nil [simp]: "txt_wire [] = []"
  by (simp add: txt_wire.simps)

lemma txt_wire_length: "length (txt_wire xs) = length xs + (length xs + 254) div 255"
proof (induction xs rule: txt_wire.induct)
  case (1 xs)
  show ?case
  proof (cases "xs = []")
    case False
    define n where "n = min 255 (length xs)"
    have n: "0 < n" "n \<le> length xs" using False by (auto simp: n_def)
    have "length (txt_wire xs) = 1 + n + length (txt_wire (drop n xs))"
      using False n by (subst txt_wire.simps) (simp add: Let_def n_def [symmetric])
    also have "\<dots> = length xs + (1 + (length xs - n + 254) div 255)"
      using 1 [OF False n_def] n by simp
    also have "1 + (length xs - n + 254) div 255 = (length xs + 254) div 255"
    proof (cases "length xs \<le> 255")
      case True
      have "(length xs + 254) div 255 = 1" using True False by (intro div_nat_eqI) (auto simp: Suc_le_eq)
      then show ?thesis using True by (simp add: n_def)
    next
      case False
      then have "(length xs + 254) div 255 = Suc ((length xs + 254 - 255) div 255)" by (intro le_div_geq) auto
      then show ?thesis using False by (simp add: n_def)
    qed
    finally show ?thesis by simp
  qed simp
qed

definition txt_content :: "dns_txt \<Rightarrow> bytes" where
  "txt_content txt = take (txt_len txt) (txt_data txt)"

text \<open>The builder's loop, with \<open>xs\<close> left to write at \<open>dp\<close>.\<close>

lemma txt_push_loop:
  assumes "txt_len txt \<le> length (txt_data txt)"
  shows "xs = drop sp (txt_content txt) \<Longrightarrow> sp \<le> txt_len txt \<Longrightarrow> dp \<le> dst_end \<Longrightarrow> dst_end \<le> length d \<Longrightarrow>
    (if dp + length (txt_wire xs) \<le> dst_end
     then c_while (dns_txt_push_step txt dst_end) (dp, sp, d) =
       Some (take dp d @ txt_wire xs @ drop (dp + length (txt_wire xs)) d, Inr (dp + length (txt_wire xs)))
     else \<exists>d'. c_while (dns_txt_push_step txt dst_end) (dp, sp, d) = Some (d', Inl DNS_ENOBUFS))"
proof (induction xs arbitrary: sp dp d rule: txt_wire.induct)
  case (1 xs)
  have len: "length xs = txt_len txt - sp" using 1(2) assms by (simp add: txt_content_def)
  show ?case
  proof (cases "xs = []")
    case True
    then have "sp = txt_len txt" using len 1(3) by simp
    then show ?thesis using True 1(4,5) by (simp add: dns_txt_push_step_def c_while_stop)
  next
    case False
    define n where "n = min 255 (length xs)"
    have n: "0 < n" "n \<le> length xs" "n \<le> 255" using False by (auto simp: n_def)
    let ?ys = "txt_wire (drop n xs)"
    have w: "txt_wire xs = of_nat n # take n xs @ ?ys"
      using False by (subst txt_wire.simps) (simp add: Let_def n_def [symmetric])
    have sp: "sp < txt_len txt" "min 255 (txt_len txt - sp) = n" "sp + n \<le> txt_len txt"
      using len n False by (auto simp: n_def)
    have xs: "rd_mem (txt_data txt) sp n = Some (take n xs)"
      using 1(2) sp assms n len by (simp add: txt_content_def rd_mem_def drop_take min_def)
    show ?thesis
    proof (cases "dp + 1 + n \<le> dst_end")
      case True
      define d1 where "d1 = take dp d @ (of_nat n # take n xs) @ drop (dp + 1 + n) d"
      have "wr_mem (d[dp := of_nat n]) (dp + 1) (take n xs) = Some d1"
        using True 1(5) n by (simp add: d1_def take_Suc_update)
      then have step: "dns_txt_push_step txt dst_end (dp, sp, d) = Some (Inl (dp + 1 + n, sp + n, d1))"
        using sp xs True 1(5) by (simp add: dns_txt_push_step_def Let_def)
      have nx: "drop n xs = drop (sp + n) (txt_content txt)" using 1(2) by (simp add: add.commute)
      have len1: "length d1 = length d" using True 1(5) n by (simp add: d1_def)
      then have "dst_end \<le> length d1" using 1(5) by simp
      then have ih: "if dp + 1 + n + length ?ys \<le> dst_end
         then c_while (dns_txt_push_step txt dst_end) (dp + 1 + n, sp + n, d1) =
           Some (take (dp + 1 + n) d1 @ ?ys @ drop (dp + 1 + n + length ?ys) d1, Inr (dp + 1 + n + length ?ys))
         else \<exists>d'. c_while (dns_txt_push_step txt dst_end) (dp + 1 + n, sp + n, d1) = Some (d', Inl DNS_ENOBUFS)"
        by (rule 1(1) [OF False n_def nx sp(3) True])
      have e: "take (dp + 1 + n) d1 = take dp d @ of_nat n # take n xs"
        "drop (dp + 1 + n + length ?ys) d1 = drop (dp + 1 + n + length ?ys) d"
        using True 1(5) n by (simp_all add: d1_def add_ac)
      have l: "dp + length (txt_wire xs) = dp + 1 + n + length ?ys" using w n by simp
      show ?thesis
        using ih unfolding c_while_next [of "dns_txt_push_step txt dst_end", OF step] l e
        by (simp only: w append_assoc append_Cons)
    next
      case False
      then have "dst_end < dp + length (txt_wire xs)" using w n by simp
      moreover have "\<exists>d'. dns_txt_push_step txt dst_end (dp, sp, d) = Some (Inr (d', Inl DNS_ENOBUFS))"
        using sp False 1(4,5) by (auto simp: dns_txt_push_step_def Let_def)
      then have "\<exists>d'. c_while (dns_txt_push_step txt dst_end) (dp, sp, d) = Some (d', Inl DNS_ENOBUFS)"
        by (auto simp: c_while_stop)
      ultimately show ?thesis by simp
    qed
  qed
qed

text \<open>The parser's loop over the same bytes.\<close>

lemma txt_parse_loop:
  "has_bytes (p_data P) sp (txt_wire xs) \<Longrightarrow> dp + length xs \<le> dst_end \<Longrightarrow> dst_end \<le> length data \<Longrightarrow>
   src_end = sp + length (txt_wire xs) \<Longrightarrow>
   c_while (dns_txt_parse_step src_end dst_end P) (sp, dp, data) =
     Some (Inr (dp + length xs, take dp data @ xs @ drop (dp + length xs) data))"
proof (induction xs arbitrary: sp dp data rule: txt_wire.induct)
  case (1 xs)
  show ?case
  proof (cases "xs = []")
    case True
    then show ?thesis using 1(3-5) by (simp add: dns_txt_parse_step_def c_while_stop)
  next
    case False
    define n where "n = min 255 (length xs)"
    have n: "0 < n" "n \<le> length xs" "n < 256" using False by (auto simp: n_def)
    let ?ys = "txt_wire (drop n xs)"
    have w: "txt_wire xs = of_nat n # take n xs @ ?ys"
      using False by (subst txt_wire.simps) (simp add: Let_def n_def [symmetric])
    have b: "rd (p_data P) sp = Some (of_nat n)" "has_bytes (p_data P) (sp + 1) (take n xs)"
      "has_bytes (p_data P) (sp + 1 + n) ?ys" using 1(2) n unfolding w by simp_all
    have u: "unat (of_nat n :: byte) = n" using n(3) by (simp add: unat_of_nat)
    define d1 where "d1 = take dp data @ take n xs @ drop (dp + n) data"
    have "wr_mem data dp (take n xs) = Some d1" using 1(3,4) n by (simp add: d1_def)
    moreover have "rd_mem (p_data P) (sp + 1) n = Some (take n xs)"
      using has_bytes_rd_mem [OF b(2)] n by simp
    ultimately have step: "dns_txt_parse_step src_end dst_end P (sp, dp, data) =
        Some (Inl (sp + 1 + n, dp + n, d1))"
      using b(1) 1(3,5) n w by (simp add: dns_txt_parse_step_def Let_def u)
    have "c_while (dns_txt_parse_step src_end dst_end P) (sp + 1 + n, dp + n, d1) =
        Some (Inr (dp + n + length (drop n xs), take (dp + n) d1 @ drop n xs @ drop (dp + n + length (drop n xs)) d1))"
      using 1(3-5) n w by (intro 1(1) [OF False n_def b(3)]) (simp_all add: d1_def)
    moreover have "take (dp + n) d1 = take dp data @ take n xs"
      "drop (dp + n + length (drop n xs)) d1 = drop (dp + n + length (drop n xs)) data"
      using 1(3,4) n by (simp_all add: d1_def add_ac)
    moreover have "dp + n + length (drop n xs) = dp + length xs" using n by simp
    ultimately show ?thesis
      unfolding c_while_next [of "dns_txt_parse_step src_end dst_end P", OF step] by (simp add: add_ac)
  qed
qed


definition txt_ok :: "dns_txt \<Rightarrow> dns_txt \<Rightarrow> bool" where
  "txt_ok txt0 txt \<longleftrightarrow> txt_len txt \<le> length (txt_data txt) \<and> length (txt_wire (txt_content txt)) < 65536 \<and>
     txt_len txt \<le> txt_size txt0 \<and> txt_size txt0 \<le> length (txt_data txt0)"

lemma txt_content_length [simp]: "txt_len txt \<le> length (txt_data txt) \<Longrightarrow> length (txt_content txt) = txt_len txt"
  by (simp add: txt_content_def)

interpretation txt_codec: rdata_codec dns_txt_push "dns_txt_parse txt0" "txt_ok txt0"
  "\<lambda>t. txt_wire (txt_content t)" txt_content for txt0
proof
  fix P :: dns_packet and rr :: dns_rr and t :: dns_txt
  assume ok: "txt_ok txt0 t"
  let ?w = "txt_wire (txt_content t)" and ?e = "p_end P"
  show "length ?w < 65536" using ok by (simp add: txt_ok_def)
  have n: "txt_len t + (txt_len t + 254) div 255 = length ?w"
    using ok by (simp add: txt_wire_length txt_ok_def)
  have len: "txt_len t \<le> length (txt_data t)" using ok by (simp add: txt_ok_def)
  {
    assume wf: "wf_packet P"
    then have lp: "length (p_data P) = p_size P" by (simp add: wf_packet_def)
    let ?d = "(p_data P)[?e := byte_of (drop_bit 8 (length ?w)), ?e + 1 := byte_of (length ?w)]"
    have w16: "wr16 (p_data P) ?e (length ?w) = Some ?d" if "?e + 2 \<le> p_size P"
      using that lp by simp
    note loop = txt_push_loop [OF len, of "txt_content t" 0 "?e + 2" "p_size P" ?d]
    show "dns_txt_push P t = Some (p_app P (len16 (length ?w) @ ?w), None)"
      if fits: "?e + 2 + length ?w \<le> p_size P"
    proof -
      have r: "\<not> p_room P < 2" "?e + 2 \<le> p_size P" using fits wf by (simp_all add: room_wf)
      have "c_while (dns_txt_push_step t (p_size P)) (?e + 2, 0, ?d) =
          Some (take (?e + 2) ?d @ ?w @ drop (?e + 2 + length ?w) ?d, Inr (?e + 2 + length ?w))"
        using loop r fits lp by simp
      moreover have "take (?e + 2) ?d = take ?e (p_data P) @ len16 (length ?w)"
      proof -
        have "take (Suc (Suc ?e)) ?d = take (Suc ?e) ((p_data P)[?e := byte_of (drop_bit 8 (length ?w))]) @ [byte_of (length ?w)]"
          using r lp by (subst take_Suc_update [symmetric]) (simp_all add: Suc_le_eq)
        also have "\<dots> = take ?e (p_data P) @ len16 (length ?w)"
          using r lp by (simp add: take_Suc_update len16_def)
        finally show ?thesis by simp
      qed
      ultimately show ?thesis
        using r w16 n by (simp add: dns_txt_push_def Let_def p_app_def)
    qed
    show "\<exists>P'. dns_txt_push P t = Some (P', Some DNS_ENOBUFS)" if full: "p_size P < ?e + 2 + length ?w"
    proof (cases "p_room P < 2")
      case True
      then show ?thesis by (simp add: dns_txt_push_def)
    next
      case False
      then have r: "?e + 2 \<le> p_size P" using wf by (simp add: room_wf)
      then obtain d' where "c_while (dns_txt_push_step t (p_size P)) (?e + 2, 0, ?d) = Some (d', Inl DNS_ENOBUFS)"
        using loop full lp by auto
      then show ?thesis using False w16 [OF r] n by (simp add: dns_txt_push_def Let_def)
    qed
  }
  show "\<exists>t'. dns_txt_parse txt0 rr P = Some (Inr t') \<and> txt_content t' = txt_content t"
    if "has_bytes (p_data P) (rr_rd_p rr) ?w" "rr_rd_len rr = length ?w"
    using txt_parse_loop [OF that(1), of 0 "txt_size txt0" "txt_data txt0"] that(2) ok
    by (auto simp: dns_txt_parse_def txt_ok_def txt_content_def)
qed

subsection \<open>Through the table of types\<close>

text \<open>The types \<open>dns_any_push\<close> can send back and forth without a name inside, and those it does not
  know, whose data it takes as raw bytes.\<close>

fun any_ok :: "nat \<Rightarrow> dns_any \<Rightarrow> bool" where
  "any_ok type (Any_a a) \<longleftrightarrow> type = DNS_T_A \<and> a < 4294967296"
| "any_ok type (Any_aaaa a) \<longleftrightarrow> type = DNS_T_AAAA \<and> length a = 16"
| "any_ok type (Any_sshfp fp) \<longleftrightarrow> type = DNS_T_SSHFP \<and> fp_ok fp"
| "any_ok type (Any_rdata txt) \<longleftrightarrow>
     (type = DNS_T_TXT \<or> type = DNS_T_SPF) \<and> txt_len txt \<le> DNS_TXT_MINDATA \<and> txt_len txt \<le> length (txt_data txt) \<or>
     rr_kind_of type = None \<and> txt_len txt \<le> DNS_TXT_MINDATA \<and> txt_len txt \<le> length (txt_data txt)"
| "any_ok type _ \<longleftrightarrow> False"

fun any_wire :: "nat \<Rightarrow> dns_any \<Rightarrow> bytes" where
  "any_wire type (Any_a a) = a_wire a"
| "any_wire type (Any_aaaa a) = a"
| "any_wire type (Any_sshfp fp) = fp_wire fp"
| "any_wire type (Any_rdata txt) =
     (if rr_kind_of type = None then txt_content txt else txt_wire (txt_content txt))"
| "any_wire type _ = []"

text \<open>What a caller can observe of it: the capacity of a \<open>dns_txt\<close> and the bytes past its length do
  not count.\<close>

fun any_val :: "dns_any \<Rightarrow> dns_any + bytes" where
  "any_val (Any_rdata txt) = Inr (txt_content txt)"
| "any_val any = Inl any"

lemma rr_kinds [simp]:
  "rr_kind_of DNS_T_A = Some K_a" "rr_kind_of DNS_T_AAAA = Some K_aaaa"
  "rr_kind_of DNS_T_SSHFP = Some K_sshfp" "rr_kind_of DNS_T_TXT = Some K_txt"
  "rr_kind_of DNS_T_SPF = Some K_txt"
  by (simp_all add: rr_kind_of_def dns_rrtypes_def c_defs)


lemma rr_kind_known: "rr_kind_of type \<noteq> None" if "type = DNS_T_A \<or> type = DNS_T_AAAA \<or> type = DNS_T_SSHFP \<or>
    type = DNS_T_TXT \<or> type = DNS_T_SPF"
  using that by auto

definition txt_init :: dns_txt where
  "txt_init = \<lparr>txt_size = DNS_TXT_MINDATA, txt_len = 0, txt_data = replicate DNS_TXT_MINDATA 0\<rparr>"

lemma txt_ok_small:
  "txt_len t \<le> DNS_TXT_MINDATA \<Longrightarrow> txt_len t \<le> length (txt_data t) \<Longrightarrow> txt_ok txt_init t"
  by (simp add: txt_ok_def txt_init_def txt_wire_length DNS_TXT_MINDATA_def)

interpretation raw_codec: rdata_codec "\<lambda>P t. dns_any_push P (Any_rdata t) type"
  "\<lambda>rr P. case dns_any_parse dns_any_init (rr\<lparr>rr_type := type\<rparr>) P of
     Some (Inr (Any_rdata t)) \<Rightarrow> Some (Inr t) | Some (Inl e) \<Rightarrow> Some (Inl e) | _ \<Rightarrow> None"
  "\<lambda>t. rr_kind_of type = None \<and> txt_len t \<le> DNS_TXT_MINDATA \<and> txt_len t \<le> length (txt_data t)"
  txt_content txt_content for type
proof
  fix P :: dns_packet and rr :: dns_rr and t :: dns_txt
  assume ok: "rr_kind_of type = None \<and> txt_len t \<le> DNS_TXT_MINDATA \<and> txt_len t \<le> length (txt_data t)"
  then have len: "length (txt_content t) = txt_len t" and small: "txt_len t \<le> 1024"
    by (simp_all add: DNS_TXT_MINDATA_def)
  show "length (txt_content t) < 65536" using len small by simp
  show "dns_any_push P (Any_rdata t) type =
      Some (p_app P (len16 (length (txt_content t)) @ txt_content t), None)"
    if wf: "wf_packet P" and fits: "p_end P + 2 + length (txt_content t) \<le> p_size P"
  proof -
    have r: "\<not> p_room P < txt_len t + 2" using fits wf len by (simp add: room_wf)
    have lp: "length (p_data P) = p_size P" "p_app P [] = P"
      using wf by (simp_all add: wf_packet_def p_app_Nil)
    have "p_put16 P (txt_len t) = Some (p_app P (len16 (txt_len t)))"
      using p_put16_app [of P "[]" "txt_len t"] fits lp by (simp add: len16_def)
    moreover have "rd_mem (txt_data t) 0 (txt_len t) = Some (txt_content t)"
      using ok by (simp add: txt_content_def)
    ultimately show ?thesis
      using r ok fits lp len p_mem_app [of P "len16 (txt_len t)" "txt_content t"]
      by (simp add: dns_any_push_def)
  qed
  show "\<exists>P'. dns_any_push P (Any_rdata t) type = Some (P', Some DNS_ENOBUFS)"
    if wf: "wf_packet P" and full: "p_size P < p_end P + 2 + length (txt_content t)"
  proof -
    have "p_room P < txt_len t + 2" using full wf len by (simp add: room_wf wf_packet_def less_diff_conv2)
    then show ?thesis using ok by (simp add: dns_any_push_def)
  qed
  show "\<exists>t'. (case dns_any_parse dns_any_init (rr\<lparr>rr_type := type\<rparr>) P of
     Some (Inr (Any_rdata t)) \<Rightarrow> Some (Inr t) | Some (Inl e) \<Rightarrow> Some (Inl e) | _ \<Rightarrow> None) =
       Some (Inr t') \<and> txt_content t' = txt_content t"
    if b: "has_bytes (p_data P) (rr_rd_p rr) (txt_content t)" and l: "rr_rd_len rr = length (txt_content t)"
    using ok small has_bytes_rd_mem [OF b l] l len
    by (simp add: dns_any_parse_def dns_any_init_def txt_content_def DNS_TXT_MINDATA_def)
qed

lemma any_ok_cases:
  assumes "any_ok type any"
  obtains (a) x where "any = Any_a x" "type = DNS_T_A" "x < 4294967296"
  | (aaaa) x where "any = Any_aaaa x" "type = DNS_T_AAAA" "length x = 16"
  | (sshfp) x where "any = Any_sshfp x" "type = DNS_T_SSHFP" "fp_ok x"
  | (text_data) t where "any = Any_rdata t" "rr_kind_of type = Some K_txt" "txt_ok txt_init t"
  | (raw) t where "any = Any_rdata t" "rr_kind_of type = None"
      "rr_kind_of type = None \<and> txt_len t \<le> DNS_TXT_MINDATA \<and> txt_len t \<le> length (txt_data t)"
  using assms by (cases any) (auto simp: txt_ok_small)

interpretation any_codec: rdata_codec "\<lambda>P a. dns_any_push P a type"
  "\<lambda>rr. dns_any_parse dns_any_init (rr\<lparr>rr_type := type\<rparr>)" "any_ok type" "any_wire type" any_val for type
proof
  fix P :: dns_packet and rr :: dns_rr and a :: dns_any assume ok: "any_ok type a"
  show "length (any_wire type a) < 65536"
    using ok
  proof (cases rule: any_ok_cases)
    case (sshfp x)
    then show ?thesis using sshfp_codec.ok_length by simp
  next
    case (text_data t)
    then show ?thesis using txt_codec.ok_length by simp
  next
    case (raw t)
    then show ?thesis using raw_codec.ok_length [OF raw(3)] by simp
  qed simp_all
  show "dns_any_push P a type = Some (p_app P (len16 (length (any_wire type a)) @ any_wire type a), None)"
    if w: "wf_packet P" and f: "p_end P + 2 + length (any_wire type a) \<le> p_size P"
    using ok
  proof (cases rule: any_ok_cases)
    case (a x)
    then show ?thesis using a_codec.push_fits [OF w a(3)] f by (simp add: dns_any_push_def)
  next
    case (aaaa x)
    then show ?thesis using aaaa_codec.push_fits [OF w aaaa(3)] f by (simp add: dns_any_push_def)
  next
    case (sshfp x)
    then show ?thesis using sshfp_codec.push_fits [OF w sshfp(3)] f by (simp add: dns_any_push_def)
  next
    case (text_data t)
    then show ?thesis using txt_codec.push_fits [OF w text_data(3)] f by (simp add: dns_any_push_def)
  next
    case (raw t)
    then show ?thesis using raw_codec.push_fits [OF w raw(3)] f by simp
  qed
  show "\<exists>P'. dns_any_push P a type = Some (P', Some DNS_ENOBUFS)"
    if w: "wf_packet P" and f: "p_size P < p_end P + 2 + length (any_wire type a)"
    using ok
  proof (cases rule: any_ok_cases)
    case (a x)
    then show ?thesis using a_codec.push_full [OF w a(3)] f by (simp add: dns_any_push_def)
  next
    case (aaaa x)
    then show ?thesis using aaaa_codec.push_full [OF w aaaa(3)] f by (simp add: dns_any_push_def)
  next
    case (sshfp x)
    then show ?thesis using sshfp_codec.push_full [OF w sshfp(3)] f by (simp add: dns_any_push_def)
  next
    case (text_data t)
    then show ?thesis using txt_codec.push_full [OF w text_data(3)] f by (simp add: dns_any_push_def)
  next
    case (raw t)
    then show ?thesis using raw_codec.push_full [OF w raw(3)] f by simp
  qed
  show "\<exists>b. dns_any_parse dns_any_init (rr\<lparr>rr_type := type\<rparr>) P = Some (Inr b) \<and> any_val b = any_val a"
    if b: "has_bytes (p_data P) (rr_rd_p rr) (any_wire type a)" and l: "rr_rd_len rr = length (any_wire type a)"
    using ok
  proof (cases rule: any_ok_cases)
    case (a x)
    then show ?thesis
      using b l a_codec.parse_wire [OF a(3), of P "rr\<lparr>rr_type := type\<rparr>"]
      by (simp add: dns_any_parse_def any_map_def)
  next
    case (aaaa x)
    then show ?thesis
      using b l aaaa_codec.parse_wire [OF aaaa(3), of P "rr\<lparr>rr_type := type\<rparr>"]
      by (simp add: dns_any_parse_def any_map_def)
  next
    case (sshfp x)
    then show ?thesis
      using b l sshfp_codec.parse_wire [OF sshfp(3), of P "rr\<lparr>rr_type := type\<rparr>"]
      by (simp add: dns_any_parse_def any_map_def)
  next
    case (text_data t)
    then show ?thesis
      using b l txt_codec.parse_wire [OF text_data(3), of P "rr\<lparr>rr_type := type\<rparr>"]
      by (auto simp: dns_any_parse_def any_map_def dns_any_init_def txt_init_def)
  next
    case (raw t)
    then show ?thesis
      using b l raw_codec.parse_wire [OF raw(3), of P rr]
      by (auto split: option.splits sum.splits dns_any.splits)
  qed
qed


subsection \<open>Whole records\<close>

definition ttl_wire :: "nat \<Rightarrow> bytes" where
  "ttl_wire ttl = [of_nat (127 AND drop_bit 24 ttl), byte_of (drop_bit 16 ttl), byte_of (drop_bit 8 ttl), byte_of ttl]"

lemma ttl_wire_length [simp]: "length (ttl_wire ttl) = 4" by (simp add: ttl_wire_def)

lemma be31_bytes:
  "be31 (of_nat (127 AND drop_bit 24 n)) (byte_of (drop_bit 16 n)) (byte_of (drop_bit 8 n)) (byte_of n) =
   n mod 2147483648"
proof -
  define m where "m = take_bit 31 n"
  have b: "127 AND x = take_bit 7 x" "255 AND x = take_bit 8 x" for x :: nat
    by (simp_all add: take_bit_eq_mask mask_eq_exp_minus_1 and.commute)
  have "unat (of_nat (127 AND drop_bit 24 n) :: byte) = 127 AND drop_bit 24 n"
    unfolding b by (simp add: unat_of_nat take_bit_eq_mod)
  then have "be31 (of_nat (127 AND drop_bit 24 n)) x y z =
      be32 (of_nat (127 AND drop_bit 24 n)) x y z" for x y z
    unfolding be31_def be32_def b by (simp add: take_bit_take_bit)
  moreover have "(of_nat (127 AND drop_bit 24 n) :: byte) = byte_of (drop_bit 24 m)"
    "byte_of (drop_bit 16 n) = byte_of (drop_bit 16 m)"
    "byte_of (drop_bit 8 n) = byte_of (drop_bit 8 m)" "byte_of n = byte_of m"
    unfolding byte_of_def b m_def by (simp_all add: drop_bit_take_bit take_bit_take_bit)
  ultimately have "be31 (of_nat (127 AND drop_bit 24 n)) (byte_of (drop_bit 16 n)) (byte_of (drop_bit 8 n)) (byte_of n) =
      m mod 4294967296" using be32_bytes [of m] by simp
  also have "\<dots> = n mod 2147483648" by (simp add: m_def take_bit_eq_mod mod_mod_cancel)
  finally show ?thesis .
qed

lemma p_put_ttl_app:
  assumes "p_end P + length xs + 4 \<le> length (p_data P)"
  shows "p_put_ttl (p_app P xs) ttl = Some (p_app P (xs @ ttl_wire ttl))"
  using assms by (simp add: p_put_ttl_def p_put_app ttl_wire_def)

text \<open>The ten bytes between the owner name and the data, and the whole of what follows the name.\<close>

definition rr_fixed :: "nat \<Rightarrow> nat \<Rightarrow> nat \<Rightarrow> bytes" where
  "rr_fixed type klass ttl = len16 type @ len16 klass @ ttl_wire ttl"

lemma p_room_app:
  "wf_packet P \<Longrightarrow> p_end P + length xs \<le> p_size P \<Longrightarrow> p_room (p_app P xs) = p_size P - (p_end P + length xs)"
  using room_wf [OF p_app_wf] by simp

text \<open>The part of \<open>dns_p_push_record\<close> after the name.\<close>

lemma dns_p_push_record_fits:
  assumes "dns_d_push P dn dnlen = Some (P1, None)" "wf_packet P1" "any_ok type any" "section \<noteq> DNS_S_QD"
    "p_end P1 + 10 + length (any_wire type any) \<le> p_size P1"
  shows "dns_p_push_record P section dn dnlen type klass ttl any =
    Some (p_app P1 (rr_fixed type klass ttl @ len16 (length (any_wire type any)) @ any_wire type any), None)"
proof -
  have l: "length (p_data P1) = p_size P1" "p_app P1 [] = P1"
    using assms(2) by (simp_all add: wf_packet_def p_app_Nil)
  have "p_put16 P1 type = Some (p_app P1 (len16 type))"
    using p_put16_app [of P1 "[]" type] assms(5) l by (simp add: len16_def)
  moreover have "p_put16 (p_app P1 (len16 type)) klass = Some (p_app P1 (len16 type @ len16 klass))"
    using p_put16_app [of P1 "len16 type" klass] assms(5) l by (simp add: len16_def)
  moreover have "p_put_ttl (p_app P1 (len16 type @ len16 klass)) ttl = Some (p_app P1 (rr_fixed type klass ttl))"
    using p_put_ttl_app [of P1 "len16 type @ len16 klass" ttl] assms(5) l by (simp add: rr_fixed_def)
  moreover have "dns_any_push (p_app P1 (rr_fixed type klass ttl)) any type =
      Some (p_app P1 (rr_fixed type klass ttl @ len16 (length (any_wire type any)) @ any_wire type any), None)"
    using any_codec.push_fits [OF p_app_wf [OF assms(2)] assms(3), of "rr_fixed type klass ttl"] assms(5) l
    by (simp add: p_app_app rr_fixed_def)
  moreover have "\<not> p_room P1 < 4" "\<not> p_room (p_app P1 (len16 type @ len16 klass)) < 6"
    using assms(2,5) by (simp_all add: room_wf p_room_app)
  ultimately show ?thesis using assms(1,4) by (simp add: dns_p_push_record_def)
qed

lemma dns_p_push_record_full:
  assumes "dns_d_push P dn dnlen = Some (P1, None)" "wf_packet P1" "any_ok type any" "section \<noteq> DNS_S_QD"
    "p_size P1 < p_end P1 + 10 + length (any_wire type any)"
  shows "\<exists>P'. dns_p_push_record P section dn dnlen type klass ttl any = Some (P', Some DNS_ENOBUFS)"
proof (cases "p_room P1 < 4")
  case True
  then show ?thesis using assms(1) by (auto simp: dns_p_push_record_def)
next
  case False
  then have room: "p_end P1 + 4 \<le> p_size P1" using assms(2) by (simp add: room_wf)
  have l: "length (p_data P1) = p_size P1" "p_app P1 [] = P1"
    using assms(2) by (simp_all add: wf_packet_def p_app_Nil)
  have p: "p_put16 P1 type = Some (p_app P1 (len16 type))"
    "p_put16 (p_app P1 (len16 type)) klass = Some (p_app P1 (len16 type @ len16 klass))"
    using p_put16_app [of P1 "[]" type] p_put16_app [of P1 "len16 type" klass] room l
    by (simp_all add: len16_def)
  show ?thesis
  proof (cases "p_room (p_app P1 (len16 type @ len16 klass)) < 6")
    case True
    then show ?thesis using assms(1,4) False p by (simp add: dns_p_push_record_def)
  next
    case room6: False
    then have r: "p_end P1 + 10 \<le> p_size P1" using assms(2) room by (simp add: p_room_app)
    have "p_put_ttl (p_app P1 (len16 type @ len16 klass)) ttl = Some (p_app P1 (rr_fixed type klass ttl))"
      using p_put_ttl_app [of P1 "len16 type @ len16 klass" ttl] r l by (simp add: rr_fixed_def)
    moreover have "\<exists>P'. dns_any_push (p_app P1 (rr_fixed type klass ttl)) any type = Some (P', Some DNS_ENOBUFS)"
      using any_codec.push_full [OF p_app_wf [OF assms(2)] assms(3), of "rr_fixed type klass ttl"] assms(5) r
      by (simp add: rr_fixed_def)
    ultimately show ?thesis using assms(1,4) False room6 p by (auto simp: dns_p_push_record_def)
  qed
qed

text \<open>Counting the record changes the header and the memoised bounds, not the records.\<close>

lemma hd16_take: "i + 1 < 12 \<Longrightarrow> take 12 (p_data P) = take 12 (p_data Q) \<Longrightarrow> hd16 P i = hd16 Q i"
  unfolding hd16_def by (metis One_nat_def Suc_eq_plus1 Suc_lessD nth_take)

lemma count_take: "take 12 (p_data P) = take 12 (p_data Q) \<Longrightarrow> dns_p_count P s = dns_p_count Q s"
  using hd16_take [of _ P Q]
  by (simp add: dns_p_count_def hd_qdcount_def hd_ancount_def hd_nscount_def hd_arcount_def)

definition later_sections :: "nat \<Rightarrow> nat" where
  "later_sections section =
     (if section = DNS_S_QD then DNS_S_AN OR DNS_S_NS OR DNS_S_AR
      else if section = DNS_S_AN then DNS_S_NS OR DNS_S_AR
      else if section = DNS_S_NS then DNS_S_AR else 0)"


definition count_at :: "nat \<Rightarrow> nat" where
  "count_at section =
     (if section = DNS_S_QD then 4 else if section = DNS_S_AN then 6 else if section = DNS_S_NS then 8 else 10)"

lemma studied_if:
  assumes "readable P"
  obtains Q where "(if b then dns_p_study P else Some P) = Some Q" "p_data Q = p_data P" "p_end Q = p_end P"
    "p_size Q = p_size P" "p_dict Q = p_dict P"
  by (rule that [of "if b then studied P else P"])
     (simp_all add: dns_p_study_eq [OF assms] studied_def Let_def)

lemma dns_p_push_update_ok:
  assumes "readable P" "section \<in> {DNS_S_QD, DNS_S_AN, DNS_S_NS, DNS_S_AR}"
    "section \<noteq> DNS_S_AR \<longrightarrow> dns_p_count P (later_sections section) = 0"
  shows "\<exists>P'. dns_p_push_update P section = Some (P', None) \<and> p_end P' = p_end P \<and> p_size P' = p_size P \<and>
    p_dict P' = p_dict P \<and>
    p_data P' = p_data (hd16_set P (count_at section) (hd16 P (count_at section) + 1))"
proof -
  have ne: "DNS_S_QD \<noteq> DNS_S_AN" "DNS_S_QD \<noteq> DNS_S_NS" "DNS_S_QD \<noteq> DNS_S_AR" "DNS_S_AN \<noteq> DNS_S_NS"
    "DNS_S_AN \<noteq> DNS_S_AR" "DNS_S_NS \<noteq> DNS_S_AR" by (simp_all add: c_defs)
  note ne = ne ne [symmetric]
  consider "section = DNS_S_QD" | "section = DNS_S_AN" | "section = DNS_S_NS" | "section = DNS_S_AR"
    using assms(2) by blast
  then show ?thesis
  proof cases
    case 1
    obtain Q where Q: "(if m_base (p_qd P) = 0 then dns_p_study P else Some P) = Some Q" "p_data Q = p_data P"
      "p_end Q = p_end P" "p_size Q = p_size P" "p_dict Q = p_dict P" by (rule studied_if [OF assms(1)])
    then show ?thesis using 1 assms(3)
      by (simp add: dns_p_push_update_def later_sections_def count_at_def ne Let_def hd16_set_def hd16_def
          hd_qdcount_def)
  next
    case 2
    obtain Q where Q: "(if m_base (p_an P) = 0 then dns_p_study P else Some P) = Some Q" "p_data Q = p_data P"
      "p_end Q = p_end P" "p_size Q = p_size P" "p_dict Q = p_dict P" by (rule studied_if [OF assms(1)])
    then show ?thesis using 2 assms(3)
      by (simp add: dns_p_push_update_def later_sections_def count_at_def ne Let_def hd16_set_def hd16_def
          hd_ancount_def)
  next
    case 3
    obtain Q where Q: "(if m_base (p_ns P) = 0 then dns_p_study P else Some P) = Some Q" "p_data Q = p_data P"
      "p_end Q = p_end P" "p_size Q = p_size P" "p_dict Q = p_dict P" by (rule studied_if [OF assms(1)])
    then show ?thesis using 3 assms(3)
      by (simp add: dns_p_push_update_def later_sections_def count_at_def ne Let_def hd16_set_def hd16_def
          hd_nscount_def)
  next
    case 4
    obtain Q where Q: "(if m_base (p_ar P) = 0 then dns_p_study P else Some P) = Some Q" "p_data Q = p_data P"
      "p_end Q = p_end P" "p_size Q = p_size P" "p_dict Q = p_dict P" by (rule studied_if [OF assms(1)])
    then show ?thesis using 4
      by (simp add: dns_p_push_update_def count_at_def ne Let_def hd16_set_def hd16_def hd_arcount_def)
  qed
qed

text \<open>Reading the fixed part of a record.\<close>

lemma d_skip_wire:
  "\<forall>l \<in> set ls. label_ok l \<Longrightarrow> has_bytes (p_data P) src (name_wire ls) \<Longrightarrow> readable P \<Longrightarrow>
   src + length (name_wire ls) \<le> p_end P \<Longrightarrow> dns_d_skip src P = Some (src + length (name_wire ls))"
proof (induction ls arbitrary: src)
  case Nil
  have "dns_d_skip_step P src = Some (Inr (src + 1))"
    using Nil.prems readable_end [of P] by (simp add: dns_d_skip_step_def Let_def)
  then show ?case by (simp add: dns_d_skip_def c_while_stop)
next
  case (Cons l ls)
  have l: "label_ok l" "\<forall>l \<in> set ls. label_ok l" using Cons.prems(1) by auto
  note b = wire_label [OF l(1)]
  have h: "src < length (p_data P)" "p_data P ! src = of_nat (length l)"
    "has_bytes (p_data P) (src + 1 + length l) (name_wire ls)" using Cons.prems(2) by simp_all
  have e: "src + 1 + length l + length (name_wire ls) \<le> p_end P" "p_end P < 65536"
    using Cons.prems(3,4) readable_end [of P] by simp_all
  have "0 < length (name_wire ls)" by (simp add: name_wire_length)
  then have "length l < p_end P - Suc src" using e(1) by linarith
  then have "dns_d_skip_step P src = Some (Inl (src + 1 + length l))"
    using e h b unfolding dns_d_skip_step_def Let_def by simp
  then have "dns_d_skip src P = dns_d_skip (src + 1 + length l) P"
    unfolding dns_d_skip_def by (rule c_while_next [of "dns_d_skip_step P"])
  then show ?case using Cons.IH [OF l(2) h(3) Cons.prems(3) e(1)] by simp
qed

lemma dns_rr_parse_wire:
  assumes "readable P" "\<forall>l \<in> set ls. label_ok l" "type < 65536" "klass < 65536"
    "has_bytes (p_data P) src (name_wire ls @ rr_fixed type klass ttl @ len16 (length xs) @ xs)"
    "src + length (name_wire ls) + 10 + length xs \<le> p_end P"
    "dns_p_qend P = Some q" "q \<le> src"
  shows "dns_rr_parse rr src P = Some (rr\<lparr>rr_dn_p := src, rr_dn_len := length (name_wire ls), rr_type := type,
    rr_klass := klass, rr_ttl := ttl mod 2147483648, rr_rd_len := length xs,
    rr_rd_p := src + length (name_wire ls) + 10\<rparr>, None)"
proof -
  define p where "p = src + length (name_wire ls)"
  have pe: "p_end P < 65536" "p_end P \<le> length (p_data P)" using readable_end [OF assms(1)] by simp_all
  have r: "p + 10 + length xs \<le> p_end P" "src < p_end P" "src \<le> p"
    using assms(6) by (simp_all add: p_def)
  have h: "has_bytes (p_data P) src (name_wire ls)"
    "has_bytes (p_data P) p (rr_fixed type klass ttl @ len16 (length xs) @ xs)"
    using assms(5) by (simp_all add: p_def)
  have four: "p + 4 = Suc (Suc (Suc (Suc p)))" by simp
  have f: "has_bytes (p_data P) p (len16 type)" "has_bytes (p_data P) (p + 2) (len16 klass)"
    "has_bytes (p_data P) (p + 4) (ttl_wire ttl)" "has_bytes (p_data P) (p + 8) (len16 (length xs))"
    using h(2) unfolding four by (simp_all add: rr_fixed_def add_ac)
  have skip: "dns_d_skip src P = Some p"
    unfolding p_def using assms(6) by (intro d_skip_wire [OF assms(2) h(1) assms(1)]) simp
  have t: "rd (p_data P) (p + 4) = Some (of_nat (127 AND drop_bit 24 ttl))"
    "rd (p_data P) (p + 4 + 1) = Some (byte_of (drop_bit 16 ttl))"
    "rd (p_data P) (p + 4 + 2) = Some (byte_of (drop_bit 8 ttl))"
    "rd (p_data P) (p + 4 + 3) = Some (byte_of ttl)"
    using f(3) by (simp_all add: ttl_wire_def numeral_3_eq_3)
  have n: "rd16 (p_data P) p = Some type" "rd16 (p_data P) (p + 2) = Some klass"
    "rd16 (p_data P) (p + 8) = Some (length xs)"
    using rd16_len16 [OF f(1) assms(3)] rd16_len16 [OF f(2) assms(4)] rd16_len16 [OF f(4)] r pe by simp_all
  have s: "\<not> p_end P \<le> src" "\<not> sz_sub (p_end P) p < 4" "u16 (p + 4) = p + 4" "\<not> src < q"
    "\<not> sz_sub (p_end P) (p + 4) < 4" "u16 (p + 4 + 4) = p + 8" "\<not> sz_sub (p_end P) (p + 8) < 2"
    "u16 (p + 8 + 2) = p + 10" "\<not> sz_sub (p_end P) (p + 10) < length xs"
    using r pe assms(8) by simp_all
  have u: "u16 (sz_sub p src) = length (name_wire ls)" using r pe by (simp add: p_def)
  show ?thesis
    unfolding p_def [symmetric]
    by (simp only: dns_rr_parse_def Let_def skip Option.bind_lunit s n t assms(7) if_False be31_bytes u)
qed

lemma dns_p_qend_none: "readable P \<Longrightarrow> 12 \<le> p_end P \<Longrightarrow> hd_qdcount P = 0 \<Longrightarrow> dns_p_qend P = Some 12"
  by (simp add: dns_p_qend_def dns_p_qend_step_def dns_p_count_def c_while_stop)


text \<open>A name and the bytes \<open>xs\<close> after it, as the first record of a packet, once counted.\<close>

lemma first_record_counted:
  assumes "wf_packet P" "hd_qdcount P = 0" "section \<in> {DNS_S_AN, DNS_S_NS, DNS_S_AR}"
    "section \<noteq> DNS_S_AR \<longrightarrow> dns_p_count P (later_sections section) = 0"
    "wf_packet P1" "p_size P1 = p_size P" "take (p_end P) (p_data P1) = take (p_end P) (p_data P)"
    "p_end P1 = p_end P + length (name_wire ls)" "wire_at (p_data P1) (p_end P) ls"
    "p_end P1 + length xs \<le> p_size P1"
  shows "\<exists>P3. dns_p_push_update (p_app P1 xs) section = Some (P3, None) \<and> wf_packet P3 \<and>
    p_size P3 = p_size P \<and> p_end P3 = p_end P1 + length xs \<and> dns_p_qend P3 = Some 12 \<and>
    has_bytes (p_data P3) (p_end P) (name_wire ls @ xs)"
proof -
  let ?e = "p_end P" and ?n = "length (name_wire ls)"
  define P2 where "P2 = p_app P1 xs"
  have wf: "12 \<le> ?e" using assms(1) by (simp add: wf_packet_def)
  have wf2: "wf_packet P2" unfolding P2_def by (rule p_app_wf [OF assms(5,10)])
  have lp: "length (p_data P1) = p_size P1" using assms(5) by (simp add: wf_packet_def)
  note d2 = p_app_data [of P1 xs, unfolded lp, OF assms(10), folded P2_def]
  have t2: "take (?e + ?n) (p_data P2) = take (?e + ?n) (p_data P1)" using d2(2) assms(8) by simp
  then have pre: "p_data P2 ! k = p_data P1 ! k" if "k < ?e + ?n" for k
    using that by (metis nth_take)
  have "p_data P2 ! (?e + k) = name_wire ls ! k" if "k < ?n" for k
    using that assms(9) pre [of "?e + k"] by (simp add: wire_at_def)
  then have "wire_at (p_data P2) ?e ls"
    using assms(8,10) d2(1) lp by (simp add: wire_at_def)
  then have all2: "has_bytes (p_data P2) ?e (name_wire ls @ xs)"
    using d2(3) assms(8) has_bytes_wire by simp
  have "take ?e (p_data P2) = take ?e (p_data P)"
    using t2 assms(7) by (metis le_add1 min.absorb1 take_take)
  then have "take 12 (p_data P2) = take 12 (p_data P)" using wf by (metis min.absorb1 take_take)
  note cnt = count_take [OF this] and hd = hd16_take [OF _ this]
  obtain P3 where P3: "dns_p_push_update P2 section = Some (P3, None)" "p_end P3 = p_end P2"
    "p_size P3 = p_size P2" "p_dict P3 = p_dict P2"
    "p_data P3 = p_data (hd16_set P2 (count_at section) (hd16 P2 (count_at section) + 1))"
    using dns_p_push_update_ok [of P2 "section"] wf2 assms(3,4) cnt by auto
  have wf3: "wf_packet P3" using wf2 P3 by (simp add: wf_packet_def)
  have c: "count_at section \<in> {6, 8, 10}" using assms(3) by (auto simp: count_at_def c_defs)
  have "hd_qdcount P3 = hd_qdcount P2"
    using c P3(5) hd16_set_other [of 4 "count_at section" P2] by (auto simp: hd_qdcount_def hd16_def)
  also have "\<dots> = 0" using hd [of 4] assms(2) by (simp add: hd_qdcount_def)
  finally have q: "dns_p_qend P3 = Some 12"
    using dns_p_qend_none wf3 by (simp add: wf_packet_def)
  have "drop ?e (p_data P3) = drop ?e (p_data P2)" using c wf P3(5) by (auto simp: hd16_set_def)
  then have "has_bytes (p_data P3) ?e (name_wire ls @ xs)"
    using all2 P3(5) by (simp add: has_bytes_def del: has_bytes_append append.assoc)
  with P3 wf3 q show ?thesis using assms(6) by (auto simp: P2_def)
qed

lemma first_record_read:
  assumes "wf_packet P" "hd_qdcount P = 0" "section \<in> {DNS_S_AN, DNS_S_NS, DNS_S_AR}"
    "section \<noteq> DNS_S_AR \<longrightarrow> dns_p_count P (later_sections section) = 0"
    "names_labels dn ls" "any_ok type any" "type < 65536" "klass < 65536"
    and "dns_d_push P dn (length dn) = Some (P1, None)" "wf_packet P1" "p_size P1 = p_size P"
    "take (p_end P) (p_data P1) = take (p_end P) (p_data P)" "p_end P1 = p_end P + length (name_wire ls)"
    "p_end P + length (name_wire ls) + 10 + length (any_wire type any) \<le> p_size P" "wire_at (p_data P1) (p_end P) ls"
  shows "\<exists>P' rr any'. dns_p_push P section dn (length dn) type klass ttl any = Some (P', None) \<and>
    dns_rr_parse rr0 (p_end P) P' = Some (rr, None) \<and> name_at P' 0 (rr_dn_p rr) ls \<and>
    rr_type rr = type \<and> rr_klass rr = klass \<and> rr_ttl rr = ttl mod 2147483648 \<and>
    dns_any_parse dns_any_init rr P' = Some (Inr any') \<and> any_val any' = any_val any"
proof -
  let ?e = "p_end P" and ?n = "length (name_wire ls)" and ?w = "any_wire type any"
  have sec: "section \<noteq> DNS_S_QD" using assms(3) by (auto simp: c_defs)
  have labels: "\<forall>l \<in> set ls. label_ok l" using assms(5) by (simp add: names_labels_def)
  let ?xs = "rr_fixed type klass ttl @ len16 (length ?w) @ ?w"
  have fits: "p_end P1 + length ?xs \<le> p_size P1" using assms(14,11,13) by (simp add: rr_fixed_def)
  obtain P3 where P3: "dns_p_push_update (p_app P1 ?xs) section = Some (P3, None)" "wf_packet P3"
    "p_end P3 = p_end P1 + length ?xs" "dns_p_qend P3 = Some 12"
    "has_bytes (p_data P3) ?e (name_wire ls @ ?xs)"
    using first_record_counted [OF assms(1-4,10-13,15) fits] by blast
  have "dns_p_push_record P section dn (length dn) type klass ttl any = Some (p_app P1 ?xs, None)"
    using dns_p_push_record_fits [OF assms(9,10,6) sec] fits by (simp add: rr_fixed_def)
  then have push: "dns_p_push P section dn (length dn) type klass ttl any = Some (P3, None)"
    using P3(1) by (simp add: dns_p_push_def)
  have e3: "p_end P3 = ?e + ?n + 10 + length ?w" "12 \<le> ?e"
    using P3(3) assms(1,13) by (simp_all add: rr_fixed_def wf_packet_def)
  let ?rr = "rr0\<lparr>rr_dn_p := ?e, rr_dn_len := ?n, rr_type := type, rr_klass := klass,
    rr_ttl := ttl mod 2147483648, rr_rd_len := length ?w, rr_rd_p := ?e + ?n + 10\<rparr>"
  have parse: "dns_rr_parse rr0 ?e P3 = Some (?rr, None)"
    using dns_rr_parse_wire [OF wf_packet_readable [OF P3(2)] labels assms(7,8) P3(5) _ P3(4), of rr0] e3
    by simp
  have "has_bytes (p_data P3) (rr_rd_p ?rr) ?w" "rr_rd_len ?rr = length ?w"
    using P3(5) by (simp_all add: rr_fixed_def add_ac)
  note p = any_codec.parse_wire [OF assms(6) this]
  have "?rr\<lparr>rr_type := type\<rparr> = ?rr" by simp
  note p = p [unfolded this]
  then obtain any' where any: "dns_any_parse dns_any_init ?rr P3 = Some (Inr any')" "any_val any' = any_val any"
    by blast
  have "has_bytes (p_data P3) ?e (name_wire ls)" using P3(5) by simp
  then have "name_at P3 0 ?e ls"
    using e3 has_bytes_wire_at by (intro wire_at_name_at [OF labels]) auto
  with push parse any show ?thesis by auto
qed

text \<open>C3: an A, AAAA, SSHFP, TXT or SPF record, or one of a type without a parser of its own, that is pushed as the first one of a
  packet is read back. If it fits, \<open>dns_p_push\<close> succeeds
  and \<open>dns_rr_parse\<close> at the old end gives its name, type, class and data, and its TTL in 31 bits;
  if it does not, the push fails with \<open>DNS_ENOBUFS\<close> and the packet ends where it did. Records with a name in
  their data (NS, CNAME, PTR, MX, SOA, SRV) are not meant, for which compression can change that name: \<open>dns_ns_push_renames\<close>;
  nor is OPT: \<open>dns_opt_push_unreadable\<close>.\<close>

theorem dns_p_push_parse:
  assumes "wf_packet P" "hd (p_dict P) = 0" "hd_qdcount P = 0"
    "section \<in> {DNS_S_AN, DNS_S_NS, DNS_S_AR}"
    "section \<noteq> DNS_S_AR \<longrightarrow> dns_p_count P (later_sections section) = 0"
    "names_labels dn ls" "any_ok type any" "type < 65536" "klass < 65536"
  shows "\<exists>P'. if p_end P + length (name_wire ls) + 10 + length (any_wire type any) \<le> p_size P
     then dns_p_push P section dn (length dn) type klass ttl any = Some (P', None) \<and>
       (\<exists>rr any'. dns_rr_parse rr0 (p_end P) P' = Some (rr, None) \<and>
          name_at P' 0 (rr_dn_p rr) ls \<and> rr_type rr = type \<and> rr_klass rr = klass \<and>
          rr_ttl rr = ttl mod 2147483648 \<and>
          dns_any_parse dns_any_init rr P' = Some (Inr any') \<and> any_val any' = any_val any)
     else dns_p_push P section dn (length dn) type klass ttl any = Some (P', Some DNS_ENOBUFS) \<and>
       p_end P' = p_end P"
proof -
  let ?e = "p_end P" and ?n = "length (name_wire ls)" and ?w = "any_wire type any"
  have sec: "section \<noteq> DNS_S_QD" using assms(4) by (auto simp: c_defs)
  from dns_d_push_empty [OF assms(1,2,6), of "length dn" dn] obtain P1 where P1:
    "dns_d_push P dn (length dn) = Some (P1, if ?e + ?n \<le> p_size P then None else Some DNS_ENOBUFS)"
    "wf_packet P1" "p_size P1 = p_size P" "take ?e (p_data P1) = take ?e (p_data P)"
    "if ?e + ?n \<le> p_size P then p_end P1 = ?e + ?n \<and> wire_at (p_data P1) ?e ls
     else p_end P1 = ?e \<and> p_dict P1 = p_dict P" by auto
  show ?thesis
  proof (cases "?e + ?n + 10 + length ?w \<le> p_size P")
    case False
    have "\<exists>P'. dns_p_push_record P section dn (length dn) type klass ttl any = Some (P', Some DNS_ENOBUFS)"
      using P1 False dns_p_push_record_full [OF _ P1(2) assms(7) sec, of P dn "length dn"]
      by (cases "?e + ?n \<le> p_size P") (simp_all add: dns_p_push_record_def)
    then show ?thesis using False by (auto simp: dns_p_push_def p_fail_def Let_def)
  next
    case True
    then have P1': "dns_d_push P dn (length dn) = Some (P1, None)" "p_end P1 = ?e + ?n"
      "wire_at (p_data P1) ?e ls" using P1(1,5) by simp_all
    with first_record_read [OF assms(1,3-9) P1'(1) P1(2-4) P1'(2) True P1'(3), of ttl] True show ?thesis by auto
  qed
qed

lemma fresh_packet:
  assumes "12 \<le> n" "n \<le> 65535"
  obtains P where "dns_p_make n = Some P" "wf_packet P" "hd (p_dict P) = 0" "p_end P = 12" "p_size P = n"
    "dns_p_count P s = 0" "hd_qdcount P = 0"
proof -
  have d: "drop 12 (replicate (max 12 n) (0 :: byte)) = replicate (n - 12) 0" using assms by simp
  have z: "(replicate 12 0 @ replicate (n - 12) (0 :: byte)) ! k = 0" if "k < 12" for k
    using that by (simp add: nth_append)
  have "be16 0 0 = 0" by (simp add: be16_eq)
  then show thesis using assms
    by (intro that [of "\<lparr>p_dict = replicate DNS_P_DICTSIZE 0, p_qd = memo0, p_an = memo0, p_ns = memo0, p_ar = memo0,
                 p_size = n, p_end = 12, p_data = replicate 12 0 @ replicate (n - 12) 0\<rparr>"])
      (simp_all add: dns_p_make_def dns_p_init_def dns_p_calcsize_def d wf_packet_def c_defs z dns_p_count_def
        hd_qdcount_def hd_ancount_def hd_nscount_def hd_arcount_def hd16_def)
qed

lemma names_labels_example: "names_labels [97, 46] [[97]]"
  by (simp add: names_labels_def label_ok_def name_full_def c_defs)

theorem dns_p_push_parse_witness:
  "\<exists>P P' rr any'. dns_p_make 64 = Some P \<and>
     dns_p_push P DNS_S_AN [97, 46] 2 DNS_T_A DNS_C_IN 300 (Any_a 7) = Some (P', None) \<and>
     dns_rr_parse rr0 12 P' = Some (rr, None) \<and> rr_type rr = DNS_T_A \<and> rr_ttl rr = 300 \<and>
     dns_any_parse dns_any_init rr P' = Some (Inr any') \<and> any_val any' = Inl (Any_a 7)"
proof -
  obtain P where P: "dns_p_make 64 = Some P" "wf_packet P" "hd (p_dict P) = 0" "p_end P = 12" "p_size P = 64"
    "dns_p_count P (later_sections DNS_S_AN) = 0" "hd_qdcount P = 0"
    by (rule fresh_packet [of 64 "later_sections DNS_S_AN"]) auto
  have w: "length (any_wire DNS_T_A (Any_a 7)) = 4" by simp
  from dns_p_push_parse [OF P(2,3,7) _ _ names_labels_example, of DNS_S_AN DNS_T_A "Any_a 7" DNS_C_IN 300] P
  show ?thesis by (auto simp: w DNS_T_A_def DNS_C_IN_def numeral_2_eq_2)
qed

subsection \<open>Names in the data\<close>

text \<open>The owner \<open>a.b.c.c.\<close> is in the packet, and the data of an NS record is the name \<open>a.c.\<close>: the data that is
  written names \<open>c.c.\<close>.\<close>

lemma dns_ns_push_renames:
  "do {
     P \<leftarrow> dns_p_make 64;
     (P, e1) \<leftarrow> dns_d_push P (of_string ''a.b.c.c.'') 8;
     (Q, e2) \<leftarrow> dns_ns_push P (of_string ''a.c.'' @ [0]);
     if e1 = None \<and> e2 = None then dns_d_expand (replicate 8 0) 8 (p_end P + 2) Q else None } =
   Some (of_string ''c.c.'' @ [0, 0, 0, 0], Inr 4)"
  by (simp add: dns_ns_push_def p_rdlen_def wr16_def wr_def p_room_def sz_sub_def name_eval cong: bind_weak)

subsection \<open>OPT records\<close>

text \<open>a pushed OPT record cannot be read back: \<open>dns_opt_push\<close> writes no RDLENGTH, so the record ends
  after its TTL, and \<open>dns_rr_parse\<close> refuses it.\<close>

theorem dns_opt_push_unreadable:
  assumes "wf_packet P" "hd (p_dict P) = 0" "hd_qdcount P = 0" "dns_p_count P DNS_S_AR = 0"
    "names_labels dn ls" "p_end P + length (name_wire ls) + 10 \<le> p_size P"
  shows "\<exists>P' rr. dns_p_push P DNS_S_AR dn (length dn) DNS_T_OPT klass ttl (Any_opt opt) = Some (P', None) \<and>
     dns_rr_parse rr0 (p_end P) P' = Some (rr, Some DNS_EILLEGAL)"
proof -
  let ?e = "p_end P" and ?n = "length (name_wire ls)" and ?xs = "rr_fixed DNS_T_OPT klass ttl"
  have labels: "\<forall>l \<in> set ls. label_ok l" using assms(5) by (simp add: names_labels_def)
  from dns_d_push_empty [OF assms(1,2,5), of "length dn" dn] assms(6) obtain P1 where P1:
    "dns_d_push P dn (length dn) = Some (P1, None)"
    "wf_packet P1" "p_size P1 = p_size P" "take ?e (p_data P1) = take ?e (p_data P)"
    "p_end P1 = ?e + ?n" "wire_at (p_data P1) ?e ls" by auto
  have l: "length (p_data P1) = p_size P1" "p_app P1 [] = P1"
    using P1(2) by (simp_all add: wf_packet_def p_app_Nil)
  have fits: "p_end P1 + length ?xs \<le> p_size P1" using assms(6) P1(3,5) by (simp add: rr_fixed_def)
  have "p_put16 P1 DNS_T_OPT = Some (p_app P1 (len16 DNS_T_OPT))"
    "p_put16 (p_app P1 (len16 DNS_T_OPT)) klass = Some (p_app P1 (len16 DNS_T_OPT @ len16 klass))"
    "p_put_ttl (p_app P1 (len16 DNS_T_OPT @ len16 klass)) ttl = Some (p_app P1 ?xs)"
    using p_put16_app [of P1 "[]" DNS_T_OPT] p_put16_app [of P1 "len16 DNS_T_OPT" klass]
      p_put_ttl_app [of P1 "len16 DNS_T_OPT @ len16 klass" ttl] fits l
    by (simp_all add: len16_def rr_fixed_def)
  moreover have "\<not> p_room P1 < 4" "\<not> p_room (p_app P1 (len16 DNS_T_OPT @ len16 klass)) < 6"
    using P1 assms(6) by (simp_all add: room_wf p_room_app)
  moreover have "dns_any_push Q (Any_opt opt) DNS_T_OPT = Some (Q, None)" for Q
    by (simp add: dns_any_push_def dns_opt_push_def rr_kind_of_def dns_rrtypes_def c_defs)
  moreover have "DNS_S_AR \<noteq> DNS_S_QD" by (simp add: c_defs)
  ultimately have rec: "dns_p_push_record P DNS_S_AR dn (length dn) DNS_T_OPT klass ttl (Any_opt opt) =
      Some (p_app P1 ?xs, None)" using P1(1) by (simp add: dns_p_push_record_def)
  obtain P3 where P3: "dns_p_push_update (p_app P1 ?xs) DNS_S_AR = Some (P3, None)" "wf_packet P3"
    "p_end P3 = p_end P1 + length ?xs" "dns_p_qend P3 = Some 12" "p_size P3 = p_size P"
    "has_bytes (p_data P3) ?e (name_wire ls @ ?xs)"
    using first_record_counted [OF assms(1,3) _ _ P1(2,3,4,5,6) fits, of DNS_S_AR] by auto
  have e3: "p_end P3 = ?e + ?n + 8" "12 \<le> ?e" "p_size P < 65536" "length (p_data P3) = p_size P"
    using P3(2,3,5) P1(5) assms(1) by (simp_all add: rr_fixed_def wf_packet_def)
  have "dns_d_skip ?e P3 = Some (?e + ?n)"
    using d_skip_wire [OF labels, of P3 ?e] P3(2,6) e3(1) by simp
  then have "\<exists>rr. dns_rr_parse rr0 ?e P3 = Some (rr, Some DNS_EILLEGAL)"
    using e3 P3(4) assms(6) by (simp add: dns_rr_parse_def Let_def)
  moreover have "dns_p_push P DNS_S_AR dn (length dn) DNS_T_OPT klass ttl (Any_opt opt) = Some (P3, None)"
    using rec P3(1) by (simp add: dns_p_push_def)
  ultimately show ?thesis by blast
qed

theorem dns_opt_push_unreadable_witness:
  "\<exists>P P' rr. dns_p_make 64 = Some P \<and>
     dns_p_push P DNS_S_AR [97, 46] 2 DNS_T_OPT 512 0
       (Any_opt \<lparr>opt_size = 0, opt_len = 0, opt_rcode = 0, opt_version = 0, opt_maxsize = 512, opt_data = []\<rparr>) =
       Some (P', None) \<and>
     dns_rr_parse rr0 12 P' = Some (rr, Some DNS_EILLEGAL)"
proof -
  obtain P where P: "dns_p_make 64 = Some P" "wf_packet P" "hd (p_dict P) = 0" "p_end P = 12" "p_size P = 64"
    "dns_p_count P DNS_S_AR = 0" "hd_qdcount P = 0"
    by (rule fresh_packet [of 64 DNS_S_AR]) auto
  from dns_opt_push_unreadable [OF P(2,3,7,6) names_labels_example] P show ?thesis
    by (auto simp: numeral_2_eq_2)
qed

end
