(* ===== verification/Crypto.thy ===== *)
theory Crypto
  imports Prelude
begin

section \<open>Crypto routines: permutation generator and 16-bit shuffle\<close>

text \<open>
  \<open>src/libs/async/src/dns/dns.c\<close>, sections PERMUTATION GENERATOR and \<open>dns_k_shuffle16\<close>.
  \<open>uint32_t\<close> and \<open>unsigned\<close> are 32-bit words, so every sum, shift and \<open>stepi++\<close> wraps as
  in the code; the random key words that \<open>dns_random\<close> supplies to \<open>dns_k_permutor_init\<close>
  are an argument.
\<close>

subsection \<open>TEA\<close>

record dns_k_tea =
  tea_key :: "u32 list"
  tea_cycles :: u32

definition DNS_K_TEA_CYCLES :: u32 where [c_defs]: "DNS_K_TEA_CYCLES = 32"
definition DNS_K_TEA_MAGIC :: u32 where [c_defs]: "DNS_K_TEA_MAGIC = 0x9E3779B9"

definition dns_k_tea_init :: "u32 list \<Rightarrow> u32 \<Rightarrow> dns_k_tea option" where
  "dns_k_tea_init key cycles = do {
     k \<leftarrow> rd_mem key 0 4;
     Some \<lparr>tea_key = k, tea_cycles = (if cycles \<noteq> 0 then cycles else DNS_K_TEA_CYCLES)\<rparr> }"

text \<open>The loop \<open>for (n = 0; n < tea->cycles; n++)\<close>; the first argument counts the rounds left.\<close>

fun dns_k_tea_rounds :: "nat \<Rightarrow> u32 list \<Rightarrow> u32 \<Rightarrow> u32 \<Rightarrow> u32 \<Rightarrow> u32 \<times> u32" where
  "dns_k_tea_rounds 0 key sm y z = (y, z)"
| "dns_k_tea_rounds (Suc n) key sm y z =
     (let sm' = sm + DNS_K_TEA_MAGIC;
          y' = y + ((push_bit 4 z + key ! 0) XOR (z + sm') XOR (drop_bit 5 z + key ! 1));
          z' = z + ((push_bit 4 y' + key ! 2) XOR (y' + sm') XOR (drop_bit 5 y' + key ! 3))
      in dns_k_tea_rounds n key sm' y' z')"

definition dns_k_tea_encrypt :: "dns_k_tea \<Rightarrow> u32 \<times> u32 \<Rightarrow> u32 \<times> u32" where
  "dns_k_tea_encrypt tea v =
     dns_k_tea_rounds (unat (tea_cycles tea)) (tea_key tea) 0 (fst v) (snd v)"

subsection \<open>The permutation generator\<close>

record dns_k_permutor =
  pk_stepi :: u32
  pk_length :: u32
  pk_limit :: u32
  pk_shift :: u32
  pk_mask :: u32
  pk_rounds :: u32
  pk_tea :: dns_k_tea

definition DNS_K_PERMUTOR_ROUNDS :: u32 where [c_defs]: "DNS_K_PERMUTOR_ROUNDS = 8"

definition dns_k_permutor_powof_step :: "u32 \<Rightarrow> u32 \<times> u32 \<Rightarrow> (u32 \<times> u32 + u32) option" where
  "dns_k_permutor_powof_step n = (\<lambda>(m, i).
     if m < n then Some (Inl (push_bit 1 m, i + 1)) else Some (Inr i))"

definition dns_k_permutor_powof :: "u32 \<Rightarrow> u32 option" where
  "dns_k_permutor_powof n = c_while (dns_k_permutor_powof_step n) (1, 0)"

definition dns_k_permutor_init :: "u32 \<Rightarrow> u32 \<Rightarrow> u32 list \<Rightarrow> dns_k_permutor option" where
  "dns_k_permutor_init low high key = do {
     let len = (high - low) + 1;
     width0 \<leftarrow> dns_k_permutor_powof len;
     let width = width0 + width0 mod 2;
     let shift = width div 2;
     let mask = push_bit (unat shift) 1 - 1;
     tea \<leftarrow> dns_k_tea_init key 0;
     Some \<lparr>pk_stepi = 0, pk_length = len, pk_limit = high, pk_shift = shift, pk_mask = mask,
           pk_rounds = DNS_K_PERMUTOR_ROUNDS, pk_tea = tea\<rparr> }"

definition dns_k_permutor_F :: "dns_k_permutor \<Rightarrow> u32 \<Rightarrow> u32 \<Rightarrow> u32" where
  "dns_k_permutor_F p k x = pk_mask p AND fst (dns_k_tea_encrypt (pk_tea p) (k, x))"

text \<open>
  \<open>dns_k_permutor_E\<close> and its inverse \<open>dns_k_permutor_D\<close> keep the two halves in the arrays
  \<open>l[2]\<close> and \<open>r[2]\<close>, indexed by the parity of the round counter; each is a
  \<open>do ... while\<close> loop.
\<close>

type_synonym halves = "u32 list \<times> u32 list \<times> u32"

definition par :: "u32 \<Rightarrow> nat" where "par i = unat (i mod 2)"

definition dns_k_permutor_pack :: "dns_k_permutor \<Rightarrow> u32 \<Rightarrow> u32 \<Rightarrow> u32" where
  "dns_k_permutor_pack p l r =
     push_bit (unat (pk_shift p)) (l AND pk_mask p) OR push_bit 0 (r AND pk_mask p)"

definition dns_k_permutor_E_step :: "dns_k_permutor \<Rightarrow> halves \<Rightarrow> (halves + halves) option" where
  "dns_k_permutor_E_step p = (\<lambda>(l, r, i).
     let l' = l[par (i + 1) := r ! par i];
         r' = r[par (i + 1) := l' ! par i XOR dns_k_permutor_F p i (r ! par i)];
         i' = i + 1
     in Some (if i' < pk_rounds p - 1 then Inl (l', r', i') else Inr (l', r', i')))"

definition dns_k_permutor_E :: "dns_k_permutor \<Rightarrow> u32 \<Rightarrow> u32 option" where
  "dns_k_permutor_E p n = do {
     let i = 0;
     let l = [pk_mask p AND drop_bit (unat (pk_shift p)) n, 0];
     let r = [pk_mask p AND drop_bit 0 n, 0];
     (l, r, i) \<leftarrow> c_while (dns_k_permutor_E_step p) (l, r, i);
     Some (dns_k_permutor_pack p (l ! par i) (r ! par i)) }"

definition dns_k_permutor_D_step :: "dns_k_permutor \<Rightarrow> halves \<Rightarrow> (halves + halves) option" where
  "dns_k_permutor_D_step p = (\<lambda>(l, r, i0).
     let i = i0 - 1;
         r' = r[par i := l ! par (i + 1)];
         l' = l[par i := r' ! par (i + 1) XOR dns_k_permutor_F p i (l ! par (i + 1))]
     in Some (if i > 0 then Inl (l', r', i) else Inr (l', r', i)))"

definition dns_k_permutor_D :: "dns_k_permutor \<Rightarrow> u32 \<Rightarrow> u32 option" where
  "dns_k_permutor_D p n = do {
     let i = pk_rounds p - 1;
     let l = [0, 0][par i := pk_mask p AND drop_bit (unat (pk_shift p)) n];
     let r = [0, 0][par i := pk_mask p AND drop_bit 0 n];
     (l, r, i) \<leftarrow> c_while (dns_k_permutor_D_step p) (l, r, i);
     Some (dns_k_permutor_pack p (l ! par i) (r ! par i)) }"

text \<open>\<open>do { n = E(p, p->stepi++); } while (n >= p->length)\<close>: the loop runs on \<open>stepi\<close>.\<close>

definition dns_k_permutor_step_step ::
    "dns_k_permutor \<Rightarrow> u32 \<Rightarrow> (u32 + u32 \<times> u32) option" where
  "dns_k_permutor_step_step p stepi = do {
     n \<leftarrow> dns_k_permutor_E p stepi;
     Some (if n \<ge> pk_length p then Inl (stepi + 1) else Inr (n, stepi + 1)) }"

definition dns_k_permutor_step :: "dns_k_permutor \<Rightarrow> (u32 \<times> dns_k_permutor) option" where
  "dns_k_permutor_step p = do {
     (n, stepi) \<leftarrow> c_while (dns_k_permutor_step_step p) (pk_stepi p);
     Some (n + (pk_limit p + 1 - pk_length p), p\<lparr>pk_stepi := stepi\<rparr>) }"

subsection \<open>The 16-bit shuffle\<close>

definition dns_k_sbox :: "byte list" where
  "dns_k_sbox =
    [0x63, 0x7c, 0x77, 0x7b, 0xf2, 0x6b, 0x6f, 0xc5, 0x30, 0x01, 0x67, 0x2b, 0xfe, 0xd7, 0xab, 0x76,
     0xca, 0x82, 0xc9, 0x7d, 0xfa, 0x59, 0x47, 0xf0, 0xad, 0xd4, 0xa2, 0xaf, 0x9c, 0xa4, 0x72, 0xc0,
     0xb7, 0xfd, 0x93, 0x26, 0x36, 0x3f, 0xf7, 0xcc, 0x34, 0xa5, 0xe5, 0xf1, 0x71, 0xd8, 0x31, 0x15,
     0x04, 0xc7, 0x23, 0xc3, 0x18, 0x96, 0x05, 0x9a, 0x07, 0x12, 0x80, 0xe2, 0xeb, 0x27, 0xb2, 0x75,
     0x09, 0x83, 0x2c, 0x1a, 0x1b, 0x6e, 0x5a, 0xa0, 0x52, 0x3b, 0xd6, 0xb3, 0x29, 0xe3, 0x2f, 0x84,
     0x53, 0xd1, 0x00, 0xed, 0x20, 0xfc, 0xb1, 0x5b, 0x6a, 0xcb, 0xbe, 0x39, 0x4a, 0x4c, 0x58, 0xcf,
     0xd0, 0xef, 0xaa, 0xfb, 0x43, 0x4d, 0x33, 0x85, 0x45, 0xf9, 0x02, 0x7f, 0x50, 0x3c, 0x9f, 0xa8,
     0x51, 0xa3, 0x40, 0x8f, 0x92, 0x9d, 0x38, 0xf5, 0xbc, 0xb6, 0xda, 0x21, 0x10, 0xff, 0xf3, 0xd2,
     0xcd, 0x0c, 0x13, 0xec, 0x5f, 0x97, 0x44, 0x17, 0xc4, 0xa7, 0x7e, 0x3d, 0x64, 0x5d, 0x19, 0x73,
     0x60, 0x81, 0x4f, 0xdc, 0x22, 0x2a, 0x90, 0x88, 0x46, 0xee, 0xb8, 0x14, 0xde, 0x5e, 0x0b, 0xdb,
     0xe0, 0x32, 0x3a, 0x0a, 0x49, 0x06, 0x24, 0x5c, 0xc2, 0xd3, 0xac, 0x62, 0x91, 0x95, 0xe4, 0x79,
     0xe7, 0xc8, 0x37, 0x6d, 0x8d, 0xd5, 0x4e, 0xa9, 0x6c, 0x56, 0xf4, 0xea, 0x65, 0x7a, 0xae, 0x08,
     0xba, 0x78, 0x25, 0x2e, 0x1c, 0xa6, 0xb4, 0xc6, 0xe8, 0xdd, 0x74, 0x1f, 0x4b, 0xbd, 0x8b, 0x8a,
     0x70, 0x3e, 0xb5, 0x66, 0x48, 0x03, 0xf6, 0x0e, 0x61, 0x35, 0x57, 0xb9, 0x86, 0xc1, 0x1d, 0x9e,
     0xe1, 0xf8, 0x98, 0x11, 0x69, 0xd9, 0x8e, 0x94, 0x9b, 0x1e, 0x87, 0xe9, 0xce, 0x55, 0x28, 0xdf,
     0x8c, 0xa1, 0x89, 0x0d, 0xbf, 0xe6, 0x42, 0x68, 0x41, 0x99, 0x2d, 0x0f, 0xb0, 0x54, 0xbb, 0x16]"

fun dns_k_shuffle16_loop :: "nat \<Rightarrow> byte \<Rightarrow> byte \<Rightarrow> u32 \<Rightarrow> byte \<times> byte" where
  "dns_k_shuffle16_loop 0 a b s = (a, b)"
| "dns_k_shuffle16_loop (Suc n) a b s =
     (let a' = a XOR ucast (255 AND s);
          a'' = dns_k_sbox ! unat a' XOR b;
          b' = dns_k_sbox ! unat b XOR a''
      in dns_k_shuffle16_loop n a'' b' (drop_bit 8 s))"

definition dns_k_shuffle16 :: "nat \<Rightarrow> u32 \<Rightarrow> nat" where
  "dns_k_shuffle16 n s =
     (let (a, b) = dns_k_shuffle16_loop 4 (byte_of (drop_bit 0 n)) (byte_of (drop_bit 8 n)) s
      in (65280 AND push_bit 8 (unat a)) OR (255 AND push_bit 0 (unat b)))"

subsection \<open>Feistel networks\<close>

text \<open>
  The interface between the cipher and its round function: all a Feistel network needs of
  \<open>F\<close> is that its values lie under the mask of a half block.
\<close>

locale feistel =
  fixes F :: "u32 \<Rightarrow> u32 \<Rightarrow> u32" and msk :: u32
  assumes F_masked: "msk AND F k x = F k x"
begin

fun rounds :: "nat \<Rightarrow> u32 \<times> u32 \<Rightarrow> u32 \<times> u32" where
  "rounds 0 h = h"
| "rounds (Suc k) h = (let (a, b) = rounds k h in (b, a XOR F (of_nat k) b))"

fun unrounds :: "nat \<Rightarrow> u32 \<times> u32 \<Rightarrow> u32 \<times> u32" where
  "unrounds 0 h = h"
| "unrounds (Suc k) (a, b) = unrounds k (b XOR F (of_nat k) a, a)"

definition masked :: "u32 \<times> u32 \<Rightarrow> bool" where
  "masked h \<longleftrightarrow> msk AND fst h = fst h \<and> msk AND snd h = snd h"

lemma xor_xor_cancel [simp]: "(a XOR b) XOR b = (a :: u32)"
  by (simp add: xor.assoc)

lemma unrounds_rounds: "unrounds k (rounds k h) = h"
proof (induction k arbitrary: h)
  case 0
  then show ?case by simp
next
  case (Suc k)
  obtain a b where ab: "rounds k h = (a, b)" by force
  show ?case using Suc [of h] by (simp add: ab)
qed

lemma rounds_unrounds: "rounds k (unrounds k h) = h"
proof (induction k arbitrary: h)
  case 0
  then show ?case by simp
next
  case (Suc k)
  obtain a b where h: "h = (a, b)" by force
  show ?case using Suc [of "(b XOR F (of_nat k) a, a)"] by (simp add: h)
qed

lemma masked_rounds: "masked h \<Longrightarrow> masked (rounds k h)"
  by (induction k) (auto simp: masked_def Let_def F_masked bit.conj_xor_distrib split: prod.split)

lemma masked_unrounds: "masked h \<Longrightarrow> masked (unrounds k h)"
proof (induction k arbitrary: h)
  case 0
  then show ?case by simp
next
  case (Suc k)
  obtain a b where h: "h = (a, b)" by force
  have "masked (b XOR F (of_nat k) a, a)"
    using Suc.prems by (simp add: h masked_def bit.conj_xor_distrib F_masked)
  from Suc.IH [OF this] show ?case by (simp add: h)
qed

lemma rounds_Suc:
  "rounds (Suc k) h =
     (snd (rounds k h), fst (rounds k h) XOR F (of_nat k) (snd (rounds k h)))"
  by (simp add: Let_def split: prod.split)

lemma unrounds_Suc:
  "unrounds (Suc k) h = unrounds k (snd h XOR F (of_nat k) (fst h), fst h)"
  by (cases h) simp

declare rounds.simps(2) [simp del] unrounds.simps(2) [simp del]

end

interpretation pk: feistel "dns_k_permutor_F p" "pk_mask p" for p
  by unfold_locales (simp add: dns_k_permutor_F_def)

definition wf_permutor :: "dns_k_permutor \<Rightarrow> bool" where
  "wf_permutor p \<longleftrightarrow>
     pk_shift p \<le> 16 \<and> pk_mask p = push_bit (unat (pk_shift p)) 1 - 1 \<and>
     pk_rounds p = 8 \<and> 0 < pk_length p \<and>
     unat (pk_length p) \<le> 2 ^ (2 * unat (pk_shift p))"

definition pk_block :: "dns_k_permutor \<Rightarrow> nat" where
  "pk_block p = 2 ^ (2 * unat (pk_shift p))"

definition pk_unpack :: "dns_k_permutor \<Rightarrow> u32 \<Rightarrow> u32 \<times> u32" where
  "pk_unpack p n = (pk_mask p AND drop_bit (unat (pk_shift p)) n, pk_mask p AND n)"

lemma par_cases: "par i = 0 \<and> par (i + 1) = 1 \<or> par i = 1 \<and> par (i + 1) = 0"
  by (auto simp: par_def mod_2_eq_odd)

lemma wf_permutor_mask:
  "wf_permutor p \<Longrightarrow> pk_mask p = mask (unat (pk_shift p)) \<and> unat (pk_shift p) \<le> 16"
  by (auto simp: wf_permutor_def mask_eq_decr_exp push_bit_eq_mult word_le_nat_alt)

lemma pack_unpack:
  assumes "wf_permutor p" and "unat n < pk_block p"
  shows "dns_k_permutor_pack p (fst (pk_unpack p n)) (snd (pk_unpack p n)) = n"
proof -
  define s where "s = unat (pk_shift p)"
  have m: "pk_mask p = mask s" and s: "s \<le> 16"
    using wf_permutor_mask [OF assms(1)] by (auto simp: s_def)
  have "take_bit (2 * s) n = n"
    using assms(2) by (simp add: pk_block_def s_def unat_less_exp_iff)
  then have "i < s + s" if "bit n i" for i
    using that by (metis bit_take_bit_iff mult_2)
  then show ?thesis
    unfolding dns_k_permutor_pack_def pk_unpack_def s_def [symmetric] m
    by (intro bit_word_eqI) (auto simp: bit_simps less_diff_conv2)
qed

lemma unpack_pack:
  assumes "wf_permutor p" and "pk.masked p (a, b)"
  shows "pk_unpack p (dns_k_permutor_pack p a b) = (a, b)"
proof -
  define s where "s = unat (pk_shift p)"
  have m: "pk_mask p = mask s" and s: "s \<le> 16"
    using wf_permutor_mask [OF assms(1)] by (auto simp: s_def)
  from assms(2) have "pk_mask p AND a = a \<and> pk_mask p AND b = b"
    by (simp add: pk.masked_def)
  then have a: "mask s AND a = a" and b: "mask s AND b = b"
    by (simp_all add: m)
  have "mask s AND drop_bit s (push_bit s (a AND mask s) OR push_bit 0 (b AND mask s)) = mask s AND a"
    using s by (intro bit_word_eqI) (auto simp: bit_simps)
  moreover have "mask s AND (push_bit s (a AND mask s) OR push_bit 0 (b AND mask s)) = mask s AND b"
    using s by (intro bit_word_eqI) (auto simp: bit_simps)
  ultimately show ?thesis
    unfolding dns_k_permutor_pack_def pk_unpack_def s_def [symmetric] m by (simp add: a b)
qed

lemma pack_less:
  assumes "wf_permutor p"
  shows "unat (dns_k_permutor_pack p a b) < pk_block p"
proof -
  define s where "s = unat (pk_shift p)"
  have m: "pk_mask p = mask s" and s: "s \<le> 16"
    using wf_permutor_mask [OF assms(1)] by (auto simp: s_def)
  have "take_bit (2 * s) (push_bit s (a AND mask s) OR push_bit 0 (b AND mask s)) =
      push_bit s (a AND mask s) OR push_bit 0 (b AND mask s)"
    by (intro bit_word_eqI) (auto simp: bit_simps)
  then have "unat (push_bit s (a AND mask s) OR push_bit 0 (b AND mask s)) < 2 ^ (2 * s)"
    by (simp only: unat_less_exp_iff)
  then show ?thesis
    unfolding dns_k_permutor_pack_def pk_block_def s_def [symmetric] m .
qed

lemma masked_unpack: "pk.masked p (pk_unpack p n)"
  by (simp add: pk.masked_def pk_unpack_def)


subsection \<open>Encryption and decryption\<close>

definition pk_at :: "halves \<Rightarrow> u32 \<times> u32" where
  "pk_at h = (case h of (l, r, i) \<Rightarrow> (l ! par i, r ! par i))"

definition pk_ok :: "halves \<Rightarrow> bool" where
  "pk_ok h = (case h of (l, r, i) \<Rightarrow> length l = 2 \<and> length r = 2)"

lemma E_step_at:
  assumes "pk_ok h" and "pk_rounds p = 8"
  obtains h' where "dns_k_permutor_E_step p h =
        Some (if snd (snd h) + 1 < 7 then Inl h' else Inr h')"
    and "pk_ok h'" and "snd (snd h') = snd (snd h) + 1"
    and "pk_at h' = (snd (pk_at h),
           fst (pk_at h) XOR dns_k_permutor_F p (snd (snd h)) (snd (pk_at h)))"
proof -
  obtain l r i where h: "h = (l, r, i)" by (metis prod.exhaust)
  with assms(1) have len: "length l = 2" "length r = 2" by (auto simp: pk_ok_def)
  define l' where "l' = l[par (i + 1) := r ! par i]"
  define r' where "r' = r[par (i + 1) := l' ! par i XOR dns_k_permutor_F p i (r ! par i)]"
  have ok: "pk_ok (l', r', i + 1)" by (simp add: pk_ok_def l'_def r'_def len)
  moreover have "pk_at (l', r', i + 1) = (snd (pk_at h),
           fst (pk_at h) XOR dns_k_permutor_F p (snd (snd h)) (snd (pk_at h)))"
    using par_cases [of i] len by (auto simp: pk_at_def h l'_def r'_def)
  moreover have "dns_k_permutor_E_step p h =
      Some (if snd (snd h) + 1 < 7 then Inl (l', r', i + 1) else Inr (l', r', i + 1))"
    by (simp add: dns_k_permutor_E_step_def h l'_def r'_def Let_def assms(2))
  ultimately show ?thesis using that by (simp add: h)
qed

lemma D_step_at:
  assumes "pk_ok h"
  obtains h' where "dns_k_permutor_D_step p h =
        Some (if snd (snd h) - 1 > 0 then Inl h' else Inr h')"
    and "pk_ok h'" and "snd (snd h') = snd (snd h) - 1"
    and "pk_at h' = (snd (pk_at h) XOR
           dns_k_permutor_F p (snd (snd h) - 1) (fst (pk_at h)), fst (pk_at h))"
proof -
  obtain l r j where h: "h = (l, r, j)" by (metis prod.exhaust)
  define i where "i = j - 1"
  have j: "j = i + 1" by (simp add: i_def)
  from h assms(1) have len: "length l = 2" "length r = 2" by (auto simp: pk_ok_def)
  define r' where "r' = r[par i := l ! par (i + 1)]"
  define l' where
    "l' = l[par i := r' ! par (i + 1) XOR dns_k_permutor_F p i (l ! par (i + 1))]"
  have ok: "pk_ok (l', r', i)" by (simp add: pk_ok_def l'_def r'_def len)
  moreover have "pk_at (l', r', i) = (snd (pk_at h) XOR
           dns_k_permutor_F p (snd (snd h) - 1) (fst (pk_at h)), fst (pk_at h))"
    using par_cases [of i] len by (auto simp: pk_at_def h l'_def r'_def j)
  moreover have "dns_k_permutor_D_step p h =
      Some (if snd (snd h) - 1 > 0 then Inl (l', r', i) else Inr (l', r', i))"
    by (simp add: dns_k_permutor_D_step_def h l'_def r'_def Let_def i_def)
  ultimately show ?thesis using that by (simp add: h i_def)
qed

lemma unat_inc7: "(i :: u32) < 7 \<Longrightarrow> unat (i + 1) = Suc (unat i)"
  by (auto simp: word_less_nat_alt unat_word_ariths)

lemma unat_dec:
  assumes "0 < (i :: u32)"
  shows "unat i = Suc (unat (i - 1))"
proof -
  from assms have "i \<noteq> 0" by auto
  moreover from this have "unat i \<noteq> 0" using unat_gt_0 [of i] by simp
  ultimately show ?thesis using unat_minus_one [of i] by simp
qed

interpretation pk_E: bounded_loop "dns_k_permutor_E_step p"
  "\<lambda>h. pk_rounds p = 8 \<and> pk_ok h \<and> snd (snd h) < 7 \<and>
       pk_at h = pk.rounds p (unat (snd (snd h))) h0"
  "\<lambda>h. 7 - unat (snd (snd h))"
  "\<lambda>h. pk_at h = pk.rounds p 7 h0"
  for p h0
proof (unfold_locales, goal_cases)
  case (1 s)
  then show ?case by (simp add: dns_k_permutor_E_step_def Let_def split: prod.splits)
next
  case (2 s s')
  then show ?case
    by (auto elim!: E_step_at [of s p] split: if_splits simp: unat_inc7 pk.rounds_Suc)
next
  case (3 s s')
  then show ?case
    by (auto elim!: E_step_at [of s p] split: if_splits simp: unat_inc7 word_less_nat_alt)
next
  case (4 s r)
  show ?case
  proof (cases "snd (snd s) + 1 < (7 :: u32)")
    case True
    with 4 show ?thesis by (auto elim!: E_step_at [of s p])
  next
    case False
    with 4 unat_inc7 [of "snd (snd s)"] have "Suc (unat (snd (snd s))) = 7"
      by (simp add: word_less_nat_alt)
    with pk.rounds_Suc [of p "unat (snd (snd s))" h0] have
      "pk.rounds p 7 h0 = (snd (pk_at s),
         fst (pk_at s) XOR dns_k_permutor_F p (snd (snd s)) (snd (pk_at s)))"
      using 4 by simp
    with False 4 show ?thesis by (auto elim!: E_step_at [of s p])
  qed
qed

interpretation pk_D: bounded_loop "dns_k_permutor_D_step p"
  "\<lambda>h. pk_ok h \<and> 0 < snd (snd h) \<and>
       pk.unrounds p (unat (snd (snd h))) (pk_at h) = h0"
  "\<lambda>h. unat (snd (snd h))"
  "\<lambda>h. pk_at h = h0"
  for p h0
proof (unfold_locales, goal_cases)
  case (1 s)
  then show ?case by (simp add: dns_k_permutor_D_step_def Let_def split: prod.splits)
next
  case (2 s s')
  then show ?case
    by (auto elim!: D_step_at [of s p] split: if_splits
        simp: unat_dec [of "snd (snd s)"] pk.unrounds_Suc word_greater_zero_iff)
next
  case (3 s s')
  then show ?case
    by (auto elim!: D_step_at [of s p] split: if_splits
        simp: unat_dec [of "snd (snd s)"] pk.unrounds_Suc word_greater_zero_iff)
next
  case (4 s r)
  then show ?case
    by (auto elim!: D_step_at [of s p] split: if_splits
        simp: unat_dec [of "snd (snd s)"] pk.unrounds_Suc word_greater_zero_iff)
qed


definition pk_enc :: "dns_k_permutor \<Rightarrow> u32 \<Rightarrow> u32" where
  "pk_enc p n = (let h = pk.rounds p 7 (pk_unpack p n)
     in dns_k_permutor_pack p (fst h) (snd h))"

definition pk_dec :: "dns_k_permutor \<Rightarrow> u32 \<Rightarrow> u32" where
  "pk_dec p n = (let h = pk.unrounds p 7 (pk_unpack p n)
     in dns_k_permutor_pack p (fst h) (snd h))"

lemma par_simps [simp]: "par 0 = 0" "par 7 = 1"
  by (simp_all add: par_def)

lemma dns_k_permutor_E_eq:
  assumes "wf_permutor p"
  shows "dns_k_permutor_E p n = Some (pk_enc p n)"
proof -
  let ?l = "[pk_mask p AND drop_bit (unat (pk_shift p)) n, 0]"
  let ?r = "[pk_mask p AND drop_bit 0 n, 0]"
  from assms have "pk_rounds p = 8" by (simp add: wf_permutor_def)
  then obtain h where "c_while (dns_k_permutor_E_step p) (?l, ?r, 0) = Some h"
    and "pk_at h = pk.rounds p 7 (pk_unpack p n)"
    using pk_E.returns [of p "(?l, ?r, 0)" "pk_unpack p n"]
    by (auto simp: pk_ok_def pk_at_def pk_unpack_def)
  then show ?thesis
    by (cases h) (simp add: dns_k_permutor_E_def pk_enc_def pk_at_def, metis fst_conv snd_conv)
qed

lemma dns_k_permutor_D_eq:
  assumes "wf_permutor p"
  shows "dns_k_permutor_D p n = Some (pk_dec p n)"
proof -
  let ?l = "[0, pk_mask p AND drop_bit (unat (pk_shift p)) n]"
  let ?r = "[0, pk_mask p AND drop_bit 0 n]"
  from assms have "pk_rounds p = 8" by (simp add: wf_permutor_def)
  moreover obtain h where "c_while (dns_k_permutor_D_step p) (?l, ?r, 7) = Some h"
    and "pk_at h = pk.unrounds p 7 (pk_unpack p n)"
    using pk_D.returns [of "(?l, ?r, 7)" p "pk.unrounds p 7 (pk_unpack p n)"]
    by (auto simp: pk_ok_def pk_at_def pk_unpack_def)
  ultimately show ?thesis
    by (cases h) (simp add: dns_k_permutor_D_def pk_dec_def pk_at_def, metis fst_conv snd_conv)
qed

lemma pk_enc_less: "wf_permutor p \<Longrightarrow> unat (pk_enc p n) < pk_block p"
  by (simp add: pk_enc_def pack_less Let_def)

lemma pk_dec_less: "wf_permutor p \<Longrightarrow> unat (pk_dec p n) < pk_block p"
  by (simp add: pk_dec_def pack_less Let_def)

lemma pk_dec_enc:
  assumes "wf_permutor p" and "unat n < pk_block p"
  shows "pk_dec p (pk_enc p n) = n"
proof -
  obtain a b where ab: "pk.rounds p 7 (pk_unpack p n) = (a, b)" by force
  have "pk.masked p (a, b)"
    using pk.masked_rounds [OF masked_unpack, of p 7 n] by (simp add: ab)
  then have "pk_unpack p (pk_enc p n) = (a, b)"
    by (simp add: pk_enc_def ab unpack_pack assms(1))
  with pk.unrounds_rounds [of p 7 "pk_unpack p n"] pack_unpack [OF assms] show ?thesis
    by (simp add: pk_dec_def ab)
qed

lemma pk_enc_dec:
  assumes "wf_permutor p" and "unat n < pk_block p"
  shows "pk_enc p (pk_dec p n) = n"
proof -
  obtain a b where ab: "pk.unrounds p 7 (pk_unpack p n) = (a, b)" by force
  have "pk.masked p (a, b)"
    using pk.masked_unrounds [OF masked_unpack, of p 7 n] by (simp add: ab)
  then have "pk_unpack p (pk_dec p n) = (a, b)"
    by (simp add: pk_dec_def ab unpack_pack assms(1))
  with pk.rounds_unrounds [of p 7 "pk_unpack p n"] pack_unpack [OF assms] show ?thesis
    by (simp add: pk_enc_def ab)
qed

subsection \<open>Initialisation\<close>

interpretation powof: bounded_loop "dns_k_permutor_powof_step n"
  "\<lambda>(m, i). unat n \<le> 2 ^ 31 \<and> unat i \<le> 31 \<and> unat m = 2 ^ unat i"
  "\<lambda>(m, i). 32 - unat i"
  "\<lambda>i. unat i \<le> 31 \<and> unat n \<le> 2 ^ unat i"
  for n
proof (unfold_locales, goal_cases)
  case (1 s)
  then show ?case by (auto simp: dns_k_permutor_powof_step_def split: prod.splits)
next
  case (2 s s')
  then obtain m i where s: "s = (m, i)" "m < n" "s' = (push_bit 1 m, i + 1)"
    by (auto simp: dns_k_permutor_powof_step_def split: prod.splits if_splits)
  with 2 have "(2::nat) ^ unat i < 2 ^ 31" by (simp add: word_less_nat_alt)
  then have i: "unat i < 31" by (rule power_less_imp_less_exp [rotated]) simp
  then have "(2::nat) ^ unat i \<le> 2 ^ 30" by (intro power_increasing) auto
  with 2 s i show ?case
    by (auto simp: unat_word_ariths push_bit_eq_mult)
next
  case (3 s s')
  then obtain m i where s: "s = (m, i)" "s' = (push_bit 1 m, i + 1)"
    by (auto simp: dns_k_permutor_powof_step_def split: prod.splits if_splits)
  with 3 have "unat i \<le> 31" by simp
  then show ?case using s by (auto simp: unat_word_ariths)
next
  case (4 s r)
  then show ?case
    by (auto simp: dns_k_permutor_powof_step_def word_less_nat_alt split: prod.splits if_splits)
qed


lemma dns_k_permutor_powof_returns:
  assumes "unat n \<le> 2 ^ 31"
  shows "\<exists>i. dns_k_permutor_powof n = Some i \<and> unat i \<le> 31 \<and> unat n \<le> 2 ^ unat i"
  unfolding dns_k_permutor_powof_def by (rule powof.returns) (use assms in simp)

lemma nat_width_even:
  "(a::nat) \<le> 31 \<Longrightarrow> (a + a mod 2) div 2 \<le> 16 \<and> a \<le> 2 * ((a + a mod 2) div 2)"
  by presburger

lemma width_even:
  assumes "unat (w :: u32) \<le> 31"
  shows "unat ((w + w mod 2) div 2) \<le> 16 \<and> unat w \<le> 2 * unat ((w + w mod 2) div 2)"
proof -
  have "unat (w + w mod 2) = unat w + unat w mod 2"
    using assms by (simp add: unat_word_ariths unat_mod_distrib)
  then have "unat ((w + w mod 2) div 2) = (unat w + unat w mod 2) div 2"
    by (simp add: unat_div_distrib)
  with nat_width_even [OF assms] show ?thesis by simp
qed

lemma dns_k_permutor_init_wf:
  assumes "low \<le> high" and "unat high - unat low < 2 ^ 31" and "4 \<le> length key"
  shows "\<exists>p. dns_k_permutor_init low high key = Some p \<and> wf_permutor p \<and>
     pk_stepi p = 0 \<and> pk_length p = high - low + 1 \<and> pk_limit p = high"
proof -
  define n where "n = high - low + 1"
  have n: "unat n = unat high - unat low + 1"
    using assms(1,2) by (auto simp: n_def unat_word_ariths unat_sub word_le_nat_alt)
  obtain w where w: "dns_k_permutor_powof n = Some w" "unat w \<le> 31" "unat n \<le> 2 ^ unat w"
    using dns_k_permutor_powof_returns [of n] assms(2) n by auto
  define sh where "sh = (w + w mod 2) div 2"
  have sh: "unat sh \<le> 16" "unat w \<le> 2 * unat sh"
    using width_even [OF w(2)] by (auto simp: sh_def)
  have "unat n \<le> 2 ^ (2 * unat sh)"
    using w(3) sh(2) by (meson le_trans one_le_numeral power_increasing)
  moreover have "0 < n" using n by (auto simp: word_less_nat_alt)
  ultimately show ?thesis
    using w(1) sh(1) assms(3)
    by (auto simp: dns_k_permutor_init_def dns_k_tea_init_def wf_permutor_def sh_def n_def
        Let_def DNS_K_PERMUTOR_ROUNDS_def word_le_nat_alt)
qed


subsection \<open>The sequence of generated numbers\<close>

text \<open>
  \<open>pk_left p s\<close> is what the generator still has to produce when \<open>stepi\<close> has reached \<open>s\<close>:
  the cipher texts below \<open>length\<close> of the block's remaining plain texts, in order.
\<close>

definition pk_left :: "dns_k_permutor \<Rightarrow> nat \<Rightarrow> u32 list" where
  "pk_left p s = filter (\<lambda>c. c < pk_length p) (map (\<lambda>k. pk_enc p (of_nat k)) [s..<pk_block p])"

definition pk_value :: "dns_k_permutor \<Rightarrow> u32 \<Rightarrow> u32" where
  "pk_value p c = c + (pk_limit p + 1 - pk_length p)"

fun pk_outputs :: "nat \<Rightarrow> dns_k_permutor \<Rightarrow> u32 list option" where
  "pk_outputs 0 p = Some []"
| "pk_outputs (Suc n) p = do {
     (x, p') \<leftarrow> dns_k_permutor_step p;
     xs \<leftarrow> pk_outputs n p';
     Some (x # xs) }"

lemma pk_upd_stepi [simp]:
  "wf_permutor (p\<lparr>pk_stepi := s\<rparr>) = wf_permutor p"
  "pk_enc (p\<lparr>pk_stepi := s\<rparr>) n = pk_enc p n"
  "pk_block (p\<lparr>pk_stepi := s\<rparr>) = pk_block p"
  "pk_left (p\<lparr>pk_stepi := s\<rparr>) m = pk_left p m"
  "pk_value (p\<lparr>pk_stepi := s\<rparr>) = pk_value p"
proof -
  have F: "dns_k_permutor_F (p\<lparr>pk_stepi := s\<rparr>) = dns_k_permutor_F p"
    by (simp add: dns_k_permutor_F_def fun_eq_iff)
  show "wf_permutor (p\<lparr>pk_stepi := s\<rparr>) = wf_permutor p" by (simp add: wf_permutor_def)
  show E: "pk_enc (p\<lparr>pk_stepi := s\<rparr>) n = pk_enc p n" for n
    by (simp add: pk_enc_def F pk_unpack_def dns_k_permutor_pack_def)
  show "pk_block (p\<lparr>pk_stepi := s\<rparr>) = pk_block p" by (simp add: pk_block_def)
  then show "pk_left (p\<lparr>pk_stepi := s\<rparr>) m = pk_left p m" by (simp add: pk_left_def E)
  show "pk_value (p\<lparr>pk_stepi := s\<rparr>) = pk_value p" by (simp add: pk_value_def fun_eq_iff)
qed

lemma pk_left_rec:
  "s < pk_block p \<Longrightarrow> pk_left p s =
     (if pk_enc p (of_nat s) < pk_length p then [pk_enc p (of_nat s)] else []) @ pk_left p (Suc s)"
  by (simp add: pk_left_def upt_conv_Cons)

lemma step_step_left:
  assumes "wf_permutor p" and "pk_left p s = c # cs" and "s \<le> pk_block p"
  shows "\<exists>s'. c_while (dns_k_permutor_step_step p) (of_nat s) = Some (c, of_nat s') \<and>
     pk_left p s' = cs \<and> s' \<le> pk_block p"
  using assms(2,3)
proof (induction "pk_block p - s" arbitrary: s)
  case 0
  then show ?case by (simp add: pk_left_def)
next
  case (Suc d)
  then have s: "s < pk_block p" by simp
  let ?n = "pk_enc p (of_nat s)"
  have E: "dns_k_permutor_E p (of_nat s) = Some ?n" by (rule dns_k_permutor_E_eq [OF assms(1)])
  show ?case
  proof (cases "?n < pk_length p")
    case True
    then have "c = ?n" "cs = pk_left p (Suc s)" using Suc.prems pk_left_rec [OF s] by auto
    moreover have "c_while (dns_k_permutor_step_step p) (of_nat s) = Some (?n, of_nat (Suc s))"
      using True by (intro c_while_stop) (simp add: dns_k_permutor_step_step_def E ac_simps)
    ultimately show ?thesis using s by (auto intro!: exI [of _ "Suc s"])
  next
    case False
    then have "pk_left p (Suc s) = c # cs" using Suc.prems pk_left_rec [OF s] by simp
    moreover have "c_while (dns_k_permutor_step_step p) (of_nat s) =
        c_while (dns_k_permutor_step_step p) (of_nat (Suc s))"
      using False by (intro c_while_next) (simp add: dns_k_permutor_step_step_def E ac_simps)
    ultimately show ?thesis using Suc.hyps(1) [of "Suc s"] Suc.hyps(2) s by simp
  qed
qed

lemma pk_outputs_left:
  assumes "wf_permutor p" and "pk_stepi p = of_nat s" and "s \<le> pk_block p"
    and "n \<le> length (pk_left p s)"
  shows "pk_outputs n p = Some (map (pk_value p) (take n (pk_left p s)))"
  using assms
proof (induction n arbitrary: p s)
  case 0
  then show ?case by simp
next
  case (Suc n)
  then obtain c cs where cs: "pk_left p s = c # cs" by (cases "pk_left p s") auto
  from step_step_left [OF Suc.prems(1) cs Suc.prems(3)] obtain s' where s':
    "c_while (dns_k_permutor_step_step p) (of_nat s) = Some (c, of_nat s')"
    "pk_left p s' = cs" "s' \<le> pk_block p" by auto
  have "dns_k_permutor_step p = Some (pk_value p c, p\<lparr>pk_stepi := of_nat s'\<rparr>)"
    by (simp add: dns_k_permutor_step_def Suc.prems(2) s'(1) pk_value_def)
  moreover have "pk_outputs n (p\<lparr>pk_stepi := of_nat s'\<rparr>) = Some (map (pk_value p) (take n cs))"
    using Suc.IH [of "p\<lparr>pk_stepi := of_nat s'\<rparr>" s'] Suc.prems s' cs by simp
  ultimately show ?case by (simp add: cs)
qed


lemma unat_u32_less: "unat (w :: u32) < 4294967296"
  using unsigned_less [of w] by simp

lemma unat_of_nat_u32: "k < 4294967296 \<Longrightarrow> unat (of_nat k :: u32) = k"
  by (simp add: unat_of_nat)

lemma pk_block_le: "wf_permutor p \<Longrightarrow> pk_block p \<le> 2 ^ 32"
proof -
  assume "wf_permutor p"
  then have "2 * unat (pk_shift p) \<le> 32"
    using wf_permutor_mask by fastforce
  then show ?thesis unfolding pk_block_def by (intro power_increasing) auto
qed

lemma unat_of_nat_block:
  "wf_permutor p \<Longrightarrow> k < pk_block p \<Longrightarrow> unat (of_nat k :: u32) = k"
  using pk_block_le [of p] by (intro unat_of_nat_u32) simp

lemma distinct_pk_left: "wf_permutor p \<Longrightarrow> distinct (pk_left p 0)"
proof -
  assume wf: "wf_permutor p"
  have "inj_on (\<lambda>k. pk_enc p (of_nat k)) (set [0..<pk_block p])"
  proof (rule inj_onI)
    fix j k assume jk: "j \<in> set [0..<pk_block p]" "k \<in> set [0..<pk_block p]"
      "pk_enc p (of_nat j) = pk_enc p (of_nat k)"
    then have "(of_nat j :: u32) = of_nat k"
      using pk_dec_enc [OF wf] unat_of_nat_block [OF wf] by (metis atLeastLessThan_iff set_upt)
    then show "j = k" using jk unat_of_nat_block [OF wf] by (metis atLeastLessThan_iff set_upt)
  qed
  then show ?thesis by (simp add: pk_left_def distinct_map)
qed

lemma set_pk_left:
  assumes wf: "wf_permutor p"
  shows "set (pk_left p 0) = {c. c < pk_length p}"
proof (intro set_eqI iffI)
  fix c assume "c \<in> {c. c < pk_length p}"
  then have c: "c < pk_length p" by simp
  then have b: "unat c < pk_block p"
    using wf by (auto simp: wf_permutor_def pk_block_def word_less_nat_alt)
  have "unat (pk_dec p c) < pk_block p" by (rule pk_dec_less [OF wf])
  moreover have "pk_enc p (of_nat (unat (pk_dec p c))) = c" by (simp add: pk_enc_dec [OF wf b])
  ultimately show "c \<in> set (pk_left p 0)"
    using c by (force simp: pk_left_def)
qed (auto simp: pk_left_def)

lemma length_pk_left: "wf_permutor p \<Longrightarrow> length (pk_left p 0) = unat (pk_length p)"
proof -
  assume wf: "wf_permutor p"
  have "length (pk_left p 0) = card {c. c < pk_length p}"
    using distinct_card [OF distinct_pk_left [OF wf]] by (simp add: set_pk_left [OF wf])
  also have "{c. c < pk_length p} = of_nat ` {0..<unat (pk_length p)}" (is "_ = ?R")
  proof (intro set_eqI iffI)
    fix c assume "c \<in> {c. c < pk_length p}"
    then have "unat c \<in> {0..<unat (pk_length p)}" by (simp add: word_less_nat_alt)
    then have "of_nat (unat c) \<in> ?R" by (rule imageI)
    then show "c \<in> ?R" by simp
  next
    fix c assume "c \<in> ?R"
    then obtain k where k: "k < unat (pk_length p)" "c = of_nat k" by auto
    then have "unat c = k"
      using unat_u32_less [of "pk_length p"] by (simp add: unat_of_nat_u32)
    with k show "c \<in> {c. c < pk_length p}" by (simp add: word_less_nat_alt)
  qed
  also have "card \<dots> = unat (pk_length p)"
  proof (subst card_image)
    show "inj_on (of_nat :: nat \<Rightarrow> u32) {0..<unat (pk_length p)}"
    proof (rule inj_onI)
      fix j k assume "j \<in> {0..<unat (pk_length p)}" "k \<in> {0..<unat (pk_length p)}"
        and eq: "(of_nat j :: u32) = of_nat k"
      then have "j < 4294967296" "k < 4294967296"
        using unat_u32_less [of "pk_length p"] by auto
      then show "j = k" using eq unat_of_nat_u32 by metis
    qed
  qed simp
  finally show ?thesis .
qed

lemma pk_full_cycle:
  assumes "wf_permutor p" and "pk_stepi p = 0"
  shows "\<exists>xs. pk_outputs (unat (pk_length p)) p = Some xs \<and> distinct xs \<and>
     set xs = pk_value p ` {c. c < pk_length p}"
proof -
  have "pk_outputs (unat (pk_length p)) p = Some (map (pk_value p) (pk_left p 0))"
    using pk_outputs_left [OF assms(1), of 0 "unat (pk_length p)"] assms
    by (simp add: length_pk_left)
  moreover have "distinct (map (pk_value p) (pk_left p 0))"
    by (simp add: distinct_map distinct_pk_left [OF assms(1)] inj_on_def pk_value_def)
  ultimately show ?thesis by (simp add: set_pk_left [OF assms(1)])
qed

lemma pk_value_range:
  assumes "low \<le> high" and "pk_length p = high - low + 1" and "pk_limit p = high"
    and "unat high - unat low < 2 ^ 31"
  shows "pk_value p ` {c. c < pk_length p} = {low..high}"
proof -
  have v: "pk_value p c = c + low" for c using assms(2,3) by (simp add: pk_value_def)
  have n: "unat (pk_length p) = unat high - unat low + 1"
    using assms by (auto simp: unat_word_ariths unat_sub word_le_nat_alt)
  show ?thesis
  proof (intro set_eqI iffI)
    fix x assume "x \<in> pk_value p ` {c. c < pk_length p}"
    then obtain c where c: "unat c < unat high - unat low + 1" "x = c + low"
      by (auto simp: v word_less_nat_alt n)
    have "unat c + unat low < 2 ^ 32"
      using c(1) assms(1) unat_u32_less [of high] by (simp add: word_le_nat_alt)
    with c assms(1) show "x \<in> {low..high}"
      by (auto simp: word_le_nat_alt unat_word_ariths)
  next
    fix x assume x: "x \<in> {low..high}"
    then have "x - low < pk_length p"
      by (auto simp: word_less_nat_alt n word_le_nat_alt unat_sub)
    then show "x \<in> pk_value p ` {c. c < pk_length p}"
      by (auto simp: v intro!: image_eqI [where x = "x - low"])
  qed
qed

text \<open>C5: after \<open>dns_k_permutor_init low high\<close>, the next \<open>high - low + 1\<close> numbers the
  generator steps out are pairwise distinct and are exactly the numbers from \<open>low\<close> to
  \<open>high\<close>, whatever key the random source supplied: a query id is not reused before every
  other id has been.\<close>

theorem dns_k_permutor_full_cycle:
  assumes "low \<le> high" and "unat high - unat low < 2 ^ 31" and "4 \<le> length key"
  shows "\<exists>p xs. dns_k_permutor_init low high key = Some p \<and>
     pk_outputs (unat high - unat low + 1) p = Some xs \<and>
     distinct xs \<and> set xs = {low..high}"
proof -
  obtain p where p: "dns_k_permutor_init low high key = Some p" "wf_permutor p"
    "pk_stepi p = 0" "pk_length p = high - low + 1" "pk_limit p = high"
    using dns_k_permutor_init_wf [OF assms] by auto
  have "unat (pk_length p) = unat high - unat low + 1"
    using assms p(4) by (auto simp: unat_word_ariths unat_sub word_le_nat_alt)
  with pk_full_cycle [OF p(2,3)] pk_value_range [OF assms(1) p(4,5) assms(2)] p(1)
  show ?thesis by auto
qed

subsection \<open>The shuffle is a permutation\<close>

lemma dns_k_sbox_sorted: "sort (map uint dns_k_sbox) = [0..255]"
  by code_simp

lemma dns_k_sbox_length: "length dns_k_sbox = 256"
proof -
  have "length (sort (map uint dns_k_sbox)) = length [0..255::int]"
    by (simp only: dns_k_sbox_sorted)
  then show ?thesis by simp
qed

lemma dns_k_sbox_inj:
  assumes "dns_k_sbox ! unat (a :: byte) = dns_k_sbox ! unat (b :: byte)"
  shows "a = b"
proof -
  have "distinct (sort (map uint dns_k_sbox))" by (simp only: dns_k_sbox_sorted distinct_upto)
  then have "distinct dns_k_sbox" by (simp add: distinct_map)
  with assms have "unat a = unat b"
    using nth_eq_iff_index_eq [of dns_k_sbox "unat a" "unat b"] by (simp add: dns_k_sbox_length)
  then show ?thesis by (simp add: word_unat_eq_iff)
qed

lemma xor_cancel_right [simp]: "(a XOR c = b XOR c) \<longleftrightarrow> a = (b :: 'a::len word)"
  by (metis xor.assoc xor_self_eq xor.right_neutral)

lemma dns_k_shuffle16_loop_inj:
  "dns_k_shuffle16_loop n a b s = dns_k_shuffle16_loop n a' b' s \<Longrightarrow> a = a' \<and> b = b'"
proof (induction n arbitrary: a b a' b' s)
  case 0
  then show ?case by simp
next
  case (Suc n)
  let ?A = "\<lambda>a b. dns_k_sbox ! unat (a XOR ucast (255 AND s)) XOR b"
  have "?A a b = ?A a' b' \<and> dns_k_sbox ! unat b XOR ?A a b = dns_k_sbox ! unat b' XOR ?A a' b'"
    using Suc.prems by (intro Suc.IH [of _ _ "drop_bit 8 s"]) (simp add: Let_def)
  then have ab: "?A a b = ?A a' b'" and "dns_k_sbox ! unat b = dns_k_sbox ! unat b'"
    by auto
  then have b: "b = b'" by (blast dest: dns_k_sbox_inj)
  with ab have "dns_k_sbox ! unat (a XOR ucast (255 AND s)) = dns_k_sbox ! unat (a' XOR ucast (255 AND s))"
    by simp
  then have "a XOR ucast (255 AND s) = a' XOR ucast (255 AND s)" by (rule dns_k_sbox_inj)
  with b show ?case by simp
qed

lemma shuffle16_pack: "(65280 AND push_bit 8 (unat a)) OR (255 AND unat b) = be16 a b"
proof -
  have "65280 AND push_bit 8 (unat a) = push_bit 8 (255 AND unat a)"
    by (simp add: push_bit_and push_bit_of_nat)
  then show ?thesis by (simp add: be16_def)
qed

lemma dns_k_shuffle16_be16:
  "dns_k_shuffle16_loop 4 (byte_of n) (byte_of (drop_bit 8 n)) s = (a, b) \<Longrightarrow>
   dns_k_shuffle16 n s = be16 a b"
  by (simp add: dns_k_shuffle16_def shuffle16_pack)

lemma dns_k_shuffle16_less: "dns_k_shuffle16 n s < 65536"
  using dns_k_shuffle16_be16 [of n s]
  by (cases "dns_k_shuffle16_loop 4 (byte_of n) (byte_of (drop_bit 8 n)) s") auto

lemma dns_k_shuffle16_inj:
  assumes "dns_k_shuffle16 m s = dns_k_shuffle16 n s" and "m < 65536" and "n < 65536"
  shows "m = n"
proof -
  obtain a b where m: "dns_k_shuffle16_loop 4 (byte_of m) (byte_of (drop_bit 8 m)) s = (a, b)"
    by force
  obtain c d where n: "dns_k_shuffle16_loop 4 (byte_of n) (byte_of (drop_bit 8 n)) s = (c, d)"
    by force
  have "a = c \<and> b = d"
    using assms(1) by (simp add: dns_k_shuffle16_be16 [OF m] dns_k_shuffle16_be16 [OF n] be16_inj)
  with m n have "byte_of m = byte_of n \<and> byte_of (drop_bit 8 m) = byte_of (drop_bit 8 n)"
    by (intro dns_k_shuffle16_loop_inj [where n = 4 and s = s]) simp
  then have "be16 (byte_of (drop_bit 8 m)) (byte_of m) = be16 (byte_of (drop_bit 8 n)) (byte_of n)"
    by simp
  with assms(2,3) show ?thesis by (simp add: be16_bytes)
qed

text \<open>C35: \<open>dns_k_permutor_D\<close> inverts \<open>dns_k_permutor_E\<close> on every block of an initialised
  permutor; both return, and the cipher text is again a block.\<close>

theorem dns_k_permutor_roundtrip:
  assumes "low \<le> high" and "unat high - unat low < 2 ^ 31" and "4 \<le> length key"
    and "dns_k_permutor_init low high key = Some p" and "unat n < pk_block p"
  shows "\<exists>c. dns_k_permutor_E p n = Some c \<and> unat c < pk_block p \<and> dns_k_permutor_D p c = Some n"
proof -
  have wf: "wf_permutor p" using dns_k_permutor_init_wf [OF assms(1-3)] assms(4) by auto
  show ?thesis
    using pk_dec_enc [OF wf assms(5)] pk_enc_less [OF wf]
    by (simp add: dns_k_permutor_E_eq [OF wf] dns_k_permutor_D_eq [OF wf])
qed

theorem dns_k_permutor_roundtrip_witness:
  "\<exists>p c. dns_k_permutor_init 1 9 [1, 2, 3, 4] = Some p \<and>
     dns_k_permutor_E p 5 = Some c \<and> dns_k_permutor_D p c = Some 5"
proof -
  obtain p where p: "dns_k_permutor_init 1 9 [1, 2, 3, 4] = Some p"
    using dns_k_permutor_init_wf [of 1 9 "[1,2,3,4]"] by auto
  have wf: "wf_permutor p \<and> pk_length p = 9" using dns_k_permutor_init_wf [of 1 9 "[1,2,3,4]"] p by auto
  then have "9 \<le> pk_block p" by (auto simp: wf_permutor_def pk_block_def)
  with dns_k_permutor_roundtrip [of 1 9 "[1,2,3,4]" p 5] p show ?thesis by auto
qed

theorem dns_k_permutor_full_cycle_witness:
  "\<exists>p xs. dns_k_permutor_init 1 65535 [1, 2, 3, 4] = Some p \<and>
     pk_outputs 65535 p = Some xs \<and> distinct xs \<and> set xs = {1..65535}"
  using dns_k_permutor_full_cycle [of 1 65535 "[1,2,3,4]"] by simp

text \<open>C36: for every round word \<open>s\<close>, \<open>dns_k_shuffle16\<close> permutes the 16-bit numbers: no two
  inputs collide, and every number is the shuffle of one.\<close>

theorem dns_k_shuffle16_bijective:
  "bij_betw (\<lambda>n. dns_k_shuffle16 n s) {..<65536} {..<65536}"
proof -
  have inj: "inj_on (\<lambda>n. dns_k_shuffle16 n s) {..<65536}"
    by (rule inj_onI) (simp add: dns_k_shuffle16_inj [of _ s])
  moreover have "(\<lambda>n. dns_k_shuffle16 n s) ` {..<65536} \<subseteq> {..<65536}"
    by (rule image_subsetI) (simp add: dns_k_shuffle16_less)
  ultimately have "(\<lambda>n. dns_k_shuffle16 n s) ` {..<65536} = {..<65536}"
    by (intro endo_inj_surj finite_lessThan)
  with inj show ?thesis by (rule bij_betw_imageI)
qed

end
