(* ===== verification/Iter.thy ===== *)
theory Iter
  imports Push Crypto
begin

section \<open>Comparing, matching and enumerating records\<close>

text \<open>
  \<open>dns_rr_cmp\<close>, the iterators \<open>dns_rr_i_*\<close> and \<open>dns_rr_grep\<close>, and what is written with
  them: \<open>dns_rr_exists\<close>, \<open>dns_d_cname\<close>, \<open>dns_p_merge\<close>.

  \<open>dns_rr_cmp\<close> and \<open>dns_rr_i_match\<close> parse into a \<open>union dns_any\<close> on the stack that nothing
  initialises; its contents are the argument \<open>junk\<close>. \<open>dns_rr_i_shuffle\<close> draws its key from
  \<open>dns_random\<close> until it is not zero; that key is the argument \<open>rnd\<close>.
\<close>

definition dns_rr_cmp ::
    "dns_any \<Rightarrow> dns_rr \<Rightarrow> dns_packet \<Rightarrow> dns_rr \<Rightarrow> dns_packet \<Rightarrow> int option" where
  "dns_rr_cmp junk r0 P0 r1 P1 =
     (if rr_type r0 \<noteq> rr_type r1 then Some (int (rr_type r0) - int (rr_type r1))
      else if rr_klass r0 \<noteq> rr_klass r1 then Some (int (rr_klass r0) - int (rr_klass r1))
      else do {
        h0 \<leftarrow> expand_host (rr_dn_p r0) P0;
        (case h0 of
           Inl _ \<Rightarrow> Some (-1)
         | Inr host0 \<Rightarrow> do {
        h1 \<leftarrow> expand_host (rr_dn_p r1) P1;
        (case h1 of
           Inl _ \<Rightarrow> Some 1
         | Inr host1 \<Rightarrow> do {
        cmp \<leftarrow> c_strcasecmp host0 host1;
        if cmp \<noteq> 0 then Some cmp
        else if DNS_S_QD AND (rr_section r0 OR rr_section r1) \<noteq> 0 then
          Some (if rr_section r0 = rr_section r1 then 0
                else if rr_section r0 = DNS_S_QD then -1 else 1)
        else do {
          a0 \<leftarrow> dns_any_parse junk r0 P0;
          (case a0 of
             Inl _ \<Rightarrow> Some (-1)
           | Inr any0 \<Rightarrow> do {
          a1 \<leftarrow> dns_any_parse junk r1 P1;
          (case a1 of
             Inl _ \<Rightarrow> Some 1
           | Inr any1 \<Rightarrow> dns_any_cmp any0 (rr_type r0) any1 (rr_type r1)) }) } }) }) })"

subsection \<open>Iterators\<close>

record dns_rr_i_state =
  s_next :: nat
  s_count :: nat
  s_exec :: nat
  s_reg0 :: u32

text \<open>The comparison functions of this file, and a caller's, which works on the state of the
  iterator and may take a random number; its \<open>args[0]\<close> is part of the function.\<close>

datatype rr_sort =
    Sort_packet | Sort_order | Sort_shuffle
  | Sort_fn "u32 \<Rightarrow> dns_rr \<Rightarrow> dns_rr \<Rightarrow> dns_rr_i_state \<Rightarrow> dns_packet \<Rightarrow> (int \<times> dns_rr_i_state) option"

record dns_rr_i =
  i_section :: nat
  i_name :: "bytes option"
  i_type :: nat
  i_klass :: nat
  i_data :: "dns_any option"
  i_sort :: "rr_sort option"
  i_state :: dns_rr_i_state
  i_saved :: dns_rr_i_state

definition i_state0 :: dns_rr_i_state where
  "i_state0 = \<lparr>s_next = 0, s_count = 0, s_exec = 0, s_reg0 = 0\<rparr>"

text \<open>The iterator \<open>memset\<close> leaves, on which callers set the fields they select by.\<close>

definition rr_i0 :: dns_rr_i where
  "rr_i0 = \<lparr>i_section = 0, i_name = None, i_type = 0, i_klass = 0, i_data = None, i_sort = None,
            i_state = i_state0, i_saved = i_state0\<rparr>"

definition dns_rr_i_init :: "dns_rr_i \<Rightarrow> dns_rr_i" where
  "dns_rr_i_init i = i\<lparr>i_state := i_state0, i_saved := i_state0\<rparr>"

definition dns_rr_i_save :: "dns_rr_i \<Rightarrow> dns_rr_i" where
  "dns_rr_i_save i = i\<lparr>i_saved := i_state i\<rparr>"

definition dns_rr_i_rewind :: "dns_rr_i \<Rightarrow> dns_rr_i" where
  "dns_rr_i_rewind i = i\<lparr>i_state := i_saved i\<rparr>"

definition dns_rr_i_match ::
    "dns_any \<Rightarrow> dns_rr \<Rightarrow> dns_rr_i \<Rightarrow> dns_packet \<Rightarrow> bool option" where
  "dns_rr_i_match junk rr i P =
     (if i_section i \<noteq> 0 \<and> rr_section rr AND i_section i = 0 then Some False
      else if i_type i \<noteq> 0 \<and> rr_type rr \<noteq> i_type i \<and> i_type i \<noteq> DNS_T_ALL then Some False
      else if i_klass i \<noteq> 0 \<and> rr_klass rr \<noteq> i_klass i \<and> i_klass i \<noteq> DNS_C_ANY then Some False
      else do {
        named \<leftarrow> (case i_name i of
            None \<Rightarrow> Some True
          | Some name \<Rightarrow> do {
              h \<leftarrow> expand_host (rr_dn_p rr) P;
              (case h of
                 Inl _ \<Rightarrow> Some False
               | Inr dn \<Rightarrow> do { c \<leftarrow> c_strcasecmp dn name; Some (c = 0) }) });
        if \<not> named then Some False
        else (case i_data i of
            None \<Rightarrow> Some True
          | Some data \<Rightarrow>
              (if i_type i \<noteq> 0 \<and> rr_section rr > DNS_S_QD then do {
                 r \<leftarrow> dns_any_parse junk rr P;
                 (case r of
                    Inl _ \<Rightarrow> Some False
                  | Inr any \<Rightarrow> do {
                      c \<leftarrow> dns_any_cmp any (rr_type rr) data (i_type i);
                      Some (c = 0) }) }
               else Some True)) })"

definition dns_rr_i_packet :: "dns_rr \<Rightarrow> dns_rr \<Rightarrow> int" where
  "dns_rr_i_packet a b = int (rr_dn_p a) - int (rr_dn_p b)"

definition dns_rr_i_order :: "dns_any \<Rightarrow> dns_rr \<Rightarrow> dns_rr \<Rightarrow> dns_packet \<Rightarrow> int option" where
  "dns_rr_i_order junk a b P =
     (if rr_section a \<noteq> rr_section b then Some (int (rr_section a) - int (rr_section b))
      else if rr_type a \<noteq> rr_type b then Some (int (rr_dn_p a) - int (rr_dn_p b))
      else dns_rr_cmp junk a P b P)"

definition dns_rr_i_shuffle :: "u32 \<Rightarrow> dns_rr \<Rightarrow> dns_rr \<Rightarrow> dns_rr_i \<Rightarrow> int \<times> dns_rr_i" where
  "dns_rr_i_shuffle rnd a b i =
     (let key = (if s_reg0 (i_state i) = 0 then rnd else s_reg0 (i_state i));
          i = i\<lparr>i_state := (i_state i)\<lparr>s_reg0 := key\<rparr>\<rparr> in
      (if rr_section a \<noteq> rr_section b then int (rr_section a) - int (rr_section b)
       else int (dns_k_shuffle16 (rr_dn_p a) key) - int (dns_k_shuffle16 (rr_dn_p b) key), i))"

text \<open>The call through \<open>i->sort\<close>, which \<open>dns_rr_grep\<close> has set.\<close>

definition rr_i_sort ::
    "dns_any \<Rightarrow> u32 \<Rightarrow> dns_rr \<Rightarrow> dns_rr \<Rightarrow> dns_rr_i \<Rightarrow> dns_packet \<Rightarrow> (int \<times> dns_rr_i) option" where
  "rr_i_sort junk rnd a b i P =
     (case i_sort i of
        None \<Rightarrow> None
      | Some Sort_packet \<Rightarrow> Some (dns_rr_i_packet a b, i)
      | Some Sort_order \<Rightarrow> do { c \<leftarrow> dns_rr_i_order junk a b P; Some (c, i) }
      | Some Sort_shuffle \<Rightarrow> Some (dns_rr_i_shuffle rnd a b i)
      | Some (Sort_fn f) \<Rightarrow> do {
          (c, s) \<leftarrow> f rnd a b (i_state i) P;
          Some (c, i\<lparr>i_state := s\<rparr>) })"

text \<open>The record at \<open>rp\<close> when it parses and matches: the first statements of every loop body.\<close>

definition rr_i_at :: "dns_any \<Rightarrow> nat \<Rightarrow> dns_rr_i \<Rightarrow> dns_packet \<Rightarrow> dns_rr option option" where
  "rr_i_at junk rp i P = do {
     (rr, e) \<leftarrow> dns_rr_parse rr0 rp P;
     (case e of
        Some _ \<Rightarrow> Some None
      | None \<Rightarrow> do {
          s \<leftarrow> dns_rr_section rp P;
          let rr = rr\<lparr>rr_section := s\<rparr>;
          m \<leftarrow> dns_rr_i_match junk rr i P;
          Some (if m then Some rr else None) }) }"

definition dns_rr_i_start_first_step ::
    "dns_any \<Rightarrow> dns_rr_i \<Rightarrow> dns_packet \<Rightarrow> nat \<Rightarrow> (nat + (dns_rr \<times> nat) option) option" where
  "dns_rr_i_start_first_step junk i P rp =
     (if rp < p_end P then do {
        r \<leftarrow> rr_i_at junk rp i P;
        (case r of
           Some rr \<Rightarrow> Some (Inr (Some (rr, rp)))
         | None \<Rightarrow> do { rp \<leftarrow> dns_rr_skip rp P; Some (Inl rp) }) }
      else Some (Inr None))"

definition dns_rr_i_start_lower_step ::
    "dns_any \<Rightarrow> u32 \<Rightarrow> dns_packet \<Rightarrow> nat \<times> dns_rr \<times> dns_rr_i \<Rightarrow>
     (nat \<times> dns_rr \<times> dns_rr_i + dns_rr \<times> dns_rr_i) option" where
  "dns_rr_i_start_lower_step junk rnd P = (\<lambda>(rp, r0, i). do {
     rp \<leftarrow> dns_rr_skip rp P;
     if rp < p_end P then do {
       r \<leftarrow> rr_i_at junk rp i P;
       (case r of
          None \<Rightarrow> Some (Inl (rp, r0, i))
        | Some rr \<Rightarrow> do {
            (c, i) \<leftarrow> rr_i_sort junk rnd rr r0 i P;
            Some (Inl (rp, if c < 0 then rr else r0, i)) }) }
     else Some (Inr (r0, i)) })"

definition dns_rr_i_start_base :: "dns_rr_i \<Rightarrow> dns_packet \<Rightarrow> nat" where
  "dns_rr_i_start_base i P =
     (if i_section i AND DNS_S_QD \<noteq> 0 \<and> m_base (p_qd P) \<noteq> 0 then m_base (p_qd P)
      else if i_section i AND DNS_S_AN \<noteq> 0 \<and> m_base (p_an P) \<noteq> 0 then m_base (p_an P)
      else if i_section i AND DNS_S_NS \<noteq> 0 \<and> m_base (p_ns P) \<noteq> 0 then m_base (p_ns P)
      else if i_section i AND DNS_S_AR \<noteq> 0 \<and> m_base (p_ar P) \<noteq> 0 then m_base (p_ar P)
      else 12)"

definition dns_rr_i_start ::
    "dns_any \<Rightarrow> u32 \<Rightarrow> dns_rr_i \<Rightarrow> dns_packet \<Rightarrow> (nat \<times> dns_rr_i) option" where
  "dns_rr_i_start junk rnd i P = do {
     r \<leftarrow> c_while (dns_rr_i_start_first_step junk i P) (dns_rr_i_start_base i P);
     (case r of
        None \<Rightarrow> Some (u16 (p_end P), i)
      | Some (r0, rp) \<Rightarrow>
         (if i_sort i = Some Sort_packet then Some (dns_rr_offset r0, i)
          else do {
            (r0, i) \<leftarrow> c_while (dns_rr_i_start_lower_step junk rnd P) (rp, r0, i);
            Some (dns_rr_offset r0, i) })) }"

definition dns_rr_i_skip_first_step ::
    "dns_any \<Rightarrow> u32 \<Rightarrow> dns_rr \<Rightarrow> dns_packet \<Rightarrow> nat \<times> dns_rr_i \<Rightarrow>
     (nat \<times> dns_rr_i + (dns_rr \<times> nat) option \<times> dns_rr_i) option" where
  "dns_rr_i_skip_first_step junk rnd r0 P = (\<lambda>(rp, i).
     if rp < p_end P then do {
       r \<leftarrow> rr_i_at junk rp i P;
       (case r of
          None \<Rightarrow> do { rp \<leftarrow> dns_rr_skip rp P; Some (Inl (rp, i)) }
        | Some rr \<Rightarrow> do {
            (c, i) \<leftarrow> rr_i_sort junk rnd rr r0 i P;
            if c \<le> 0 then do { rp \<leftarrow> dns_rr_skip rp P; Some (Inl (rp, i)) }
            else Some (Inr (Some (rr, rp), i)) }) }
     else Some (Inr (None, i)))"

definition dns_rr_i_skip_lower_step ::
    "dns_any \<Rightarrow> u32 \<Rightarrow> dns_rr \<Rightarrow> dns_packet \<Rightarrow> nat \<times> dns_rr \<times> dns_rr_i \<Rightarrow>
     (nat \<times> dns_rr \<times> dns_rr_i + dns_rr \<times> dns_rr_i) option" where
  "dns_rr_i_skip_lower_step junk rnd r0 P = (\<lambda>(rp, r1, i). do {
     rp \<leftarrow> dns_rr_skip rp P;
     if rp < p_end P then do {
       r \<leftarrow> rr_i_at junk rp i P;
       (case r of
          None \<Rightarrow> Some (Inl (rp, r1, i))
        | Some rr \<Rightarrow> do {
            (c, i) \<leftarrow> rr_i_sort junk rnd rr r0 i P;
            if c \<le> 0 then Some (Inl (rp, r1, i))
            else do {
              (c, i) \<leftarrow> rr_i_sort junk rnd rr r1 i P;
              Some (Inl (rp, if c \<ge> 0 then r1 else rr, i)) } }) }
     else Some (Inr (r1, i)) })"

definition dns_rr_i_skip ::
    "dns_any \<Rightarrow> u32 \<Rightarrow> nat \<Rightarrow> dns_rr_i \<Rightarrow> dns_packet \<Rightarrow> (nat \<times> dns_rr_i) option" where
  "dns_rr_i_skip junk rnd rp i P = do {
     (r0, e) \<leftarrow> dns_rr_parse rr0 rp P;
     (case e of
        Some _ \<Rightarrow> Some (u16 (p_end P), i)
      | None \<Rightarrow> do {
          s \<leftarrow> dns_rr_section rp P;
          let r0 = r0\<lparr>rr_section := s\<rparr>;
          rp \<leftarrow> (if i_sort i = Some Sort_packet then dns_rr_skip rp P else Some 12);
          (r, i) \<leftarrow> c_while (dns_rr_i_skip_first_step junk rnd r0 P) (rp, i);
          (case r of
             None \<Rightarrow> Some (u16 (p_end P), i)
           | Some (r1, rp) \<Rightarrow>
              (if i_sort i = Some Sort_packet then Some (dns_rr_offset r1, i)
               else do {
                 (r1, i) \<leftarrow> c_while (dns_rr_i_skip_lower_step junk rnd r0 P) (rp, r1, i);
                 Some (dns_rr_offset r1, i) })) }) }"

text \<open>\<open>while (count < lim && i->state.next < P->end)\<close>: the first argument is \<open>lim - count\<close>. The
  result holds the records written to \<open>rr[]\<close>.\<close>

fun dns_rr_grep_loop ::
    "dns_any \<Rightarrow> u32 \<Rightarrow> nat \<Rightarrow> dns_rr list \<Rightarrow> dns_rr_i \<Rightarrow> dns_packet \<Rightarrow>
     (dns_rr list \<times> dns_rr_i \<times> dns_error option) option" where
  "dns_rr_grep_loop junk rnd 0 rrs i P = Some (rrs, i, None)"
| "dns_rr_grep_loop junk rnd (Suc k) rrs i P =
     (if s_next (i_state i) < p_end P then do {
        let next = s_next (i_state i);
        (rr, e) \<leftarrow> dns_rr_parse rr0 next P;
        (case e of
           Some error \<Rightarrow> Some (rrs, i, Some error)
         | None \<Rightarrow> do {
             s \<leftarrow> dns_rr_section next P;
             let rr = rr\<lparr>rr_section := s\<rparr>;
             let i = i\<lparr>i_state := (i_state i)\<lparr>s_count := u16 (s_count (i_state i) + 1)\<rparr>\<rparr>;
             (next, i) \<leftarrow> dns_rr_i_skip junk rnd next i P;
             let i = i\<lparr>i_state := (i_state i)\<lparr>s_next := next\<rparr>\<rparr>;
             dns_rr_grep_loop junk rnd k (rrs @ [rr]) i P }) }
      else Some (rrs, i, None))"

definition dns_rr_grep ::
    "dns_any \<Rightarrow> u32 \<Rightarrow> nat \<Rightarrow> dns_rr_i \<Rightarrow> dns_packet \<Rightarrow>
     (dns_rr list \<times> dns_rr_i \<times> dns_error option) option" where
  "dns_rr_grep junk rnd lim i P =
     (if s_exec (i_state i) = 0 then do {
        let i = (if i_sort i = None then i\<lparr>i_sort := Some Sort_packet\<rparr> else i);
        (next, i) \<leftarrow> dns_rr_i_start junk rnd i P;
        let i = i\<lparr>i_state := (i_state i)\<lparr>s_next := next, s_exec := 1\<rparr>\<rparr>;
        dns_rr_grep_loop junk rnd lim [] i P }
      else if s_exec (i_state i) = 1 then dns_rr_grep_loop junk rnd lim [] i P
      else Some ([], i, None))"

text \<open>\<open>dns_rr_foreach\<close> with a body that may leave the loop: \<open>body\<close> is a step on the body's own
  variables.\<close>

definition dns_rr_foreach_step ::
    "dns_any \<Rightarrow> u32 \<Rightarrow> dns_packet \<Rightarrow> (dns_rr \<Rightarrow> 's \<Rightarrow> ('s + 'r) option) \<Rightarrow>
     dns_rr_i \<times> 's \<Rightarrow> (dns_rr_i \<times> 's + 's + 'r) option" where
  "dns_rr_foreach_step junk rnd P body = (\<lambda>(i, s). do {
     (rrs, i, e) \<leftarrow> dns_rr_grep junk rnd 1 i P;
     (case rrs of
        [] \<Rightarrow> Some (Inr (Inl s))
      | rr # _ \<Rightarrow> do {
          r \<leftarrow> body rr s;
          Some (case r of Inl s \<Rightarrow> Inl (i, s) | Inr r \<Rightarrow> Inr (Inr r)) }) })"

definition dns_rr_foreach ::
    "dns_any \<Rightarrow> u32 \<Rightarrow> dns_rr_i \<Rightarrow> dns_packet \<Rightarrow> (dns_rr \<Rightarrow> 's \<Rightarrow> ('s + 'r) option) \<Rightarrow> 's \<Rightarrow>
     ('s + 'r) option" where
  "dns_rr_foreach junk rnd i P body s =
     c_while (dns_rr_foreach_step junk rnd P body) (dns_rr_i_init i, s)"

definition dns_rr_exists ::
    "dns_any \<Rightarrow> u32 \<Rightarrow> dns_rr \<Rightarrow> dns_packet \<Rightarrow> dns_packet \<Rightarrow> bool option" where
  "dns_rr_exists junk rnd rr P0 P1 = do {
     r \<leftarrow> dns_rr_foreach junk rnd (rr_i0\<lparr>i_section := rr_section rr, i_type := rr_type rr\<rparr>) P1
       (\<lambda>rr1 s. do {
          c \<leftarrow> dns_rr_cmp junk rr P0 rr1 P1;
          Some (if c = 0 then Inr () else Inl s) }) ();
     Some (case r of Inl _ \<Rightarrow> False | Inr _ \<Rightarrow> True) }"

subsection \<open>Following CNAMEs\<close>

text \<open>At most seven rounds; the first argument is \<open>7 - depth\<close>.\<close>

fun dns_d_cname_loop ::
    "dns_any \<Rightarrow> u32 \<Rightarrow> nat \<Rightarrow> bytes \<Rightarrow> dns_packet \<Rightarrow> (dns_error + bytes) option" where
  "dns_d_cname_loop junk rnd 0 host P = Some (Inr host)"
| "dns_d_cname_loop junk rnd (Suc k) host P = do {
     let i = rr_i0\<lparr>i_section := DNS_S_ALL - DNS_S_QD, i_name := Some host, i_type := DNS_T_CNAME\<rparr>;
     (rrs, i, e) \<leftarrow> dns_rr_grep junk rnd 1 i P;
     (case rrs of
        [] \<Rightarrow> Some (Inr host)
      | rr # _ \<Rightarrow> ebind (dns_ns_parse rr P) (\<lambda>host. dns_d_cname_loop junk rnd k host P)) }"

definition dns_d_cname ::
    "dns_any \<Rightarrow> u32 \<Rightarrow> bytes \<Rightarrow> nat \<Rightarrow> bytes \<Rightarrow> nat \<Rightarrow> dns_packet \<Rightarrow>
     (bytes \<times> (dns_error + nat)) option" where
  "dns_d_cname junk rnd dst lim dn len P = do {
     (host, n) \<leftarrow> dns_d_anchor (replicate (DNS_D_MAXNAME + 1) 0) (DNS_D_MAXNAME + 1) dn len;
     if DNS_D_MAXNAME + 1 \<le> n then Some (dst, Inl ENAMETOOLONG)
     else do {
       r \<leftarrow> dns_d_cname_loop junk rnd 7 host P;
       (case r of
          Inl e \<Rightarrow> Some (dst, Inl e)
        | Inr host \<Rightarrow> do { (dst, n) \<leftarrow> dns_strlcpy dst host lim; Some (dst, Inr n) }) } }"

subsection \<open>Merging two packets\<close>

text \<open>Bodies of the loops of \<open>dns_p_merge\<close>; the loop variable is \<open>M\<close>, an error leaves the loop.\<close>

definition merge_a :: "dns_packet \<Rightarrow> dns_rr \<Rightarrow> dns_packet \<Rightarrow> (dns_packet + dns_error) option" where
  "merge_a A rr M = do {
     (M, r) \<leftarrow> dns_rr_copy M rr A;
     Some (case r of None \<Rightarrow> Inl M | Some e \<Rightarrow> Inr e) }"

definition merge_known ::
    "dns_any \<Rightarrow> u32 \<Rightarrow> dns_packet \<Rightarrow> dns_rr \<Rightarrow> dns_packet \<Rightarrow> bool option" where
  "merge_known junk rnd B rr M = do {
     r \<leftarrow> dns_rr_foreach junk rnd (rr_i0\<lparr>i_type := rr_type rr, i_section := DNS_S_ALL\<rparr>) M
       (\<lambda>mr s. do {
          c \<leftarrow> dns_rr_cmp junk rr B mr M;
          Some (if c = 0 then Inr () else Inl s) }) ();
     Some (case r of Inl _ \<Rightarrow> False | Inr _ \<Rightarrow> True) }"

definition merge_b ::
    "dns_any \<Rightarrow> u32 \<Rightarrow> dns_packet \<Rightarrow> dns_rr \<Rightarrow> dns_packet \<Rightarrow> (dns_packet + dns_error) option" where
  "merge_b junk rnd B rr M = do {
     known \<leftarrow> merge_known junk rnd B rr M;
     if known then Some (Inl M)
     else do {
       (M, r) \<leftarrow> dns_rr_copy M rr B;
       Some (case r of None \<Rightarrow> Inl M | Some e \<Rightarrow> Inr e) } }"

text \<open>The loop over the sections, given those that remain.\<close>

fun merge_sections ::
    "dns_any \<Rightarrow> u32 \<Rightarrow> dns_packet option \<Rightarrow> nat \<Rightarrow> dns_packet option \<Rightarrow> nat \<Rightarrow> nat list \<Rightarrow>
     dns_packet \<Rightarrow> (dns_packet + dns_error) option" where
  "merge_sections junk rnd A Amask B Bmask [] M = Some (Inl M)"
| "merge_sections junk rnd A Amask B Bmask (s # ss) M = do {
     r \<leftarrow> (case A of
        Some A \<Rightarrow>
          (if s AND Amask \<noteq> 0
           then dns_rr_foreach junk rnd (rr_i0\<lparr>i_section := s\<rparr>) A (merge_a A) M
           else Some (Inl M))
      | None \<Rightarrow> Some (Inl M));
     (case r of
        Inr e \<Rightarrow> Some (Inr e)
      | Inl M \<Rightarrow> do {
          r \<leftarrow> (case B of
             Some B \<Rightarrow>
               (if s AND Bmask \<noteq> 0
                then dns_rr_foreach junk rnd (rr_i0\<lparr>i_section := s\<rparr>) B (merge_b junk rnd B) M
                else Some (Inl M))
           | None \<Rightarrow> Some (Inl M));
          (case r of
             Inr e \<Rightarrow> Some (Inr e)
           | Inl M \<Rightarrow> merge_sections junk rnd A Amask B Bmask ss M) }) }"

text \<open>\<open>goto merge\<close> with a doubled buffer when the records did not fit.\<close>

definition dns_p_merge_step ::
    "dns_any \<Rightarrow> u32 \<Rightarrow> dns_packet option \<Rightarrow> nat \<Rightarrow> dns_packet option \<Rightarrow> nat \<Rightarrow> nat \<Rightarrow>
     (nat + dns_error + dns_packet) option" where
  "dns_p_merge_step junk rnd A Amask B Bmask bufsiz = do {
     M \<leftarrow> dns_p_make bufsiz;
     r \<leftarrow> merge_sections junk rnd A Amask B Bmask [DNS_S_QD, DNS_S_AN, DNS_S_NS, DNS_S_AR] M;
     (case r of
        Inl M \<Rightarrow> Some (Inr (Inr M))
      | Inr e \<Rightarrow>
         (if e = DNS_ENOBUFS \<and> bufsiz < 65535 then Some (Inl (min 65535 (bufsiz * 2)))
          else Some (Inr (Inl e)))) }"

definition dns_p_merge ::
    "dns_any \<Rightarrow> u32 \<Rightarrow> dns_packet option \<Rightarrow> nat \<Rightarrow> dns_packet option \<Rightarrow> nat \<Rightarrow>
     (dns_error + dns_packet) option" where
  "dns_p_merge junk rnd A Amask B Bmask = (
     let siz = (\<lambda>Q. case Q of Some P \<Rightarrow> p_end P | None \<Rightarrow> 0);
         bufsiz = min 65535 (siz A + siz B);
         (A, Amask, B) = (if A = None \<and> B \<noteq> None then (B, Bmask, None) else (A, Amask, B))
     in c_while (dns_p_merge_step junk rnd A Amask B Bmask) bufsiz)"

end
