(* ===== verification/Selection.thy ===== *)
theory Selection
  imports Prelude
begin

section \<open>Enumerating by repeated selection\<close>

text \<open>
  The iterators of the library keep no list of what is left: the first element is the least
  one by a scan, and each next element the least one greater than the current, by another
  scan. All they need of their comparison is that its sign is that of a linear order on keys
  which tells the elements apart; under that contract the scans walk the sorted list.
\<close>

fun scan_least :: "('a \<Rightarrow> 'a \<Rightarrow> int) \<Rightarrow> 'a \<Rightarrow> 'a list \<Rightarrow> 'a" where
  "scan_least cmp p0 [] = p0"
| "scan_least cmp p0 (p # ps) = scan_least cmp (if cmp p p0 < 0 then p else p0) ps"

definition scan_next :: "('a \<Rightarrow> 'a \<Rightarrow> int) \<Rightarrow> 'a list \<Rightarrow> 'a \<Rightarrow> 'a option" where
  "scan_next cmp xs p0 =
     (case dropWhile (\<lambda>p. cmp p p0 \<le> 0) xs of
        [] \<Rightarrow> None
      | z # ps \<Rightarrow> Some (scan_least cmp z (filter (\<lambda>p. cmp p p0 > 0) ps)))"

locale selection =
  fixes cmp :: "'a \<Rightarrow> 'a \<Rightarrow> int" and xs :: "'a list" and key :: "'a \<Rightarrow> 'k :: linorder"
  assumes cmp_neg: "a \<in> set xs \<Longrightarrow> b \<in> set xs \<Longrightarrow> cmp a b < 0 \<longleftrightarrow> key a < key b"
    and cmp_pos: "a \<in> set xs \<Longrightarrow> b \<in> set xs \<Longrightarrow> cmp a b > 0 \<longleftrightarrow> key b < key a"
    and key_inj: "inj_on key (set xs)"
    and distinct_xs: "distinct xs"
begin

lemma scan_least_min:
  "p0 \<in> set xs \<Longrightarrow> set ps \<subseteq> set xs \<Longrightarrow>
   scan_least cmp p0 ps \<in> set (p0 # ps) \<and> (\<forall>x \<in> set (p0 # ps). key (scan_least cmp p0 ps) \<le> key x)"
proof (induction ps arbitrary: p0)
  case (Cons p ps)
  then have "p \<in> set xs" "p0 \<in> set xs" by auto
  then have "(if cmp p p0 < 0 then p else p0) \<in> set xs" and lt: "cmp p p0 < 0 \<longleftrightarrow> key p < key p0"
    using cmp_neg by auto
  with Cons.IH [of "if cmp p p0 < 0 then p else p0"] Cons.prems show ?case
    by (auto split: if_splits)
qed simp

abbreviation order :: "'a list" where "order \<equiv> sort_key key xs"

lemma order_facts: "set order = set xs" "length order = length xs" "distinct order"
  by (simp_all add: distinct_xs)

lemma order_place:
  assumes "x \<in> set xs"
  obtains j where "j < length xs" "order ! j = x"
proof -
  have "x \<in> set order" using assms by simp
  then have "\<exists>j < length order. order ! j = x" by (simp only: in_set_conv_nth)
  then show thesis using that by (auto simp: length_sort)
qed

lemma order_less: "i < j \<Longrightarrow> j < length xs \<Longrightarrow> key (order ! i) < key (order ! j)"
proof -
  assume ij: "i < j" "j < length xs"
  have "sorted (map key order)" by simp
  then have "key (order ! i) \<le> key (order ! j)" using ij sorted_nth_mono [of "map key order" i j] by simp
  moreover have "order ! i \<noteq> order ! j"
    using ij nth_eq_iff_index_eq [OF order_facts(3), of i j] by simp
  moreover have "order ! i \<in> set xs" "order ! j \<in> set xs"
    using ij nth_mem [of i order] nth_mem [of j order] by simp_all
  ultimately show ?thesis using inj_onD [OF key_inj] by (auto simp: le_less)
qed

lemma order_less_iff:
  "i < length xs \<Longrightarrow> j < length xs \<Longrightarrow> key (order ! i) < key (order ! j) \<longleftrightarrow> i < j"
  using order_less [of i j] order_less [of j i] by (cases i j rule: linorder_cases) auto

lemma order_mem: "i < length xs \<Longrightarrow> order ! i \<in> set xs"
  using nth_mem [of i order] by simp

text \<open>An element of least key among those from place \<open>i\<close> on is the one at \<open>i\<close>.\<close>

lemma least_is_nth:
  assumes "m \<in> set xs" "i < length xs" "key (order ! i) \<le> key m" "key m \<le> key (order ! i)"
  shows "m = order ! i"
proof (rule inj_onD [OF key_inj])
  show "key m = key (order ! i)" using assms(3,4) by (rule antisym [rotated])
qed (fact assms(1), rule order_mem [OF assms(2)])

lemma start_first:
  assumes "xs = p0 # ps"
  shows "scan_least cmp p0 ps = order ! 0"
proof -
  let ?m = "scan_least cmp p0 ps"
  have n: "0 < length xs" using assms by simp
  have m: "?m \<in> set xs" "\<And>x. x \<in> set xs \<Longrightarrow> key ?m \<le> key x"
    using scan_least_min [of p0 ps] assms by auto
  obtain j where j: "j < length xs" "order ! j = ?m" using m(1) by (rule order_place)
  have "key (order ! 0) \<le> key (order ! j)"
    using order_less [OF _ j(1), of 0] by (cases "j = 0") (simp_all only: order_refl less_imp_le)
  then have "key (order ! 0) \<le> key ?m" by (simp only: j(2))
  then show ?thesis by (rule least_is_nth [OF m(1) n _ m(2) [OF order_mem [OF n]]])
qed

lemma next_Suc:
  assumes "i < length xs"
  shows "scan_next cmp xs (order ! i) = (if Suc i < length xs then Some (order ! Suc i) else None)"
proof -
  let ?c = "order ! i"
  let ?gt = "\<lambda>p. cmp p ?c > 0"
  have c: "?c \<in> set xs" by (rule order_mem [OF assms])
  have gt: "?gt x \<longleftrightarrow> key ?c < key x" if "x \<in> set xs" for x using cmp_pos [OF that c] .
  have above: "\<exists>j. j < length xs \<and> order ! j = x \<and> i < j" if x: "x \<in> set xs" "?gt x" for x
  proof -
    obtain j where j: "j < length xs" "order ! j = x" using x(1) by (rule order_place)
    have "key ?c < key (order ! j)" using x gt [OF x(1)] unfolding j(2) by simp
    then have "i < j" using order_less_iff [OF assms j(1)] by blast
    then show ?thesis using j by blast
  qed
  show ?thesis
  proof (cases "dropWhile (\<lambda>p. cmp p ?c \<le> 0) xs")
    case Nil
    then have none: "\<not> ?gt x" if "x \<in> set xs" for x using that by (auto simp: dropWhile_eq_Nil_conv)
    have "\<not> Suc i < length xs"
    proof
      assume s: "Suc i < length xs"
      then have "?gt (order ! Suc i)" using gt [OF order_mem [OF s]] order_less [of i "Suc i"] by simp
      with none [OF order_mem [OF s]] show False by simp
    qed
    then show ?thesis by (simp add: scan_next_def Nil)
  next
    case (Cons z ps)
    have zps: "set (z # ps) \<subseteq> set xs" using set_dropWhileD Cons by (metis subsetI)
    have z: "?gt z" using hd_dropWhile [of "\<lambda>p. cmp p ?c \<le> 0" xs] Cons by auto
    let ?m = "scan_least cmp z (filter ?gt ps)"
    have m: "?m \<in> set (z # filter ?gt ps)" "\<forall>x \<in> set (z # filter ?gt ps). key ?m \<le> key x"
      using scan_least_min [of z "filter ?gt ps"] zps by auto
    have xs_split: "x \<in> set (z # filter ?gt ps)" if "x \<in> set xs" "?gt x" for x
    proof -
      have "x \<in> set (takeWhile (\<lambda>p. cmp p ?c \<le> 0) xs @ z # ps)"
        using that(1) takeWhile_dropWhile_id [of "\<lambda>p. cmp p ?c \<le> 0" xs] Cons by metis
      then show ?thesis using that(2) by (auto dest: set_takeWhileD)
    qed
    have mxs: "?m \<in> set xs" "?gt ?m" using m(1) zps z by auto
    from above [OF mxs] obtain j where j: "j < length xs" "order ! j = ?m" "i < j" by blast
    then have s: "Suc i < length xs" by simp
    have "?gt (order ! Suc i)" using gt [OF order_mem [OF s]] order_less [of i "Suc i"] s by simp
    then have "key ?m \<le> key (order ! Suc i)" using m(2) xs_split [OF order_mem [OF s]] by blast
    moreover have "key (order ! Suc i) \<le> key ?m"
      unfolding j(2) [symmetric] using order_less [OF _ j(1), of "Suc i"] j(3)
      by (cases "j = Suc i") (simp_all only: order_refl less_imp_le Suc_leI le_neq_implies_less)
    ultimately have "?m = order ! Suc i" using least_is_nth [OF mxs(1) s] by blast
    then show ?thesis using s by (simp add: scan_next_def Cons)
  qed
qed

end

lemma fold_scan_least:
  "fold (\<lambda>p p0. if cmp p p0 < 0 then p else p0) ps p0 = scan_least cmp p0 ps"
  by (induction ps arbitrary: p0) auto

lemma fold_scan_above:
  "fold (\<lambda>p z. if cmp p p0 \<le> 0 then z else if cmp p z \<ge> 0 then z else p) ps z =
   scan_least cmp z (filter (\<lambda>p. cmp p p0 > (0 :: int)) ps)"
  by (induction ps arbitrary: z) (auto simp: not_le)

lemma find_upt_dropWhile:
  "dropWhile (\<lambda>x. \<not> P x) [i..<n] = (case List.find P [i..<n] of None \<Rightarrow> [] | Some z \<Rightarrow> z # [z + 1..<n])"
proof (induction "n - i" arbitrary: i)
  case (Suc d)
  then have "[i..<n] = i # [Suc i..<n]" by (simp add: upt_rec)
  then show ?case using Suc by simp
qed simp

end
