(* ===== verification/Hosts.thy ===== *)
theory Hosts
  imports Push
begin

section \<open>Addresses and the hosts table\<close>

text \<open>
  The socket address helpers of UTILITY ROUTINES and HOSTS ROUTINES of \<open>dns.c\<close>: parsing
  \<open>/etc/hosts\<close>, inserting entries, and answering a query from the table. A file is the list
  of its bytes; \<open>inet_pton\<close> is the argument \<open>pton\<close>, a pair of functions for the two families
  that return the address or \<open>None\<close>. Allocation succeeds. The reference counts are in
  \<open>Local\<close>.
\<close>

subsection \<open>Socket addresses\<close>

text \<open>\<open>struct sockaddr_in\<close> with its port and address in host order, \<open>sockaddr_in6\<close> with the
  bytes of its address, \<open>sockaddr_un\<close> with the whole of \<open>sun_path\<close>, and any other family.
  The numbers of the families are those of Linux.\<close>

datatype dns_sockaddr =
    Sin nat nat
  | Sin6 nat bytes
  | Sun bytes
  | Sa_other nat

definition AF_UNSPEC :: nat where [c_defs]: "AF_UNSPEC = 0"
definition AF_UNIX :: nat where [c_defs]: "AF_UNIX = 1"
definition AF_INET :: nat where [c_defs]: "AF_INET = 2"
definition AF_INET6 :: nat where [c_defs]: "AF_INET6 = 10"
definition AF_MAX :: nat where [c_defs]: "AF_MAX = 46"
definition DNS_SUNPATHMAX :: nat where [c_defs]: "DNS_SUNPATHMAX = 108"

fun dns_sa_family :: "dns_sockaddr \<Rightarrow> nat" where
  "dns_sa_family (Sin port addr) = AF_INET"
| "dns_sa_family (Sin6 port addr) = AF_INET6"
| "dns_sa_family (Sun path) = AF_UNIX"
| "dns_sa_family (Sa_other af) = af"

text \<open>The static table has \<open>AF_MAX\<close> entries, all but three of them zero.\<close>

definition dns_af_len :: "nat \<Rightarrow> nat option" where
  "dns_af_len af =
     (if af < AF_MAX
      then Some (if af = AF_INET6 then 28 else if af = AF_INET then 16
                 else if af = AF_UNIX then 110 else 0)
      else None)"

definition dns_sa_len :: "dns_sockaddr \<Rightarrow> nat option" where
  "dns_sa_len sa = dns_af_len (dns_sa_family sa)"

fun dns_sa_port :: "dns_sockaddr \<Rightarrow> nat" where
  "dns_sa_port (Sin6 port addr) = port"
| "dns_sa_port (Sin port addr) = port"
| "dns_sa_port _ = 0"

text \<open>The address inside a socket address, and \<open>None\<close> for the null pointer.\<close>

fun dns_sa_addr :: "dns_sockaddr \<Rightarrow> (nat + bytes) option" where
  "dns_sa_addr (Sin6 port addr) = Some (Inr addr)"
| "dns_sa_addr (Sin port addr) = Some (Inl addr)"
| "dns_sa_addr _ = None"

definition dns_sa_path :: "dns_sockaddr \<Rightarrow> (bytes \<times> nat) option option" where
  "dns_sa_path sa =
     (case sa of
        Sun path \<Rightarrow> do { n \<leftarrow> dns_strnlen path DNS_SUNPATHMAX; Some (Some (path, n)) }
      | _ \<Rightarrow> Some None)"

definition dns_sa_cmp :: "dns_sockaddr \<Rightarrow> dns_sockaddr \<Rightarrow> int option" where
  "dns_sa_cmp a b =
     (let cmp = int (dns_sa_family a) - int (dns_sa_family b) in
      if cmp \<noteq> 0 then Some cmp
      else (case (a, b) of
        (Sin pa a4, Sin pb b4) \<Rightarrow>
          (let cmp = int pa - int pb in
           if cmp \<noteq> 0 then Some cmp
           else if a4 < b4 then Some (-1) else if a4 > b4 then Some 1 else Some 0)
      | (Sin6 pa a6, Sin6 pb b6) \<Rightarrow>
          (let cmp = int pa - int pb in
           if cmp \<noteq> 0 then Some cmp else c_memcmp a6 b6 16)
      | (Sun pa, Sun pb) \<Rightarrow> do {
          (a_path, _) \<leftarrow> dns_strnlcpy (replicate (DNS_SUNPATHMAX + 1) 0) (DNS_SUNPATHMAX + 1) pa DNS_SUNPATHMAX;
          (b_path, _) \<leftarrow> dns_strnlcpy (replicate (DNS_SUNPATHMAX + 1) 0) (DNS_SUNPATHMAX + 1) pb DNS_SUNPATHMAX;
          c_strcmp a_path b_path }
      | _ \<Rightarrow> Some (-1)))"

type_synonym inet_pton = "(bytes \<Rightarrow> nat option) \<times> (bytes \<Rightarrow> bytes option)"

text \<open>\<open>dns_pton\<close> into the address of a socket address whose port is \<open>port\<close>.\<close>

definition dns_pton :: "inet_pton \<Rightarrow> nat \<Rightarrow> bytes \<Rightarrow> dns_error + (nat + bytes)" where
  "dns_pton pton af src =
     (if af = AF_INET6
      then (case snd pton src of Some a \<Rightarrow> Inr (Inr a) | None \<Rightarrow> Inl DNS_EADDRESS)
      else (case fst pton src of Some a \<Rightarrow> Inr (Inl a) | None \<Rightarrow> Inl DNS_EADDRESS))"

fun sa_of_addr :: "nat \<Rightarrow> nat + bytes \<Rightarrow> dns_sockaddr" where
  "sa_of_addr port (Inl a4) = Sin port a4"
| "sa_of_addr port (Inr a6) = Sin6 port a6"

subsection \<open>The table\<close>

record dns_hosts_entry =
  he_host :: bytes
  he_arpa :: bytes
  he_addr :: "nat + bytes"
  he_alias :: bool

type_synonym dns_hosts = "dns_hosts_entry list"

definition he_af :: "dns_hosts_entry \<Rightarrow> nat" where
  "he_af ent = (case he_addr ent of Inl _ \<Rightarrow> AF_INET | Inr _ \<Rightarrow> AF_INET6)"

text \<open>The entries from \<open>head\<close> on; \<open>tail\<close> appends. \<open>addr\<close> is the family with its address,
  \<open>None\<close> a family that is not one of the two.\<close>

definition dns_hosts_insert ::
    "dns_hosts \<Rightarrow> (nat + bytes) option \<Rightarrow> bytes \<Rightarrow> bool \<Rightarrow> (dns_hosts \<times> dns_error option) option" where
  "dns_hosts_insert hosts addr host alias = do {
     n \<leftarrow> c_strlen host;
     (h, _) \<leftarrow> dns_d_anchor (replicate (DNS_D_MAXNAME + 1) 0) (DNS_D_MAXNAME + 1) host n;
     (case addr of
        Some (Inr a6) \<Rightarrow> do {
          (arpa, _) \<leftarrow> dns_aaaa_arpa (replicate 74 0) 74 a6;
          Some (hosts @ [\<lparr>he_host = h, he_arpa = arpa, he_addr = Inr a6, he_alias = alias\<rparr>], None) }
      | Some (Inl a4) \<Rightarrow> do {
          (arpa, _) \<leftarrow> dns_a_arpa (replicate 74 0) 74 a4;
          Some (hosts @ [\<lparr>he_host = h, he_arpa = arpa, he_addr = Inl a4, he_alias = alias\<rparr>], None) }
      | None \<Rightarrow> Some (hosts, Some EINVAL)) }"

definition c_isspace :: "byte \<Rightarrow> bool" where
  "c_isspace c \<longleftrightarrow> c = 32 \<or> (9 \<le> c \<and> c \<le> 13)"

definition dns_hosts_iscom :: "byte \<Rightarrow> bool" where
  "dns_hosts_iscom c \<longleftrightarrow> c = 35 \<or> c = 59"

text \<open>\<open>sizeof word\<close> in \<open>dns_hosts_loadfile\<close>.\<close>

definition HOSTS_WORD :: nat where [c_defs]: "HOSTS_WORD = max 46 DNS_D_MAXNAME + 1"

text \<open>The innermost loop collects a word: the result is the rest of the file, the character
  that ended the word (\<open>None\<close> is \<open>EOF\<close>), \<open>word\<close>, \<open>wp\<close> and \<open>skip\<close>.\<close>

fun dns_hosts_word ::
    "bytes \<Rightarrow> bytes \<Rightarrow> nat \<Rightarrow> bool \<Rightarrow> (bytes \<times> byte option \<times> bytes \<times> nat \<times> bool) option" where
  "dns_hosts_word [] word wp skip = Some ([], None, word, wp, skip)"
| "dns_hosts_word (ch # fp) word wp skip =
     (if ch = 10 then Some (fp, Some ch, word, wp, skip)
      else
       (let skip = skip \<or> dns_hosts_iscom ch in
        if skip then dns_hosts_word fp word wp skip
        else if c_isspace ch then Some (fp, Some ch, word, wp, skip)
        else do {
          word \<leftarrow> (if wp < HOSTS_WORD - 1 then wr word wp ch else Some word);
          dns_hosts_word fp word (wp + 1) skip }))"

text \<open>One word of a line: the loop's variables are the file, \<open>ent.addr\<close>, \<open>wc\<close>, \<open>skip\<close> and the
  table; it leaves with the character that ended the line.\<close>

definition dns_hosts_line_step ::
    "inet_pton \<Rightarrow> bytes \<times> (nat + bytes) \<times> nat \<times> bool \<times> dns_hosts \<Rightarrow>
     (bytes \<times> (nat + bytes) \<times> nat \<times> bool \<times> dns_hosts
      + dns_hosts \<times> (dns_error + bytes \<times> byte option)) option" where
  "dns_hosts_line_step pton = (\<lambda>(fp, addr, wc, skip, hosts). do {
     (fp, ch, word, wp, skip) \<leftarrow> dns_hosts_word fp (replicate HOSTS_WORD 0) 0 skip;
     (addr, wc, skip, hosts, err) \<leftarrow>
       (if wp = 0 then Some (addr, wc, skip, hosts, None)
        else if wc = 0 then do {
          colon \<leftarrow> c_strlen word;
          let af6 = (58 \<in> set (take colon word));
          (case dns_pton pton (if af6 then AF_INET6 else AF_INET) word of
             Inr a \<Rightarrow> Some (a, 1, False, hosts, None)
           | Inl _ \<Rightarrow> Some (if af6 then Inr (replicate 16 0) else Inl 0, 1, True, hosts, None)) }
        else do {
          (host, _) \<leftarrow> dns_d_anchor (replicate (DNS_D_MAXNAME + 1) 0) (DNS_D_MAXNAME + 1) word wp;
          (hosts, err) \<leftarrow> dns_hosts_insert hosts (Some addr) host (wc + 1 > 2);
          Some (addr, wc + 1, skip, hosts, err) });
     (case err of
        Some e \<Rightarrow> Some (Inr (hosts, Inl e))
      | None \<Rightarrow>
         (if ch \<noteq> None \<and> ch \<noteq> Some 10 then Some (Inl (fp, addr, wc, skip, hosts))
          else Some (Inr (hosts, Inr (fp, ch))))) })"

definition dns_hosts_loadfile_step ::
    "inet_pton \<Rightarrow> bytes \<times> dns_hosts \<Rightarrow> (bytes \<times> dns_hosts + dns_hosts \<times> dns_error option) option" where
  "dns_hosts_loadfile_step pton = (\<lambda>(fp, hosts). do {
     (hosts, r) \<leftarrow> c_while (dns_hosts_line_step pton) (fp, Inl 0, 0, False, hosts);
     (case r of
        Inl e \<Rightarrow> Some (Inr (hosts, Some e))
      | Inr (fp, ch) \<Rightarrow> Some (if ch \<noteq> None then Inl (fp, hosts) else Inr (hosts, None))) })"

definition dns_hosts_loadfile ::
    "inet_pton \<Rightarrow> dns_hosts \<Rightarrow> bytes \<Rightarrow> (dns_hosts \<times> dns_error option) option" where
  "dns_hosts_loadfile pton hosts fp = c_while (dns_hosts_loadfile_step pton) (fp, hosts)"

subsection \<open>Answering from the table\<close>

text \<open>The loops over the entries: \<open>skip\<close> tells which ones the \<open>continue\<close> passes over.\<close>

fun dns_hosts_query_loop ::
    "(dns_hosts_entry \<Rightarrow> bool option) \<Rightarrow> (dns_hosts_entry \<Rightarrow> dns_any) \<Rightarrow> bytes \<Rightarrow> nat \<Rightarrow> dns_rr \<Rightarrow>
     dns_hosts \<Rightarrow> dns_packet \<Rightarrow> (dns_packet \<times> dns_error option) option" where
  "dns_hosts_query_loop skip any qname qlen rr [] P = Some (P, None)"
| "dns_hosts_query_loop skip any qname qlen rr (ent # ents) P = do {
     s \<leftarrow> skip ent;
     if s then dns_hosts_query_loop skip any qname qlen rr ents P
     else do {
       (P, e) \<leftarrow> dns_p_push P DNS_S_AN qname qlen (rr_type rr) (rr_klass rr) 0 (any ent);
       (case e of
          Some error \<Rightarrow> Some (P, Some error)
        | None \<Rightarrow> dns_hosts_query_loop skip any qname qlen rr ents P) } }"

definition he_any :: "dns_hosts_entry \<Rightarrow> dns_any" where
  "he_any ent = (case he_addr ent of Inl a4 \<Rightarrow> Any_a a4 | Inr a6 \<Rightarrow> Any_aaaa a6)"

definition dns_hosts_query_answers ::
    "dns_hosts \<Rightarrow> bytes \<Rightarrow> nat \<Rightarrow> dns_rr \<Rightarrow> dns_packet \<Rightarrow> (dns_packet \<times> dns_error option) option" where
  "dns_hosts_query_answers hosts qname qlen rr P =
     (if rr_type rr = DNS_T_PTR then
        dns_hosts_query_loop
          (\<lambda>ent. if he_alias ent then Some True
                 else do { c \<leftarrow> c_strcasecmp qname (he_arpa ent); Some (c \<noteq> 0) })
          (\<lambda>ent. Any_ns (he_host ent)) qname qlen rr hosts P
      else if rr_type rr = DNS_T_AAAA \<or> rr_type rr = DNS_T_A then
        (let af = (if rr_type rr = DNS_T_AAAA then AF_INET6 else AF_INET) in
         dns_hosts_query_loop
           (\<lambda>ent. if he_af ent \<noteq> af then Some True
                  else do { c \<leftarrow> c_strcasecmp qname (he_host ent); Some (c \<noteq> 0) })
           he_any qname qlen rr hosts P)
      else Some (P, None))"

definition dns_hosts_query :: "dns_hosts \<Rightarrow> dns_packet \<Rightarrow> (dns_error + dns_packet) option" where
  "dns_hosts_query hosts Q = do {
     P \<leftarrow> dns_p_make 512;
     (rr, e) \<leftarrow> dns_rr_parse rr0 12 Q;
     (case e of
        Some error \<Rightarrow> Some (Inl error)
      | None \<Rightarrow> do {
     (qname, r) \<leftarrow> dns_d_expand (replicate (DNS_D_MAXNAME + 1) 0) (DNS_D_MAXNAME + 1) (rr_dn_p rr) Q;
     (case r of
        Inl error \<Rightarrow> Some (Inl error)
      | Inr qlen \<Rightarrow>
     (if qlen \<ge> DNS_D_MAXNAME + 1 then Some (Inl DNS_EILLEGAL)
      else do {
     (P, e) \<leftarrow> dns_p_push P DNS_S_QD qname qlen (rr_type rr) (rr_klass rr) 0 dns_any_init;
     (case e of
        Some error \<Rightarrow> Some (Inl error)
      | None \<Rightarrow> do {
     (P, e) \<leftarrow> dns_hosts_query_answers hosts qname qlen rr P;
     (case e of
        Some error \<Rightarrow> Some (Inl error)
      | None \<Rightarrow> do {
          A \<leftarrow> dns_p_make (p_end P);
          A \<leftarrow> dns_p_copy A P;
          Some (Inr A) }) }) })) }) }"

end
