(* ===== verification/Resconf.thy ===== *)
theory Resconf
  imports Hosts
begin

section \<open>Resolver configuration\<close>

text \<open>
  RESOLV.CONF ROUTINES of \<open>dns.c\<close>: the defaults, the keywords, the parser of
  \<open>/etc/resolv.conf\<close> and the search list. A file is the list of its bytes; \<open>inet_pton\<close> is
  the argument \<open>pton\<close>, the answer of \<open>gethostname\<close> the argument \<open>hostname\<close>.
\<close>

datatype resconf_tcp = DNS_RESCONF_TCP_ENABLE | DNS_RESCONF_TCP_ONLY | DNS_RESCONF_TCP_DISABLE

record dns_resolv_conf =
  rc_nameserver :: "dns_sockaddr list"
  rc_search :: "bytes list"
  rc_lookup :: bytes
  rc_edns0 :: bool
  rc_ndots :: nat
  rc_timeout :: nat
  rc_attempts :: nat
  rc_rotate :: bool
  rc_recurse :: bool
  rc_smart :: bool
  rc_tcp :: resconf_tcp
  rc_iface :: dns_sockaddr

definition NAMESERVERS :: nat where [c_defs]: "NAMESERVERS = 3"
definition SEARCHES :: nat where [c_defs]: "SEARCHES = 4"
definition LOOKUPS :: nat where [c_defs]: "LOOKUPS = 36"

definition NAMEBUF :: bytes where "NAMEBUF = replicate (DNS_D_MAXNAME + 1) 0"

definition dns_resconf_open :: "bytes \<Rightarrow> dns_resolv_conf option" where
  "dns_resconf_open hostname = do {
     host \<leftarrow> wr_mem NAMEBUF 0 hostname;
     n \<leftarrow> c_strlen host;
     (host, _) \<leftarrow> dns_d_anchor host (DNS_D_MAXNAME + 1) host n;
     n \<leftarrow> c_strlen host;
     (host, _) \<leftarrow> dns_d_cleave host (DNS_D_MAXNAME + 1) host n;
     Some \<lparr>rc_nameserver = [Sin 53 0, Sa_other AF_UNSPEC, Sa_other AF_UNSPEC],
           rc_search = [host, NAMEBUF, NAMEBUF, NAMEBUF],
           rc_lookup = of_string ''bf'' @ replicate (LOOKUPS - 2) 0,
           rc_edns0 = False, rc_ndots = 1, rc_timeout = 5, rc_attempts = 2, rc_rotate = False,
           rc_recurse = False, rc_smart = False, rc_tcp = DNS_RESCONF_TCP_ENABLE,
           rc_iface = Sin 0 0\<rparr> }"

definition INT_MAX :: nat where "INT_MAX = 2147483647"

definition dns_resconf_timeout :: "dns_resolv_conf \<Rightarrow> nat" where
  "dns_resconf_timeout rc = min INT_MAX (rc_timeout rc)"

subsection \<open>Keywords\<close>

datatype resconf_keyword =
    DNS_RESCONF_NAMESERVER | DNS_RESCONF_DOMAIN | DNS_RESCONF_SEARCH | DNS_RESCONF_LOOKUP
  | DNS_RESCONF_FILE | DNS_RESCONF_BIND | DNS_RESCONF_CACHE | DNS_RESCONF_OPTIONS
  | DNS_RESCONF_EDNS0 | DNS_RESCONF_NDOTS | DNS_RESCONF_TIMEOUT | DNS_RESCONF_ATTEMPTS
  | DNS_RESCONF_ROTATE | DNS_RESCONF_RECURSE | DNS_RESCONF_SMART | DNS_RESCONF_TCP
  | DNS_RESCONF_TCPx | DNS_RESCONF_INTERFACE | DNS_RESCONF_ZERO | DNS_RESCONF_ONE
  | DNS_RESCONF_ENABLE | DNS_RESCONF_ONLY | DNS_RESCONF_DISABLE

definition resconf_words :: "(string \<times> resconf_keyword) list" where
  "resconf_words =
     [(''nameserver'', DNS_RESCONF_NAMESERVER), (''domain'', DNS_RESCONF_DOMAIN),
      (''search'', DNS_RESCONF_SEARCH), (''lookup'', DNS_RESCONF_LOOKUP),
      (''file'', DNS_RESCONF_FILE), (''bind'', DNS_RESCONF_BIND), (''cache'', DNS_RESCONF_CACHE),
      (''options'', DNS_RESCONF_OPTIONS), (''edns0'', DNS_RESCONF_EDNS0),
      (''rotate'', DNS_RESCONF_ROTATE), (''recurse'', DNS_RESCONF_RECURSE),
      (''smart'', DNS_RESCONF_SMART), (''tcp'', DNS_RESCONF_TCP),
      (''interface'', DNS_RESCONF_INTERFACE), (''0'', DNS_RESCONF_ZERO), (''1'', DNS_RESCONF_ONE),
      (''enable'', DNS_RESCONF_ENABLE), (''only'', DNS_RESCONF_ONLY),
      (''disable'', DNS_RESCONF_DISABLE)]"

text \<open>The first word of a table that \<open>strcasecmp\<close> finds equal.\<close>

fun word_lookup :: "(string \<times> 'k) list \<Rightarrow> bytes \<Rightarrow> 'k option option" where
  "word_lookup [] word = Some None"
| "word_lookup ((w, k) # ws) word = do {
     c \<leftarrow> c_strcasecmp (of_string w @ [0]) word;
     if c = 0 then Some (Some k) else word_lookup ws word }"

fun c_strncasecmp0 :: "bytes \<Rightarrow> bytes \<Rightarrow> nat \<Rightarrow> bool option" where
  "c_strncasecmp0 as bs 0 = Some True"
| "c_strncasecmp0 (a # as) (b # bs) (Suc n) =
     (if c_tolower a \<noteq> c_tolower b then Some False
      else if a = 0 then Some True else c_strncasecmp0 as bs n)"
| "c_strncasecmp0 _ _ (Suc n) = None"

definition has_prefix :: "string \<Rightarrow> bytes \<Rightarrow> bool option" where
  "has_prefix w word = c_strncasecmp0 word (of_string w) (length w)"

text \<open>\<open>None\<close> inside is the \<open>-1\<close>.\<close>

definition dns_resconf_keyword :: "bytes \<Rightarrow> resconf_keyword option option" where
  "dns_resconf_keyword word = do {
     r \<leftarrow> word_lookup resconf_words word;
     (case r of
        Some k \<Rightarrow> Some (Some k)
      | None \<Rightarrow> do {
          b \<leftarrow> has_prefix ''ndots:'' word;
          if b then Some (Some DNS_RESCONF_NDOTS)
          else do {
          b \<leftarrow> has_prefix ''timeout:'' word;
          if b then Some (Some DNS_RESCONF_TIMEOUT)
          else do {
          b \<leftarrow> has_prefix ''attempts:'' word;
          if b then Some (Some DNS_RESCONF_ATTEMPTS)
          else do {
          b \<leftarrow> has_prefix ''tcp:'' word;
          if b then Some (Some DNS_RESCONF_TCPx) else Some None } } } }) }"

subsection \<open>Addresses of name servers\<close>

definition c_isdigit :: "byte \<Rightarrow> bool" where
  "c_isdigit c \<longleftrightarrow> 48 \<le> c \<and> c \<le> 57"

fun pton_port :: "bytes \<Rightarrow> nat \<Rightarrow> nat option" where
  "pton_port [] port = None"
| "pton_port (ch # src) port =
     (if ch = 0 then Some port
      else if c_isdigit ch then pton_port src (u16 (u16 (port * 10) + (unat ch - 48)))
      else pton_port src port)"

text \<open>The loop over \<open>src\<close>: \<open>addr.buf\<close> has room for 127 characters; the result is the text, the
  family and the port.\<close>

fun dns_resconf_pton_loop :: "bytes \<Rightarrow> bytes \<Rightarrow> bool \<Rightarrow> (bytes \<times> bool \<times> nat) option" where
  "dns_resconf_pton_loop [] buf v6 = None"
| "dns_resconf_pton_loop (ch # src) buf v6 =
     (if ch = 0 then Some (buf, v6, 0)
      else if ch = 32 \<or> ch = 9 \<or> ch = 91 then dns_resconf_pton_loop src buf v6
      else if ch = 93 then do { port \<leftarrow> pton_port src 0; Some (buf, v6, port) }
      else dns_resconf_pton_loop src (if length buf < 127 then buf @ [ch] else buf)
             (v6 \<or> ch = 58))"

definition dns_resconf_pton :: "inet_pton \<Rightarrow> bytes \<Rightarrow> (dns_error + dns_sockaddr) option" where
  "dns_resconf_pton pton src = do {
     (buf, v6, port) \<leftarrow> dns_resconf_pton_loop src [] False;
     Some (case dns_pton pton (if v6 then AF_INET6 else AF_INET) (buf @ [0]) of
        Inl e \<Rightarrow> Inl e
      | Inr a \<Rightarrow> Inr (sa_of_addr (if port = 0 then 53 else port) a)) }"

definition dns_resconf_setiface ::
    "inet_pton \<Rightarrow> dns_resolv_conf \<Rightarrow> bytes \<Rightarrow> nat \<Rightarrow> (dns_resolv_conf \<times> dns_error option) option" where
  "dns_resconf_setiface pton rc addr port = do {
     n \<leftarrow> c_strlen addr;
     let af = (if 58 \<in> set (take n addr) then AF_INET6 else AF_INET);
     Some (case dns_pton pton af addr of
        Inl e \<Rightarrow> (rc, Some e)
      | Inr a \<Rightarrow> (rc\<lparr>rc_iface := sa_of_addr (u16 port) a\<rparr>, None)) }"

subsection \<open>The file\<close>

definition RESCONF_WORDS :: nat where [c_defs]: "RESCONF_WORDS = 6"

definition dns_resconf_issep :: "byte \<Rightarrow> bool" where
  "dns_resconf_issep ch \<longleftrightarrow> c_isspace ch \<or> ch = 44"

definition dns_resconf_iscom :: "byte \<Rightarrow> bool" where
  "dns_resconf_iscom ch \<longleftrightarrow> ch = 35 \<or> ch = 59"

text \<open>The rest of the file behind the line, \<open>None\<close> at \<open>EOF\<close>.\<close>

fun resconf_eol :: "bytes \<Rightarrow> bytes option" where
  "resconf_eol [] = None"
| "resconf_eol (ch # fp) = (if ch = 10 then Some fp else resconf_eol fp)"

text \<open>One line into \<open>words\<close>; the result is \<open>words\<close>, \<open>wp\<close>, \<open>wc\<close> and the rest of the file.\<close>

fun resconf_line ::
    "bytes \<Rightarrow> bytes list \<Rightarrow> nat \<Rightarrow> nat \<Rightarrow> (bytes list \<times> nat \<times> nat \<times> bytes option) option" where
  "resconf_line [] words wp wc = Some (words, wp, wc, None)"
| "resconf_line (ch # fp) words wp wc =
     (if ch = 10 then Some (words, wp, wc, Some fp)
      else if dns_resconf_issep ch then
        (if wp > 0 then
          (if wc + 1 \<ge> RESCONF_WORDS then Some (words, 0, wc + 1, resconf_eol fp)
           else resconf_line fp words 0 (wc + 1))
         else resconf_line fp words wp wc)
      else if dns_resconf_iscom ch then Some (words, wp, wc, resconf_eol fp)
      else do {
        word \<leftarrow> rd words wc;
        (word, n) \<leftarrow> dns__printchar word (DNS_D_MAXNAME + 1) wp ch;
        resconf_line fp (words[wc := word]) (wp + 1) wc })"

text \<open>\<open>for (; isdigit (...); j++) { n *= 10; n += ... }\<close> on an \<open>unsigned\<close>.\<close>

fun parse_digits :: "bytes \<Rightarrow> nat \<Rightarrow> nat option" where
  "parse_digits [] n = None"
| "parse_digits (c # cs) n =
     (if c_isdigit c then parse_digits cs (uint32 (n * 10 + (unat c - 48))) else Some n)"

text \<open>\<open>search\<close> is cleared, then the words from \<open>words[1]\<close> on are anchored into it.\<close>

fun resconf_searches :: "bytes list \<Rightarrow> nat \<Rightarrow> bytes list option" where
  "resconf_searches ws 0 = Some []"
| "resconf_searches [] (Suc k) = Some (replicate (Suc k) NAMEBUF)"
| "resconf_searches (w # ws) (Suc k) = do {
     n \<leftarrow> c_strlen w;
     (s, _) \<leftarrow> dns_d_anchor NAMEBUF (DNS_D_MAXNAME + 1) w n;
     ss \<leftarrow> resconf_searches ws k;
     Some (s # ss) }"

fun resconf_lookups :: "bytes list \<Rightarrow> bytes \<Rightarrow> nat \<Rightarrow> bytes option" where
  "resconf_lookups [] lookup j = Some lookup"
| "resconf_lookups (w # ws) lookup j =
     (if j \<ge> LOOKUPS then Some lookup
      else do {
        k \<leftarrow> dns_resconf_keyword w;
        (case k of
           Some DNS_RESCONF_FILE \<Rightarrow> do { l \<leftarrow> wr lookup j 102; resconf_lookups ws l (j + 1) }
         | Some DNS_RESCONF_BIND \<Rightarrow> do { l \<leftarrow> wr lookup j 98; resconf_lookups ws l (j + 1) }
         | Some DNS_RESCONF_CACHE \<Rightarrow> do { l \<leftarrow> wr lookup j 99; resconf_lookups ws l (j + 1) }
         | _ \<Rightarrow> resconf_lookups ws lookup j) })"

definition resconf_tcp_option :: "dns_resolv_conf \<Rightarrow> bytes \<Rightarrow> dns_resolv_conf option" where
  "resconf_tcp_option rc w = do {
     k \<leftarrow> dns_resconf_keyword (drop 4 w);
     Some (case k of
        Some DNS_RESCONF_ENABLE \<Rightarrow> rc\<lparr>rc_tcp := DNS_RESCONF_TCP_ENABLE\<rparr>
      | Some DNS_RESCONF_ONE \<Rightarrow> rc\<lparr>rc_tcp := DNS_RESCONF_TCP_ONLY\<rparr>
      | Some DNS_RESCONF_ONLY \<Rightarrow> rc\<lparr>rc_tcp := DNS_RESCONF_TCP_ONLY\<rparr>
      | Some DNS_RESCONF_ZERO \<Rightarrow> rc\<lparr>rc_tcp := DNS_RESCONF_TCP_DISABLE\<rparr>
      | Some DNS_RESCONF_DISABLE \<Rightarrow> rc\<lparr>rc_tcp := DNS_RESCONF_TCP_DISABLE\<rparr>
      | _ \<Rightarrow> rc) }"

fun resconf_options :: "bytes list \<Rightarrow> dns_resolv_conf \<Rightarrow> dns_resolv_conf option" where
  "resconf_options [] rc = Some rc"
| "resconf_options (w # ws) rc = do {
     k \<leftarrow> dns_resconf_keyword w;
     rc \<leftarrow> (case k of
        Some DNS_RESCONF_EDNS0 \<Rightarrow> Some (rc\<lparr>rc_edns0 := True\<rparr>)
      | Some DNS_RESCONF_NDOTS \<Rightarrow> do { n \<leftarrow> parse_digits (drop 6 w) 0; Some (rc\<lparr>rc_ndots := n\<rparr>) }
      | Some DNS_RESCONF_TIMEOUT \<Rightarrow> do { n \<leftarrow> parse_digits (drop 8 w) 0; Some (rc\<lparr>rc_timeout := n\<rparr>) }
      | Some DNS_RESCONF_ATTEMPTS \<Rightarrow> do { n \<leftarrow> parse_digits (drop 9 w) 0; Some (rc\<lparr>rc_attempts := n\<rparr>) }
      | Some DNS_RESCONF_ROTATE \<Rightarrow> Some (rc\<lparr>rc_rotate := True\<rparr>)
      | Some DNS_RESCONF_RECURSE \<Rightarrow> Some (rc\<lparr>rc_recurse := True\<rparr>)
      | Some DNS_RESCONF_SMART \<Rightarrow> Some (rc\<lparr>rc_smart := True\<rparr>)
      | Some DNS_RESCONF_TCP \<Rightarrow> Some (rc\<lparr>rc_tcp := DNS_RESCONF_TCP_ONLY\<rparr>)
      | Some DNS_RESCONF_TCPx \<Rightarrow> resconf_tcp_option rc w
      | _ \<Rightarrow> Some rc);
     resconf_options ws rc }"

text \<open>The \<open>switch\<close> on the first word of a line of at least two.\<close>

definition resconf_apply ::
    "inet_pton \<Rightarrow> bytes list \<Rightarrow> nat \<Rightarrow> nat \<times> dns_resolv_conf \<Rightarrow> (nat \<times> dns_resolv_conf) option" where
  "resconf_apply pton words wc = (\<lambda>(sa_count, rc). do {
     k \<leftarrow> dns_resconf_keyword (words ! 0);
     let args = take (wc - 1) (drop 1 words);
     (case k of
        Some DNS_RESCONF_NAMESERVER \<Rightarrow>
          (if sa_count \<ge> NAMESERVERS then Some (sa_count, rc)
           else do {
             r \<leftarrow> dns_resconf_pton pton (words ! 1);
             Some (case r of
                Inl e \<Rightarrow> (sa_count, rc)
              | Inr sa \<Rightarrow> (sa_count + 1, rc\<lparr>rc_nameserver := (rc_nameserver rc)[sa_count := sa]\<rparr>)) })
      | Some DNS_RESCONF_DOMAIN \<Rightarrow> do {
          ss \<leftarrow> resconf_searches args SEARCHES; Some (sa_count, rc\<lparr>rc_search := ss\<rparr>) }
      | Some DNS_RESCONF_SEARCH \<Rightarrow> do {
          ss \<leftarrow> resconf_searches args SEARCHES; Some (sa_count, rc\<lparr>rc_search := ss\<rparr>) }
      | Some DNS_RESCONF_LOOKUP \<Rightarrow> do {
          l \<leftarrow> resconf_lookups args (rc_lookup rc) 0; Some (sa_count, rc\<lparr>rc_lookup := l\<rparr>) }
      | Some DNS_RESCONF_OPTIONS \<Rightarrow> do {
          rc \<leftarrow> resconf_options args rc; Some (sa_count, rc) }
      | Some DNS_RESCONF_INTERFACE \<Rightarrow> do {
          n \<leftarrow> parse_digits (words ! 2) 0;
          (rc, _) \<leftarrow> dns_resconf_setiface pton rc (words ! 1) n;
          Some (sa_count, rc) }
      | _ \<Rightarrow> Some (sa_count, rc)) })"

definition dns_resconf_loadfile_step ::
    "inet_pton \<Rightarrow> bytes \<times> nat \<times> dns_resolv_conf \<Rightarrow>
     (bytes \<times> nat \<times> dns_resolv_conf + dns_resolv_conf) option" where
  "dns_resconf_loadfile_step pton = (\<lambda>(fp, sa_count, rc). do {
     (words, wp, wc, fp) \<leftarrow> resconf_line fp (replicate RESCONF_WORDS NAMEBUF) 0 0;
     let wc = (if wp > 0 then wc + 1 else wc);
     (sa_count, rc) \<leftarrow>
       (if wc < 2 then Some (sa_count, rc) else resconf_apply pton words wc (sa_count, rc));
     Some (case fp of Some fp \<Rightarrow> Inl (fp, sa_count, rc) | None \<Rightarrow> Inr rc) })"

definition dns_resconf_loadfile ::
    "inet_pton \<Rightarrow> dns_resolv_conf \<Rightarrow> bytes \<Rightarrow> dns_resolv_conf option" where
  "dns_resconf_loadfile pton rc fp = c_while (dns_resconf_loadfile_step pton) (fp, 0, rc)"

subsection \<open>The search list\<close>

text \<open>The state is the packed word \<open>dns_resconf_i_t\<close>: the case in its low byte, then \<open>srchi\<close>,
  then \<open>ndots\<close>. The last lines of \<open>dns_resconf_search\<close>:\<close>

definition search_done ::
    "bytes \<Rightarrow> nat \<Rightarrow> nat \<Rightarrow> nat \<Rightarrow> nat \<Rightarrow> nat \<Rightarrow> (bytes \<times> nat \<times> nat) option" where
  "search_done dst lim len st srchi ndots = do {
     dst \<leftarrow> dns__printnul dst lim len;
     Some (dst, len, (255 AND st) OR push_bit 8 (255 AND srchi) OR push_bit 16 (255 AND ndots)) }"

definition search_case2 ::
    "bytes \<Rightarrow> nat \<Rightarrow> bytes \<Rightarrow> nat \<Rightarrow> dns_resolv_conf \<Rightarrow> nat \<Rightarrow> nat \<Rightarrow> nat \<Rightarrow>
     (bytes \<times> nat \<times> nat) option" where
  "search_case2 dst lim qname qlen rc st srchi ndots =
     (if ndots < rc_ndots rc then do {
        (dst, len) \<leftarrow> dns_d_anchor dst lim qname qlen;
        search_done dst lim len (st + 1) srchi ndots }
      else search_done dst lim 0 (st + 1) srchi ndots)"

definition search_case1 ::
    "bytes \<Rightarrow> nat \<Rightarrow> bytes \<Rightarrow> nat \<Rightarrow> dns_resolv_conf \<Rightarrow> nat \<Rightarrow> nat \<Rightarrow> nat \<Rightarrow>
     (bytes \<times> nat \<times> nat) option" where
  "search_case1 dst lim qname qlen rc st srchi ndots = do {
     slen \<leftarrow> (if srchi < SEARCHES
             then do { s \<leftarrow> rd (rc_search rc) srchi; c_strlen s } else Some 0);
     if slen \<noteq> 0 then do {
       s \<leftarrow> rd (rc_search rc) srchi;
       (dst, len) \<leftarrow> dns__printstring dst lim 0 qname qlen;
       (dst, len) \<leftarrow> dns_d_anchor dst lim dst len;
       (dst, n) \<leftarrow> dns__printstring dst lim len s slen;
       search_done dst lim (len + n) st (srchi + 1) ndots }
     else search_case2 dst lim qname qlen rc (st + 1) srchi ndots }"

definition dns_resconf_search ::
    "bytes \<Rightarrow> nat \<Rightarrow> bytes \<Rightarrow> nat \<Rightarrow> dns_resolv_conf \<Rightarrow> nat \<Rightarrow> (bytes \<times> nat \<times> nat) option" where
  "dns_resconf_search dst lim qname qlen rc state = (
     let srchi = 255 AND drop_bit 8 state;
         ndots = 255 AND drop_bit 16 state;
         st = 255 AND state in
     if st = 0 then do {
       text \<leftarrow> rd_mem qname 0 qlen;
       let ndots = ndots + length (filter (\<lambda>c. c = 46) text);
       if ndots \<ge> rc_ndots rc then do {
         (dst, len) \<leftarrow> dns_d_anchor dst lim qname qlen;
         search_done dst lim len (st + 1) srchi ndots }
       else search_case1 dst lim qname qlen rc (st + 1) srchi ndots }
     else if st = 1 then search_case1 dst lim qname qlen rc st srchi ndots
     else if st = 2 then search_case2 dst lim qname qlen rc st srchi ndots
     else search_done dst lim 0 st srchi ndots)"

end
