(* ===== verification/Nssconf.thy ===== *)
theory Nssconf
  imports Resconf
begin

section \<open>Name service switch configuration\<close>

text \<open>
  The tokenizer \<open>dns_anyconf\<close>, the parser of \<open>/etc/nsswitch.conf\<close> and the iterator
  \<open>dns_nssconf_next\<close> over the lookup string it leaves in the resolver configuration. A
  stream is the list of bytes still to be read with its end-of-file flag; pointers into
  \<open>cf->buffer\<close> are offsets.
\<close>

subsection \<open>Tokens\<close>

record dns_anyconf =
  cf_token :: "nat list"
  cf_count :: nat
  cf_buffer :: bytes
  cf_tp :: nat
  cf_cp :: nat

type_synonym stream = "bytes \<times> bool"

definition ANYCONF_TOKENS :: nat where [c_defs]: "ANYCONF_TOKENS = 16"
definition ANYCONF_BUFFER :: nat where [c_defs]: "ANYCONF_BUFFER = 1024"

definition dns_anyconf_reset :: "dns_anyconf \<Rightarrow> dns_anyconf" where
  "dns_anyconf_reset cf = cf\<lparr>cf_count := 0, cf_tp := 0, cf_cp := 0\<rparr>"

text \<open>\<open>ENOMEM\<close> is the \<open>False\<close>.\<close>

definition dns_anyconf_push :: "dns_anyconf \<Rightarrow> (dns_anyconf \<times> bool) option" where
  "dns_anyconf_push cf =
     (if \<not> (cf_cp cf < ANYCONF_BUFFER \<and> cf_count cf < ANYCONF_TOKENS) then Some (cf, False)
      else do {
        buf \<leftarrow> wr (cf_buffer cf) (cf_cp cf) 0;
        toks \<leftarrow> wr (cf_token cf) (cf_count cf) (cf_tp cf);
        Some (cf\<lparr>cf_buffer := buf, cf_token := toks, cf_count := cf_count cf + 1,
                 cf_cp := cf_cp cf + 1, cf_tp := cf_cp cf + 1\<rparr>, True) })"

definition dns_anyconf_pop :: "dns_anyconf \<Rightarrow> dns_anyconf option" where
  "dns_anyconf_pop cf =
     (if cf_count cf > 0 then do {
        t \<leftarrow> rd (cf_token cf) (cf_count cf - 1);
        toks \<leftarrow> wr (cf_token cf) (cf_count cf - 1) 0;
        Some (cf\<lparr>cf_count := cf_count cf - 1, cf_tp := t, cf_cp := t, cf_token := toks\<rparr>) }
      else Some cf)"

definition dns_anyconf_addc :: "dns_anyconf \<Rightarrow> byte \<Rightarrow> (dns_anyconf \<times> bool) option" where
  "dns_anyconf_addc cf ch =
     (if \<not> cf_cp cf < ANYCONF_BUFFER then Some (cf, False)
      else do {
        buf \<leftarrow> wr (cf_buffer cf) (cf_cp cf) ch;
        Some (cf\<lparr>cf_buffer := buf, cf_cp := cf_cp cf + 1\<rparr>, True) })"

definition c_isalpha :: "byte \<Rightarrow> bool" where
  "c_isalpha c \<longleftrightarrow> (65 \<le> c \<and> c \<le> 90) \<or> (97 \<le> c \<and> c \<le> 122)"

definition c_isalnum :: "byte \<Rightarrow> bool" where
  "c_isalnum c \<longleftrightarrow> c_isalpha c \<or> c_isdigit c"

text \<open>A pattern is the list of its characters before the NUL.\<close>

fun dns_anyconf_match_loop :: "bytes \<Rightarrow> byte \<Rightarrow> bool \<Rightarrow> bool" where
  "dns_anyconf_match_loop [] mc match = (\<not> match)"
| "dns_anyconf_match_loop [pc] mc match =
     (if pc = 37 then \<not> match else if mc = pc then match else \<not> match)"
| "dns_anyconf_match_loop (pc # qc # pat) mc match =
     (if pc = 37 then
        (if (if qc = 97 then c_isalpha mc else if qc = 100 then c_isdigit mc
             else if qc = 119 then c_isalnum mc else if qc = 115 then c_isspace mc
             else mc = qc)
         then match else dns_anyconf_match_loop pat mc match)
      else if mc = pc then match
      else dns_anyconf_match_loop (qc # pat) mc match)"

definition dns_anyconf_match :: "string \<Rightarrow> byte \<Rightarrow> bool" where
  "dns_anyconf_match pat mc =
     (case of_string pat of
        [] \<Rightarrow> False
      | p # ps \<Rightarrow> (if p = 94 then dns_anyconf_match_loop ps mc False
                   else dns_anyconf_match_loop (p # ps) mc True))"

text \<open>\<open>getc\<close> at the end sets the flag; \<open>ungetc\<close> puts a byte back and clears it.\<close>

definition dns_anyconf_peek :: "stream \<Rightarrow> byte option \<times> stream" where
  "dns_anyconf_peek fp = (case fst fp of [] \<Rightarrow> (None, ([], True)) | c # cs \<Rightarrow> (Some c, (c # cs, False)))"

fun dns_anyconf_skip_loop :: "string \<Rightarrow> bytes \<Rightarrow> nat \<Rightarrow> nat \<times> stream" where
  "dns_anyconf_skip_loop pat [] n = (n, ([], True))"
| "dns_anyconf_skip_loop pat (c # cs) n =
     (if dns_anyconf_match pat c then dns_anyconf_skip_loop pat cs (n + 1)
      else (n, (c # cs, False)))"

definition dns_anyconf_skip :: "string \<Rightarrow> stream \<Rightarrow> nat \<times> stream" where
  "dns_anyconf_skip pat fp = dns_anyconf_skip_loop pat (fst fp) 0"

text \<open>The loop of \<open>dns_anyconf_scan\<close>; \<open>False\<close> is the return with \<open>ENOMEM\<close>.\<close>

fun dns_anyconf_scan_loop ::
    "string \<Rightarrow> bytes \<Rightarrow> dns_anyconf \<Rightarrow> (dns_anyconf \<times> stream \<times> bool) option" where
  "dns_anyconf_scan_loop pat [] cf = Some (cf, ([], True), True)"
| "dns_anyconf_scan_loop pat (c # cs) cf =
     (if dns_anyconf_match pat c then do {
        (cf, ok) \<leftarrow> dns_anyconf_addc cf c;
        if ok then dns_anyconf_scan_loop pat cs cf else Some (cf, (cs, False), False) }
      else Some (cf, (c # cs, False), True))"

text \<open>The length of the token, \<open>0\<close> when there is none.\<close>

definition dns_anyconf_scan ::
    "dns_anyconf \<Rightarrow> string \<Rightarrow> stream \<Rightarrow> (nat \<times> dns_anyconf \<times> stream) option" where
  "dns_anyconf_scan cf pat fp = do {
     (cf, fp, ok) \<leftarrow> dns_anyconf_scan_loop pat (fst fp) cf;
     if \<not> ok then Some (0, cf, fp)
     else
      (let len = cf_cp cf - cf_tp cf in
       if len \<noteq> 0 then do {
         (cf, ok) \<leftarrow> dns_anyconf_push cf;
         Some (if ok then len else 0, cf, fp) }
       else Some (0, cf, fp)) }"

subsection \<open>Keywords\<close>

datatype nssconf_keyword =
    DNS_NSSCONF_INVALID | DNS_NSSCONF_HOSTS | DNS_NSSCONF_SUCCESS | DNS_NSSCONF_NOTFOUND
  | DNS_NSSCONF_UNAVAIL | DNS_NSSCONF_TRYAGAIN | DNS_NSSCONF_CONTINUE | DNS_NSSCONF_RETURN
  | DNS_NSSCONF_FILES | DNS_NSSCONF_DNS | DNS_NSSCONF_MDNS

definition nssconf_list :: "(string \<times> nssconf_keyword) list" where
  "nssconf_list =
     [(''hosts'', DNS_NSSCONF_HOSTS), (''success'', DNS_NSSCONF_SUCCESS),
      (''notfound'', DNS_NSSCONF_NOTFOUND), (''unavail'', DNS_NSSCONF_UNAVAIL),
      (''tryagain'', DNS_NSSCONF_TRYAGAIN), (''continue'', DNS_NSSCONF_CONTINUE),
      (''return'', DNS_NSSCONF_RETURN), (''files'', DNS_NSSCONF_FILES),
      (''dns'', DNS_NSSCONF_DNS), (''mdns'', DNS_NSSCONF_MDNS)]"

definition dns_nssconf_keyword :: "bytes \<Rightarrow> nssconf_keyword option" where
  "dns_nssconf_keyword word = do {
     r \<leftarrow> word_lookup nssconf_list word;
     Some (case r of Some k \<Rightarrow> k | None \<Rightarrow> DNS_NSSCONF_INVALID) }"

definition dns_nssconf_c2k :: "byte \<Rightarrow> nssconf_keyword" where
  "dns_nssconf_c2k ch =
     (if ch = 83 then DNS_NSSCONF_SUCCESS else if ch = 78 then DNS_NSSCONF_NOTFOUND
      else if ch = 85 then DNS_NSSCONF_UNAVAIL else if ch = 84 then DNS_NSSCONF_TRYAGAIN
      else if ch = 67 then DNS_NSSCONF_CONTINUE else if ch = 82 then DNS_NSSCONF_RETURN
      else if ch = 102 \<or> ch = 70 then DNS_NSSCONF_FILES
      else if ch = 100 \<or> ch = 68 \<or> ch = 98 \<or> ch = 66 then DNS_NSSCONF_DNS
      else if ch = 109 \<or> ch = 77 then DNS_NSSCONF_MDNS
      else DNS_NSSCONF_INVALID)"

fun dns_nssconf_k2c :: "nssconf_keyword \<Rightarrow> byte" where
  "dns_nssconf_k2c DNS_NSSCONF_SUCCESS = 83"
| "dns_nssconf_k2c DNS_NSSCONF_NOTFOUND = 78"
| "dns_nssconf_k2c DNS_NSSCONF_UNAVAIL = 85"
| "dns_nssconf_k2c DNS_NSSCONF_TRYAGAIN = 84"
| "dns_nssconf_k2c DNS_NSSCONF_CONTINUE = 67"
| "dns_nssconf_k2c DNS_NSSCONF_RETURN = 82"
| "dns_nssconf_k2c DNS_NSSCONF_FILES = 102"
| "dns_nssconf_k2c DNS_NSSCONF_DNS = 98"
| "dns_nssconf_k2c DNS_NSSCONF_MDNS = 109"
| "dns_nssconf_k2c _ = 63"

fun dns_nssconf_k2s :: "nssconf_keyword \<Rightarrow> string" where
  "dns_nssconf_k2s DNS_NSSCONF_SUCCESS = ''SUCCESS''"
| "dns_nssconf_k2s DNS_NSSCONF_NOTFOUND = ''NOTFOUND''"
| "dns_nssconf_k2s DNS_NSSCONF_UNAVAIL = ''UNAVAIL''"
| "dns_nssconf_k2s DNS_NSSCONF_TRYAGAIN = ''TRYAGAIN''"
| "dns_nssconf_k2s DNS_NSSCONF_CONTINUE = ''continue''"
| "dns_nssconf_k2s DNS_NSSCONF_RETURN = ''return''"
| "dns_nssconf_k2s DNS_NSSCONF_FILES = ''files''"
| "dns_nssconf_k2s DNS_NSSCONF_DNS = ''dns''"
| "dns_nssconf_k2s DNS_NSSCONF_MDNS = ''mdns''"
| "dns_nssconf_k2s _ = ''''"

subsection \<open>The file\<close>

definition cf_word :: "dns_anyconf \<Rightarrow> nat \<Rightarrow> nssconf_keyword option" where
  "cf_word cf i = do { t \<leftarrow> rd (cf_token cf) i; dns_nssconf_keyword (drop t (cf_buffer cf)) }"

text \<open>The criteria between brackets.\<close>

definition nss_criteria_step ::
    "dns_anyconf \<times> stream \<Rightarrow> (dns_anyconf \<times> stream + dns_anyconf \<times> stream) option" where
  "nss_criteria_step = (\<lambda>(cf, fp). do {
     (n, cf, fp) \<leftarrow> dns_anyconf_scan cf ''%w_'' fp;
     if n = 0 then Some (Inr (cf, fp))
     else do {
       let fp = snd (dns_anyconf_skip [CHR ''='', CHR '' '', CHR 0x09] fp);
       (n, cf, fp) \<leftarrow> dns_anyconf_scan cf ''%w_'' fp;
       if n = 0 then do {
         cf \<leftarrow> dns_anyconf_pop cf;
         Some (Inr (cf, snd (dns_anyconf_skip [CHR ''^'', CHR ''#'', CHR '';'', CHR '']'', CHR 0x0A] fp))) }
       else Some (Inl (cf, snd (dns_anyconf_skip [CHR '' '', CHR 0x09] fp))) } })"

text \<open>The pairs \<open>(status, action)\<close> of one source, from token \<open>i\<close> on; the first argument bounds
  the rounds by the number of tokens.\<close>

fun nss_actions ::
    "nat \<Rightarrow> nat \<Rightarrow> dns_anyconf \<Rightarrow> bytes \<Rightarrow> nat \<Rightarrow> (bytes \<times> nat) option" where
  "nss_actions 0 i cf lookup lp = Some (lookup, lp)"
| "nss_actions (Suc k) i cf lookup lp =
     (if i + 1 < cf_count cf then do {
        status \<leftarrow> cf_word cf i;
        action \<leftarrow> cf_word cf (i + 1);
        if status \<in> {DNS_NSSCONF_SUCCESS, DNS_NSSCONF_NOTFOUND, DNS_NSSCONF_UNAVAIL,
                     DNS_NSSCONF_TRYAGAIN}
        then do {
          lookup \<leftarrow> wr lookup lp (dns_nssconf_k2c status);
          let action =
            (if action \<in> {DNS_NSSCONF_CONTINUE, DNS_NSSCONF_RETURN} then action
             else if status = DNS_NSSCONF_SUCCESS then DNS_NSSCONF_RETURN
             else DNS_NSSCONF_CONTINUE);
          lookup \<leftarrow> wr lookup (lp + 1) (dns_nssconf_k2c action);
          nss_actions k (i + 2) cf lookup (lp + 2) }
        else nss_actions k (i + 2) cf lookup lp }
      else Some (lookup, lp))"

text \<open>The criteria of a source, if a bracket follows.\<close>

definition nss_criteria :: "dns_anyconf \<Rightarrow> stream \<Rightarrow> (dns_anyconf \<times> stream) option" where
  "nss_criteria cf fp =
     (let (c, fp) = dns_anyconf_peek fp in
      if c = Some 91 then do {
        let fp = snd (dns_anyconf_skip [CHR ''['', CHR '' '', CHR 0x09] fp);
        (cf, fp) \<leftarrow> c_while nss_criteria_step (cf, fp);
        Some (cf, snd (dns_anyconf_skip [CHR '']'', CHR '' '', CHR 0x09] fp)) }
      else Some (cf, fp))"

text \<open>The tokens of a source into \<open>lookup\<close>, up to \<open>*lp = 0\<close> behind \<open>nextsrc\<close>.\<close>

definition nss_store :: "dns_anyconf \<Rightarrow> bytes \<Rightarrow> nat \<Rightarrow> (bytes \<times> nat) option" where
  "nss_store cf lookup lp = do {
     (lookup, lp) \<leftarrow>
       (if LOOKUPS - lp < cf_count cf + 1 then Some (lookup, lp)
        else do {
          source \<leftarrow> cf_word cf 0;
          if source \<in> {DNS_NSSCONF_DNS, DNS_NSSCONF_MDNS, DNS_NSSCONF_FILES} then do {
            lookup \<leftarrow> wr lookup lp (dns_nssconf_k2c source);
            nss_actions (cf_count cf) 1 cf lookup (lp + 1) }
          else Some (lookup, lp) });
     lookup \<leftarrow> wr lookup lp 0;
     Some (lookup, lp) }"

definition nss_source_step ::
    "dns_anyconf \<times> stream \<times> bytes \<times> nat \<Rightarrow>
     (dns_anyconf \<times> stream \<times> bytes \<times> nat + dns_anyconf \<times> stream \<times> bytes) option" where
  "nss_source_step = (\<lambda>(cf, fp, lookup, lp). do {
     (n, cf, fp) \<leftarrow> dns_anyconf_scan cf ''%w_'' fp;
     if n = 0 then Some (Inr (cf, fp, lookup))
     else do {
       (cf, fp) \<leftarrow> nss_criteria cf (snd (dns_anyconf_skip [CHR '' '', CHR 0x09] fp));
       (lookup, lp) \<leftarrow> nss_store cf lookup lp;
       Some (Inl (dns_anyconf_reset cf, fp, lookup, lp)) } })"

text \<open>The body of the outer loop up to \<open>nextent\<close>.\<close>

definition nss_entry ::
    "dns_anyconf \<Rightarrow> stream \<Rightarrow> bytes \<Rightarrow> (dns_anyconf \<times> stream \<times> bytes) option" where
  "nss_entry cf fp lookup = do {
     let cf = dns_anyconf_reset cf;
     let fp = snd (dns_anyconf_skip ''%s'' fp);
     (n, cf, fp) \<leftarrow> dns_anyconf_scan cf ''%w_'' fp;
     if n = 0 then Some (cf, fp, lookup)
     else do {
       k \<leftarrow> cf_word cf 0;
       if k \<noteq> DNS_NSSCONF_HOSTS then Some (cf, fp, lookup)
       else do {
         cf \<leftarrow> dns_anyconf_pop cf;
         let (n, fp) = dns_anyconf_skip [CHR '':'', CHR '' '', CHR 0x09] fp;
         if n = 0 then Some (cf, fp, lookup)
         else do {
           lookup \<leftarrow> wr lookup 0 0;
           c_while nss_source_step (cf, fp, lookup, 0) } } } }"

definition nss_loadfile_step ::
    "dns_anyconf \<times> stream \<times> bytes \<Rightarrow> (dns_anyconf \<times> stream \<times> bytes + bytes) option" where
  "nss_loadfile_step = (\<lambda>(cf, fp, lookup).
     if snd fp then Some (Inr lookup)
     else do {
       (cf, fp, lookup) \<leftarrow> nss_entry cf fp lookup;
       Some (Inl (cf, snd (dns_anyconf_skip [CHR ''^'', CHR 0x0A] fp), lookup)) })"

text \<open>\<open>strncpy\<close> fills the rest of the destination with NULs.\<close>

definition c_strncpy :: "bytes \<Rightarrow> nat \<Rightarrow> bytes" where
  "c_strncpy src n = take n (takeWhile (\<lambda>c. c \<noteq> 0) src @ replicate n 0)"

definition anyconf0 :: dns_anyconf where
  "anyconf0 = \<lparr>cf_token = replicate ANYCONF_TOKENS 0, cf_count = 0,
     cf_buffer = replicate ANYCONF_BUFFER 0, cf_tp = 0, cf_cp = 0\<rparr>"

definition dns_nssconf_loadfile :: "dns_resolv_conf \<Rightarrow> bytes \<Rightarrow> dns_resolv_conf option" where
  "dns_nssconf_loadfile rc fp = do {
     lookup \<leftarrow> c_while nss_loadfile_step (anyconf0, (fp, False), replicate LOOKUPS 0);
     c \<leftarrow> rd lookup 0;
     Some (if c \<noteq> 0 then rc\<lparr>rc_lookup := c_strncpy lookup LOOKUPS\<rparr> else rc) }"

subsection \<open>Iterating over the sources\<close>

record dns_nssconf_source =
  ns_source :: nssconf_keyword
  ns_success :: nssconf_keyword
  ns_notfound :: nssconf_keyword
  ns_unavail :: nssconf_keyword
  ns_tryagain :: nssconf_keyword

definition dns_nssconf_peek :: "dns_resolv_conf \<Rightarrow> nat \<Rightarrow> byte" where
  "dns_nssconf_peek rc state =
     (if state < LOOKUPS \<and> rc_lookup rc ! state \<noteq> 0 then rc_lookup rc ! state else 0)"

text \<open>The two loops run over positions of \<open>lookup\<close>; their first argument bounds the rounds by
  its size.\<close>

fun nss_next_status ::
    "nat \<Rightarrow> dns_resolv_conf \<Rightarrow> dns_nssconf_source \<Rightarrow> nat \<Rightarrow> dns_nssconf_source \<times> nat" where
  "nss_next_status 0 rc src state = (src, state)"
| "nss_next_status (Suc k) rc src state =
     (if dns_nssconf_peek rc state \<noteq> 0 \<and> dns_nssconf_peek rc (state + 1) \<noteq> 0 then
       (let status = dns_nssconf_c2k (dns_nssconf_peek rc state);
            action = dns_nssconf_c2k (dns_nssconf_peek rc (state + 1)) in
        if action \<notin> {DNS_NSSCONF_RETURN, DNS_NSSCONF_CONTINUE} then (src, state)
        else (case status of
            DNS_NSSCONF_SUCCESS \<Rightarrow> nss_next_status k rc (src\<lparr>ns_success := action\<rparr>) (state + 2)
          | DNS_NSSCONF_NOTFOUND \<Rightarrow> nss_next_status k rc (src\<lparr>ns_notfound := action\<rparr>) (state + 2)
          | DNS_NSSCONF_UNAVAIL \<Rightarrow> nss_next_status k rc (src\<lparr>ns_unavail := action\<rparr>) (state + 2)
          | DNS_NSSCONF_TRYAGAIN \<Rightarrow> nss_next_status k rc (src\<lparr>ns_tryagain := action\<rparr>) (state + 2)
          | _ \<Rightarrow> (src, state)))
      else (src, state))"

fun nss_next_source ::
    "nat \<Rightarrow> dns_resolv_conf \<Rightarrow> dns_nssconf_source \<Rightarrow> nat \<Rightarrow> dns_nssconf_source \<times> nat" where
  "nss_next_source 0 rc src state = (src, state)"
| "nss_next_source (Suc k) rc src state =
     (if dns_nssconf_peek rc state \<noteq> 0 then
       (let source = dns_nssconf_c2k (dns_nssconf_peek rc state) in
        if source \<in> {DNS_NSSCONF_FILES, DNS_NSSCONF_DNS, DNS_NSSCONF_MDNS}
        then nss_next_status LOOKUPS rc (src\<lparr>ns_source := source\<rparr>) (state + 1)
        else nss_next_source k rc src (state + 1))
      else (src, state))"

definition dns_nssconf_next ::
    "dns_resolv_conf \<Rightarrow> nat \<Rightarrow> bool \<times> dns_nssconf_source \<times> nat" where
  "dns_nssconf_next rc state =
     (let (src, state) = nss_next_source (LOOKUPS + 1) rc
            \<lparr>ns_source = DNS_NSSCONF_INVALID, ns_success = DNS_NSSCONF_RETURN,
             ns_notfound = DNS_NSSCONF_CONTINUE, ns_unavail = DNS_NSSCONF_CONTINUE,
             ns_tryagain = DNS_NSSCONF_CONTINUE\<rparr> state
      in (ns_source src \<noteq> DNS_NSSCONF_INVALID, src, state))"

end
