(* ===== verification/Hints.thy ===== *)
theory Hints
  imports Resconf Iter Selection Crypto "HOL-Library.Product_Lexorder"
begin

section \<open>Hint servers\<close>

text \<open>
  HINT SERVER ROUTINES of \<open>dns.c\<close>: the table of servers for each zone, the iterator that hands
  them out by priority and in a shuffled order within one priority, and the packet built from
  it. \<open>dns_random\<close> is asked until it gives a seed that is not zero; that seed is the argument
  \<open>seed\<close>.
\<close>

text \<open>\<open>addrs[16]\<close> as the list of its slots; a fresh structure is all zeros.\<close>

record dns_hints_soa =
  hs_zone :: bytes
  hs_addrs :: "(dns_sockaddr \<times> u32) list"
  hs_count :: nat

type_synonym dns_hints = "dns_hints_soa list"

definition HINT_ADDRS :: nat where [c_defs]: "HINT_ADDRS = 16"

definition hints_soa0 :: dns_hints_soa where
  "hints_soa0 = \<lparr>hs_zone = NAMEBUF, hs_addrs = replicate HINT_ADDRS (Sa_other AF_UNSPEC, 0),
                 hs_count = 0\<rparr>"

text \<open>\<open>dns_hints_fetch\<close> returns the place of the structure in the list.\<close>

fun dns_hints_fetch :: "dns_hints \<Rightarrow> bytes \<Rightarrow> nat option option" where
  "dns_hints_fetch [] zone = Some None"
| "dns_hints_fetch (soa # H) zone = do {
     c \<leftarrow> c_strcasecmp zone (hs_zone soa);
     if c = 0 then Some (Some 0)
     else do { r \<leftarrow> dns_hints_fetch H zone; Some (map_option Suc r) } }"

definition dns_hints_slot :: "dns_hints_soa \<Rightarrow> dns_sockaddr \<Rightarrow> u32 \<Rightarrow> dns_hints_soa option" where
  "dns_hints_slot soa sa priority = do {
     let i = hs_count soa mod HINT_ADDRS;
     len \<leftarrow> dns_sa_len sa;
     addrs \<leftarrow> wr (hs_addrs soa) i (sa, max 1 priority);
     Some (soa\<lparr>hs_addrs := addrs,
               hs_count := (if hs_count soa < HINT_ADDRS then hs_count soa + 1 else hs_count soa)\<rparr>) }"

definition dns_hints_insert :: "dns_hints \<Rightarrow> bytes \<Rightarrow> dns_sockaddr \<Rightarrow> u32 \<Rightarrow> dns_hints option" where
  "dns_hints_insert H zone sa priority = do {
     r \<leftarrow> dns_hints_fetch H zone;
     (H, n) \<leftarrow> (case r of
         Some n \<Rightarrow> Some (H, n)
       | None \<Rightarrow> do {
           len \<leftarrow> c_strlen zone;
           (z, _) \<leftarrow> dns__printstring NAMEBUF (DNS_D_MAXNAME + 1) 0 zone len;
           Some (hints_soa0\<lparr>hs_zone := z\<rparr> # H, 0) });
     soa \<leftarrow> dns_hints_slot (H ! n) sa priority;
     Some (H[n := soa]) }"

text \<open>The servers of the configuration, the first of them with priority \<open>p\<close>; the result counts
  them.\<close>

fun hints_insert_servers ::
    "bool \<Rightarrow> dns_hints \<Rightarrow> bytes \<Rightarrow> dns_sockaddr list \<Rightarrow> u32 \<Rightarrow> nat \<Rightarrow> (dns_hints \<times> nat) option" where
  "hints_insert_servers rot H zone [] p n = Some (H, n)"
| "hints_insert_servers rot H zone (sa # sas) p n =
     (if dns_sa_family sa = AF_UNSPEC then Some (H, n)
      else do {
        H \<leftarrow> dns_hints_insert H zone sa p;
        hints_insert_servers rot H zone sas (if rot then p else p + 1) (n + 1) })"

definition dns_hints_insert_resconf ::
    "dns_hints \<Rightarrow> bytes \<Rightarrow> dns_resolv_conf \<Rightarrow> (dns_hints \<times> nat) option" where
  "dns_hints_insert_resconf H zone rc =
     hints_insert_servers (rc_rotate rc) H zone (rc_nameserver rc) 1 0"

subsection \<open>Root hints\<close>

definition root_hints :: "(bool \<times> string) list" where
  "root_hints =
     [(False, ''198.41.0.4''), (True, ''2001:503:ba3e::2:30''), (False, ''192.228.79.201''),
      (True, ''2001:500:84::b''), (False, ''192.33.4.12''), (True, ''2001:500:2::c''),
      (False, ''199.7.91.13''), (True, ''2001:500:2d::d''), (False, ''192.203.230.10''),
      (False, ''192.5.5.241''), (True, ''2001:500:2f::f''), (False, ''192.112.36.4''),
      (False, ''128.63.2.53''), (True, ''2001:500:1::803f:235''), (False, ''192.36.148.17''),
      (True, ''2001:7FE::53''), (False, ''192.58.128.30''), (True, ''2001:503:c27::2:30''),
      (False, ''193.0.14.129''), (True, ''2001:7FD::1''), (False, ''199.7.83.42''),
      (True, ''2001:500:3::42''), (False, ''202.12.27.33''), (True, ''2001:DC3::35'')]"

fun root_hints_insert ::
    "inet_pton \<Rightarrow> (bool \<times> string) list \<Rightarrow> dns_hints \<Rightarrow> (dns_error + dns_hints) option" where
  "root_hints_insert pton [] H = Some (Inr H)"
| "root_hints_insert pton ((v6, addr) # rest) H =
     (case dns_pton pton (if v6 then AF_INET6 else AF_INET) (of_string addr @ [0]) of
        Inl e \<Rightarrow> Some (Inl e)
      | Inr a \<Rightarrow> do {
          H \<leftarrow> dns_hints_insert H [46, 0] (sa_of_addr 53 a) 1;
          root_hints_insert pton rest H })"

definition dns_hints_root :: "inet_pton \<Rightarrow> (dns_error + dns_hints) option" where
  "dns_hints_root pton = root_hints_insert pton root_hints []"

subsection \<open>The iterator\<close>

record dns_hints_i =
  hi_zone :: bytes
  hi_next :: nat
  hi_seed :: u32

text \<open>\<open>cmp\<close> is an \<open>int\<close>: the difference of two \<open>unsigned\<close> priorities is read as signed.\<close>

definition dns_hints_i_cmp :: "nat \<Rightarrow> nat \<Rightarrow> u32 \<Rightarrow> dns_hints_soa \<Rightarrow> int" where
  "dns_hints_i_cmp a b seed soa =
     (let cmp = sint (snd (hs_addrs soa ! a) - snd (hs_addrs soa ! b)) in
      if cmp \<noteq> 0 then cmp
      else int (dns_k_shuffle16 a seed) - int (dns_k_shuffle16 b seed))"

text \<open>\<open>for (p = 1; p < soa->count; p++)\<close> runs over the slots in order.\<close>

definition dns_hints_i_start :: "u32 \<Rightarrow> dns_hints_soa \<Rightarrow> nat" where
  "dns_hints_i_start seed soa =
     fold (\<lambda>p p0. if dns_hints_i_cmp p p0 seed soa < 0 then p else p0) [1..<hs_count soa] 0"

definition dns_hints_i_skip :: "nat \<Rightarrow> u32 \<Rightarrow> dns_hints_soa \<Rightarrow> nat" where
  "dns_hints_i_skip p0 seed soa =
     (case List.find (\<lambda>pZ. dns_hints_i_cmp pZ p0 seed soa > 0) [0..<hs_count soa] of
        None \<Rightarrow> hs_count soa
      | Some pZ \<Rightarrow>
          fold (\<lambda>p pZ. if dns_hints_i_cmp p p0 seed soa \<le> 0 then pZ
                       else if dns_hints_i_cmp p pZ seed soa \<ge> 0 then pZ else p)
            [pZ + 1..<hs_count soa] pZ)"

definition dns_hints_i_init :: "u32 \<Rightarrow> bytes \<Rightarrow> dns_hints \<Rightarrow> dns_hints_i option" where
  "dns_hints_i_init seed zone H = do {
     r \<leftarrow> dns_hints_fetch H zone;
     Some \<lparr>hi_zone = zone,
           hi_next = (case r of Some n \<Rightarrow> dns_hints_i_start seed (H ! n) | None \<Rightarrow> 0),
           hi_seed = seed\<rparr> }"

fun hints_grep_loop ::
    "nat \<Rightarrow> dns_hints_soa \<Rightarrow> dns_hints_i \<Rightarrow> (dns_sockaddr \<times> nat) list \<Rightarrow>
     ((dns_sockaddr \<times> nat) list \<times> dns_hints_i) option" where
  "hints_grep_loop 0 soa i acc = Some (acc, i)"
| "hints_grep_loop (Suc k) soa i acc =
     (if hi_next i < hs_count soa then do {
        (sa, _) \<leftarrow> rd (hs_addrs soa) (hi_next i);
        len \<leftarrow> dns_sa_len sa;
        hints_grep_loop k soa (i\<lparr>hi_next := dns_hints_i_skip (hi_next i) (hi_seed i) soa\<rparr>)
          (acc @ [(sa, len)]) }
      else Some (acc, i))"

definition dns_hints_grep ::
    "nat \<Rightarrow> dns_hints_i \<Rightarrow> dns_hints \<Rightarrow> ((dns_sockaddr \<times> nat) list \<times> dns_hints_i) option" where
  "dns_hints_grep lim i H = do {
     r \<leftarrow> dns_hints_fetch H (hi_zone i);
     (case r of
        None \<Rightarrow> Some ([], i)
      | Some n \<Rightarrow> hints_grep_loop lim (H ! n) i []) }"

subsection \<open>The answer packet\<close>

text \<open>A query packet without a question leaves \<open>error\<close> unset, which is a \<open>None\<close> here.\<close>

definition hints_local :: bytes where "hints_local = of_string ''hints.local.''"

definition sa_any :: "dns_sockaddr \<Rightarrow> dns_any option" where
  "sa_any sa = (case dns_sa_addr sa of
     Some (Inl a4) \<Rightarrow> Some (Any_a a4) | Some (Inr a6) \<Rightarrow> Some (Any_aaaa a6) | None \<Rightarrow> None)"

definition hints_query_addr_step ::
    "dns_hints \<Rightarrow> dns_hints_i \<times> dns_packet \<Rightarrow>
     (dns_hints_i \<times> dns_packet + dns_error + dns_packet) option" where
  "hints_query_addr_step H = (\<lambda>(i, P). do {
     (sas, i) \<leftarrow> dns_hints_grep 1 i H;
     (case sas of
        [] \<Rightarrow> Some (Inr (Inr P))
      | (sa, _) # _ \<Rightarrow> do {
          any \<leftarrow> sa_any sa;
          (P, e) \<leftarrow> dns_p_push P DNS_S_AR hints_local 12
            (if dns_sa_family sa = AF_INET6 then DNS_T_AAAA else DNS_T_A) DNS_C_IN 0 any;
          Some (case e of Some error \<Rightarrow> Inr (Inl error) | None \<Rightarrow> Inl (i, P)) }) })"

text \<open>The \<open>do\<close> loop over the zone and its parents; \<open>seeds\<close> is what \<open>dns_random\<close> gives to each
  round.\<close>

definition hints_query_zone_step ::
    "(nat \<Rightarrow> u32) \<Rightarrow> dns_hints \<Rightarrow> bytes \<times> nat \<times> dns_packet \<times> nat \<Rightarrow>
     (bytes \<times> nat \<times> dns_packet \<times> nat + dns_error + dns_packet) option" where
  "hints_query_zone_step seeds H = (\<lambda>(zone, zlen, P, k). do {
     i \<leftarrow> dns_hints_i_init (seeds k) zone H;
     r \<leftarrow> c_while (hints_query_addr_step H) (i, P);
     (case r of
        Inl e \<Rightarrow> Some (Inr (Inl e))
      | Inr P \<Rightarrow> do {
          (zone, zlen) \<leftarrow> dns_d_cleave zone (DNS_D_MAXNAME + 1) zone zlen;
          Some (if zlen \<noteq> 0 then Inl (zone, zlen, P, k + 1) else Inr (Inr P)) }) })"

text \<open>\<open>dns_header(P)->qr = 1\<close>.\<close>

definition hd_set_qr :: "dns_packet \<Rightarrow> dns_packet" where
  "hd_set_qr P = P\<lparr>p_data := (p_data P)[2 := p_data P ! 2 OR 128]\<rparr>"

definition dns_hints_query ::
    "dns_any \<Rightarrow> (nat \<Rightarrow> u32) \<Rightarrow> dns_hints \<Rightarrow> dns_packet \<Rightarrow> (dns_error + dns_packet) option" where
  "dns_hints_query junk seeds H Q = do {
     (rrs, _, e) \<leftarrow> dns_rr_grep junk 1 1 (rr_i0\<lparr>i_section := DNS_S_QD\<rparr>) Q;
     (case rrs of
        [] \<Rightarrow> (case e of Some error \<Rightarrow> Some (Inl error) | None \<Rightarrow> None)
      | rr # _ \<Rightarrow> do {
     (zone, r) \<leftarrow> dns_d_expand NAMEBUF (DNS_D_MAXNAME + 1) (rr_dn_p rr) Q;
     (case r of
        Inl error \<Rightarrow> Some (Inl error)
      | Inr zlen \<Rightarrow>
     (if zlen \<ge> DNS_D_MAXNAME + 1 then Some (Inl DNS_EILLEGAL)
      else do {
     P \<leftarrow> dns_p_make 512;
     (P, e) \<leftarrow> dns_rr_copy (hd_set_qr P) rr Q;
     (case e of
        Some error \<Rightarrow> Some (Inl error)
      | None \<Rightarrow> do {
     (P, e) \<leftarrow> dns_p_push P DNS_S_NS [46] 1 DNS_T_NS DNS_C_IN 0 (Any_ns (hints_local @ [0]));
     (case e of
        Some error \<Rightarrow> Some (Inl error)
      | None \<Rightarrow> do {
     r \<leftarrow> c_while (hints_query_zone_step seeds H) (zone, zlen, P, 0);
     (case r of
        Inl error \<Rightarrow> Some (Inl error)
      | Inr P \<Rightarrow> do {
          A \<leftarrow> dns_p_make (p_end P);
          A \<leftarrow> dns_p_copy A P;
          Some (Inr A) }) }) }) })) }) }"

text \<open>The port of a server given by its address, \<open>53\<close> if it is not listed.\<close>

definition sa_same_addr :: "nat + bytes \<Rightarrow> dns_sockaddr \<Rightarrow> bool option" where
  "sa_same_addr addr sa =
     (case (addr, dns_sa_addr sa) of
        (Inl a, Some (Inl b)) \<Rightarrow> Some (a = b)
      | (Inr a, Some (Inr b)) \<Rightarrow> do { c \<leftarrow> c_memcmp a b 16; Some (c = 0) }
      | _ \<Rightarrow> Some False)"

fun hints_port_slots :: "nat + bytes \<Rightarrow> (dns_sockaddr \<times> u32) list \<Rightarrow> nat option option" where
  "hints_port_slots addr [] = Some None"
| "hints_port_slots addr ((sa, _) # sas) = do {
     m \<leftarrow> sa_same_addr addr sa;
     if m then Some (Some (if dns_sa_port sa \<noteq> 0 then dns_sa_port sa else 53))
     else hints_port_slots addr sas }"

fun dns_hints_port :: "dns_hints \<Rightarrow> nat + bytes \<Rightarrow> nat option" where
  "dns_hints_port [] addr = Some 53"
| "dns_hints_port (soa # H) addr = do {
     r \<leftarrow> hints_port_slots addr (take (hs_count soa) (hs_addrs soa));
     (case r of Some port \<Rightarrow> Some port | None \<Rightarrow> dns_hints_port H addr) }"

subsection \<open>The order of the servers\<close>

text \<open>The slots in use whose priorities the signed comparison can tell apart, and the key by
  which it orders them: the priority, then the shuffled slot number.\<close>

definition hint_slots :: "dns_hints_soa \<Rightarrow> nat list" where
  "hint_slots soa = filter (\<lambda>p. unat (snd (hs_addrs soa ! p)) < 2 ^ 31) [0..<min (hs_count soa) HINT_ADDRS]"

definition hint_key :: "u32 \<Rightarrow> dns_hints_soa \<Rightarrow> nat \<Rightarrow> nat \<times> nat" where
  "hint_key seed soa p = (unat (snd (hs_addrs soa ! p)), dns_k_shuffle16 p seed)"

definition hint_order :: "u32 \<Rightarrow> dns_hints_soa \<Rightarrow> nat list" where
  "hint_order seed soa = sort_key (hint_key seed soa) [0..<hs_count soa]"

interpretation hint_sel: selection "\<lambda>a b. dns_hints_i_cmp a b seed soa" "hint_slots soa"
  "hint_key seed soa" for seed soa
proof
  fix a b assume "a \<in> set (hint_slots soa)" "b \<in> set (hint_slots soa)"
  then have small: "unat (snd (hs_addrs soa ! a)) < 2 ^ 31" "unat (snd (hs_addrs soa ! b)) < 2 ^ 31"
    by (auto simp: hint_slots_def)
  define m n where mn: "m = unat (snd (hs_addrs soa ! a))" "n = unat (snd (hs_addrs soa ! b))"
  have "sint (snd (hs_addrs soa ! a) - snd (hs_addrs soa ! b)) = int m - int n"
    unfolding mn by (rule sint_sub_small [OF small])
  then have cmp: "dns_hints_i_cmp a b seed soa =
      (if m = n then int (dns_k_shuffle16 a seed) - int (dns_k_shuffle16 b seed) else int m - int n)"
    by (simp add: dns_hints_i_cmp_def Let_def)
  have key: "hint_key seed soa a = (m, dns_k_shuffle16 a seed)"
    "hint_key seed soa b = (n, dns_k_shuffle16 b seed)"
    by (simp_all only: hint_key_def mn)
  show "dns_hints_i_cmp a b seed soa < 0 \<longleftrightarrow> hint_key seed soa a < hint_key seed soa b"
    and "dns_hints_i_cmp a b seed soa > 0 \<longleftrightarrow> hint_key seed soa b < hint_key seed soa a"
    unfolding cmp key by (auto simp: less_prod_simp)
next
  show "inj_on (hint_key seed soa) (set (hint_slots soa))"
  proof (rule inj_onI)
    fix a b assume "a \<in> set (hint_slots soa)" "b \<in> set (hint_slots soa)"
      and "hint_key seed soa a = hint_key seed soa b"
    then have "a < 65536" "b < 65536" "dns_k_shuffle16 a seed = dns_k_shuffle16 b seed"
      by (simp_all add: hint_slots_def hint_key_def HINT_ADDRS_def)
    then show "a = b" using dns_k_shuffle16_inj by blast
  qed
  show "distinct (hint_slots soa)" by (simp add: hint_slots_def)
qed

lemma dns_hints_i_start_scan:
  "dns_hints_i_start seed soa = scan_least (\<lambda>a b. dns_hints_i_cmp a b seed soa) 0 [1..<hs_count soa]"
  by (simp add: dns_hints_i_start_def fold_scan_least)

lemma dns_hints_i_skip_scan:
  "dns_hints_i_skip p0 seed soa =
   (case scan_next (\<lambda>a b. dns_hints_i_cmp a b seed soa) [0..<hs_count soa] p0 of
      None \<Rightarrow> hs_count soa | Some p \<Rightarrow> p)"
  using find_upt_dropWhile [of "\<lambda>p. dns_hints_i_cmp p p0 seed soa > 0" 0 "hs_count soa"]
    fold_scan_above [of "\<lambda>a b. dns_hints_i_cmp a b seed soa" p0]
  by (simp add: dns_hints_i_skip_def scan_next_def not_less split: option.splits)

text \<open>A structure the library itself could have built, with priorities below \<open>2^31\<close>.\<close>

definition wf_hints_soa :: "dns_hints_soa \<Rightarrow> bool" where
  "wf_hints_soa soa \<longleftrightarrow>
     length (hs_addrs soa) = HINT_ADDRS \<and> hs_count soa \<le> HINT_ADDRS \<and>
     (\<forall>p < hs_count soa. unat (snd (hs_addrs soa ! p)) < 2 ^ 31 \<and>
                         dns_sa_len (fst (hs_addrs soa ! p)) \<noteq> None)"

lemma hint_slots_all: "wf_hints_soa soa \<Longrightarrow> hint_slots soa = [0..<hs_count soa]"
  by (auto simp: wf_hints_soa_def hint_slots_def min_def filter_id_conv)

definition hint_at :: "u32 \<Rightarrow> dns_hints_soa \<Rightarrow> nat \<Rightarrow> nat" where
  "hint_at seed soa j = (if j < hs_count soa then hint_order seed soa ! j else hs_count soa)"

lemma hints_start_at:
  assumes "wf_hints_soa soa" "0 < hs_count soa"
  shows "dns_hints_i_start seed soa = hint_at seed soa 0"
  using hint_sel.start_first [of soa 0 "[1..<hs_count soa]" seed] assms
  by (simp add: dns_hints_i_start_scan hint_at_def hint_order_def hint_slots_all upt_rec)

lemma hints_skip_at:
  assumes "wf_hints_soa soa" "j < hs_count soa"
  shows "dns_hints_i_skip (hint_at seed soa j) seed soa = hint_at seed soa (Suc j)"
  using hint_sel.next_Suc [of j soa seed] assms
  by (simp add: dns_hints_i_skip_scan hint_at_def hint_order_def hint_slots_all)

lemma hint_at_less: "hint_at seed soa j < hs_count soa \<longleftrightarrow> j < hs_count soa"
proof -
  have "hint_order seed soa ! j \<in> set [0..<hs_count soa]" if "j < hs_count soa"
    using nth_mem [of j "hint_order seed soa"] that by (simp add: hint_order_def)
  then show ?thesis by (auto simp: hint_at_def)
qed

text \<open>What a caller of \<open>dns_hints_grep\<close> gets for slot \<open>p\<close>.\<close>

definition hint_server :: "dns_hints_soa \<Rightarrow> nat \<Rightarrow> dns_sockaddr \<times> nat" where
  "hint_server soa p = (let sa = fst (hs_addrs soa ! p) in (sa, the (dns_sa_len sa)))"

lemma hints_grep_loop_order:
  assumes "wf_hints_soa soa"
  shows "hi_next i = hint_at (hi_seed i) soa j \<Longrightarrow> j \<le> hs_count soa \<Longrightarrow>
    hints_grep_loop k soa i acc =
      Some (acc @ map (hint_server soa) (take k (drop j (hint_order (hi_seed i) soa))),
            i\<lparr>hi_next := hint_at (hi_seed i) soa (min (j + k) (hs_count soa))\<rparr>)"
proof (induction k arbitrary: i j acc)
  case 0
  then show ?case by (simp add: min_absorb1)
next
  case (Suc k)
  let ?s = "hi_seed i"
  show ?case
  proof (cases "j < hs_count soa")
    case True
    let ?p = "hint_order ?s soa ! j"
    have p: "hi_next i = ?p" using True Suc.prems by (simp add: hint_at_def)
    have "?p < hs_count soa" using hint_at_less [of ?s soa j] True by (simp add: hint_at_def)
    then have ok: "?p < length (hs_addrs soa)" "dns_sa_len (fst (hs_addrs soa ! ?p)) \<noteq> None"
      using assms by (auto simp: wf_hints_soa_def)
    then obtain len where len: "dns_sa_len (fst (hs_addrs soa ! ?p)) = Some len" by auto
    have d: "drop j (hint_order ?s soa) = ?p # drop (Suc j) (hint_order ?s soa)"
      using True by (simp add: Cons_nth_drop_Suc hint_order_def)
    have "hints_grep_loop (Suc k) soa i acc =
        hints_grep_loop k soa (i\<lparr>hi_next := dns_hints_i_skip ?p ?s soa\<rparr>) (acc @ [hint_server soa ?p])"
      using \<open>?p < hs_count soa\<close> ok(1) len
      by (cases "hs_addrs soa ! ?p") (simp add: p hint_server_def)
    also have "\<dots> = Some (acc @ map (hint_server soa) (take (Suc k) (drop j (hint_order ?s soa))),
            i\<lparr>hi_next := hint_at ?s soa (min (j + Suc k) (hs_count soa))\<rparr>)"
      using Suc.IH [of "i\<lparr>hi_next := dns_hints_i_skip ?p ?s soa\<rparr>" "Suc j" "acc @ [hint_server soa ?p]"]
        hints_skip_at [OF assms True, of ?s] True d
      by (simp add: hint_at_def)
    finally show ?thesis .
  next
    case False
    then show ?thesis using Suc.prems by (simp add: hint_at_def hint_order_def)
  qed
qed

lemma dns_hints_i_init_at:
  assumes "dns_hints_fetch H zone = Some (Some n)" "wf_hints_soa (H ! n)" "0 < hs_count (H ! n)"
  shows "dns_hints_i_init seed zone H =
           Some \<lparr>hi_zone = zone, hi_next = hint_at seed (H ! n) 0, hi_seed = seed\<rparr>"
  using assms by (simp add: dns_hints_i_init_def hints_start_at)

text \<open>C9: for a zone with hint servers, the iterator hands out each server exactly once, in order of
  priority and by the shuffled slot number within one priority, however the caller splits the
  enumeration into calls: a first call for \<open>k\<close> servers and a second for \<open>m\<close> more give the first
  \<open>k + m\<close> of that order.\<close>

theorem dns_hints_grep_order:
  assumes "dns_hints_fetch H zone = Some (Some n)" "wf_hints_soa (H ! n)" "0 < hs_count (H ! n)"
  shows "do { i \<leftarrow> dns_hints_i_init seed zone H;
              (sas, i) \<leftarrow> dns_hints_grep k i H;
              (sas', i) \<leftarrow> dns_hints_grep m i H;
              Some (sas @ sas') } =
         Some (map (hint_server (H ! n)) (take (k + m) (hint_order seed (H ! n))))"
proof -
  let ?c = "hs_count (H ! n)"
  have "drop (min k ?c) (hint_order seed (H ! n)) = drop k (hint_order seed (H ! n))"
    by (auto simp: min_def hint_order_def)
  then show ?thesis
    using assms hints_grep_loop_order [OF assms(2), of "\<lparr>hi_zone = zone, hi_next = hint_at seed (H ! n) 0, hi_seed = seed\<rparr>" 0 k "[]"]
     hints_grep_loop_order [OF assms(2), of "\<lparr>hi_zone = zone, hi_next = hint_at seed (H ! n) (min k ?c), hi_seed = seed\<rparr>" "min k ?c" m "[]"]
    by (simp add: dns_hints_i_init_at dns_hints_grep_def take_add)
qed

text \<open>Two servers of the root zone, the second listed with the better priority.\<close>

definition hints_example :: dns_hints where
  "hints_example =
     [\<lparr>hs_zone = [46, 0],
       hs_addrs = [(Sin 53 1, 2), (Sin 53 2, 1)] @ replicate 14 (Sa_other AF_UNSPEC, 0),
       hs_count = 2\<rparr>]"

lemma hints_example_facts:
  "dns_hints_fetch hints_example [46, 0] = Some (Some 0)" "wf_hints_soa (hints_example ! 0)"
  "0 < hs_count (hints_example ! 0)"
proof -
  show "dns_hints_fetch hints_example [46, 0] = Some (Some 0)"
    by (simp add: hints_example_def)
  show "wf_hints_soa (hints_example ! 0)"
    by (auto simp: wf_hints_soa_def hints_example_def c_defs dns_sa_len_def dns_af_len_def less_2_cases_iff)
qed (simp add: hints_example_def)

theorem dns_hints_grep_order_witness:
  "do { i \<leftarrow> dns_hints_i_init 7 [46, 0] hints_example;
        (sas, i) \<leftarrow> dns_hints_grep 1 i hints_example;
        (sas', i) \<leftarrow> dns_hints_grep 1 i hints_example;
        Some (sas @ sas') } =
   Some (map (hint_server (hints_example ! 0)) (take 2 (hint_order 7 (hints_example ! 0))))"
  using dns_hints_grep_order [OF hints_example_facts, of 7 1 1] by (simp add: numeral_2_eq_2)

subsection \<open>Insertion\<close>

lemma dns_hints_slot_wf:
  assumes "wf_hints_soa soa" "unat priority < 2 ^ 31" "dns_hints_slot soa sa priority = Some soa'"
  shows "wf_hints_soa soa'"
proof -
  have m: "unat (max 1 priority) < 2 ^ 31" using assms(2) by (simp add: max_def)
  have "hs_count soa mod HINT_ADDRS < HINT_ADDRS" by (simp add: HINT_ADDRS_def)
  with assms m show ?thesis
    by (auto simp: dns_hints_slot_def wf_hints_soa_def nth_list_update mod_if wr_def
        split: bind_splits if_splits)
qed

lemma hints_soa0_wf: "wf_hints_soa (hints_soa0\<lparr>hs_zone := z\<rparr>)"
  by (simp add: wf_hints_soa_def hints_soa0_def)

lemma dns_hints_fetch_less: "dns_hints_fetch H zone = Some (Some n) \<Longrightarrow> n < length H"
  by (induction H arbitrary: n) (auto split: bind_splits if_splits)

text \<open>\<open>dns_hints_insert\<close> keeps the hint table well formed: at most sixteen servers in each zone,
  each with a length of its own address family and a priority the iterator orders correctly.\<close>

theorem dns_hints_insert_wf:
  assumes "\<forall>soa \<in> set H. wf_hints_soa soa" "unat priority < 2 ^ 31"
    "dns_hints_insert H zone sa priority = Some H'"
  shows "\<forall>soa \<in> set H'. wf_hints_soa soa"
proof -
  obtain r where r: "dns_hints_fetch H zone = Some r"
    using assms(3) by (auto simp: dns_hints_insert_def split: bind_splits)
  obtain H1 n where H1: "\<forall>soa \<in> set H1. wf_hints_soa soa" "n < length H1"
    and rest: "do { soa \<leftarrow> dns_hints_slot (H1 ! n) sa priority; Some (H1[n := soa]) } = Some H'"
  proof (cases r)
    case None
    then obtain z where "do { soa \<leftarrow> dns_hints_slot ((hints_soa0\<lparr>hs_zone := z\<rparr> # H) ! 0) sa priority;
        Some ((hints_soa0\<lparr>hs_zone := z\<rparr> # H)[0 := soa]) } = Some H'"
      using assms(3) r by (auto simp: dns_hints_insert_def split: bind_splits)
    then show thesis using that [of "hints_soa0\<lparr>hs_zone := z\<rparr> # H" 0] assms(1) hints_soa0_wf by simp
  next
    case (Some n)
    then show thesis using that [of H n] assms(1,3) r dns_hints_fetch_less by (simp add: dns_hints_insert_def)
  qed
  then obtain soa where slot: "dns_hints_slot (H1 ! n) sa priority = Some soa" and H': "H' = H1[n := soa]"
    by (auto split: bind_splits)
  have "wf_hints_soa soa" using dns_hints_slot_wf [OF _ assms(2) slot] H1 by simp
  then show ?thesis using H1 set_update_subset_insert [of H1 n soa] unfolding H' by blast
qed

theorem dns_hints_insert_wf_witness:
  "\<exists>H. dns_hints_insert hints_example [46, 0] (Sin 53 9) 3 = Some H \<and>
        (\<forall>soa \<in> set H. wf_hints_soa soa)"
proof -
  obtain H where H: "dns_hints_insert hints_example [46, 0] (Sin 53 9) 3 = Some H"
    by (simp add: dns_hints_insert_def hints_example_facts(1) dns_hints_slot_def dns_sa_len_def
        dns_af_len_def hints_example_def c_defs)
  have "\<forall>soa \<in> set hints_example. wf_hints_soa soa"
    using hints_example_facts(2) by (simp add: hints_example_def)
  then have "\<forall>soa \<in> set H. wf_hints_soa soa" using dns_hints_insert_wf [OF _ _ H] by simp
  with H show ?thesis by blast
qed

text \<open>once the sixteen slots of a zone are in use, every further server takes slot 0 and
  displaces the one inserted before it: of two servers inserted then, only the second remains.\<close>

theorem dns_hints_insert_overwrites:
  assumes "hs_count soa = HINT_ADDRS" "dns_hints_slot soa a p = Some soa1"
    "dns_hints_slot soa1 b q = Some soa2"
  shows "hs_addrs soa2 = (hs_addrs soa)[0 := (b, max 1 q)]"
  using assms by (auto simp: dns_hints_slot_def wr_def split: bind_splits if_splits)

theorem dns_hints_insert_overwrites_witness:
  "\<exists>soa1 soa2. dns_hints_slot (hints_soa0\<lparr>hs_count := 16\<rparr>) (Sin 53 1) 1 = Some soa1 \<and>
     dns_hints_slot soa1 (Sin 53 2) 1 = Some soa2 \<and>
     hs_addrs soa2 = (hs_addrs hints_soa0)[0 := (Sin 53 2, 1)]"
proof -
  let ?s = "hints_soa0\<lparr>hs_count := 16\<rparr>"
  obtain soa1 where 1: "dns_hints_slot ?s (Sin 53 1) 1 = Some soa1" "length (hs_addrs soa1) = 16"
    "hs_count soa1 = 16"
    by (simp add: dns_hints_slot_def dns_sa_len_def dns_af_len_def hints_soa0_def c_defs)
  then obtain soa2 where 2: "dns_hints_slot soa1 (Sin 53 2) 1 = Some soa2"
    by (simp add: dns_hints_slot_def dns_sa_len_def dns_af_len_def c_defs)
  have "hs_addrs soa2 = (hs_addrs ?s)[0 := (Sin 53 2, max 1 1)]"
    using dns_hints_insert_overwrites [OF _ 1(1) 2] by (simp add: HINT_ADDRS_def)
  with 1 2 show ?thesis by auto
qed

end
