(* ===== verification/Misc.thy ===== *)
theory Misc
  imports Iter
begin

section \<open>Names of sections, classes, types and codes\<close>

text \<open>
  MISCELLANEOUS ROUTINES of \<open>dns.c\<close> and \<open>dns_rr_print\<close>, which is written with them. A printer
  fills its buffer and returns it; the tables \<open>dns_opcodes\<close> and \<open>dns_rcodes\<close>, which the
  printers fill in as they go, are a state that is passed on.
\<close>

definition dns_sections :: "(string \<times> nat) list" where
  "dns_sections =
     [(''QUESTION'', DNS_S_QD), (''QD'', DNS_S_QD), (''ANSWER'', DNS_S_AN), (''AN'', DNS_S_AN),
      (''AUTHORITY'', DNS_S_NS), (''NS'', DNS_S_NS), (''ADDITIONAL'', DNS_S_AR), (''AR'', DNS_S_AR)]"

definition dns_classes :: "(string \<times> nat) list" where
  "dns_classes = [(''IN'', DNS_C_IN)]"

fun strsection_loop ::
    "(string \<times> nat) list \<Rightarrow> nat \<Rightarrow> bytes \<Rightarrow> nat \<Rightarrow> nat \<Rightarrow> (bytes \<times> nat \<times> nat) option" where
  "strsection_loop [] sect dst lim p = Some (dst, p, sect)"
| "strsection_loop ((name, type) # ss) sect dst lim p =
     (if type AND sect \<noteq> 0 then do {
        (dst, p) \<leftarrow> (if p > 0 then do { (dst, n) \<leftarrow> dns__printchar dst lim p 124; Some (dst, p + n) }
                    else Some (dst, p));
        (dst, n) \<leftarrow> dns__printstring dst lim p (of_string name) (length name);
        strsection_loop ss (sect - (sect AND type)) dst lim (p + n) }
      else strsection_loop ss sect dst lim p)"

definition dns_strsection :: "nat \<Rightarrow> bytes \<Rightarrow> nat \<Rightarrow> bytes option" where
  "dns_strsection sect dst lim = do {
     (dst, p, sect) \<leftarrow> strsection_loop dns_sections sect dst lim 0;
     (dst, p) \<leftarrow> (if p = 0 then dns__print10 dst lim 0 (65535 AND sect) 0 else Some (dst, p));
     dns__printnul dst lim p }"

text \<open>\<open>strcasecmp\<close> of a C string with a literal; the row of a table it finds.\<close>

definition str_eq :: "string \<Rightarrow> bytes \<Rightarrow> bool option" where
  "str_eq s bs = do { c \<leftarrow> c_strcasecmp (of_string s @ [0]) bs; Some (c = 0) }"

fun str_find :: "(string \<times> 'a) list \<Rightarrow> bytes \<Rightarrow> 'a option option" where
  "str_find [] bs = Some None"
| "str_find ((s, a) # rows) bs = do { e \<leftarrow> str_eq s bs; if e then Some (Some a) else str_find rows bs }"

text \<open>\<open>strsep\<close> with the delimiters of \<open>dns_isection\<close>: the tokens of a string.\<close>

definition is_sep :: "byte \<Rightarrow> bool" where
  "is_sep c \<longleftrightarrow> c = 124 \<or> c = 43 \<or> c = 44 \<or> c = 32 \<or> c = 9"

fun strsep_all :: "bytes \<Rightarrow> bytes \<Rightarrow> bytes list option" where
  "strsep_all [] tok = None"
| "strsep_all (c # cs) tok =
     (if c = 0 then Some [tok]
      else if is_sep c then map_option ((#) tok) (strsep_all cs [])
      else strsep_all cs (tok @ [c]))"

fun isection_loop :: "bytes list \<Rightarrow> nat \<Rightarrow> nat option" where
  "isection_loop [] sect = Some sect"
| "isection_loop (name # names) sect = do {
     r \<leftarrow> str_find dns_sections (name @ [0]);
     isection_loop names (case r of Some t \<Rightarrow> sect OR t | None \<Rightarrow> sect) }"

definition dns_isection :: "bytes \<Rightarrow> nat option" where
  "dns_isection src = do {
     (sbuf, _) \<leftarrow> dns_strlcpy (replicate 128 0) src 128;
     names \<leftarrow> strsep_all sbuf [];
     isection_loop names 0 }"

definition print_name :: "string option \<Rightarrow> nat \<Rightarrow> bytes \<Rightarrow> nat \<Rightarrow> bytes option" where
  "print_name name n dst lim = do {
     (dst, p) \<leftarrow> (case name of
         Some s \<Rightarrow> dns__printstring dst lim 0 (of_string s) (length s)
       | None \<Rightarrow> dns__print10 dst lim 0 (65535 AND n) 0);
     dns__printnul dst lim p }"

definition row_of :: "nat \<Rightarrow> (string \<times> nat) list \<Rightarrow> string option" where
  "row_of n rows = map_option fst (List.find (\<lambda>(s, t). t = n) rows)"

definition dns_strclass :: "nat \<Rightarrow> bytes \<Rightarrow> nat \<Rightarrow> bytes option" where
  "dns_strclass type dst lim = print_name (row_of type dns_classes) type dst lim"

definition dns_iclass :: "bytes \<Rightarrow> nat option" where
  "dns_iclass name = do {
     r \<leftarrow> str_find dns_classes name; Some (case r of Some t \<Rightarrow> t | None \<Rightarrow> 0) }"

definition rrtype_names :: "(string \<times> nat) list" where
  "rrtype_names = List.map (\<lambda>(t, s, k). (s, t)) dns_rrtypes"

definition dns_strtype :: "nat \<Rightarrow> bytes \<Rightarrow> nat \<Rightarrow> bytes option" where
  "dns_strtype type dst lim = print_name (row_of type rrtype_names) type dst lim"

definition dns_itype :: "bytes \<Rightarrow> nat option" where
  "dns_itype type = do {
     r \<leftarrow> str_find rrtype_names type; Some (case r of Some t \<Rightarrow> t | None \<Rightarrow> 0) }"

subsection \<open>The tables that fill in\<close>

text \<open>\<open>char [16][16]\<close>: each row a buffer of 16 bytes.\<close>

definition code_row :: "string \<Rightarrow> bytes" where
  "code_row s = of_string s @ replicate (16 - length s) 0"

definition dns_opcodes :: "bytes list" where
  "dns_opcodes = List.map code_row
     ([''QUERY'', ''IQUERY'', ''STATUS'', '''', ''NOTIFY'', ''UPDATE''] @ replicate 10 '''')"

definition dns_rcodes :: "bytes list" where
  "dns_rcodes = List.map code_row
     ([''NOERROR'', ''FORMERR'', ''SERVFAIL'', ''NXDOMAIN'', ''NOTIMP'', ''REFUSED'', ''YXDOMAIN'',
       ''YXRRSET'', ''NXRRSET'', ''NOTAUTH'', ''NOTZONE''] @ replicate 5 '''')"

text \<open>\<open>dns_stropcode\<close> and \<open>dns_strrcode\<close> on their tables: the row asked for is filled in when it
  is empty.\<close>

definition strcode :: "bytes list \<Rightarrow> nat \<Rightarrow> (bytes list \<times> bytes) option" where
  "strcode tab code0 = do {
     let code = 15 AND code0;
     row \<leftarrow> rd tab code;
     c \<leftarrow> rd row 0;
     row \<leftarrow> (if c = 0 then do {
        (row, n) \<leftarrow> dns__print10 row 16 0 code 0;
        dns__printnul row 16 n } else Some row);
     Some (tab[code := row], row) }"

definition dns_stropcode :: "bytes list \<Rightarrow> nat \<Rightarrow> (bytes list \<times> bytes) option" where
  "dns_stropcode opcodes opcode = strcode opcodes opcode"

definition dns_strrcode :: "bytes list \<Rightarrow> nat \<Rightarrow> (bytes list \<times> bytes) option" where
  "dns_strrcode rcodes rcode = strcode rcodes rcode"

fun icode_loop :: "bytes \<Rightarrow> bytes list \<Rightarrow> nat \<Rightarrow> nat option" where
  "icode_loop name [] code = Some 15"
| "icode_loop name (row # rows) code = do {
     c \<leftarrow> c_strcasecmp name row;
     if c = 0 then Some code else icode_loop name rows (code + 1) }"

definition dns_iopcode :: "bytes list \<Rightarrow> bytes \<Rightarrow> nat option" where
  "dns_iopcode opcodes name = icode_loop name opcodes 0"

definition dns_ircode :: "bytes list \<Rightarrow> bytes \<Rightarrow> nat option" where
  "dns_ircode rcodes name = icode_loop name rcodes 0"

subsection \<open>Printing a record\<close>

definition STRMAX :: nat where [c_defs]: "STRMAX = 48"

text \<open>\<open>inet_ntop\<close> for the two families are the arguments \<open>ntop4\<close> and \<open>ntop6\<close>. The name is
  expanded behind what is already printed, and the data printed behind that, each into the
  rest of the buffer.\<close>

definition print_at ::
    "bytes \<Rightarrow> nat \<Rightarrow> nat \<Rightarrow> (bytes \<Rightarrow> nat \<Rightarrow> (bytes \<times> 'a) option) \<Rightarrow> (bytes \<times> 'a) option" where
  "print_at dst lim cp f =
     (if cp < lim then do {
        (part, x) \<leftarrow> f (drop cp dst) (lim - cp);
        Some (take cp dst @ part, x) }
      else do { (_, x) \<leftarrow> f [] 0; Some (dst, x) })"

definition rr_print_head ::
    "bytes \<Rightarrow> nat \<Rightarrow> dns_rr \<Rightarrow> dns_packet \<Rightarrow> (bytes \<times> (dns_error + nat)) option" where
  "rr_print_head dst lim rr P = do {
     (dst, cp) \<leftarrow> (if rr_section rr = DNS_S_QD then dns__printchar dst lim 0 59 else Some (dst, 0));
     (dst, r) \<leftarrow> print_at dst lim cp (\<lambda>d l. dns_d_expand d l (rr_dn_p rr) P);
     (case r of
        Inl e \<Rightarrow> Some (dst, Inl e)
      | Inr n \<Rightarrow> do {
          let cp = cp + n;
          (dst, cp) \<leftarrow>
            (if rr_section rr \<noteq> DNS_S_QD then do {
               (dst, n) \<leftarrow> dns__printchar dst lim cp 32;
               let cp = cp + n;
               (dst, n) \<leftarrow> dns__print10 dst lim cp (rr_ttl rr) 0;
               Some (dst, cp + n) }
             else Some (dst, cp));
          (dst, n) \<leftarrow> dns__printchar dst lim cp 32;
          let cp = cp + n;
          s \<leftarrow> dns_strclass (rr_klass rr) (replicate STRMAX 0) STRMAX;
          len \<leftarrow> c_strlen s;
          (dst, n) \<leftarrow> dns__printstring dst lim cp s len;
          let cp = cp + n;
          (dst, n) \<leftarrow> dns__printchar dst lim cp 32;
          let cp = cp + n;
          s \<leftarrow> dns_strtype (rr_type rr) (replicate STRMAX 0) STRMAX;
          len \<leftarrow> c_strlen s;
          (dst, n) \<leftarrow> dns__printstring dst lim cp s len;
          Some (dst, Inr (cp + n)) }) }"

definition dns_rr_print ::
    "(dns_a \<Rightarrow> bytes) \<Rightarrow> (dns_aaaa \<Rightarrow> bytes) \<Rightarrow> bytes \<Rightarrow> nat \<Rightarrow> dns_rr \<Rightarrow> dns_packet \<Rightarrow>
     (bytes \<times> (dns_error + nat)) option" where
  "dns_rr_print ntop4 ntop6 dst lim rr P = do {
     (dst, r) \<leftarrow> rr_print_head dst lim rr P;
     (case r of
        Inl e \<Rightarrow> Some (dst, Inl e)
      | Inr cp \<Rightarrow>
         (if rr_section rr = DNS_S_QD then do {
            dst \<leftarrow> dns__printnul dst lim cp; Some (dst, Inr cp) }
          else do {
            (dst, n) \<leftarrow> dns__printchar dst lim cp 32;
            let cp = cp + n;
            a \<leftarrow> dns_any_parse dns_any_init rr P;
            (case a of
               Inl e \<Rightarrow> Some (dst, Inl e)
             | Inr any \<Rightarrow> do {
                 (dst, n) \<leftarrow> print_at dst lim cp (\<lambda>d l. dns_any_print ntop4 ntop6 d l any (rr_type rr));
                 let cp = cp + n;
                 dst \<leftarrow> dns__printnul dst lim cp;
                 Some (dst, Inr cp) }) })) }"

end
