(* ===== verification/Socket.thy ===== *)
theory Socket
  imports Hosts Crypto
begin

unbundle bit_operations_syntax

section \<open>Sockets\<close>

text \<open>
  SOCKET ROUTINES of \<open>dns.c\<close> with the clock, \<open>dns_poll\<close> and \<open>dns_options\<close>: one exchange of a
  query and its answer over UDP, with the fall back to TCP. The operating system is the
  parameter \<open>os\<close>, a record of its calls on a state \<open>'w\<close> that every call may change; a call
  that fails returns the \<open>errno\<close> it leaves. \<open>os_seeds\<close> are the numbers that \<open>dns_random\<close> gives one
  operation of an iterator, which asks for each until it is not zero. Allocation succeeds. A \<open>switch\<close> whose cases fall
  through is a step on the state that goes round once for each case.
\<close>

subsection \<open>The operating system and the options\<close>

record 'w os =
  os_time :: "'w \<Rightarrow> int option \<times> 'w"
  os_random :: "'w \<Rightarrow> u32 \<times> 'w"
  os_seeds :: "'w \<Rightarrow> (nat \<Rightarrow> u32) \<times> 'w"
  os_socket :: "nat \<Rightarrow> nat \<Rightarrow> 'w \<Rightarrow> (dns_error + int) \<times> 'w"
  os_setfd :: "int \<Rightarrow> 'w \<Rightarrow> dns_error option \<times> 'w"
  os_getfl :: "int \<Rightarrow> 'w \<Rightarrow> (dns_error + nat) \<times> 'w"
  os_setfl :: "int \<Rightarrow> nat \<Rightarrow> 'w \<Rightarrow> dns_error option \<times> 'w"
  os_bind :: "int \<Rightarrow> dns_sockaddr \<Rightarrow> 'w \<Rightarrow> dns_error option \<times> 'w"
  os_connect :: "int \<Rightarrow> dns_sockaddr \<Rightarrow> 'w \<Rightarrow> dns_error option \<times> 'w"
  os_send :: "int \<Rightarrow> bytes \<Rightarrow> 'w \<Rightarrow> (dns_error + nat) \<times> 'w"
  os_recv :: "int \<Rightarrow> nat \<Rightarrow> 'w \<Rightarrow> (dns_error + bytes) \<times> 'w"
  os_peer :: "int \<Rightarrow> 'w \<Rightarrow> dns_sockaddr option \<times> 'w"
  os_close :: "int \<Rightarrow> 'w \<Rightarrow> 'w"
  os_select :: "int \<Rightarrow> nat \<Rightarrow> int \<Rightarrow> 'w \<Rightarrow> 'w"

text \<open>The callback returns its error with the descriptor it leaves in \<open>*fd\<close>.\<close>

datatype dns_events = DNS_SYSPOLL | DNS_LIBEVENT

record 'w dns_options =
  o_closefd :: "(int \<Rightarrow> 'w \<Rightarrow> (dns_error option \<times> int) \<times> 'w) option"
  o_events :: dns_events

definition dns_opts0 :: "'w dns_options" where
  "dns_opts0 = \<lparr>o_closefd = None, o_events = DNS_SYSPOLL\<rparr>"

definition DNS_POLLIN :: nat where [c_defs]: "DNS_POLLIN = 1"
definition DNS_POLLOUT :: nat where [c_defs]: "DNS_POLLOUT = 4"
definition DNS_EVREAD :: nat where [c_defs]: "DNS_EVREAD = 2"
definition DNS_EVWRITE :: nat where [c_defs]: "DNS_EVWRITE = 4"
definition SOCK_STREAM :: nat where [c_defs]: "SOCK_STREAM = 1"
definition SOCK_DGRAM :: nat where [c_defs]: "SOCK_DGRAM = 2"
definition O_NONBLOCK :: nat where [c_defs]: "O_NONBLOCK = 2048"
definition FD_SETSIZE :: int where [c_defs]: "FD_SETSIZE = 1024"

definition DNS_POLL2EV :: "nat \<Rightarrow> nat" where
  "DNS_POLL2EV events =
     (if events AND DNS_POLLIN \<noteq> 0 then DNS_EVREAD else 0) OR
     (if events AND DNS_POLLOUT \<noteq> 0 then DNS_EVWRITE else 0)"

text \<open>The assertion on the descriptor is a \<open>None\<close>.\<close>

definition dns_poll :: "'w os \<Rightarrow> int \<Rightarrow> nat \<Rightarrow> int \<Rightarrow> 'w \<Rightarrow> 'w option" where
  "dns_poll os fd events timeout w =
     (if events = 0 then Some w
      else if 0 \<le> fd \<and> fd < FD_SETSIZE then Some (os_select os fd events timeout w)
      else None)"

subsection \<open>The clock\<close>

definition DNS_MAXINTERVAL :: int where [c_defs]: "DNS_MAXINTERVAL = 300"

record dns_clock =
  clk_sample :: int
  clk_elapsed :: int

definition clock0 :: dns_clock where "clock0 = \<lparr>clk_sample = 0, clk_elapsed = 0\<rparr>"

text \<open>\<open>time\<close> gives \<open>-1\<close> when it fails.\<close>

definition dns_begin :: "'w os \<Rightarrow> 'w \<Rightarrow> dns_clock \<times> 'w" where
  "dns_begin os w =
     (let (t, w) = os_time os w in
      (\<lparr>clk_sample = (case t of Some t \<Rightarrow> t | None \<Rightarrow> -1), clk_elapsed = 0\<rparr>, w))"

definition dns_elapsed :: "'w os \<Rightarrow> dns_clock \<Rightarrow> 'w \<Rightarrow> (int \<times> dns_clock) \<times> 'w" where
  "dns_elapsed os clk w =
     (let (t, w) = os_time os w in
      (case t of
         None \<Rightarrow> ((clk_elapsed clk, clk), w)
       | Some curtime \<Rightarrow>
           (let clk = (if curtime > clk_sample clk
                  then clk\<lparr>clk_elapsed :=
                         clk_elapsed clk + min (curtime - clk_sample clk) DNS_MAXINTERVAL\<rparr>
                  else clk);
                clk = clk\<lparr>clk_sample := curtime\<rparr>
            in ((clk_elapsed clk, clk), w))))"

subsection \<open>Descriptors\<close>

text \<open>\<open>dns_socketclose\<close> leaves \<open>-1\<close> in \<open>*fd\<close>, whatever it was.\<close>

definition dns_socketclose :: "'w os \<Rightarrow> 'w dns_options option \<Rightarrow> int \<Rightarrow> 'w \<Rightarrow> int \<times> 'w" where
  "dns_socketclose os opts fd w =
     (let (fd, w) = (case Option.bind opts o_closefd of
            Some cb \<Rightarrow> (let ((_, fd), w) = cb fd w in (fd, w))
          | None \<Rightarrow> (fd, w))
      in (if fd \<noteq> -1 then (-1, os_close os fd w) else (fd, w)))"

fun sa_set_port :: "nat \<Rightarrow> dns_sockaddr \<Rightarrow> dns_sockaddr" where
  "sa_set_port port (Sin _ addr) = Sin port addr"
| "sa_set_port port (Sin6 _ addr) = Sin6 port addr"
| "sa_set_port port sa = sa"

definition DNS_SO_MAXTRY :: nat where [c_defs]: "DNS_SO_MAXTRY = 7"

definition sa_bind :: "'w os \<Rightarrow> int \<Rightarrow> dns_sockaddr \<Rightarrow> 'w \<Rightarrow> (dns_error option \<times> 'w) option" where
  "sa_bind os fd sa w = do { len \<leftarrow> dns_sa_len sa; Some (os_bind os fd sa w) }"

text \<open>The random ports tried before the one the caller gave.\<close>

fun dns_socket_ports ::
    "nat \<Rightarrow> 'w os \<Rightarrow> int \<Rightarrow> dns_sockaddr \<Rightarrow> 'w \<Rightarrow> (bool \<times> 'w) option" where
  "dns_socket_ports 0 os fd tmp w = Some (False, w)"
| "dns_socket_ports (Suc k) os fd tmp w = do {
     let (r, w) = os_random os w;
     let port = 1025 + unat r mod 64510;
     let tmp = sa_set_port port tmp;
     (e, w) \<leftarrow> sa_bind os fd tmp w;
     (case e of None \<Rightarrow> Some (True, w) | Some _ \<Rightarrow> dns_socket_ports k os fd tmp w) }"

text \<open>The three calls that make the descriptor non-blocking and closed on \<open>exec\<close>.\<close>

definition dns_socket_flags :: "'w os \<Rightarrow> int \<Rightarrow> 'w \<Rightarrow> dns_error option \<times> 'w" where
  "dns_socket_flags os fd w =
     (let (e, w) = os_setfd os fd w in
      case e of
        Some error \<Rightarrow> (Some error, w)
      | None \<Rightarrow>
          (let (r, w) = os_getfl os fd w in
           case r of
             Inl error \<Rightarrow> (Some error, w)
           | Inr flags \<Rightarrow> os_setfl os fd (flags OR O_NONBLOCK) w))"

definition dns_socket_fail ::
    "'w os \<Rightarrow> int \<Rightarrow> dns_error \<Rightarrow> 'w \<Rightarrow> (dns_error + int) \<times> 'w" where
  "dns_socket_fail os fd error w = (Inl error, snd (dns_socketclose os None fd w))"

definition dns_socket_open ::
    "'w os \<Rightarrow> dns_sockaddr \<Rightarrow> nat \<Rightarrow> 'w \<Rightarrow> ((dns_error + int) \<times> 'w) option" where
  "dns_socket_open os local type w =
     (let (r, w) = os_socket os (dns_sa_family local) type w in
      case r of
        Inl error \<Rightarrow> Some (dns_socket_fail os (-1) error w)
      | Inr fd \<Rightarrow>
     (let (e, w) = dns_socket_flags os fd w in
      case e of
        Some error \<Rightarrow> Some (dns_socket_fail os fd error w)
      | None \<Rightarrow>
          (if dns_sa_family local \<noteq> AF_INET \<and> dns_sa_family local \<noteq> AF_INET6 then Some (Inr fd, w)
           else if type \<noteq> SOCK_DGRAM then Some (Inr fd, w)
           else do {
             (bound, w) \<leftarrow>
               (if dns_sa_port local = 0 then dns_socket_ports DNS_SO_MAXTRY os fd local w
                else Some (False, w));
             if bound then Some (Inr fd, w)
             else do {
               (e, w) \<leftarrow> sa_bind os fd local w;
               Some (case e of
                  None \<Rightarrow> (Inr fd, w)
                | Some error \<Rightarrow> dns_socket_fail os fd error w) } })))"

subsection \<open>The state of a socket\<close>

text \<open>\<open>DNS_SO_NONE\<close> is the zero of a reset socket.\<close>

datatype so_state =
    DNS_SO_NONE
  | DNS_SO_UDP_INIT | DNS_SO_UDP_CONN | DNS_SO_UDP_SEND | DNS_SO_UDP_RECV | DNS_SO_UDP_DONE
  | DNS_SO_TCP_INIT | DNS_SO_TCP_CONN | DNS_SO_TCP_SEND | DNS_SO_TCP_RECV | DNS_SO_TCP_DONE

record dns_stat =
  st_queries :: nat
  st_udp_sent_count :: nat
  st_udp_sent_bytes :: nat
  st_udp_rcvd_count :: nat
  st_udp_rcvd_bytes :: nat
  st_tcp_sent_count :: nat
  st_tcp_sent_bytes :: nat
  st_tcp_rcvd_count :: nat
  st_tcp_rcvd_bytes :: nat

definition stat0 :: dns_stat where
  "stat0 = \<lparr>st_queries = 0, st_udp_sent_count = 0, st_udp_sent_bytes = 0, st_udp_rcvd_count = 0,
            st_udp_rcvd_bytes = 0, st_tcp_sent_count = 0, st_tcp_sent_bytes = 0,
            st_tcp_rcvd_count = 0, st_tcp_rcvd_bytes = 0\<rparr>"

text \<open>
  \<open>so_old\<close> are the \<open>onum\<close> descriptors of \<open>old\<close>. \<open>query\<close> points to the caller's packet, which the
  socket writes to: \<open>so_query\<close> is its present value. \<open>so_pre\<close> are the two bytes before
  \<open>answer->data\<close>, the padding of the structure that takes the length prefix of TCP.
\<close>

record 'w dns_socket =
  so_opts :: "'w dns_options"
  so_udp :: int
  so_tcp :: int
  so_old :: "int list"
  so_type :: nat
  so_local :: dns_sockaddr
  so_remote :: dns_sockaddr
  so_qids :: dns_k_permutor
  so_stat :: dns_stat
  so_state :: so_state
  so_qid :: nat
  so_qname :: bytes
  so_qlen :: nat
  so_qtype :: nat
  so_qclass :: nat
  so_query :: "dns_packet option"
  so_qout :: nat
  so_elapsed :: dns_clock
  so_answer :: "dns_packet option"
  so_pre :: bytes
  so_alen :: nat
  so_apos :: nat

definition QNAMEBUF :: bytes where "QNAMEBUF = replicate (DNS_D_MAXNAME + 1) 0"

definition pk0 :: dns_k_permutor where
  "pk0 = \<lparr>pk_stepi = 0, pk_length = 0, pk_limit = 0, pk_shift = 0, pk_mask = 0, pk_rounds = 0,
          pk_tea = \<lparr>tea_key = [0, 0, 0, 0], tea_cycles = 0\<rparr>\<rparr>"

definition so_initializer :: "'w dns_socket" where
  "so_initializer =
     \<lparr>so_opts = dns_opts0, so_udp = -1, so_tcp = -1, so_old = [], so_type = 0,
      so_local = Sa_other AF_UNSPEC, so_remote = Sa_other AF_UNSPEC, so_qids = pk0,
      so_stat = stat0, so_state = DNS_SO_NONE, so_qid = 0, so_qname = QNAMEBUF, so_qlen = 0,
      so_qtype = 0, so_qclass = 0, so_query = None, so_qout = 0, so_elapsed = clock0,
      so_answer = None, so_pre = [0, 0], so_alen = 0, so_apos = 0\<rparr>"

definition dns_so_reset :: "'w dns_socket \<Rightarrow> 'w dns_socket" where
  "dns_so_reset so =
     so\<lparr>so_answer := None, so_pre := [0, 0], so_state := DNS_SO_NONE, so_qid := 0,
        so_qname := QNAMEBUF, so_qlen := 0, so_qtype := 0, so_qclass := 0, so_query := None,
        so_qout := 0, so_elapsed := clock0, so_alen := 0, so_apos := 0\<rparr>"

subsection \<open>Closing\<close>

text \<open>\<open>dns_so_closefd\<close> on a descriptor \<open>fd\<close> of the socket: the descriptor it leaves comes with
  the error.\<close>

definition dns_so_closefd ::
    "'w dns_socket \<Rightarrow> int \<Rightarrow> 'w \<Rightarrow> ('w dns_socket \<times> int \<times> dns_error option) \<times> 'w" where
  "dns_so_closefd so fd w =
     (if fd = -1 then ((so, fd, None), w)
      else
        (let ((error, fd), w) = (case o_closefd (so_opts so) of
               Some cb \<Rightarrow> cb fd w
             | None \<Rightarrow> ((None, fd), w))
         in (case error of
               Some e \<Rightarrow> ((so, fd, Some e), w)
             | None \<Rightarrow>
                 (if fd = -1 then ((so, fd, None), w)
                  else ((so\<lparr>so_old := so_old so @ [fd]\<rparr>, -1, None), w)))))"

text \<open>The uses of \<open>dns_so_closefd\<close> are on \<open>so->tcp\<close>.\<close>

definition so_closetcp :: "'w dns_socket \<Rightarrow> 'w \<Rightarrow> ('w dns_socket \<times> dns_error option) \<times> 'w" where
  "so_closetcp so w =
     (let ((so, fd, error), w) = dns_so_closefd so (so_tcp so) w
      in ((so\<lparr>so_tcp := fd\<rparr>, error), w))"

definition DNS_SO_CLOSE_UDP :: nat where [c_defs]: "DNS_SO_CLOSE_UDP = 1"
definition DNS_SO_CLOSE_TCP :: nat where [c_defs]: "DNS_SO_CLOSE_TCP = 2"
definition DNS_SO_CLOSE_OLD :: nat where [c_defs]: "DNS_SO_CLOSE_OLD = 4"
definition DNS_SO_CLOSE_ALL :: nat where [c_defs]: "DNS_SO_CLOSE_ALL = 7"

fun so_close_old :: "'w os \<Rightarrow> 'w dns_options \<Rightarrow> int list \<Rightarrow> 'w \<Rightarrow> 'w" where
  "so_close_old os opts [] w = w"
| "so_close_old os opts (fd # fds) w =
     so_close_old os opts fds (snd (dns_socketclose os (Some opts) fd w))"

definition dns_so_closefds :: "'w os \<Rightarrow> 'w dns_socket \<Rightarrow> nat \<Rightarrow> 'w \<Rightarrow> 'w dns_socket \<times> 'w" where
  "dns_so_closefds os so which w =
     (let (so, w) = (if DNS_SO_CLOSE_UDP AND which \<noteq> 0
            then (let (fd, w) = dns_socketclose os (Some (so_opts so)) (so_udp so) w
                  in (so\<lparr>so_udp := fd\<rparr>, w)) else (so, w));
          (so, w) = (if DNS_SO_CLOSE_TCP AND which \<noteq> 0
            then (let (fd, w) = dns_socketclose os (Some (so_opts so)) (so_tcp so) w
                  in (so\<lparr>so_tcp := fd\<rparr>, w)) else (so, w))
      in (if DNS_SO_CLOSE_OLD AND which \<noteq> 0
          then (so\<lparr>so_old := []\<rparr>, so_close_old os (so_opts so) (so_old so) w) else (so, w)))"

definition dns_so_destroy :: "'w os \<Rightarrow> 'w dns_socket \<Rightarrow> 'w \<Rightarrow> 'w dns_socket \<times> 'w" where
  "dns_so_destroy os so w = dns_so_closefds os (dns_so_reset so) DNS_SO_CLOSE_ALL w"

text \<open>The null pointer is \<open>None\<close>; the object is freed.\<close>

definition dns_so_close :: "'w os \<Rightarrow> 'w dns_socket option \<Rightarrow> 'w \<Rightarrow> 'w" where
  "dns_so_close os so w =
     (case so of None \<Rightarrow> w | Some so \<Rightarrow> snd (dns_so_destroy os so w))"

subsection \<open>Opening\<close>

fun os_randoms :: "nat \<Rightarrow> 'w os \<Rightarrow> 'w \<Rightarrow> u32 list \<times> 'w" where
  "os_randoms 0 os w = ([], w)"
| "os_randoms (Suc n) os w =
     (let (r, w) = os_random os w; (rs, w) = os_randoms n os w in (r # rs, w))"

text \<open>The socket is returned with the error, since a caller destroys it again.\<close>

definition dns_so_init ::
    "'w os \<Rightarrow> dns_sockaddr option \<Rightarrow> nat \<Rightarrow> 'w dns_options option \<Rightarrow> 'w \<Rightarrow>
     (('w dns_socket \<times> dns_error option) \<times> 'w) option" where
  "dns_so_init os local type opts w = do {
     let so = so_initializer\<lparr>so_type := type\<rparr>;
     let so = (case opts of Some o' \<Rightarrow> so\<lparr>so_opts := o'\<rparr> | None \<Rightarrow> so);
     so \<leftarrow> (case local of
         Some sa \<Rightarrow> do { len \<leftarrow> dns_sa_len sa; Some (so\<lparr>so_local := sa\<rparr>) }
       | None \<Rightarrow> Some so);
     (r, w) \<leftarrow> dns_socket_open os (so_local so) SOCK_DGRAM w;
     (case r of
        Inl error \<Rightarrow> (let (so, w) = dns_so_destroy os so w in Some ((so, Some error), w))
      | Inr fd \<Rightarrow> do {
          let (key, w) = os_randoms 4 os w;
          qids \<leftarrow> dns_k_permutor_init 1 65535 key;
          Some ((so\<lparr>so_udp := fd, so_qids := qids\<rparr>, None), w) }) }"

definition dns_so_open ::
    "'w os \<Rightarrow> dns_sockaddr option \<Rightarrow> nat \<Rightarrow> 'w dns_options option \<Rightarrow> 'w \<Rightarrow>
     ((dns_error + 'w dns_socket) \<times> 'w) option" where
  "dns_so_open os local type opts w = do {
     ((so, e), w) \<leftarrow> dns_so_init os local type opts w;
     Some (case e of
        Some error \<Rightarrow> (Inl error, dns_so_close os (Some so) w)
      | None \<Rightarrow> (Inr so, w)) }"

subsection \<open>Submitting a query\<close>

text \<open>The query identifier as the host reads it, without \<open>ntohs\<close>, on a little-endian host.\<close>

definition qid_of :: "dns_packet \<Rightarrow> nat" where
  "qid_of P = be16 (p_data P ! 1) (p_data P ! 0)"

definition set_qid :: "dns_packet \<Rightarrow> nat \<Rightarrow> dns_packet" where
  "set_qid P qid = P\<lparr>p_data := (p_data P)[0 := byte_of qid, 1 := byte_of (drop_bit 8 qid)]\<rparr>"

definition dns_so_mkqid :: "'w dns_socket \<Rightarrow> (nat \<times> 'w dns_socket) option" where
  "dns_so_mkqid so = do {
     (n, qids) \<leftarrow> dns_k_permutor_step (so_qids so);
     Some (u16 (unat n), so\<lparr>so_qids := qids\<rparr>) }"

definition DNS_SO_MINBUF :: nat where [c_defs]: "DNS_SO_MINBUF = 768"

text \<open>\<open>realloc\<close> keeps the bytes of the old answer, \<open>dns_p_init\<close> clears its header and the
  padding before it.\<close>

definition dns_so_newanswer :: "'w dns_socket \<Rightarrow> nat \<Rightarrow> 'w dns_socket option" where
  "dns_so_newanswer so len = do {
     let n = max len DNS_SO_MINBUF;
     let old = (case so_answer so of None \<Rightarrow> [] | Some A \<Rightarrow> p_data A);
     A \<leftarrow> dns_p_init (realloc_bytes old n) (OFFSETOF_DATA + n);
     Some (so\<lparr>so_answer := Some A, so_pre := [0, 0]\<rparr>) }"

text \<open>\<open>so_begin\<close> are the statements of \<open>dns_so_submit\<close> from \<open>so->qtype = rr.type\<close> on.\<close>

definition so_begin ::
    "'w os \<Rightarrow> 'w dns_socket \<Rightarrow> dns_rr \<Rightarrow> dns_packet \<Rightarrow> dns_sockaddr \<Rightarrow> 'w \<Rightarrow>
     (('w dns_socket \<times> dns_error option) \<times> 'w) option" where
  "so_begin os so rr Q host w = do {
     so \<leftarrow> dns_so_newanswer (so\<lparr>so_qtype := rr_type rr, so_qclass := rr_klass rr\<rparr>) DNS_SO_MINBUF;
     len \<leftarrow> dns_sa_len host;
     let (clk, w) = dns_begin os w;
     let so = so\<lparr>so_remote := host, so_qout := 0, so_elapsed := clk\<rparr>;
     (Q, so) \<leftarrow> (if qid_of Q = 0
        then do { (qid, so) \<leftarrow> dns_so_mkqid so; Some (set_qid Q qid, so) }
        else Some (Q, so));
     Some ((so\<lparr>so_query := Some Q, so_qid := qid_of Q,
               so_state := (if so_type so = SOCK_STREAM then DNS_SO_TCP_INIT
                            else DNS_SO_UDP_INIT),
               so_stat := (so_stat so)\<lparr>st_queries := st_queries (so_stat so) + 1\<rparr>\<rparr>, None), w) }"

definition dns_so_submit ::
    "'w os \<Rightarrow> 'w dns_socket \<Rightarrow> dns_packet \<Rightarrow> dns_sockaddr \<Rightarrow> 'w \<Rightarrow>
     (('w dns_socket \<times> dns_error option) \<times> 'w) option" where
  "dns_so_submit os so Q host w = do {
     let so = dns_so_reset so;
     (rr, e) \<leftarrow> dns_rr_parse rr0 12 Q;
     (case e of
        Some error \<Rightarrow> Some ((dns_so_reset so, Some error), w)
      | None \<Rightarrow> do {
          (qname, r) \<leftarrow> dns_d_expand (so_qname so) (DNS_D_MAXNAME + 1) (rr_dn_p rr) Q;
          (case r of
             Inl error \<Rightarrow> Some ((dns_so_reset so, Some error), w)
           | Inr qlen \<Rightarrow>
               (if qlen = 0 then Some ((dns_so_reset so, None), w)
                else so_begin os (so\<lparr>so_qname := qname, so_qlen := qlen\<rparr>) rr Q host w)) }) }"

text \<open>The error is \<open>-1\<close> when a name expands to nothing, which \<open>dns_d_expand\<close> never reports as a
  success; here it is \<open>DNS_EUNKNOWN\<close>.\<close>

definition dns_so_verify :: "'w dns_socket \<Rightarrow> dns_packet \<Rightarrow> (dns_error option) option" where
  "dns_so_verify so P = do {
     A \<leftarrow> so_answer so;
     if so_qid so \<noteq> qid_of A then Some (Some DNS_EUNKNOWN)
     else if dns_p_count A DNS_S_QD = 0 then Some (Some DNS_EUNKNOWN)
     else do {
     (rr, e) \<leftarrow> dns_rr_parse rr0 12 A;
     if e \<noteq> None then Some (Some DNS_EUNKNOWN)
     else if rr_type rr \<noteq> so_qtype so \<or> rr_klass rr \<noteq> so_qclass so then Some (Some DNS_EUNKNOWN)
     else do {
     (qname, r) \<leftarrow> dns_d_expand QNAMEBUF (DNS_D_MAXNAME + 1) (rr_dn_p rr) P;
     (case r of
        Inl error \<Rightarrow> Some (Some error)
      | Inr qlen \<Rightarrow>
     (if qlen = 0 then Some (Some DNS_EUNKNOWN)
      else if qlen \<ge> DNS_D_MAXNAME + 1 \<or> qlen \<noteq> so_qlen so then Some (Some DNS_EUNKNOWN)
      else do {
        c \<leftarrow> c_strcasecmp (so_qname so) qname;
        Some (if c \<noteq> 0 then Some DNS_EUNKNOWN else None) })) } } }"

subsection \<open>TCP\<close>

definition dns_so_tcp_keep :: "'w os \<Rightarrow> 'w dns_socket \<Rightarrow> 'w \<Rightarrow> (bool \<times> 'w) option" where
  "dns_so_tcp_keep os so w =
     (if so_tcp so = -1 then Some (False, w)
      else
        (let (remote, w) = os_peer os (so_tcp so) w in
         case remote of
           None \<Rightarrow> Some (False, w)
         | Some sa \<Rightarrow> do { c \<leftarrow> dns_sa_cmp sa (so_remote so); Some (c = 0, w) }))"

text \<open>The object from \<open>data - 2\<close> on, with the length prefix written. \<open>dns_send\<close> is \<open>send\<close>
  without \<open>SIGPIPE\<close>. The pointer \<open>qsrc\<close> is set once and starts at \<open>qout\<close>.\<close>

definition tcp_frame :: "dns_packet \<Rightarrow> bytes" where
  "tcp_frame Q = byte_of (drop_bit 8 (p_end Q)) # byte_of (p_end Q) # p_data Q"

definition dns_so_tcp_send_step ::
    "'w os \<Rightarrow> nat \<Rightarrow> 'w dns_socket \<times> 'w \<Rightarrow>
     ('w dns_socket \<times> 'w + ('w dns_socket \<times> dns_error option) \<times> 'w) option" where
  "dns_so_tcp_send_step os qsrc = (\<lambda>(so, w). do {
     Q \<leftarrow> so_query so;
     let qend = p_end Q + 2;
     if so_qout so < qend then do {
       xs \<leftarrow> rd_mem (tcp_frame Q) (qsrc + so_qout so) (qend - so_qout so);
       let (r, w) = os_send os (so_tcp so) xs w;
       Some (case r of
          Inl error \<Rightarrow> Inr ((so, Some error), w)
        | Inr n \<Rightarrow> Inl (so\<lparr>so_qout := so_qout so + n,
             so_stat := (so_stat so)\<lparr>st_tcp_sent_bytes := st_tcp_sent_bytes (so_stat so) + n\<rparr>\<rparr>, w)) }
     else Some (Inr ((so\<lparr>so_stat := (so_stat so)
            \<lparr>st_tcp_sent_count := st_tcp_sent_count (so_stat so) + 1\<rparr>\<rparr>, None), w)) })"

definition dns_so_tcp_send ::
    "'w os \<Rightarrow> 'w dns_socket \<Rightarrow> 'w \<Rightarrow> (('w dns_socket \<times> dns_error option) \<times> 'w) option" where
  "dns_so_tcp_send os so w = c_while (dns_so_tcp_send_step os (so_qout so)) (so, w)"

text \<open>What \<open>recv\<close> returned, written from \<open>data - 2 + apos\<close> on.\<close>

definition so_receive :: "'w dns_socket \<Rightarrow> bytes \<Rightarrow> 'w dns_socket option" where
  "so_receive so bs = do {
     A \<leftarrow> so_answer so;
     buf \<leftarrow> wr_mem (so_pre so @ p_data A) (so_apos so) bs;
     Some (so\<lparr>so_pre := take 2 buf, so_answer := Some (A\<lparr>p_data := drop 2 buf\<rparr>),
             so_apos := so_apos so + length bs,
             so_stat := (so_stat so)
               \<lparr>st_tcp_rcvd_bytes := st_tcp_rcvd_bytes (so_stat so) + length bs\<rparr>\<rparr>) }"

definition dns_so_tcp_recv_step ::
    "'w os \<Rightarrow> 'w dns_socket \<times> nat \<times> 'w \<Rightarrow>
     ('w dns_socket \<times> nat \<times> 'w + ('w dns_socket \<times> dns_error option) \<times> 'w) option" where
  "dns_so_tcp_recv_step os = (\<lambda>(so, aend, w).
     if so_apos so < aend then
       (let (r, w) = os_recv os (so_tcp so) (aend - so_apos so) w in
        case r of
          Inl error \<Rightarrow> Some (Inr ((so, Some error), w))
        | Inr bs \<Rightarrow>
            (if bs = [] then Some (Inr ((so, Some DNS_EUNKNOWN), w))
             else do {
               so \<leftarrow> so_receive so bs;
               if so_alen so = 0 \<and> so_apos so \<ge> 2 then do {
                 let alen = be16 (so_pre so ! 0) (so_pre so ! 1);
                 so \<leftarrow> dns_so_newanswer so alen;
                 Some (Inl (so\<lparr>so_alen := alen\<rparr>, alen + 2, w)) }
               else Some (Inl (so, aend, w)) }))
     else do {
       A \<leftarrow> so_answer so;
       Some (Inr ((so\<lparr>so_answer := Some (A\<lparr>p_end := so_alen so\<rparr>),
             so_stat := (so_stat so)
               \<lparr>st_tcp_rcvd_count := st_tcp_rcvd_count (so_stat so) + 1\<rparr>\<rparr>, None), w)) })"

definition dns_so_tcp_recv ::
    "'w os \<Rightarrow> 'w dns_socket \<Rightarrow> 'w \<Rightarrow> (('w dns_socket \<times> dns_error option) \<times> 'w) option" where
  "dns_so_tcp_recv os so w = c_while (dns_so_tcp_recv_step os) (so, so_alen so + 2, w)"

subsection \<open>The exchange\<close>

text \<open>The end of \<open>dns_so_check\<close>, behind the label \<open>error\<close>: an interrupted call is made again.\<close>

type_synonym 'w so_result = "('w dns_socket \<times> dns_error option) \<times> 'w"

definition so_check_error ::
    "'w dns_socket \<Rightarrow> dns_error \<Rightarrow> 'w \<Rightarrow> ('w dns_socket \<times> 'w + 'w so_result) option" where
  "so_check_error so error w =
     Some (if error = DNS_EINTR then Inl (so, w)
           else if error = DNS_EINPROGRESS \<or> error = DNS_EALREADY
           then Inr ((so, Some DNS_EAGAIN), w)
           else Inr ((so, Some error), w))"

definition so_udp_conn ::
    "'w os \<Rightarrow> 'w dns_socket \<Rightarrow> 'w \<Rightarrow> ('w dns_socket \<times> 'w + 'w so_result) option" where
  "so_udp_conn os so w = do {
     len \<leftarrow> dns_sa_len (so_remote so);
     let (e, w) = os_connect os (so_udp so) (so_remote so) w;
     (case e of
        Some error \<Rightarrow> so_check_error so error w
      | None \<Rightarrow> Some (Inl (so\<lparr>so_state := DNS_SO_UDP_SEND\<rparr>, w))) }"

definition so_udp_send ::
    "'w os \<Rightarrow> 'w dns_socket \<Rightarrow> 'w \<Rightarrow> ('w dns_socket \<times> 'w + 'w so_result) option" where
  "so_udp_send os so w = do {
     Q \<leftarrow> so_query so;
     xs \<leftarrow> rd_mem (p_data Q) 0 (p_end Q);
     let (r, w) = os_send os (so_udp so) xs w;
     (case r of
        Inl error \<Rightarrow> so_check_error so error w
      | Inr n \<Rightarrow> Some (Inl (so\<lparr>so_state := DNS_SO_UDP_RECV,
          so_stat := (so_stat so)
            \<lparr>st_udp_sent_bytes := st_udp_sent_bytes (so_stat so) + n,
             st_udp_sent_count := st_udp_sent_count (so_stat so) + 1\<rparr>\<rparr>, w))) }"

text \<open>A datagram that is too short or does not verify is dropped and the next one is read.\<close>

definition so_udp_recv ::
    "'w os \<Rightarrow> 'w dns_socket \<Rightarrow> 'w \<Rightarrow> ('w dns_socket \<times> 'w + 'w so_result) option" where
  "so_udp_recv os so w = do {
     A \<leftarrow> so_answer so;
     let (r, w) = os_recv os (so_udp so) (p_size A) w;
     (case r of
        Inl error \<Rightarrow> so_check_error so error w
      | Inr bs \<Rightarrow> do {
          buf \<leftarrow> wr_mem (p_data A) 0 bs;
          let A = A\<lparr>p_data := buf, p_end := length bs\<rparr>;
          let so = so\<lparr>so_answer := Some A,
             so_stat := (so_stat so)
               \<lparr>st_udp_rcvd_bytes := st_udp_rcvd_bytes (so_stat so) + length bs,
                st_udp_rcvd_count := st_udp_rcvd_count (so_stat so) + 1\<rparr>\<rparr>;
          if length bs < 12 then Some (Inl (so, w))
          else do {
            e \<leftarrow> dns_so_verify so A;
            Some (Inl (case e of
               Some _ \<Rightarrow> (so, w)
             | None \<Rightarrow> (so\<lparr>so_state := DNS_SO_UDP_DONE\<rparr>, w))) } }) }"

definition so_udp_done ::
    "'w dns_socket \<Rightarrow> 'w \<Rightarrow> ('w dns_socket \<times> 'w + 'w so_result) option" where
  "so_udp_done so w = do {
     A \<leftarrow> so_answer so;
     Some (if \<not> hd_tc A \<or> so_type so = SOCK_DGRAM then Inr ((so, None), w)
           else Inl (so\<lparr>so_state := DNS_SO_TCP_INIT\<rparr>, w)) }"

definition so_tcp_init ::
    "'w os \<Rightarrow> 'w dns_socket \<Rightarrow> 'w \<Rightarrow> ('w dns_socket \<times> 'w + 'w so_result) option" where
  "so_tcp_init os so w = do {
     (keep, w) \<leftarrow> dns_so_tcp_keep os so w;
     if keep then Some (Inl (so\<lparr>so_state := DNS_SO_TCP_SEND\<rparr>, w))
     else
       (let ((so, e), w) = so_closetcp so w in
        case e of
          Some error \<Rightarrow> so_check_error so error w
        | None \<Rightarrow> do {
            (r, w) \<leftarrow> dns_socket_open os (so_local so) SOCK_STREAM w;
            (case r of
               Inl error \<Rightarrow> so_check_error (so\<lparr>so_tcp := -1\<rparr>) error w
             | Inr fd \<Rightarrow> Some (Inl (so\<lparr>so_tcp := fd, so_state := DNS_SO_TCP_CONN\<rparr>, w))) }) }"

definition so_tcp_conn ::
    "'w os \<Rightarrow> 'w dns_socket \<Rightarrow> 'w \<Rightarrow> ('w dns_socket \<times> 'w + 'w so_result) option" where
  "so_tcp_conn os so w = do {
     len \<leftarrow> dns_sa_len (so_remote so);
     let (e, w) = os_connect os (so_tcp so) (so_remote so) w;
     (case e of
        Some error \<Rightarrow>
          (if error \<noteq> DNS_EISCONN then so_check_error so error w
           else Some (Inl (so\<lparr>so_state := DNS_SO_TCP_SEND\<rparr>, w)))
      | None \<Rightarrow> Some (Inl (so\<lparr>so_state := DNS_SO_TCP_SEND\<rparr>, w))) }"

text \<open>A transfer over TCP, by \<open>io\<close>, then the next state.\<close>

definition so_tcp_io ::
    "('w dns_socket \<Rightarrow> 'w \<Rightarrow> 'w so_result option) \<Rightarrow> so_state \<Rightarrow> 'w dns_socket \<Rightarrow> 'w \<Rightarrow>
     ('w dns_socket \<times> 'w + 'w so_result) option" where
  "so_tcp_io io next so w = do {
     ((so, e), w) \<leftarrow> io so w;
     (case e of
        Some error \<Rightarrow> so_check_error so error w
      | None \<Rightarrow> Some (Inl (so\<lparr>so_state := next\<rparr>, w))) }"

definition so_tcp_done ::
    "'w dns_socket \<Rightarrow> 'w \<Rightarrow> ('w dns_socket \<times> 'w + 'w so_result) option" where
  "so_tcp_done so w =
     (let ((so, e), w) = (if so_type so \<noteq> SOCK_STREAM then so_closetcp so w else ((so, None), w)) in
      case e of
        Some error \<Rightarrow> so_check_error so error w
      | None \<Rightarrow> do {
          A \<leftarrow> so_answer so;
          if p_end A < 12 then Some (Inr ((so, Some DNS_EILLEGAL), w))
          else do {
            e \<leftarrow> dns_so_verify so A;
            (case e of
               Some error \<Rightarrow> so_check_error so error w
             | None \<Rightarrow> Some (Inr ((so, None), w))) } })"

definition dns_so_check_step ::
    "'w os \<Rightarrow> 'w dns_socket \<times> 'w \<Rightarrow> ('w dns_socket \<times> 'w + 'w so_result) option" where
  "dns_so_check_step os = (\<lambda>(so, w).
     case so_state so of
       DNS_SO_UDP_INIT \<Rightarrow> Some (Inl (so\<lparr>so_state := DNS_SO_UDP_CONN\<rparr>, w))
     | DNS_SO_UDP_CONN \<Rightarrow> so_udp_conn os so w
     | DNS_SO_UDP_SEND \<Rightarrow> so_udp_send os so w
     | DNS_SO_UDP_RECV \<Rightarrow> so_udp_recv os so w
     | DNS_SO_UDP_DONE \<Rightarrow> so_udp_done so w
     | DNS_SO_TCP_INIT \<Rightarrow> so_tcp_init os so w
     | DNS_SO_TCP_CONN \<Rightarrow> so_tcp_conn os so w
     | DNS_SO_TCP_SEND \<Rightarrow> so_tcp_io (dns_so_tcp_send os) DNS_SO_TCP_RECV so w
     | DNS_SO_TCP_RECV \<Rightarrow> so_tcp_io (dns_so_tcp_recv os) DNS_SO_TCP_DONE so w
     | DNS_SO_TCP_DONE \<Rightarrow> so_tcp_done so w
     | DNS_SO_NONE \<Rightarrow> so_check_error so DNS_EUNKNOWN w)"

definition dns_so_check :: "'w os \<Rightarrow> 'w dns_socket \<Rightarrow> 'w \<Rightarrow> 'w so_result option" where
  "dns_so_check os so w = c_while (dns_so_check_step os) (so, w)"

text \<open>The answer is handed over; it may be the null pointer.\<close>

definition dns_so_fetch :: "'w dns_socket \<Rightarrow> (dns_error + dns_packet option) \<times> 'w dns_socket" where
  "dns_so_fetch so =
     (if so_state so = DNS_SO_UDP_DONE \<or> so_state so = DNS_SO_TCP_DONE
      then (Inr (so_answer so), so\<lparr>so_answer := None\<rparr>)
      else (Inl DNS_EUNKNOWN, so))"

text \<open>The result is the answer, or the error left in \<open>*error_\<close>, \<open>None\<close> for \<open>0\<close>.\<close>

definition dns_so_query ::
    "'w os \<Rightarrow> 'w dns_socket \<Rightarrow> dns_packet \<Rightarrow> dns_sockaddr \<Rightarrow> 'w \<Rightarrow>
     (('w dns_socket \<times> (dns_error option + dns_packet)) \<times> 'w) option" where
  "dns_so_query os so Q host w = do {
     ((so, e), w) \<leftarrow> (if so_state so = DNS_SO_NONE then dns_so_submit os so Q host w
                      else Some ((so, None), w));
     (case e of
        Some error \<Rightarrow> Some ((so, Inl (Some error)), w)
      | None \<Rightarrow> do {
     ((so, e), w) \<leftarrow> dns_so_check os so w;
     (case e of
        Some error \<Rightarrow> Some ((so, Inl (Some error)), w)
      | None \<Rightarrow>
          (case dns_so_fetch so of
             (Inl error, so) \<Rightarrow> Some ((so, Inl (Some error)), w)
           | (Inr None, so) \<Rightarrow> Some ((so, Inl None), w)
           | (Inr (Some A), so) \<Rightarrow> Some ((dns_so_reset so, Inr A), w))) }) }"

subsection \<open>Waiting\<close>

definition dns_so_elapsed :: "'w os \<Rightarrow> 'w dns_socket \<Rightarrow> 'w \<Rightarrow> (int \<times> 'w dns_socket) \<times> 'w" where
  "dns_so_elapsed os so w =
     (let ((n, clk), w) = dns_elapsed os (so_elapsed so) w in ((n, so\<lparr>so_elapsed := clk\<rparr>), w))"

definition dns_so_clear :: "'w os \<Rightarrow> 'w dns_socket \<Rightarrow> 'w \<Rightarrow> 'w dns_socket \<times> 'w" where
  "dns_so_clear os so w = dns_so_closefds os so DNS_SO_CLOSE_OLD w"

definition dns_so_events2 :: "'w dns_socket \<Rightarrow> dns_events \<Rightarrow> nat" where
  "dns_so_events2 so type =
     (let events = (case so_state so of
            DNS_SO_UDP_CONN \<Rightarrow> DNS_POLLOUT | DNS_SO_UDP_SEND \<Rightarrow> DNS_POLLOUT
          | DNS_SO_UDP_RECV \<Rightarrow> DNS_POLLIN
          | DNS_SO_TCP_CONN \<Rightarrow> DNS_POLLOUT | DNS_SO_TCP_SEND \<Rightarrow> DNS_POLLOUT
          | DNS_SO_TCP_RECV \<Rightarrow> DNS_POLLIN
          | _ \<Rightarrow> 0)
      in case type of DNS_LIBEVENT \<Rightarrow> DNS_POLL2EV events | _ \<Rightarrow> events)"

definition dns_so_events :: "'w dns_socket \<Rightarrow> nat" where
  "dns_so_events so = dns_so_events2 so (o_events (so_opts so))"

definition dns_so_pollfd :: "'w dns_socket \<Rightarrow> int" where
  "dns_so_pollfd so =
     (case so_state so of
        DNS_SO_UDP_CONN \<Rightarrow> so_udp so | DNS_SO_UDP_SEND \<Rightarrow> so_udp so
      | DNS_SO_UDP_RECV \<Rightarrow> so_udp so
      | DNS_SO_TCP_CONN \<Rightarrow> so_tcp so | DNS_SO_TCP_SEND \<Rightarrow> so_tcp so
      | DNS_SO_TCP_RECV \<Rightarrow> so_tcp so
      | _ \<Rightarrow> -1)"

definition dns_so_poll :: "'w os \<Rightarrow> 'w dns_socket \<Rightarrow> int \<Rightarrow> 'w \<Rightarrow> 'w option" where
  "dns_so_poll os so timeout w =
     dns_poll os (dns_so_pollfd so) (dns_so_events2 so DNS_SYSPOLL) timeout w"

end
