(* ===== verification/Exchange.thy ===== *)
theory Exchange
  imports Socket
begin

unbundle bit_operations_syntax

section \<open>The exchange over a socket\<close>

text \<open>
  What the operations of \<open>Socket\<close> promise: every operation keeps a socket well formed, only
  verified answers leave \<open>dns_so_check\<close>, the TCP transfers as transfers on a byte stream, and
  two faults of the code: a resumed transfer goes on at the wrong offset, and one datagram
  makes \<open>dns_so_check\<close> run for ever.
\<close>

subsection \<open>What a step leaves alone\<close>

text \<open>The fields that identify the exchange: no step of \<open>dns_so_check\<close> writes them.\<close>

definition so_static :: "'w dns_socket \<Rightarrow> nat \<times> bytes \<times> nat \<times> nat \<times> nat" where
  "so_static so = (so_qid so, so_qname so, so_qlen so, so_qtype so, so_qclass so)"

lemma so_static_update [simp]:
  "so_static (so\<lparr>so_state := s\<rparr>) = so_static so"
  "so_static (so\<lparr>so_answer := a\<rparr>) = so_static so"
  "so_static (so\<lparr>so_pre := p\<rparr>) = so_static so"
  "so_static (so\<lparr>so_stat := st\<rparr>) = so_static so"
  "so_static (so\<lparr>so_tcp := fd\<rparr>) = so_static so"
  "so_static (so\<lparr>so_old := fds\<rparr>) = so_static so"
  "so_static (so\<lparr>so_qout := n\<rparr>) = so_static so"
  "so_static (so\<lparr>so_alen := n\<rparr>) = so_static so"
  "so_static (so\<lparr>so_apos := n\<rparr>) = so_static so"
  "so_static (so\<lparr>so_elapsed := c\<rparr>) = so_static so"
  "so_static (so\<lparr>so_udp := fd\<rparr>) = so_static so"
  by (simp_all add: so_static_def)

text \<open>The buffer of the answer: its allocation is what \<open>size\<close> says, and neither \<open>end\<close> nor the
  length announced over TCP passes it.\<close>

definition wf_answer :: "dns_packet \<Rightarrow> bool" where
  "wf_answer A \<longleftrightarrow> length (p_data A) = p_size A \<and> DNS_SO_MINBUF \<le> p_size A \<and>
     p_size A < 65536 \<and> p_end A \<le> p_size A"

definition wf_socket :: "'w dns_socket \<Rightarrow> bool" where
  "wf_socket so \<longleftrightarrow> length (so_pre so) = 2 \<and> length (so_qname so) = DNS_D_MAXNAME + 1 \<and>
     so_qid so < 65536 \<and>
     (case so_answer so of None \<Rightarrow> True | Some A \<Rightarrow> wf_answer A \<and> so_alen so \<le> p_size A)"

lemma wf_socket_update [simp]:
  "wf_socket (so\<lparr>so_state := s\<rparr>) = wf_socket so"
  "wf_socket (so\<lparr>so_stat := st\<rparr>) = wf_socket so"
  "wf_socket (so\<lparr>so_tcp := fd\<rparr>) = wf_socket so"
  "wf_socket (so\<lparr>so_udp := fd\<rparr>) = wf_socket so"
  "wf_socket (so\<lparr>so_old := fds\<rparr>) = wf_socket so"
  "wf_socket (so\<lparr>so_qout := n\<rparr>) = wf_socket so"
  "wf_socket (so\<lparr>so_elapsed := c\<rparr>) = wf_socket so"
  "wf_socket (so\<lparr>so_apos := n\<rparr>) = wf_socket so"
  by (simp_all add: wf_socket_def cong: option.case_cong)

text \<open>Two sockets in the same exchange and the same state.\<close>

definition so_same :: "'w dns_socket \<Rightarrow> 'w dns_socket \<Rightarrow> bool" where
  "so_same so so' \<longleftrightarrow> so_static so' = so_static so \<and> so_state so' = so_state so \<and>
     (wf_socket so \<longrightarrow> wf_socket so')"

lemma so_same_refl [simp]: "so_same so so"
  by (simp add: so_same_def)

lemma so_same_trans: "so_same a b \<Longrightarrow> so_same b c \<Longrightarrow> so_same a c"
  by (simp add: so_same_def)

lemma wf_answer_readable: "wf_answer A \<Longrightarrow> readable A"
  by (simp add: wf_answer_def readable_def c_defs)

lemma dns_so_verify_static:
  "so_static so' = so_static so \<Longrightarrow> so_answer so' = so_answer so \<Longrightarrow>
   dns_so_verify so' P = dns_so_verify so P"
  by (simp only: dns_so_verify_def so_static_def prod.inject simp_thms)

lemma dns_so_newanswer_ok:
  assumes "n < 65536"
  shows "\<exists>A. dns_so_newanswer so n = Some (so\<lparr>so_answer := Some A, so_pre := [0, 0]\<rparr>) \<and>
     wf_answer A \<and> n \<le> p_size A \<and> p_end A = 12 \<and>
     drop 12 (p_data A) = drop 12 (realloc_bytes
       (case so_answer so of None \<Rightarrow> [] | Some A \<Rightarrow> p_data A) (max n DNS_SO_MINBUF))"
  using assms by (auto simp: dns_so_newanswer_def dns_p_init_def wf_answer_def c_defs Let_def)

lemma dns_so_newanswer_same:
  assumes "dns_so_newanswer so n = Some so'" "n < 65536"
  shows "so_same so (so'\<lparr>so_alen := n\<rparr>)"
proof -
  obtain A where A: "dns_so_newanswer so n = Some (so\<lparr>so_answer := Some A, so_pre := [0, 0]\<rparr>)"
      "wf_answer A" "n \<le> p_size A"
    using dns_so_newanswer_ok [OF assms(2)] by blast
  then show ?thesis using assms(1) by (auto simp: so_same_def wf_socket_def)
qed

lemma so_receive_same: "so_receive so bs = Some so' \<Longrightarrow> so_same so so'"
  by (auto simp: so_receive_def so_same_def wf_socket_def wf_answer_def dest: wr_mem_length
      split: Option.bind_splits)

lemma so_closetcp_same:
  "so_closetcp so w = ((so', e), w') \<Longrightarrow> so_same so so' \<and> so_answer so' = so_answer so"
  by (auto simp: so_same_def so_closetcp_def dns_so_closefd_def
      split: prod.splits option.splits if_splits)

lemma tcp_send_step_same:
  assumes "dns_so_tcp_send_step os q (so, w) = Some x"
  shows "case x of Inl (so', w') \<Rightarrow> so_same so so' | Inr ((so', e), w') \<Rightarrow> so_same so so'"
  using assms
  by (auto simp: dns_so_tcp_send_step_def Let_def so_same_def
      split: Option.bind_splits if_splits prod.splits sum.splits)

lemma dns_so_tcp_send_same:
  assumes "dns_so_tcp_send os so w = Some ((so', e), w')"
  shows "so_same so so'"
proof -
  have "so_same so (fst (fst ((so', e), w')))"
    by (rule c_while_invariant [where I = "\<lambda>x. so_same so (fst x)"
          and Q = "\<lambda>x. so_same so (fst (fst x))", OF assms [unfolded dns_so_tcp_send_def]])
      (auto dest!: tcp_send_step_same intro: so_same_trans)
  then show ?thesis by simp
qed

lemma tcp_recv_step_same:
  assumes "dns_so_tcp_recv_step os (so, aend, w) = Some x"
  shows "case x of Inl (so', aend', w') \<Rightarrow> so_same so so' | Inr ((so', e), w') \<Rightarrow> so_same so so'"
proof (cases "so_apos so < aend")
  case True
  then show ?thesis
    using assms
    by (auto simp: dns_so_tcp_recv_step_def Let_def
        dest!: so_receive_same dns_so_newanswer_same [OF _ be16_less]
        intro: so_same_trans
        split: Option.bind_splits if_splits prod.splits sum.splits)
next
  case False
  then show ?thesis
    using assms
    by (auto simp: dns_so_tcp_recv_step_def so_same_def wf_socket_def wf_answer_def
        split: Option.bind_splits)
qed

lemma dns_so_tcp_recv_same:
  assumes "dns_so_tcp_recv os so w = Some ((so', e), w')"
  shows "so_same so so'"
proof -
  have "so_same so (fst (fst ((so', e), w')))"
    by (rule c_while_invariant [where I = "\<lambda>x. so_same so (fst x)"
          and Q = "\<lambda>x. so_same so (fst (fst x))", OF assms [unfolded dns_so_tcp_recv_def]])
      (auto dest!: tcp_recv_step_same intro: so_same_trans)
  then show ?thesis by simp
qed

text \<open>What a step of \<open>dns_so_check\<close> does: the exchange stays the same, and only a verified answer
  takes it to \<open>DNS_SO_UDP_DONE\<close> or out of the loop without an error.\<close>

definition so_verified :: "'w dns_socket \<Rightarrow> bool" where
  "so_verified so \<longleftrightarrow> (\<exists>A. so_answer so = Some A \<and> dns_so_verify so A = Some None)"

definition so_inv :: "nat \<times> bytes \<times> nat \<times> nat \<times> nat \<Rightarrow> 'w dns_socket \<Rightarrow> bool" where
  "so_inv q so \<longleftrightarrow> so_static so = q \<and> wf_socket so \<and> (so_state so = DNS_SO_UDP_DONE \<longrightarrow> so_verified so)"

definition so_post :: "nat \<times> bytes \<times> nat \<times> nat \<times> nat \<Rightarrow> 'w dns_socket \<times> dns_error option \<Rightarrow> bool" where
  "so_post q r \<longleftrightarrow> so_inv q (fst r) \<and>
     (snd r = None \<longrightarrow>
        (so_state (fst r) = DNS_SO_UDP_DONE \<or> so_state (fst r) = DNS_SO_TCP_DONE) \<and>
        so_verified (fst r))"

definition so_next :: "nat \<times> bytes \<times> nat \<times> nat \<times> nat \<Rightarrow> 'w dns_socket \<times> 'w + 'w so_result \<Rightarrow> bool" where
  "so_next q x = (case x of Inl (so, w) \<Rightarrow> so_inv q so | Inr (r, w) \<Rightarrow> so_post q r)"

lemma so_next_simps [simp]:
  "so_next q (Inl (so, w)) = so_inv q so"
  "so_next q (Inr (r, w)) = so_post q r"
  by (simp_all add: so_next_def)

lemma so_inv_other [simp]: "so_state so \<noteq> DNS_SO_UDP_DONE \<Longrightarrow> so_inv q so \<longleftrightarrow> so_static so = q \<and> wf_socket so"
  by (simp add: so_inv_def)

lemma so_inv_static: "so_inv q so \<Longrightarrow> so_static so = q \<and> wf_socket so"
  by (simp add: so_inv_def)

lemma so_check_error_next:
  "so_check_error so e w = Some x \<Longrightarrow> so_inv q so \<Longrightarrow> so_next q x"
  by (auto simp: so_check_error_def so_post_def split: if_splits)

lemmas so_step_splits = Option.bind_splits prod.splits option.splits sum.splits if_splits

lemma so_udp_conn_next:
  "so_udp_conn os so w = Some x \<Longrightarrow> so_state so = DNS_SO_UDP_CONN \<Longrightarrow> so_static so = q \<Longrightarrow> wf_socket so \<Longrightarrow>
   so_next q x"
  by (auto simp: so_udp_conn_def Let_def dest!: so_check_error_next [where q = q]
      split: so_step_splits)

lemma so_udp_send_next:
  "so_udp_send os so w = Some x \<Longrightarrow> so_state so = DNS_SO_UDP_SEND \<Longrightarrow> so_static so = q \<Longrightarrow> wf_socket so \<Longrightarrow>
   so_next q x"
  by (auto simp: so_udp_send_def Let_def dest!: so_check_error_next [where q = q]
      split: so_step_splits)

lemma so_udp_recv_next:
  assumes "so_udp_recv os so w = Some x" "so_state so = DNS_SO_UDP_RECV" "so_static so = q"
    and "wf_socket so"
  shows "so_next q x"
proof -
  obtain A where A: "so_answer so = Some A"
    using assms(1) by (auto simp: so_udp_recv_def split: Option.bind_splits)
  obtain r w' where r: "os_recv os (so_udp so) (p_size A) w = (r, w')" by force
  show ?thesis
  proof (cases r)
    case (Inl e)
    with assms A r show ?thesis
      by (auto simp: so_udp_recv_def dest!: so_check_error_next [where q = q])
  next
    case (Inr bs)
    with assms(1) A r obtain buf where buf: "wr_mem (p_data A) 0 bs = Some buf"
      by (auto simp: so_udp_recv_def split: Option.bind_splits)
    define A' where "A' = A\<lparr>p_data := buf, p_end := length bs\<rparr>"
    define so1 where "so1 = so\<lparr>so_answer := Some A',
       so_stat := (so_stat so)
         \<lparr>st_udp_rcvd_bytes := st_udp_rcvd_bytes (so_stat so) + length bs,
          st_udp_rcvd_count := st_udp_rcvd_count (so_stat so) + 1\<rparr>\<rparr>"
    have so1: "so_static so1 = q" "so_state so1 = DNS_SO_UDP_RECV" "so_answer so1 = Some A'"
      using assms(2,3) by (simp_all add: so1_def)
    have wf: "wf_socket so1"
      using assms(4) A buf by (auto simp: so1_def A'_def wf_socket_def wf_answer_def wr_mem_def
          split: if_splits)
    have fin: "so_inv q (so1\<lparr>so_state := DNS_SO_UDP_DONE\<rparr>)" if "dns_so_verify so1 A' = Some None"
      using that so1 wf dns_so_verify_static [of "so1\<lparr>so_state := DNS_SO_UDP_DONE\<rparr>" so1]
      by (simp add: so_inv_def so_verified_def)
    show ?thesis
    proof (cases "length bs < 12")
      case True
      with assms(1) A r Inr buf so1 wf show ?thesis
        by (simp add: so_udp_recv_def Let_def A'_def [symmetric] so1_def [symmetric])
          (auto simp: so1_def)
    next
      case False
      obtain e where e: "dns_so_verify so1 A' = Some e"
        using assms(1) A r Inr buf False
        by (cases "dns_so_verify so1 A'") (auto simp: so_udp_recv_def Let_def A'_def so1_def)
      with assms(1) A r Inr buf False so1 fin wf show ?thesis
        by (cases e) (auto simp: so_udp_recv_def Let_def A'_def so1_def)
    qed
  qed
qed

lemma so_udp_done_next:
  "so_udp_done so w = Some x \<Longrightarrow> so_inv q so \<Longrightarrow> so_state so = DNS_SO_UDP_DONE \<Longrightarrow> so_next q x"
  by (auto simp: so_udp_done_def so_post_def so_inv_def split: so_step_splits)

lemma so_tcp_init_next:
  assumes "so_tcp_init os so w = Some x" "so_state so = DNS_SO_TCP_INIT" "so_static so = q"
    and "wf_socket so"
  shows "so_next q x"
  using assms
  by (auto simp: so_tcp_init_def Let_def dest!: so_closetcp_same [unfolded so_same_def] so_check_error_next [where q = q]
      split: so_step_splits)

lemma so_tcp_conn_next:
  "so_tcp_conn os so w = Some x \<Longrightarrow> so_state so = DNS_SO_TCP_CONN \<Longrightarrow> so_static so = q \<Longrightarrow> wf_socket so \<Longrightarrow>
   so_next q x"
  by (auto simp: so_tcp_conn_def Let_def dest!: so_check_error_next [where q = q]
      split: so_step_splits)

lemma so_tcp_io_next:
  assumes "so_tcp_io io s so w = Some x" "so_state so \<noteq> DNS_SO_UDP_DONE" "s \<noteq> DNS_SO_UDP_DONE"
    and io: "\<And>so so' e w w'. io so w = Some ((so', e), w') \<Longrightarrow>
so_same so so'" and "wf_socket so"
  shows "so_next (so_static so) x"
  using assms
  by (auto simp: so_tcp_io_def so_same_def dest!: io so_check_error_next [where q = "so_static so"]
      split: so_step_splits)

lemma so_tcp_done_next:
  assumes "so_tcp_done so w = Some x" "so_state so = DNS_SO_TCP_DONE" "so_static so = q"
    and "wf_socket so"
  shows "so_next q x"
proof -
  obtain so1 e w1 where c:
    "(if so_type so \<noteq> SOCK_STREAM then so_closetcp so w else ((so, None), w)) = ((so1, e), w1)"
    by (metis surj_pair)
  have so1: "so_static so1 = q" "so_state so1 = DNS_SO_TCP_DONE" "wf_socket so1"
    using c assms(2-4) by (auto dest!: so_closetcp_same [unfolded so_same_def] split: if_splits)
  show ?thesis
    using assms(1) so1 unfolding so_tcp_done_def c
    by (auto simp: so_post_def so_verified_def dest!: so_check_error_next [where q = q]
        split: so_step_splits)
qed

lemma dns_so_check_step_next:
  assumes "dns_so_check_step os (so, w) = Some x" "so_inv q so"
  shows "so_next q x"
proof -
  note static = so_inv_static [OF assms(2)]
  show ?thesis
  proof (cases "so_state so")
    case DNS_SO_NONE
    with assms show ?thesis by (auto simp: dns_so_check_step_def dest!: so_check_error_next)
  next
    case DNS_SO_TCP_SEND
    with assms(1) static show ?thesis
      using so_tcp_io_next [of "dns_so_tcp_send os" DNS_SO_TCP_RECV so w x]
      by (auto simp: dns_so_check_step_def dest!: dns_so_tcp_send_same)
  next
    case DNS_SO_TCP_RECV
    with assms(1) static show ?thesis
      using so_tcp_io_next [of "dns_so_tcp_recv os" DNS_SO_TCP_DONE so w x]
      by (auto simp: dns_so_check_step_def dest!: dns_so_tcp_recv_same)
  qed (use assms static in \<open>auto simp: dns_so_check_step_def
        dest: so_udp_conn_next so_udp_send_next so_udp_recv_next so_udp_done_next
          so_tcp_init_next so_tcp_conn_next so_tcp_done_next\<close>)
qed

lemma dns_so_check_post:
  assumes "dns_so_check os so w = Some (r, w')" "so_inv q so"
  shows "so_post q r"
proof -
  have "so_post q (fst (r, w'))"
    by (rule c_while_invariant [where I = "\<lambda>x. so_inv q (fst x)" and Q = "\<lambda>x. so_post q (fst x)",
          OF assms(1) [unfolded dns_so_check_def]])
      (use assms(2) in \<open>auto dest!: dns_so_check_step_next\<close>)
  then show ?thesis by simp
qed

subsection \<open>The question of a packet\<close>

text \<open>The labels, type and class of the first question, as the packet holds them.\<close>

definition asks :: "dns_packet \<Rightarrow> bytes list \<Rightarrow> nat \<Rightarrow> nat \<Rightarrow> bool" where
  "asks P ls type klass \<longleftrightarrow> name_at P 0 12 ls \<and>
     (\<exists>rr. dns_rr_parse rr0 12 P = Some (rr, None) \<and> rr_type rr = type \<and> rr_klass rr = klass)"

text \<open>What \<open>strcasecmp\<close> sees of a text: the part before a NUL, without case.\<close>

definition folded :: "bytes \<Rightarrow> bytes" where
  "folded xs = map c_tolower (takeWhile (\<lambda>b. b \<noteq> 0) xs)"

text \<open>\<open>A\<close> is an answer to \<open>Q\<close> asked under the identifier \<open>qid\<close>.\<close>

definition answers :: "dns_packet \<Rightarrow> nat \<Rightarrow> dns_packet \<Rightarrow> bool" where
  "answers Q qid A \<longleftrightarrow> qid_of A = qid \<and>
     (\<exists>ls ls' type klass. asks Q ls type klass \<and> asks A ls' type klass \<and>
        length (name_full ls) = length (name_full ls') \<and> length (name_full ls) \<le> DNS_D_MAXNAME \<and>
        folded (name_full ls) = folded (name_full ls'))"

lemma strcasecmp_folded:
  "c_strcasecmp (xs @ 0 # xs') (ys @ 0 # ys') = Some 0 \<Longrightarrow> folded xs = folded ys"
proof (induction xs arbitrary: ys)
  case Nil
  show ?case
  proof (cases ys)
    case (Cons y zs)
    with Nil have "c_tolower 0 = c_tolower y"
      by (simp add: strcasecmp_Cons_0 del: c_strcasecmp.simps)
    then have "y = 0" using c_tolower_0 by metis
    with Cons show ?thesis by (simp add: folded_def)
  qed simp
next
  case (Cons x xs)
  show ?case
  proof (cases ys)
    case Nil
    with Cons.prems have "c_tolower x = c_tolower 0"
      by (simp add: strcasecmp_Cons_0 del: c_strcasecmp.simps)
    then have "x = 0" using c_tolower_0 by metis
    with Nil show ?thesis by (simp add: folded_def)
  next
    case ys: (Cons y zs)
    from Cons.prems have h: "c_tolower x = c_tolower y"
        "x = 0 \<or> c_strcasecmp (xs @ 0 # xs') (zs @ 0 # ys') = Some 0"
      by (auto simp: ys strcasecmp_Cons_0 simp del: c_strcasecmp.simps)
    have "x = 0 \<longleftrightarrow> y = 0" using h(1) c_tolower_0 by metis
    with h Cons.IH [of zs] show ?thesis by (auto simp: ys folded_def)
  qed
qed

lemma verify_answers:
  assumes "dns_so_verify so A = Some None" and "so_answer so = Some A" and "readable A"
  shows "\<exists>ls rr. qid_of A = so_qid so \<and> name_at A 0 12 ls \<and> dns_rr_parse rr0 12 A = Some (rr, None) \<and>
    rr_type rr = so_qtype so \<and> rr_klass rr = so_qclass so \<and>
    length (name_full ls) = so_qlen so \<and> so_qlen so \<le> DNS_D_MAXNAME \<and>
    (\<exists>rest. c_strcasecmp (so_qname so) (name_full ls @ 0 # rest) = Some 0)"
proof -
  obtain rr qname qlen where r: "dns_rr_parse rr0 12 A = Some (rr, None)"
      "qid_of A = so_qid so" "rr_type rr = so_qtype so" "rr_klass rr = so_qclass so"
      "dns_d_expand QNAMEBUF (DNS_D_MAXNAME + 1) (rr_dn_p rr) A = Some (qname, Inr qlen)"
      "qlen < DNS_D_MAXNAME + 1" "qlen = so_qlen so" "c_strcasecmp (so_qname so) qname = Some 0"
    using assms(1,2)
    by (auto simp: dns_so_verify_def split: if_splits Option.bind_splits sum.splits prod.splits)
  obtain ls where ls: "name_at A 0 12 ls" "qlen = length (name_full ls)"
      "holds_cstr (DNS_D_MAXNAME + 1) (name_full ls) qname"
    using dns_d_expand_sound [OF r(5) assms(3)] dns_rr_parse_dn [OF r(1)] by (auto simp: QNAMEBUF_def)
  from holds_cstr_fits [OF ls(3)] obtain rest where "qname = name_full ls @ 0 # rest"
    using r(6) ls(2) by auto
  with r ls show ?thesis by auto
qed

lemma dns_so_reset_state: "so_state (dns_so_reset so) = DNS_SO_NONE"
  by (simp add: dns_so_reset_def)

lemma mkqid_fields:
  "dns_so_mkqid so = Some (qid, so') \<Longrightarrow>
   so' = so\<lparr>so_qids := so_qids so'\<rparr> \<and> qid < 65536"
  by (auto simp: dns_so_mkqid_def split: Option.bind_splits prod.splits)

lemma qid_of_less [simp]: "qid_of Q < 65536"
  by (simp add: qid_of_def)

text \<open>A submitted socket carries the question of \<open>Q\<close>.\<close>

definition so_carries :: "dns_packet \<Rightarrow> 'w dns_socket \<Rightarrow> bool" where
  "so_carries Q so \<longleftrightarrow> (qid_of Q \<noteq> 0 \<longrightarrow> so_qid so = qid_of Q) \<and>
     (\<exists>ls. asks Q ls (so_qtype so) (so_qclass so) \<and> so_qlen so = length (name_full ls) \<and>
        holds_cstr (DNS_D_MAXNAME + 1) (name_full ls) (so_qname so))"

lemma so_carries_static: "so_static so' = so_static so \<Longrightarrow> so_carries Q so' = so_carries Q so"
  by (simp add: so_carries_def so_static_def)

lemma carries_verified_answers:
  assumes "so_carries Q so" "so_verified so" "wf_socket so"
  shows "\<exists>A. so_answer so = Some A \<and> answers Q (so_qid so) A"
proof -
  obtain A where A: "so_answer so = Some A" "dns_so_verify so A = Some None"
    using assms(2) by (auto simp: so_verified_def)
  have "readable A" using assms(3) A(1) by (simp add: wf_socket_def wf_answer_readable)
  then obtain ls' rr rest where v: "qid_of A = so_qid so" "name_at A 0 12 ls'"
      "dns_rr_parse rr0 12 A = Some (rr, None)" "rr_type rr = so_qtype so"
      "rr_klass rr = so_qclass so" "length (name_full ls') = so_qlen so" "so_qlen so \<le> DNS_D_MAXNAME"
      "c_strcasecmp (so_qname so) (name_full ls' @ 0 # rest) = Some 0"
    using verify_answers [OF A(2,1)] by blast
  obtain ls where q: "asks Q ls (so_qtype so) (so_qclass so)" "so_qlen so = length (name_full ls)"
      "holds_cstr (DNS_D_MAXNAME + 1) (name_full ls) (so_qname so)"
    using assms(1) by (auto simp: so_carries_def)
  obtain rest' where "so_qname so = name_full ls @ 0 # rest'"
    using holds_cstr_fits [OF q(3)] q(2) v(7) by auto
  then have "folded (name_full ls) = folded (name_full ls')"
    using v(8) strcasecmp_folded by metis
  moreover have "asks A ls' (so_qtype so) (so_qclass so)"
    using v by (auto simp: asks_def)
  ultimately have "answers Q (so_qid so) A"
    using q(1,2) v(1,6,7) unfolding answers_def by metis
  with A(1) show ?thesis by blast
qed

lemma so_begin_ok:
  assumes "so_begin os so rr Q host w = Some ((so', e), w')" and "length (so_qname so) = DNS_D_MAXNAME + 1"
    and "so_alen so = 0"
  shows "e = None \<and> wf_socket so' \<and> (qid_of Q \<noteq> 0 \<longrightarrow> so_qid so' = qid_of Q) \<and>
    so_qname so' = so_qname so \<and> so_qlen so' = so_qlen so \<and>
    so_qtype so' = rr_type rr \<and> so_qclass so' = rr_klass rr \<and>
    (so_state so' = DNS_SO_TCP_INIT \<or> so_state so' = DNS_SO_UDP_INIT)"
proof -
  let ?so = "so\<lparr>so_qtype := rr_type rr, so_qclass := rr_klass rr\<rparr>"
  obtain A where A: "dns_so_newanswer ?so DNS_SO_MINBUF = Some (?so\<lparr>so_answer := Some A, so_pre := [0, 0]\<rparr>)"
      "wf_answer A"
    using dns_so_newanswer_ok [of DNS_SO_MINBUF ?so] by (auto simp: c_defs)
  obtain clk w1 where clk: "dns_begin os w = (clk, w1)" by force
  show ?thesis
    using assms A
    by (auto simp: so_begin_def clk Let_def dns_so_mkqid_def wf_socket_def c_defs
        split: Option.bind_splits prod.splits if_splits)
qed

lemma dns_so_submit_carries:
  assumes "dns_so_submit os so Q host w = Some ((so', None), w')" and "readable Q"
  shows "so_carries Q so' \<and> wf_socket so' \<and>
    (so_state so' = DNS_SO_TCP_INIT \<or> so_state so' = DNS_SO_UDP_INIT)"
proof -
  let ?so = "dns_so_reset so"
  obtain rr qname r where r: "dns_rr_parse rr0 12 Q = Some (rr, None)"
      "dns_d_expand (so_qname ?so) (DNS_D_MAXNAME + 1) (rr_dn_p rr) Q = Some (qname, r)"
    using assms(1)
    by (auto simp: dns_so_submit_def Let_def split: Option.bind_splits prod.splits option.splits)
  obtain qlen where qlen: "r = Inr qlen"
    using assms(1) r by (cases r) (auto simp: dns_so_submit_def Let_def)
  obtain ls where ls: "name_at Q 0 12 ls" "qlen = length (name_full ls)"
      "holds_cstr (DNS_D_MAXNAME + 1) (name_full ls) qname" "length qname = DNS_D_MAXNAME + 1"
    using dns_d_expand_sound [OF r(2) [unfolded qlen] assms(2)] dns_rr_parse_dn [OF r(1)]
    by (auto simp: dns_so_reset_def QNAMEBUF_def)
  have asks: "asks Q ls (rr_type rr) (rr_klass rr)" using r(1) ls(1) by (auto simp: asks_def)
  have "qlen \<noteq> 0" using name_full_pos [of ls] ls(2) by simp
  then have "so_begin os (?so\<lparr>so_qname := qname, so_qlen := qlen\<rparr>) rr Q host w = Some ((so', None), w')"
    using assms(1) r qlen by (simp add: dns_so_submit_def Let_def)
  from so_begin_ok [OF this] show ?thesis
    using asks ls by (auto simp: so_carries_def dns_so_reset_def)
qed

subsection \<open>Every answer answers the question\<close>

text \<open>The sockets a caller can hold between \<open>dns_so_submit\<close> of \<open>Q\<close> and \<open>dns_so_fetch\<close>:
  \<open>dns_so_check\<close> may be called any number of times, whatever it returns.\<close>

inductive so_session :: "'w os \<Rightarrow> dns_packet \<Rightarrow> 'w dns_socket \<Rightarrow> bool" for os Q where
  session_submit: "dns_so_submit os so Q host w = Some ((so', None), w') \<Longrightarrow> so_session os Q so'"
| session_check: "so_session os Q so \<Longrightarrow> dns_so_check os so w = Some ((so', e), w') \<Longrightarrow>
    so_session os Q so'"
| session_elapsed: "so_session os Q so \<Longrightarrow> dns_so_elapsed os so w = ((n, so'), w') \<Longrightarrow>
    so_session os Q so'"
| session_clear: "so_session os Q so \<Longrightarrow> dns_so_clear os so w = (so', w') \<Longrightarrow> so_session os Q so'"

definition session_inv :: "dns_packet \<Rightarrow> 'w dns_socket \<Rightarrow> bool" where
  "session_inv Q so \<longleftrightarrow> so_carries Q so \<and> so_inv (so_static so) so"

lemma so_verified_same:
  "so_static so' = so_static so \<Longrightarrow> so_answer so' = so_answer so \<Longrightarrow> so_verified so' = so_verified so"
  using dns_so_verify_static [of so' so] by (simp add: so_verified_def)

lemma dns_so_elapsed_fields:
  "dns_so_elapsed os so w = ((n, so'), w') \<Longrightarrow>
   so_same so so' \<and> so_answer so' = so_answer so"
  by (auto simp: dns_so_elapsed_def so_same_def split: prod.splits)

lemma dns_so_clear_fields:
  "dns_so_clear os so w = (so', w') \<Longrightarrow> so_same so so' \<and> so_answer so' = so_answer so"
  by (auto simp: dns_so_clear_def dns_so_closefds_def so_same_def DNS_SO_CLOSE_UDP_def
      DNS_SO_CLOSE_TCP_def DNS_SO_CLOSE_OLD_def split: if_splits)

lemma session_inv_same:
  "session_inv Q so \<Longrightarrow> so_same so so' \<and> so_answer so' = so_answer so \<Longrightarrow> session_inv Q so'"
  using so_carries_static [of so' so Q] so_verified_same [of so' so]
  by (simp add: session_inv_def so_inv_def so_same_def)

lemma session_invariant:
  assumes "so_session os Q so" and "readable Q"
  shows "session_inv Q so"
  using assms(1)
proof (induction rule: so_session.induct)
  case (session_submit so host w so' w')
  then show ?case using dns_so_submit_carries [OF _ assms(2)] by (fastforce simp: session_inv_def)
next
  case (session_check so w so' e w')
  then have "so_post (so_static so) (so', e)"
    using dns_so_check_post [OF session_check.hyps(2)] by (simp add: session_inv_def)
  then have "so_inv (so_static so) so'" by (simp add: so_post_def)
  then show ?case
    using session_check.IH so_carries_static [of so' so Q]
    by (simp add: session_inv_def so_inv_def)
next
  case (session_elapsed so w n so' w')
  show ?case
    by (rule session_inv_same [OF session_elapsed.IH dns_so_elapsed_fields [OF session_elapsed.hyps(2)]])
next
  case (session_clear so w so' w')
  show ?case
    by (rule session_inv_same [OF session_clear.IH dns_so_clear_fields [OF session_clear.hyps(2)]])
qed

text \<open>C6: a socket hands over only answers to the question it was given. Whatever datagrams and
  segments arrive and however often \<open>dns_so_check\<close> is called, once it returns without an error
  \<open>dns_so_fetch\<close> gives a packet with the identifier of the query, whose first question has the
  type and the class of the query's and the same name, compared without case up to a NUL.\<close>

theorem dns_so_check_answers:
  assumes "so_session os Q so" and "readable Q"
    and "dns_so_check os so w = Some ((so', None), w')"
  shows "\<exists>A. dns_so_fetch so' = (Inr (Some A), so'\<lparr>so_answer := None\<rparr>) \<and>
    readable A \<and> answers Q (so_qid so') A \<and> (qid_of Q \<noteq> 0 \<longrightarrow> so_qid so' = qid_of Q)"
proof -
  have inv: "session_inv Q so" by (rule session_invariant [OF assms(1,2)])
  then have post: "so_post (so_static so) (so', None)"
    using dns_so_check_post [OF assms(3)] by (simp add: session_inv_def)
  then have so': "so_static so' = so_static so" "wf_socket so'" "so_verified so'"
      "so_state so' = DNS_SO_UDP_DONE \<or> so_state so' = DNS_SO_TCP_DONE"
    by (auto simp: so_post_def so_inv_def)
  have carries: "so_carries Q so'"
    using inv so_carries_static [OF so'(1)] by (simp add: session_inv_def)
  obtain A where A: "so_answer so' = Some A" "answers Q (so_qid so') A"
    using carries_verified_answers [OF carries so'(3,2)] by blast
  moreover have "readable A" using so'(2) A(1) by (simp add: wf_socket_def wf_answer_readable)
  ultimately show ?thesis
    using so'(4) carries by (auto simp: dns_so_fetch_def so_carries_def)
qed

subsection \<open>An exchange\<close>

text \<open>A system on which everything succeeds and \<open>recv\<close> gives the replies of a list, one by
  one, and then \<open>DNS_EAGAIN\<close>.\<close>

definition script_os :: "(dns_error + bytes) list os" where
  "script_os =
     \<lparr>os_time = Pair (Some 0), os_random = Pair 1, os_seeds = Pair (\<lambda>k. 1),
      os_socket = (\<lambda>family type. Pair (Inr 3)),
      os_setfd = (\<lambda>fd. Pair None), os_getfl = (\<lambda>fd. Pair (Inr 0)),
      os_setfl = (\<lambda>fd flags. Pair None), os_bind = (\<lambda>fd sa. Pair None),
      os_connect = (\<lambda>fd sa. Pair None), os_send = (\<lambda>fd xs. Pair (Inr (length xs))),
      os_recv = (\<lambda>fd n w. case w of [] \<Rightarrow> (Inl DNS_EAGAIN, [])
        | r # w \<Rightarrow> (map_sum id (take n) r, w)),
      os_peer = (\<lambda>fd. Pair None), os_close = (\<lambda>fd w. w), os_select = (\<lambda>fd events timeout w. w)\<rparr>"

text \<open>The question \<open>a. IN A\<close> under the identifier 13330, and replies to it.\<close>

definition script_question :: "byte \<Rightarrow> byte \<Rightarrow> byte \<Rightarrow> bytes" where
  "script_question lo flags letter =
     [lo, 52, flags, 0, 0, 1, 0, 0, 0, 0, 0, 0, 1, letter, 0, 0, 1, 0, 1]"

lemma script_question_length [simp]: "length (script_question lo flags letter) = 19"
  by (simp add: script_question_def)

lemmas question_eval =
  dns_d_skip_step_def fun_cong [OF dns_p_qend_step_def, of _ "(i, n)" for i n, simplified prod.case]
  dns_rr_parse_def dns_d_skip_def dns_p_qend_def dns_p_count_def hd_qdcount_def hd16_def
  rr0_def be16_eq u16_def name_eval

lemma script_parse:
  assumes "p_data P = script_question lo flags letter @ rest" "p_end P = 19"
  shows "dns_rr_parse rr0 12 P = Some (rr0\<lparr>rr_section := 1, rr_dn_p := 12, rr_dn_len := 3,
     rr_type := 1, rr_klass := 1\<rparr>, None)"
    "dns_d_expand QNAMEBUF (DNS_D_MAXNAME + 1) 12 P =
     Some ([letter, 46, 0] @ replicate 253 0, Inr 2)"
    "dns_p_count P DNS_S_QD = 1" "qid_of P = 52 * 256 + unat lo" "hd_tc P = bit flags 1"
  using assms
  by (simp_all add: question_eval script_question_def QNAMEBUF_def qid_of_def hd_tc_def cong: bind_weak)

definition script_socket :: "(dns_error + bytes) list dns_socket" where
  "script_socket = so_initializer\<lparr>so_qname := [97, 46, 0] @ replicate 253 0, so_qlen := 2,
     so_qtype := 1, so_qclass := 1, so_remote := Sin 53 1, so_qid := 52 * 256 + 18,
     so_query := Some (raw_packet (script_question 18 1 97)),
     so_answer := Some (raw_packet (replicate 768 0)\<lparr>p_end := 12\<rparr>),
     so_state := DNS_SO_UDP_INIT, so_stat := stat0\<lparr>st_queries := 1\<rparr>\<rparr>"

lemma script_submit:
  "dns_so_submit script_os so_initializer (raw_packet (script_question 18 1 97)) (Sin 53 1) w =
     Some ((script_socket, None), w)"
proof -
  let ?Q = "raw_packet (script_question 18 1 97)"
  note q = script_parse [of ?Q 18 1 97 "[]", simplified]
  show ?thesis
    by (simp add: dns_so_submit_def so_begin_def q so_initializer_def dns_so_reset_def Let_def script_socket_def
      dns_so_newanswer_def dns_p_init_def dns_begin_def script_os_def dns_sa_len_def dns_af_len_def)
      (simp add: c_defs clock0_def stat0_def raw_packet_def realloc_bytes_def replicate_add [symmetric])
qed

text \<open>The replies: a datagram that is too short, an answer with another identifier, and the
  answer, in upper case.\<close>

definition script_replies :: "(dns_error + bytes) list" where
  "script_replies = [Inr [1, 2, 3], Inr (script_question 19 128 65), Inr (script_question 18 128 65)]"

lemma script_check:
  "\<exists>so. dns_so_check script_os script_socket script_replies = Some ((so, None), []) \<and>
     so_answer so = Some (raw_packet (script_question 18 128 65 @ replicate 749 0)\<lparr>p_end := 19\<rparr>)"
proof -
  note q = script_parse [of _ 18 128 65 "replicate 749 0", simplified c_defs, simplified]
    script_parse(4) [of _ 19 128 65 "replicate 749 0", simplified]
  show ?thesis
    by (simp add: dns_so_check_def c_while.simps dns_so_check_step_def script_socket_def so_udp_conn_def
       script_os_def dns_sa_len_def dns_af_len_def c_defs so_udp_send_def so_udp_recv_def
       script_replies_def Let_def so_initializer_def dns_so_verify_def q wr_mem_def
       so_udp_done_def raw_packet_def c_tolower_def cong: bind_weak)
qed

theorem dns_so_check_answers_witness:
  "\<exists>so A. dns_so_check script_os script_socket script_replies = Some ((so, None), []) \<and>
     dns_so_fetch so = (Inr (Some A), so\<lparr>so_answer := None\<rparr>) \<and>
     answers (raw_packet (script_question 18 1 97)) (52 * 256 + 18) A"
proof -
  let ?Q = "raw_packet (script_question 18 1 97)"
  obtain so where so: "dns_so_check script_os script_socket script_replies = Some ((so, None), [])"
    using script_check by blast
  have Q: "readable ?Q" by (rule raw_packet_readable) simp_all
  have "qid_of ?Q = 52 * 256 + 18" by (simp add: qid_of_def script_question_def be16_eq)
  then show ?thesis
    using dns_so_check_answers [OF session_submit [OF script_submit] Q so] so by auto
qed

subsection \<open>The TCP transfers as byte streams\<close>

text \<open>A descriptor behaves as a byte stream: \<open>send\<close> appends a prefix of what it is given to
  \<open>sent w\<close>, \<open>recv\<close> takes at most as many bytes as it is asked for from the front of
  \<open>pending w\<close>, and a failing call does neither.\<close>

definition byte_stream :: "'w os \<Rightarrow> int \<Rightarrow> ('w \<Rightarrow> bytes) \<Rightarrow> ('w \<Rightarrow> bytes) \<Rightarrow> bool" where
  "byte_stream os fd sent pending \<longleftrightarrow>
     (\<forall>w xs r w'. os_send os fd xs w = (r, w') \<longrightarrow> pending w' = pending w \<and>
        (case r of Inl e \<Rightarrow> sent w' = sent w
         | Inr n \<Rightarrow> n \<le> length xs \<and> sent w' = sent w @ take n xs)) \<and>
     (\<forall>w n r w'. os_recv os fd n w = (r, w') \<longrightarrow> sent w' = sent w \<and>
        (case r of Inl e \<Rightarrow> pending w' = pending w
         | Inr bs \<Rightarrow> length bs \<le> n \<and> pending w = bs @ pending w'))"

lemma stream_send:
  "byte_stream os fd sent pending \<Longrightarrow> os_send os fd xs w = (Inr n, w') \<Longrightarrow>
     n \<le> length xs \<and> sent w' = sent w @ take n xs"
  "byte_stream os fd sent pending \<Longrightarrow> os_send os fd xs w = (Inl e, w') \<Longrightarrow> sent w' = sent w"
  by (fastforce simp: byte_stream_def)+

lemma stream_recv:
  "byte_stream os fd sent pending \<Longrightarrow> os_recv os fd n w = (Inr bs, w') \<Longrightarrow>
     length bs \<le> n \<and> pending w = bs @ pending w'"
  "byte_stream os fd sent pending \<Longrightarrow> os_recv os fd n w = (Inl e, w') \<Longrightarrow> pending w' = pending w"
  by (fastforce simp: byte_stream_def)+

lemma take_more: "take (n + m) xs = take n xs @ take m (drop n xs)"
  by (simp add: take_add)

lemma tcp_send_step_cases:
  assumes "dns_so_tcp_send_step os q (so, w) = Some x" and Q: "so_query so = Some Q"
    and stream: "byte_stream os (so_tcp so) sent pending"
  shows "(\<exists>so' w' n. x = Inl (so', w') \<and> so_query so' = Some Q \<and> so_tcp so' = so_tcp so \<and>
      so_qout so' = so_qout so + n \<and> so_qout so' \<le> p_end Q + 2 \<and>
      q + p_end Q + 2 \<le> length (tcp_frame Q) \<and>
      sent w' = sent w @ take n (drop (q + so_qout so) (tcp_frame Q))) \<or>
    (\<exists>so' w' e. x = Inr ((so', e), w') \<and> so_qout so' = so_qout so \<and> sent w' = sent w \<and>
      (e = None \<longrightarrow> p_end Q + 2 \<le> so_qout so))"
proof (cases "so_qout so < p_end Q + 2")
  case True
  obtain xs where xs: "rd_mem (tcp_frame Q) (q + so_qout so) (p_end Q + 2 - so_qout so) = Some xs"
    using assms(1) Q True by (auto simp: dns_so_tcp_send_step_def Let_def split: Option.bind_splits)
  then have len: "q + so_qout so + (p_end Q + 2 - so_qout so) \<le> length (tcp_frame Q)"
      and xs': "xs = take (p_end Q + 2 - so_qout so) (drop (q + so_qout so) (tcp_frame Q))"
    by (auto simp: rd_mem_def split: if_splits)
  obtain r w' where r: "os_send os (so_tcp so) xs w = (r, w')" by force
  show ?thesis
  proof (cases r)
    case (Inl e)
    with assms(1) Q True xs r stream_send(2) [OF stream] show ?thesis
      by (auto simp: dns_so_tcp_send_step_def)
  next
    case (Inr n)
    have n: "n \<le> length xs" "sent w' = sent w @ take n xs"
      using stream_send(1) [OF stream r [unfolded Inr]] by simp_all
    then have le: "n \<le> p_end Q + 2 - so_qout so" using xs' by simp
    then have "take n xs = take n (drop (q + so_qout so) (tcp_frame Q))"
      by (simp add: xs' take_take min_absorb1)
    with assms(1) Q True xs r Inr n(2) le len show ?thesis
      by (auto simp: dns_so_tcp_send_step_def)
  qed
next
  case False
  with assms(1) Q show ?thesis by (auto simp: dns_so_tcp_send_step_def)
qed

text \<open>What \<open>dns_so_tcp_send\<close> puts on the stream. It starts at twice the offset \<open>qout\<close> it
  resumes at, because \<open>qsrc\<close> already points behind the bytes sent and is indexed by \<open>qout\<close>
  again. A transfer that starts at 0 and is never interrupted sends the frame: the length of
  the query and the query. One that was interrupted after \<open>k\<close> bytes goes on at \<open>2 * k\<close>, and
  reads outside the packet unless its buffer has \<open>k\<close> bytes to spare.\<close>

theorem dns_so_tcp_send_offset:
  assumes "byte_stream os (so_tcp so) sent pending" and "so_query so = Some Q"
    and "so_qout so = k" and "k < p_end Q + 2"
  shows "(\<forall>so' e w'. dns_so_tcp_send os so w = Some ((so', e), w') \<longrightarrow>
      k \<le> so_qout so' \<and> sent w' = sent w @ take (so_qout so' - k) (drop (2 * k) (tcp_frame Q)) \<and>
      (e = None \<longrightarrow> so_qout so' = p_end Q + 2)) \<and>
    (length (p_data Q) < p_end Q + k \<longrightarrow> dns_so_tcp_send os so w = None)"
proof (intro conjI allI impI)
  let ?I = "\<lambda>(so', w'). so_query so' = Some Q \<and> so_tcp so' = so_tcp so \<and> k \<le> so_qout so' \<and>
      so_qout so' \<le> p_end Q + 2 \<and>
      sent w' = sent w @ take (so_qout so' - k) (drop (2 * k) (tcp_frame Q))"
  let ?Q = "\<lambda>((so', e), w'). k \<le> so_qout so' \<and>
      sent w' = sent w @ take (so_qout so' - k) (drop (2 * k) (tcp_frame Q)) \<and>
      (e = None \<longrightarrow> so_qout so' = p_end Q + 2)"
  fix so' e w'
  assume r: "dns_so_tcp_send os so w = Some ((so', e), w')"
  have "?Q ((so', e), w')"
  proof (rule c_while_invariant [where I = ?I and Q = ?Q, OF r [unfolded dns_so_tcp_send_def assms(3)]])
    show "?I (so, w)" using assms by simp
  next
    fix s s' assume I: "?I s" and st: "dns_so_tcp_send_step os k s = Some (Inl s')"
    obtain so1 w1 where s: "s = (so1, w1)" by force
    have Q1: "so_query so1 = Some Q" "so_tcp so1 = so_tcp so" using I by (simp_all add: s)
    from tcp_send_step_cases [OF st [unfolded s] Q1(1) assms(1) [folded Q1(2)]]
    obtain so2 w2 n where s': "s' = (so2, w2)" "so_query so2 = Some Q" "so_tcp so2 = so_tcp so"
        "so_qout so2 = so_qout so1 + n" "so_qout so2 \<le> p_end Q + 2"
        "sent w2 = sent w1 @ take n (drop (k + so_qout so1) (tcp_frame Q))"
      using Q1(2) by auto
    let ?D = "drop (2 * k) (tcp_frame Q)"
    have k: "k \<le> so_qout so1" and w1: "sent w1 = sent w @ take (so_qout so1 - k) ?D"
      using I by (simp_all add: s)
    have "drop (k + so_qout so1) (tcp_frame Q) = drop (so_qout so1 - k) ?D"
      using k by (simp add: mult_2 ac_simps)
    then have "sent w2 = sent w @ take (so_qout so1 - k + n) ?D"
      by (simp only: s'(6) w1 take_more append_assoc)
    moreover have "so_qout so1 - k + n = so_qout so2 - k" using k s'(4) by simp
    ultimately show "?I s'" using k s' by simp
  next
    fix s x assume I: "?I s" and st: "dns_so_tcp_send_step os k s = Some (Inr x)"
    obtain so1 w1 where s: "s = (so1, w1)" by force
    have Q1: "so_query so1 = Some Q" "so_tcp so1 = so_tcp so" using I by (simp_all add: s)
    from tcp_send_step_cases [OF st [unfolded s] Q1(1) assms(1) [folded Q1(2)]] I
    show "?Q x" by (auto simp: s)
  qed
  then show "k \<le> so_qout so'" "sent w' = sent w @ take (so_qout so' - k) (drop (2 * k) (tcp_frame Q))"
    "e = None \<Longrightarrow> so_qout so' = p_end Q + 2" by simp_all
next
  assume "length (p_data Q) < p_end Q + k"
  then have "dns_so_tcp_send_step os k (so, w) = None"
    using assms(2-4) by (simp add: dns_so_tcp_send_step_def Let_def rd_mem_def tcp_frame_def)
  then show "dns_so_tcp_send os so w = None"
    using assms(3) by (simp add: dns_so_tcp_send_def c_while_oob)
qed

text \<open>A pipe: the list says how many bytes the next transfers may move, then \<open>DNS_EAGAIN\<close>.\<close>

type_synonym pipe = "nat list \<times> bytes \<times> bytes"

definition pipe_os :: "pipe os" where
  "pipe_os =
     \<lparr>os_time = Pair (Some 0), os_random = Pair 1, os_seeds = Pair (\<lambda>k. 1),
      os_socket = (\<lambda>family type. Pair (Inr 3)),
      os_setfd = (\<lambda>fd. Pair None), os_getfl = (\<lambda>fd. Pair (Inr 0)),
      os_setfl = (\<lambda>fd flags. Pair None), os_bind = (\<lambda>fd sa. Pair None),
      os_connect = (\<lambda>fd sa. Pair None),
      os_send = (\<lambda>fd xs (ls, pend, sent). case ls of [] \<Rightarrow> (Inl DNS_EAGAIN, ([], pend, sent))
        | l # ls \<Rightarrow> (Inr (min l (length xs)), (ls, pend, sent @ take l xs))),
      os_recv = (\<lambda>fd n (ls, pend, sent). case ls of [] \<Rightarrow> (Inl DNS_EAGAIN, ([], pend, sent))
        | l # ls \<Rightarrow> (Inr (take (min l n) pend), (ls, drop (min l n) pend, sent))),
      os_peer = (\<lambda>fd. Pair None), os_close = (\<lambda>fd w. w), os_select = (\<lambda>fd events timeout w. w)\<rparr>"

lemma pipe_stream: "byte_stream pipe_os fd (\<lambda>w. snd (snd w)) (\<lambda>w. fst (snd w))"
  by (auto simp: byte_stream_def pipe_os_def min_def split: list.splits prod.splits)

text \<open>A query of 19 bytes in a buffer of 768: the first call moves five bytes, the second
  goes on at offset ten, and the peer receives a frame that lacks the bytes five to nine.\<close>

definition pipe_socket :: "nat \<Rightarrow> pipe dns_socket" where
  "pipe_socket n = so_initializer\<lparr>so_tcp := 3, so_qout := n,
     so_query := Some (raw_packet (script_question 18 1 97 @ replicate 749 0)\<lparr>p_end := 19\<rparr>)\<rparr>"

theorem dns_so_tcp_send_offset_witness:
  "\<exists>so' w'. dns_so_tcp_send pipe_os (pipe_socket 5) ([100], [], [9, 9]) = Some ((so', None), w') \<and>
     snd (snd w') = [9, 9] @ take 16 (drop 10 (tcp_frame (the (so_query (pipe_socket 5)))))"
proof -
  let ?Q = "raw_packet (script_question 18 1 97 @ replicate 749 0)\<lparr>p_end := 19\<rparr>"
  have q: "so_query (pipe_socket 5) = Some ?Q" "so_qout (pipe_socket 5) = 5"
    by (simp_all add: pipe_socket_def)
  have "\<exists>so' w'. dns_so_tcp_send pipe_os (pipe_socket 5) ([100], [], [9, 9]) = Some ((so', None), w')"
    by (simp add: dns_so_tcp_send_def dns_so_tcp_send_step_def c_while.simps pipe_socket_def
        rd_mem_def tcp_frame_def pipe_os_def cong: bind_weak)
  then obtain so' w' where r:
    "dns_so_tcp_send pipe_os (pipe_socket 5) ([100], [], [9, 9]) = Some ((so', None), w')" by blast
  with dns_so_tcp_send_offset [OF pipe_stream q, of "([100], [], [9, 9])"] show ?thesis
    by (cases w') (auto simp: q)
qed

subsection \<open>Receiving a message\<close>

text \<open>A message on the stream, and what a socket has read of the one it is receiving: part of the
  prefix, or the prefix, which is now \<open>alen\<close>, and the first bytes of \<open>data\<close>.\<close>

definition tcp_prefix :: "nat \<Rightarrow> bytes" where
  "tcp_prefix n = [byte_of (drop_bit 8 n), byte_of n]"

definition rx_got :: "'w dns_socket \<Rightarrow> bytes" where
  "rx_got so = (if so_apos so < 2 then take (so_apos so) (so_pre so)
     else tcp_prefix (so_alen so) @
       take (so_apos so - 2) (case so_answer so of None \<Rightarrow> [] | Some A \<Rightarrow> p_data A))"

definition rx_inv :: "'w dns_socket \<Rightarrow> bool" where
  "rx_inv so \<longleftrightarrow> length (so_pre so) = 2 \<and>
     (\<exists>A. so_answer so = Some A \<and> wf_answer A \<and> so_alen so \<le> p_size A) \<and>
     (if so_apos so < 2 then so_alen so = 0 else so_apos so \<le> so_alen so + 2)"

lemma be16_prefix: "tcp_prefix (be16 a b) = [a, b]"
proof -
  have h: "unat a < 256" "unat b < 256" by simp_all
  have "byte_of (drop_bit 8 (be16 a b)) = a"
    unfolding word_unat_eq_iff using h by (simp add: unat_byte_of be16_eq drop_bit_eq_div)
  moreover have "byte_of (be16 a b) = b"
    unfolding word_unat_eq_iff using h by (simp add: unat_byte_of be16_eq)
  ultimately show ?thesis by (simp add: tcp_prefix_def)
qed

lemma list_two: "length xs = 2 \<Longrightarrow> [xs ! 0, xs ! 1] = xs"
  by (cases xs; cases "tl xs") auto

lemma so_receive_ok:
  assumes "so_answer so = Some A" "so_receive so bs = Some so'" "length (so_pre so) = 2"
  shows "\<exists>d. so_answer so' = Some (A\<lparr>p_data := d\<rparr>) \<and> so_pre so' @ d =
      take (so_apos so) (so_pre so @ p_data A) @ bs @ drop (so_apos so + length bs) (so_pre so @ p_data A) \<and>
    length (so_pre so') = 2 \<and> length d = length (p_data A) \<and>
    so_apos so' = so_apos so + length bs \<and> so_alen so' = so_alen so \<and> so_tcp so' = so_tcp so"
proof -
  obtain buf where buf: "wr_mem (so_pre so @ p_data A) (so_apos so) bs = Some buf"
    using assms by (auto simp: so_receive_def split: Option.bind_splits)
  then have b: "buf = take (so_apos so) (so_pre so @ p_data A) @ bs @
        drop (so_apos so + length bs) (so_pre so @ p_data A)"
      "length buf = 2 + length (p_data A)"
    using assms(3) wr_mem_length [OF buf] by (auto simp: wr_mem_def split: if_splits)
  have "so_answer so' = Some (A\<lparr>p_data := drop 2 buf\<rparr>)" "so_pre so' = take 2 buf"
      "so_apos so' = so_apos so + length bs" "so_alen so' = so_alen so" "so_tcp so' = so_tcp so"
    using assms buf by (auto simp: so_receive_def)
  then show ?thesis using b
    by (intro exI [of _ "drop 2 buf"]) (simp del: take_append drop_append)
qed

lemma rx_prefix_step:
  assumes inv: "rx_inv so" and "so_apos so < 2" and "length bs \<le> 2 - so_apos so" "bs \<noteq> []"
    and rec: "so_receive so bs = Some so1"
  shows "if so_apos so1 = 2
    then \<exists>so2. dns_so_newanswer so1 (be16 (so_pre so1 ! 0) (so_pre so1 ! 1)) = Some so2 \<and>
      rx_inv (so2\<lparr>so_alen := be16 (so_pre so1 ! 0) (so_pre so1 ! 1)\<rparr>) \<and> so_tcp so2 = so_tcp so \<and>
      rx_got (so2\<lparr>so_alen := be16 (so_pre so1 ! 0) (so_pre so1 ! 1)\<rparr>) = rx_got so @ bs
    else rx_inv so1 \<and> rx_got so1 = rx_got so @ bs \<and> so_tcp so1 = so_tcp so \<and> so_alen so1 = 0 \<and>
      so_apos so1 < 2"
proof -
  obtain A where A: "so_answer so = Some A" "wf_answer A" "length (so_pre so) = 2" "so_alen so = 0"
    using inv assms(2) by (auto simp: rx_inv_def)
  obtain d where d: "so_answer so1 = Some (A\<lparr>p_data := d\<rparr>)" "so_pre so1 @ d =
      take (so_apos so) (so_pre so @ p_data A) @ bs @ drop (so_apos so + length bs) (so_pre so @ p_data A)"
      "length (so_pre so1) = 2" "length d = length (p_data A)"
      "so_apos so1 = so_apos so + length bs" "so_alen so1 = 0" "so_tcp so1 = so_tcp so"
    using so_receive_ok [OF A(1) rec A(3)] A(4) by auto
  have pre: "take (so_apos so1) (so_pre so1) = take (so_apos so) (so_pre so) @ bs"
  proof -
    have "take (so_apos so1) (so_pre so1) = take (so_apos so1) (so_pre so1 @ d)"
      using d(3,5) assms(2,3) by simp
    also have "\<dots> = take (so_apos so) (so_pre so) @ bs"
      unfolding d(2) using d(5) A(3) assms(2) by simp
    finally show ?thesis .
  qed
  have wf1: "wf_answer (A\<lparr>p_data := d\<rparr>)" using A(2) d(4) by (simp add: wf_answer_def)
  show ?thesis
  proof (cases "so_apos so1 = 2")
    case False
    then have lt: "so_apos so1 < 2" using d(5) assms(2,3) by simp
    with d A(2) wf1 assms(2) pre show ?thesis
      by (auto simp: rx_inv_def rx_got_def)
  next
    case True
    let ?n = "be16 (so_pre so1 ! 0) (so_pre so1 ! 1)"
    obtain A2 where A2: "dns_so_newanswer so1 ?n = Some (so1\<lparr>so_answer := Some A2, so_pre := [0, 0]\<rparr>)"
        "wf_answer A2" "?n \<le> p_size A2"
      using dns_so_newanswer_ok [OF be16_less] by blast
    have "tcp_prefix ?n = so_pre so1" using list_two [OF d(3)] be16_prefix by metis
    also have "\<dots> = take (so_apos so) (so_pre so) @ bs" using pre True d(3) by simp
    finally have "tcp_prefix ?n = rx_got so @ bs" using assms(2) by (simp add: rx_got_def)
    with True A2 d(7) show ?thesis by (auto simp: rx_inv_def rx_got_def)
  qed
qed

lemma rx_data_step:
  assumes inv: "rx_inv so" and "2 \<le> so_apos so" and "length bs \<le> so_alen so + 2 - so_apos so"
    and rec: "so_receive so bs = Some so1"
  shows "rx_inv so1 \<and> rx_got so1 = rx_got so @ bs \<and> so_tcp so1 = so_tcp so \<and>
    so_alen so1 = so_alen so \<and> so_apos so1 = so_apos so + length bs"
proof -
  obtain A where A: "so_answer so = Some A" "wf_answer A" "length (so_pre so) = 2"
      "so_alen so \<le> p_size A" "so_apos so \<le> so_alen so + 2"
    using inv assms(2) by (auto simp: rx_inv_def)
  obtain d where d: "so_answer so1 = Some (A\<lparr>p_data := d\<rparr>)" "so_pre so1 @ d =
      take (so_apos so) (so_pre so @ p_data A) @ bs @ drop (so_apos so + length bs) (so_pre so @ p_data A)"
      "length (so_pre so1) = 2" "length d = length (p_data A)"
      "so_apos so1 = so_apos so + length bs" "so_alen so1 = so_alen so" "so_tcp so1 = so_tcp so"
    using so_receive_ok [OF A(1) rec A(3)] by auto
  have len: "so_apos so - 2 \<le> length (p_data A)" using A(2,4,5) by (simp add: wf_answer_def)
  have "drop 2 (so_pre so1 @ d) = d" using d(3) by simp
  then have dd: "d = drop 2 (take (so_apos so) (so_pre so @ p_data A)) @ bs @
      drop (so_apos so + length bs) (so_pre so @ p_data A)"
    unfolding d(2) using assms(2) A(3) len by simp
  have "take (so_apos so1 - 2) d = take (so_apos so - 2) (p_data A) @ bs"
    unfolding dd using d(5) assms(2) A(3) len by simp
  moreover have "wf_answer (A\<lparr>p_data := d\<rparr>)" using A(2) d(4) by (simp add: wf_answer_def)
  ultimately show ?thesis
    using d A assms(2,3) by (auto simp: rx_inv_def rx_got_def)
qed

text \<open>The loop as an instance of \<open>bounded_loop\<close>: what has been read and what is pending stay the
  same stream, and at most 65537 bytes are read.\<close>

type_synonym 'w rx_state = "'w dns_socket \<times> nat \<times> 'w"

definition rx_loop_inv ::
    "'w os \<Rightarrow> ('w \<Rightarrow> bytes) \<Rightarrow> ('w \<Rightarrow> bytes) \<Rightarrow> bytes \<Rightarrow> 'w rx_state \<Rightarrow> bool" where
  "rx_loop_inv os sent pending stream = (\<lambda>(so, aend, w).
     byte_stream os (so_tcp so) sent pending \<and> rx_inv so \<and> aend = so_alen so + 2 \<and>
     rx_got so @ pending w = stream)"

definition rx_left :: "'w rx_state \<Rightarrow> nat" where
  "rx_left = (\<lambda>(so, aend, w). if so_apos so < 2 then 65540 - so_apos so else aend - so_apos so)"

definition rx_loop_post :: "('w \<Rightarrow> bytes) \<Rightarrow> bytes \<Rightarrow> 'w so_result \<Rightarrow> bool" where
  "rx_loop_post pending stream = (\<lambda>((so, e), w).
     rx_inv so \<and> rx_got so @ pending w = stream \<and>
     (e = None \<longrightarrow> (\<exists>A. so_answer so = Some A \<and> p_end A < 65536 \<and>
        rx_got so = tcp_prefix (p_end A) @ take (p_end A) (p_data A))))"

lemma rx_inv_alen: "rx_inv so \<Longrightarrow> so_alen so < 65536"
  by (auto simp: rx_inv_def wf_answer_def)

lemma rx_step_stop:
  assumes "rx_inv so" "\<not> so_apos so < so_alen so + 2"
  shows "\<exists>so'. dns_so_tcp_recv_step os (so, so_alen so + 2, w) = Some (Inr ((so', None), w)) \<and>
    rx_loop_post pending (rx_got so @ pending w) ((so', None), w)"
proof -
  obtain A where A: "so_answer so = Some A" "wf_answer A" "so_alen so \<le> p_size A"
    using assms(1) by (auto simp: rx_inv_def)
  have apos: "so_apos so = so_alen so + 2" using assms by (auto simp: rx_inv_def split: if_splits)
  let ?A = "A\<lparr>p_end := so_alen so\<rparr>"
  have "wf_answer ?A" using A(2,3) by (simp add: wf_answer_def)
  then show ?thesis
    using A assms apos rx_inv_alen [OF assms(1)]
    by (auto simp: dns_so_tcp_recv_step_def rx_loop_post_def rx_inv_def rx_got_def)
qed

lemma so_receive_defined:
  assumes "rx_inv so" "so_apos so + length bs \<le> so_alen so + 2"
  shows "so_receive so bs \<noteq> None"
  using assms by (auto simp: rx_inv_def so_receive_def wf_answer_def wr_mem_def)

lemma rx_step_go:
  assumes inv: "rx_loop_inv os sent pending stream (so, aend, w)" and lt: "so_apos so < aend"
  shows "\<exists>x. dns_so_tcp_recv_step os (so, aend, w) = Some x \<and>
    (case x of Inl s \<Rightarrow> rx_loop_inv os sent pending stream s \<and> rx_left s < rx_left (so, aend, w)
     | Inr r \<Rightarrow> rx_loop_post pending stream r)"
proof -
  have i: "byte_stream os (so_tcp so) sent pending" "rx_inv so" "aend = so_alen so + 2"
      "rx_got so @ pending w = stream"
    using inv by (simp_all add: rx_loop_inv_def)
  obtain r w' where r: "os_recv os (so_tcp so) (aend - so_apos so) w = (r, w')" by force
  show ?thesis
  proof (cases r)
    case (Inl e)
    with i lt r stream_recv(2) [OF i(1)] show ?thesis
      by (auto simp: dns_so_tcp_recv_step_def rx_loop_post_def)
  next
    case (Inr bs)
    have bs: "length bs \<le> aend - so_apos so" "pending w = bs @ pending w'"
      using stream_recv(1) [OF i(1) r [unfolded Inr]] by simp_all
    show ?thesis
    proof (cases "bs = []")
      case True
      with i lt r Inr bs show ?thesis by (auto simp: dns_so_tcp_recv_step_def rx_loop_post_def)
    next
      case False
      obtain so1 where so1: "so_receive so bs = Some so1"
        using so_receive_defined [OF i(2), of bs] bs(1) lt i(3) by fastforce
      show ?thesis
      proof (cases "so_apos so < 2")
        case True
        have alen: "so_alen so = 0" using i(2) True by (simp add: rx_inv_def)
        have le: "length bs \<le> 2 - so_apos so" using bs(1) i(3) alen by simp
        note st = rx_prefix_step [OF i(2) True le False so1]
        have apos: "so_apos so1 = so_apos so + length bs" "so_alen so1 = 0"
          using so1 alen by (auto simp: so_receive_def split: Option.bind_splits)
        show ?thesis
        proof (cases "so_apos so1 = 2")
          case two: True
          let ?n = "be16 (so_pre so1 ! 0) (so_pre so1 ! 1)"
          obtain so2 where so2: "dns_so_newanswer so1 ?n = Some so2" "rx_inv (so2\<lparr>so_alen := ?n\<rparr>)"
              "so_tcp so2 = so_tcp so" "rx_got (so2\<lparr>so_alen := ?n\<rparr>) = rx_got so @ bs"
            using st two by auto
          have "so_apos so2 = 2"
            using so2(1) two by (auto simp: dns_so_newanswer_def Let_def split: Option.bind_splits)
          with so2 i lt r Inr False so1 two apos bs True be16_less [of "so_pre so1 ! 0" "so_pre so1 ! 1"]
          show ?thesis
            by (simp add: dns_so_tcp_recv_step_def rx_loop_inv_def rx_left_def Let_def del: be16_less)
        next
          case one: False
          have "65540 - (so_apos so + length bs) < 65540 - so_apos so" 
            using False True by (cases bs) simp_all
          with st one apos alen i lt r Inr False so1 bs True show ?thesis
            by (simp add: dns_so_tcp_recv_step_def rx_loop_inv_def rx_left_def)
        qed
      next
        case ge: False
        have le: "length bs \<le> so_alen so + 2 - so_apos so" using bs(1) i(3) by simp
        have "so_alen so \<noteq> 0" using lt i(3) ge by simp
        have "so_alen so + 2 - (so_apos so + length bs) < so_alen so + 2 - so_apos so"
          using False lt i(3) by (cases bs) simp_all
        with \<open>so_alen so \<noteq> 0\<close> rx_data_step [OF i(2) _ le so1] ge i lt r Inr False so1 bs show ?thesis
          by (simp add: dns_so_tcp_recv_step_def rx_loop_inv_def rx_left_def)
      qed
    qed
  qed
qed

interpretation tcp_recv: bounded_loop "dns_so_tcp_recv_step os"
  "rx_loop_inv os sent pending stream" rx_left "rx_loop_post pending stream"
proof -
  have all: "\<exists>x. dns_so_tcp_recv_step os s = Some x \<and>
      (case x of Inl s' \<Rightarrow> rx_loop_inv os sent pending stream s' \<and> rx_left s' < rx_left s
       | Inr r \<Rightarrow> rx_loop_post pending stream r)"
    if inv: "rx_loop_inv os sent pending stream s" for s
  proof -
    obtain so aend w where s: "s = (so, aend, w)" by (cases s) auto
    show ?thesis
    proof (cases "so_apos so < aend")
      case True
      show ?thesis unfolding s by (rule rx_step_go) (use inv True in \<open>simp_all add: s\<close>)
    next
      case False
      with rx_step_stop [of so os w pending] inv show ?thesis by (auto simp: s rx_loop_inv_def)
    qed
  qed
  show "bounded_loop (dns_so_tcp_recv_step os) (rx_loop_inv os sent pending stream) rx_left
      (rx_loop_post pending stream)"
    by unfold_locales (use all in force)+
qed

text \<open>C7: \<open>dns_so_tcp_recv\<close> refines reading one message from a byte stream. However the stream is
  cut into segments and however many calls it takes, it returns, what it has read and what is
  still pending make up the same stream, and when it succeeds it has read exactly the two bytes
  of a length and that many bytes, which are the answer.\<close>

theorem dns_so_tcp_recv_refines:
  assumes "byte_stream os (so_tcp so) sent pending" and "rx_inv so"
  shows "\<exists>so' e w'. dns_so_tcp_recv os so w = Some ((so', e), w') \<and> rx_inv so' \<and>
    rx_got so' @ pending w' = rx_got so @ pending w \<and>
    (e = None \<longrightarrow> (\<exists>A. so_answer so' = Some A \<and> p_end A < 65536 \<and>
       rx_got so @ pending w = tcp_prefix (p_end A) @ take (p_end A) (p_data A) @ pending w'))"
proof -
  have "rx_loop_inv os sent pending (rx_got so @ pending w) (so, so_alen so + 2, w)"
    using assms by (simp add: rx_loop_inv_def)
  from tcp_recv.returns [OF this] obtain so' e w' where r:
      "dns_so_tcp_recv os so w = Some ((so', e), w')"
      "rx_loop_post pending (rx_got so @ pending w) ((so', e), w')"
    by (auto simp: dns_so_tcp_recv_def)
  then show ?thesis by (fastforce simp: rx_loop_post_def)
qed

text \<open>A message of 19 bytes that arrives as one byte, two bytes and the rest, before five more.\<close>

definition rx_socket :: "pipe dns_socket" where
  "rx_socket = so_initializer\<lparr>so_tcp := 3,
     so_answer := Some (raw_packet (replicate 768 0)\<lparr>p_end := 12\<rparr>)\<rparr>"

theorem dns_so_tcp_recv_refines_witness:
  "\<exists>so' e w'. dns_so_tcp_recv pipe_os rx_socket
       ([1, 2, 100], [0, 19] @ script_question 18 128 65 @ [1, 2, 3, 4, 5], []) = Some ((so', e), w') \<and>
     rx_got so' @ fst (snd w') = [0, 19] @ script_question 18 128 65 @ [1, 2, 3, 4, 5]"
proof -
  have "rx_inv rx_socket"
    by (simp add: rx_inv_def rx_socket_def so_initializer_def wf_answer_def c_defs)
  moreover have "rx_got rx_socket = []"
    by (simp add: rx_got_def rx_socket_def so_initializer_def)
  ultimately show ?thesis
    using dns_so_tcp_recv_refines [OF pipe_stream, of rx_socket
        "([1, 2, 100], [0, 19] @ script_question 18 128 65 @ [1, 2, 3, 4, 5], [])"]
    by simp blast
qed

subsection \<open>A reply that hangs the resolver\<close>

text \<open>A reply with the identifier, type and class of the query, whose question is a label followed
  by a pointer back to it.\<close>

definition looping_reply :: "nat \<Rightarrow> nat \<Rightarrow> nat \<Rightarrow> bytes" where
  "looping_reply qid type klass =
     [byte_of qid, byte_of (drop_bit 8 qid), 128, 0, 0, 1, 0, 0, 0, 0, 0, 0, 1, 97, 192, 12,
      byte_of (drop_bit 8 type), byte_of type, byte_of (drop_bit 8 klass), byte_of klass]"

lemma looping_reply_length [simp]: "length (looping_reply qid type klass) = 20"
  by (simp add: looping_reply_def)

text \<open>\<open>dns_so_verify\<close> in two parts: what it checks before it expands the name of the reply, with the position of
  the name, and what it makes of the expanded name.\<close>

definition so_verify_head :: "'w dns_socket \<Rightarrow> (dns_error + nat) option" where
  "so_verify_head so = do {
     A \<leftarrow> so_answer so;
     if so_qid so \<noteq> qid_of A \<or> dns_p_count A DNS_S_QD = 0 then Some (Inl DNS_EUNKNOWN)
     else do {
     (rr, e) \<leftarrow> dns_rr_parse rr0 12 A;
     Some (if e \<noteq> None \<or> rr_type rr \<noteq> so_qtype so \<or> rr_klass rr \<noteq> so_qclass so then Inl DNS_EUNKNOWN
       else Inr (rr_dn_p rr)) } }"

definition so_verify_name :: "'w dns_socket \<Rightarrow> bytes \<Rightarrow> (dns_error + nat) \<Rightarrow> (dns_error option) option" where
  "so_verify_name so qname r =
     (case r of
        Inl error \<Rightarrow> Some (Some error)
      | Inr qlen \<Rightarrow>
          if qlen = 0 \<or> qlen \<ge> DNS_D_MAXNAME + 1 \<or> qlen \<noteq> so_qlen so then Some (Some DNS_EUNKNOWN)
          else map_option (\<lambda>c. if c \<noteq> 0 then Some DNS_EUNKNOWN else None) (c_strcasecmp (so_qname so) qname))"

lemma dns_so_verify_parts:
  "dns_so_verify so P = do {
     h \<leftarrow> so_verify_head so;
     case h of Inl error \<Rightarrow> Some (Some error)
     | Inr p \<Rightarrow> do { (qname, r) \<leftarrow> dns_d_expand QNAMEBUF (DNS_D_MAXNAME + 1) p P; so_verify_name so qname r } }"
proof -
  have name: "so_verify_name so qname r = (case r of
        Inl error \<Rightarrow> Some (Some error)
      | Inr qlen \<Rightarrow>
     (if qlen = 0 then Some (Some DNS_EUNKNOWN)
      else if qlen \<ge> DNS_D_MAXNAME + 1 \<or> qlen \<noteq> so_qlen so then Some (Some DNS_EUNKNOWN)
      else do {
        c \<leftarrow> c_strcasecmp (so_qname so) qname;
        Some (if c \<noteq> 0 then Some DNS_EUNKNOWN else None) }))" for qname r
    by (auto simp: so_verify_name_def map_conv_bind_option comp_def split: sum.split)
  show ?thesis
    unfolding dns_so_verify_def so_verify_head_def name
    by (cases "so_answer so"; cases "dns_rr_parse rr0 12 (the (so_answer so))") auto
qed

text \<open>The socket and its answer when a datagram has been stored.\<close>

definition so_stored :: "dns_packet \<Rightarrow> bytes \<Rightarrow> dns_packet" where
  "so_stored A bs = A\<lparr>p_data := bs @ drop (length bs) (p_data A), p_end := length bs\<rparr>"

definition so_received :: "'w dns_socket \<Rightarrow> dns_packet \<Rightarrow> bytes \<Rightarrow> 'w dns_socket" where
  "so_received so A bs = so\<lparr>so_answer := Some (so_stored A bs),
     so_stat := (so_stat so)
       \<lparr>st_udp_rcvd_bytes := st_udp_rcvd_bytes (so_stat so) + length bs,
        st_udp_rcvd_count := st_udp_rcvd_count (so_stat so) + 1\<rparr>\<rparr>"

lemma so_udp_recv_stored:
  assumes "so_answer so = Some A" "wf_answer A" "os_recv os (so_udp so) (p_size A) w = (Inr bs, w')"
    and "12 \<le> length bs" "length bs \<le> p_size A"
  shows "so_udp_recv os so w = do {
     e \<leftarrow> dns_so_verify (so_received so A bs) (so_stored A bs);
     Some (Inl (case e of
        Some _ \<Rightarrow> (so_received so A bs, w')
      | None \<Rightarrow> (so_received so A bs\<lparr>so_state := DNS_SO_UDP_DONE\<rparr>, w'))) }"
  using assms unfolding so_received_def so_stored_def Suc_eq_plus1 [symmetric]
  by (simp add: so_udp_recv_def Let_def wf_answer_def)

lemma looping_reply_head:
  assumes "p_data A = looping_reply (so_qid so) (so_qtype so) (so_qclass so) @ rest" "p_end A = 20"
    "so_answer so = Some A" "so_qid so < 65536" "so_qtype so < 65536" "so_qclass so < 65536"
  shows "so_verify_head so = Some (Inr 12)"
proof -
  have one: "be16 0 1 = 1" by (simp add: be16_eq)
  have q: "qid_of A = so_qid so"
    using assms by (simp add: qid_of_def looping_reply_def be16_bytes)
  have count: "dns_p_count A DNS_S_QD = 1"
    using assms by (simp add: dns_p_count_def hd_qdcount_def hd16_def looping_reply_def one)
  have "\<exists>rr. dns_rr_parse rr0 12 A = Some (rr, None) \<and> rr_type rr = so_qtype so \<and>
      rr_klass rr = so_qclass so \<and> rr_dn_p rr = 12"
    using assms
    by (simp add: dns_rr_parse_def dns_d_skip_def dns_p_qend_def dns_p_count_def hd_qdcount_def hd16_def dns_d_skip_step_def
        fun_cong [OF dns_p_qend_step_def, of _ "(i, n)" for i n, simplified prod.case]
        looping_reply_def name_eval u16_def be16_bytes one cong: bind_weak)
  with q count assms(3) show ?thesis by (auto simp: so_verify_head_def)
qed

lemma looping_reply_steps:
  assumes "p_data A = looping_reply qid type klass @ rest" "p_end A = 20"
  shows "\<exists>s. c_steps (dns_d_expand_step (DNS_D_MAXNAME + 1) A) n (QNAMEBUF, 0, 12, 0) = Some (Inl s)"
  by (rule expand_self_steps [where len = 1])
    (use assms in \<open>simp_all add: readable_def QNAMEBUF_def looping_reply_def lab_type_eq
      lab_len_eq lab_ptr_eq nat_and_63 nat_and_255\<close>)

text \<open>C40: one datagram keeps a socket that waits for an answer over UDP in a loop for ever. For any datagram with the
  identifier, type and class of the query, \<open>dns_so_check\<close> first runs \<open>dns_d_expand\<close> on the name in it, and only then compares that
  name and goes on. For a reply whose name points at itself the loop of \<open>dns_d_expand\<close> goes on after any
  number \<open>n\<close> of iterations, each in bounds, so that \<open>dns_so_check\<close> never gets past it.\<close>

theorem dns_so_check_hangs:
  assumes "so_state so = DNS_SO_UDP_RECV" and "so_answer so = Some A" and "wf_answer A"
    and "so_qid so < 65536" "so_qtype so < 65536" "so_qclass so < 65536"
    and "os_recv os (so_udp so) (p_size A) w = (Inr bs, w')" and "12 \<le> length bs" "length bs \<le> p_size A"
  shows "(\<forall>p. so_verify_head (so_received so A bs) = Some (Inr p) \<longrightarrow>
      dns_so_check os so w = do {
        (qname, r) \<leftarrow> c_while (dns_d_expand_step (DNS_D_MAXNAME + 1) (so_stored A bs)) (QNAMEBUF, 0, p, 0);
        e \<leftarrow> so_verify_name (so_received so A bs) qname r;
        dns_so_check os (case e of Some _ \<Rightarrow> so_received so A bs
          | None \<Rightarrow> so_received so A bs\<lparr>so_state := DNS_SO_UDP_DONE\<rparr>) w' }) \<and>
    (bs = looping_reply (so_qid so) (so_qtype so) (so_qclass so) \<longrightarrow>
      so_verify_head (so_received so A bs) = Some (Inr 12) \<and>
      (\<forall>n. \<exists>s. c_steps (dns_d_expand_step (DNS_D_MAXNAME + 1) (so_stored A bs)) n (QNAMEBUF, 0, 12, 0) = Some (Inl s)) \<and>
      dns_so_check os so w = None)"
proof -
  let ?so = "so_received so A bs" and ?A = "so_stored A bs"
  have step: "dns_so_check os so w = do {
      (qname, r) \<leftarrow> c_while (dns_d_expand_step (DNS_D_MAXNAME + 1) ?A) (QNAMEBUF, 0, p, 0);
      e \<leftarrow> so_verify_name ?so qname r;
      dns_so_check os (case e of Some _ \<Rightarrow> ?so | None \<Rightarrow> ?so\<lparr>so_state := DNS_SO_UDP_DONE\<rparr>) w' }"
    if "so_verify_head ?so = Some (Inr p)" for p
  proof -
    have recv: "dns_so_check_step os (so, w) = do {
        (qname, r) \<leftarrow> c_while (dns_d_expand_step (DNS_D_MAXNAME + 1) ?A) (QNAMEBUF, 0, p, 0);
        e \<leftarrow> so_verify_name ?so qname r;
        Some (Inl (case e of Some _ \<Rightarrow> (?so, w') | None \<Rightarrow> (?so\<lparr>so_state := DNS_SO_UDP_DONE\<rparr>, w'))) }"
      using assms(1) that by (simp add: dns_so_check_step_def so_udp_recv_stored [OF assms(2,3,7-9)]
          dns_so_verify_parts dns_d_expand_def bind_assoc split_def)
    show ?thesis
    proof (cases "c_while (dns_d_expand_step (DNS_D_MAXNAME + 1) ?A) (QNAMEBUF, 0, p, 0)")
      case None
      then show ?thesis using recv by (simp add: dns_so_check_def c_while_oob)
    next
      case (Some x)
      then show ?thesis using recv
        by (cases x; cases "so_verify_name ?so (fst x) (snd x)")
          (auto simp: dns_so_check_def c_while_oob c_while_next split: option.split)
    qed
  qed
  have "so_verify_head ?so = Some (Inr 12) \<and>
      (\<forall>n. \<exists>s. c_steps (dns_d_expand_step (DNS_D_MAXNAME + 1) ?A) n (QNAMEBUF, 0, 12, 0) = Some (Inl s)) \<and>
      dns_so_check os so w = None"
    if bs: "bs = looping_reply (so_qid so) (so_qtype so) (so_qclass so)"
  proof -
    have A: "p_data ?A = looping_reply (so_qid so) (so_qtype so) (so_qclass so) @ drop 20 (p_data A)" "p_end ?A = 20"
      by (simp_all add: so_stored_def bs)
    have head: "so_verify_head ?so = Some (Inr 12)"
      using looping_reply_head [of ?A ?so] A assms(4-6) by (simp add: so_received_def)
    have steps: "\<exists>s. c_steps (dns_d_expand_step (DNS_D_MAXNAME + 1) ?A) n (QNAMEBUF, 0, 12, 0) = Some (Inl s)" for n
      by (rule looping_reply_steps [OF A])
    then have "c_while (dns_d_expand_step (DNS_D_MAXNAME + 1) ?A) (QNAMEBUF, 0, 12, 0) = None"
      by (rule c_while_diverges)
    then show ?thesis using head steps step [OF head] by simp
  qed
  with step show ?thesis by blast
qed

theorem dns_so_check_hangs_witness:
  "dns_so_check script_os (script_socket\<lparr>so_state := DNS_SO_UDP_RECV\<rparr>)
     [Inr (looping_reply 13330 1 1)] = None"
  using dns_so_check_hangs [where so = "script_socket\<lparr>so_state := DNS_SO_UDP_RECV\<rparr>" and os = script_os
      and w = "[Inr (looping_reply 13330 1 1)]" and bs = "looping_reply 13330 1 1" and w' = "[]"
      and A = "raw_packet (replicate 768 0)\<lparr>p_end := 12\<rparr>"]
  by (simp add: script_socket_def script_os_def wf_answer_def c_defs raw_packet_def)

end
