(* ===== verification/Resolver.thy ===== *)
theory Resolver
  imports Hints Socket
begin

unbundle bit_operations_syntax

section \<open>The resolver\<close>

text \<open>
  CACHE ROUTINES and RESOLVER ROUTINES of \<open>dns.c\<close>: the state machine that answers a query from
  the hosts table, the application's cache and the network, with a stack of frames for the
  names it has to resolve on the way. \<open>goto exec\<close> is one round of a loop; each state is a
  definition. \<open>junk\<close> is what an uninitialised \<open>union dns_any\<close> holds. Reference counts and the
  loading of configuration files (\<open>dns_res_stub\<close>) are in \<open>Local\<close>.
\<close>

subsection \<open>The cache interface\<close>

text \<open>The function pointers of \<open>struct dns_cache\<close>; a pointer result comes with \<open>*error\<close>, which the
  caller has set to \<open>0\<close>.\<close>

record 'w dns_cache =
  c_query :: "dns_packet \<Rightarrow> 'w \<Rightarrow> (dns_packet option \<times> dns_error option) \<times> 'w"
  c_submit :: "dns_packet \<Rightarrow> 'w \<Rightarrow> dns_error option \<times> 'w"
  c_check :: "'w \<Rightarrow> dns_error option \<times> 'w"
  c_fetch :: "'w \<Rightarrow> (dns_packet option \<times> dns_error option) \<times> 'w"
  c_pollfd :: "'w \<Rightarrow> int"
  c_events :: "'w \<Rightarrow> nat"
  c_clear :: "'w \<Rightarrow> 'w"

definition dns_cache_query :: "dns_packet \<Rightarrow> 'w \<Rightarrow> (dns_packet option \<times> dns_error option) \<times> 'w" where
  "dns_cache_query query w = ((None, None), w)"

definition dns_cache_submit :: "dns_packet \<Rightarrow> 'w \<Rightarrow> dns_error option \<times> 'w" where
  "dns_cache_submit query w = (None, w)"

definition dns_cache_check :: "'w \<Rightarrow> dns_error option \<times> 'w" where
  "dns_cache_check w = (None, w)"

definition dns_cache_fetch :: "'w \<Rightarrow> (dns_packet option \<times> dns_error option) \<times> 'w" where
  "dns_cache_fetch w = ((None, None), w)"

definition dns_cache_pollfd :: "'w \<Rightarrow> int" where
  "dns_cache_pollfd w = -1"

definition dns_cache_events :: "'w \<Rightarrow> nat" where
  "dns_cache_events w = 0"

definition dns_cache_clear :: "'w \<Rightarrow> 'w" where
  "dns_cache_clear w = w"

definition dns_cache_init :: "'w dns_cache" where
  "dns_cache_init =
     \<lparr>c_query = dns_cache_query, c_submit = dns_cache_submit, c_check = dns_cache_check,
      c_fetch = dns_cache_fetch, c_pollfd = dns_cache_pollfd, c_events = dns_cache_events,
      c_clear = dns_cache_clear\<rparr>"

subsection \<open>The state of a resolver\<close>

datatype res_state =
    DNS_R_INIT | DNS_R_GLUE | DNS_R_SWITCH | DNS_R_FILE | DNS_R_CACHE | DNS_R_SUBMIT | DNS_R_CHECK
  | DNS_R_FETCH | DNS_R_BIND | DNS_R_SEARCH | DNS_R_HINTS | DNS_R_ITERATE | DNS_R_FOREACH_NS
  | DNS_R_RESOLV0_NS | DNS_R_RESOLV1_NS | DNS_R_FOREACH_A | DNS_R_QUERY_A | DNS_R_CNAME0_A
  | DNS_R_CNAME1_A | DNS_R_FINISH | DNS_R_SMART0_A | DNS_R_SMART1_A | DNS_R_DONE | DNS_R_SERVFAIL

text \<open>The field \<open>error\<close>, which no code reads or writes, is left out.\<close>

record dns_res_frame =
  f_state :: res_state
  f_which :: nat
  f_attempts :: nat
  f_query :: "dns_packet option"
  f_answer :: "dns_packet option"
  f_hints :: "dns_packet option"
  f_hints_i :: dns_rr_i
  f_hints_j :: dns_rr_i
  f_hints_ns :: dns_rr
  f_ans_cname :: dns_rr

definition DNS_R_MAXDEPTH :: nat where [c_defs]: "DNS_R_MAXDEPTH = 8"

text \<open>While a query is on the wire, \<open>r_so\<close> and the frame hold the same packet.\<close>

record 'w dns_resolver =
  r_so :: "'w dns_socket"
  r_resconf :: dns_resolv_conf
  r_hosts :: dns_hosts
  r_hints :: dns_hints
  r_cache :: "'w dns_cache option"
  r_qname :: bytes
  r_qlen :: nat
  r_qtype :: nat
  r_qclass :: nat
  r_elapsed :: dns_clock
  r_search :: nat
  r_smart :: dns_rr_i
  r_nodata :: "dns_packet option"
  r_sp :: nat
  r_stack :: "dns_res_frame list"

definition dns_res_tcp2type :: "resconf_tcp \<Rightarrow> nat" where
  "dns_res_tcp2type tcp =
     (case tcp of
        DNS_RESCONF_TCP_ONLY \<Rightarrow> SOCK_STREAM
      | DNS_RESCONF_TCP_DISABLE \<Rightarrow> SOCK_DGRAM
      | _ \<Rightarrow> 0)"

text \<open>A frame that is freed and cleared.\<close>

definition dns_res_reset_frame :: dns_res_frame where
  "dns_res_reset_frame =
     \<lparr>f_state = DNS_R_INIT, f_which = 0, f_attempts = 0, f_query = None, f_answer = None,
      f_hints = None, f_hints_i = rr_i0, f_hints_j = rr_i0, f_hints_ns = rr0, f_ans_cname = rr0\<rparr>"

definition dns_res_reset :: "'w dns_resolver \<Rightarrow> 'w dns_resolver" where
  "dns_res_reset R =
     R\<lparr>r_so := dns_so_reset (r_so R), r_qname := NAMEBUF, r_qlen := 0, r_qtype := 0, r_qclass := 0,
       r_elapsed := clock0, r_search := 0, r_smart := rr_i0, r_nodata := None, r_sp := 0,
       r_stack := replicate DNS_R_MAXDEPTH dns_res_reset_frame\<rparr>"

text \<open>A null pointer among the first three leaves \<open>*_error\<close> alone, the \<open>None\<close> inside the error.\<close>

definition dns_res_open ::
    "'w os \<Rightarrow> dns_resolv_conf option \<Rightarrow> dns_hosts option \<Rightarrow> dns_hints option \<Rightarrow> 'w dns_cache option \<Rightarrow>
     'w dns_options option \<Rightarrow> 'w \<Rightarrow> ((dns_error option + 'w dns_resolver) \<times> 'w) option" where
  "dns_res_open os resconf hosts hints cache opts w =
     (case (resconf, hosts, hints) of
        (Some rc, Some hs, Some H) \<Rightarrow> do {
          let type = dns_res_tcp2type (rc_tcp rc);
          ((so, e), w) \<leftarrow> dns_so_init os (Some (rc_iface rc)) type opts w;
          (case e of
             Some error \<Rightarrow> Some (Inl (Some error), snd (dns_so_destroy os (dns_so_reset so) w))
           | None \<Rightarrow> Some (Inr (dns_res_reset \<lparr>r_so = so, r_resconf = rc, r_hosts = hs, r_hints = H,
               r_cache = cache, r_qname = NAMEBUF, r_qlen = 0, r_qtype = 0, r_qclass = 0,
               r_elapsed = clock0, r_search = 0, r_smart = rr_i0, r_nodata = None, r_sp = 0,
               r_stack = replicate DNS_R_MAXDEPTH dns_res_reset_frame\<rparr>), w)) }
      | _ \<Rightarrow> Some (Inl None, w))"

definition dns_res_close :: "'w os \<Rightarrow> 'w dns_resolver \<Rightarrow> 'w \<Rightarrow> 'w" where
  "dns_res_close os R w = snd (dns_so_destroy os (r_so (dns_res_reset R)) w)"

subsection \<open>Merging an answer with the answer to its CNAME\<close>

text \<open>The records of one packet and one section, those that \<open>P2\<close> has not got yet.\<close>

definition res_merge_known ::
    "dns_any \<Rightarrow> dns_packet \<Rightarrow> dns_rr \<Rightarrow> dns_packet \<Rightarrow> bool option" where
  "res_merge_known junk P rr P2 = do {
     r \<leftarrow> dns_rr_foreach junk 1 (rr_i0\<lparr>i_type := rr_type rr, i_section := DNS_S_ALL - DNS_S_QD\<rparr>) P2
       (\<lambda>rr2 s. do {
          c \<leftarrow> dns_rr_cmp junk rr P rr2 P2;
          Some (if c = 0 then Inr () else Inl s) }) ();
     Some (case r of Inl _ \<Rightarrow> False | Inr _ \<Rightarrow> True) }"

definition res_merge_rr ::
    "dns_any \<Rightarrow> dns_packet \<Rightarrow> dns_rr \<Rightarrow> dns_packet \<Rightarrow> (dns_packet + dns_error) option" where
  "res_merge_rr junk P rr P2 = do {
     known \<leftarrow> res_merge_known junk P rr P2;
     if known then Some (Inl P2)
     else do {
       (P2, e) \<leftarrow> dns_rr_copy P2 rr P;
       Some (case e of None \<Rightarrow> Inl P2 | Some error \<Rightarrow> Inr error) } }"

text \<open>The loops over the sections and, inside, over the two packets, as one list.\<close>

fun res_merge_sections ::
    "dns_any \<Rightarrow> (nat \<times> dns_packet) list \<Rightarrow> dns_packet \<Rightarrow> (dns_packet + dns_error) option" where
  "res_merge_sections junk [] P2 = Some (Inl P2)"
| "res_merge_sections junk ((s, P) # rest) P2 = do {
     r \<leftarrow> dns_rr_foreach junk 1 (rr_i0\<lparr>i_section := s\<rparr>) P (res_merge_rr junk P) P2;
     (case r of
        Inr e \<Rightarrow> Some (Inr e)
      | Inl P2 \<Rightarrow> res_merge_sections junk rest P2) }"

definition dns_res_merge_step ::
    "dns_any \<Rightarrow> dns_packet \<Rightarrow> dns_packet \<Rightarrow> nat \<Rightarrow> (nat + dns_error + dns_packet) option" where
  "dns_res_merge_step junk P0 P1 bufsiz = do {
     P2 \<leftarrow> dns_p_make bufsiz;
     r \<leftarrow> dns_rr_foreach junk 1 (rr_i0\<lparr>i_section := DNS_S_QD\<rparr>) P0 (merge_a P0) P2;
     (case r of
        Inr e \<Rightarrow> Some (Inr (Inl e))
      | Inl P2 \<Rightarrow> do {
     r \<leftarrow> res_merge_sections junk
       [(DNS_S_AN, P0), (DNS_S_AN, P1), (DNS_S_NS, P0), (DNS_S_NS, P1), (DNS_S_AR, P0), (DNS_S_AR, P1)] P2;
     (case r of
        Inl P2 \<Rightarrow> Some (Inr (Inr P2))
      | Inr e \<Rightarrow>
          (if e = DNS_ENOBUFS \<and> bufsiz < 65535 then Some (Inl (max 65535 (bufsiz * 2)))
           else Some (Inr (Inl e)))) }) }"

definition dns_res_merge :: "dns_any \<Rightarrow> dns_packet \<Rightarrow> dns_packet \<Rightarrow> (dns_error + dns_packet) option" where
  "dns_res_merge junk P0 P1 = c_while (dns_res_merge_step junk P0 P1) (p_end P0 + p_end P1)"

subsection \<open>Glue from the frames below\<close>

text \<open>The records \<open>qname\<close> of type \<open>qtype\<close> in the answers of the frames, copied into the answer
  section; \<open>Inr\<close> is an error of \<open>dns_rr_copy\<close>.\<close>

fun res_glue_copy ::
    "dns_any \<Rightarrow> bytes \<Rightarrow> nat \<Rightarrow> dns_res_frame list \<Rightarrow> dns_packet \<Rightarrow> (dns_packet + dns_error) option" where
  "res_glue_copy junk qname qtype [] P = Some (Inl P)"
| "res_glue_copy junk qname qtype (F # Fs) P =
     (case f_answer F of
        None \<Rightarrow> res_glue_copy junk qname qtype Fs P
      | Some A \<Rightarrow> do {
          r \<leftarrow> dns_rr_foreach junk 1
            (rr_i0\<lparr>i_name := Some qname, i_type := qtype, i_section := DNS_S_ALL - DNS_S_QD\<rparr>) A
            (\<lambda>rr P. merge_a A (rr\<lparr>rr_section := DNS_S_AN\<rparr>) P) P;
          (case r of
             Inr e \<Rightarrow> Some (Inr e)
           | Inl P \<Rightarrow> res_glue_copy junk qname qtype Fs P) })"

definition res_glue_found :: "dns_packet \<Rightarrow> dns_packet option option" where
  "res_glue_found P = do {
     A \<leftarrow> dns_p_make (p_end P);
     A \<leftarrow> dns_p_copy A P;
     Some (Some A) }"

definition dns_res_glue ::
    "dns_any \<Rightarrow> 'w dns_resolver \<Rightarrow> dns_packet \<Rightarrow> dns_packet option option" where
  "dns_res_glue junk R Q = do {
     P \<leftarrow> dns_p_make 512;
     let Fs = take (r_sp R + 1) (r_stack R);
     (qname, r) \<leftarrow> dns_d_expand NAMEBUF (DNS_D_MAXNAME + 1) 12 Q;
     (case r of
        Inl error \<Rightarrow> Some None
      | Inr qlen \<Rightarrow>
     (if qlen = 0 \<or> qlen \<ge> DNS_D_MAXNAME + 1 then Some None
      else do {
     qtype \<leftarrow> dns_rr_type 12 Q;
     if qtype = 0 then Some None
     else do {
     n \<leftarrow> c_strlen qname;
     (P, e) \<leftarrow> dns_p_push P DNS_S_QD qname n qtype DNS_C_IN 0 junk;
     if e \<noteq> None then Some None
     else do {
     r \<leftarrow> res_glue_copy junk qname qtype Fs P;
     (case r of
        Inr error \<Rightarrow> Some None
      | Inl P \<Rightarrow>
     (if dns_p_count P DNS_S_AN > 0 then res_glue_found P
      else do {
     r \<leftarrow> res_glue_copy junk qname DNS_T_CNAME Fs P;
     (case r of
        Inr error \<Rightarrow> Some None
      | Inl P \<Rightarrow> if dns_p_count P DNS_S_AN = 0 then Some None else res_glue_found P) })) } } })) }"

subsection \<open>Queries\<close>

text \<open>\<open>dns_header(Q)->rd = b\<close>.\<close>

definition hd_set_rd :: "bool \<Rightarrow> dns_packet \<Rightarrow> dns_packet" where
  "hd_set_rd b P = P\<lparr>p_data := (p_data P)[2 := (p_data P ! 2 AND 254) OR (if b then 1 else 0)]\<rparr>"

text \<open>The object has \<open>DNS_P_QBUFSIZ\<close> bytes, header of the structure included.\<close>

definition dns_res_mkquery ::
    "dns_any \<Rightarrow> 'w dns_resolver \<Rightarrow> bytes \<Rightarrow> nat \<Rightarrow> nat \<Rightarrow> (dns_error + dns_packet) option" where
  "dns_res_mkquery junk R qname qtype qclass = do {
     Q \<leftarrow> dns_p_init (replicate (DNS_P_QBUFSIZ - OFFSETOF_DATA) 0) DNS_P_QBUFSIZ;
     n \<leftarrow> c_strlen qname;
     (Q, e) \<leftarrow> dns_p_push Q DNS_S_QD qname n qtype qclass 0 junk;
     Some (case e of
        Some error \<Rightarrow> Inl error
      | None \<Rightarrow> Inr (hd_set_rd (\<not> rc_recurse (r_resconf R)) Q)) }"

subsection \<open>The order of name servers\<close>

text \<open>The first address record of the server named in the NS record \<open>rr\<close>, if any.\<close>

definition nameserv_glue :: "dns_any \<Rightarrow> dns_rr \<Rightarrow> dns_packet \<Rightarrow> dns_rr option option" where
  "nameserv_glue junk rr P = do {
     r \<leftarrow> dns_ns_parse rr P;
     (case r of
        Inl error \<Rightarrow> Some None
      | Inr host \<Rightarrow> do {
          (rrs, i, e) \<leftarrow> dns_rr_grep junk 1 1
            (rr_i0\<lparr>i_section := DNS_S_ALL - DNS_S_QD, i_name := Some host, i_type := DNS_T_A\<rparr>) P;
          Some (case rrs of [] \<Rightarrow> None | x # _ \<Rightarrow> Some x) }) }"

definition before :: "dns_rr option \<Rightarrow> nat \<Rightarrow> int" where
  "before x pos = (if dns_rr_offset (case x of Some rr \<Rightarrow> rr | None \<Rightarrow> rr0) < pos then 1 else 0)"

definition dns_res_nameserv_cmp ::
    "dns_any \<Rightarrow> nat \<Rightarrow> u32 \<Rightarrow> dns_rr \<Rightarrow> dns_rr \<Rightarrow> dns_rr_i_state \<Rightarrow> dns_packet \<Rightarrow>
     (int \<times> dns_rr_i_state) option" where
  "dns_res_nameserv_cmp junk arg0 rnd a b s P = do {
     x \<leftarrow> nameserv_glue junk a P;
     y \<leftarrow> nameserv_glue junk b P;
     let cmp = of_bool (y \<noteq> None) - of_bool (x \<noteq> None);
     if cmp \<noteq> 0 then Some (cmp, s)
     else
       (let cmp = before y arg0 - before x arg0 in
        if cmp \<noteq> 0 then Some (cmp, s)
        else
          (let (cmp, i) = dns_rr_i_shuffle rnd a b (rr_i0\<lparr>i_state := s\<rparr>)
           in Some (cmp, i_state i))) }"

subsection \<open>Steps\<close>

text \<open>A state is left with \<open>dgoto\<close> or by falling into the next one, both \<open>Inl\<close>, or the function
  returns, \<open>Inr\<close>, with an error or \<open>None\<close> for \<open>0\<close>. \<open>F\<close> is the frame at \<open>sp\<close>.\<close>

type_synonym 'w res_result = "('w dns_resolver \<times> dns_error option) \<times> 'w"
type_synonym 'w res_next = "('w dns_resolver \<times> 'w + 'w res_result) option"

definition res_put :: "'w dns_resolver \<Rightarrow> dns_res_frame \<Rightarrow> 'w dns_resolver" where
  "res_put R F = R\<lparr>r_stack := (r_stack R)[r_sp R := F]\<rparr>"

definition res_goto :: "'w dns_resolver \<Rightarrow> dns_res_frame \<Rightarrow> res_state \<Rightarrow> 'w \<Rightarrow> 'w res_next" where
  "res_goto R F st w = Some (Inl (res_put R (F\<lparr>f_state := st\<rparr>), w))"

definition res_return :: "'w dns_resolver \<Rightarrow> dns_res_frame \<Rightarrow> dns_error option \<Rightarrow> 'w \<Rightarrow> 'w res_next" where
  "res_return R F e w = Some (Inr ((res_put R F, e), w))"

text \<open>The frame above, \<open>F[1]\<close>, and whether there is none, \<open>&F[1] >= endof(R->stack)\<close>.\<close>

definition res_full :: "'w dns_resolver \<Rightarrow> bool" where
  "res_full R \<longleftrightarrow> r_sp R + 1 \<ge> DNS_R_MAXDEPTH"

definition res_above :: "'w dns_resolver \<Rightarrow> dns_res_frame option" where
  "res_above R = rd (r_stack R) (r_sp R + 1)"

definition res_put_above :: "'w dns_resolver \<Rightarrow> dns_res_frame \<Rightarrow> 'w dns_resolver" where
  "res_put_above R G = R\<lparr>r_stack := (r_stack R)[r_sp R + 1 := G]\<rparr>"

text \<open>\<open>F->state++; dgoto(++R->sp, DNS_R_INIT)\<close>, with the query of the next frame.\<close>

definition res_call ::
    "'w dns_resolver \<Rightarrow> dns_res_frame \<Rightarrow> res_state \<Rightarrow> dns_packet \<Rightarrow> 'w \<Rightarrow> 'w res_next" where
  "res_call R F st query w =
     (let R = res_put R (F\<lparr>f_state := st\<rparr>);
          R = res_put_above R (dns_res_reset_frame\<lparr>f_query := Some query\<rparr>)
      in Some (Inl (R\<lparr>r_sp := r_sp R + 1\<rparr>, w)))"

text \<open>An error once the frame above has been cleared and given the query, \<open>None\<close> for none.\<close>

definition res_call_fail ::
    "'w dns_resolver \<Rightarrow> dns_res_frame \<Rightarrow> dns_packet option \<Rightarrow> dns_error \<Rightarrow> 'w \<Rightarrow> 'w res_next" where
  "res_call_fail R F query error w =
     res_return (res_put_above R (dns_res_reset_frame\<lparr>f_query := query\<rparr>)) F (Some error) w"

text \<open>A query for \<open>host\<close> in the frame above, and the call.\<close>

definition res_push_call ::
    "dns_any \<Rightarrow> 'w dns_resolver \<Rightarrow> dns_res_frame \<Rightarrow> res_state \<Rightarrow> bytes \<Rightarrow> nat \<Rightarrow> 'w \<Rightarrow> 'w res_next" where
  "res_push_call junk R F st host type w = do {
     Q \<leftarrow> dns_p_make DNS_P_QBUFSIZ;
     n \<leftarrow> c_strlen host;
     (Q, e) \<leftarrow> dns_p_push Q DNS_S_QD host n type DNS_C_IN 0 junk;
     (case e of
        Some error \<Rightarrow> res_call_fail R F (Some Q) error w
      | None \<Rightarrow> res_call R F st Q w) }"

text \<open>A query from \<open>dns_res_mkquery\<close> in the frame above, and the call.\<close>

definition res_mkquery_call ::
    "dns_any \<Rightarrow> 'w dns_resolver \<Rightarrow> dns_res_frame \<Rightarrow> res_state \<Rightarrow> bytes \<Rightarrow> nat \<Rightarrow> 'w \<Rightarrow> 'w res_next" where
  "res_mkquery_call junk R F st host type w = do {
     r \<leftarrow> dns_res_mkquery junk R host type DNS_C_IN;
     (case r of
        Inl error \<Rightarrow> res_call_fail R F None error w
      | Inr Q \<Rightarrow> res_call R F st Q w) }"

text \<open>The first record that an iterator would visit: a loop over records whose body always leaves.\<close>

definition res_first :: "dns_any \<Rightarrow> dns_rr_i \<Rightarrow> dns_packet \<Rightarrow> dns_rr option option" where
  "res_first junk i P = do {
     r \<leftarrow> dns_rr_foreach junk 1 i P (\<lambda>rr s. Some (Inr rr)) ();
     Some (case r of Inl _ \<Rightarrow> None | Inr rr \<Rightarrow> Some rr) }"

subsection \<open>The states: sources of an answer\<close>

text \<open>The answer has a record of the type asked for, or a CNAME to follow, or neither.\<close>

definition res_inspect ::
    "dns_any \<Rightarrow> bytes \<Rightarrow> nat \<Rightarrow> 'w dns_resolver \<Rightarrow> dns_res_frame \<Rightarrow> dns_packet \<Rightarrow> 'w \<Rightarrow>
     'w res_next \<Rightarrow> 'w res_next" where
  "res_inspect junk host type R F A w otherwise = do {
     found \<leftarrow> res_first junk (rr_i0\<lparr>i_name := Some host, i_type := type, i_section := DNS_S_AN\<rparr>) A;
     if found \<noteq> None then res_goto R F DNS_R_FINISH w
     else do {
       cname \<leftarrow> res_first junk
         (rr_i0\<lparr>i_name := Some host, i_type := DNS_T_CNAME, i_section := DNS_S_AN\<rparr>) A;
       (case cname of
          Some rr \<Rightarrow> res_goto R (F\<lparr>f_ans_cname := rr\<rparr>) DNS_R_CNAME0_A w
        | None \<Rightarrow> otherwise) } }"

definition res_glue :: "dns_any \<Rightarrow> 'w dns_resolver \<Rightarrow> dns_res_frame \<Rightarrow> 'w \<Rightarrow> 'w res_next" where
  "res_glue junk R F w =
     (if r_sp R = 0 then res_goto R F DNS_R_SWITCH w
      else (case f_query F of
        None \<Rightarrow> res_return R F (Some DNS_ENOQUERY) w
      | Some Q \<Rightarrow> do {
          A \<leftarrow> dns_res_glue junk R Q;
          let F = F\<lparr>f_answer := A\<rparr>;
          (case A of
             None \<Rightarrow> res_goto R F DNS_R_SWITCH w
           | Some A \<Rightarrow> do {
               h \<leftarrow> expand_host 12 Q;
               (case h of
                  Inl error \<Rightarrow> res_return R F (Some error) w
                | Inr host \<Rightarrow> do {
                    type \<leftarrow> dns_rr_type 12 Q;
                    res_inspect junk host type R F A w (res_goto R F DNS_R_SWITCH w) }) }) }))"

text \<open>The letters of \<open>lookup\<close> from \<open>which\<close> on: the state to go to, and the next \<open>which\<close>.\<close>

definition res_lookup_step ::
    "'w dns_resolver \<Rightarrow> nat \<Rightarrow> (nat + nat \<times> res_state option) option" where
  "res_lookup_step R which =
     (if which < LOOKUPS then do {
        c \<leftarrow> rd (rc_lookup (r_resconf R)) which;
        Some (if c = 0 then Inr (which, None)
          else if c = 98 \<or> c = 66 then Inr (which + 1, Some DNS_R_BIND)
          else if c = 102 \<or> c = 70 then Inr (which + 1, Some DNS_R_FILE)
          else if (c = 99 \<or> c = 67) \<and> r_cache R \<noteq> None then Inr (which + 1, Some DNS_R_CACHE)
          else Inl (which + 1)) }
      else Some (Inr (which, None)))"

definition res_switch :: "'w dns_resolver \<Rightarrow> dns_res_frame \<Rightarrow> 'w \<Rightarrow> 'w res_next" where
  "res_switch R F w = do {
     (which, st) \<leftarrow> c_while (res_lookup_step R) (f_which F);
     let F = F\<lparr>f_which := which\<rparr>;
     (case st of
        Some st \<Rightarrow> res_goto R F st w
      | None \<Rightarrow>
          (if r_sp R = 0 \<and> r_nodata R \<noteq> None
           then res_goto (R\<lparr>r_nodata := None\<rparr>) (F\<lparr>f_answer := r_nodata R\<rparr>) DNS_R_FINISH w
           else res_goto R F DNS_R_SERVFAIL w)) }"

text \<open>One name of the search list looked up in the hosts table; the search goes on with the
  buffer and the state of the search.\<close>

type_synonym 'w file_state = "bytes \<times> 'w dns_resolver \<times> dns_res_frame"

definition res_file_step ::
    "dns_any \<Rightarrow> 'w \<Rightarrow> 'w file_state \<Rightarrow>
     ('w file_state + ('w dns_resolver \<times> 'w + 'w res_result)) option" where
  "res_file_step junk w = (\<lambda>(host, R, F). do {
     (host, len, search) \<leftarrow>
       dns_resconf_search host (DNS_D_MAXNAME + 1) (r_qname R) (r_qlen R) (r_resconf R) (r_search R);
     let R = R\<lparr>r_search := search\<rparr>;
     if len = 0 then do { r \<leftarrow> res_goto R F DNS_R_SWITCH w; Some (Inr r) }
     else do {
     Q \<leftarrow> dns_p_make DNS_P_QBUFSIZ;
     (Q, e) \<leftarrow> dns_p_push Q DNS_S_QD host len (r_qtype R) (r_qclass R) 0 junk;
     (case e of
        Some error \<Rightarrow> do { r \<leftarrow> res_return R F (Some error) w; Some (Inr r) }
      | None \<Rightarrow> do {
     a \<leftarrow> dns_hosts_query (r_hosts R) Q;
     (case a of
        Inl error \<Rightarrow> do { r \<leftarrow> res_return R (F\<lparr>f_answer := None\<rparr>) (Some error) w; Some (Inr r) }
      | Inr A \<Rightarrow>
          (if dns_p_count A DNS_S_AN > 0
           then do { r \<leftarrow> res_goto R (F\<lparr>f_answer := Some A\<rparr>) DNS_R_FINISH w; Some (Inr r) }
           else Some (Inl (host, R, F\<lparr>f_answer := None\<rparr>)))) }) } })"

definition res_file :: "dns_any \<Rightarrow> 'w dns_resolver \<Rightarrow> dns_res_frame \<Rightarrow> 'w \<Rightarrow> 'w res_next" where
  "res_file junk R F w =
     (if r_sp R > 0 then do {
        Q \<leftarrow> f_query F;
        a \<leftarrow> dns_hosts_query (r_hosts R) Q;
        (case a of
           Inl error \<Rightarrow> res_return R (F\<lparr>f_answer := None\<rparr>) (Some error) w
         | Inr A \<Rightarrow>
             (if dns_p_count A DNS_S_AN > 0
              then res_goto R (F\<lparr>f_answer := Some A\<rparr>) DNS_R_FINISH w
              else res_goto R (F\<lparr>f_answer := None\<rparr>) DNS_R_SWITCH w)) }
      else do {
        r \<leftarrow> c_while (res_file_step junk w) (NAMEBUF, R\<lparr>r_search := 0\<rparr>, F);
        Some r })"

text \<open>What the cache has given: an answer with records, without, or nothing.\<close>

definition res_cached ::
    "'w dns_resolver \<Rightarrow> dns_res_frame \<Rightarrow> res_state \<Rightarrow> dns_packet option \<times> dns_error option \<Rightarrow> 'w \<Rightarrow>
     'w res_next" where
  "res_cached R F st r w =
     (case r of
        (Some A, _) \<Rightarrow>
          (if dns_p_count A DNS_S_AN > 0 then res_goto R (F\<lparr>f_answer := Some A\<rparr>) DNS_R_FINISH w
           else res_goto R (F\<lparr>f_answer := None\<rparr>) DNS_R_SWITCH w)
      | (None, Some error) \<Rightarrow> res_return R (F\<lparr>f_answer := None\<rparr>) (Some error) w
      | (None, None) \<Rightarrow> res_goto R (F\<lparr>f_answer := None\<rparr>) st w)"

definition res_cache :: "dns_any \<Rightarrow> 'w dns_resolver \<Rightarrow> dns_res_frame \<Rightarrow> 'w \<Rightarrow> 'w res_next" where
  "res_cache junk R F w = do {
     cache \<leftarrow> r_cache R;
     q \<leftarrow> (case f_query F of
         Some Q \<Rightarrow> Some (Inr Q)
       | None \<Rightarrow> dns_res_mkquery junk R (r_qname R) (r_qtype R) (r_qclass R));
     (case q of
        Inl error \<Rightarrow> res_return R F (Some error) w
      | Inr Q \<Rightarrow>
          (let (r, w) = c_query cache Q w
           in res_cached R (F\<lparr>f_query := Some Q\<rparr>) DNS_R_SUBMIT r w)) }"

definition res_submit :: "'w dns_resolver \<Rightarrow> dns_res_frame \<Rightarrow> 'w \<Rightarrow> 'w res_next" where
  "res_submit R F w = do {
     cache \<leftarrow> r_cache R;
     Q \<leftarrow> f_query F;
     let (e, w) = c_submit cache Q w;
     (case e of
        Some error \<Rightarrow> res_return R F (Some error) w
      | None \<Rightarrow> res_goto R F DNS_R_CHECK w) }"

definition res_check :: "'w dns_resolver \<Rightarrow> dns_res_frame \<Rightarrow> 'w \<Rightarrow> 'w res_next" where
  "res_check R F w = do {
     cache \<leftarrow> r_cache R;
     let (e, w) = c_check cache w;
     (case e of
        Some error \<Rightarrow> res_return R F (Some error) w
      | None \<Rightarrow> res_goto R F DNS_R_FETCH w) }"

definition res_fetch :: "'w dns_resolver \<Rightarrow> dns_res_frame \<Rightarrow> 'w \<Rightarrow> 'w res_next" where
  "res_fetch R F w = do {
     cache \<leftarrow> r_cache R;
     let (r, w) = c_fetch cache w;
     res_cached R F DNS_R_SWITCH r w }"

subsection \<open>The states: name servers\<close>

definition res_bind :: "'w dns_resolver \<Rightarrow> dns_res_frame \<Rightarrow> 'w \<Rightarrow> 'w res_next" where
  "res_bind R F w =
     (if r_sp R > 0 then
        (if f_query F = None then res_return R F (Some DNS_ENOQUERY) w
         else res_goto R F DNS_R_HINTS w)
      else res_goto (R\<lparr>r_search := 0\<rparr>) F DNS_R_SEARCH w)"

definition res_search :: "dns_any \<Rightarrow> 'w dns_resolver \<Rightarrow> dns_res_frame \<Rightarrow> 'w \<Rightarrow> 'w res_next" where
  "res_search junk R F w = do {
     (host, len, search) \<leftarrow>
       dns_resconf_search NAMEBUF (DNS_D_MAXNAME + 1) (r_qname R) (r_qlen R) (r_resconf R) (r_search R);
     let R = R\<lparr>r_search := search\<rparr>;
     if len = 0 then res_goto R F DNS_R_SWITCH w
     else do {
       P \<leftarrow> dns_p_make DNS_P_QBUFSIZ;
       let P = hd_set_rd (\<not> rc_recurse (r_resconf R)) P;
       (P, e) \<leftarrow> dns_p_push P DNS_S_QD host len (r_qtype R) (r_qclass R) 0 junk;
       let F = F\<lparr>f_query := Some P\<rparr>;
       (case e of
          Some error \<Rightarrow> res_return R F (Some error) w
        | None \<Rightarrow> res_goto R F DNS_R_HINTS w) } }"

definition res_hints :: "dns_any \<Rightarrow> 'w os \<Rightarrow> 'w dns_resolver \<Rightarrow> dns_res_frame \<Rightarrow> 'w \<Rightarrow> 'w res_next" where
  "res_hints junk os R F w = do {
     Q \<leftarrow> f_query F;
     let (seeds, w) = os_seeds os w;
     r \<leftarrow> dns_hints_query junk seeds (r_hints R) Q;
     (case r of
        Inl error \<Rightarrow> res_return R (F\<lparr>f_hints := None\<rparr>) (Some error) w
      | Inr H \<Rightarrow> res_goto R (F\<lparr>f_hints := Some H\<rparr>) DNS_R_ITERATE w) }"

definition res_iterate :: "dns_any \<Rightarrow> 'w dns_resolver \<Rightarrow> dns_res_frame \<Rightarrow> 'w \<Rightarrow> 'w res_next" where
  "res_iterate junk R F w = do {
     H \<leftarrow> f_hints F;
     let i = (dns_rr_i_init (f_hints_i F))\<lparr>i_section := DNS_S_NS, i_type := DNS_T_NS,
       i_sort := Some (Sort_fn (dns_res_nameserv_cmp junk (p_end H)))\<rparr>;
     res_goto R (F\<lparr>f_hints_i := i\<rparr>) DNS_R_FOREACH_NS w }"

definition res_foreach_ns ::
    "dns_any \<Rightarrow> 'w os \<Rightarrow> 'w dns_resolver \<Rightarrow> dns_res_frame \<Rightarrow> 'w \<Rightarrow> 'w res_next" where
  "res_foreach_ns junk os R F w = do {
     H \<leftarrow> f_hints F;
     let (seeds, w) = os_seeds os w;
     (rrs, i, e) \<leftarrow> dns_rr_grep junk (seeds 0) 1 (dns_rr_i_save (f_hints_i F)) H;
     let F = F\<lparr>f_hints_i := i\<rparr>;
     (case rrs of
        [] \<Rightarrow>
          (let F = F\<lparr>f_attempts := uint32 (f_attempts F + 1)\<rparr> in
           res_goto R F (if f_attempts F < rc_attempts (r_resconf R) then DNS_R_ITERATE
                         else DNS_R_SWITCH) w)
      | ns # _ \<Rightarrow>
          res_goto R (F\<lparr>f_hints_ns := ns, f_hints_j := dns_rr_i_init (f_hints_j F)\<rparr>)
            DNS_R_FOREACH_A w) }"

definition res_resolv0_ns :: "dns_any \<Rightarrow> 'w dns_resolver \<Rightarrow> dns_res_frame \<Rightarrow> 'w \<Rightarrow> 'w res_next" where
  "res_resolv0_ns junk R F w =
     (if res_full R then res_goto R F DNS_R_FOREACH_NS w
      else do {
        H \<leftarrow> f_hints F;
        h \<leftarrow> dns_ns_parse (f_hints_ns F) H;
        (case h of
           Inl error \<Rightarrow> do {
             Q \<leftarrow> dns_p_make DNS_P_QBUFSIZ;
             res_call_fail R F (Some Q) error w }
         | Inr host \<Rightarrow> res_push_call junk R F DNS_R_RESOLV1_NS host DNS_T_A w) })"

text \<open>The addresses found above become glue; every one of them rewinds the iterator.\<close>

definition res_resolv1_body ::
    "dns_packet \<Rightarrow> dns_rr \<Rightarrow> dns_res_frame \<Rightarrow> (dns_res_frame + dns_res_frame \<times> dns_error) option" where
  "res_resolv1_body A rr F = do {
     H \<leftarrow> f_hints F;
     (H, e) \<leftarrow> dns_rr_copy H (rr\<lparr>rr_section := DNS_S_AR\<rparr>) A;
     let F = F\<lparr>f_hints := Some H\<rparr>;
     Some (case e of
        Some error \<Rightarrow> Inr (F, error)
      | None \<Rightarrow> Inl (F\<lparr>f_hints_i := dns_rr_i_rewind (f_hints_i F)\<rparr>)) }"

definition res_resolv1_ns :: "dns_any \<Rightarrow> 'w dns_resolver \<Rightarrow> dns_res_frame \<Rightarrow> 'w \<Rightarrow> 'w res_next" where
  "res_resolv1_ns junk R F w = do {
     G \<leftarrow> res_above R;
     Q \<leftarrow> f_query G;
     h \<leftarrow> expand_host 12 Q;
     (case h of
        Inl error \<Rightarrow> res_return R F (Some error) w
      | Inr host \<Rightarrow> do {
          A \<leftarrow> f_answer G;
          r \<leftarrow> dns_rr_foreach junk 1
            (rr_i0\<lparr>i_name := Some host, i_type := DNS_T_A, i_section := DNS_S_ALL - DNS_S_QD\<rparr>) A
            (res_resolv1_body A) F;
          (case r of
             Inr (F, error) \<Rightarrow> res_return R F (Some error) w
           | Inl F \<Rightarrow> res_goto R F DNS_R_FOREACH_NS w) }) }"

text \<open>The next address of the name server, if it has any left, is asked.\<close>

definition res_ask ::
    "'w os \<Rightarrow> 'w dns_resolver \<Rightarrow> dns_res_frame \<Rightarrow> dns_a \<Rightarrow> 'w \<Rightarrow> 'w res_next" where
  "res_ask os R F a w = do {
     port \<leftarrow> (if r_sp R = 0 then dns_hints_port (r_hints R) (Inl a) else Some 53);
     Q \<leftarrow> f_query F;
     ((so, e), w) \<leftarrow> dns_so_submit os (r_so R) Q (Sin port a) w;
     let R = R\<lparr>r_so := so\<rparr>;
     (case e of
        Some error \<Rightarrow> res_return R F (Some error) w
      | None \<Rightarrow>
          res_goto R (F\<lparr>f_query := (if so_query so = None then Some Q else so_query so)\<rparr>)
            DNS_R_QUERY_A w) }"

definition res_foreach_a ::
    "dns_any \<Rightarrow> 'w os \<Rightarrow> 'w dns_resolver \<Rightarrow> dns_res_frame \<Rightarrow> 'w \<Rightarrow> 'w res_next" where
  "res_foreach_a junk os R F w = do {
     H \<leftarrow> f_hints F;
     h \<leftarrow> dns_ns_parse (f_hints_ns F) H;
     (case h of
        Inl error \<Rightarrow> res_return R F (Some error) w
      | Inr host \<Rightarrow> do {
     (rrs, j, e) \<leftarrow> dns_rr_grep junk 1 1 ((f_hints_j F)\<lparr>i_name := Some host, i_type := DNS_T_A,
       i_section := DNS_S_ALL - DNS_S_QD\<rparr>) H;
     let F = F\<lparr>f_hints_j := j\<rparr>;
     (case rrs of
        [] \<Rightarrow> res_goto R F (if s_count (i_state j) = 0 then DNS_R_RESOLV0_NS else DNS_R_FOREACH_NS) w
      | rr # _ \<Rightarrow> do {
          a \<leftarrow> dns_a_parse rr H;
          (case a of
             Inl error \<Rightarrow> res_return R F (Some error) w
           | Inr a \<Rightarrow> res_ask os R F a w) }) }) }"

text \<open>An answer from the network that has neither the record nor a CNAME for it.\<close>

definition res_referral ::
    "dns_any \<Rightarrow> 'w dns_resolver \<Rightarrow> dns_res_frame \<Rightarrow> dns_packet \<Rightarrow> 'w \<Rightarrow> 'w res_next" where
  "res_referral junk R F A w =
     (if \<not> rc_recurse (r_resconf R) then
        (if r_nodata R = None
         then res_goto (R\<lparr>r_nodata := Some A\<rparr>) (F\<lparr>f_answer := None\<rparr>) DNS_R_SEARCH w
         else res_goto R F DNS_R_SEARCH w)
      else do {
        ns \<leftarrow> res_first junk (rr_i0\<lparr>i_section := DNS_S_NS, i_type := DNS_T_NS\<rparr>) A;
        if ns \<noteq> None
        then res_goto R (F\<lparr>f_hints := Some A, f_answer := None\<rparr>) DNS_R_ITERATE w
        else res_goto R F (if hd_aa A then DNS_R_FINISH else DNS_R_FOREACH_A) w })"

definition res_query_a ::
    "dns_any \<Rightarrow> 'w os \<Rightarrow> 'w dns_resolver \<Rightarrow> dns_res_frame \<Rightarrow> 'w \<Rightarrow> 'w res_next" where
  "res_query_a junk os R F w = do {
     let ((n, so), w) = dns_so_elapsed os (r_so R) w;
     let R = R\<lparr>r_so := so\<rparr>;
     if n \<ge> int (dns_resconf_timeout (r_resconf R)) then res_goto R F DNS_R_FOREACH_A w
     else do {
     ((so, e), w) \<leftarrow> dns_so_check os (r_so R) w;
     let R = R\<lparr>r_so := so\<rparr>;
     (case e of
        Some error \<Rightarrow> res_return R F (Some error) w
      | None \<Rightarrow>
     (case dns_so_fetch so of
        (Inl error, so) \<Rightarrow> res_return (R\<lparr>r_so := so\<rparr>) (F\<lparr>f_answer := None\<rparr>) (Some error) w
      | (Inr None, so) \<Rightarrow> res_return (R\<lparr>r_so := so\<rparr>) (F\<lparr>f_answer := None\<rparr>) None w
      | (Inr (Some A), so) \<Rightarrow> do {
     let R = R\<lparr>r_so := so\<rparr>;
     let F = F\<lparr>f_answer := Some A\<rparr>;
     Q \<leftarrow> f_query F;
     (rr, e) \<leftarrow> dns_rr_parse rr0 12 Q;
     (case e of
        Some error \<Rightarrow> res_return R F (Some error) w
      | None \<Rightarrow> do {
     h \<leftarrow> expand_host (rr_dn_p rr) Q;
     (case h of
        Inl error \<Rightarrow> res_return R F (Some error) w
      | Inr host \<Rightarrow>
          res_inspect junk host (rr_type rr) R F A w (res_referral junk R F A w)) }) })) } }"

definition res_cname0_a :: "dns_any \<Rightarrow> 'w dns_resolver \<Rightarrow> dns_res_frame \<Rightarrow> 'w \<Rightarrow> 'w res_next" where
  "res_cname0_a junk R F w =
     (if res_full R then res_goto R F DNS_R_FINISH w
      else do {
        A \<leftarrow> f_answer F;
        h \<leftarrow> dns_ns_parse (f_ans_cname F) A;
        (case h of
           Inl error \<Rightarrow> res_return R F (Some error) w
         | Inr host \<Rightarrow> do {
             Q \<leftarrow> f_query F;
             type \<leftarrow> dns_rr_type 12 Q;
             res_push_call junk R F DNS_R_CNAME1_A host type w }) })"

definition res_cname1_a :: "dns_any \<Rightarrow> 'w dns_resolver \<Rightarrow> dns_res_frame \<Rightarrow> 'w \<Rightarrow> 'w res_next" where
  "res_cname1_a junk R F w = do {
     G \<leftarrow> res_above R;
     A \<leftarrow> f_answer F;
     B \<leftarrow> f_answer G;
     r \<leftarrow> dns_res_merge junk A B;
     (case r of
        Inl error \<Rightarrow> res_return R F (Some error) w
      | Inr P \<Rightarrow> res_goto R (F\<lparr>f_answer := Some P\<rparr>) DNS_R_FINISH w) }"

subsection \<open>The states: the end of a frame\<close>

definition res_finish :: "'w dns_resolver \<Rightarrow> dns_res_frame \<Rightarrow> 'w \<Rightarrow> 'w res_next" where
  "res_finish R F w =
     (if f_answer F = None then res_return R F (Some DNS_ENOANSWER) w
      else if \<not> rc_smart (r_resconf R) \<or> r_sp R > 0 then res_goto R F DNS_R_DONE w
      else res_goto (R\<lparr>r_smart := dns_rr_i_init
             ((r_smart R)\<lparr>i_section := DNS_S_AN, i_type := r_qtype R\<rparr>)\<rparr>) F DNS_R_SMART0_A w)"

text \<open>The host a record refers to, for the types that have one.\<close>

definition smart_host :: "dns_rr \<Rightarrow> dns_packet \<Rightarrow> ((dns_error + bytes) option) option" where
  "smart_host rr A =
     (if rr_type rr = DNS_T_NS then do { r \<leftarrow> dns_ns_parse rr A; Some (Some r) }
      else if rr_type rr = DNS_T_MX then do {
        r \<leftarrow> dns_mx_parse rr A; Some (Some (map_sum id mx_host r)) }
      else if rr_type rr = DNS_T_SRV then do {
        r \<leftarrow> dns_srv_parse rr A; Some (Some (map_sum id srv_target r)) }
      else Some None)"

text \<open>The \<open>while\<close> loop over the records of the answer.\<close>

definition res_smart0_step ::
    "dns_any \<Rightarrow> dns_res_frame \<Rightarrow> dns_packet \<Rightarrow> 'w \<Rightarrow> 'w dns_resolver \<Rightarrow>
     ('w dns_resolver + 'w dns_resolver + 'w dns_resolver \<times> 'w + 'w res_result) option" where
  "res_smart0_step junk F A w R = do {
     (rrs, i, e) \<leftarrow> dns_rr_grep junk 1 1 (r_smart R) A;
     let R = R\<lparr>r_smart := i\<rparr>;
     (case rrs of
        [] \<Rightarrow> Some (Inr (Inl R))
      | rr # _ \<Rightarrow> do {
          h \<leftarrow> smart_host rr A;
          (case h of
             None \<Rightarrow> Some (Inl R)
           | Some (Inl error) \<Rightarrow> do { r \<leftarrow> res_return R F (Some error) w; Some (Inr (Inr r)) }
           | Some (Inr host) \<Rightarrow> do {
               r \<leftarrow> res_mkquery_call junk R F DNS_R_SMART1_A host DNS_T_A w;
               Some (Inr (Inr r)) }) }) }"

definition res_smart0_a :: "dns_any \<Rightarrow> 'w dns_resolver \<Rightarrow> dns_res_frame \<Rightarrow> 'w \<Rightarrow> 'w res_next" where
  "res_smart0_a junk R F w =
     (if res_full R then res_goto R F DNS_R_DONE w
      else do {
        A \<leftarrow> f_answer F;
        r \<leftarrow> c_while (res_smart0_step junk F A w) R;
        (case r of
           Inr next \<Rightarrow> Some next
         | Inl R \<Rightarrow>
             (if r_qtype R = DNS_T_MX \<and> s_count (i_state (r_smart R)) = 0 then do {
                q \<leftarrow> dns_res_mkquery junk R (r_qname R) DNS_T_A DNS_C_IN;
                (case q of
                   Inl error \<Rightarrow> res_call_fail R F None error w
                 | Inr Q \<Rightarrow>
                     res_call (R\<lparr>r_smart := (r_smart R)\<lparr>i_state := (i_state (r_smart R))\<lparr>s_count := 1\<rparr>\<rparr>\<rparr>)
                       F DNS_R_SMART1_A Q w) }
              else res_goto R F DNS_R_DONE w)) })"

text \<open>\<open>while ((error = dns_rr_copy (...)))\<close>: the packet is grown until the record fits.\<close>

definition smart_copy_step ::
    "dns_rr \<Rightarrow> dns_packet \<Rightarrow> dns_packet \<Rightarrow> (dns_packet + dns_packet \<times> dns_error option) option" where
  "smart_copy_step rr B A = do {
     (A, e) \<leftarrow> dns_rr_copy A rr B;
     (case e of
        None \<Rightarrow> Some (Inr (A, None))
      | Some error \<Rightarrow>
          (if error \<noteq> DNS_ENOBUFS then Some (Inr (A, Some error))
           else do {
             g \<leftarrow> dns_p_grow (Some A);
             Some (case g of Inl error \<Rightarrow> Inr (A, Some error) | Inr A \<Rightarrow> Inl A) })) }"

definition smart_copy_body ::
    "dns_any \<Rightarrow> dns_packet \<Rightarrow> dns_rr \<Rightarrow> dns_packet \<Rightarrow> (dns_packet + dns_packet \<times> dns_error) option" where
  "smart_copy_body junk B rr A = do {
     let rr = rr\<lparr>rr_section := DNS_S_AR\<rparr>;
     known \<leftarrow> dns_rr_exists junk 1 rr B A;
     if known then Some (Inl A)
     else do {
       (A, e) \<leftarrow> c_while (smart_copy_step rr B) A;
       Some (case e of None \<Rightarrow> Inl A | Some error \<Rightarrow> Inr (A, error)) } }"

definition res_smart1_a :: "dns_any \<Rightarrow> 'w dns_resolver \<Rightarrow> dns_res_frame \<Rightarrow> 'w \<Rightarrow> 'w res_next" where
  "res_smart1_a junk R F w = do {
     G \<leftarrow> res_above R;
     (case f_answer G of
        None \<Rightarrow> res_return R F (Some DNS_ENOANSWER) w
      | Some B \<Rightarrow> do {
          A \<leftarrow> f_answer F;
          r \<leftarrow> dns_rr_foreach junk 1 (rr_i0\<lparr>i_section := DNS_S_AN, i_type := DNS_T_A\<rparr>) B
            (smart_copy_body junk B) A;
          (case r of
             Inr (A, error) \<Rightarrow> res_return R (F\<lparr>f_answer := Some A\<rparr>) (Some error) w
           | Inl A \<Rightarrow> res_goto R (F\<lparr>f_answer := Some A\<rparr>) DNS_R_SMART0_A w) }) }"

text \<open>Back to the frame below, in the state it was left in, or out.\<close>

definition res_done :: "'w dns_resolver \<Rightarrow> dns_res_frame \<Rightarrow> 'w \<Rightarrow> 'w res_next" where
  "res_done R F w =
     (if f_answer F = None then res_return R F (Some DNS_ENOANSWER) w
      else if r_sp R > 0 then Some (Inl ((res_put R F)\<lparr>r_sp := r_sp R - 1\<rparr>, w))
      else res_return R F None w)"

text \<open>\<open>qr = 1\<close> and \<open>rcode = DNS_RC_SERVFAIL\<close>.\<close>

definition hd_set_servfail :: "dns_packet \<Rightarrow> dns_packet" where
  "hd_set_servfail P =
     (let P = hd_set_qr P in P\<lparr>p_data := (p_data P)[3 := (p_data P ! 3 AND 240) OR 2]\<rparr>)"

definition res_servfail :: "dns_any \<Rightarrow> 'w dns_resolver \<Rightarrow> dns_res_frame \<Rightarrow> 'w \<Rightarrow> 'w res_next" where
  "res_servfail junk R F w = do {
     A \<leftarrow> dns_p_make DNS_P_QBUFSIZ;
     n \<leftarrow> c_strlen (r_qname R);
     (A, e) \<leftarrow> dns_p_push (hd_set_servfail A) DNS_S_QD (r_qname R) n (r_qtype R) (r_qclass R) 0 junk;
     let F = F\<lparr>f_answer := Some A\<rparr>;
     (case e of
        Some error \<Rightarrow> res_return R F (Some error) w
      | None \<Rightarrow> res_goto R F DNS_R_DONE w) }"

subsection \<open>The machine\<close>

definition dns_res_exec_step ::
    "dns_any \<Rightarrow> 'w os \<Rightarrow> 'w dns_resolver \<times> 'w \<Rightarrow> 'w res_next" where
  "dns_res_exec_step junk os = (\<lambda>(R, w). do {
     F \<leftarrow> rd (r_stack R) (r_sp R);
     (case f_state F of
        DNS_R_INIT \<Rightarrow> res_goto R F DNS_R_GLUE w
      | DNS_R_GLUE \<Rightarrow> res_glue junk R F w
      | DNS_R_SWITCH \<Rightarrow> res_switch R F w
      | DNS_R_FILE \<Rightarrow> res_file junk R F w
      | DNS_R_CACHE \<Rightarrow> res_cache junk R F w
      | DNS_R_SUBMIT \<Rightarrow> res_submit R F w
      | DNS_R_CHECK \<Rightarrow> res_check R F w
      | DNS_R_FETCH \<Rightarrow> res_fetch R F w
      | DNS_R_BIND \<Rightarrow> res_bind R F w
      | DNS_R_SEARCH \<Rightarrow> res_search junk R F w
      | DNS_R_HINTS \<Rightarrow> res_hints junk os R F w
      | DNS_R_ITERATE \<Rightarrow> res_iterate junk R F w
      | DNS_R_FOREACH_NS \<Rightarrow> res_foreach_ns junk os R F w
      | DNS_R_RESOLV0_NS \<Rightarrow> res_resolv0_ns junk R F w
      | DNS_R_RESOLV1_NS \<Rightarrow> res_resolv1_ns junk R F w
      | DNS_R_FOREACH_A \<Rightarrow> res_foreach_a junk os R F w
      | DNS_R_QUERY_A \<Rightarrow> res_query_a junk os R F w
      | DNS_R_CNAME0_A \<Rightarrow> res_cname0_a junk R F w
      | DNS_R_CNAME1_A \<Rightarrow> res_cname1_a junk R F w
      | DNS_R_FINISH \<Rightarrow> res_finish R F w
      | DNS_R_SMART0_A \<Rightarrow> res_smart0_a junk R F w
      | DNS_R_SMART1_A \<Rightarrow> res_smart1_a junk R F w
      | DNS_R_DONE \<Rightarrow> res_done R F w
      | DNS_R_SERVFAIL \<Rightarrow> res_servfail junk R F w) })"

definition dns_res_exec :: "dns_any \<Rightarrow> 'w os \<Rightarrow> 'w dns_resolver \<Rightarrow> 'w \<Rightarrow> 'w res_result option" where
  "dns_res_exec junk os R w = c_while (dns_res_exec_step junk os) (R, w)"

subsection \<open>Waiting\<close>

definition res_in :: "'w dns_resolver \<Rightarrow> res_state \<Rightarrow> bool option" where
  "res_in R st = do { F \<leftarrow> rd (r_stack R) (r_sp R); Some (f_state F = st) }"

definition dns_res_clear :: "'w os \<Rightarrow> 'w dns_resolver \<Rightarrow> 'w \<Rightarrow> ('w dns_resolver \<times> 'w) option" where
  "dns_res_clear os R w = do {
     b \<leftarrow> res_in R DNS_R_CHECK;
     if b then do { cache \<leftarrow> r_cache R; Some (R, c_clear cache w) }
     else (let (so, w) = dns_so_clear os (r_so R) w in Some (R\<lparr>r_so := so\<rparr>, w)) }"

definition dns_res_events2 :: "'w dns_resolver \<Rightarrow> dns_events \<Rightarrow> 'w \<Rightarrow> nat option" where
  "dns_res_events2 R type w = do {
     b \<leftarrow> res_in R DNS_R_CHECK;
     if b then do {
       cache \<leftarrow> r_cache R;
       Some (if type = DNS_LIBEVENT then DNS_POLL2EV (c_events cache w) else c_events cache w) }
     else Some (dns_so_events2 (r_so R) type) }"

definition dns_res_events :: "'w dns_resolver \<Rightarrow> 'w \<Rightarrow> nat option" where
  "dns_res_events R w = dns_res_events2 R (o_events (so_opts (r_so R))) w"

definition dns_res_pollfd :: "'w dns_resolver \<Rightarrow> 'w \<Rightarrow> int option" where
  "dns_res_pollfd R w = do {
     b \<leftarrow> res_in R DNS_R_CHECK;
     if b then do { cache \<leftarrow> r_cache R; Some (c_pollfd cache w) }
     else Some (dns_so_pollfd (r_so R)) }"

definition dns_res_timeout :: "'w os \<Rightarrow> 'w dns_resolver \<Rightarrow> 'w \<Rightarrow> ((int \<times> 'w dns_resolver) \<times> 'w) option" where
  "dns_res_timeout os R w = do {
     b \<leftarrow> res_in R DNS_R_QUERY_A;
     if b then
       (let ((elapsed, so), w) = dns_so_elapsed os (r_so R) w;
            R = R\<lparr>r_so := so\<rparr>
        in Some ((if elapsed \<le> int (dns_resconf_timeout (r_resconf R))
                  then int (rc_timeout (r_resconf R)) - elapsed else 1, R), w))
     else Some ((1, R), w) }"

definition dns_res_elapsed :: "'w os \<Rightarrow> 'w dns_resolver \<Rightarrow> 'w \<Rightarrow> (int \<times> 'w dns_resolver) \<times> 'w" where
  "dns_res_elapsed os R w =
     (let ((n, clk), w) = dns_elapsed os (r_elapsed R) w in ((n, R\<lparr>r_elapsed := clk\<rparr>), w))"

definition dns_res_poll :: "'w os \<Rightarrow> 'w dns_resolver \<Rightarrow> int \<Rightarrow> 'w \<Rightarrow> 'w option" where
  "dns_res_poll os R timeout w = do {
     fd \<leftarrow> dns_res_pollfd R w;
     events \<leftarrow> dns_res_events2 R DNS_SYSPOLL w;
     dns_poll os fd events timeout w }"

subsection \<open>Queries of the caller\<close>

definition dns_res_submit2 ::
    "'w os \<Rightarrow> 'w dns_resolver \<Rightarrow> bytes \<Rightarrow> nat \<Rightarrow> nat \<Rightarrow> nat \<Rightarrow> 'w \<Rightarrow> ('w dns_resolver \<times> 'w) option" where
  "dns_res_submit2 os R qname qlen qtype qclass w = do {
     let R = dns_res_reset R;
     name \<leftarrow> dns_d_init (r_qname R) (DNS_D_MAXNAME + 1) qname qlen 0;
     let (clk, w) = dns_begin os w;
     Some (R\<lparr>r_qname := name, r_qlen := qlen, r_qtype := qtype, r_qclass := qclass,
             r_elapsed := clk\<rparr>, w) }"

definition dns_res_submit ::
    "'w os \<Rightarrow> 'w dns_resolver \<Rightarrow> bytes \<Rightarrow> nat \<Rightarrow> nat \<Rightarrow> 'w \<Rightarrow> ('w dns_resolver \<times> 'w) option" where
  "dns_res_submit os R qname qtype qclass w = do {
     n \<leftarrow> c_strlen qname;
     dns_res_submit2 os R qname n qtype qclass w }"

definition dns_res_check :: "dns_any \<Rightarrow> 'w os \<Rightarrow> 'w dns_resolver \<Rightarrow> 'w \<Rightarrow> 'w res_result option" where
  "dns_res_check junk os R w = do {
     F \<leftarrow> rd (r_stack R) 0;
     if f_state F \<noteq> DNS_R_DONE then dns_res_exec junk os R w
     else Some ((R, None), w) }"

definition dns_res_fetch ::
    "'w dns_resolver \<Rightarrow> ('w dns_resolver \<times> (dns_error + dns_packet)) option" where
  "dns_res_fetch R = do {
     F \<leftarrow> rd (r_stack R) 0;
     if f_state F \<noteq> DNS_R_DONE then Some (R, Inl DNS_EUNKNOWN)
     else (case f_answer F of
        None \<Rightarrow> Some (R, Inl DNS_EFETCHED)
      | Some A \<Rightarrow> Some (R\<lparr>r_stack := (r_stack R)[0 := F\<lparr>f_answer := None\<rparr>]\<rparr>, Inr A)) }"

definition dns_res_query_step ::
    "dns_any \<Rightarrow> 'w os \<Rightarrow> int \<Rightarrow> 'w dns_resolver \<times> 'w \<Rightarrow>
     ('w dns_resolver \<times> 'w + ('w dns_resolver \<times> (dns_error + dns_packet)) \<times> 'w) option" where
  "dns_res_query_step junk os timeout = (\<lambda>(R, w). do {
     ((R, e), w) \<leftarrow> dns_res_check junk os R w;
     (case e of
        None \<Rightarrow> do { r \<leftarrow> dns_res_fetch R; Some (Inr (r, w)) }
      | Some error \<Rightarrow>
          (let ((n, R), w) = dns_res_elapsed os R w;
               error = (if n > timeout then DNS_ETIMEDOUT else error)
           in if error \<noteq> DNS_EAGAIN then Some (Inr ((R, Inl error), w))
              else do { w \<leftarrow> dns_res_poll os R 1 w; Some (Inl (R, w)) })) })"

definition dns_res_query ::
    "dns_any \<Rightarrow> 'w os \<Rightarrow> 'w dns_resolver \<Rightarrow> bytes \<Rightarrow> nat \<Rightarrow> nat \<Rightarrow> int \<Rightarrow> 'w \<Rightarrow>
     (('w dns_resolver \<times> (dns_error + dns_packet)) \<times> 'w) option" where
  "dns_res_query junk os R qname qtype qclass timeout w = do {
     (R, w) \<leftarrow> dns_res_submit os R qname qtype qclass w;
     c_while (dns_res_query_step junk os timeout) (R, w) }"

definition dns_res_sethints :: "'w dns_resolver \<Rightarrow> dns_hints \<Rightarrow> 'w dns_resolver" where
  "dns_res_sethints R hints = R\<lparr>r_hints := hints\<rparr>"

end
