(* ===== verification/Addrinfo.thy ===== *)
theory Addrinfo
  imports Resolver Misc
begin

unbundle bit_operations_syntax

section \<open>Address lookups\<close>

text \<open>
  ADDRINFO ROUTINES of \<open>dns.c\<close>: \<open>getaddrinfo\<close> on top of the resolver, one entry for each call.
  \<open>inet_pton\<close> and \<open>inet_ntop\<close> are the arguments \<open>pton\<close> and \<open>ntop4\<close>, \<open>ntop6\<close>; the numbers of the
  flags are those of Linux.
\<close>

record addrinfo_hints =
  ah_flags :: nat
  ah_family :: nat
  ah_socktype :: nat
  ah_protocol :: nat

text \<open>An entry of the result; \<open>ai_addrlen\<close> is \<open>dns_sa_len\<close> of the address.\<close>

record addrinfo =
  ent_family :: nat
  ent_socktype :: nat
  ent_protocol :: nat
  ent_addr :: dns_sockaddr
  ent_canonname :: "bytes option"

definition AI_CANONNAME :: nat where [c_defs]: "AI_CANONNAME = 2"
definition AI_NUMERICHOST :: nat where [c_defs]: "AI_NUMERICHOST = 4"
definition AI_NUMERICSERV :: nat where [c_defs]: "AI_NUMERICSERV = 1024"
definition ENOENT :: dns_error where "ENOENT = OS_ERROR 2"

datatype ai_state =
    DNS_AI_S_INIT | DNS_AI_S_NUMERIC | DNS_AI_S_SUBMIT | DNS_AI_S_CHECK | DNS_AI_S_FETCH
  | DNS_AI_S_FOREACH_I | DNS_AI_S_FOREACH_G | DNS_AI_S_SUBMIT_G | DNS_AI_S_CHECK_G
  | DNS_AI_S_FETCH_G | DNS_AI_S_DONE

text \<open>The iterators \<open>i\<close> and \<open>g\<close> point to \<open>cname\<close> for their name: it is filled in where they are
  used.\<close>

record 'w dns_addrinfo =
  ai_hints :: addrinfo_hints
  ai_res :: "'w dns_resolver option"
  ai_qname :: bytes
  ai_qtype :: nat
  ai_qport :: nat
  ai_port :: nat
  ai_answer :: "dns_packet option"
  ai_glue :: "dns_packet option"
  ai_i :: dns_rr_i
  ai_g :: dns_rr_i
  ai_cname :: bytes
  ai_state :: ai_state
  ai_found :: nat

subsection \<open>Opening\<close>

text \<open>The \<open>while\<close> loop over the digits: the number, how many were read, and the byte behind them.\<close>

fun parseport_digits :: "bytes \<Rightarrow> nat \<Rightarrow> nat \<Rightarrow> (nat \<times> nat \<times> byte) option" where
  "parseport_digits [] n k = None"
| "parseport_digits (c # cp) n k =
     (if 48 \<le> c \<and> c \<le> 57 \<and> n < 65536
      then parseport_digits cp (n * 10 + (unat c - 48)) (k + 1)
      else Some (n, k, c))"

definition dns_ai_parseport :: "bytes \<Rightarrow> addrinfo_hints \<Rightarrow> (dns_error + nat) option" where
  "dns_ai_parseport serv hints = do {
     (n, k, c) \<leftarrow> parseport_digits serv 0 0;
     Some (if c = 0 then (if k = 0 \<or> n \<ge> 65536 then Inl DNS_ESERVICE else Inr (u16 n))
           else if ah_flags hints AND AI_NUMERICSERV \<noteq> 0 then Inl DNS_ESERVICE
           else Inl DNS_ESERVICE) }"

text \<open>The \<open>None\<close> inside the error leaves \<open>*error_\<close> alone.\<close>

definition dns_ai_open ::
    "bytes \<Rightarrow> bytes option \<Rightarrow> nat \<Rightarrow> addrinfo_hints \<Rightarrow> 'w dns_resolver option \<Rightarrow>
     (dns_error option + 'w dns_addrinfo) option" where
  "dns_ai_open host serv qtype hints res =
     (if res = None \<and> ah_flags hints AND AI_NUMERICHOST = 0 then Some (Inl None)
      else do {
        (qname, n) \<leftarrow> dns_strlcpy NAMEBUF host (DNS_D_MAXNAME + 1);
        if DNS_D_MAXNAME + 1 \<le> n then Some (Inl (Some ENAMETOOLONG))
        else do {
          p \<leftarrow> (case serv of
              None \<Rightarrow> Some (Inr 0)
            | Some serv \<Rightarrow> dns_ai_parseport serv hints);
          Some (case p of
             Inl error \<Rightarrow> Inl (Some error)
           | Inr port \<Rightarrow>
               Inr \<lparr>ai_hints = hints, ai_res = res, ai_qname = qname, ai_qtype = qtype,
                    ai_qport = port, ai_port = port, ai_answer = None, ai_glue = None,
                    ai_i = rr_i0, ai_g = rr_i0, ai_cname = NAMEBUF, ai_state = DNS_AI_S_INIT,
                    ai_found = 0\<rparr>) } })"

definition dns_ai_close :: "'w os \<Rightarrow> 'w dns_addrinfo option \<Rightarrow> 'w \<Rightarrow> 'w" where
  "dns_ai_close os ai w =
     (case Option.bind ai ai_res of None \<Rightarrow> w | Some R \<Rightarrow> dns_res_close os R w)"

subsection \<open>An entry\<close>

text \<open>The part of \<open>union dns_any\<close> that \<open>memcpy\<close> reads for the type.\<close>

definition ai_sockaddr :: "nat \<Rightarrow> dns_any \<Rightarrow> nat \<Rightarrow> (dns_sockaddr option) option" where
  "ai_sockaddr port any type =
     (if type = DNS_T_A then (case any of Any_a a \<Rightarrow> Some (Some (Sin port a)) | _ \<Rightarrow> None)
      else if type = DNS_T_AAAA
      then (case any of Any_aaaa a \<Rightarrow> Some (Some (Sin6 port a)) | _ \<Rightarrow> None)
      else Some None)"

type_synonym 'w ai_result = "('w dns_addrinfo \<times> addrinfo option \<times> dns_error option) \<times> 'w"

definition dns_ai_setent ::
    "dns_any \<Rightarrow> nat \<Rightarrow> 'w dns_addrinfo \<Rightarrow> ('w dns_addrinfo \<times> addrinfo option \<times> dns_error option) option" where
  "dns_ai_setent any type ai = do {
     sa \<leftarrow> ai_sockaddr (ai_port ai) any type;
     (case sa of
        None \<Rightarrow> Some (ai, None, Some EINVAL)
      | Some saddr \<Rightarrow> do {
          cname \<leftarrow> (if ah_flags (ai_hints ai) AND AI_CANONNAME \<noteq> 0 then do {
              c \<leftarrow> rd (ai_cname ai) 0;
              let cname = (if c \<noteq> 0 then ai_cname ai else ai_qname ai);
              clen \<leftarrow> c_strlen cname;
              xs \<leftarrow> rd_mem cname 0 (clen + 1);
              Some (Some xs) }
            else Some None);
          len \<leftarrow> dns_sa_len saddr;
          Some (ai\<lparr>ai_found := ai_found ai + 1\<rparr>,
            Some \<lparr>ent_family = dns_sa_family saddr, ent_socktype = ah_socktype (ai_hints ai),
                  ent_protocol = ah_protocol (ai_hints ai), ent_addr = saddr,
                  ent_canonname = cname\<rparr>, None) }) }"

subsection \<open>The states\<close>

text \<open>A state goes on with \<open>Inl\<close>, or the function returns: an entry, an error, or both null.\<close>

type_synonym 'w ai_next = "('w dns_addrinfo \<times> 'w + 'w ai_result) option"

definition ai_goto :: "'w dns_addrinfo \<Rightarrow> ai_state \<Rightarrow> 'w \<Rightarrow> 'w ai_next" where
  "ai_goto ai st w = Some (Inl (ai\<lparr>ai_state := st\<rparr>, w))"

definition ai_fail :: "'w dns_addrinfo \<Rightarrow> dns_error \<Rightarrow> 'w \<Rightarrow> 'w ai_next" where
  "ai_fail ai error w = Some (Inr ((ai, None, Some error), w))"

definition ai_entry :: "dns_any \<Rightarrow> nat \<Rightarrow> 'w dns_addrinfo \<Rightarrow> 'w \<Rightarrow> 'w ai_next" where
  "ai_entry any type ai w = do { r \<leftarrow> dns_ai_setent any type ai; Some (Inr (r, w)) }"

definition ai_numeric :: "inet_pton \<Rightarrow> 'w dns_addrinfo \<Rightarrow> 'w \<Rightarrow> 'w ai_next" where
  "ai_numeric pton ai w =
     (case fst pton (ai_qname ai) of
        Some a \<Rightarrow> ai_entry (Any_a a) DNS_T_A (ai\<lparr>ai_state := DNS_AI_S_DONE\<rparr>) w
      | None \<Rightarrow>
     (case snd pton (ai_qname ai) of
        Some a \<Rightarrow> ai_entry (Any_aaaa a) DNS_T_AAAA (ai\<lparr>ai_state := DNS_AI_S_DONE\<rparr>) w
      | None \<Rightarrow>
          ai_goto ai (if ah_flags (ai_hints ai) AND AI_NUMERICHOST \<noteq> 0 then DNS_AI_S_DONE
                      else DNS_AI_S_SUBMIT) w))"

text \<open>\<open>DNS_AI_S_SUBMIT\<close> and the end of \<open>DNS_AI_S_SUBMIT_G\<close>.\<close>

definition ai_submit ::
    "'w os \<Rightarrow> 'w dns_addrinfo \<Rightarrow> bytes \<Rightarrow> nat \<Rightarrow> ai_state \<Rightarrow> 'w \<Rightarrow> 'w ai_next" where
  "ai_submit os ai name type next w = do {
     R \<leftarrow> ai_res ai;
     (R, w) \<leftarrow> dns_res_submit os R name type DNS_C_IN w;
     ai_goto (ai\<lparr>ai_res := Some R\<rparr>) next w }"

text \<open>\<open>DNS_AI_S_CHECK\<close> and \<open>DNS_AI_S_CHECK_G\<close>.\<close>

definition ai_check :: "dns_any \<Rightarrow> 'w os \<Rightarrow> 'w dns_addrinfo \<Rightarrow> ai_state \<Rightarrow> 'w \<Rightarrow> 'w ai_next" where
  "ai_check junk os ai next w = do {
     R \<leftarrow> ai_res ai;
     ((R, e), w) \<leftarrow> dns_res_check junk os R w;
     let ai = ai\<lparr>ai_res := Some R\<rparr>;
     (case e of
        Some error \<Rightarrow> ai_fail ai error w
      | None \<Rightarrow> ai_goto ai next w) }"

definition ai_fetch :: "'w dns_addrinfo \<Rightarrow> 'w \<Rightarrow> 'w ai_next" where
  "ai_fetch ai w = do {
     R \<leftarrow> ai_res ai;
     (R, r) \<leftarrow> dns_res_fetch R;
     let ai = ai\<lparr>ai_res := Some R\<rparr>;
     (case r of
        Inl error \<Rightarrow> ai_fail (ai\<lparr>ai_answer := None\<rparr>) error w
      | Inr A \<Rightarrow> do {
          A \<leftarrow> dns_p_study A;
          ai_goto (ai\<lparr>ai_answer := Some A, ai_glue := Some A,
              ai_i := (dns_rr_i_init (ai_i ai))\<lparr>i_section := DNS_S_AN, i_type := ai_qtype ai,
                i_sort := Some Sort_order\<rparr>\<rparr>) DNS_AI_S_FOREACH_I w }) }"

text \<open>\<open>dns_d_cname\<close> into \<open>ai->cname\<close>.\<close>

definition ai_cname_of ::
    "dns_any \<Rightarrow> 'w dns_addrinfo \<Rightarrow> bytes \<Rightarrow> dns_packet \<Rightarrow> ('w dns_addrinfo \<times> (dns_error + nat)) option" where
  "ai_cname_of junk ai name P = do {
     n \<leftarrow> c_strlen name;
     (cname, r) \<leftarrow> dns_d_cname junk 1 (ai_cname ai) (DNS_D_MAXNAME + 1) name n P;
     Some (ai\<lparr>ai_cname := cname\<rparr>, r) }"

text \<open>\<open>if (!dns_d_cname (...)) return error\<close>: a length of \<open>0\<close> would leave the error unset.\<close>

definition ai_cname_or_fail ::
    "dns_any \<Rightarrow> 'w dns_addrinfo \<Rightarrow> bytes \<Rightarrow> dns_packet \<Rightarrow> 'w \<Rightarrow>
     ('w dns_addrinfo \<Rightarrow> 'w ai_next) \<Rightarrow> 'w ai_next" where
  "ai_cname_or_fail junk ai name P w next = do {
     (ai, r) \<leftarrow> ai_cname_of junk ai name P;
     (case r of
        Inl error \<Rightarrow> ai_fail ai error w
      | Inr n \<Rightarrow> if n = 0 then None else next ai) }"

text \<open>A record that is not an address: the addresses of the host it names are looked for.\<close>

definition ai_follow ::
    "dns_any \<Rightarrow> 'w dns_addrinfo \<Rightarrow> dns_rr \<Rightarrow> dns_any \<Rightarrow> dns_packet \<Rightarrow> 'w \<Rightarrow> 'w ai_next" where
  "ai_follow junk ai rr any A w = do {
     (cname, n) \<leftarrow> dns_any_cname (ai_cname ai) (DNS_D_MAXNAME + 1) any (rr_type rr);
     let ai = ai\<lparr>ai_cname := cname\<rparr>;
     if n = 0 then ai_goto ai DNS_AI_S_FOREACH_I w
     else ai_cname_or_fail junk ai (ai_cname ai) A w (\<lambda>ai. do {
            port \<leftarrow> (if rr_type rr = DNS_T_SRV
                then (case any of Any_srv srv \<Rightarrow> Some (srv_port srv) | _ \<Rightarrow> None)
                else Some (ai_port ai));
            ai_goto (ai\<lparr>ai_port := port,
                ai_g := (dns_rr_i_init (ai_g ai))\<lparr>i_section := DNS_S_ALL - DNS_S_QD,
                  i_type := (if ah_family (ai_hints ai) = AF_INET6 then DNS_T_AAAA else DNS_T_A)\<rparr>\<rparr>)
              DNS_AI_S_FOREACH_G w }) }"

definition ai_foreach_i :: "dns_any \<Rightarrow> 'w dns_addrinfo \<Rightarrow> 'w \<Rightarrow> 'w ai_next" where
  "ai_foreach_i junk ai w = do {
     A \<leftarrow> ai_answer ai;
     h \<leftarrow> expand_host 12 A;
     (case h of
        Inl error \<Rightarrow> ai_fail ai error w
      | Inr qname \<Rightarrow> ai_cname_or_fail junk ai qname A w (\<lambda>ai. do {
     (rrs, i, e) \<leftarrow> dns_rr_grep junk 1 1 ((ai_i ai)\<lparr>i_name := Some (ai_cname ai)\<rparr>) A;
     let ai = ai\<lparr>ai_i := i\<rparr>;
     (case rrs of
        [] \<Rightarrow> ai_goto ai DNS_AI_S_DONE w
      | rr # _ \<Rightarrow> do {
     a \<leftarrow> dns_any_parse junk rr A;
     (case a of
        Inl error \<Rightarrow> ai_fail ai error w
      | Inr any \<Rightarrow>
          (let ai = ai\<lparr>ai_port := ai_qport ai\<rparr> in
           if rr_type rr = DNS_T_A \<or> rr_type rr = DNS_T_AAAA then ai_entry any (rr_type rr) ai w
           else ai_follow junk ai rr any A w)) }) })) }"

definition ai_foreach_g :: "dns_any \<Rightarrow> 'w dns_addrinfo \<Rightarrow> 'w \<Rightarrow> 'w ai_next" where
  "ai_foreach_g junk ai w = do {
     G \<leftarrow> ai_glue ai;
     (rrs, g, e) \<leftarrow> dns_rr_grep junk 1 1 ((ai_g ai)\<lparr>i_name := Some (ai_cname ai)\<rparr>) G;
     let ai = ai\<lparr>ai_g := g\<rparr>;
     (case rrs of
        [] \<Rightarrow> ai_goto ai (if s_count (i_state g) > 0 then DNS_AI_S_FOREACH_I
                         else DNS_AI_S_SUBMIT_G) w
      | rr # _ \<Rightarrow> do {
          a \<leftarrow> dns_any_parse junk rr G;
          (case a of
             Inl error \<Rightarrow> ai_fail ai error w
           | Inr any \<Rightarrow> ai_entry any (rr_type rr) ai w) }) }"

definition ai_submit_g :: "dns_any \<Rightarrow> 'w os \<Rightarrow> 'w dns_addrinfo \<Rightarrow> 'w \<Rightarrow> 'w ai_next" where
  "ai_submit_g junk os ai w = do {
     G \<leftarrow> ai_glue ai;
     (rrs, rri, e) \<leftarrow> dns_rr_grep junk 1 1 (rr_i0\<lparr>i_section := DNS_S_QD, i_name := Some (ai_cname ai),
       i_type := i_type (ai_g ai)\<rparr>) G;
     (case rrs of
        _ # _ \<Rightarrow> ai_goto ai DNS_AI_S_FOREACH_I w
      | [] \<Rightarrow> ai_submit os ai (ai_cname ai) (i_type (ai_g ai)) DNS_AI_S_CHECK_G w) }"

definition ai_fetch_g :: "dns_any \<Rightarrow> 'w dns_addrinfo \<Rightarrow> 'w \<Rightarrow> 'w ai_next" where
  "ai_fetch_g junk ai w = do {
     R \<leftarrow> ai_res ai;
     (R, r) \<leftarrow> dns_res_fetch R;
     let ai = ai\<lparr>ai_res := Some R\<rparr>;
     (case r of
        Inl error \<Rightarrow> ai_fail ai error w
      | Inr ans \<Rightarrow> do {
          ans \<leftarrow> dns_p_study ans;
          m \<leftarrow> dns_p_merge junk 1 (ai_glue ai) DNS_S_ALL (Some ans) DNS_S_ALL;
          (case m of
             Inl error \<Rightarrow> ai_fail ai error w
           | Inr glue \<Rightarrow> do {
               let ai = ai\<lparr>ai_glue := Some glue, ai_g := dns_rr_i_init (ai_g ai)\<rparr>;
               (ai, r) \<leftarrow> ai_cname_of junk ai (ai_cname ai) glue;
               ai_goto ai (case r of
                   Inl error \<Rightarrow> DNS_AI_S_FOREACH_I
                 | Inr n \<Rightarrow> if n = 0 then DNS_AI_S_FOREACH_I else DNS_AI_S_FOREACH_G) w }) }) }"

definition ai_done :: "'w dns_addrinfo \<Rightarrow> 'w \<Rightarrow> 'w ai_next" where
  "ai_done ai w =
     ai_fail ai
       (if ai_found ai \<noteq> 0 then ENOENT
        else (case ai_answer ai of
            None \<Rightarrow> DNS_EFAIL
          | Some A \<Rightarrow> if hd_rcode A = 0 \<or> hd_rcode A = 3 then DNS_ENONAME else DNS_EFAIL)) w"

definition dns_ai_nextent_step ::
    "inet_pton \<Rightarrow> dns_any \<Rightarrow> 'w os \<Rightarrow> 'w dns_addrinfo \<times> 'w \<Rightarrow> 'w ai_next" where
  "dns_ai_nextent_step pton junk os = (\<lambda>(ai, w).
     case ai_state ai of
       DNS_AI_S_INIT \<Rightarrow> ai_goto ai DNS_AI_S_NUMERIC w
     | DNS_AI_S_NUMERIC \<Rightarrow> ai_numeric pton ai w
     | DNS_AI_S_SUBMIT \<Rightarrow> ai_submit os ai (ai_qname ai) (ai_qtype ai) DNS_AI_S_CHECK w
     | DNS_AI_S_CHECK \<Rightarrow> ai_check junk os ai DNS_AI_S_FETCH w
     | DNS_AI_S_FETCH \<Rightarrow> ai_fetch ai w
     | DNS_AI_S_FOREACH_I \<Rightarrow> ai_foreach_i junk ai w
     | DNS_AI_S_FOREACH_G \<Rightarrow> ai_foreach_g junk ai w
     | DNS_AI_S_SUBMIT_G \<Rightarrow> ai_submit_g junk os ai w
     | DNS_AI_S_CHECK_G \<Rightarrow> ai_check junk os ai DNS_AI_S_FETCH_G w
     | DNS_AI_S_FETCH_G \<Rightarrow> ai_fetch_g junk ai w
     | DNS_AI_S_DONE \<Rightarrow> ai_done ai w)"

definition dns_ai_nextent ::
    "inet_pton \<Rightarrow> dns_any \<Rightarrow> 'w os \<Rightarrow> 'w dns_addrinfo \<Rightarrow> 'w \<Rightarrow> 'w ai_result option" where
  "dns_ai_nextent pton junk os ai w = c_while (dns_ai_nextent_step pton junk os) (ai, w)"

subsection \<open>Waiting\<close>

definition dns_ai_elapsed :: "'w os \<Rightarrow> 'w dns_addrinfo \<Rightarrow> 'w \<Rightarrow> (int \<times> 'w dns_addrinfo) \<times> 'w" where
  "dns_ai_elapsed os ai w =
     (case ai_res ai of
        None \<Rightarrow> ((0, ai), w)
      | Some R \<Rightarrow> (let ((n, R), w) = dns_res_elapsed os R w in ((n, ai\<lparr>ai_res := Some R\<rparr>), w)))"

definition dns_ai_clear :: "'w os \<Rightarrow> 'w dns_addrinfo \<Rightarrow> 'w \<Rightarrow> ('w dns_addrinfo \<times> 'w) option" where
  "dns_ai_clear os ai w =
     (case ai_res ai of
        None \<Rightarrow> Some (ai, w)
      | Some R \<Rightarrow> do { (R, w) \<leftarrow> dns_res_clear os R w; Some (ai\<lparr>ai_res := Some R\<rparr>, w) })"

definition dns_ai_events :: "'w dns_addrinfo \<Rightarrow> 'w \<Rightarrow> nat option" where
  "dns_ai_events ai w = (case ai_res ai of None \<Rightarrow> Some 0 | Some R \<Rightarrow> dns_res_events R w)"

definition dns_ai_pollfd :: "'w dns_addrinfo \<Rightarrow> 'w \<Rightarrow> int option" where
  "dns_ai_pollfd ai w = (case ai_res ai of None \<Rightarrow> Some (-1) | Some R \<Rightarrow> dns_res_pollfd R w)"

definition dns_ai_timeout :: "'w os \<Rightarrow> 'w dns_addrinfo \<Rightarrow> 'w \<Rightarrow> ((int \<times> 'w dns_addrinfo) \<times> 'w) option" where
  "dns_ai_timeout os ai w =
     (case ai_res ai of
        None \<Rightarrow> Some ((0, ai), w)
      | Some R \<Rightarrow> do {
          ((n, R), w) \<leftarrow> dns_res_timeout os R w;
          Some ((n, ai\<lparr>ai_res := Some R\<rparr>), w) })"

definition dns_ai_poll :: "'w os \<Rightarrow> 'w dns_addrinfo \<Rightarrow> int \<Rightarrow> 'w \<Rightarrow> 'w option" where
  "dns_ai_poll os ai timeout w =
     (case ai_res ai of None \<Rightarrow> Some w | Some R \<Rightarrow> dns_res_poll os R timeout w)"

subsection \<open>Printing\<close>

text \<open>\<open>cp += dns__printstring (...)\<close> and its like: the buffer with the position.\<close>

definition put_text :: "nat \<Rightarrow> string \<Rightarrow> bytes \<times> nat \<Rightarrow> (bytes \<times> nat) option" where
  "put_text lim s = (\<lambda>(dst, cp). do {
     (dst, n) \<leftarrow> dns__printstring dst lim cp (of_string s) (length s);
     Some (dst, cp + n) })"

definition put_cstr :: "nat \<Rightarrow> bytes \<Rightarrow> bytes \<times> nat \<Rightarrow> (bytes \<times> nat) option" where
  "put_cstr lim s = (\<lambda>(dst, cp). do {
     len \<leftarrow> c_strlen s;
     (dst, n) \<leftarrow> dns__printstring dst lim cp s len;
     Some (dst, cp + n) })"

definition put_num :: "nat \<Rightarrow> nat \<Rightarrow> bytes \<times> nat \<Rightarrow> (bytes \<times> nat) option" where
  "put_num lim k = (\<lambda>(dst, cp). do {
     (dst, n) \<leftarrow> dns__print10 dst lim cp k 0;
     Some (dst, cp + n) })"

definition put_char :: "nat \<Rightarrow> byte \<Rightarrow> bytes \<times> nat \<Rightarrow> (bytes \<times> nat) option" where
  "put_char lim c = (\<lambda>(dst, cp). do {
     (dst, n) \<leftarrow> dns__printchar dst lim cp c;
     Some (dst, cp + n) })"

text \<open>The text of the address is what \<open>inet_ntop\<close> leaves in \<open>addr\<close>.\<close>

definition dns_ai_print ::
    "(nat + bytes \<Rightarrow> bytes) \<Rightarrow> bytes \<Rightarrow> nat \<Rightarrow> addrinfo \<Rightarrow> 'w dns_addrinfo \<Rightarrow> (bytes \<times> nat) option" where
  "dns_ai_print ntop dst lim ent ai = do {
     s \<leftarrow> put_text lim ''[ '' (dst, 0);
     s \<leftarrow> put_cstr lim (ai_qname ai) s;
     s \<leftarrow> put_text lim '' IN '' s;
     type \<leftarrow> dns_strtype (ai_qtype ai) (replicate STRMAX 0) STRMAX;
     s \<leftarrow> put_cstr lim type s;
     s \<leftarrow> put_text lim '' ]'' s;
     s \<leftarrow> put_char lim 10 s;
     s \<leftarrow> put_text lim ''.ai_family    = '' s;
     s \<leftarrow> (if ent_family ent = AF_INET then put_text lim ''AF_INET'' s
          else if ent_family ent = AF_INET6 then put_text lim ''AF_INET6'' s
          else put_num lim (ent_family ent) s);
     s \<leftarrow> put_char lim 10 s;
     s \<leftarrow> put_text lim ''.ai_socktype  = '' s;
     s \<leftarrow> (if ent_socktype ent = SOCK_STREAM then put_text lim ''SOCK_STREAM'' s
          else if ent_socktype ent = SOCK_DGRAM then put_text lim ''SOCK_DGRAM'' s
          else put_num lim (ent_socktype ent) s);
     s \<leftarrow> put_char lim 10 s;
     s \<leftarrow> put_text lim ''.ai_addr      = ['' s;
     addr \<leftarrow> dns_sa_addr (ent_addr ent);
     s \<leftarrow> put_cstr lim (ntop addr) s;
     s \<leftarrow> put_text lim '']:'' s;
     s \<leftarrow> put_num lim (dns_sa_port (ent_addr ent)) s;
     s \<leftarrow> put_char lim 10 s;
     s \<leftarrow> put_text lim ''.ai_canonname = '' s;
     s \<leftarrow> (case ent_canonname ent of
          Some name \<Rightarrow> put_cstr lim name s
        | None \<Rightarrow> put_text lim ''[NULL]'' s);
     s \<leftarrow> put_char lim 10 s;
     dst \<leftarrow> dns__printnul (fst s) lim (snd s);
     Some (dst, snd s) }"

end
