(* ===== verification/Question.thy ===== *)
theory Question
  imports Codec Resolver
begin

unbundle bit_operations_syntax

section \<open>Questions\<close>

text \<open>
  The packet of a query: a question pushed into a fresh packet is read back, and so are the
  queries the resolver makes.
\<close>

definition question_wire :: "bytes list \<Rightarrow> nat \<Rightarrow> nat \<Rightarrow> bytes" where
  "question_wire ls type klass = name_wire ls @ len16 type @ len16 klass"

text \<open>A packet whose only content is one question.\<close>

definition question_packet :: "dns_packet \<Rightarrow> bytes list \<Rightarrow> nat \<Rightarrow> nat \<Rightarrow> bool" where
  "question_packet P ls type klass \<longleftrightarrow>
     wf_packet P \<and> hd_qdcount P = 1 \<and> p_end P = 12 + length (question_wire ls type klass) \<and>
     has_bytes (p_data P) 12 (question_wire ls type klass) \<and>
     dns_p_count P (DNS_S_AN OR DNS_S_NS OR DNS_S_AR) = 0"

lemma question_wire_length: "length (question_wire ls type klass) = length (name_wire ls) + 4"
  by (simp add: question_wire_def)

lemma question_skip:
  assumes "question_packet P ls type klass" "\<forall>l \<in> set ls. label_ok l"
  shows "dns_d_skip 12 P = Some (12 + length (name_wire ls))"
  using assms by (intro d_skip_wire) (simp_all add: question_packet_def question_wire_def)

lemma question_qend:
  assumes "question_packet P ls type klass" "\<forall>l \<in> set ls. label_ok l"
  shows "dns_p_qend P = Some (p_end P)"
proof -
  have P: "hd_qdcount P = 1" "p_end P = 12 + length (name_wire ls) + 4" "p_end P < 65536"
    using assms(1) by (auto simp: question_packet_def question_wire_length wf_packet_def)
  have "dns_p_qend_step P (0, 12) = Some (Inl (1, p_end P))"
    using P question_skip [OF assms] by (simp add: dns_p_qend_step_def dns_p_count_def)
  moreover have "dns_p_qend_step P (1, p_end P) = Some (Inr (p_end P))"
    using P by (simp add: dns_p_qend_step_def)
  ultimately show ?thesis by (simp add: dns_p_qend_def c_while_next c_while_stop)
qed

lemma question_parse:
  assumes "question_packet P ls type klass" "\<forall>l \<in> set ls. label_ok l" "type < 65536" "klass < 65536"
  shows "dns_rr_parse rr0 12 P = Some (rr0\<lparr>rr_section := DNS_S_QD, rr_dn_p := 12,
    rr_dn_len := length (name_wire ls), rr_type := type, rr_klass := klass\<rparr>, None)"
proof -
  let ?n = "length (name_wire ls)"
  have P: "p_end P = 12 + ?n + 4" "p_end P < 65536" "p_end P \<le> length (p_data P)"
    using assms(1) by (auto simp: question_packet_def question_wire_length wf_packet_def)
  have "has_bytes (p_data P) (12 + ?n) (len16 type)" "has_bytes (p_data P) (12 + ?n + 2) (len16 klass)"
    using assms(1) by (simp_all add: question_packet_def question_wire_def)
  then have "rd16 (p_data P) (12 + ?n) = Some type" "rd16 (p_data P) (12 + ?n + 2) = Some klass"
    using rd16_len16 assms(3,4) by blast+
  then show ?thesis
    using P question_skip [OF assms(1,2)] question_qend [OF assms(1,2)]
    by (simp add: dns_rr_parse_def rr0_def)
qed

lemma dns_p_push_question:
  assumes P: "wf_packet P" "hd (p_dict P) = 0" "hd_qdcount P = 0" "p_end P = 12"
    "dns_p_count P (later_sections DNS_S_QD) = 0"
    and name: "names_labels dn ls" "take len src = dn" "length dn = len"
    and fits: "12 + length (name_wire ls) + 4 \<le> p_size P"
  shows "\<exists>P'. dns_p_push P DNS_S_QD src len type klass ttl any = Some (P', None) \<and>
    p_size P' = p_size P \<and> question_packet P' ls type klass \<and>
    take 4 (p_data P') = take 4 (p_data P)"
proof -
  let ?n = "length (name_wire ls)" and ?xs = "len16 type @ len16 klass"
  from dns_d_push_empty [OF P(1,2) name] obtain P1 where P1:
    "dns_d_push P src len = Some (P1, None)" "wf_packet P1" "p_size P1 = p_size P"
    "take 12 (p_data P1) = take 12 (p_data P)" "p_end P1 = 12 + ?n" "wire_at (p_data P1) 12 ls"
    using P(4) fits by auto
  have lp: "length (p_data P1) = p_size P1" using P1(2) by (simp add: wf_packet_def)
  have l: "p_app P1 [] = P1" "length ?xs = 4" using lp P1(2) by (simp_all add: wf_packet_def p_app_Nil)
  have room: "p_end P1 + length ?xs \<le> p_size P1" using P1(3,5) fits by simp
  define P2 where "P2 = p_app P1 ?xs"
  have "p_put16 P1 type = Some (p_app P1 (len16 type))"
    "p_put16 (p_app P1 (len16 type)) klass = Some P2"
    using p_put16_app [of P1 "[]" type] p_put16_app [of P1 "len16 type" klass] room lp l
    by (simp_all add: len16_def P2_def)
  moreover have "\<not> p_room P1 < 4" using P1(2) room by (simp add: room_wf)
  ultimately have pushed: "dns_p_push_record P DNS_S_QD src len type klass ttl any = Some (P2, None)"
    using P1(1) by (simp add: dns_p_push_record_def)
  have wf2: "wf_packet P2" unfolding P2_def by (rule p_app_wf [OF P1(2) room])
  note d2 = p_app_data [of P1 ?xs, unfolded lp, OF room, folded P2_def]
  have e2: "p_end P2 = 12 + ?n + 4" "p_size P2 = p_size P" using P1(3,5) by (simp_all add: P2_def)
  have t2: "take (12 + ?n) (p_data P2) = take (12 + ?n) (p_data P1)" using d2(2) P1(5) by simp
  then have pre: "p_data P2 ! k = p_data P1 ! k" if "k < 12 + ?n" for k using that by (metis nth_take)
  have "p_data P2 ! (12 + k) = name_wire ls ! k" if "k < ?n" for k
    using that P1(6) pre [of "12 + k"] by (simp add: wire_at_def)
  then have "wire_at (p_data P2) 12 ls" using P1(5,6) room d2(1) lp by (simp add: wire_at_def)
  then have all2: "has_bytes (p_data P2) 12 (question_wire ls type klass)"
    using d2(3) P1(5) has_bytes_wire by (simp add: question_wire_def)
  have "take 12 (p_data P2) = take 12 (p_data P)"
    using t2 P1(4) by (metis le_add1 min.absorb1 take_take)
  note cnt = count_take [OF this] and hd = hd16_take [OF _ this] and tk = this
  obtain P3 where P3: "dns_p_push_update P2 DNS_S_QD = Some (P3, None)" "p_end P3 = p_end P2"
    "p_size P3 = p_size P2" "p_dict P3 = p_dict P2"
    "p_data P3 = p_data (hd16_set P2 (count_at DNS_S_QD) (hd16 P2 (count_at DNS_S_QD) + 1))"
    using dns_p_push_update_ok [of P2 DNS_S_QD] wf2 P(5) cnt by auto
  have at4: "count_at DNS_S_QD = 4" "hd16 P2 4 = 0"
    using hd [of 4] P(3) by (simp_all add: count_at_def hd_qdcount_def)
  have d3: "p_data P3 = (p_data P2)[4 := 0, 5 := 1]"
    using P3(5) at4 by (simp add: hd16_set_def byte_of_def)
  have long: "12 \<le> length (p_data P2)" using wf2 by (simp add: wf_packet_def)
  have "hd_qdcount P3 = 1" using d3 long by (simp add: hd_qdcount_def hd16_def be16_eq)
  moreover have "dns_p_count P3 (later_sections DNS_S_QD) = dns_p_count P2 (later_sections DNS_S_QD)"
    using d3 by (simp add: dns_p_count_def later_sections_def c_defs hd_ancount_def hd_nscount_def hd_arcount_def hd16_def)
  then have "dns_p_count P3 (DNS_S_AN OR DNS_S_NS OR DNS_S_AR) = 0"
    using cnt P(5) by (simp add: later_sections_def)
  moreover have "drop 12 (p_data P3) = drop 12 (p_data P2)" using d3 by simp
  then have "has_bytes (p_data P3) 12 (question_wire ls type klass)"
    using all2 d3 by (simp add: has_bytes_def)
  moreover have "wf_packet P3" using wf2 P3 d3 by (simp add: wf_packet_def)
  ultimately have "question_packet P3 ls type klass"
    using P3(2) e2(1) by (simp add: question_packet_def question_wire_length)
  moreover have "take 4 (p_data P3) = take 4 (p_data P)"
    using d3 arg_cong [OF tk, of "take 4"] by simp
  moreover have "dns_p_push P DNS_S_QD src len type klass ttl any = Some (P3, None)"
    using pushed P3(1) by (simp add: dns_p_push_def)
  ultimately show ?thesis using P3(3) e2(2) by auto
qed


lemma dns_p_push_question_full:
  assumes P: "wf_packet P" "hd (p_dict P) = 0" "p_end P = 12"
    and name: "names_labels dn ls" "take len src = dn" "length dn = len"
    and full: "p_size P < 12 + length (name_wire ls) + 4"
  shows "\<exists>P'. dns_p_push P DNS_S_QD src len type klass ttl any = Some (P', Some DNS_ENOBUFS) \<and> p_end P' = 12"
proof -
  from dns_d_push_empty [OF P(1,2) name] obtain P1 where P1:
    "dns_d_push P src len = Some (P1, if 12 + length (name_wire ls) \<le> p_size P then None else Some DNS_ENOBUFS)"
    "wf_packet P1" "p_size P1 = p_size P" "12 + length (name_wire ls) \<le> p_size P \<Longrightarrow> p_end P1 = 12 + length (name_wire ls)"
    using P(3) by auto
  have "p_room P1 < 4" if "12 + length (name_wire ls) \<le> p_size P"
    using P1(2,3) P1(4) [OF that] full by (simp add: room_wf)
  then show ?thesis
    using P1(1) P(3)
    by (cases "12 + length (name_wire ls) \<le> p_size P")
      (auto simp: dns_p_push_def dns_p_push_record_def p_fail_def)
qed

lemma holds_cstr_whole:
  "holds_cstr lim xs dst \<Longrightarrow> length xs < lim \<Longrightarrow> \<exists>rest. dst = xs @ 0 # rest"
proof -
  assume h: "holds_cstr lim xs dst" "length xs < lim"
  then have "min (lim - 1) (length xs) = length xs" by simp
  then have "take (length xs + 1) dst = xs @ [0]" using h by (simp add: holds_cstr_def)
  then show ?thesis using append_take_drop_id [of "length xs + 1" dst] by (metis append.assoc append_Cons append_Nil)
qed

text \<open>The name of the question, as the callers of \<open>dns_d_expand\<close> read it.\<close>

lemma question_host:
  assumes "question_packet P ls type klass" "\<forall>l \<in> set ls. label_ok l" "length (name_full ls) \<le> DNS_D_MAXNAME"
  shows "\<exists>rest. expand_host 12 P = Some (Inr (name_full ls @ 0 # rest))"
proof -
  have "name_at P 0 12 ls"
    using assms(1,2) has_bytes_wire_at
    by (intro wire_at_name_at) (auto simp: question_packet_def question_wire_def)
  moreover have "readable P" using assms(1) by (simp add: question_packet_def wf_packet_readable)
  ultimately obtain dst where dst:
    "dns_d_expand (replicate (DNS_D_MAXNAME + 1) 0) (DNS_D_MAXNAME + 1) 12 P =
       Some (dst, Inr (length (name_full ls)))" "holds_cstr (DNS_D_MAXNAME + 1) (name_full ls) dst"
    using expand_complete [of P 0 12 ls "DNS_D_MAXNAME + 1" "[]" "replicate (DNS_D_MAXNAME + 1) 0"]
    by (auto simp: dns_d_expand_def)
  obtain rest where "dst = name_full ls @ 0 # rest"
    using holds_cstr_whole [OF dst(2)] assms(3) by auto
  then show ?thesis using dst(1) assms(3) by (simp add: expand_host_def)
qed


subsection \<open>The queries of the resolver\<close>

lemma query_buffer:
  obtains Q where "dns_p_init (replicate (DNS_P_QBUFSIZ - OFFSETOF_DATA) 0) DNS_P_QBUFSIZ = Some Q"
    "wf_packet Q" "hd (p_dict Q) = 0" "p_end Q = 12" "p_size Q = 260" "p_data Q = replicate 260 0"
    "dns_p_count Q s = 0" "hd_qdcount Q = 0"
proof -
  have z: "be16 0 0 = 0" "replicate 260 0 = replicate 12 0 @ replicate 248 (0 :: byte)"
    by (simp_all add: be16_eq flip: replicate_add)
  show thesis
    by (rule that [of "\<lparr>p_dict = replicate DNS_P_DICTSIZE 0, p_qd = memo0, p_an = memo0, p_ns = memo0,
        p_ar = memo0, p_size = 260, p_end = 12, p_data = replicate 260 0\<rparr>"])
      (simp_all add: dns_p_init_def dns_p_calcsize_def wf_packet_def c_defs dns_p_count_def z
        hd_qdcount_def hd_ancount_def hd_nscount_def hd_arcount_def hd16_def flip: z(2))
qed

lemma hd_set_rd_question: "question_packet (hd_set_rd b P) ls type klass = question_packet P ls type klass"
proof -
  have "drop 12 ((p_data P)[2 := v]) = drop 12 (p_data P)" for v by simp
  then have "has_bytes (p_data (hd_set_rd b P)) 12 xs = has_bytes (p_data P) 12 xs" for xs
    by (simp add: hd_set_rd_def has_bytes_def)
  then show ?thesis
    by (simp add: question_packet_def hd_set_rd_def wf_packet_def dns_p_count_def hd16_def
        hd_qdcount_def hd_ancount_def hd_nscount_def hd_arcount_def cong: conj_cong)
qed

text \<open>C21: the queries of the resolver ask what they are meant to. \<open>dns_res_mkquery\<close> gives a packet
  whose one question has the name, with its final dot, the type and the class it was given, read
  back by the same functions that read every packet, and asks for recursion when the resolver does
  not recurse itself. The buffer has room for names of at most 244 bytes on the wire, eleven less
  than a name may have; a longer one is refused with \<open>DNS_ENOBUFS\<close>.\<close>

theorem dns_res_mkquery_question:
  assumes "names_labels text ls" "0 \<notin> set text" "type < 65536" "klass < 65536"
  shows "if length (name_wire ls) \<le> 244
    then \<exists>Q rr. dns_res_mkquery junk R (text @ 0 # rest) type klass = Some (Inr Q) \<and>
       hd_qdcount Q = 1 \<and> hd_rd Q = (\<not> rc_recurse (r_resconf R)) \<and>
       dns_rr_parse rr0 12 Q = Some (rr, None) \<and> rr_type rr = type \<and> rr_klass rr = klass \<and>
       (\<exists>pad. expand_host (rr_dn_p rr) Q = Some (Inr (name_full ls @ 0 # pad)))
    else dns_res_mkquery junk R (text @ 0 # rest) type klass = Some (Inl DNS_ENOBUFS)"
proof -
  obtain Q where Q: "dns_p_init (replicate (DNS_P_QBUFSIZ - OFFSETOF_DATA) 0) DNS_P_QBUFSIZ = Some Q"
    "wf_packet Q" "hd (p_dict Q) = 0" "p_end Q = 12" "p_size Q = 260" "p_data Q = replicate 260 0"
    "dns_p_count Q (later_sections DNS_S_QD) = 0" "hd_qdcount Q = 0"
    by (rule query_buffer)
  note len = c_strlen_append [OF assms(2), of rest]
  have labels: "\<forall>l \<in> set ls. label_ok l" using assms(1) by (simp add: names_labels_def)
  show ?thesis
  proof (cases "length (name_wire ls) > 244")
    case True
    obtain P' where "dns_p_push Q DNS_S_QD (text @ 0 # rest) (length text) type klass 0 junk =
        Some (P', Some DNS_ENOBUFS)"
      using dns_p_push_question_full [OF Q(2,3,4) assms(1), where src = "text @ 0 # rest"
          and len = "length text" and type = type and klass = klass and ttl = 0 and any = junk] True Q(5)
      by auto
    then show ?thesis using True by (simp add: dns_res_mkquery_def Q(1) len)
  next
    case False
    obtain P' where P': "dns_p_push Q DNS_S_QD (text @ 0 # rest) (length text) type klass 0 junk = Some (P', None)"
      "question_packet P' ls type klass" "take 4 (p_data P') = take 4 (p_data Q)"
      using dns_p_push_question [OF Q(2,3,8,4,7) assms(1), where src = "text @ 0 # rest"
          and len = "length text" and type = type and klass = klass and ttl = 0 and any = junk] False Q(5)
      by auto
    define A where "A = hd_set_rd (\<not> rc_recurse (r_resconf R)) P'"
    have A: "question_packet A ls type klass" using P'(2) by (simp add: A_def hd_set_rd_question)
    have "2 < length (p_data P')" using P'(2) by (auto simp: question_packet_def wf_packet_def)
    moreover have "p_data P' ! 2 = 0" using P'(3) Q(6) nth_take [of 2 4 "p_data P'"] by simp
    ultimately have "hd_rd A = (\<not> rc_recurse (r_resconf R))"
      by (simp add: A_def hd_set_rd_def hd_rd_def bit_simps)
    moreover have "length (name_full ls) \<le> DNS_D_MAXNAME"
      using False by (cases "ls = []") (simp_all add: name_full_def name_wire_length c_defs)
    ultimately show ?thesis
      using question_parse [OF A labels assms(3,4)] question_host [OF A labels] P'(1) False A
      by (auto simp: dns_res_mkquery_def Q(1) len A_def question_packet_def)
  qed
qed


theorem dns_res_mkquery_question_witness:
  "\<forall>R :: unit dns_resolver. \<exists>Q rr pad.
     dns_res_mkquery dns_any_init R ([97, 46] @ 0 # [7]) 28 1 = Some (Inr Q) \<and>
     dns_rr_parse rr0 12 Q = Some (rr, None) \<and> rr_type rr = 28 \<and>
     expand_host (rr_dn_p rr) Q = Some (Inr ([97, 46] @ 0 # pad))"
proof
  fix R :: "unit dns_resolver"
  have "name_full [[97]] = [97, 46]" "length (name_wire [[97]]) \<le> 244"
    by (simp_all add: name_full_def name_wire_length)
  then show "\<exists>Q rr pad. dns_res_mkquery dns_any_init R ([97, 46] @ 0 # [7]) 28 1 = Some (Inr Q) \<and>
     dns_rr_parse rr0 12 Q = Some (rr, None) \<and> rr_type rr = 28 \<and>
     expand_host (rr_dn_p rr) Q = Some (Inr ([97, 46] @ 0 # pad))"
    using dns_res_mkquery_question [OF names_labels_example, of 28 1 dns_any_init R "[7]"]
    by auto
qed

end
