(* ===== verification/Resolution.thy ===== *)
theory Resolution
  imports Question Exchange
begin

section \<open>What the resolver promises\<close>

text \<open>
  The invariant of the resolver's stack: the frames below the current one wait for the frame
  above them, and in every state the packets the state works on are there. So a check that
  succeeds leaves an answer to fetch.
\<close>

subsection \<open>What a state needs\<close>

definition waits :: "res_state \<Rightarrow> bool" where
  "waits st \<longleftrightarrow> st = DNS_R_RESOLV1_NS \<or> st = DNS_R_CNAME1_A \<or> st = DNS_R_SMART1_A"

definition needs_query :: "res_state \<Rightarrow> bool" where
  "needs_query st \<longleftrightarrow>
     st = DNS_R_SUBMIT \<or> st = DNS_R_HINTS \<or> st = DNS_R_ITERATE \<or> st = DNS_R_FOREACH_NS \<or>
     st = DNS_R_RESOLV0_NS \<or> st = DNS_R_RESOLV1_NS \<or> st = DNS_R_FOREACH_A \<or>
     st = DNS_R_QUERY_A \<or> st = DNS_R_CNAME0_A"

definition needs_hints :: "res_state \<Rightarrow> bool" where
  "needs_hints st \<longleftrightarrow>
     st = DNS_R_ITERATE \<or> st = DNS_R_FOREACH_NS \<or> st = DNS_R_RESOLV0_NS \<or>
     st = DNS_R_RESOLV1_NS \<or> st = DNS_R_FOREACH_A \<or> st = DNS_R_QUERY_A"

definition needs_answer :: "res_state \<Rightarrow> bool" where
  "needs_answer st \<longleftrightarrow>
     st = DNS_R_CNAME0_A \<or> st = DNS_R_CNAME1_A \<or> st = DNS_R_FINISH \<or> st = DNS_R_SMART0_A \<or>
     st = DNS_R_SMART1_A \<or> st = DNS_R_DONE"

definition needs_cache :: "res_state \<Rightarrow> bool" where
  "needs_cache st \<longleftrightarrow>
     st = DNS_R_CACHE \<or> st = DNS_R_SUBMIT \<or> st = DNS_R_CHECK \<or> st = DNS_R_FETCH"

lemmas needs_defs = waits_def needs_query_def needs_hints_def needs_answer_def needs_cache_def

definition frame_ok :: "bool \<Rightarrow> nat \<Rightarrow> dns_res_frame \<Rightarrow> bool" where
  "frame_ok cached i F \<longleftrightarrow>
     (i > 0 \<or> needs_query (f_state F) \<longrightarrow> f_query F \<noteq> None) \<and>
     (needs_hints (f_state F) \<longrightarrow> f_hints F \<noteq> None) \<and>
     (needs_answer (f_state F) \<longrightarrow> f_answer F \<noteq> None) \<and>
     (needs_cache (f_state F) \<longrightarrow> cached)"

text \<open>The frame above one that waits: when control is back, it is done.\<close>

definition above_ok :: "nat \<Rightarrow> dns_res_frame list \<Rightarrow> bool" where
  "above_ok i Fs \<longleftrightarrow> i + 1 < DNS_R_MAXDEPTH \<and> f_query (Fs ! (i + 1)) \<noteq> None \<and>
     f_answer (Fs ! (i + 1)) \<noteq> None"

definition res_inv :: "'w dns_resolver \<Rightarrow> bool" where
  "res_inv R \<longleftrightarrow>
     length (r_stack R) = DNS_R_MAXDEPTH \<and> r_sp R < DNS_R_MAXDEPTH \<and>
     (\<forall>i \<le> r_sp R. frame_ok (r_cache R \<noteq> None) i (r_stack R ! i)) \<and>
     (\<forall>i < r_sp R. waits (f_state (r_stack R ! i))) \<and>
     (waits (f_state (r_stack R ! r_sp R)) \<longrightarrow> above_ok (r_sp R) (r_stack R))"

text \<open>The current frame, and the invariant for the rest of the stack.\<close>

definition res_base :: "'w dns_resolver \<Rightarrow> bool" where
  "res_base R \<longleftrightarrow>
     length (r_stack R) = DNS_R_MAXDEPTH \<and> r_sp R < DNS_R_MAXDEPTH \<and>
     (\<forall>i < r_sp R. frame_ok (r_cache R \<noteq> None) i (r_stack R ! i)) \<and>
     (\<forall>i < r_sp R. waits (f_state (r_stack R ! i)))"

lemma res_inv_base:
  "res_inv R \<longleftrightarrow>
     res_base R \<and> frame_ok (r_cache R \<noteq> None) (r_sp R) (r_stack R ! r_sp R) \<and>
     (waits (f_state (r_stack R ! r_sp R)) \<longrightarrow> above_ok (r_sp R) (r_stack R))"
  by (auto simp: res_inv_def res_base_def le_less)

lemma res_base_update [simp]:
  "res_base (R\<lparr>r_so := so\<rparr>) = res_base R"
  "res_base (R\<lparr>r_search := n\<rparr>) = res_base R"
  "res_base (R\<lparr>r_smart := i\<rparr>) = res_base R"
  "res_base (R\<lparr>r_nodata := P\<rparr>) = res_base R"
  "res_base (R\<lparr>r_elapsed := c\<rparr>) = res_base R"
  "res_base (R\<lparr>r_hints := H\<rparr>) = res_base R"
  by (simp_all add: res_base_def)

lemma res_put_fields [simp]:
  "r_sp (res_put R F) = r_sp R" "r_cache (res_put R F) = r_cache R"
  "r_stack (res_put R F) = (r_stack R)[r_sp R := F]"
  by (simp_all add: res_put_def)

lemma res_put_base [simp]: "res_base (res_put R F) = res_base R"
  by (simp add: res_base_def)

lemma res_put_inv:
  "res_base R \<Longrightarrow> res_inv (res_put R F) \<longleftrightarrow>
     frame_ok (r_cache R \<noteq> None) (r_sp R) F \<and>
     (waits (f_state F) \<longrightarrow> above_ok (r_sp R) (r_stack R))"
  by (auto simp: res_inv_base above_ok_def res_base_def)

text \<open>The step from a state: the invariant holds after it, and a return without an error is one
  with an answer in a frame that is done.\<close>

definition res_ended :: "'w dns_resolver \<Rightarrow> bool" where
  "res_ended R \<longleftrightarrow> r_sp R = 0 \<and> f_state (r_stack R ! 0) = DNS_R_DONE \<and> f_answer (r_stack R ! 0) \<noteq> None"

definition next_ok :: "'w dns_resolver \<times> 'w + 'w res_result \<Rightarrow> bool" where
  "next_ok x = (case x of
     Inl (R, w) \<Rightarrow> res_inv R
   | Inr ((R, e), w) \<Rightarrow> res_inv R \<and> (e = None \<longrightarrow> res_ended R))"

lemma next_ok_simps [simp]:
  "next_ok (Inl (R, w)) = res_inv R"
  "next_ok (Inr ((R, e), w)) = (res_inv R \<and> (e = None \<longrightarrow> res_ended R))"
  by (simp_all add: next_ok_def)

lemma res_goto_next:
  assumes "res_base R" "res_goto R F st w = Some x"
    and "frame_ok (r_cache R \<noteq> None) (r_sp R) (F\<lparr>f_state := st\<rparr>)" "\<not> waits st"
  shows "next_ok x"
  using assms by (auto simp: res_goto_def res_put_inv)

lemma res_error_next:
  assumes "res_base R" "res_return R F (Some e) w = Some x"
    and "frame_ok (r_cache R \<noteq> None) (r_sp R) F"
    and "waits (f_state F) \<longrightarrow> above_ok (r_sp R) (r_stack R)"
  shows "next_ok x"
  using assms by (auto simp: res_return_def res_put_inv)


lemma res_put_above_fields [simp]:
  "r_sp (res_put_above R F) = r_sp R" "r_cache (res_put_above R F) = r_cache R"
  "r_stack (res_put_above R F) = (r_stack R)[r_sp R + 1 := F]"
  by (simp_all add: res_put_above_def)

lemma res_put_above_base [simp]: "res_base (res_put_above R F) = res_base R"
  by (simp add: res_base_def)

lemma res_call_inv:
  assumes "res_base R" "\<not> res_full R"
    and "frame_ok (r_cache R \<noteq> None) (r_sp R) F" "waits (f_state F)"
  shows "res_inv ((res_put_above (res_put R F) (dns_res_reset_frame\<lparr>f_query := Some Q\<rparr>))\<lparr>r_sp := r_sp R + 1\<rparr>)"
    (is "res_inv ?R")
proof -
  have "length (r_stack ?R) = DNS_R_MAXDEPTH" "r_sp ?R < DNS_R_MAXDEPTH"
    using assms(1,2) by (simp_all add: res_base_def res_full_def)
  moreover have "frame_ok (r_cache ?R \<noteq> None) i (r_stack ?R ! i) \<and> waits (f_state (r_stack ?R ! i))"
    if "i < r_sp ?R" for i
    using that assms by (cases "i = r_sp R") (simp_all add: res_base_def)
  ultimately have "res_base ?R" by (simp add: res_base_def)
  then show ?thesis
    using assms(1,2)
    by (simp add: res_inv_base res_base_def res_full_def frame_ok_def dns_res_reset_frame_def needs_defs)
qed

lemma res_call_next:
  assumes "res_base R" "res_call R F st Q w = Some x" "\<not> res_full R"
    and "frame_ok (r_cache R \<noteq> None) (r_sp R) (F\<lparr>f_state := st\<rparr>)" "waits st"
  shows "next_ok x"
  using assms(2) res_call_inv [OF assms(1,3,4), of Q] assms(5) by (auto simp: res_call_def Let_def)

lemma res_call_fail_next:
  assumes "res_base R" "res_call_fail R F Q e w = Some x"
    and "frame_ok (r_cache R \<noteq> None) (r_sp R) F" "\<not> waits (f_state F)"
  shows "next_ok x"
  using assms by (auto simp: res_call_fail_def res_return_def res_put_inv)

lemmas res_nexts = res_goto_next res_error_next res_call_next res_call_fail_next

lemma res_push_call_next:
  assumes "res_base R" "res_push_call junk R F st host type w = Some x" "\<not> res_full R"
    and "frame_ok (r_cache R \<noteq> None) (r_sp R) F" "\<not> waits (f_state F)"
    and "frame_ok (r_cache R \<noteq> None) (r_sp R) (F\<lparr>f_state := st\<rparr>)" "waits st"
  shows "next_ok x"
  using assms(2) res_call_next [OF assms(1) _ assms(3,6,7)] res_call_fail_next [OF assms(1) _ assms(4,5)]
  by (auto simp: res_push_call_def split: Option.bind_splits prod.splits option.splits)

lemma res_mkquery_call_next:
  assumes "res_base R" "res_mkquery_call junk R F st host type w = Some x" "\<not> res_full R"
    and "frame_ok (r_cache R \<noteq> None) (r_sp R) F" "\<not> waits (f_state F)"
    and "frame_ok (r_cache R \<noteq> None) (r_sp R) (F\<lparr>f_state := st\<rparr>)" "waits st"
  shows "next_ok x"
  using assms(2) res_call_next [OF assms(1) _ assms(3,6,7)] res_call_fail_next [OF assms(1) _ assms(4,5)]
  by (auto simp: res_mkquery_call_def split: Option.bind_splits prod.splits sum.splits)

text \<open>What each state relies on.\<close>

definition at_state :: "res_state \<Rightarrow> 'w dns_resolver \<Rightarrow> dns_res_frame \<Rightarrow> bool" where
  "at_state st R F \<longleftrightarrow> res_base R \<and> f_state F = st \<and> frame_ok (r_cache R \<noteq> None) (r_sp R) F \<and>
     (waits st \<longrightarrow> above_ok (r_sp R) (r_stack R))"

lemma at_state_inv:
  "res_inv R \<Longrightarrow> at_state (f_state (r_stack R ! r_sp R)) R (r_stack R ! r_sp R)"
  by (simp add: at_state_def res_inv_base)

lemma at_stateD:
  assumes "at_state st R F"
  shows "res_base R" "f_state F = st" "frame_ok (r_cache R \<noteq> None) (r_sp R) F"
    "waits st \<Longrightarrow> above_ok (r_sp R) (r_stack R)"
  using assms by (auto simp: at_state_def)

lemma res_lookup_state:
  assumes "c_while (res_lookup_step R) n = Some (which, Some st)"
  shows "st = DNS_R_BIND \<or> st = DNS_R_FILE \<or> st = DNS_R_CACHE \<and> r_cache R \<noteq> None"
proof -
  have "snd (which, Some st) = None \<or> the (snd (which, Some st)) \<in> {DNS_R_BIND, DNS_R_FILE} \<or>
      the (snd (which, Some st)) = DNS_R_CACHE \<and> r_cache R \<noteq> None"
    by (rule c_while_invariant [where I = "\<lambda>_. True", OF assms])
      (auto simp: res_lookup_step_def split: if_splits Option.bind_splits)
  then show ?thesis by auto
qed

text \<open>The states without a loop or a call: the cases of the definition, each with the lemma on how
  the state is left.\<close>

lemmas next_cases = Option.bind_splits option.splits sum.splits if_splits prod.splits list.splits
lemmas next_defs = at_state_def Let_def frame_ok_def needs_defs

lemma res_simple_next:
  "at_state DNS_R_GLUE R F \<Longrightarrow> res_glue junk R F w = Some x \<Longrightarrow> next_ok x"
  "at_state DNS_R_SWITCH R F \<Longrightarrow> res_switch R F w = Some x \<Longrightarrow> next_ok x"
  "at_state DNS_R_SUBMIT R F \<Longrightarrow> res_submit R F w = Some x \<Longrightarrow> next_ok x"
  "at_state DNS_R_CHECK R F \<Longrightarrow> res_check R F w = Some x \<Longrightarrow> next_ok x"
  "at_state DNS_R_BIND R F \<Longrightarrow> res_bind R F w = Some x \<Longrightarrow> next_ok x"
  "at_state DNS_R_SEARCH R F \<Longrightarrow> res_search junk R F w = Some x \<Longrightarrow> next_ok x"
  "at_state DNS_R_HINTS R F \<Longrightarrow> res_hints junk os R F w = Some x \<Longrightarrow> next_ok x"
  "at_state DNS_R_ITERATE R F \<Longrightarrow> res_iterate junk R F w = Some x \<Longrightarrow> next_ok x"
  "at_state DNS_R_FOREACH_NS R F \<Longrightarrow> res_foreach_ns junk os R F w = Some x \<Longrightarrow> next_ok x"
  "at_state DNS_R_SERVFAIL R F \<Longrightarrow> res_servfail junk R F w = Some x \<Longrightarrow> next_ok x"
  "at_state DNS_R_CNAME1_A R F \<Longrightarrow> res_cname1_a junk R F w = Some x \<Longrightarrow> next_ok x"
  "at_state DNS_R_FINISH R F \<Longrightarrow> res_finish R F w = Some x \<Longrightarrow> next_ok x"
  by (auto simp: next_defs res_glue_def res_inspect_def res_switch_def res_submit_def res_check_def
      res_bind_def res_search_def res_hints_def res_iterate_def res_foreach_ns_def res_servfail_def
      res_cname1_a_def res_finish_def
      split: next_cases elim!: res_goto_next [rotated] res_error_next [rotated] dest!: res_lookup_state)

lemma res_file_step_next:
  assumes "res_file_step junk w (host, R, F) = Some y"
    and "res_base R" "frame_ok (r_cache R \<noteq> None) (r_sp R) F" "\<not> waits (f_state F)" "r_sp R = 0" "f_state F = DNS_R_FILE"
  shows "case y of Inl (host, R, F) \<Rightarrow> at_state DNS_R_FILE R F \<and> r_sp R = 0 | Inr x \<Rightarrow> next_ok x"
  using assms
  by (auto simp: res_file_step_def next_defs
      split: next_cases elim!: res_goto_next [rotated] res_error_next [rotated])

lemma res_file_next:
  assumes "at_state DNS_R_FILE R F" "res_file junk R F w = Some x"
  shows "next_ok x"
proof (cases "r_sp R = 0")
  case True
  then have "c_while (res_file_step junk w) (NAMEBUF, R\<lparr>r_search := 0\<rparr>, F) = Some x"
    using assms(2) by (simp add: res_file_def split: Option.bind_splits)
  then show ?thesis
    by (rule c_while_invariant [where I = "\<lambda>(host, R, F). at_state DNS_R_FILE R F \<and> r_sp R = 0"])
      (use assms(1) True in \<open>auto simp: at_state_def needs_defs dest!: res_file_step_next\<close>)
next
  case False
  then show ?thesis
    using assms
    by (auto simp: res_file_def next_defs
      split: next_cases elim!: res_goto_next [rotated] res_error_next [rotated])
qed

lemma res_cached_next:
  assumes base: "res_base R" and ok: "frame_ok (r_cache R \<noteq> None) (r_sp R) F"
    and cache: "needs_cache (f_state F)"
    and st: "st = DNS_R_SWITCH \<or> st = DNS_R_SUBMIT \<and> f_query F \<noteq> None"
    and res: "res_cached R F st (A, e) w = Some x"
  shows "next_ok x"
proof -
  have F: "r_cache R \<noteq> None" "\<not> waits (f_state F)"
      "r_sp R > 0 \<or> needs_query (f_state F) \<Longrightarrow> f_query F \<noteq> None"
      "\<not> needs_hints (f_state F)" "\<not> needs_answer (f_state F)"
    using ok cache by (cases "f_state F"; simp add: frame_ok_def needs_defs)+
  show ?thesis
  proof (cases A)
    case (Some P)
    have "frame_ok True (r_sp R) (F\<lparr>f_answer := Some P, f_state := DNS_R_FINISH\<rparr>)"
        "frame_ok True (r_sp R) (F\<lparr>f_answer := None, f_state := DNS_R_SWITCH\<rparr>)"
      using F(3) by (simp_all add: frame_ok_def needs_defs)
    then show ?thesis
      using res base F(1) Some
      by (auto simp: res_cached_def needs_defs elim!: res_goto_next [rotated] split: if_splits)
  next
    case None
    have G: "frame_ok True (r_sp R) (F\<lparr>f_answer := None\<rparr>)"
        "frame_ok True (r_sp R) (F\<lparr>f_answer := None, f_state := st\<rparr>)" "\<not> waits st"
      using F(3-5) F(1) st by (auto simp: frame_ok_def needs_defs)
    show ?thesis
    proof (cases e)
      case None
      then show ?thesis using res base F(1) \<open>A = None\<close> G
        by (simp add: res_cached_def res_goto_next)
    next
      case (Some error)
      then show ?thesis using res base F(1,2) \<open>A = None\<close> G
        by (simp add: res_cached_def res_error_next)
    qed
  qed
qed

lemma res_cache_next:
  assumes "at_state DNS_R_CACHE R F" "res_cache junk R F w = Some x"
  shows "next_ok x"
  using assms
  by (auto simp: res_cache_def next_defs
      split: next_cases elim!: res_error_next [rotated] res_cached_next [rotated 4])

lemma res_fetch_next:
  assumes "at_state DNS_R_FETCH R F" "res_fetch R F w = Some x"
  shows "next_ok x"
  using assms
  by (auto simp: res_fetch_def next_defs
      split: next_cases elim!: res_cached_next [rotated 4])


lemma res_resolv0_next:
  assumes "at_state DNS_R_RESOLV0_NS R F" "res_resolv0_ns junk R F w = Some x"
  shows "next_ok x"
  using assms
  by (auto simp: res_resolv0_ns_def next_defs split: next_cases
      elim!: res_goto_next [rotated] res_call_fail_next [rotated] res_push_call_next [rotated])

lemma res_cname0_next:
  assumes "at_state DNS_R_CNAME0_A R F" "res_cname0_a junk R F w = Some x"
  shows "next_ok x"
  using assms
  by (auto simp: res_cname0_a_def next_defs split: next_cases
      elim!: res_goto_next [rotated] res_error_next [rotated] res_push_call_next [rotated])

lemma dns_rr_foreach_invariant:
  assumes "dns_rr_foreach junk rnd i P body s = Some r" and "I s"
    and "\<And>rr s s'. I s \<Longrightarrow> body rr s = Some (Inl s') \<Longrightarrow> I s'"
    and "\<And>rr s r. I s \<Longrightarrow> body rr s = Some (Inr r) \<Longrightarrow> Q r"
  shows "case r of Inl s \<Rightarrow> I s | Inr r \<Rightarrow> Q r"
  by (rule c_while_invariant [where I = "\<lambda>(i, s). I s", OF assms(1) [unfolded dns_rr_foreach_def]])
    (use assms in \<open>auto simp: dns_rr_foreach_step_def split: Option.bind_splits list.splits sum.splits\<close>)

text \<open>The frames that differ from \<open>F\<close> in the name servers' packet and iterator only.\<close>

definition hints_only :: "dns_res_frame \<Rightarrow> dns_res_frame \<Rightarrow> bool" where
  "hints_only F G \<longleftrightarrow> f_state G = f_state F \<and> f_query G = f_query F \<and> f_answer G = f_answer F \<and>
     f_hints G \<noteq> None"

lemma hints_only_ok: "hints_only F G \<Longrightarrow> frame_ok c i F \<Longrightarrow> frame_ok c i G"
  by (auto simp: hints_only_def frame_ok_def)

lemma res_resolv1_body_hints:
  assumes "res_resolv1_body A rr G = Some x" "hints_only F G"
  shows "case x of Inl G \<Rightarrow> hints_only F G | Inr (G, e) \<Rightarrow> hints_only F G"
  using assms
  by (auto simp: res_resolv1_body_def hints_only_def Let_def split: Option.bind_splits option.splits)

lemma res_resolv1_next:
  assumes "at_state DNS_R_RESOLV1_NS R F" "res_resolv1_ns junk R F w = Some x"
  shows "next_ok x"
proof -
  note R = at_stateD [OF assms(1)]
  have above: "above_ok (r_sp R) (r_stack R)" using R(4) by (simp add: waits_def)
  have F: "hints_only F F" using R(2,3) by (simp add: hints_only_def frame_ok_def needs_defs)
  have out: "frame_ok (r_cache R \<noteq> None) (r_sp R) (G\<lparr>f_state := DNS_R_FOREACH_NS\<rparr>)" if "hints_only F G" for G
    using R(2,3) that by (auto simp: hints_only_def frame_ok_def needs_defs)
  show ?thesis
    using assms(2) R(1-3) above
    by (auto simp: res_resolv1_ns_def waits_def split: Option.bind_splits sum.splits
        dest!: dns_rr_foreach_invariant [where I = "hints_only F" and Q = "\<lambda>(G, e). hints_only F G", OF _ F]
          res_resolv1_body_hints
        elim!: res_goto_next [rotated] res_error_next [rotated] intro: out [simplified] hints_only_ok)
qed

lemma res_ask_next:
  assumes "at_state DNS_R_FOREACH_A R F" "res_ask os R F a w = Some x"
  shows "next_ok x"
  using assms
  by (auto simp: res_ask_def next_defs split: next_cases
      elim!: res_goto_next [rotated] res_error_next [rotated])

lemma res_foreach_a_next:
  assumes "at_state DNS_R_FOREACH_A R F" "res_foreach_a junk os R F w = Some x"
  shows "next_ok x"
  using assms
  by (auto simp: res_foreach_a_def next_defs split: next_cases
      elim!: res_goto_next [rotated] res_error_next [rotated] res_ask_next [unfolded next_defs, rotated])

text \<open>A socket that is done has an answer, and hands it over.\<close>

lemma dns_so_closefd_state:
  "dns_so_closefd so fd w = ((so', fd', e), w') \<Longrightarrow> so_state so' = so_state so"
  by (auto simp: dns_so_closefd_def split: if_splits option.splits prod.splits)

lemma dns_so_check_step_done:
  assumes "dns_so_check_step os (so, w) = Some (Inr ((so', None), w'))"
  shows "(so_state so' = DNS_SO_UDP_DONE \<or> so_state so' = DNS_SO_TCP_DONE) \<and> so_answer so' \<noteq> None"
  using assms
  by (auto simp: dns_so_check_step_def so_udp_conn_def so_udp_send_def so_udp_recv_def so_udp_done_def
      so_tcp_init_def so_tcp_conn_def so_tcp_io_def so_tcp_done_def so_check_error_def so_closetcp_def
      Let_def dest: dns_so_closefd_state split: so_state.splits next_cases)


lemma dns_so_check_done:
  assumes "dns_so_check os so w = Some ((so', None), w')"
  shows "\<exists>A. dns_so_fetch so' = (Inr (Some A), so'\<lparr>so_answer := None\<rparr>)"
proof -
  have "snd (fst ((so', None :: dns_error option), w')) = None \<longrightarrow>
      (so_state (fst (fst ((so', None :: dns_error option), w'))) = DNS_SO_UDP_DONE \<or>
       so_state (fst (fst ((so', None :: dns_error option), w'))) = DNS_SO_TCP_DONE) \<and>
      so_answer (fst (fst ((so', None :: dns_error option), w'))) \<noteq> None"
    by (rule c_while_invariant [where I = "\<lambda>_. True", OF assms [unfolded dns_so_check_def]])
      (auto dest!: dns_so_check_step_done)
  then show ?thesis by (auto simp: dns_so_fetch_def)
qed

lemma res_referral_next:
  assumes "res_base R" "f_state F = DNS_R_QUERY_A" "frame_ok (r_cache R \<noteq> None) (r_sp R) F"
    and "f_answer F = Some A" "res_referral junk R F A w = Some x"
  shows "next_ok x"
  using assms
  by (auto simp: res_referral_def next_defs split: next_cases elim!: res_goto_next [rotated])

lemma res_query_a_next:
  assumes "at_state DNS_R_QUERY_A R F" "res_query_a junk os R F w = Some x"
  shows "next_ok x"
  using assms
  by (auto simp: res_query_a_def res_inspect_def next_defs split: next_cases
      dest!: dns_so_check_done
      elim!: res_goto_next [rotated] res_error_next [rotated] res_referral_next [unfolded next_defs, rotated 4])

lemma res_done_next:
  assumes "at_state DNS_R_DONE R F" "res_done R F w = Some x"
    and F: "F = r_stack R ! r_sp R"
  shows "next_ok x"
proof (cases "r_sp R = 0")
  case True
  then show ?thesis
    using assms(1,2) at_stateD(1) [OF assms(1)]
    by (auto simp: res_done_def res_return_def res_put_inv res_ended_def res_base_def needs_defs
        at_state_def split: if_splits)
next
  case False
  let ?R = "(res_put R F)\<lparr>r_sp := r_sp R - 1\<rparr>"
  note R = at_stateD [OF assms(1)]
  have "res_base ?R" using R(1) by (auto simp: res_base_def)
  moreover have "r_stack ?R = r_stack R" using R(1) F by (simp add: res_base_def)
  moreover have FA: "f_query F \<noteq> None" "f_answer F \<noteq> None"
    using R(2,3) False by (simp_all add: frame_ok_def needs_answer_def)
  then have "above_ok (r_sp R - 1) (r_stack R)"
    using R(1) False F by (simp add: above_ok_def res_base_def)
  moreover have "frame_ok (r_cache R \<noteq> None) (r_sp R - 1) (r_stack R ! (r_sp R - 1))"
    using R(1) False unfolding res_base_def by (metis diff_less zero_less_one gr0I)
  ultimately have "res_inv ?R" by (simp add: res_inv_base)
  then show ?thesis using assms(2) False FA by (auto simp: res_done_def)
qed

text \<open>The loop over the records of an answer that name a host.\<close>

lemma smart0_frames:
  assumes "at_state DNS_R_SMART0_A R F"
  shows "res_base R" "frame_ok (r_cache R \<noteq> None) (r_sp R) F" "\<not> waits (f_state F)"
    "frame_ok (r_cache R \<noteq> None) (r_sp R) (F\<lparr>f_state := DNS_R_SMART1_A\<rparr>)" "waits DNS_R_SMART1_A"
    "frame_ok (r_cache R \<noteq> None) (r_sp R) (F\<lparr>f_state := DNS_R_DONE\<rparr>)" "\<not> waits DNS_R_DONE"
    "at_state DNS_R_SMART0_A (R\<lparr>r_smart := i\<rparr>) F"
  using assms by (simp_all add: at_state_def frame_ok_def needs_defs)

lemma smart0_step_next:
  assumes step: "res_smart0_step junk F A w R = Some y"
    and R: "at_state DNS_R_SMART0_A R F" "\<not> res_full R"
  shows "case y of
      Inl R \<Rightarrow> at_state DNS_R_SMART0_A R F \<and> \<not> res_full R
    | Inr (Inl R) \<Rightarrow> at_state DNS_R_SMART0_A R F \<and> \<not> res_full R
    | Inr (Inr x) \<Rightarrow> next_ok x"
proof -
  obtain rrs i e where "dns_rr_grep junk 1 1 (r_smart R) A = Some (rrs, i, e)"
    using step by (auto simp: res_smart0_step_def split: Option.bind_splits)
  moreover define R1 where "R1 = R\<lparr>r_smart := i\<rparr>"
  moreover have R1: "at_state DNS_R_SMART0_A R1 F" "\<not> res_full R1"
    using smart0_frames(8) [OF R(1)] R(2) by (simp_all add: R1_def res_full_def)
  note f = smart0_frames [OF R1(1)]
  have "\<And>error x. res_return R1 F (Some error) w = Some x \<Longrightarrow> next_ok x"
    by (rule res_error_next [OF f(1) _ f(2)]) (use f(3) in simp_all)
  moreover have "\<And>host x. res_mkquery_call junk R1 F DNS_R_SMART1_A host DNS_T_A w = Some x \<Longrightarrow> next_ok x"
    by (rule res_mkquery_call_next [OF f(1) _ R1(2) f(2,3,4,5)])
  ultimately show ?thesis
    using step R1 by (auto simp: res_smart0_step_def Let_def R1_def [symmetric] split: next_cases)
qed

lemma res_smart0_next:
  assumes R: "at_state DNS_R_SMART0_A R F" and res: "res_smart0_a junk R F w = Some x"
  shows "next_ok x"
proof (cases "res_full R")
  case True
  then show ?thesis
    using res res_goto_next [OF smart0_frames(1) [OF R] _ smart0_frames(6,7) [OF R]]
    by (simp add: res_smart0_a_def)
next
  case False
  obtain A y where y: "f_answer F = Some A" "c_while (res_smart0_step junk F A w) R = Some y"
    using res False by (auto simp: res_smart0_a_def split: Option.bind_splits)
  have "case y of Inl R \<Rightarrow> at_state DNS_R_SMART0_A R F \<and> \<not> res_full R | Inr x \<Rightarrow> next_ok x"
  proof (rule c_while_invariant [where I = "\<lambda>R. at_state DNS_R_SMART0_A R F \<and> \<not> res_full R", OF y(2)])
    show "at_state DNS_R_SMART0_A R F \<and> \<not> res_full R" using R False ..
  next
    fix R R'
    assume "at_state DNS_R_SMART0_A R F \<and> \<not> res_full R" "res_smart0_step junk F A w R = Some (Inl R')"
    then show "at_state DNS_R_SMART0_A R' F \<and> \<not> res_full R'" using smart0_step_next by fastforce
  next
    fix R and y :: "'a dns_resolver + 'a dns_resolver \<times> 'a + 'a res_result"
    assume "at_state DNS_R_SMART0_A R F \<and> \<not> res_full R" "res_smart0_step junk F A w R = Some (Inr y)"
    then show "case y of Inl R \<Rightarrow> at_state DNS_R_SMART0_A R F \<and> \<not> res_full R | Inr x \<Rightarrow> next_ok x"
      using smart0_step_next by (cases y) fastforce+
  qed
  then show ?thesis
  proof (cases y)
    case (Inl R1)
    then have R1: "at_state DNS_R_SMART0_A R1 F" "\<not> res_full R1"
      using \<open>case y of Inl R \<Rightarrow> _ R | Inr x \<Rightarrow> next_ok x\<close> by simp_all
    note f = smart0_frames [OF R1(1)]
    define R2 where "R2 = R1\<lparr>r_smart := (r_smart R1)\<lparr>i_state := (i_state (r_smart R1))\<lparr>s_count := Suc 0\<rparr>\<rparr>\<rparr>"
    have R2: "at_state DNS_R_SMART0_A R2 F" "\<not> res_full R2"
      using f(8) R1(2) by (simp_all add: R2_def res_full_def)
    note g = smart0_frames [OF R2(1)]
    show ?thesis
      using res False y Inl res_goto_next [OF f(1) _ f(6,7)] res_call_fail_next [OF f(1) _ f(2,3)]
        res_call_next [OF g(1) _ R2(2) g(4,5)]
      by (auto simp: res_smart0_a_def R2_def [symmetric] split: next_cases)
  next
    case (Inr z)
    then show ?thesis
      using res False y \<open>case y of Inl R \<Rightarrow> _ R | Inr x \<Rightarrow> next_ok x\<close> by (simp add: res_smart0_a_def)
  qed
qed

lemma res_smart1_next:
  assumes R: "at_state DNS_R_SMART1_A R F" and res: "res_smart1_a junk R F w = Some x"
  shows "next_ok x"
proof -
  have f: "res_base R" "\<And>A. frame_ok (r_cache R \<noteq> None) (r_sp R) (F\<lparr>f_answer := Some A\<rparr>)"
      "\<And>A. frame_ok (r_cache R \<noteq> None) (r_sp R) (F\<lparr>f_answer := Some A, f_state := DNS_R_SMART0_A\<rparr>)"
      "\<not> waits DNS_R_SMART0_A" "above_ok (r_sp R) (r_stack R)" "frame_ok (r_cache R \<noteq> None) (r_sp R) F"
    using R by (simp_all add: next_defs)
  show ?thesis
    using res res_goto_next [OF f(1) _ f(3,4)] res_error_next [OF f(1) _ f(2)]
      res_error_next [OF f(1) _ f(6)] f(5)
    by (auto simp: res_smart1_a_def split: next_cases)
qed

subsection \<open>The invariant\<close>

lemma dns_res_exec_step_next:
  assumes "dns_res_exec_step junk os (R, w) = Some x" "res_inv R"
  shows "next_ok x"
proof -
  define F where "F = r_stack R ! r_sp R"
  have F: "rd (r_stack R) (r_sp R) = Some F" "at_state (f_state F) R F"
    using assms(2) at_state_inv [OF assms(2)] by (simp_all add: res_inv_def F_def)
  have init: "next_ok x" if "f_state F = DNS_R_INIT" "res_goto R F DNS_R_GLUE w = Some x"
    using that F(2) by (auto simp: next_defs elim!: res_goto_next [rotated])
  show ?thesis
    using assms(1) F init F_def
    by (cases "f_state F")
      (auto simp: dns_res_exec_step_def intro: res_simple_next res_file_next res_cache_next
        res_fetch_next res_resolv0_next res_resolv1_next res_foreach_a_next res_query_a_next
        res_cname0_next res_smart0_next res_smart1_next res_done_next)
qed

lemma dns_res_exec_inv:
  assumes "dns_res_exec junk os R w = Some ((R', e), w')" "res_inv R"
  shows "res_inv R' \<and> (e = None \<longrightarrow> res_ended R')"
proof -
  have "next_ok (Inr ((R', e), w'))"
    by (rule c_while_invariant [where I = "\<lambda>(R, w). res_inv R" and Q = "\<lambda>r. next_ok (Inr r)",
          OF assms(1) [unfolded dns_res_exec_def]])
      (use assms(2) in \<open>auto dest!: dns_res_exec_step_next\<close>)
  then show ?thesis by simp
qed


subsection \<open>The life of a resolver\<close>

text \<open>The states of a resolver that is opened and used through its interface, those between two
  steps of \<open>dns_res_exec\<close> included. \<open>res_fetched\<close>: done, and the answer is gone.\<close>

inductive res_session :: "'w os \<Rightarrow> 'w dns_resolver \<Rightarrow> bool" for os where
  session_open: "dns_res_open os rc hosts H cache opts w = Some (Inr R, w') \<Longrightarrow> res_session os R"
| session_submit: "res_session os R \<Longrightarrow> dns_res_submit2 os R qname qlen qtype qclass w = Some (R', w') \<Longrightarrow>
    res_session os R'"
| session_step: "res_session os R \<Longrightarrow> f_state (r_stack R ! 0) \<noteq> DNS_R_DONE \<Longrightarrow>
    dns_res_exec_step junk os (R, w) = Some (Inl (R', w')) \<Longrightarrow> res_session os R'"
| session_check: "res_session os R \<Longrightarrow> dns_res_check junk os R w = Some ((R', e), w') \<Longrightarrow> res_session os R'"
| session_fetch: "res_session os R \<Longrightarrow> dns_res_fetch R = Some (R', r) \<Longrightarrow> res_session os R'"
| session_elapsed: "res_session os R \<Longrightarrow> dns_res_elapsed os R w = ((n, R'), w') \<Longrightarrow> res_session os R'"
| session_timeout: "res_session os R \<Longrightarrow> dns_res_timeout os R w = Some ((n, R'), w') \<Longrightarrow> res_session os R'"
| session_clear: "res_session os R \<Longrightarrow> dns_res_clear os R w = Some (R', w') \<Longrightarrow> res_session os R'"
| session_sethints: "res_session os R \<Longrightarrow> res_session os (dns_res_sethints R H)"

definition res_fetched :: "'w dns_resolver \<Rightarrow> bool" where
  "res_fetched R \<longleftrightarrow> length (r_stack R) = DNS_R_MAXDEPTH \<and> r_sp R = 0 \<and>
     f_state (r_stack R ! 0) = DNS_R_DONE \<and> f_answer (r_stack R ! 0) = None"

definition res_ok :: "'w dns_resolver \<Rightarrow> bool" where
  "res_ok R \<longleftrightarrow> res_inv R \<or> res_fetched R"

lemma res_inv_stack: "res_inv R \<Longrightarrow> length (r_stack R) = DNS_R_MAXDEPTH \<and> r_sp R < DNS_R_MAXDEPTH"
  by (simp add: res_inv_def)

lemma res_ok_update [simp]:
  "res_ok (R\<lparr>r_so := so\<rparr>) = res_ok R" "res_ok (R\<lparr>r_elapsed := c\<rparr>) = res_ok R"
  "res_ok (R\<lparr>r_hints := H\<rparr>) = res_ok R"
  by (simp_all add: res_ok_def res_inv_def res_fetched_def)

lemma res_reset_inv: "res_inv (dns_res_reset R)"
  by (simp add: res_inv_def dns_res_reset_def frame_ok_def dns_res_reset_frame_def needs_defs DNS_R_MAXDEPTH_def)

text \<open>Frame 0 is done only when it is the current one.\<close>

lemma res_inv_done:
  assumes "res_inv R" "f_state (r_stack R ! 0) = DNS_R_DONE"
  shows "r_sp R = 0" "f_answer (r_stack R ! 0) \<noteq> None"
proof -
  show "r_sp R = 0"
    using assms by (cases "r_sp R") (auto simp: res_inv_def waits_def dest!: spec [of _ 0])
  then show "f_answer (r_stack R ! 0) \<noteq> None"
    using assms by (auto simp: res_inv_def frame_ok_def needs_answer_def)
qed

lemma dns_res_check_ok:
  assumes "dns_res_check junk os R w = Some ((R', e), w')" "res_ok R"
  shows "res_ok R'"
proof (cases "f_state (r_stack R ! 0) = DNS_R_DONE")
  case True
  then show ?thesis using assms by (auto simp: dns_res_check_def split: Option.bind_splits if_splits)
      (simp_all add: rd_def split: if_splits)
next
  case False
  then have R: "res_inv R" using assms(2) by (simp add: res_ok_def res_fetched_def)
  then have "rd (r_stack R) 0 = Some (r_stack R ! 0)" by (simp add: res_inv_def DNS_R_MAXDEPTH_def)
  then have "dns_res_exec junk os R w = Some ((R', e), w')"
    using assms(1) False by (simp add: dns_res_check_def)
  from dns_res_exec_inv [OF this R] show ?thesis by (simp add: res_ok_def)
qed

lemma dns_res_fetch_ok:
  assumes "dns_res_fetch R = Some (R', r)" "res_ok R"
  shows "res_ok R'"
proof -
  have len: "length (r_stack R) = DNS_R_MAXDEPTH" "0 < DNS_R_MAXDEPTH"
    using assms(2) by (auto simp: res_ok_def res_inv_def res_fetched_def DNS_R_MAXDEPTH_def)
  have F: "rd (r_stack R) 0 = Some (r_stack R ! 0)" using len by simp
  show ?thesis
  proof (cases "f_state (r_stack R ! 0) = DNS_R_DONE \<and> f_answer (r_stack R ! 0) \<noteq> None")
    case False
    then have "dns_res_fetch R = Some (R, Inl DNS_EUNKNOWN) \<or> dns_res_fetch R = Some (R, Inl DNS_EFETCHED)"
      using F by (cases "f_answer (r_stack R ! 0)") (simp_all add: dns_res_fetch_def)
    then have "R' = R" using assms(1) by auto
    then show ?thesis using assms(2) by simp
  next
    case True
    define R1 where "R1 = R\<lparr>r_stack := (r_stack R)[0 := (r_stack R ! 0)\<lparr>f_answer := None\<rparr>]\<rparr>"
    have "dns_res_fetch R = Some (R1, Inr (the (f_answer (r_stack R ! 0))))"
      using True F by (auto simp: dns_res_fetch_def R1_def)
    then have "R' = R1" using assms(1) by simp
    moreover have "r_sp R = 0"
      using assms(2) True res_inv_done(1) by (auto simp: res_ok_def res_fetched_def)
    then have "res_fetched R1" using True len by (simp add: res_fetched_def R1_def)
    ultimately show ?thesis by (simp add: res_ok_def)
  qed
qed

lemma res_session_ok: "res_session os R \<Longrightarrow> res_ok R"
proof (induction rule: res_session.induct)
  case (session_open rc hosts H cache opts w R w')
  then show ?case
    by (auto simp: dns_res_open_def Let_def res_ok_def res_reset_inv
        split: option.splits Option.bind_splits prod.splits)
next
  case (session_submit R qname qlen qtype qclass w R' w')
  then obtain R1 where "R' = R1" "res_inv R1" 
    using res_reset_inv [of R]
    by (auto simp: dns_res_submit2_def Let_def res_inv_def split: Option.bind_splits prod.splits)
  then show ?case by (simp add: res_ok_def)
next
  case (session_step R junk w R' w')
  then show ?case
    using dns_res_exec_step_next by (fastforce simp: res_ok_def res_fetched_def)
next
  case (session_check R junk w R' e w')
  show ?case by (rule dns_res_check_ok [OF session_check(2,3)])
next
  case (session_fetch R R' r)
  show ?case by (rule dns_res_fetch_ok [OF session_fetch(2,3)])
next
  case (session_elapsed R w n R' w')
  then show ?case by (auto simp: dns_res_elapsed_def split: prod.splits)
next
  case (session_timeout R w n R' w')
  then show ?case
    by (auto simp: dns_res_timeout_def Let_def split: Option.bind_splits prod.splits if_splits)
next
  case (session_clear R w R' w')
  then show ?case
    by (auto simp: dns_res_clear_def Let_def split: Option.bind_splits prod.splits if_splits)
next
  case (session_sethints R H)
  then show ?case by (simp add: dns_res_sethints_def)
qed


text \<open>C10: the stack of the resolver never grows past its eight frames and no state works on a
  packet that is not there. In every state of a resolver that is used through its interface, between
  two steps of \<open>dns_res_exec\<close> too: the frames below the current one wait for the frame above
  them; the current frame has the query, the name servers' packet, the answer and the cache its state
  reads; and when it takes up the result of the frame above, that frame has its query and its
  answer. The one exception is the answer of a query that has been fetched.\<close>

theorem dns_res_state_safe:
  assumes "res_session os R"
  shows "length (r_stack R) = 8 \<and> r_sp R < 8 \<and> (\<forall>i. i < r_sp R \<longrightarrow> waits (f_state (r_stack R ! i))) \<and>
    (let F = r_stack R ! r_sp R; st = f_state F in
       (needs_query st \<or> r_sp R > 0 \<longrightarrow> f_query F \<noteq> None) \<and>
       (needs_hints st \<longrightarrow> f_hints F \<noteq> None) \<and>
       (needs_answer st \<longrightarrow> f_answer F \<noteq> None \<or> st = DNS_R_DONE \<and> r_sp R = 0) \<and>
       (needs_cache st \<longrightarrow> r_cache R \<noteq> None) \<and>
       (waits st \<longrightarrow> r_sp R + 1 < 8 \<and> f_query (r_stack R ! (r_sp R + 1)) \<noteq> None \<and>
          f_answer (r_stack R ! (r_sp R + 1)) \<noteq> None))"
proof -
  consider "res_inv R" | "res_fetched R" using res_session_ok [OF assms] by (auto simp: res_ok_def)
  then show ?thesis
  proof cases
    case 1
    then show ?thesis
      by (auto simp: res_inv_def Let_def frame_ok_def above_ok_def DNS_R_MAXDEPTH_def)
  next
    case 2
    then show ?thesis by (simp add: res_fetched_def Let_def DNS_R_MAXDEPTH_def needs_defs)
  qed
qed

text \<open>C24: a check that succeeds leaves an answer to fetch, once: if \<open>dns_res_check\<close> returns no error
  then \<open>dns_res_fetch\<close> gives a packet and the next \<open>dns_res_fetch\<close> gives \<open>DNS_EFETCHED\<close>, unless
  the answer had been fetched before the check.\<close>

theorem dns_res_check_answers:
  assumes "res_session os R" "dns_res_check junk os R w = Some ((R', None), w')"
  shows "case dns_res_fetch R' of
      Some (R2, Inr A) \<Rightarrow> dns_res_fetch R2 = Some (R2, Inl DNS_EFETCHED)
    | Some (R2, Inl e) \<Rightarrow> e = DNS_EFETCHED \<and> R' = R \<and> res_fetched R
    | None \<Rightarrow> False"
proof -
  note ok = res_session_ok [OF assms(1)]
  have F: "rd (r_stack R) 0 = Some (r_stack R ! 0)"
    using ok by (auto simp: res_ok_def res_inv_def res_fetched_def DNS_R_MAXDEPTH_def)
  have fetches: "case dns_res_fetch R' of
      Some (R2, Inr A) \<Rightarrow> dns_res_fetch R2 = Some (R2, Inl DNS_EFETCHED)
    | Some (R2, Inl e) \<Rightarrow> e = DNS_EFETCHED \<and> R' = R \<and> res_fetched R
    | None \<Rightarrow> False"
    if "length (r_stack R') = DNS_R_MAXDEPTH" "f_state (r_stack R' ! 0) = DNS_R_DONE"
      "f_answer (r_stack R' ! 0) \<noteq> None"
    using that by (auto simp: dns_res_fetch_def DNS_R_MAXDEPTH_def)
  show ?thesis
  proof (cases "f_state (r_stack R ! 0) = DNS_R_DONE")
    case True
    then have R': "R' = R" using assms(2) F by (simp add: dns_res_check_def)
    show ?thesis
    proof (cases "res_inv R")
      case inv: True
      have "f_answer (r_stack R ! 0) \<noteq> None" by (rule res_inv_done(2) [OF inv True])
      then show ?thesis using fetches True R' res_inv_stack [OF inv] by simp
    next
      case False
      then have "res_fetched R" using ok by (simp add: res_ok_def)
      then show ?thesis using R' F by (simp add: res_fetched_def dns_res_fetch_def)
    qed
  next
    case False
    then have R: "res_inv R" using ok by (simp add: res_ok_def res_fetched_def)
    have "dns_res_exec junk os R w = Some ((R', None), w')"
      using assms(2) F False by (simp add: dns_res_check_def)
    from dns_res_exec_inv [OF this R] show ?thesis
      using fetches by (simp add: res_inv_def res_ended_def)
  qed
qed


subsection \<open>A resolver without a source of answers\<close>

text \<open>A resolver with an empty \<open>lookup\<close>, on an operating system on which every call succeeds.\<close>

definition quiet_os :: "unit os" where
  "quiet_os =
     \<lparr>os_time = Pair (Some 0), os_random = Pair 1, os_seeds = Pair (\<lambda>k. 1),
      os_socket = (\<lambda>family type. Pair (Inr 3)),
      os_setfd = (\<lambda>fd. Pair None), os_getfl = (\<lambda>fd. Pair (Inr 0)),
      os_setfl = (\<lambda>fd flags. Pair None), os_bind = (\<lambda>fd sa. Pair None),
      os_connect = (\<lambda>fd sa. Pair None), os_send = (\<lambda>fd xs. Pair (Inr (length xs))),
      os_recv = (\<lambda>fd n. Pair (Inl DNS_EAGAIN)),
      os_peer = (\<lambda>fd. Pair None), os_close = (\<lambda>fd w. w), os_select = (\<lambda>fd events timeout w. w)\<rparr>"

definition quiet_conf :: dns_resolv_conf where
  "quiet_conf = \<lparr>rc_nameserver = [], rc_search = [], rc_lookup = replicate LOOKUPS 0, rc_edns0 = False,
     rc_ndots = 1, rc_timeout = 5, rc_attempts = 2, rc_rotate = False, rc_recurse = False,
     rc_smart = False, rc_tcp = DNS_RESCONF_TCP_ENABLE, rc_iface = Sin 0 0\<rparr>"

text \<open>The resolver between \<open>dns_res_submit\<close> for the name \<open>a.\<close> and the first \<open>dns_res_check\<close>.\<close>

lemma quiet_so_init:
  "\<exists>p. dns_so_init quiet_os (Some (Sin 0 0)) 0 None () =
     Some ((so_initializer\<lparr>so_type := 0, so_local := Sin 0 0, so_udp := 3, so_qids := p\<rparr>, None), ())"
proof -
  obtain p where p: "dns_k_permutor_init 1 65535 [1, 1, 1, 1] = Some p"
    using dns_k_permutor_init_wf [of 1 65535 "[1, 1, 1, 1]"] by auto
  have "dns_socket_ports (Suc 6) quiet_os 3 (Sin 0 0) () = Some (True, ())"
    unfolding dns_socket_ports.simps(2) by (simp add: quiet_os_def sa_bind_def dns_sa_len_def dns_af_len_def c_defs)
  then have "dns_socket_open quiet_os (Sin 0 0) SOCK_DGRAM () = Some (Inr 3, ())"
    by (simp add: dns_socket_open_def dns_socket_flags_def c_defs quiet_os_def)
  moreover have "fst (os_randoms 4 quiet_os ()) = [1, 1, 1, 1]"
    by (simp add: quiet_os_def eval_nat_numeral)
  ultimately have "dns_so_init quiet_os (Some (Sin 0 0)) 0 None () =
      Some ((so_initializer\<lparr>so_type := 0, so_local := Sin 0 0, so_udp := 3, so_qids := p\<rparr>, None), ())"
    using p by (simp add: dns_so_init_def Let_def dns_sa_len_def dns_af_len_def c_defs case_prod_unfold)
  then show ?thesis ..
qed

lemma quiet_open:
  obtains R where
    "dns_res_open quiet_os (Some quiet_conf) (Some []) (Some []) None None () = Some (Inr (dns_res_reset R), ())"
    "r_resconf R = quiet_conf" "r_cache R = None"
proof -
  obtain p where "dns_so_init quiet_os (Some (Sin 0 0)) 0 None () =
      Some ((so_initializer\<lparr>so_type := 0, so_local := Sin 0 0, so_udp := 3, so_qids := p\<rparr>, None), ())"
    using quiet_so_init ..
  then show thesis
    by (intro that [of "\<lparr>r_so = so_initializer\<lparr>so_type := 0, so_local := Sin 0 0, so_udp := 3, so_qids := p\<rparr>,
         r_resconf = quiet_conf, r_hosts = [],
         r_hints = [], r_cache = None, r_qname = NAMEBUF, r_qlen = 0, r_qtype = 0, r_qclass = 0,
         r_elapsed = clock0, r_search = 0, r_smart = rr_i0, r_nodata = None, r_sp = 0,
         r_stack = replicate DNS_R_MAXDEPTH dns_res_reset_frame\<rparr>"])
      (simp_all add: dns_res_open_def quiet_conf_def dns_res_tcp2type_def Let_def)
qed


definition quiet_query :: "unit dns_resolver \<Rightarrow> unit dns_resolver" where
  "quiet_query R = (dns_res_reset R)\<lparr>r_qname := [97, 46, 0] @ replicate 253 0, r_qlen := 2,
     r_qtype := 1, r_qclass := 1\<rparr>"

lemma quiet_submit:
  "dns_res_submit2 quiet_os R [97, 46] 2 1 1 () = Some (quiet_query R, ())"
proof -
  have "replicate 254 (0 :: byte) = 0 # replicate 253 0"
    using replicate_Suc [of 253 "0 :: byte"] by simp
  then show ?thesis
    by (simp add: dns_res_submit2_def quiet_query_def dns_res_reset_def NAMEBUF_def dns_begin_def quiet_os_def
        clock0_def dns_d_init_def c_defs mem_defs)
qed

text \<open>The answer of a resolver that has none.\<close>

lemma servfail_packet:
  assumes "wf_packet P" "hd (p_dict P) = 0" "hd_qdcount P = 0" "p_end P = 12"
    "dns_p_count P (later_sections DNS_S_QD) = 0"
  shows "wf_packet (hd_set_servfail P)" "hd (p_dict (hd_set_servfail P)) = 0"
    "hd_qdcount (hd_set_servfail P) = 0" "p_end (hd_set_servfail P) = 12"
    "dns_p_count (hd_set_servfail P) (later_sections DNS_S_QD) = 0"
    "p_size (hd_set_servfail P) = p_size P"
  using assms
  by (auto simp: hd_set_servfail_def hd_set_qr_def Let_def wf_packet_def hd16_def
      hd_qdcount_def hd_ancount_def hd_nscount_def hd_arcount_def dns_p_count_def later_sections_def c_defs)

lemma quiet_steps:
  assumes "r_resconf R = quiet_conf" "r_cache R = None"
  shows "\<exists>R' A. dns_res_exec junk quiet_os (quiet_query R) () = Some ((R', None), ()) \<and>
    f_answer (r_stack R' ! 0) = Some A \<and> question_packet A [[97]] 1 1"
proof -
  let ?F = "\<lambda>st. dns_res_reset_frame\<lparr>f_state := st\<rparr>" and ?R = "quiet_query R"
  let ?at = "\<lambda>st. res_put ?R (?F st)"
  have R: "r_stack ?R = replicate 8 dns_res_reset_frame" "r_sp ?R = 0" "r_nodata ?R = None"
      "r_resconf ?R = quiet_conf" "r_qname ?R = [97, 46] @ 0 # replicate 253 0" "r_qtype ?R = 1" "r_qclass ?R = 1"
    using assms(1) by (simp_all add: quiet_query_def dns_res_reset_def c_defs)
  obtain Q where Q: "dns_p_make DNS_P_QBUFSIZ = Some Q"
    "wf_packet Q" "hd (p_dict Q) = 0" "p_end Q = 12" "p_size Q = DNS_P_QBUFSIZ"
    "dns_p_count Q (later_sections DNS_S_QD) = 0" "hd_qdcount Q = 0"
    by (rule fresh_packet [of DNS_P_QBUFSIZ "later_sections DNS_S_QD"]) (auto simp: dns_p_calcsize_def c_defs)
  note f = servfail_packet [OF Q(2,3,7,4,6)]
  obtain A where A: "dns_p_push (hd_set_servfail Q) DNS_S_QD ([97, 46] @ 0 # replicate 253 0) 2 1 1 0 junk = Some (A, None)"
      "question_packet A [[97]] 1 1"
    using dns_p_push_question [OF f(1-5) names_labels_example, where src = "[97, 46] @ 0 # replicate 253 0"
        and len = 2 and type = 1 and klass = 1 and ttl = 0 and any = junk] f(6) Q(5)
    by (auto simp: name_wire_length dns_p_calcsize_def c_defs)
  have n: "c_strlen (r_qname ?R) = Some 2" using R(5) by simp
  have "dns_res_exec_step junk quiet_os (?R, ()) = Some (Inl (?at DNS_R_GLUE, ()))"
    using R by (simp add: dns_res_exec_step_def res_goto_def dns_res_reset_frame_def)
  moreover have "dns_res_exec_step junk quiet_os (?at DNS_R_GLUE, ()) = Some (Inl (?at DNS_R_SWITCH, ()))"
    using R by (simp add: dns_res_exec_step_def res_glue_def res_goto_def res_put_def)
  moreover have "dns_res_exec_step junk quiet_os (?at DNS_R_SWITCH, ()) = Some (Inl (?at DNS_R_SERVFAIL, ()))"
    using R by (simp add: dns_res_exec_step_def res_switch_def res_goto_def res_put_def c_while_stop
      res_lookup_step_def quiet_conf_def c_defs)
  moreover have "dns_res_exec_step junk quiet_os (?at DNS_R_SERVFAIL, ()) =
      Some (Inl (res_put ?R (dns_res_reset_frame\<lparr>f_answer := Some A, f_state := DNS_R_DONE\<rparr>), ()))"
    using R Q(1) A(1) n
    by (simp add: dns_res_exec_step_def res_servfail_def res_goto_def res_put_def Let_def del: c_strlen.simps)
  moreover have "dns_res_exec_step junk quiet_os (res_put ?R (dns_res_reset_frame\<lparr>f_answer := Some A, f_state := DNS_R_DONE\<rparr>), ()) =
      Some (Inr ((res_put ?R (dns_res_reset_frame\<lparr>f_answer := Some A, f_state := DNS_R_DONE\<rparr>), None), ()))"
    using R by (simp add: dns_res_exec_step_def res_done_def res_return_def res_put_def)
  ultimately have "dns_res_exec junk quiet_os ?R () =
      Some ((res_put ?R (dns_res_reset_frame\<lparr>f_answer := Some A, f_state := DNS_R_DONE\<rparr>), None), ())"
    by (simp add: dns_res_exec_def c_while_next c_while_stop)
  then show ?thesis using A(2) R by (simp add: res_put_def)
qed

lemma quiet_session:
  obtains R where "res_session quiet_os (quiet_query R)" "r_resconf R = quiet_conf" "r_cache R = None"
proof -
  obtain R where R:
    "dns_res_open quiet_os (Some quiet_conf) (Some []) (Some []) None None () = Some (Inr (dns_res_reset R), ())"
    "r_resconf R = quiet_conf" "r_cache R = None" by (rule quiet_open)
  have "quiet_query (dns_res_reset R) = quiet_query R" by (simp add: quiet_query_def dns_res_reset_def dns_so_reset_def)
  then have "res_session quiet_os (quiet_query R)"
    using session_submit [OF session_open [OF R(1)] quiet_submit] by simp
  then show thesis using R(2,3) by (rule that)
qed

theorem dns_res_state_safe_witness:
  "\<exists>R. res_session quiet_os R \<and> r_qlen R = 2 \<and> length (r_stack R) = 8 \<and> r_sp R < 8"
proof -
  obtain R where R: "res_session quiet_os (quiet_query R)" by (rule quiet_session)
  moreover have "r_qlen (quiet_query R) = 2" by (simp add: quiet_query_def)
  ultimately show ?thesis using dns_res_state_safe [OF R] by auto
qed

theorem dns_res_check_answers_witness:
  "\<exists>R R' R2 A. res_session quiet_os R \<and>
     dns_res_check dns_any_init quiet_os R () = Some ((R', None), ()) \<and>
     dns_res_fetch R' = Some (R2, Inr A) \<and> dns_res_fetch R2 = Some (R2, Inl DNS_EFETCHED)"
proof -
  obtain R where R: "res_session quiet_os (quiet_query R)" "r_resconf R = quiet_conf" "r_cache R = None"
    by (rule quiet_session)
  obtain R' where R': "dns_res_exec dns_any_init quiet_os (quiet_query R) () = Some ((R', None), ())"
    using quiet_steps [OF R(2,3)] by blast
  have F: "rd (r_stack (quiet_query R)) 0 = Some dns_res_reset_frame"
    by (simp add: quiet_query_def dns_res_reset_def DNS_R_MAXDEPTH_def)
  have "dns_res_check dns_any_init quiet_os (quiet_query R) () = Some ((R', None), ())"
    using R' F by (simp add: dns_res_check_def dns_res_reset_frame_def)
  moreover have "\<not> res_fetched (quiet_query R)"
    by (simp add: res_fetched_def quiet_query_def dns_res_reset_def dns_res_reset_frame_def DNS_R_MAXDEPTH_def)
  ultimately show ?thesis
    using dns_res_check_answers [OF R(1), of dns_any_init "()" R' "()"] R(1)
    by (auto split: option.splits sum.splits)
qed

end
