(* ===== verification/Progress.thy ===== *)
theory Progress
  imports Exchange
begin

section \<open>The progress of an exchange\<close>

text \<open>
  The states of a socket in their order: no step of \<open>dns_so_check\<close> goes back, and when it has to
  wait, the descriptor and the events it reports are those of the call it waits for.
\<close>

subsection \<open>The order of the states\<close>

fun so_rank :: "so_state \<Rightarrow> nat" where
  "so_rank DNS_SO_NONE = 0"
| "so_rank DNS_SO_UDP_INIT = 1"
| "so_rank DNS_SO_UDP_CONN = 2"
| "so_rank DNS_SO_UDP_SEND = 3"
| "so_rank DNS_SO_UDP_RECV = 4"
| "so_rank DNS_SO_UDP_DONE = 5"
| "so_rank DNS_SO_TCP_INIT = 6"
| "so_rank DNS_SO_TCP_CONN = 7"
| "so_rank DNS_SO_TCP_SEND = 8"
| "so_rank DNS_SO_TCP_RECV = 9"
| "so_rank DNS_SO_TCP_DONE = 10"

lemma so_rank_inj: "so_rank s = so_rank t \<Longrightarrow> s = t"
  by (cases s; cases t) simp_all

instantiation so_state :: linorder
begin

definition less_eq_so_state :: "so_state \<Rightarrow> so_state \<Rightarrow> bool" where
  "less_eq_so_state s t \<longleftrightarrow> so_rank s \<le> so_rank t"

definition less_so_state :: "so_state \<Rightarrow> so_state \<Rightarrow> bool" where
  "less_so_state s t \<longleftrightarrow> so_rank s < so_rank t"

instance
  by standard (auto simp: less_eq_so_state_def less_so_state_def intro: so_rank_inj)

end

subsection \<open>What a call leaves\<close>

text \<open>The errors of a call that would block, which \<open>dns_so_check\<close> reports as \<open>DNS_EAGAIN\<close>.\<close>

definition would_block :: "dns_error \<Rightarrow> bool" where
  "would_block e \<longleftrightarrow> e = DNS_EAGAIN \<or> e = DNS_EINPROGRESS \<or> e = DNS_EALREADY"

text \<open>The calls that make and configure a socket, and the callback that closes one, do not block.\<close>

definition calm :: "'w os \<Rightarrow> 'w dns_options \<Rightarrow> bool" where
  "calm os opts \<longleftrightarrow>
     (\<forall>family type w e w'. os_socket os family type w = (Inl e, w') \<longrightarrow> \<not> would_block e) \<and>
     (\<forall>fd w e w'. os_setfd os fd w = (Some e, w') \<longrightarrow> \<not> would_block e) \<and>
     (\<forall>fd w e w'. os_getfl os fd w = (Inl e, w') \<longrightarrow> \<not> would_block e) \<and>
     (\<forall>fd flags w e w'. os_setfl os fd flags w = (Some e, w') \<longrightarrow> \<not> would_block e) \<and>
     (\<forall>cb fd w e fd' w'. o_closefd opts = Some cb \<longrightarrow> cb fd w = ((Some e, fd'), w') \<longrightarrow> \<not> would_block e)"

definition waiting :: "so_state \<Rightarrow> bool" where
  "waiting s \<longleftrightarrow> s = DNS_SO_UDP_CONN \<or> s = DNS_SO_UDP_SEND \<or> s = DNS_SO_UDP_RECV \<or>
     s = DNS_SO_TCP_CONN \<or> s = DNS_SO_TCP_SEND \<or> s = DNS_SO_TCP_RECV"

lemma dns_so_closefd_same:
  "dns_so_closefd so fd w = ((so', fd', e), w') \<Longrightarrow>
     so_state so' = so_state so \<and> so_opts so' = so_opts so \<and> so_type so' = so_type so"
  by (auto simp: dns_so_closefd_def split: if_splits option.splits prod.splits)

lemma dns_so_closefd_calm:
  "dns_so_closefd so fd w = ((so', fd', Some e), w') \<Longrightarrow> calm os (so_opts so) \<Longrightarrow> \<not> would_block e"
  by (fastforce simp: dns_so_closefd_def calm_def split: if_splits option.splits prod.splits)

lemma dns_socket_open_calm:
  assumes "dns_socket_open os sa SOCK_STREAM w = Some (Inl e, w')" "calm os opts"
  shows "\<not> would_block e"
  using assms
  by (fastforce simp: dns_socket_open_def dns_socket_flags_def dns_socket_fail_def calm_def Let_def
      c_defs split: sum.splits option.splits prod.splits if_splits Option.bind_splits)

lemma dns_d_expand_error:
  assumes "dns_d_expand dst lim src P = Some (dst', Inl e)"
  shows "e = DNS_EILLEGAL"
proof -
  have "(\<lambda>(dst, r). \<forall>e. r = Inl e \<longrightarrow> e = DNS_EILLEGAL) (dst', Inl e :: dns_error + nat)"
    by (rule c_while_invariant [where I = "\<lambda>_. True", OF assms [unfolded dns_d_expand_def]])
      (auto simp: dns_d_expand_step_def dns_d_expand_fail_def Let_def
        split: if_splits Option.bind_splits prod.splits)
  then show ?thesis by simp
qed

lemma dns_so_verify_error:
  "dns_so_verify so P = Some (Some e) \<Longrightarrow> e = DNS_EUNKNOWN \<or> e = DNS_EILLEGAL"
  using dns_d_expand_error
  by (fastforce simp: dns_so_verify_def split: if_splits Option.bind_splits prod.splits sum.splits)

lemma tcp_send_forward:
  assumes "dns_so_tcp_send os so w = Some ((so', e), w')"
  shows "so_state so' = so_state so \<and> so_opts so' = so_opts so"
proof -
  have "(\<lambda>((so', e), w'). so_state so' = so_state so \<and> so_opts so' = so_opts so) ((so', e), w')"
    by (rule c_while_invariant [where I = "\<lambda>(so', w). so_state so' = so_state so \<and> so_opts so' = so_opts so",
          OF assms [unfolded dns_so_tcp_send_def]])
      (auto simp: dns_so_tcp_send_step_def Let_def split: if_splits Option.bind_splits prod.splits sum.splits)
  then show ?thesis by simp
qed

lemma tcp_recv_forward:
  assumes "dns_so_tcp_recv os so w = Some ((so', e), w')"
  shows "so_state so' = so_state so \<and> so_opts so' = so_opts so"
proof -
  have "(\<lambda>((so', e), w'). so_state so' = so_state so \<and> so_opts so' = so_opts so) ((so', e), w')"
    by (rule c_while_invariant [where I = "\<lambda>(so', n, w). so_state so' = so_state so \<and> so_opts so' = so_opts so",
          OF assms [unfolded dns_so_tcp_recv_def]])
      (auto simp: dns_so_tcp_recv_step_def so_receive_def dns_so_newanswer_def Let_def
        split: if_splits Option.bind_splits prod.splits sum.splits)
  then show ?thesis by simp
qed

subsection \<open>The steps\<close>

definition forward :: "'w os \<Rightarrow> 'w dns_socket \<Rightarrow> 'w dns_socket \<times> 'w + 'w so_result \<Rightarrow> bool" where
  "forward os so x = (case x of
     Inl (so', w) \<Rightarrow> so_state so \<le> so_state so' \<and> so_opts so' = so_opts so
   | Inr ((so', e), w) \<Rightarrow> so_state so \<le> so_state so' \<and> so_opts so' = so_opts so \<and>
       (e = Some DNS_EAGAIN \<longrightarrow> calm os (so_opts so) \<longrightarrow> waiting (so_state so')))"

lemma so_check_error_forward:
  assumes "so_check_error so' error w = Some x" "so_state so \<le> so_state so'" "so_opts so' = so_opts so"
    and "waiting (so_state so') \<or> (calm os (so_opts so) \<longrightarrow> \<not> would_block error)"
  shows "forward os so x"
  using assms by (auto simp: so_check_error_def forward_def would_block_def split: if_splits)

lemma closetcp_forward:
  "so_closetcp so w = ((so', e), w') \<Longrightarrow>
     so_state so' = so_state so \<and> so_opts so' = so_opts so \<and>
     (\<forall>error. e = Some error \<longrightarrow> calm os (so_opts so) \<longrightarrow> \<not> would_block error)"
  using dns_so_closefd_calm dns_so_closefd_same
  by (fastforce simp: so_closetcp_def split: prod.splits)

lemma so_tcp_init_forward:
  assumes "so_tcp_init os so w = Some x" "so_state so = DNS_SO_TCP_INIT"
  shows "forward os so x"
proof -
  obtain keep w1 where keep: "dns_so_tcp_keep os so w = Some (keep, w1)"
    using assms(1) by (auto simp: so_tcp_init_def split: Option.bind_splits)
  show ?thesis
  proof (cases keep)
    case True
    then show ?thesis using assms keep by (auto simp: so_tcp_init_def forward_def less_eq_so_state_def)
  next
    case False
    obtain so1 e w2 where close: "so_closetcp so w1 = ((so1, e), w2)" by (metis prod.collapse)
    note same = closetcp_forward [OF close, of os]
    show ?thesis
    proof (cases e)
      case (Some error)
      then have "so_check_error so1 error w2 = Some x" using assms(1) keep False close by (simp add: so_tcp_init_def)
      then show ?thesis by (rule so_check_error_forward) (use same Some in auto)
    next
      case None
      then obtain r w3 where r: "dns_socket_open os (so_local so1) SOCK_STREAM w2 = Some (r, w3)"
        and x: "(case r of Inl error \<Rightarrow> so_check_error (so1\<lparr>so_tcp := -1\<rparr>) error w3
          | Inr fd \<Rightarrow> Some (Inl (so1\<lparr>so_tcp := fd, so_state := DNS_SO_TCP_CONN\<rparr>, w3))) = Some x"
        using assms(1) keep False close by (auto simp: so_tcp_init_def split: Option.bind_splits)
      show ?thesis
      proof (cases r)
        case (Inl error)
        then have "so_check_error (so1\<lparr>so_tcp := -1\<rparr>) error w3 = Some x" using x by simp
        then show ?thesis
          by (rule so_check_error_forward) (use same dns_socket_open_calm [OF r [unfolded Inl]] in auto)
      next
        case (Inr fd)
        then show ?thesis using x same assms(2) by (auto simp: forward_def less_eq_so_state_def)
      qed
    qed
  qed
qed

lemma so_tcp_done_forward:
  assumes "so_tcp_done so w = Some x" "so_state so = DNS_SO_TCP_DONE"
  shows "forward os so x"
proof -
  obtain so1 e w1 where close:
    "(if so_type so \<noteq> SOCK_STREAM then so_closetcp so w else ((so, None), w)) = ((so1, e), w1)"
    by (metis prod.collapse)
  have same: "so_state so1 = so_state so" "so_opts so1 = so_opts so"
      "\<And>error. e = Some error \<Longrightarrow> calm os (so_opts so) \<Longrightarrow> \<not> would_block error"
    using close closetcp_forward [of so w so1 e w1 os] by (auto split: if_splits)
  show ?thesis
  proof (cases e)
    case (Some error)
    then have "so_check_error so1 error w1 = Some x" using assms(1) close by (simp add: so_tcp_done_def)
    then show ?thesis by (rule so_check_error_forward) (use same Some in auto)
  next
    case None
    then obtain A where A: "so_answer so1 = Some A"
        "(if p_end A < 12 then Some (Inr ((so1, Some DNS_EILLEGAL), w1))
          else do {
            e \<leftarrow> dns_so_verify so1 A;
            (case e of
               Some error \<Rightarrow> so_check_error so1 error w1
             | None \<Rightarrow> Some (Inr ((so1, None), w1))) }) = Some x"
      using assms(1) close by (auto simp: so_tcp_done_def split: Option.bind_splits)
    then show ?thesis
      using same(1,2) dns_so_verify_error [of so1 A]
      by (auto simp: forward_def so_check_error_def split: if_splits Option.bind_splits option.splits)
  qed
qed

lemma so_tcp_io_forward:
  assumes "so_tcp_io io next so w = Some x" "so_state so \<le> next" "waiting (so_state so)"
    and "\<And>so' e w'. io so w = Some ((so', e), w') \<Longrightarrow> so_state so' = so_state so \<and> so_opts so' = so_opts so"
  shows "forward os so x"
proof -
  obtain so1 e w1 where io: "io so w = Some ((so1, e), w1)"
    using assms(1) by (auto simp: so_tcp_io_def split: Option.bind_splits)
  show ?thesis
  proof (cases e)
    case (Some error)
    then have "so_check_error so1 error w1 = Some x" using assms(1) io by (simp add: so_tcp_io_def)
    then show ?thesis by (rule so_check_error_forward) (use assms(3) assms(4) [OF io] in auto)
  next
    case None
    then show ?thesis
      using assms(1,2) io assms(4) [OF io] by (auto simp: so_tcp_io_def forward_def)
  qed
qed

lemma dns_so_check_step_forward:
  assumes "dns_so_check_step os (so, w) = Some x"
  shows "forward os so x"
proof (cases "so_state so")
  case DNS_SO_TCP_INIT
  then show ?thesis using assms by (intro so_tcp_init_forward) (simp_all add: dns_so_check_step_def)
next
  case DNS_SO_TCP_SEND
  then have "so_tcp_io (dns_so_tcp_send os) DNS_SO_TCP_RECV so w = Some x"
    using assms by (simp add: dns_so_check_step_def)
  then show ?thesis
    by (rule so_tcp_io_forward)
      (use DNS_SO_TCP_SEND in \<open>auto simp: less_eq_so_state_def waiting_def dest: tcp_send_forward\<close>)
next
  case DNS_SO_TCP_RECV
  then have "so_tcp_io (dns_so_tcp_recv os) DNS_SO_TCP_DONE so w = Some x"
    using assms by (simp add: dns_so_check_step_def)
  then show ?thesis
    by (rule so_tcp_io_forward)
      (use DNS_SO_TCP_RECV in \<open>auto simp: less_eq_so_state_def waiting_def dest: tcp_recv_forward\<close>)
next
  case DNS_SO_TCP_DONE
  then show ?thesis using assms by (intro so_tcp_done_forward) (simp_all add: dns_so_check_step_def)
qed (use assms in \<open>auto simp: forward_def dns_so_check_step_def so_udp_conn_def so_udp_send_def so_udp_recv_def
  so_udp_done_def so_tcp_conn_def so_check_error_def less_eq_so_state_def waiting_def Let_def
  split: Option.bind_splits option.splits prod.splits if_splits sum.splits\<close>)


text \<open>C37: an exchange goes forward. No call of \<open>dns_so_check\<close>, whatever the network does and however
  the call ends, leaves the socket in an earlier state than it found it in, or with other options.\<close>

theorem dns_so_check_forward:
  assumes "dns_so_check os so w = Some ((so', e), w')"
  shows "so_state so \<le> so_state so' \<and> so_opts so' = so_opts so"
proof -
  have "(\<lambda>((so', e), w'). so_state so \<le> so_state so' \<and> so_opts so' = so_opts so) ((so', e), w')"
    by (rule c_while_invariant [where I = "\<lambda>(so', w). so_state so \<le> so_state so' \<and> so_opts so' = so_opts so",
          OF assms [unfolded dns_so_check_def]])
      (fastforce dest: dns_so_check_step_forward simp: forward_def intro: order_trans split: prod.splits)+
  then show ?thesis by simp
qed

theorem dns_so_check_forward_witness:
  "\<exists>so. dns_so_check script_os script_socket script_replies = Some ((so, None), []) \<and>
     DNS_SO_UDP_INIT \<le> so_state so"
proof -
  obtain so where so: "dns_so_check script_os script_socket script_replies = Some ((so, None), [])"
    using script_check by blast
  from dns_so_check_forward [OF so] so show ?thesis
    by (auto simp: script_socket_def)
qed

text \<open>C39: a socket that has to wait can be waited for. When \<open>dns_so_check\<close> returns \<open>DNS_EAGAIN\<close>, the
  socket is in one of the six states that stand before a call on a descriptor, \<open>dns_so_pollfd\<close> is
  that descriptor and \<open>dns_so_events2\<close> the direction of that call, so \<open>dns_so_poll\<close> sleeps until the call
  can go on. This needs an operating system whose calls to make and configure a socket, and a
  callback to close one, do not themselves ask to be called again.\<close>

theorem dns_so_check_again:
  assumes "dns_so_check os so w = Some ((so', Some DNS_EAGAIN), w')" "calm os (so_opts so)"
  shows "(so_state so' \<in> {DNS_SO_UDP_CONN, DNS_SO_UDP_SEND} \<and>
       dns_so_pollfd so' = so_udp so' \<and> dns_so_events2 so' DNS_SYSPOLL = DNS_POLLOUT) \<or>
    (so_state so' = DNS_SO_UDP_RECV \<and>
       dns_so_pollfd so' = so_udp so' \<and> dns_so_events2 so' DNS_SYSPOLL = DNS_POLLIN) \<or>
    (so_state so' \<in> {DNS_SO_TCP_CONN, DNS_SO_TCP_SEND} \<and>
       dns_so_pollfd so' = so_tcp so' \<and> dns_so_events2 so' DNS_SYSPOLL = DNS_POLLOUT) \<or>
    (so_state so' = DNS_SO_TCP_RECV \<and>
       dns_so_pollfd so' = so_tcp so' \<and> dns_so_events2 so' DNS_SYSPOLL = DNS_POLLIN)"
proof -
  have "(\<lambda>((so', e), w'). e = Some DNS_EAGAIN \<longrightarrow> waiting (so_state so')) ((so', Some DNS_EAGAIN), w')"
    by (rule c_while_invariant [where I = "\<lambda>(so', w). so_opts so' = so_opts so",
          OF assms(1) [unfolded dns_so_check_def]])
      (use assms(2) in \<open>fastforce dest: dns_so_check_step_forward simp: forward_def split: prod.splits\<close>)+
  then show ?thesis
    by (auto simp: waiting_def dns_so_pollfd_def dns_so_events2_def)
qed

theorem dns_so_check_again_witness:
  "\<exists>so. dns_so_check script_os script_socket [] = Some ((so, Some DNS_EAGAIN), []) \<and>
     dns_so_pollfd so = so_udp so \<and> dns_so_events2 so DNS_SYSPOLL = DNS_POLLIN"
proof -
  have "\<exists>so. dns_so_check script_os script_socket [] = Some ((so, Some DNS_EAGAIN), []) \<and> so_state so = DNS_SO_UDP_RECV"
    by (simp add: dns_so_check_def c_while.simps dns_so_check_step_def script_socket_def so_udp_conn_def
       script_os_def dns_sa_len_def dns_af_len_def c_defs so_udp_send_def so_udp_recv_def
       Let_def so_initializer_def raw_packet_def so_check_error_def)
  then obtain so where so: "dns_so_check script_os script_socket [] = Some ((so, Some DNS_EAGAIN), [])"
    "so_state so = DNS_SO_UDP_RECV" by blast
  have "calm script_os (so_opts script_socket)"
    by (simp add: calm_def script_os_def script_socket_def so_initializer_def dns_opts0_def)
  from dns_so_check_again [OF so(1) this] so show ?thesis by auto
qed

text \<open>C38: the types of a socket's fields are kept. In every state of an exchange with a readable query, the
  buffer of the name has its 256 bytes, the identifier sixteen bits, the two bytes before the answer
  are there, and the answer, if there is one, has the allocation its \<open>size\<close> says, at least
  \<open>DNS_SO_MINBUF\<close> bytes, with its end and the length announced over TCP inside.\<close>

theorem dns_so_session_typed:
  assumes "so_session os Q so" "readable Q"
  shows "length (so_pre so) = 2 \<and> length (so_qname so) = 256 \<and> so_qid so < 65536 \<and>
    (case so_answer so of None \<Rightarrow> True
     | Some A \<Rightarrow> length (p_data A) = p_size A \<and> 768 \<le> p_size A \<and> p_size A < 65536 \<and>
         p_end A \<le> p_size A \<and> so_alen so \<le> p_size A)"
  using session_invariant [OF assms]
  by (auto simp: session_inv_def so_inv_def wf_socket_def wf_answer_def c_defs split: option.splits)

theorem dns_so_session_typed_witness:
  "\<exists>so A. dns_so_check script_os script_socket script_replies = Some ((so, None), []) \<and>
     so_answer so = Some A \<and> length (p_data A) = p_size A \<and> 768 \<le> p_size A"
proof -
  obtain so A where so: "dns_so_check script_os script_socket script_replies = Some ((so, None), [])"
    "so_answer so = Some A"
    using script_check by blast
  have Q: "readable (raw_packet (script_question 18 1 97))" by (rule raw_packet_readable) simp_all
  from dns_so_session_typed [OF session_check [OF session_submit [OF script_submit] so(1)] Q] so
  show ?thesis by auto
qed

end
