(* ===== verification/Iteration.thy ===== *)
theory Iteration
  imports Question
begin

unbundle bit_operations_syntax

section \<open>What an iteration visits\<close>

text \<open>
  A loop over the records of a packet, without a sort function or with \<open>dns_rr_i_packet\<close>, is a
  fold over the list of its records that match, in the order of the packet.
\<close>

subsection \<open>The records of a packet\<close>

text \<open>The record with index \<open>k\<close>, if there is one and it parses.\<close>

definition record_at :: "dns_packet \<Rightarrow> nat \<Rightarrow> dns_rr option" where
  "record_at P k =
     (if rr_pos P k < p_end P
      then (case dns_rr_parse rr0 (rr_pos P k) P of
          Some (rr, None) \<Rightarrow> Some (rr\<lparr>rr_section := section_of P k\<rparr>)
        | _ \<Rightarrow> None)
      else None)"

definition visits :: "dns_any \<Rightarrow> dns_rr_i \<Rightarrow> dns_packet \<Rightarrow> nat \<Rightarrow> dns_rr list" where
  "visits junk i P k =
     (case record_at P k of
        None \<Rightarrow> []
      | Some rr \<Rightarrow> if dns_rr_i_match junk rr i P = Some True then [rr] else [])"

definition records_from :: "dns_any \<Rightarrow> dns_rr_i \<Rightarrow> dns_packet \<Rightarrow> nat \<Rightarrow> dns_rr list" where
  "records_from junk i P k = concat (map (visits junk i P) [k ..< p_end P])"

text \<open>All records that match. A packet has fewer records than bytes.\<close>

definition records :: "dns_any \<Rightarrow> dns_rr_i \<Rightarrow> dns_packet \<Rightarrow> dns_rr list" where
  "records junk i P = records_from junk i P 0"

text \<open>No match runs into a name that cannot be expanded.\<close>

definition decided :: "dns_any \<Rightarrow> dns_rr_i \<Rightarrow> dns_packet \<Rightarrow> bool" where
  "decided junk i P \<longleftrightarrow>
     (\<forall>k. case record_at P k of None \<Rightarrow> True | Some rr \<Rightarrow> dns_rr_i_match junk rr i P \<noteq> None)"

fun fold_records :: "(dns_rr \<Rightarrow> 's \<Rightarrow> ('s + 'r) option) \<Rightarrow> dns_rr list \<Rightarrow> 's \<Rightarrow> ('s + 'r) option" where
  "fold_records body [] s = Some (Inl s)"
| "fold_records body (rr # rrs) s = do {
     r \<leftarrow> body rr s;
     (case r of Inl s \<Rightarrow> fold_records body rrs s | Inr r \<Rightarrow> Some (Inr r)) }"

lemma records_from_step:
  assumes "k < p_end P"
  shows "records_from junk i P k = visits junk i P k @ records_from junk i P (Suc k)"
  using assms by (simp add: records_from_def upt_conv_Cons)

lemma visits_end: "p_end P \<le> rr_pos P k \<Longrightarrow> visits junk i P k = []"
  by (simp add: visits_def record_at_def)

lemma records_from_end:
  assumes "readable P" "p_end P \<le> rr_pos P k"
  shows "records_from junk i P k = []"
proof -
  have "visits junk i P j = []" if "k \<le> j" for j
    using visits_end [of P j] rr_pos_mono [OF assms(1) that] assms(2) by (meson order_trans)
  then show ?thesis by (simp add: records_from_def)
qed

lemma rr_pos_index: "readable P \<Longrightarrow> rr_pos P k < p_end P \<Longrightarrow> k < p_end P"
  using rr_pos_ge [of P k] by simp

subsection \<open>Finding the next record\<close>

text \<open>A packet whose memoised bounds, if it has any, are its own.\<close>

definition memo_ok :: "dns_packet \<Rightarrow> bool" where
  "memo_ok P \<longleftrightarrow> (\<forall>k. rr_pos P k < p_end P \<longrightarrow> dns_rr_section (rr_pos P k) P = Some (section_of P k))"

lemma record_parse:
  assumes "readable P" "rr_pos P k < p_end P"
  shows "\<exists>rr e. dns_rr_parse rr0 (rr_pos P k) P = Some (rr, e) \<and>
    record_at P k = (case e of None \<Rightarrow> Some (rr\<lparr>rr_section := section_of P k\<rparr>) | Some _ \<Rightarrow> None)"
  using dns_rr_parse_returns [OF assms(1), of rr0 "rr_pos P k"] assms(2)
  by (auto simp: record_at_def split: option.splits)

lemma record_at_pos: "record_at P k = Some rr \<Longrightarrow> rr_pos P k < p_end P \<and> rr_dn_p rr = rr_pos P k"
  by (auto simp: record_at_def dns_rr_parse_dn split: if_splits option.splits)

lemma visits_Some:
  "visits junk i P k = rr # rrs \<Longrightarrow> record_at P k = Some rr \<and> rrs = []"
  by (auto simp: visits_def split: option.splits if_splits)

lemma rr_i_at_visits:
  assumes "readable P" "memo_ok P" "decided junk i P" "rr_pos P k < p_end P"
  shows "rr_i_at junk (rr_pos P k) i P =
    Some (case visits junk i P k of [] \<Rightarrow> None | rr # _ \<Rightarrow> Some rr)"
proof -
  obtain rr e where rr: "dns_rr_parse rr0 (rr_pos P k) P = Some (rr, e)"
    "record_at P k = (case e of None \<Rightarrow> Some (rr\<lparr>rr_section := section_of P k\<rparr>) | Some _ \<Rightarrow> None)"
    using record_parse [OF assms(1,4)] by blast
  show ?thesis
  proof (cases e)
    case None
    have "dns_rr_section (rr_pos P k) P = Some (section_of P k)" using assms(2,4) by (simp add: memo_ok_def)
    moreover obtain b where "dns_rr_i_match junk (rr\<lparr>rr_section := section_of P k\<rparr>) i P = Some b"
      using assms(3) rr(2) None by (fastforce simp: decided_def dest!: spec [of _ k])
    ultimately show ?thesis using rr None by (simp add: rr_i_at_def visits_def)
  qed (use rr in \<open>simp add: rr_i_at_def visits_def\<close>)
qed

text \<open>The search for the first record from index \<open>k\<close> on: none, or the one with index \<open>j\<close>.\<close>

definition found_at :: "dns_any \<Rightarrow> dns_rr_i \<Rightarrow> dns_packet \<Rightarrow> nat \<Rightarrow> (dns_rr \<times> nat) option \<Rightarrow> bool" where
  "found_at junk i P k r = (case r of
     None \<Rightarrow> records_from junk i P k = []
   | Some (rr, rp) \<Rightarrow> \<exists>j. record_at P j = Some rr \<and> rp = rr_pos P j \<and>
       records_from junk i P k = rr # records_from junk i P (Suc j))"

lemma found_here:
  assumes "readable P" "rr_pos P k < p_end P" "visits junk i P k = rr # rrs"
  shows "found_at junk i P k (Some (rr, rr_pos P k))"
  using visits_Some [OF assms(3)] records_from_step [OF rr_pos_index [OF assms(1,2)], of junk i] assms(3)
  by (auto simp: found_at_def)

lemma found_later:
  assumes "readable P" "rr_pos P k < p_end P" "visits junk i P k = []" "found_at junk i P (Suc k) r"
  shows "found_at junk i P k r"
  using records_from_step [OF rr_pos_index [OF assms(1,2)], of junk i] assms(3,4)
  by (auto simp: found_at_def split: option.splits)

lemma start_first_found:
  assumes P: "readable P" "memo_ok P" "decided junk i P"
  shows "\<exists>r. c_while (dns_rr_i_start_first_step junk i P) (rr_pos P k) = Some r \<and> found_at junk i P k r"
proof (induction "p_end P - rr_pos P k" arbitrary: k rule: less_induct)
  case less
  let ?step = "dns_rr_i_start_first_step junk i P"
  show ?case
  proof (cases "rr_pos P k < p_end P")
    case False
    then have "?step (rr_pos P k) = Some (Inr None)" by (simp add: dns_rr_i_start_first_step_def)
    then show ?thesis using records_from_end [OF P(1)] False by (simp add: c_while_stop found_at_def)
  next
    case True
    note at = rr_i_at_visits [OF P True]
    show ?thesis
    proof (cases "visits junk i P k")
      case Nil
      then have "?step (rr_pos P k) = Some (Inl (rr_pos P (Suc k)))"
        using at True rr_pos_skip(1) [OF P(1) True] by (simp add: dns_rr_i_start_first_step_def del: rr_pos.simps)
      then have "c_while ?step (rr_pos P k) = c_while ?step (rr_pos P (Suc k))" by (rule c_while_next)
      moreover have "p_end P - rr_pos P (Suc k) < p_end P - rr_pos P k"
        using rr_pos_skip(2) [OF P(1) True] True by simp
      ultimately show ?thesis using less [of "Suc k"] found_later [OF P(1) True Nil] by (simp del: rr_pos.simps) blast
    next
      case (Cons rr rrs)
      then have "?step (rr_pos P k) = Some (Inr (Some (rr, rr_pos P k)))"
        using at True by (simp add: dns_rr_i_start_first_step_def)
      then show ?thesis using found_here [OF P(1) True Cons] by (simp add: c_while_stop)
    qed
  qed
qed

text \<open>The search that follows the record \<open>r0\<close> with index \<open>j\<close>, in the order of the packet.\<close>

lemma skip_first_found:
  assumes P: "readable P" "memo_ok P" "decided junk i P"
    and r0: "rr_dn_p r0 < rr_pos P k" and sort: "i_sort i = Some Sort_packet"
  shows "\<exists>r. c_while (dns_rr_i_skip_first_step junk rnd r0 P) (rr_pos P k, i) = Some (r, i) \<and> found_at junk i P k r"
  using r0
proof (induction "p_end P - rr_pos P k" arbitrary: k rule: less_induct)
  case less
  let ?step = "dns_rr_i_skip_first_step junk rnd r0 P"
  show ?case
  proof (cases "rr_pos P k < p_end P")
    case False
    then have "?step (rr_pos P k, i) = Some (Inr (None, i))" by (simp add: dns_rr_i_skip_first_step_def)
    then show ?thesis using records_from_end [OF P(1)] False by (simp add: c_while_stop found_at_def)
  next
    case True
    note at = rr_i_at_visits [OF P True]
    show ?thesis
    proof (cases "visits junk i P k")
      case Nil
      then have "?step (rr_pos P k, i) = Some (Inl (rr_pos P (Suc k), i))"
        using at True rr_pos_skip(1) [OF P(1) True] by (simp add: dns_rr_i_skip_first_step_def del: rr_pos.simps)
      then have "c_while ?step (rr_pos P k, i) = c_while ?step (rr_pos P (Suc k), i)" by (rule c_while_next)
      moreover have "p_end P - rr_pos P (Suc k) < p_end P - rr_pos P k" "rr_dn_p r0 < rr_pos P (Suc k)"
        using rr_pos_skip(2) [OF P(1) True] True less.prems by simp_all
      ultimately show ?thesis
        using less.hyps [of "Suc k"] found_later [OF P(1) True Nil] by (simp del: rr_pos.simps) blast
    next
      case (Cons rr rrs)
      have "rr_dn_p rr = rr_pos P k" using visits_Some [OF Cons] record_at_pos by blast
      then have "?step (rr_pos P k, i) = Some (Inr (Some (rr, rr_pos P k), i))"
        using at True Cons less.prems
        by (simp add: dns_rr_i_skip_first_step_def rr_i_sort_def sort dns_rr_i_packet_def)
      then show ?thesis using found_here [OF P(1) True Cons] by (simp add: c_while_stop)
    qed
  qed
qed


subsection \<open>The iterator\<close>

text \<open>The state and the sort function are no part of the selection.\<close>

lemma match_cong:
  "i_section i = i_section j \<Longrightarrow> i_type i = i_type j \<Longrightarrow> i_klass i = i_klass j \<Longrightarrow> i_name i = i_name j \<Longrightarrow>
   i_data i = i_data j \<Longrightarrow> dns_rr_i_match junk rr i P = dns_rr_i_match junk rr j P"
  by (simp only: dns_rr_i_match_def)

lemma match_update [simp]:
  "dns_rr_i_match junk rr (i\<lparr>i_state := st\<rparr>) P = dns_rr_i_match junk rr i P"
  "dns_rr_i_match junk rr (i\<lparr>i_sort := how\<rparr>) P = dns_rr_i_match junk rr i P"
  "dns_rr_i_match junk rr (dns_rr_i_init i) P = dns_rr_i_match junk rr i P"
  by (simp_all add: dns_rr_i_init_def cong: match_cong)

lemma start_base_update [simp]:
  "dns_rr_i_start_base (i\<lparr>i_sort := how\<rparr>) P = dns_rr_i_start_base i P"
  "dns_rr_i_start_base (dns_rr_i_init i) P = dns_rr_i_start_base i P"
  by (simp_all add: dns_rr_i_start_base_def dns_rr_i_init_def)

lemma selection_update [simp]:
  "decided junk (i\<lparr>i_state := st\<rparr>) P = decided junk i P"
  "decided junk (i\<lparr>i_sort := how\<rparr>) P = decided junk i P"
  "decided junk (dns_rr_i_init i) P = decided junk i P"
  "records_from junk (i\<lparr>i_state := st\<rparr>) P k = records_from junk i P k"
  "records_from junk (i\<lparr>i_sort := how\<rparr>) P k = records_from junk i P k"
  "records_from junk (dns_rr_i_init i) P k = records_from junk i P k"
  by (simp_all add: decided_def records_from_def visits_def [abs_def] cong: option.case_cong)

text \<open>The place of an iterator that has been started: the records it has still to visit.\<close>

definition place :: "dns_any \<Rightarrow> dns_rr_i \<Rightarrow> dns_packet \<Rightarrow> nat \<Rightarrow> dns_rr list \<Rightarrow> bool" where
  "place junk i P next rrs \<longleftrightarrow>
     (rrs = [] \<and> p_end P \<le> next) \<or>
     (\<exists>rr j. record_at P j = Some rr \<and> next = rr_pos P j \<and> rrs = rr # records_from junk i P (Suc j))"

lemma place_update [simp]:
  "place junk (i\<lparr>i_state := st\<rparr>) P = place junk i P"
  "place junk (i\<lparr>i_sort := how\<rparr>) P = place junk i P"
  "place junk (dns_rr_i_init i) P = place junk i P"
  by (simp_all add: place_def [abs_def])

lemma found_place:
  assumes "readable P" "found_at junk i P k r"
  shows "place junk i P (case r of None \<Rightarrow> u16 (p_end P) | Some (rr, rp) \<Rightarrow> dns_rr_offset rr) (records_from junk i P k)"
proof -
  have "p_end P < 65536" using readable_end [OF assms(1)] by simp
  then show ?thesis
    using assms(2)
    by (fastforce simp: place_def found_at_def dns_rr_offset_def split: option.splits dest: record_at_pos)
qed

lemma rr_i_start_place:
  assumes P: "readable P" "memo_ok P" "decided junk i P"
    and sort: "i_sort i = Some Sort_packet"
    and base: "dns_rr_i_start_base i P = rr_pos P k" "records_from junk i P k = records junk i P"
  shows "\<exists>next. dns_rr_i_start junk rnd i P = Some (next, i) \<and> place junk i P next (records junk i P)"
proof -
  obtain r where r: "c_while (dns_rr_i_start_first_step junk i P) (rr_pos P k) = Some r" "found_at junk i P k r"
    using start_first_found [OF P] by blast
  then show ?thesis
    using found_place [OF P(1) r(2)] base sort by (auto simp: dns_rr_i_start_def split: option.splits)
qed

lemma rr_i_skip_place:
  assumes P: "readable P" "memo_ok P" "decided junk i P"
    and sort: "i_sort i = Some Sort_packet" and rr: "record_at P j = Some rr"
  shows "\<exists>next. dns_rr_i_skip junk rnd (rr_pos P j) i P = Some (next, i) \<and>
    place junk i P next (records_from junk i P (Suc j))"
proof -
  note pos = record_at_pos [OF rr]
  obtain rr' where parse: "dns_rr_parse rr0 (rr_pos P j) P = Some (rr', None)"
      "rr = rr'\<lparr>rr_section := section_of P j\<rparr>"
    using record_parse [OF P(1)] pos rr by (fastforce split: option.splits)
  have sect: "dns_rr_section (rr_pos P j) P = Some (section_of P j)" using P(2) pos by (simp add: memo_ok_def)
  note skip = rr_pos_skip [OF P(1)] 
  have "rr_dn_p rr < rr_pos P (Suc j)" using skip(2) pos by simp
  from skip_first_found [OF P this sort, of rnd] obtain r where
    r: "c_while (dns_rr_i_skip_first_step junk rnd rr P) (rr_pos P (Suc j), i) = Some (r, i)"
      "found_at junk i P (Suc j) r" by blast
  then show ?thesis
    using found_place [OF P(1) r(2)] parse sect skip(1) pos sort
    by (auto simp: dns_rr_i_skip_def simp del: rr_pos.simps split: option.splits)
qed

lemma rr_grep_place:
  assumes P: "readable P" "memo_ok P" "decided junk i P"
    and sort: "i_sort i = Some Sort_packet"
    and place: "s_exec (i_state i) = 1" "place junk i P (s_next (i_state i)) rrs"
  shows "case rrs of
      [] \<Rightarrow> dns_rr_grep junk rnd 1 i P = Some ([], i, None)
    | rr # rest \<Rightarrow> \<exists>st. dns_rr_grep junk rnd 1 i P = Some ([rr], i\<lparr>i_state := st\<rparr>, None) \<and>
        s_exec st = 1 \<and> place junk i P (s_next st) rest"
proof (cases rrs)
  case Nil
  then show ?thesis using place by (auto simp: place_def dns_rr_grep_def)
next
  case (Cons rr rest)
  then obtain j where j: "record_at P j = Some rr" "s_next (i_state i) = rr_pos P j"
    "rest = records_from junk i P (Suc j)"
    using place(2) by (auto simp: place_def)
  define i1 where "i1 = i\<lparr>i_state := (i_state i)\<lparr>s_count := u16 (Suc (s_count (i_state i)))\<rparr>\<rparr>"
  note pos = record_at_pos [OF j(1)]
  obtain rr' where parse: "dns_rr_parse rr0 (rr_pos P j) P = Some (rr', None)"
      "rr = rr'\<lparr>rr_section := section_of P j\<rparr>"
    using record_parse [OF P(1)] pos j(1) by (fastforce split: option.splits)
  have sect: "dns_rr_section (rr_pos P j) P = Some (section_of P j)" using P(2) pos by (simp add: memo_ok_def)
  obtain next' where "dns_rr_i_skip junk rnd (rr_pos P j) i1 P = Some (next', i1)" "place junk i P next' rest"
    using rr_i_skip_place [OF P(1,2), of junk i1 j rr rnd] P(3) sort j by (auto simp: i1_def)
  then show ?thesis
    using Cons place(1) j(2) pos parse sect
    by (auto simp: dns_rr_grep_def Let_def i1_def [symmetric]) (auto simp: i1_def)
qed

lemma foreach_place:
  assumes P: "readable P" "memo_ok P" "decided junk i P"
    and sort: "i_sort i = Some Sort_packet"
    and place: "s_exec (i_state i) = 1" "place junk i P (s_next (i_state i)) rrs"
  shows "c_while (dns_rr_foreach_step junk rnd P body) (i, s) = fold_records body rrs s"
  using P(3) sort place
proof (induction rrs arbitrary: i s)
  case Nil
  then show ?case
    using rr_grep_place [OF P(1,2) Nil.prems(1-4), of rnd]
    by (simp add: c_while_stop dns_rr_foreach_step_def)
next
  case (Cons rr rrs)
  from rr_grep_place [OF P(1,2) Cons.prems(1-4), of rnd] obtain st where
    st: "dns_rr_grep junk rnd 1 i P = Some ([rr], i\<lparr>i_state := st\<rparr>, None)"
      "s_exec st = 1" "place junk i P (s_next st) rrs" by auto
  note step = dns_rr_foreach_step_def [of junk rnd P body]
  show ?case
  proof (cases "body rr s")
    case None
    then show ?thesis using st(1) by (simp add: c_while_oob step)
  next
    case (Some r)
    show ?thesis
    proof (cases r)
      case (Inl s')
      have "c_while (dns_rr_foreach_step junk rnd P body) (i, s) =
          c_while (dns_rr_foreach_step junk rnd P body) (i\<lparr>i_state := st\<rparr>, s')"
        by (rule c_while_next) (simp add: step st(1) [simplified] Some Inl)
      then show ?thesis using Cons.IH [of "i\<lparr>i_state := st\<rparr>" s'] Cons.prems st Some Inl by simp
    next
      case (Inr x)
      then show ?thesis using st(1) Some by (simp add: c_while_stop step)
    qed
  qed
qed

lemma foreach_records:
  assumes P: "readable P" "memo_ok P" "decided junk i P"
    and sort: "i_sort i = None \<or> i_sort i = Some Sort_packet"
    and base: "dns_rr_i_start_base i P = rr_pos P k" "records_from junk i P k = records junk i P"
  shows "dns_rr_foreach junk rnd i P body s = fold_records body (records junk i P) s"
proof -
  define i1 where "i1 = (dns_rr_i_init i)\<lparr>i_sort := Some Sort_packet\<rparr>"
  have i1: "decided junk i1 P" "i_sort i1 = Some Sort_packet" "records junk i1 P = records junk i P"
      "dns_rr_i_start_base i1 P = rr_pos P k" "records_from junk i1 P k = records junk i1 P"
    using P(3) base by (simp_all add: i1_def records_def)
  obtain next' where n: "dns_rr_i_start junk rnd i1 P = Some (next', i1)" "place junk i1 P next' (records junk i1 P)"
    using rr_i_start_place [OF P(1,2) i1(1,2,4,5)] by blast
  define i2 where "i2 = i1\<lparr>i_state := (i_state i1)\<lparr>s_next := next', s_exec := 1\<rparr>\<rparr>"
  have i2: "i_sort i2 = Some Sort_packet" "s_exec (i_state i2) = 1" "decided junk i2 P"
      "place junk i2 P (s_next (i_state i2)) (records junk i P)"
    using i1 n(2) by (simp_all add: i2_def)
  have "s_exec (i_state (dns_rr_i_init i)) = 0" "i_sort (dns_rr_i_init i) = i_sort i"
    by (simp_all add: dns_rr_i_init_def i_state0_def)
  moreover have "(if i_sort i = None then (dns_rr_i_init i)\<lparr>i_sort := Some Sort_packet\<rparr> else dns_rr_i_init i) = i1"
    using sort by (auto simp: i1_def dns_rr_i_init_def)
  ultimately have "dns_rr_grep junk rnd 1 (dns_rr_i_init i) P = dns_rr_grep junk rnd 1 i2 P"
    using n(1) i2(2)
    by (simp add: dns_rr_grep_def Let_def i2_def [simplified, symmetric] del: dns_rr_grep_loop.simps)
  then have "dns_rr_foreach_step junk rnd P body (dns_rr_i_init i, s) = dns_rr_foreach_step junk rnd P body (i2, s)"
    by (simp add: dns_rr_foreach_step_def)
  then have "dns_rr_foreach junk rnd i P body s = c_while (dns_rr_foreach_step junk rnd P body) (i2, s)"
    unfolding dns_rr_foreach_def by (subst (1 2) c_while.simps) simp
  then show ?thesis using foreach_place [OF P(1,2) i2(3,1,2,4)] by simp
qed


subsection \<open>Packets that have been studied, or not\<close>

lemma memo_ok_unstudied:
  assumes "readable P" shows "memo_ok (dns_p_unstudy P)"
proof -
  have u: "same_bytes (dns_p_unstudy P) P" by simp
  have "readable (dns_p_unstudy P)" using assms same_bytes_readable [OF u] by simp
  then show ?thesis
    unfolding memo_ok_def
    by (intro allI impI section_hard_way) (simp_all add: dns_p_unstudy_def dns_s_unstudy_def)
qed

lemma memo_ok_studied:
  assumes "readable P" shows "memo_ok (studied P)"
proof -
  note s = same_bytes_studied [of P]
  show ?thesis
    using section_memoised [OF assms] same_bytes_rr_pos [OF s] same_bytesD(2) [OF s] same_bytes_section_of [OF s]
    by (simp add: memo_ok_def)
qed

text \<open>The records before the first section that is selected.\<close>

lemma records_from_later:
  assumes "readable P" "\<And>j. j < k \<Longrightarrow> visits junk i P j = []"
  shows "records_from junk i P k = records junk i P"
proof -
  have eq: "records_from junk i P j = records_from junk i P 0" if "j \<le> k" for j
    using that
  proof (induction j)
    case (Suc j)
    then have v: "visits junk i P j = []" and ih: "records_from junk i P j = records_from junk i P 0"
      using assms(2) by simp_all
    have "records_from junk i P (Suc j) = records_from junk i P j"
    proof (cases "j < p_end P")
      case True
      show ?thesis unfolding records_from_step [OF True, of junk i] v by simp
    qed (simp add: records_from_def)
    then show ?case using ih by simp
  qed simp
  show ?thesis unfolding records_def by (rule eq [OF order_refl])
qed

lemma section_visits:
  assumes "i_section i \<noteq> 0" "section_of P j AND i_section i = 0"
  shows "visits junk i P j = []"
  using assms
  by (auto simp: visits_def record_at_def dns_rr_i_match_def split: option.splits prod.splits if_splits)

lemma studied_base:
  assumes P: "readable P"
  shows "\<exists>k. dns_rr_i_start_base i (studied P) = rr_pos (studied P) k \<and>
    records_from junk i (studied P) k = records junk i (studied P)"
proof -
  let ?S = "studied P"
  define a where "a = hd_qdcount P"
  define b where "b = a + hd_ancount P"
  define c where "c = b + hd_nscount P"
  note s = same_bytes_studied [of P]
  have S: "readable ?S" using P same_bytes_readable [OF s] by simp
  have pos: "rr_pos ?S k = rr_pos P k" for k by (rule same_bytes_rr_pos [OF s])
  have "0 < rr_pos P k" for k using rr_pos_mono [OF P, of 0 k] by simp
  then have base: "dns_rr_i_start_base i ?S =
      (if i_section i AND DNS_S_QD \<noteq> 0 then rr_pos ?S 0
       else if i_section i AND DNS_S_AN \<noteq> 0 then rr_pos ?S a
       else if i_section i AND DNS_S_NS \<noteq> 0 then rr_pos ?S b
       else if i_section i AND DNS_S_AR \<noteq> 0 then rr_pos ?S c else rr_pos ?S 0)"
    by (simp add: dns_rr_i_start_base_def studied_def Let_def a_def b_def c_def pos [unfolded studied_def Let_def])
  have later: ?thesis if "dns_rr_i_start_base i ?S = rr_pos ?S k" "i_section i \<noteq> 0"
      "\<And>j. j < k \<Longrightarrow> section_of P j AND i_section i = 0" for k
  proof -
    have "records_from junk i ?S k = records junk i ?S"
      using that(2,3) same_bytes_section_of [OF s]
      by (intro records_from_later [OF S] section_visits) simp_all
    then show ?thesis using that(1) by blast
  qed
  have zero: ?thesis if "dns_rr_i_start_base i ?S = rr_pos ?S 0"
    using that by (intro exI [of _ 0]) (simp add: records_def)
  consider "i_section i AND DNS_S_QD \<noteq> 0" | "i_section i AND DNS_S_QD = 0" "i_section i AND DNS_S_AN \<noteq> 0"
    | "i_section i AND DNS_S_QD = 0" "i_section i AND DNS_S_AN = 0" "i_section i AND DNS_S_NS \<noteq> 0"
    | "i_section i AND DNS_S_QD = 0" "i_section i AND DNS_S_AN = 0" "i_section i AND DNS_S_NS = 0"
      "i_section i AND DNS_S_AR \<noteq> 0"
    | "i_section i AND DNS_S_QD = 0" "i_section i AND DNS_S_AN = 0" "i_section i AND DNS_S_NS = 0"
      "i_section i AND DNS_S_AR = 0" by blast
  then show ?thesis
  proof cases
    case 2
    then have "i_section i \<noteq> 0" by (cases "i_section i = 0") simp_all
    then show ?thesis using 2 base by (intro later [of a]) (auto simp: section_of_def a_def and.commute)
  next
    case 3
    then have "i_section i \<noteq> 0" by (cases "i_section i = 0") simp_all
    then show ?thesis using 3 base by (intro later [of b]) (auto simp: section_of_def a_def b_def and.commute)
  next
    case 4
    then have "i_section i \<noteq> 0" by (cases "i_section i = 0") simp_all
    then show ?thesis using 4 base by (intro later [of c]) (auto simp: section_of_def a_def b_def c_def and.commute)
  qed (rule zero, simp add: base)+
qed

text \<open>C8: a loop over the records of a packet visits those that match, each once and in the order of
  the packet. Whether the packet has been studied or not, \<open>dns_rr_foreach\<close> is the fold of its body over
  the records that parse and match the iterator, with the sections the header assigns to them, up
  to the record at which the body leaves. This holds for iterators without a sort function or with
  \<open>dns_rr_i_packet\<close>, as long as no match runs into a name whose expansion does not end.\<close>

theorem dns_rr_foreach_records:
  assumes "readable P" "dns_p_study P = Some Q \<or> Q = dns_p_unstudy P" "decided junk i Q"
    and "i_sort i = None \<or> i_sort i = Some Sort_packet"
  shows "dns_rr_foreach junk rnd i Q body s = fold_records body (records junk i Q) s"
proof -
  consider "Q = studied P" | "Q = dns_p_unstudy P" using assms(1,2) dns_p_study_eq by auto
  then show ?thesis
  proof cases
    case 1
    obtain k where k: "dns_rr_i_start_base i Q = rr_pos Q k" "records_from junk i Q k = records junk i Q"
      using studied_base [OF assms(1)] 1 by blast
    have "readable Q" "memo_ok Q"
      using assms(1) 1 memo_ok_studied same_bytes_readable [OF same_bytes_studied] by simp_all
    then show ?thesis by (rule foreach_records [OF _ _ assms(3,4) k])
  next
    case 2
    have "dns_rr_i_start_base i Q = rr_pos Q 0"
      using 2 by (simp add: dns_rr_i_start_base_def dns_p_unstudy_def dns_s_unstudy_def)
    moreover have "same_bytes Q P" using 2 by simp
    then have "readable Q" "memo_ok Q" using assms(1) 2 memo_ok_unstudied same_bytes_readable by blast+
    ultimately show ?thesis
      by (intro foreach_records [OF _ _ assms(3,4), of 0]) (simp_all add: records_def)
  qed
qed


text \<open>A packet with the question \<open>a. IN A\<close> only.\<close>

definition one_question :: dns_packet where
  "one_question = raw_packet [0, 0, 0, 0, 0, 1, 0, 0, 0, 0, 0, 0, 1, 97, 0, 0, 1, 0, 1]"

lemma one_question_packet: "question_packet one_question [[97]] 1 1"
  by (simp add: question_packet_def one_question_def raw_packet_def wf_packet_def question_wire_def
      hd_qdcount_def hd_ancount_def hd_nscount_def hd_arcount_def hd16_def be16_eq dns_p_count_def c_defs
      len16_def byte_of_def has_bytes_def)


lemma question_record:
  assumes "question_packet P ls type klass" "\<forall>l \<in> set ls. label_ok l" "type < 65536" "klass < 65536"
  shows "record_at P k = (if k = 0 then Some (rr0\<lparr>rr_section := DNS_S_QD, rr_dn_p := 12,
    rr_dn_len := length (name_wire ls), rr_type := type, rr_klass := klass\<rparr>) else None)"
proof -
  have P: "readable P" "p_end P = 12 + length (name_wire ls) + 4" "hd_qdcount P = 1" "p_end P < 65536"
    using assms(1) by (auto simp: question_packet_def question_wire_length wf_packet_def readable_def)
  have "dns_rr_skip 12 P = Some (p_end P)"
    using P question_skip [OF assms(1,2)] question_qend [OF assms(1,2)]
    by (simp add: dns_rr_skip_def dns_rr_len_def)
  then have "rr_pos P 1 = p_end P" using P by simp
  then have "p_end P \<le> rr_pos P k" if "0 < k" using rr_pos_mono [OF P(1), of 1 k] that by simp
  then show ?thesis
    using question_parse [OF assms] P by (auto simp: record_at_def section_of_def)
qed

theorem dns_rr_foreach_records_witness:
  "dns_rr_foreach dns_any_init 1 rr_i0 one_question (\<lambda>rr n. Some (Inl (n + rr_type rr))) 0 =
     Some (Inl (1 :: nat) :: nat + unit)"
proof -
  have q: "question_packet one_question [[97]] 1 1" by (rule one_question_packet)
  have P: "readable one_question" "one_question = dns_p_unstudy one_question" "12 < p_end one_question"
    using q by (auto simp: question_packet_def question_wire_length wf_packet_readable
        one_question_def raw_packet_def dns_p_unstudy_def dns_s_unstudy_def memo0_def)
  have rec: "record_at one_question k = (if k = 0 then Some (rr0\<lparr>rr_section := DNS_S_QD, rr_dn_p := 12,
      rr_dn_len := 3, rr_type := 1, rr_klass := 1\<rparr>) else None)" for k
    using question_record [OF q, of k] by (simp add: label_ok_def c_defs)
  have "decided dns_any_init rr_i0 one_question"
    by (simp add: decided_def rec dns_rr_i_match_def rr_i0_def)
  moreover have "i_sort rr_i0 = None" by (simp add: rr_i0_def)
  ultimately have each: "dns_rr_foreach dns_any_init 1 rr_i0 one_question body s =
      fold_records body (records dns_any_init rr_i0 one_question) s" for body :: "dns_rr \<Rightarrow> nat \<Rightarrow> (nat + unit) option" and s
    by (intro dns_rr_foreach_records [OF P(1) disjI2 [OF P(2)]]) simp_all
  have "visits dns_any_init rr_i0 one_question k = (if k = 0 then [rr0\<lparr>rr_section := DNS_S_QD, rr_dn_p := 12,
      rr_dn_len := 3, rr_type := 1, rr_klass := 1\<rparr>] else [])" for k
    by (simp add: visits_def rec dns_rr_i_match_def rr_i0_def)
  then have "records dns_any_init rr_i0 one_question = [rr0\<lparr>rr_section := DNS_S_QD, rr_dn_p := 12,
      rr_dn_len := 3, rr_type := 1, rr_klass := 1\<rparr>]"
    using P(3) by (simp add: records_def records_from_step) (simp add: records_from_def)
  then show ?thesis by (simp add: each)
qed

end
