(* ===== verification/Lookup.thy ===== *)
theory Lookup
  imports Addrinfo Question
begin

unbundle bit_operations_syntax

section \<open>What an address lookup promises\<close>

text \<open>
  The service is a decimal port; a numeric host gives one entry and no query; and what the entry
  iterator returns at its end.
\<close>

subsection \<open>The port\<close>

definition decimal :: "nat \<Rightarrow> bytes \<Rightarrow> nat" where
  "decimal n cs = foldl (\<lambda>n c. n * 10 + (unat c - 48)) n cs"

definition digit :: "byte \<Rightarrow> bool" where
  "digit c \<longleftrightarrow> 48 \<le> c \<and> c \<le> 57"

lemma decimal_simps [simp]:
  "decimal n [] = n" "decimal n (c # cs) = decimal (n * 10 + (unat c - 48)) cs"
  by (simp_all add: decimal_def)

lemma decimal_grows: "n \<le> decimal n cs"
proof (induction cs arbitrary: n)
  case (Cons c cs)
  have "n \<le> n * 10 + (unat c - 48)" by simp
  also have "\<dots> \<le> decimal (n * 10 + (unat c - 48)) cs" by (rule Cons.IH)
  finally show ?case by simp
qed simp

lemma parseport_digits_text:
  assumes "0 \<notin> set cs"
  shows "\<exists>m j c. parseport_digits (cs @ 0 # rest) n k = Some (m, j, c) \<and>
    (if c = 0 then j = k + length cs \<and> m = decimal n cs \<and> (\<forall>c \<in> set cs. digit c)
     else cs \<noteq> [] \<and> (\<not> (\<forall>c \<in> set cs. digit c) \<or> 65536 \<le> decimal n cs))"
  using assms
proof (induction cs arbitrary: n k)
  case Nil
  then show ?case by simp
next
  case (Cons c cs)
  show ?case
  proof (cases "digit c \<and> n < 65536")
    case True
    then show ?thesis using Cons.IH [of "n * 10 + (unat c - 48)" "k + 1"] Cons.prems
      by (fastforce simp: digit_def)
  next
    case False
    have "65536 \<le> decimal n (c # cs)" if "digit c"
      using False that decimal_grows [of n "c # cs"] by simp
    then show ?thesis using False Cons.prems by (auto simp: digit_def)
  qed
qed

text \<open>\<open>dns_ai_parseport\<close> accepts the decimal numbers below 65536, leading zeros included, and
  gives their value; everything else, the empty text and names of services among it, is
  \<open>DNS_ESERVICE\<close>.\<close>

theorem dns_ai_parseport_decimal:
  assumes "0 \<notin> set cs"
  shows "dns_ai_parseport (cs @ 0 # rest) hints =
    Some (if cs \<noteq> [] \<and> (\<forall>c \<in> set cs. digit c) \<and> decimal 0 cs < 65536
          then Inr (decimal 0 cs) else Inl DNS_ESERVICE)"
  using parseport_digits_text [OF assms, of rest 0 0]
  by (auto simp: dns_ai_parseport_def split: if_splits)

theorem dns_ai_parseport_decimal_witness:
  "\<forall>hints. dns_ai_parseport ([48, 53, 51] @ 0 # [7]) hints = Some (Inr 53)"
  using dns_ai_parseport_decimal [of "[48, 53, 51]" "[7]"] by (simp add: digit_def)

subsection \<open>Numeric hosts\<close>

lemma ai_setent_numeric:
  assumes "ai_sockaddr (ai_port ai) any type = Some (Some sa)" "dns_sa_len sa = Some len"
    and "ai_cname ai = NAMEBUF" "ai_qname ai = text @ 0 # rest" "0 \<notin> set text"
  shows "dns_ai_setent any type ai = Some (ai\<lparr>ai_found := ai_found ai + 1\<rparr>,
    Some \<lparr>ent_family = dns_sa_family sa, ent_socktype = ah_socktype (ai_hints ai),
          ent_protocol = ah_protocol (ai_hints ai), ent_addr = sa,
          ent_canonname = (if ah_flags (ai_hints ai) AND AI_CANONNAME \<noteq> 0 then Some (text @ [0]) else None)\<rparr>, None)"
  using assms
  by (simp add: dns_ai_setent_def NAMEBUF_def DNS_D_MAXNAME_def c_strlen_append Let_def)

lemma drop_eq_ConsD:
  "drop s src = x # xs \<Longrightarrow> s < length src \<and> src ! s = x \<and> drop (Suc s) src = xs"
  by (metis drop_eq_Nil2 drop_Suc hd_drop_conv_nth list.distinct(1) list.sel(1,3) not_le tl_drop)

lemma strlcpy_loop_copies:
  assumes "0 \<notin> set host" "drop s src = host @ 0 # rest" "length host < k"
    "d + length host < length dst"
  shows "dns_strlcpy_loop k dst d src s =
    Some (take d dst @ host @ 0 # drop (d + length host + 1) dst, s + length host, Some (d + length host))"
  using assms
proof (induction host arbitrary: k dst d s)
  case Nil
  then have "s < length src" "src ! s = 0" using drop_eq_ConsD [of s src 0 rest] by auto
  moreover obtain k' where "k = Suc k'" using Nil by (cases k) auto
  ultimately show ?case using Nil by (simp add: upd_conv_take_nth_drop)
next
  case (Cons c host)
  have s: "s < length src" "src ! s = c" "drop (Suc s) src = host @ 0 # rest"
    using Cons.prems(2) drop_eq_ConsD [of s src c] by auto
  obtain k' where k: "k = Suc k'" using Cons by (cases k) auto
  have d: "d < length dst" using Cons.prems(4) by simp
  have "dns_strlcpy_loop k' (dst[d := c]) (Suc d) src (Suc s) =
      Some (take (Suc d) (dst[d := c]) @ host @ 0 # drop (Suc d + length host + 1) (dst[d := c]),
        Suc s + length host, Some (Suc d + length host))"
    by (rule Cons.IH) (use Cons.prems s k in auto)
  then show ?case using Cons.prems s k d by (simp add: take_Suc_update)
qed

lemma strlcpy_loop_full:
  assumes "0 \<notin> set (take k (drop s src))" "s + k \<le> length src" "d + k \<le> length dst" "dst \<noteq> []"
  shows "\<exists>dst'. dns_strlcpy_loop k dst d src s = Some (dst', s + k, None)"
  using assms
proof (induction k arbitrary: dst d s)
  case 0
  then have "d - 1 < length dst" by (cases dst) auto
  then show ?case by simp
next
  case (Suc k)
  have "src ! s \<noteq> 0" using Suc.prems
    by (metis Cons_nth_drop_Suc add_lessD1 less_add_same_cancel1 less_le_trans list.set_intros(1) take_Suc_Cons zero_less_Suc)
  moreover have "0 \<notin> set (take k (drop (Suc s) src))" using Suc.prems
    by (metis Cons_nth_drop_Suc add_lessD1 less_add_same_cancel1 less_le_trans list.set_intros(2) take_Suc_Cons zero_less_Suc)
  ultimately show ?case using Suc.prems Suc.IH [of "Suc s" "Suc d" "dst[d := src ! s]"]
    by simp
qed

lemma dns_strlcpy_text:
  assumes "0 \<notin> set host" "length dst = lim" "0 < lim"
  shows "\<exists>dst'. dns_strlcpy dst (host @ 0 # rest) lim = Some (dst', length host) \<and>
    (length host < lim \<longrightarrow> dst' = host @ 0 # drop (length host + 1) dst)"
proof (cases "length host < lim")
  case True
  then show ?thesis
    using assms strlcpy_loop_copies [where host = host and s = 0 and k = lim and d = 0 and dst = dst]
    by (simp add: dns_strlcpy_def)
next
  case False
  have "0 \<notin> set (take lim (drop 0 (host @ 0 # rest)))"
    using assms(1) False set_take_subset [of lim host] by auto
  from strlcpy_loop_full [OF this, where d = 0 and dst = dst] False assms
  obtain dst' where loop: "dns_strlcpy_loop lim dst 0 (host @ 0 # rest) 0 = Some (dst', lim, None)"
    by auto
  have "0 \<notin> set (drop lim host)" using assms(1) set_drop_subset [of lim host] by auto
  from c_strlen_append [OF this] loop False assms(3) show ?thesis
    by (simp add: dns_strlcpy_def)
qed

lemma dns_ai_open_qname:
  assumes "dns_ai_open (host @ 0 # rest) serv qtype hints res = Some (Inr ai)" "0 \<notin> set host"
  obtains rest' where "ai_qname ai = host @ 0 # rest'" "ai_hints ai = hints" "ai_res ai = res"
    "ai_cname ai = NAMEBUF" "ai_state ai = DNS_AI_S_INIT" "ai_port ai = ai_qport ai"
    "ai_found ai = 0" "ai_answer ai = None"
proof -
  obtain dst' where dst: "dns_strlcpy NAMEBUF (host @ 0 # rest) (DNS_D_MAXNAME + 1) = Some (dst', length host)"
    "length host < DNS_D_MAXNAME + 1 \<longrightarrow> dst' = host @ 0 # drop (length host + 1) NAMEBUF"
    using dns_strlcpy_text [OF assms(2), of NAMEBUF "DNS_D_MAXNAME + 1" rest]
    by (auto simp: NAMEBUF_def DNS_D_MAXNAME_def)
  then show ?thesis using assms(1)
    by (intro that [of "drop (length host + 1) NAMEBUF"])
       (auto simp: dns_ai_open_def split: if_splits Option.bind_splits sum.splits)
qed

text \<open>The address a numeric host stands for.\<close>

definition numeric_addr :: "inet_pton \<Rightarrow> nat \<Rightarrow> bytes \<Rightarrow> dns_sockaddr option" where
  "numeric_addr pton port host =
     (case fst pton host of
        Some a \<Rightarrow> Some (Sin port a)
      | None \<Rightarrow> map_option (Sin6 port) (snd pton host))"

lemma ai_nextent_ended:
  "ai_state ai = DNS_AI_S_DONE \<Longrightarrow> ai_found ai \<noteq> 0 \<Longrightarrow>
   dns_ai_nextent pton junk os ai w = Some ((ai, None, Some ENOENT), w)"
  unfolding dns_ai_nextent_def
  by (intro c_while_stop) (simp add: dns_ai_nextent_step_def ai_done_def ai_fail_def)

lemma ai_nextent_init:
  "ai_state ai = DNS_AI_S_INIT \<Longrightarrow> dns_ai_nextent pton junk os ai w =
   c_while (dns_ai_nextent_step pton junk os) (ai\<lparr>ai_state := DNS_AI_S_NUMERIC\<rparr>, w)"
  unfolding dns_ai_nextent_def by (rule c_while_next) (simp add: dns_ai_nextent_step_def ai_goto_def)

text \<open>The entry for an address that the host is the text of.\<close>

abbreviation numeric_entry :: "addrinfo_hints \<Rightarrow> bytes \<Rightarrow> dns_sockaddr \<Rightarrow> addrinfo" where
  "numeric_entry hints host sa \<equiv> \<lparr>ent_family = dns_sa_family sa, ent_socktype = ah_socktype hints,
     ent_protocol = ah_protocol hints, ent_addr = sa,
     ent_canonname = (if ah_flags hints AND AI_CANONNAME \<noteq> 0 then Some (host @ [0]) else None)\<rparr>"

lemma ai_nextent_entry:
  assumes "ai_state ai = DNS_AI_S_INIT" "ai_found ai = 0"
    and "ai_numeric pton (ai\<lparr>ai_state := DNS_AI_S_NUMERIC\<rparr>) w = ai_entry any type (ai\<lparr>ai_state := DNS_AI_S_DONE\<rparr>) w"
    and "dns_ai_setent any type (ai\<lparr>ai_state := DNS_AI_S_DONE\<rparr>) =
      Some (ai\<lparr>ai_state := DNS_AI_S_DONE, ai_found := 1\<rparr>, Some ent, None)"
  shows "\<exists>ai1. dns_ai_nextent pton junk os ai w = Some ((ai1, Some ent, None), w) \<and>
    dns_ai_nextent pton junk os ai1 w = Some ((ai1, None, Some ENOENT), w)"
proof -
  let ?ai = "ai\<lparr>ai_state := DNS_AI_S_DONE, ai_found := 1\<rparr>" and ?step = "dns_ai_nextent_step pton junk os"
  have "?step (ai\<lparr>ai_state := DNS_AI_S_NUMERIC\<rparr>, w) = Some (Inr ((?ai, Some ent, None), w))"
    using assms(3,4) by (simp add: dns_ai_nextent_step_def ai_entry_def)
  from c_while_stop [of ?step, OF this] show ?thesis
    by (intro exI [of _ ?ai]) (simp add: ai_nextent_init [OF assms(1)] ai_nextent_ended)
qed

text \<open>C23: a numeric host is answered without a query. On a fresh lookup of a host that
  \<open>inet_pton\<close> reads, IPv4 tried before IPv6, \<open>dns_ai_nextent\<close> gives one entry with that address,
  the port of the service and the socket type and protocol asked for, with the host as the canonical
  name if that was asked for; the next call gives \<open>ENOENT\<close>. With \<open>AI_NUMERICHOST\<close> any other host is
  \<open>DNS_EFAIL\<close>. In no case is the resolver or the operating system used.\<close>

theorem dns_ai_nextent_numeric:
  assumes "dns_ai_open (host @ 0 # rest) serv qtype hints res = Some (Inr ai)" "0 \<notin> set host"
  shows "case numeric_addr pton (ai_qport ai) (ai_qname ai) of
      Some sa \<Rightarrow> (\<exists>ai1.
        dns_ai_nextent pton junk os ai w = Some ((ai1,
          Some \<lparr>ent_family = dns_sa_family sa, ent_socktype = ah_socktype hints,
            ent_protocol = ah_protocol hints, ent_addr = sa,
            ent_canonname = (if ah_flags hints AND AI_CANONNAME \<noteq> 0 then Some (host @ [0]) else None)\<rparr>,
          None), w) \<and>
        dns_ai_nextent pton junk os ai1 w = Some ((ai1, None, Some ENOENT), w))
    | None \<Rightarrow> ah_flags hints AND AI_NUMERICHOST \<noteq> 0 \<longrightarrow> (\<exists>ai1.
        dns_ai_nextent pton junk os ai w = Some ((ai1, None, Some DNS_EFAIL), w))"
proof -
  obtain rest' where ai: "ai_qname ai = host @ 0 # rest'" "ai_hints ai = hints" "ai_cname ai = NAMEBUF"
    "ai_state ai = DNS_AI_S_INIT" "ai_port ai = ai_qport ai" "ai_found ai = 0" "ai_answer ai = None"
    using assms by (rule dns_ai_open_qname)
  let ?N = "ai\<lparr>ai_state := DNS_AI_S_NUMERIC\<rparr>" and ?D = "ai\<lparr>ai_state := DNS_AI_S_DONE\<rparr>"
  let ?step = "dns_ai_nextent_step pton junk os"
  have entry: "\<exists>ai1. dns_ai_nextent pton junk os ai w = Some ((ai1, Some (numeric_entry hints host sa), None), w) \<and>
      dns_ai_nextent pton junk os ai1 w = Some ((ai1, None, Some ENOENT), w)"
    if "ai_numeric pton ?N w = ai_entry any type ?D w" "ai_sockaddr (ai_qport ai) any type = Some (Some sa)"
      "dns_sa_len sa = Some len" for any type sa len
    using ai_setent_numeric [of ?D any type sa len host rest'] that ai assms(2)
    by (intro ai_nextent_entry [of ai pton w any type]) simp_all
  have sa_len: "dns_sa_len (Sin port a) = Some 16" "dns_sa_len (Sin6 port b) = Some 28" for port a b
    by (simp_all add: dns_sa_len_def dns_af_len_def c_defs)
  show ?thesis
  proof (cases "numeric_addr pton (ai_qport ai) (ai_qname ai)")
    case None
    have "c_while ?step (?N, w) = c_while ?step (?D, w)" if "ah_flags hints AND AI_NUMERICHOST \<noteq> 0"
      using None that ai
      by (intro c_while_next)
         (simp add: dns_ai_nextent_step_def ai_numeric_def numeric_addr_def ai_goto_def split: option.splits)
    moreover have "c_while ?step (?D, w) = Some ((?D, None, Some DNS_EFAIL), w)"
      by (rule c_while_stop) (simp add: dns_ai_nextent_step_def ai_done_def ai_fail_def ai)
    ultimately show ?thesis by (simp add: None ai_nextent_init [OF ai(4)])
  next
    case (Some sa)
    show ?thesis
    proof (cases "fst pton (ai_qname ai)")
      case None
      with Some obtain b where "snd pton (ai_qname ai) = Some b" "sa = Sin6 (ai_qport ai) b"
        by (auto simp: numeric_addr_def)
      then show ?thesis using None
        entry [of "Any_aaaa b" DNS_T_AAAA sa 28]
        by (simp add: Some ai_numeric_def ai_sockaddr_def sa_len c_defs)
    next
      case four: (Some a)
      with Some have "sa = Sin (ai_qport ai) a" by (simp add: numeric_addr_def)
      then show ?thesis using four entry [of "Any_a a" DNS_T_A sa 16]
        by (simp add: Some ai_numeric_def ai_sockaddr_def sa_len c_defs)
    qed
  qed
qed

theorem dns_ai_nextent_numeric_witness:
  "\<forall>junk (os :: unit os). \<exists>ai ai1. dns_ai_open ([49] @ 0 # []) None DNS_T_A
      \<lparr>ah_flags = 4, ah_family = 0, ah_socktype = 1, ah_protocol = 6\<rparr> None = Some (Inr ai) \<and>
    dns_ai_nextent (\<lambda>host. Some 16777343, \<lambda>host. None) junk os ai () = Some ((ai1,
      Some \<lparr>ent_family = 2, ent_socktype = 1, ent_protocol = 6,
        ent_addr = Sin (ai_qport ai) 16777343, ent_canonname = None\<rparr>, None), ()) \<and>
    dns_ai_nextent (\<lambda>host. Some 16777343, \<lambda>host. None) junk os ai1 () =
      Some ((ai1, None, Some ENOENT), ())"
proof (intro allI)
  fix junk and os :: "unit os"
  let ?hints = "\<lparr>ah_flags = 4, ah_family = 0, ah_socktype = 1, ah_protocol = 6\<rparr>"
  obtain dst' where dst: "dns_strlcpy NAMEBUF ([49] @ 0 # []) (DNS_D_MAXNAME + 1) = Some (dst', 1)"
    using dns_strlcpy_text [of "[49]" NAMEBUF "DNS_D_MAXNAME + 1" "[]"]
    by (auto simp: NAMEBUF_def DNS_D_MAXNAME_def)
  then obtain ai :: "unit dns_addrinfo"
    where ai: "dns_ai_open ([49] @ 0 # []) None DNS_T_A ?hints None = Some (Inr ai)"
    by (auto simp: dns_ai_open_def AI_NUMERICHOST_def DNS_D_MAXNAME_def)
  from dns_ai_nextent_numeric [OF this, of "(\<lambda>host. Some 16777343, \<lambda>host. None)" junk os "()"]
  have "\<exists>ai1. dns_ai_nextent (\<lambda>host. Some 16777343, \<lambda>host. None) junk os ai () = Some ((ai1,
      Some \<lparr>ent_family = 2, ent_socktype = 1, ent_protocol = 6,
        ent_addr = Sin (ai_qport ai) 16777343, ent_canonname = None\<rparr>, None), ()) \<and>
    dns_ai_nextent (\<lambda>host. Some 16777343, \<lambda>host. None) junk os ai1 () =
      Some ((ai1, None, Some ENOENT), ())"
    by (simp add: numeric_addr_def AI_CANONNAME_def AF_INET_def)
  with ai show "\<exists>ai ai1. dns_ai_open ([49] @ 0 # []) None DNS_T_A ?hints None = Some (Inr ai) \<and>
    dns_ai_nextent (\<lambda>host. Some 16777343, \<lambda>host. None) junk os ai () = Some ((ai1,
      Some \<lparr>ent_family = 2, ent_socktype = 1, ent_protocol = 6,
        ent_addr = Sin (ai_qport ai) 16777343, ent_canonname = None\<rparr>, None), ()) \<and>
    dns_ai_nextent (\<lambda>host. Some 16777343, \<lambda>host. None) junk os ai1 () =
      Some ((ai1, None, Some ENOENT), ())" by blast
qed

end
