(* ===== verification/Addr.thy ===== *)
theory Addr
  imports Addrinfo
begin

unbundle bit_operations_syntax

section \<open>Socket addresses of the async library\<close>

text \<open>
  \<open>addr.cpp\<close>, the client of the DNS library: \<open>SocketAddress\<close> with its constructors from literals,
  interface names and host names. \<open>_data\<close> holds a \<open>sockaddr\<close>; a value-initialised one has family
  \<open>AF_UNSPEC\<close>. A \<open>std::string\<close> is the list of its bytes, \<open>data ()\<close> has a NUL behind them. Ports of the model are in host order. A function that reports through \<open>errno\<close>
  returns it beside its result: \<open>None\<close> is \<open>0\<close>. An abort by \<open>SUIL_ASSERT\<close> is \<open>None\<close>.
\<close>

datatype Mode = IP_ANY | IPV4 | IPV6 | IP_PV4 | IP_PV6

type_synonym errno = "dns_error option"
type_synonym SocketAddress = "dns_sockaddr \<times> errno"

definition ENODEV :: dns_error where "ENODEV = OS_ERROR 19"
definition EADDRNOTAVAIL :: dns_error where "EADDRNOTAVAIL = OS_ERROR 99"

text \<open>\<open>SocketAddress {}\<close>\<close>

definition no_address :: dns_sockaddr where
  "no_address = Sa_other AF_UNSPEC"

text \<open>\<open>htons ((uint16_t) port)\<close>, the value a reader of the field gets.\<close>

definition port16 :: "int \<Rightarrow> nat" where
  "port16 port = nat (port mod 65536)"

subsection \<open>Literals\<close>

text \<open>\<open>inet_pton\<close> is negative only for a family it does not know: the exceptions are not reached.\<close>

definition ipv4FromLiteral :: "inet_pton \<Rightarrow> bytes \<Rightarrow> int \<Rightarrow> SocketAddress" where
  "ipv4FromLiteral pton addr port =
     (case fst pton addr of
        Some a \<Rightarrow> (Sin (port16 port) a, None)
      | None \<Rightarrow> (no_address, Some EINVAL))"

definition ipv6FromLiteral :: "inet_pton \<Rightarrow> bytes \<Rightarrow> int \<Rightarrow> SocketAddress" where
  "ipv6FromLiteral pton addr port =
     (case snd pton addr of
        Some a \<Rightarrow> (Sin6 (port16 port) a, None)
      | None \<Rightarrow> (no_address, Some EINVAL))"

definition ipFromLiteral :: "inet_pton \<Rightarrow> bytes option \<Rightarrow> int \<Rightarrow> Mode \<Rightarrow> SocketAddress" where
  "ipFromLiteral pton addr port mode =
     (case addr of
        None \<Rightarrow> (no_address, Some EINVAL)
      | Some addr \<Rightarrow>
         (if port < 0 \<or> port > 65535 then (no_address, Some EINVAL)
          else (case mode of
             IPV4 \<Rightarrow> ipv4FromLiteral pton addr port
           | IPV6 \<Rightarrow> ipv6FromLiteral pton addr port
           | IP_PV6 \<Rightarrow>
               (let (ipAddr, errno) = ipv6FromLiteral pton addr port in
                if errno = None then (ipAddr, errno) else ipv4FromLiteral pton addr port)
           | _ \<Rightarrow>
               (let (ipAddr, errno) = ipv4FromLiteral pton addr port in
                if errno = None then (ipAddr, errno) else ipv6FromLiteral pton addr port))))"

definition sa_any :: "int \<Rightarrow> Mode \<Rightarrow> SocketAddress" where
  "sa_any port mode =
     (if port < 0 \<or> port > 65535 then (no_address, Some EINVAL)
      else if mode = IP_ANY \<or> mode = IPV4 \<or> mode = IP_PV4 then (Sin (port16 port) 0, None)
      else (Sin6 (port16 port) (replicate 16 0), None))"

subsection \<open>Reading an address\<close>

definition sa_size :: "dns_sockaddr \<Rightarrow> nat" where
  "sa_size sa = (if dns_sa_family sa = AF_INET then 16 else 28)"

text \<open>\<open>port ()\<close> reads the same two bytes for either family; for an address of neither family
  they are what \<open>sa_data\<close> begins with, zero in the addresses made here.\<close>

definition sa_port :: "dns_sockaddr \<Rightarrow> nat" where
  "sa_port sa = (case sa of Sin p a \<Rightarrow> p | Sin6 p a \<Rightarrow> p | _ \<Rightarrow> 0)"

definition sa_bool :: "dns_sockaddr \<Rightarrow> bool" where
  "sa_bool sa \<longleftrightarrow> dns_sa_family sa \<noteq> AF_UNSPEC"

definition sa_str :: "(nat + bytes \<Rightarrow> bytes) \<Rightarrow> dns_sockaddr \<Rightarrow> bytes" where
  "sa_str ntop sa =
     (case sa of
        Sin p a \<Rightarrow> ntop (Inl a)
      | Sin6 p a \<Rightarrow> ntop (Inr a)
      | _ \<Rightarrow> of_string ''<invalid>'')"

subsection \<open>Interfaces\<close>

text \<open>\<open>struct ifaddrs\<close>: the name, and the address or the null pointer. The list is the one
  \<open>getifaddrs\<close> returns.\<close>

type_synonym ifaddrs = "bytes \<times> dns_sockaddr option"

text \<open>The loop over the interfaces: the first IPv4 and the first IPv6 address of the name. A
  second address of a family before the other family is found is an abort.\<close>

fun find_ifaces ::
    "bytes \<Rightarrow> dns_sockaddr option \<Rightarrow> dns_sockaddr option \<Rightarrow> ifaddrs list \<Rightarrow>
     (dns_sockaddr option \<times> dns_sockaddr option) option" where
  "find_ifaces name ipv4 ipv6 [] = Some (ipv4, ipv6)"
| "find_ifaces name ipv4 ipv6 ((ifa_name, ifa_addr) # it) =
     (case ifa_addr of
        None \<Rightarrow> find_ifaces name ipv4 ipv6 it
      | Some sa \<Rightarrow> do {
          c \<leftarrow> c_strcmp ifa_name name;
          if c \<noteq> 0 then find_ifaces name ipv4 ipv6 it
          else do {
            (ipv4, ipv6) \<leftarrow>
              (if dns_sa_family sa = AF_INET
               then if ipv4 = None then Some (Some sa, ipv6) else None
               else if dns_sa_family sa = AF_INET6
               then if ipv6 = None then Some (ipv4, Some sa) else None
               else Some (ipv4, ipv6));
            if ipv4 \<noteq> None \<and> ipv6 \<noteq> None then Some (ipv4, ipv6)
            else find_ifaces name ipv4 ipv6 it } })"

text \<open>The switch on the mode, for interfaces and for the answers of a lookup.\<close>

definition choose_family :: "Mode \<Rightarrow> 'a option \<times> 'a option \<Rightarrow> 'a option \<times> 'a option" where
  "choose_family mode = (\<lambda>(ipv4, ipv6).
     case mode of
       IPV4 \<Rightarrow> (ipv4, None)
     | IPV6 \<Rightarrow> (None, ipv6)
     | IP_PV6 \<Rightarrow> (if ipv6 \<noteq> None then (None, ipv6) else (ipv4, ipv6))
     | _ \<Rightarrow> (if ipv4 \<noteq> None then (ipv4, None) else (ipv4, ipv6)))"

text \<open>\<open>memcpy\<close> of the address, then the port over the one it came with.\<close>

definition with_port :: "int \<Rightarrow> dns_sockaddr \<Rightarrow> dns_sockaddr" where
  "with_port port sa =
     (case sa of
        Sin p a \<Rightarrow> Sin (port16 port) a
      | Sin6 p a \<Rightarrow> Sin6 (port16 port) a
      | sa \<Rightarrow> sa)"

definition sa_local ::
    "inet_pton \<Rightarrow> (dns_error + ifaddrs list) \<Rightarrow> bytes \<Rightarrow> int \<Rightarrow> Mode \<Rightarrow> (dns_error + SocketAddress) option" where
  "sa_local pton getifaddrs name port mode =
     (if name = [] then Some (Inr (sa_any port mode))
      else
      (let (addr, errno) = ipFromLiteral pton (Some (name @ [0])) port mode in
       if errno = None then Some (Inr (addr, errno))
       else (case getifaddrs of
          Inl e \<Rightarrow> Some (Inl e)
        | Inr ifaces \<Rightarrow> do {
            found \<leftarrow> find_ifaces (name @ [0]) None None ifaces;
            (case choose_family mode found of
               (Some sa, _) \<Rightarrow> Some (Inr (with_port port sa, None))
             | (None, Some sa) \<Rightarrow> Some (Inr (with_port port sa, None))
             | (None, None) \<Rightarrow> Some (Inr (no_address, Some ENODEV))) })))"

subsection \<open>Host names\<close>

text \<open>The loop over the entries of a lookup. Its variables are \<open>ipv4\<close>, \<open>ipv6\<close>, the lookup and the
  world; it leaves with the two addresses, or (\<open>Inl\<close>) when the descriptor is not readable at the
  deadline. \<open>fdwait fd\<close> is \<open>co_await fdwait (fd, Event::IN, deadline)\<close>: whether the event fired.\<close>

type_synonym 'w remote_vars =
  "dns_sockaddr option \<times> dns_sockaddr option \<times> 'w dns_addrinfo \<times> 'w"

definition remote_step ::
    "inet_pton \<Rightarrow> dns_any \<Rightarrow> 'w os \<Rightarrow> (int \<Rightarrow> 'w \<Rightarrow> bool \<times> 'w) \<Rightarrow> 'w remote_vars \<Rightarrow>
     ('w remote_vars +
      (dns_sockaddr option \<times> dns_sockaddr option) option \<times> 'w dns_addrinfo \<times> 'w) option" where
  "remote_step pton junk os fdwait = (\<lambda>(ipv4, ipv6, ai, w). do {
     ((ai, it, rc), w) \<leftarrow> dns_ai_nextent pton junk os ai w;
     if rc = Some DNS_EAGAIN then do {
       fd \<leftarrow> dns_ai_pollfd ai w;
       if fd < 0 then None
       else
        (let (fired, w) = fdwait fd w in
         Some (if fired then Inl (ipv4, ipv6, ai, w) else Inr (None, ai, w))) }
     else if rc = Some ENOENT then Some (Inr (Some (ipv4, ipv6), ai, w))
     else
      (let (ipv4, ipv6) =
         (case it of
            None \<Rightarrow> (ipv4, ipv6)
          | Some ent \<Rightarrow>
              if ipv4 = None \<and> ent_family ent = AF_INET then (Some (ent_addr ent), ipv6)
              else if ipv6 = None \<and> ent_family ent = AF_INET6 then (ipv4, Some (ent_addr ent))
              else (ipv4, ipv6)) in
       Some (if ipv4 \<noteq> None \<and> ipv6 \<noteq> None then Inr (Some (ipv4, ipv6), ai, w)
             else Inl (ipv4, ipv6, ai, w))) })"

text \<open>The result: an address with \<open>errno\<close>, or the address at the deadline, when \<open>errno\<close> is what
  the calls before left there.\<close>

datatype remote_result = Resolved dns_sockaddr errno | Expired dns_sockaddr

definition remote_finish ::
    "int \<Rightarrow> Mode \<Rightarrow> dns_sockaddr option \<times> dns_sockaddr option \<Rightarrow> remote_result" where
  "remote_finish port mode found =
     (case choose_family mode found of
        (Some sa, _) \<Rightarrow> Resolved (with_port port sa) None
      | (None, Some sa) \<Rightarrow> Resolved (with_port port sa) None
      | (None, None) \<Rightarrow> Resolved no_address (Some EADDRNOTAVAIL))"

text \<open>\<open>remote\<close> with the configuration files loaded into \<open>conf\<close>, \<open>hosts\<close> and \<open>roots\<close>. At the deadline
  the lookup is not closed.\<close>

definition remote ::
    "inet_pton \<Rightarrow> dns_any \<Rightarrow> 'w os \<Rightarrow> (int \<Rightarrow> 'w \<Rightarrow> bool \<times> 'w) \<Rightarrow>
     dns_resolv_conf \<Rightarrow> dns_hosts \<Rightarrow> dns_hints \<Rightarrow> bytes \<Rightarrow> int \<Rightarrow> Mode \<Rightarrow> 'w \<Rightarrow> (remote_result \<times> 'w) option" where
  "remote pton junk os fdwait conf hosts roots name port mode w =
     (let (addr, errno) = ipFromLiteral pton (Some (name @ [0])) port mode in
      if errno = None then Some (Resolved addr None, w)
      else do {
        (resolver, w) \<leftarrow> dns_res_open os (Some conf) (Some hosts) (Some roots) None (Some dns_opts0) w;
        (case resolver of
           Inl _ \<Rightarrow> None
         | Inr R \<Rightarrow>
             if port < 0 \<or> port > 65535 then None
             else do {
               ai \<leftarrow> dns_ai_open (name @ [0]) (Some (decimal_text (nat port) @ [0])) DNS_T_A
                 \<lparr>ah_flags = 0, ah_family = AF_UNSPEC, ah_socktype = 0, ah_protocol = 0\<rparr> (Some R);
               (case ai of
                  Inl _ \<Rightarrow> None
                | Inr ai \<Rightarrow> do {
                    (found, ai, w) \<leftarrow> c_while (remote_step pton junk os fdwait) (None, None, ai, w);
                    (case found of
                       None \<Rightarrow> Some (Expired addr, w)
                     | Some found \<Rightarrow>
                         Some (remote_finish port mode found, dns_ai_close os (Some ai) w)) }) }) })"

subsection \<open>What \<open>remote\<close> promises\<close>

text \<open>Addresses of the two families that a mode admits, and the port they carry.\<close>

definition admits :: "Mode \<Rightarrow> int \<Rightarrow> dns_sockaddr \<Rightarrow> bool" where
  "admits mode port sa \<longleftrightarrow>
     (case sa of
        Sin p a \<Rightarrow> mode \<noteq> IPV6 \<and> int p = port
      | Sin6 p a \<Rightarrow> mode \<noteq> IPV4 \<and> int p = port
      | _ \<Rightarrow> False)"

definition inet4 :: "dns_sockaddr option \<Rightarrow> bool" where
  "inet4 x \<longleftrightarrow> (case x of None \<Rightarrow> True | Some sa \<Rightarrow> \<exists>p a. sa = Sin p a)"

definition inet6 :: "dns_sockaddr option \<Rightarrow> bool" where
  "inet6 x \<longleftrightarrow> (case x of None \<Rightarrow> True | Some sa \<Rightarrow> \<exists>p a. sa = Sin6 p a)"

lemma ipFromLiteral_admits:
  assumes "ipFromLiteral pton addr port mode = (sa, None)"
  shows "admits mode port sa"
  using assms
  by (auto simp: ipFromLiteral_def ipv4FromLiteral_def ipv6FromLiteral_def admits_def port16_def
      split: option.splits if_splits Mode.splits)

lemma ipFromLiteral_fails:
  "ipFromLiteral pton addr port mode = (sa, Some e) \<Longrightarrow> sa = no_address"
  by (auto simp: ipFromLiteral_def ipv4FromLiteral_def ipv6FromLiteral_def
      split: option.splits if_splits Mode.splits prod.splits)

definition entry_ok :: "addrinfo option \<Rightarrow> bool" where
  "entry_ok it \<longleftrightarrow> (case it of None \<Rightarrow> True
     | Some ent \<Rightarrow> ent_family ent = dns_sa_family (ent_addr ent) \<and>
         (inet4 (Some (ent_addr ent)) \<or> inet6 (Some (ent_addr ent))))"

lemma dns_ai_setent_entry: "dns_ai_setent any type ai = Some (ai', it, e) \<Longrightarrow> entry_ok it"
  by (auto simp: dns_ai_setent_def ai_sockaddr_def entry_ok_def inet4_def inet6_def
      split: Option.bind_splits option.splits if_splits dns_any.splits)

definition next_entry_ok :: "'w dns_addrinfo \<times> 'w + 'w ai_result \<Rightarrow> bool" where
  "next_entry_ok r \<longleftrightarrow> (case r of Inl s \<Rightarrow> True | Inr ((ai, it, e), w) \<Rightarrow> entry_ok it)"

lemma next_entry_intros:
  "ai_goto ai st w = Some r \<Longrightarrow> next_entry_ok r"
  "ai_fail ai err w = Some r \<Longrightarrow> next_entry_ok r"
  "ai_entry any type ai w = Some r \<Longrightarrow> next_entry_ok r"
  by (auto simp: ai_goto_def ai_fail_def ai_entry_def next_entry_ok_def entry_ok_def
      split: Option.bind_splits dest: dns_ai_setent_entry)

lemma ai_cname_or_fail_entry:
  "ai_cname_or_fail junk ai name P w next = Some r \<Longrightarrow>
   (\<And>ai r. next ai = Some r \<Longrightarrow> next_entry_ok r) \<Longrightarrow> next_entry_ok r"
  by (auto simp: ai_cname_or_fail_def split: Option.bind_splits sum.splits if_splits
      dest: next_entry_intros)

lemma step_entry: "dns_ai_nextent_step pton junk os (ai, w) = Some r \<Longrightarrow> next_entry_ok r"
  by (cases "ai_state ai")
     (auto simp: dns_ai_nextent_step_def ai_numeric_def ai_submit_def ai_check_def ai_fetch_def
      ai_foreach_i_def ai_foreach_g_def ai_submit_g_def ai_fetch_g_def ai_done_def ai_follow_def Let_def
      split: Option.bind_splits option.splits prod.splits sum.splits if_splits list.splits
      dest!: next_entry_intros elim!: ai_cname_or_fail_entry)

lemma dns_ai_nextent_entry:
  assumes "dns_ai_nextent pton junk os ai w = Some ((ai', it, e), w')"
  shows "entry_ok it"
proof -
  have "case ((ai', it, e), w') of ((ai, it, e), w) \<Rightarrow> entry_ok it"
    by (rule c_while_invariant [where I = "\<lambda>_. True" and step = "dns_ai_nextent_step pton junk os"
          and s = "(ai, w)", OF assms [unfolded dns_ai_nextent_def]])
       (auto simp: next_entry_ok_def dest!: step_entry split: prod.splits)
  then show ?thesis by simp
qed

lemma remote_found:
  assumes "c_while (remote_step pton junk os fdwait) (None, None, ai, w) = Some (found, ai', w')"
  shows "case found of None \<Rightarrow> True | Some (ipv4, ipv6) \<Rightarrow> inet4 ipv4 \<and> inet6 ipv6"
proof -
  let ?I = "\<lambda>(ipv4, ipv6, ai, w). inet4 ipv4 \<and> inet6 ipv6"
  have step: "case r of Inl s' \<Rightarrow> ?I s' | Inr (found, ai, w) \<Rightarrow>
      (case found of None \<Rightarrow> True | Some (ipv4, ipv6) \<Rightarrow> inet4 ipv4 \<and> inet6 ipv6)"
    if "?I s" "remote_step pton junk os fdwait s = Some r" for s r
    using that
    by (auto simp: remote_step_def Let_def entry_ok_def inet4_def inet6_def c_defs
        split: Option.bind_splits if_splits prod.splits option.splits
        dest!: dns_ai_nextent_entry)
  have "case (found, ai', w') of (found, ai, w) \<Rightarrow>
      (case found of None \<Rightarrow> True | Some (ipv4, ipv6) \<Rightarrow> inet4 ipv4 \<and> inet6 ipv6)"
    by (rule c_while_invariant [where I = ?I, OF assms])
       (use step in \<open>force simp: inet4_def inet6_def\<close>)+
  then show ?thesis by simp
qed

lemma remote_finish_admits:
  assumes "inet4 ipv4" "inet6 ipv6" "0 \<le> port" "port \<le> 65535"
    and "remote_finish port mode (ipv4, ipv6) = Resolved sa errno"
  shows "errno = None \<and> admits mode port sa \<or> errno = Some EADDRNOTAVAIL \<and> sa = no_address"
  using assms
  by (cases mode)
     (auto simp: remote_finish_def choose_family_def inet4_def inet6_def admits_def with_port_def port16_def
      split: option.splits if_splits)

text \<open>What \<open>SocketAddress::remote\<close> resolves is what was asked for. When it returns before the deadline
  with \<open>errno\<close> zero, the address is an IPv4 or IPv6 address of a family that the mode admits, with
  the port of the call, which is a port number; otherwise \<open>errno\<close> is \<open>EADDRNOTAVAIL\<close> and the
  address is \<open>AF_UNSPEC\<close>.\<close>

theorem remote_admits:
  assumes "remote pton junk os fdwait conf hosts roots name port mode w = Some (Resolved sa errno, w')"
  shows "errno = None \<and> admits mode port sa \<and> 0 \<le> port \<and> port \<le> 65535 \<or>
    errno = Some EADDRNOTAVAIL \<and> sa = no_address"
proof (cases "ipFromLiteral pton (Some (name @ [0])) port mode")
  case lit: (Pair addr e)
  show ?thesis
  proof (cases e)
    case None
    with lit assms have "sa = addr" "errno = None" by (auto simp: remote_def)
    moreover have "0 \<le> port \<and> port \<le> 65535"
      using lit None by (auto simp: ipFromLiteral_def split: option.splits if_splits)
    ultimately show ?thesis using ipFromLiteral_admits lit None by auto
  next
    case (Some x)
    have "\<exists>ipv4 ipv6. inet4 ipv4 \<and> inet6 ipv6 \<and> 0 \<le> port \<and> port \<le> 65535 \<and>
        remote_finish port mode (ipv4, ipv6) = Resolved sa errno"
      using assms lit Some
      by (fastforce simp: remote_def split: Option.bind_splits sum.splits if_splits option.splits prod.splits
          dest!: remote_found)
    then show ?thesis using remote_finish_admits by blast
  qed
qed

text \<open>A lookup that is over without an address: what its last call returned.\<close>

definition ends_empty :: "'w dns_addrinfo \<times> 'w + 'w ai_result \<Rightarrow> bool" where
  "ends_empty r \<longleftrightarrow> (case r of Inl s \<Rightarrow> True | Inr ((ai, it, e), w) \<Rightarrow>
     ai_state ai = DNS_AI_S_DONE \<and> ai_found ai = 0 \<longrightarrow>
     it = None \<and> e \<noteq> Some DNS_EAGAIN \<and> e \<noteq> Some ENOENT)"

lemma ends_empty_goto: "ai_goto ai st w = Some r \<Longrightarrow> ends_empty r"
  by (auto simp: ai_goto_def ends_empty_def)

lemma ends_empty_fail: "ai_fail ai err w = Some r \<Longrightarrow> ai_state ai \<noteq> DNS_AI_S_DONE \<Longrightarrow> ends_empty r"
  by (auto simp: ai_fail_def ends_empty_def)

lemma ends_empty_entry:
  "ai_entry any type ai w = Some r \<Longrightarrow>
   ai_state ai \<noteq> DNS_AI_S_DONE \<or> type = DNS_T_A \<or> type = DNS_T_AAAA \<Longrightarrow> ends_empty r"
  by (auto simp: ai_entry_def ends_empty_def dns_ai_setent_def ai_sockaddr_def
      split: Option.bind_splits option.splits if_splits dns_any.splits)

lemma ends_empty_cname:
  "ai_cname_or_fail junk ai name P w next = Some r \<Longrightarrow> ai_state ai \<noteq> DNS_AI_S_DONE \<Longrightarrow>
   (\<And>ai' r. next ai' = Some r \<Longrightarrow> ai_state ai' = ai_state ai \<Longrightarrow> ends_empty r) \<Longrightarrow> ends_empty r"
  by (auto simp: ai_cname_or_fail_def ai_cname_of_def split: Option.bind_splits sum.splits if_splits
      elim!: ends_empty_fail)

lemma ends_empty_done: "ai_done ai w = Some r \<Longrightarrow> ends_empty r"
  by (auto simp: ai_done_def ai_fail_def ends_empty_def c_defs ENOENT_def split: option.splits)

lemma step_ends_empty: "dns_ai_nextent_step pton junk os (ai, w) = Some r \<Longrightarrow> ends_empty r"
  by (cases "ai_state ai")
     (auto simp: dns_ai_nextent_step_def ai_numeric_def ai_submit_def ai_check_def ai_fetch_def
      ai_foreach_i_def ai_foreach_g_def ai_submit_g_def ai_fetch_g_def ai_follow_def Let_def
      split: Option.bind_splits option.splits prod.splits sum.splits if_splits list.splits
      dest!: ends_empty_goto ends_empty_done elim!: ends_empty_fail ends_empty_entry ends_empty_cname)

lemma dns_ai_nextent_ends_empty:
  assumes "dns_ai_nextent pton junk os ai w = Some ((ai', it, e), w')"
    and "ai_state ai' = DNS_AI_S_DONE" "ai_found ai' = 0"
  shows "it = None \<and> e \<noteq> Some DNS_EAGAIN \<and> e \<noteq> Some ENOENT"
proof -
  have "ends_empty (Inr ((ai', it, e), w'))"
    by (rule c_while_invariant [where I = "\<lambda>_. True" and step = "dns_ai_nextent_step pton junk os"
          and s = "(ai, w)", OF assms(1) [unfolded dns_ai_nextent_def]])
       (auto dest: step_ends_empty)
  with assms(2,3) show ?thesis by (simp add: ends_empty_def)
qed

lemma dns_ai_nextent_after_end:
  assumes "ai_state ai = DNS_AI_S_DONE" "ai_found ai = 0"
  shows "\<exists>e. dns_ai_nextent pton junk os ai w = Some ((ai, None, Some e), w)"
  unfolding dns_ai_nextent_def
  by (rule exI, rule c_while_stop) (simp add: dns_ai_nextent_step_def assms ai_done_def ai_fail_def)

text \<open>a lookup that fails is never reported. Once the search of a lookup is over and nothing was
  found (the name does not exist, or the servers refused), this call of \<open>dns_ai_nextent\<close> and every
  later one gives an error that is neither \<open>EAGAIN\<close> nor \<open>ENOENT\<close>: the loop of
  \<open>SocketAddress::remote\<close> goes round for ever without waiting for anything, and never returns.\<close>

theorem remote_spins:
  assumes "dns_ai_nextent pton junk os ai w = Some ((ai1, it, e), w1)"
    and "ai_state ai1 = DNS_AI_S_DONE" "ai_found ai1 = 0"
  shows "(\<forall>n. \<exists>s. c_steps (remote_step pton junk os fdwait) n (None, None, ai, w) = Some (Inl s)) \<and>
    c_while (remote_step pton junk os fdwait) (None, None, ai, w) = None"
proof -
  let ?step = "remote_step pton junk os fdwait"
  have step: "?step (None, None, ai, w) = Some (Inl (None, None, ai1, w1))"
    if "dns_ai_nextent pton junk os ai w = Some ((ai1, it, e), w1)"
      "ai_state ai1 = DNS_AI_S_DONE" "ai_found ai1 = 0" for ai w ai1 it e w1
    using that dns_ai_nextent_ends_empty [OF that] by (simp add: remote_step_def)
  have "\<exists>e. dns_ai_nextent pton junk os ai1 w1 = Some ((ai1, None, Some e), w1)"
    by (rule dns_ai_nextent_after_end) (use assms in simp_all)
  then have again: "?step (None, None, ai1, w1) = Some (Inl (None, None, ai1, w1))"
    using step assms(2,3) by blast
  have "c_steps ?step n (None, None, ai1, w1) = Some (Inl (None, None, ai1, w1))" for n
    by (induction n) (simp_all add: again)
  then have "\<exists>s. c_steps ?step n (None, None, ai, w) = Some (Inl s)" for n
    by (cases n) (simp_all add: step [OF assms])
  then show ?thesis using c_while_diverges [of ?step "(None, None, ai, w)"] by auto
qed

theorem remote_spins_witness:
  "\<forall>pton junk (os :: unit os) fdwait. \<exists>ai :: unit dns_addrinfo.
    ai_state ai = DNS_AI_S_DONE \<and> ai_hints ai = \<lparr>ah_flags = 0, ah_family = 0, ah_socktype = 0, ah_protocol = 0\<rparr> \<and>
    c_while (remote_step pton junk os fdwait) (None, None, ai, ()) = None"
proof (intro allI)
  fix pton junk and os :: "unit os" and fdwait
  let ?ai = "\<lparr>ai_hints = \<lparr>ah_flags = 0, ah_family = 0, ah_socktype = 0, ah_protocol = 0\<rparr>,
    ai_res = None, ai_qname = NAMEBUF, ai_qtype = DNS_T_A, ai_qport = 80, ai_port = 80,
    ai_answer = None, ai_glue = None, ai_i = rr_i0, ai_g = rr_i0, ai_cname = NAMEBUF,
    ai_state = DNS_AI_S_DONE, ai_found = 0\<rparr> :: unit dns_addrinfo"
  obtain e where "dns_ai_nextent pton junk os ?ai () = Some ((?ai, None, Some e), ())"
    using dns_ai_nextent_after_end [of ?ai pton junk os "()"] by auto
  then have "c_while (remote_step pton junk os fdwait) (None, None, ?ai, ()) = None"
    using remote_spins [of pton junk os ?ai "()" ?ai None "Some e" "()" fdwait] by simp
  then show "\<exists>ai :: unit dns_addrinfo.
    ai_state ai = DNS_AI_S_DONE \<and> ai_hints ai = \<lparr>ah_flags = 0, ah_family = 0, ah_socktype = 0, ah_protocol = 0\<rparr> \<and>
    c_while (remote_step pton junk os fdwait) (None, None, ai, ()) = None"
    by (intro exI [of _ ?ai]) simp
qed

theorem remote_admits_witness:
  "\<forall>junk (os :: unit os) fdwait conf hosts roots.
    remote (\<lambda>host. Some 16777343, \<lambda>host. None) junk os fdwait conf hosts roots [49] 53 IP_PV4 () =
      Some (Resolved (Sin 53 16777343) None, ()) \<and> admits IP_PV4 53 (Sin 53 16777343)"
proof (intro allI conjI)
  fix junk and os :: "unit os" and fdwait conf hosts roots
  show eq: "remote (\<lambda>host. Some 16777343, \<lambda>host. None) junk os fdwait conf hosts roots [49] 53 IP_PV4 () =
      Some (Resolved (Sin 53 16777343) None, ())"
    by (simp add: remote_def ipFromLiteral_def ipv4FromLiteral_def port16_def)
  from remote_admits [OF this] show "admits IP_PV4 53 (Sin 53 16777343)" by simp
qed

end
