(* ===== verification/Base64.thy ===== *)
theory Base64
  imports Prelude
begin

unbundle bit_operations_syntax

section \<open>Base64\<close>

text \<open>
  \<open>b64.cpp\<close>. A \<open>std::ostream\<close> is the list of the bytes written to it so far; the encoder and the
  decoder append to it. The input of the decoder is the memory from \<open>in\<close> on with a length: the
  decoder may read behind the length, and a read behind the end of the object is \<open>None\<close>.
\<close>

definition b64table :: "bytes" where
  "b64table = map of_nat ([65..<91] @ [97..<123] @ [48..<58] @ [43, 47])"

definition ASCII_LOOKUP :: "nat list" where
  "ASCII_LOOKUP =
    [64, 64, 64, 64, 64, 64, 64, 64, 64, 64, 64, 64, 64, 64, 64, 64,
     64, 64, 64, 64, 64, 64, 64, 64, 64, 64, 64, 64, 64, 64, 64, 64,
     64, 64, 64, 64, 64, 64, 64, 64, 64, 64, 64, 62, 64, 64, 64, 63,
     52, 53, 54, 55, 56, 57, 58, 59, 60, 61, 64, 64, 64, 64, 64, 64,
     64,  0,  1,  2,  3,  4,  5,  6,  7,  8,  9, 10, 11, 12, 13, 14,
     15, 16, 17, 18, 19, 20, 21, 22, 23, 24, 25, 64, 64, 64, 64, 64,
     64, 26, 27, 28, 29, 30, 31, 32, 33, 34, 35, 36, 37, 38, 39, 40,
     41, 42, 43, 44, 45, 46, 47, 48, 49, 50, 51, 64, 64, 64, 64, 64]
    @ replicate 128 64"

subsection \<open>Encoding\<close>

definition b64char :: "nat \<Rightarrow> byte" where
  "b64char k = b64table ! k"

text \<open>The loop takes three bytes at a time; the last one or two are padded.\<close>

fun b64_encode :: "bytes \<Rightarrow> bytes \<Rightarrow> bytes" where
  "b64_encode os (a # b # c # data) =
     b64_encode (os @
       [b64char (drop_bit 2 (unat a AND 252)),
        b64char (push_bit 4 (unat a AND 3) OR drop_bit 4 (unat b AND 240)),
        b64char (push_bit 2 (unat b AND 15) OR drop_bit 6 (unat c AND 192)),
        b64char (unat c AND 63)]) data"
| "b64_encode os [a] = os @
     [b64char (drop_bit 2 (unat a AND 252)),
      b64char (push_bit 4 (unat a AND 3)), 61, 61]"
| "b64_encode os [a, b] = os @
     [b64char (drop_bit 2 (unat a AND 252)),
      b64char (push_bit 4 (unat a AND 3) OR drop_bit 4 (unat b AND 240)),
      b64char (push_bit 2 (unat b AND 15)), 61]"
| "b64_encode os [] = os"

subsection \<open>Decoding\<close>

definition b64_lookup :: "byte \<Rightarrow> nat" where
  "b64_lookup c = ASCII_LOOKUP ! unat c"

text \<open>\<open>char (x << m | y >> n)\<close>, kept to eight bits.\<close>

definition b64_char :: "nat \<Rightarrow> nat \<Rightarrow> nat \<Rightarrow> nat \<Rightarrow> byte" where
  "b64_char m x n y = of_nat (push_bit m x OR drop_bit n y)"

text \<open>The loop over groups of four, for as long as more than four bytes are left: the position and
  the bytes left at its end, or the exception.\<close>

datatype b64_error = InvalidArguments

definition b64_group_step ::
    "bytes \<Rightarrow> bytes \<times> nat \<times> nat \<Rightarrow>
     (bytes \<times> nat \<times> nat + bytes \<times> (b64_error + nat \<times> nat)) option" where
  "b64_group_step mem = (\<lambda>(os, it, sz).
     if sz > 4 then do {
       c0 \<leftarrow> rd mem it;
       c1 \<leftarrow> rd mem (it + 1);
       c2 \<leftarrow> rd mem (it + 2);
       c3 \<leftarrow> rd mem (it + 3);
       if b64_lookup c0 = 64 \<or> b64_lookup c1 = 64 \<or> b64_lookup c2 = 64 \<or> b64_lookup c3 = 64
       then Some (Inr (os, Inl InvalidArguments))
       else Some (Inl (os @
         [b64_char 2 (b64_lookup c0) 4 (b64_lookup c1),
          b64_char 4 (b64_lookup c1) 2 (b64_lookup c2),
          b64_char 6 (b64_lookup c2) 0 (b64_lookup c3)], it + 4, sz - 4)) }
     else Some (Inr (os, Inr (it, sz))))"

text \<open>\<open>while ((it[i] != '=') && (ASCII_LOOKUP[it[i]] != 64) && (i++ < 4));\<close>\<close>

definition b64_tail_step :: "bytes \<Rightarrow> nat \<Rightarrow> nat \<Rightarrow> (nat + nat) option" where
  "b64_tail_step mem it i = do {
     c \<leftarrow> rd mem (it + i);
     Some (if c \<noteq> 61 \<and> b64_lookup c \<noteq> 64
           then (if i < 4 then Inl (i + 1) else Inr (i + 1))
           else Inr i) }"

text \<open>One of the last three bytes, if there are more than \<open>k\<close> characters.\<close>

definition b64_last ::
    "bytes \<Rightarrow> nat \<Rightarrow> nat \<Rightarrow> nat \<Rightarrow> nat \<Rightarrow> nat \<Rightarrow> nat \<Rightarrow> bytes \<Rightarrow> bytes option" where
  "b64_last mem it sz k m n j os =
     (if sz > k then do {
        x \<leftarrow> rd mem (it + j);
        y \<leftarrow> rd mem (it + j + 1);
        Some (os @ [b64_char m (b64_lookup x) n (b64_lookup y)]) }
      else Some os)"

definition b64_decode :: "bytes \<Rightarrow> bytes \<Rightarrow> nat \<Rightarrow> (bytes \<times> b64_error option) option" where
  "b64_decode os mem size_in = do {
     (os, r) \<leftarrow> c_while (b64_group_step mem) (os, 0, size_in);
     (case r of
        Inl e \<Rightarrow> Some (os, Some e)
      | Inr (it, sz) \<Rightarrow> do {
          i \<leftarrow> c_while (b64_tail_step mem it) 0;
          bad \<leftarrow> (if sz_sub sz i \<noteq> 0 then do { c \<leftarrow> rd mem (it + i); Some (c \<noteq> 61) } else Some False);
          if bad then Some (os, Some InvalidArguments)
          else do {
            let sz = (if i \<le> 4 then sz_sub sz (4 - i) else sz + (i - 4));
            os \<leftarrow> b64_last mem it sz 1 2 4 0 os;
            os \<leftarrow> b64_last mem it sz 2 4 2 1 os;
            os \<leftarrow> b64_last mem it sz 3 6 0 2 os;
            Some (os, None) } }) }"

subsection \<open>The round trip\<close>

lemma lookup_b64char: "k < 64 \<Longrightarrow> b64_lookup (b64char k) = k"
proof -
  have "list_all (\<lambda>k. b64_lookup (b64char k) = k) [0..<64]"
    by (simp add: b64_lookup_def b64char_def b64table_def ASCII_LOOKUP_def upt_rec)
  then show "k < 64 \<Longrightarrow> b64_lookup (b64char k) = k" by (simp add: list_all_iff)
qed

lemma b64_encode_append: "b64_encode os xs = os @ b64_encode [] xs"
proof -
  have "\<forall>os. b64_encode os xs = os @ b64_encode [] xs"
  proof (rule b64_encode.induct [of "\<lambda>_ xs. \<forall>os. b64_encode os xs = os @ b64_encode [] xs"])
    fix os a b c data
    assume IH: "\<forall>os. b64_encode os data = os @ b64_encode [] data"
    have "b64_encode (os @ ys) data = os @ ys @ b64_encode [] data" for os ys
      using IH [rule_format, of "os @ ys"] by simp
    from this [of os for os] this [of "[]"]
    show "\<forall>os. b64_encode os (a # b # c # data) = os @ b64_encode [] (a # b # c # data)"
      by (simp only: b64_encode.simps) simp
  qed simp_all
  then show ?thesis ..
qed

text \<open>What the encoder and the decoder compute, in numbers.\<close>

lemma nat_and_mask: "n AND (2 ^ k - 1) = n mod 2 ^ k" for n :: nat
  using take_bit_eq_mask [of k n] by (simp add: mask_eq_exp_minus_1 take_bit_eq_mod)

lemma b64_sextets:
  assumes "a < 256" "b < 256"
  shows "drop_bit 2 (a AND 252) = (a :: nat) div 4"
    and "push_bit 4 (a AND 3) = a mod 4 * 16"
    and "push_bit 4 (a AND 3) OR drop_bit 4 (b AND 240) = a mod 4 * 16 + b div 16"
    and "push_bit 2 (a AND 15) = a mod 16 * 4"
    and "push_bit 2 (a AND 15) OR drop_bit 6 (b AND 192) = a mod 16 * 4 + b div 64"
    and "a AND 63 = a mod 64"
proof -
  have mask: "n AND 3 = n mod 4" "n AND 15 = n mod 16" "n AND 63 = n mod 64" for n :: nat
    using nat_and_mask [of n 2] nat_and_mask [of n 4] nat_and_mask [of n 6] by simp_all
  have top: "drop_bit 2 (n AND 252) = n div 4" "drop_bit 4 (n AND 240) = n div 16"
    "drop_bit 6 (n AND 192) = n div 64" if "n < 256" for n :: nat
    using that by (simp_all only: drop_bit_and) (simp_all add: mask, simp_all add: drop_bit_eq_div)
  have low: "b div 16 < 2 ^ 4" "b div 64 < 2 ^ 2" using assms by simp_all
  show "drop_bit 2 (a AND 252) = a div 4" by (rule top(1)) (rule assms)
  show "push_bit 4 (a AND 3) = a mod 4 * 16" "push_bit 2 (a AND 15) = a mod 16 * 4"
    "a AND 63 = a mod 64"
    by (simp_all add: mask push_bit_eq_mult)
  show "push_bit 4 (a AND 3) OR drop_bit 4 (b AND 240) = a mod 4 * 16 + b div 16"
    "push_bit 2 (a AND 15) OR drop_bit 6 (b AND 192) = a mod 16 * 4 + b div 64"
    unfolding top(2,3) [OF assms(2)] mask
    using nat_or_disjoint [OF low(1), of "a mod 4"] nat_or_disjoint [OF low(2), of "a mod 16"]
    by simp_all
qed

lemma b64_octets:
  assumes "a < 256" "b < 256" "c < 256"
  shows "b64_char 2 (a div 4) 4 (a mod 4 * 16 + b div 16) = of_nat a"
    and "b64_char 4 (a mod 4 * 16 + b div 16) 2 (b mod 16 * 4 + c div 64) = of_nat b"
    and "b64_char 6 (b mod 16 * 4 + c div 64) 0 (c mod 64) = of_nat c"
proof -
  have cat: "b64_char m x n y = of_nat (x * 2 ^ m + drop_bit n y)" if "drop_bit n y < 2 ^ m" for m x n y
    by (simp add: b64_char_def nat_or_disjoint [OF that])
  have byte: "(of_nat (x * 256 + n) :: byte) = of_nat n" for x n
    by (simp only: word_unat_eq_iff unat_of_nat) simp
  have d: "drop_bit 4 (a mod 4 * 16 + b div 16) = a mod 4" "drop_bit 2 (b mod 16 * 4 + c div 64) = b mod 16"
    using assms by (simp_all add: drop_bit_eq_div)
  have n: "a div 4 * 4 + a mod 4 = a"
    "(a mod 4 * 16 + b div 16) * 16 + b mod 16 = a mod 4 * 256 + b"
    "(b mod 16 * 4 + c div 64) * 64 + c mod 64 = b mod 16 * 256 + c"
    by (simp_all add: algebra_simps)
  have "b64_char 4 (a mod 4 * 16 + b div 16) 2 (b mod 16 * 4 + c div 64) =
      of_nat ((a mod 4 * 16 + b div 16) * 2 ^ 4 + drop_bit 2 (b mod 16 * 4 + c div 64))"
    by (rule cat) (simp add: d)
  also have "(a mod 4 * 16 + b div 16) * 2 ^ 4 + drop_bit 2 (b mod 16 * 4 + c div 64) = a mod 4 * 256 + b"
    unfolding d using n(2) by simp
  finally show "b64_char 4 (a mod 4 * 16 + b div 16) 2 (b mod 16 * 4 + c div 64) = of_nat b"
    unfolding byte .
  have "b64_char 6 (b mod 16 * 4 + c div 64) 0 (c mod 64) =
      of_nat ((b mod 16 * 4 + c div 64) * 2 ^ 6 + drop_bit 0 (c mod 64))"
    by (rule cat) simp
  also have "(b mod 16 * 4 + c div 64) * 2 ^ 6 + drop_bit 0 (c mod 64) = b mod 16 * 256 + c"
    using n(3) by simp
  finally show "b64_char 6 (b mod 16 * 4 + c div 64) 0 (c mod 64) = of_nat c"
    unfolding byte .
  show "b64_char 2 (a div 4) 4 (a mod 4 * 16 + b div 16) = of_nat a"
    using cat [of 4 "a mod 4 * 16 + b div 16" 2 "a div 4"] n(1) d(1) by simp
qed

text \<open>The decoder from the middle of its input.\<close>

definition b64_decode_from :: "bytes \<Rightarrow> bytes \<Rightarrow> nat \<Rightarrow> nat \<Rightarrow> (bytes \<times> b64_error option) option" where
  "b64_decode_from mem os it sz = do {
     (os, r) \<leftarrow> c_while (b64_group_step mem) (os, it, sz);
     (case r of
        Inl e \<Rightarrow> Some (os, Some e)
      | Inr (it, sz) \<Rightarrow> do {
          i \<leftarrow> c_while (b64_tail_step mem it) 0;
          bad \<leftarrow> (if sz_sub sz i \<noteq> 0 then do { c \<leftarrow> rd mem (it + i); Some (c \<noteq> 61) } else Some False);
          if bad then Some (os, Some InvalidArguments)
          else do {
            let sz = (if i \<le> 4 then sz_sub sz (4 - i) else sz + (i - 4));
            os \<leftarrow> b64_last mem it sz 1 2 4 0 os;
            os \<leftarrow> b64_last mem it sz 2 4 2 1 os;
            os \<leftarrow> b64_last mem it sz 3 6 0 2 os;
            Some (os, None) } }) }"

lemma b64_decode_from: "b64_decode os mem n = b64_decode_from mem os 0 n"
  by (simp only: b64_decode_def b64_decode_from_def)

text \<open>The four characters of a group, and their values.\<close>

definition sextets :: "byte \<Rightarrow> byte \<Rightarrow> byte \<Rightarrow> nat list" where
  "sextets a b c = [unat a div 4, unat a mod 4 * 16 + unat b div 16,
     unat b mod 16 * 4 + unat c div 64, unat c mod 64]"

lemma sextets_less: "\<forall>k \<in> set (sextets a b c). k < 64"
proof -
  have "unat a div 4 < 64" "unat b div 16 < 16" "unat c div 64 < 4" "unat a mod 4 < 4" "unat b mod 16 < 16"
    by (simp_all add: div_less_iff_less_mult)
  then have "unat a mod 4 * 16 + unat b div 16 < 64" "unat b mod 16 * 4 + unat c div 64 < 64"
    by linarith+
  then show ?thesis by (simp add: sextets_def div_less_iff_less_mult)
qed

lemma b64_octets_byte:
  "b64_char 2 (unat a div 4) 4 (unat a mod 4 * 16 + unat b div 16) = (a :: byte)"
  "b64_char 4 (unat a mod 4 * 16 + unat b div 16) 2 (unat b mod 16 * 4 + unat c div 64) = (b :: byte)"
  "b64_char 6 (unat b mod 16 * 4 + unat c div 64) 0 (unat c mod 64) = (c :: byte)"
  "b64_char 2 (unat a div 4) 4 (unat a mod 4 * 16) = a"
  "b64_char 4 (unat a mod 4 * 16 + unat b div 16) 2 (unat b mod 16 * 4) = b"
  using b64_octets [of "unat a" "unat b" "unat c"] b64_octets [of "unat a" 0 0]
    b64_octets [of "unat a" "unat b" 0] by simp_all

lemma b64_encode_sextets:
  "b64_encode [] (a # b # c # data) = map b64char (sextets a b c) @ b64_encode [] data"
  "b64_encode [] [a] = map b64char (take 2 (sextets a 0 0)) @ [61, 61]"
  "b64_encode [] [a, b] = map b64char (take 3 (sextets a b 0)) @ [61]"
  using b64_encode_append [of "map b64char (sextets a b c)" data]
  unfolding b64_encode.simps
  unfolding b64_sextets(1,3,5,6) [OF unat_byte_less unat_byte_less]
  unfolding b64_sextets(2,4) [OF unat_byte_less unat_byte_less]
  by (simp_all add: sextets_def)

lemma b64_valid: "k < 64 \<Longrightarrow> b64char k \<noteq> 61 \<and> b64char k \<noteq> 0"
  using lookup_b64char [of k] by (auto simp: b64_lookup_def ASCII_LOOKUP_def)

lemma rd_at:
  assumes "drop it mem = xs @ ys" "j < length xs"
  shows "rd mem (it + j) = Some (xs ! j)"
proof -
  have "length mem - it = length xs + length ys" using arg_cong [OF assms(1), of length] by simp
  with assms(2) have "it + j < length mem" by simp
  moreover from this have "mem ! (it + j) = xs ! j"
    using arg_cong [OF assms(1), of "\<lambda>ys. ys ! j"] assms(2) by (simp add: nth_append)
  ultimately show ?thesis by simp
qed

lemma b64_tail_scan:
  assumes at: "drop it mem = map b64char ks @ c # rest" and ks: "\<forall>k \<in> set ks. k < 64" "length ks \<le> 4"
    and c: "c = 61 \<or> b64_lookup c = 64"
  shows "c_while (b64_tail_step mem it) 0 = Some (length ks)"
proof -
  have "c_while (b64_tail_step mem it) i = Some (length ks)" if "i \<le> length ks" for i
    using that
  proof (induction rule: inc_induct)
    case base
    have "rd mem (it + length ks) = Some c"
      using rd_at [of it mem "map b64char ks @ [c]" rest "length ks"] at by (simp add: nth_append)
    with c show ?case by (intro c_while_stop) (simp add: b64_tail_step_def)
  next
    case (step i)
    have "rd mem (it + i) = Some (b64char (ks ! i))" "ks ! i < 64"
      using rd_at [OF at, of i] step ks by (simp_all add: nth_mem)
    with step ks(2) have "b64_tail_step mem it i = Some (Inl (i + 1))"
      by (auto simp: b64_tail_step_def b64_valid lookup_b64char)
    with step show ?case by (simp add: c_while_next)
  qed
  then show ?thesis by simp
qed

lemma b64_decode_group:
  assumes at: "drop it mem = map b64char (sextets a b c) @ xs" and sz: "4 < sz"
  shows "b64_decode_from mem os it sz = b64_decode_from mem (os @ [a, b, c]) (it + 4) (sz - 4)"
proof -
  have ks: "\<forall>k \<in> set (sextets a b c). k < 64 \<and> k \<noteq> 64" using sextets_less by fastforce
  note rds = rd_at [OF at, of 0] rd_at [OF at, of 1] rd_at [OF at, of 2] rd_at [OF at, of 3]
  have "b64_group_step mem (os, it, sz) = Some (Inl (os @ [a, b, c], it + 4, sz - 4))"
    using sz ks rds by (simp add: b64_group_step_def sextets_def lookup_b64char b64_octets_byte)
  then show ?thesis by (simp add: b64_decode_from_def c_while_next [of "b64_group_step mem"])
qed

lemma b64_decode_stop:
  assumes "drop it mem = map b64char ks @ c # rest" "\<forall>k \<in> set ks. k < 64" "length ks \<le> 4"
    and "c = 61 \<or> b64_lookup c = 64" "length ks = 4 \<or> c = 61"
  shows "b64_decode_from mem os it 4 = do {
     os \<leftarrow> b64_last mem it (length ks) 1 2 4 0 os;
     os \<leftarrow> b64_last mem it (length ks) 2 4 2 1 os;
     os \<leftarrow> b64_last mem it (length ks) 3 6 0 2 os;
     Some (os, None) }"
proof -
  have "c_while (b64_group_step mem) (os, it, 4) = Some (os, Inr (it, 4))"
    by (rule c_while_stop) (simp add: b64_group_step_def)
  moreover have "rd mem (it + length ks) = Some c"
    using rd_at [of it mem "map b64char ks @ [c]" rest "length ks"] assms(1) by (simp add: nth_append)
  ultimately show ?thesis
    using b64_tail_scan [OF assms(1-4)] assms(3,5)
    by (auto simp: b64_decode_from_def Let_def)
qed

lemma b64_last_char:
  assumes "drop it mem = map b64char ks @ rest" "\<forall>k \<in> set ks. k < 64" "j + 1 < length ks" "k < sz"
  shows "b64_last mem it sz k m n j os = Some (os @ [b64_char m (ks ! j) n (ks ! (j + 1))])"
  using rd_at [OF assms(1), of j] rd_at [OF assms(1), of "j + 1"] assms(2-4)
  by (simp add: b64_last_def lookup_b64char)

lemma b64_last_none: "sz \<le> k \<Longrightarrow> b64_last mem it sz k m n j os = Some os"
  by (simp add: b64_last_def)

lemma b64_decode_tail:
  "drop it mem = map b64char (sextets a b c) @ 0 # rest \<Longrightarrow>
     b64_decode_from mem os it 4 = Some (os @ [a, b, c], None)"
  "drop it mem = map b64char (take 3 (sextets a b 0)) @ 61 # rest \<Longrightarrow>
     b64_decode_from mem os it 4 = Some (os @ [a, b], None)"
  "drop it mem = map b64char (take 2 (sextets a 0 0)) @ 61 # rest \<Longrightarrow>
     b64_decode_from mem os it 4 = Some (os @ [a], None)"
proof -
  have less: "\<forall>k \<in> set (take n (sextets a b c)). k < 64" for n a b c
    using sextets_less by (meson in_set_takeD)
  have zero: "b64_lookup 0 = 64" by (simp add: b64_lookup_def ASCII_LOOKUP_def)
  {
    assume at: "drop it mem = map b64char (sextets a b c) @ 0 # rest"
    show "b64_decode_from mem os it 4 = Some (os @ [a, b, c], None)"
      using b64_decode_stop [OF at sextets_less] zero b64_last_char [OF at sextets_less]
      by (simp add: sextets_def b64_octets_byte)
  next
    assume at: "drop it mem = map b64char (take 3 (sextets a b 0)) @ 61 # rest"
    show "b64_decode_from mem os it 4 = Some (os @ [a, b], None)"
      using b64_decode_stop [OF at less] b64_last_char [OF at less] b64_last_none
      by (simp add: sextets_def b64_octets_byte)
  next
    assume at: "drop it mem = map b64char (take 2 (sextets a 0 0)) @ 61 # rest"
    show "b64_decode_from mem os it 4 = Some (os @ [a], None)"
      using b64_decode_stop [OF at less] b64_last_char [OF at less] b64_last_none
      by (simp add: sextets_def b64_octets_byte)
  }
qed

lemma b64_encode_nonempty: "xs \<noteq> [] \<Longrightarrow> b64_encode [] xs \<noteq> []"
  by (cases "([] :: bytes, xs)" rule: b64_encode.cases)
     (auto simp: b64_encode_sextets sextets_def simp del: b64_encode.simps)

lemma b64_padded: "length (b64_encode [] [a]) = 4" "length (b64_encode [] [a, b]) = 4"
  by simp_all

lemma b64_decode_from_encode:
  "\<forall>os it. xs \<noteq> [] \<longrightarrow> drop it mem = b64_encode [] xs @ 0 # rest \<longrightarrow>
   b64_decode_from mem os it (length (b64_encode [] xs)) = Some (os @ xs, None)" (is "?P xs")
proof (rule b64_encode.induct [of "\<lambda>_. ?P"], safe)
  fix a b c data os it
  assume IH: "?P data" and mem: "drop it mem = b64_encode [] (a # b # c # data) @ 0 # rest"
  let ?g = "map b64char (sextets a b c)"
  have four: "length ?g = 4" by (simp add: sextets_def)
  have at: "drop it mem = ?g @ b64_encode [] data @ 0 # rest"
    using mem unfolding b64_encode_sextets by simp
  have len: "length (b64_encode [] (a # b # c # data)) = 4 + length (b64_encode [] data)"
    unfolding b64_encode_sextets using four by simp
  show "b64_decode_from mem os it (length (b64_encode [] (a # b # c # data))) = Some (os @ a # b # c # data, None)"
  proof (cases "data = []")
    case True
    then have "length (b64_encode [] (a # b # c # data)) = 4" using len by simp
    with True show ?thesis using b64_decode_tail(1) [of it mem a b c rest os] at
      by (simp del: b64_encode.simps(1))
  next
    case False
    have "drop (it + 4) mem = b64_encode [] data @ 0 # rest"
      using arg_cong [OF at, of "drop 4"] four by (simp add: add.commute)
    from IH [rule_format, OF False this, of "os @ [a, b, c]"] b64_decode_group [OF at, of "4 + length (b64_encode [] data)" os]
    show ?thesis using b64_encode_nonempty [OF False] by (simp add: len del: b64_encode.simps)
  qed
next
  fix a os it
  assume "drop it mem = b64_encode [] [a] @ 0 # rest"
  then show "b64_decode_from mem os it (length (b64_encode [] [a])) = Some (os @ [a], None)"
    unfolding b64_padded using b64_decode_tail(3) [of it mem a "61 # 0 # rest" os]
    by (simp add: b64_encode_sextets sextets_def del: b64_encode.simps)
next
  fix a b os it
  assume "drop it mem = b64_encode [] [a, b] @ 0 # rest"
  then show "b64_decode_from mem os it (length (b64_encode [] [a, b])) = Some (os @ [a, b], None)"
    unfolding b64_padded using b64_decode_tail(2) [of it mem a b "0 # rest" os]
    by (simp add: b64_encode_sextets sextets_def del: b64_encode.simps)
qed

text \<open>C29: decoding inverts encoding. The decoder, given the encoding of any bytes but the empty
  sequence in memory with a NUL behind it (what \<open>std::string::data\<close> gives), appends those bytes to
  its output and reads nothing behind the NUL.\<close>

theorem b64_decode_encode:
  assumes "xs \<noteq> []"
  shows "b64_decode os (b64_encode [] xs @ 0 # rest) (length (b64_encode [] xs)) = Some (os @ xs, None)"
  unfolding b64_decode_from using b64_decode_from_encode [of xs _ rest] assms by simp

theorem b64_decode_encode_witness:
  "b64_decode [] (map of_nat [81, 85, 73, 61] @ 0 # []) 4 = Some ([65, 66], None)"
proof -
  have enc: "b64_encode [] [65, 66] = map of_nat [81, 85, 73, 61]"
    by (simp add: b64char_def b64table_def upt_rec)
  then have len: "length (b64_encode [] [65, 66]) = 4" by simp
  have "b64_decode [] (b64_encode [] [65, 66] @ 0 # []) (length (b64_encode [] [65, 66])) = Some ([] @ [65, 66], None)"
    by (rule b64_decode_encode) simp
  then show ?thesis by (simp only: len) (simp only: enc, simp)
qed

text \<open>The one exception: the empty text is not decoded but read past its end, because the number of
  characters left wraps around.\<close>

lemma b64_decode_empty: "b64_decode os [0] 0 = None"
proof -
  have "c_while (b64_group_step [0]) (os, 0, 0) = Some (os, Inr (0, 0))"
    by (rule c_while_stop) (simp add: b64_group_step_def)
  moreover have "c_while (b64_tail_step [0] 0) 0 = Some 0"
    by (rule c_while_stop) (simp add: b64_tail_step_def b64_lookup_def ASCII_LOOKUP_def)
  ultimately show ?thesis
    by (simp add: b64_decode_def b64_last_def sz_sub_def rd_def Let_def)
qed

text \<open>And the NUL is needed: a view into a longer text is refused when a letter follows it.\<close>

lemma b64_decode_view:
  "b64_decode [] (map of_nat [81, 85, 74, 68, 88, 0]) 4 = Some ([], Some InvalidArguments)"
proof -
  let ?mem = "map of_nat [81, 85, 74, 68, 88, 0] :: bytes"
  have "c_while (b64_group_step ?mem) ([], 0, 4) = Some ([], Inr (0, 4))"
    by (rule c_while_stop) (simp add: b64_group_step_def)
  moreover have "c_while (b64_tail_step ?mem 0) 0 = Some 5"
    by (simp add: c_while.simps b64_tail_step_def b64_lookup_def ASCII_LOOKUP_def)
  ultimately show ?thesis
    by (simp add: b64_decode_def sz_sub_def)
qed

end
