(* ===== verification/Url.thy ===== *)
theory Url
  imports Prelude
begin

unbundle bit_operations_syntax

section \<open>Percent encoding\<close>

text \<open>
  \<open>url.cpp\<close>. \<open>isalnum\<close> is that of the C locale, which knows the ASCII letters and digits only. The
  output stream is the list of the bytes put into it.
\<close>

definition c_isalnum :: "byte \<Rightarrow> bool" where
  "c_isalnum c \<longleftrightarrow> (48 \<le> c \<and> c \<le> 57) \<or> (65 \<le> c \<and> c \<le> 90) \<or> (97 \<le> c \<and> c \<le> 122)"

definition HexChars :: "bytes" where
  "HexChars = [48, 49, 50, 51, 52, 53, 54, 55, 56, 57, 65, 66, 67, 68, 69, 70]"

text \<open>\<open>strchr\<close> finds the NUL at the end of its string, too.\<close>

definition url_plain :: "byte \<Rightarrow> bool" where
  "url_plain c \<longleftrightarrow> c_isalnum c \<or> c \<in> set [45, 95, 46, 126, 0]"

fun url_encode :: "bytes \<Rightarrow> bytes" where
  "url_encode [] = []"
| "url_encode (c # src) =
     (if \<not> url_plain c
      then [37, HexChars ! unat (drop_bit 4 (c AND 240)), HexChars ! unat (c AND 15)] @ url_encode src
      else c # url_encode src)"

definition is_hex_char :: "byte \<Rightarrow> bool" where
  "is_hex_char ch \<longleftrightarrow> (48 \<le> ch \<and> ch \<le> 57) \<or> (97 \<le> ch \<and> ch \<le> 102) \<or> (65 \<le> ch \<and> ch \<le> 70)"

definition hex_value :: "byte \<Rightarrow> byte" where
  "hex_value ch =
     (if 48 \<le> ch \<and> ch \<le> 57 then ch - 48
      else if 97 \<le> ch \<and> ch \<le> 102 then ch - 97 + 10
      else ch - 65 + 10)"

text \<open>The loop: its variables are the output and \<open>start\<close>.\<close>

definition url_decode_step :: "bytes \<Rightarrow> nat \<Rightarrow> bytes \<times> nat \<Rightarrow> (bytes \<times> nat + bytes) option" where
  "url_decode_step src len = (\<lambda>(os, start).
     if start < len then do {
       c \<leftarrow> rd src start;
       if c = 37 \<and> start + 2 < len then do {
         c_high \<leftarrow> rd src (start + 1);
         c_low \<leftarrow> rd src (start + 2);
         Some (Inl (if is_hex_char c_high \<and> is_hex_char c_low
           then (os @ [push_bit 4 (hex_value c_high) OR hex_value c_low], start + 3)
           else (os @ [c], start + 1))) }
       else if c = 43 then Some (Inl (os @ [32], start + 1))
       else Some (Inl (os @ [c], start + 1)) }
     else Some (Inr os))"

text \<open>The length goes through an \<open>int\<close> on its way to the loop.\<close>

definition int_length :: "nat \<Rightarrow> nat" where
  "int_length len =
     (let n = len mod 2 ^ 32 in if n < 2 ^ 31 then n else 2 ^ 64 - 2 ^ 32 + n)"

definition url_decode :: "bytes \<Rightarrow> nat \<Rightarrow> bytes option" where
  "url_decode src len = c_while (url_decode_step src (int_length len)) ([], 0)"

subsection \<open>Decoding is total\<close>

text \<open>On any text of less than two gigabytes the decoder stays inside it and its output is no
  longer than the text.\<close>

interpretation url: bounded_loop "url_decode_step src len"
    "\<lambda>(os, start). len \<le> length src \<and> start \<le> len \<and> length os \<le> start" "\<lambda>(os, start). len - start"
    "\<lambda>os. length os \<le> len"
  for src len
  by unfold_locales (auto simp: url_decode_step_def split: if_splits Option.bind_splits)

lemma int_length_small: "len < 2 ^ 31 \<Longrightarrow> int_length len = len"
  by (simp add: int_length_def)

lemma url_decode_total:
  "len \<le> length src \<Longrightarrow> len < 2 ^ 31 \<Longrightarrow> \<exists>ys. url_decode src len = Some ys \<and> length ys \<le> len"
  using url.returns [where s = "([], 0)" and len = len and src = src] by (auto simp: url_decode_def int_length_small)

subsection \<open>The round trip\<close>

lemma hex_chars:
  assumes "n < 16"
  shows "is_hex_char (HexChars ! n) \<and> hex_value (HexChars ! n) = of_nat n"
proof -
  have "list_all (\<lambda>n. is_hex_char (HexChars ! n) \<and> hex_value (HexChars ! n) = of_nat n) [0..<16]"
    by (simp add: is_hex_char_def hex_value_def HexChars_def upt_rec)
  with assms show ?thesis by (simp add: list_all_iff)
qed

lemma nibbles:
  fixes c :: byte
  shows "unat (drop_bit 4 (c AND 240)) < 16" "unat (c AND 15) < 16"
    "push_bit 4 (of_nat (unat (drop_bit 4 (c AND 240)))) OR of_nat (unat (c AND 15)) = c"
proof -
  have mask: "(15 :: byte) = mask 4" by (simp add: mask_eq_exp_minus_1)
  then have 2: "n AND 15 = take_bit 4 n" for n :: byte by (simp add: take_bit_eq_mask)
  have "drop_bit 4 (c AND 240) = drop_bit 4 c AND 15" by (simp add: drop_bit_and)
  then have 1: "drop_bit 4 (c AND 240) = take_bit 4 (drop_bit 4 c)" unfolding 2 .
  show "unat (drop_bit 4 (c AND 240)) < 16" "unat (c AND 15) < 16"
    unfolding 1 2 using take_bit_nat_less_exp [of 4] by (simp_all add: unsigned_take_bit_eq)
  show "push_bit 4 (of_nat (unat (drop_bit 4 (c AND 240)))) OR of_nat (unat (c AND 15)) = c"
    unfolding 1 2 by (auto intro!: bit_word_eqI simp: bit_simps)
qed

text \<open>One character of the encoding is one step or, escaped, three bytes in one step.\<close>

lemma url_decode_char:
  assumes at: "drop start src = url_encode [c] @ zs" and len: "len = length src"
  shows "url_decode_step src len (os, start) = Some (Inl (os @ [c], start + length (url_encode [c])))"
proof -
  have l: "length src - start = length (url_encode [c]) + length zs" using arg_cong [OF at, of length] by simp
  have nth: "src ! (start + j) = (url_encode [c] @ zs) ! j" if "start + j < length src" for j
    using arg_cong [OF at, of "\<lambda>ys. ys ! j"] that by simp
  show ?thesis
  proof (cases "url_plain c")
    case True
    moreover from this have "c \<noteq> 37" "c \<noteq> 43" by (auto simp: url_plain_def c_isalnum_def)
    ultimately show ?thesis using l nth [of 0] len by (auto simp: url_decode_step_def)
  next
    case False
    then show ?thesis using l nth [of 0] nth [of 1] nth [of 2] len nibbles [of c]
        hex_chars [OF nibbles(1)[of c]] hex_chars [OF nibbles(2) [of c]]
      by (simp add: url_decode_step_def)
  qed
qed

lemma url_encode_Cons: "url_encode (c # xs) = url_encode [c] @ url_encode xs"
  by simp

lemma url_decode_rest:
  "drop start src = url_encode xs \<Longrightarrow> start \<le> length src \<Longrightarrow>
   c_while (url_decode_step src (length src)) (os, start) = Some (os @ xs)"
proof (induction xs arbitrary: os start)
  case Nil
  then show ?case by (intro c_while_stop) (simp add: url_decode_step_def)
next
  case (Cons c xs)
  have at: "drop start src = url_encode [c] @ url_encode xs" using Cons.prems(1) url_encode_Cons [of c xs] by (rule trans)
  have "drop (start + length (url_encode [c])) src = url_encode xs"
    using arg_cong [OF at, of "drop (length (url_encode [c]))"] by (simp add: add.commute)
  moreover have "start + length (url_encode [c]) \<le> length src"
    using arg_cong [OF at, of length] Cons.prems(2) by (simp del: url_encode.simps)
  ultimately have "c_while (url_decode_step src (length src)) (os @ [c], start + length (url_encode [c])) =
      Some ((os @ [c]) @ xs)"
    by (rule Cons.IH)
  with c_while_next [of "url_decode_step src (length src)", OF url_decode_char [OF at refl, of os]] show ?case by simp
qed

text \<open>C30: percent decoding inverts percent encoding, for every byte sequence whose encoding has fewer
  than two gigabytes.\<close>

theorem url_decode_encode:
  assumes "length (url_encode xs) < 2 ^ 31"
  shows "url_decode (url_encode xs) (length (url_encode xs)) = Some xs"
  using url_decode_rest [of 0 "url_encode xs" xs "[]"] assms by (simp add: url_decode_def int_length_small)

theorem url_decode_encode_witness:
  "url_encode [97, 32, 43, 37] = map of_nat [97, 37, 50, 48, 37, 50, 66, 37, 50, 53] \<and>
   url_decode (map of_nat [97, 37, 50, 48, 37, 50, 66, 37, 50, 53]) 10 = Some [97, 32, 43, 37]"
proof -
  have enc: "url_encode [97, 32, 43, 37] = map of_nat [97, 37, 50, 48, 37, 50, 66, 37, 50, 53]"
    by (simp add: url_plain_def c_isalnum_def HexChars_def)
  have len: "length (map of_nat [97, 37, 50, 48, 37, 50, 66, 37, 50, 53 :: nat] :: bytes) = 10" by simp
  from url_decode_encode [of "[97, 32, 43, 37]"] show ?thesis unfolding enc len by simp
qed

text \<open>A NUL is not escaped.\<close>

lemma url_encode_nul: "url_encode [0] = [0]"
  by (simp add: url_plain_def)

end
