(* ===== verification/Text.thy ===== *)
theory Text
  imports Lookup
begin

unbundle bit_operations_syntax

section \<open>Text utilities\<close>

text \<open>
  \<open>utils.cpp\<close>: hexadecimal digits, trimming, splitting and numbers. Exceptions are values of
  \<open>text_error\<close>. A \<open>std::string_view\<close> is the memory from \<open>data ()\<close> on with its size where the code looks
  behind the view, and the list of its bytes elsewhere.
\<close>

datatype text_error = OutOfRange | Invalid

subsection \<open>Hexadecimal\<close>

definition c2i :: "byte \<Rightarrow> text_error + byte" where
  "c2i c =
     (if 48 \<le> c \<and> c \<le> 57 then Inr (c - 48)
      else if 97 \<le> c \<and> c \<le> 102 then Inr (c - 87)
      else if 65 \<le> c \<and> c \<le> 70 then Inr (c - 55)
      else Inl OutOfRange)"

definition i2c :: "byte \<Rightarrow> bool \<Rightarrow> text_error + byte" where
  "i2c c caps =
     (if c \<le> 9 then Inr (c + 48)
      else if c \<le> 15 then Inr (if caps then c + 55 else c + 87)
      else Inl OutOfRange)"

text \<open>The loop of \<open>hexstr\<close> over \<open>i\<close>, with \<open>rc = 2 * i\<close>; the digits are below \<open>16\<close>, so \<open>i2c\<close> does not
  throw.\<close>

fun hexstr_loop :: "bytes \<Rightarrow> bytes \<Rightarrow> nat \<Rightarrow> (bytes \<times> nat) option" where
  "hexstr_loop [] out rc = Some (out, rc)"
| "hexstr_loop (b # xs) out rc =
     (case (i2c (15 AND drop_bit 4 b) False, i2c (15 AND b) False) of
        (Inr hi, Inr lo) \<Rightarrow> do {
          out \<leftarrow> wr out rc hi;
          out \<leftarrow> wr out (rc + 1) lo;
          hexstr_loop xs out (rc + 2) }
      | _ \<Rightarrow> None)"

definition hexstr :: "bytes option \<Rightarrow> bytes option \<Rightarrow> nat \<Rightarrow> (bytes option \<times> nat) option" where
  "hexstr inp out oLen =
     (case (inp, out) of
        (Some xs, Some ys) \<Rightarrow>
          if oLen < 2 * length xs then Some (Some ys, 0)
          else do { (ys, rc) \<leftarrow> hexstr_loop xs ys 0; Some (Some ys, rc) }
      | _ \<Rightarrow> Some (out, 0))"

text \<open>\<open>bytes\<close>, which takes the digit \<open>str[i]\<close> for both halves of byte \<open>i\<close>.\<close>

fun bytes_loop :: "bytes \<Rightarrow> bytes \<Rightarrow> nat \<Rightarrow> nat \<Rightarrow> (bytes \<times> text_error option) option" where
  "bytes_loop str out i 0 = Some (out, None)"
| "bytes_loop str out i (Suc n) = do {
     c \<leftarrow> rd str i;
     (case c2i c of
        Inl e \<Rightarrow> Some (out, Some e)
      | Inr d \<Rightarrow> do {
          out \<leftarrow> wr out i (push_bit 4 d OR d);
          bytes_loop str out (i + 1) n }) }"

definition text_bytes :: "bytes \<Rightarrow> bytes option \<Rightarrow> nat \<Rightarrow> (bytes option \<times> text_error option) option" where
  "text_bytes str out olen =
     (case out of
        None \<Rightarrow> Some (None, Some Invalid)
      | Some ys \<Rightarrow>
         (if olen < length str div 2 then Some (out, Some Invalid)
          else do {
            (ys, e) \<leftarrow> bytes_loop str ys 0 (length str div 2);
            Some (Some ys, e) }))"

subsection \<open>Reversal\<close>

fun reverse_loop :: "bytes \<Rightarrow> nat \<Rightarrow> nat \<Rightarrow> nat \<Rightarrow> bytes option" where
  "reverse_loop xs len i 0 = Some xs"
| "reverse_loop xs len i (Suc n) = do {
     tmp \<leftarrow> rd xs i;
     r \<leftarrow> rd xs (len - i - 1);
     xs \<leftarrow> wr xs i r;
     xs \<leftarrow> wr xs (len - i - 1) tmp;
     reverse_loop xs len (i + 1) n }"

definition reverse :: "bytes \<Rightarrow> nat \<Rightarrow> bytes option" where
  "reverse data len = reverse_loop data len 0 (len div 2)"

subsection \<open>Trimming\<close>

text \<open>\<open>strchr\<close> also finds the NUL at the end of \<open>what\<close>.\<close>

definition isCharIn :: "bytes \<Rightarrow> byte \<Rightarrow> bool" where
  "isCharIn what c \<longleftrightarrow> c = 0 \<or> c \<in> set (takeWhile (\<lambda>c. c \<noteq> 0) what)"

text \<open>The two loops: \<open>s\<close> moves up over the characters in \<open>what\<close>, then \<open>e + 1\<close> down to \<open>s\<close>.\<close>

definition trim_up_step :: "bytes \<Rightarrow> bytes \<Rightarrow> nat \<Rightarrow> (nat + nat) option" where
  "trim_up_step what str s =
     (if s < length str
      then do { c \<leftarrow> rd str s; Some (if isCharIn what c then Inl (s + 1) else Inr s) }
      else Some (Inr s))"

definition trim_down_step :: "bytes \<Rightarrow> bytes \<Rightarrow> nat \<Rightarrow> nat \<Rightarrow> (nat + nat) option" where
  "trim_down_step what str s e1 =
     (if e1 > s
      then do { c \<leftarrow> rd str (e1 - 1); Some (if isCharIn what c then Inl (e1 - 1) else Inr e1) }
      else Some (Inr e1))"

definition trim :: "bytes \<Rightarrow> bytes option \<Rightarrow> bytes option" where
  "trim str what =
     (case what of
        None \<Rightarrow> Some str
      | Some what \<Rightarrow> do {
          s \<leftarrow> c_while (trim_up_step what str) 0;
          e1 \<leftarrow> c_while (trim_down_step what str s) (length str);
          Some (take (e1 - s) (drop s str)) })"

definition strip :: "bytes \<Rightarrow> bytes option \<Rightarrow> bytes option" where
  "strip str what =
     (case what of
        None \<Rightarrow> if str = [] then Some [] else None
      | Some what \<Rightarrow> do {
          s \<leftarrow> c_while (trim_up_step what str) 0;
          e1 \<leftarrow> c_while (trim_down_step what str s) (length str);
          Some (filter (\<lambda>c. \<not> isCharIn what c) (take (e1 - s) (drop s str))) })"

subsection \<open>Splitting\<close>

text \<open>\<open>strstr\<close>: the first position from \<open>p\<close> on, before the NUL, where the NUL-terminated \<open>d\<close> begins.\<close>

definition c_str_at :: "bytes \<Rightarrow> bytes option" where
  "c_str_at xs = (if 0 \<in> set xs then Some (takeWhile (\<lambda>c. c \<noteq> 0) xs) else None)"

fun find_text :: "bytes \<Rightarrow> bytes \<Rightarrow> nat option" where
  "find_text d [] = (if d = [] then Some 0 else None)"
| "find_text d (c # s) =
     (if take (length d) (c # s) = d then Some 0 else map_option Suc (find_text d s))"

definition c_strstr :: "bytes \<Rightarrow> nat \<Rightarrow> bytes \<Rightarrow> nat option option" where
  "c_strstr mem p d = do {
     s \<leftarrow> c_str_at (drop p mem);
     d \<leftarrow> c_str_at d;
     Some (map_option (\<lambda>k. p + k) (find_text d s)) }"

text \<open>The lambda \<open>cmp\<close>: with an empty delimiter the end of the text, \<open>strstr\<close> otherwise.\<close>

definition split_cmp :: "bytes \<Rightarrow> nat \<Rightarrow> bytes \<Rightarrow> nat option option" where
  "split_cmp mem p d = do {
     d0 \<leftarrow> rd d 0;
     if d0 = 0 then do { n \<leftarrow> c_strlen (drop p mem); Some (Some (p + n)) }
     else c_strstr mem p d }"

text \<open>A piece of the text: \<open>size_t (ap - ptr)\<close> bytes.\<close>

definition piece :: "bytes \<Rightarrow> nat \<Rightarrow> nat \<Rightarrow> bytes option" where
  "piece mem p q = (if p \<le> q then rd_mem mem p (q - p) else None)"

text \<open>The loops; the variables are \<open>out\<close>, \<open>ptr\<close> and \<open>ap\<close>, and \<open>len\<close> is the length of the delimiter.\<close>

definition split_step ::
    "bytes \<Rightarrow> nat \<Rightarrow> bytes \<Rightarrow> nat \<Rightarrow> bytes list \<times> nat \<times> nat option \<Rightarrow>
     (bytes list \<times> nat \<times> nat option + bytes list \<times> nat) option" where
  "split_step mem eptr delim len = (\<lambda>(out, ptr, ap).
     case ap of
       None \<Rightarrow> Some (Inr (out, ptr))
     | Some a \<Rightarrow>
        (if a \<noteq> eptr then do {
           x \<leftarrow> piece mem ptr a;
           ap \<leftarrow> split_cmp mem (a + len) delim;
           Some (Inl (out @ [x], a + len, ap)) }
         else do {
           ap \<leftarrow> split_cmp mem a delim;
           Some (Inl (out, ptr, ap)) }))"

definition parts_step ::
    "bytes \<Rightarrow> nat \<Rightarrow> bytes \<Rightarrow> nat \<Rightarrow> bytes list \<times> nat \<times> nat option \<Rightarrow>
     (bytes list \<times> nat \<times> nat option + bytes list \<times> nat) option" where
  "parts_step mem eptr delim len = (\<lambda>(out, ptr, ap).
     case ap of
       None \<Rightarrow> Some (Inr (out, ptr))
     | Some a \<Rightarrow>
        (if a < eptr then do {
           x \<leftarrow> piece mem ptr a;
           ap \<leftarrow> split_cmp mem (a + len) delim;
           Some (Inl (out @ [x], a + len, ap)) }
         else Some (Inr (out, ptr))))"

definition delim_length :: "bytes option \<Rightarrow> nat option" where
  "delim_length delim =
     (case delim of
        None \<Rightarrow> Some 0
      | Some d \<Rightarrow> do { d0 \<leftarrow> rd d 0; if d0 = 0 then Some 1 else c_strlen d })"

definition split :: "bytes \<Rightarrow> nat \<Rightarrow> bytes option \<Rightarrow> bytes list option" where
  "split mem eptr delim = do {
     len \<leftarrow> delim_length delim;
     (out, ptr) \<leftarrow>
       (case delim of
          Some d \<Rightarrow> if len > 0 then do {
              ap \<leftarrow> split_cmp mem 0 d;
              c_while (split_step mem eptr d len) ([], 0, ap) } else Some ([], 0)
        | None \<Rightarrow> Some ([], 0));
     if ptr \<noteq> eptr then do { x \<leftarrow> piece mem ptr eptr; Some (out @ [x]) } else Some out }"

definition parts :: "bytes \<Rightarrow> nat \<Rightarrow> bytes option \<Rightarrow> bytes list option" where
  "parts mem eptr delim = do {
     len \<leftarrow> delim_length delim;
     (out, ptr) \<leftarrow>
       (case delim of
          Some d \<Rightarrow> if len > 0 then do {
              ap \<leftarrow> split_cmp mem 0 d;
              c_while (parts_step mem eptr d len) ([], 0, ap) } else Some ([], 0)
        | None \<Rightarrow> Some ([], 0));
     if ptr < eptr then do { x \<leftarrow> piece mem ptr eptr; Some (out @ [x]) } else Some out }"

subsection \<open>What trimming computes\<close>

lemma trim_up_while:
  "s \<le> length str \<Longrightarrow>
   c_while (trim_up_step what str) s = Some (s + length (takeWhile (isCharIn what) (drop s str)))"
proof (induction "length str - s" arbitrary: s)
  case 0
  then show ?case by (intro c_while_stop) (simp add: trim_up_step_def)
next
  case (Suc n)
  then have s: "s < length str" by simp
  then have "drop s str = str ! s # drop (Suc s) str" by (simp add: Cons_nth_drop_Suc)
  with s Suc show ?case
    by (cases "isCharIn what (str ! s)")
       (simp_all add: c_while_next [of "trim_up_step what str" s "Suc s"] c_while_stop trim_up_step_def)
qed

lemma trim_down_while:
  "s \<le> e \<Longrightarrow> e \<le> length str \<Longrightarrow>
   c_while (trim_down_step what str s) e =
     Some (e - length (takeWhile (isCharIn what) (rev (take (e - s) (drop s str)))))"
proof (induction "e - s" arbitrary: e)
  case 0
  then show ?case by (intro c_while_stop) (simp add: trim_down_step_def)
next
  case (Suc n)
  then obtain m where e: "e = Suc m" "s \<le> m" "m < length str" by (cases e) auto
  then have "take (e - s) (drop s str) = take (m - s) (drop s str) @ [str ! m]"
    using take_Suc_conv_app_nth [of "m - s" "drop s str"] by (simp add: Suc_diff_le)
  moreover have "length (takeWhile (isCharIn what) (rev (take (m - s) (drop s str)))) \<le> m - s"
    using length_takeWhile_le [of "isCharIn what" "rev (take (m - s) (drop s str))"] by simp
  moreover have "c_while (trim_down_step what str s) (Suc m) = c_while (trim_down_step what str s) m"
    if "isCharIn what (str ! m)"
    using that e by (intro c_while_next) (simp add: trim_down_step_def)
  moreover have "c_while (trim_down_step what str s) (Suc m) = Some (Suc m)" if "\<not> isCharIn what (str ! m)"
    using that e by (intro c_while_stop) (simp add: trim_down_step_def)
  moreover have "c_while (trim_down_step what str s) m =
      Some (m - length (takeWhile (isCharIn what) (rev (take (m - s) (drop s str)))))"
    by (rule Suc.hyps(1)) (use e Suc in auto)
  ultimately show ?case using e by (cases "isCharIn what (str ! m)") simp_all
qed

text \<open>What is left between the two loops: the text without its first and last characters in \<open>what\<close>.\<close>

definition trimmed :: "(byte \<Rightarrow> bool) \<Rightarrow> bytes \<Rightarrow> bytes" where
  "trimmed P xs = rev (dropWhile P (rev (dropWhile P xs)))"

lemma trim_loops:
  "\<exists>s e1. c_while (trim_up_step what str) 0 = Some s \<and>
    c_while (trim_down_step what str s) (length str) = Some e1 \<and>
    take (e1 - s) (drop s str) = trimmed (isCharIn what) str"
proof -
  define s where "s = length (takeWhile (isCharIn what) str)"
  have up: "c_while (trim_up_step what str) 0 = Some s"
    using trim_up_while [of 0 str what] by (simp add: s_def)
  have s: "s \<le> length str" by (simp add: s_def length_takeWhile_le)
  define xs where "xs = drop s str"
  have xs: "xs = dropWhile (isCharIn what) str" by (simp add: xs_def s_def dropWhile_eq_drop)
  define k where "k = length (takeWhile (isCharIn what) (rev xs))"
  have len: "length str - s = length xs" by (simp add: xs_def)
  have down: "c_while (trim_down_step what str s) (length str) = Some (length str - k)"
    unfolding k_def xs_def using trim_down_while [of s "length str" str what] s by simp
  have "trimmed (isCharIn what) str = rev (drop k (rev xs))"
    by (simp add: trimmed_def k_def dropWhile_eq_drop xs)
  also have "\<dots> = take (length str - k - s) xs"
    by (simp add: drop_rev len [symmetric] diff_commute ac_simps)
  finally have "take (length str - k - s) (drop s str) = trimmed (isCharIn what) str"
    by (simp only: xs_def)
  with up down show ?thesis by (intro exI [of _ s] exI [of _ "length str - k"] conjI)
qed

lemma filter_trimmed: "filter (\<lambda>c. \<not> P c) (trimmed P xs) = filter (\<lambda>c. \<not> P c) xs"
proof -
  have drop: "filter (\<lambda>c. \<not> P c) (dropWhile P xs) = filter (\<lambda>c. \<not> P c) xs" for xs
    by (induction xs) auto
  have "filter (\<lambda>c. \<not> P c) (trimmed P xs) = rev (filter (\<lambda>c. \<not> P c) (rev (dropWhile P xs)))"
    by (simp add: trimmed_def rev_filter [symmetric] drop)
  then show ?thesis by (simp add: rev_filter [symmetric] drop)
qed

text \<open>\<open>trim\<close> removes the characters in \<open>what\<close>, and every NUL, from both ends of the text and
  nothing else; \<open>strip\<close> removes them everywhere. Neither loop leaves the text.\<close>

theorem trim_strip_correct:
  "trim str (Some what) = Some (trimmed (isCharIn what) str) \<and>
   strip str (Some what) = Some (filter (\<lambda>c. \<not> isCharIn what c) str)"
  using trim_loops [of what str] by (auto simp: trim_def strip_def filter_trimmed)

subsection \<open>What reversal computes\<close>

lemma reverse_loop_correct:
  "2 * (i + n) \<le> len \<Longrightarrow> len \<le> length xs \<Longrightarrow>
   \<exists>ys. reverse_loop xs len i n = Some ys \<and> length ys = length xs \<and>
     (\<forall>j < length xs. ys ! j = (if i \<le> j \<and> j < i + n \<or> len - (i + n) \<le> j \<and> j < len - i
        then xs ! (len - 1 - j) else xs ! j))"
proof (induction n arbitrary: i xs)
  case 0
  then show ?case by auto
next
  case (Suc n)
  let ?zs = "xs[i := xs ! (len - i - 1), len - i - 1 := xs ! i]"
  have step: "reverse_loop xs len i (Suc n) = reverse_loop ?zs len (i + 1) n"
    using Suc.prems by simp
  obtain ys where ys: "reverse_loop ?zs len (i + 1) n = Some ys" "length ys = length xs"
    "\<forall>j < length xs. ys ! j = (if i + 1 \<le> j \<and> j < i + 1 + n \<or> len - (i + 1 + n) \<le> j \<and> j < len - (i + 1)
        then ?zs ! (len - 1 - j) else ?zs ! j)"
    using Suc.IH [of "i + 1" ?zs] Suc.prems by auto
  have "ys ! j = (if i \<le> j \<and> j < i + Suc n \<or> len - (i + Suc n) \<le> j \<and> j < len - i
        then xs ! (len - 1 - j) else xs ! j)" if "j < length xs" for j
  proof -
    have i: "i < len - i - 1" "len - i - 1 < length xs" using Suc.prems by simp_all
    consider "j = i" | "j = len - i - 1" | "j \<noteq> i" "j \<noteq> len - i - 1" by blast
    then show ?thesis
    proof cases
      case 1
      have "\<not> len - Suc (i + n) \<le> i" using Suc.prems by simp
      with 1 show ?thesis using ys(3) that i by simp
    next
      case 2
      have "len - Suc (len - Suc i) = i" "\<not> len - Suc i < Suc (i + n)" "len - Suc (i + n) \<le> len - Suc i"
        "len - Suc i < len - i"
        using i Suc.prems by simp_all
      with 2 show ?thesis using ys(3) that i by simp
    next
      case 3
      have "?zs ! (len - 1 - j) = xs ! (len - 1 - j)" if "i + 1 \<le> j \<and> j < i + 1 + n \<or>
          len - (i + 1 + n) \<le> j \<and> j < len - (i + 1)"
      proof -
        have "j < len" using that Suc.prems by (elim disjE conjE) simp_all
        then have "len - 1 - j \<noteq> i" "len - 1 - j \<noteq> len - i - 1" using 3 i by linarith+
        then show ?thesis by simp
      qed
      moreover have "?zs ! j = xs ! j" using 3 by simp
      moreover have "(i \<le> j \<and> j < i + Suc n \<or> len - (i + Suc n) \<le> j \<and> j < len - i) =
          (i + 1 \<le> j \<and> j < i + 1 + n \<or> len - (i + 1 + n) \<le> j \<and> j < len - (i + 1))"
        using 3 by auto
      ultimately show ?thesis unfolding ys(3) [rule_format, OF that]
        by (intro if_cong) simp_all
    qed
  qed
  with ys step show ?case by (intro exI [of _ ys]) simp
qed

lemma reverse_rev: "reverse xs (length xs) = Some (rev xs)"
proof -
  have half: "2 * (0 + length xs div 2) \<le> length xs" by simp
  from reverse_loop_correct [OF half, of xs] obtain ys
    where ys: "reverse_loop xs (length xs) 0 (length xs div 2) = Some ys" "length ys = length xs"
      "\<forall>j < length xs. ys ! j = (if j < length xs div 2 \<or> length xs - length xs div 2 \<le> j
        then xs ! (length xs - 1 - j) else xs ! j)"
    by auto
  have "ys ! j = rev xs ! j" if "j < length xs" for j
  proof (cases "j < length xs div 2 \<or> length xs - length xs div 2 \<le> j")
    case True
    then show ?thesis using ys(3) that by (simp add: rev_nth)
  next
    case False
    then have "length xs - Suc j = j" by linarith
    then show ?thesis using ys(3) that False by (simp add: rev_nth)
  qed
  then have "ys = rev xs" using ys(2) by (intro nth_equalityI) auto
  with ys(1) show ?thesis by (simp add: reverse_def)
qed

subsection \<open>What \<open>bytes\<close> computes\<close>

lemma bytes_loop_doubles:
  assumes "\<forall>k < n. c2i (str ! (i + k)) = Inr (ds ! k)" "length ds = n" "i + n \<le> length str"
    "i + n \<le> length out"
  shows "bytes_loop str out i n =
    Some (take i out @ map (\<lambda>d. push_bit 4 d OR d) ds @ drop (i + n) out, None)"
  using assms
proof (induction n arbitrary: out i ds)
  case 0
  then show ?case by simp
next
  case (Suc n)
  obtain d ds' where ds: "ds = d # ds'" using Suc.prems(2) by (cases ds) auto
  have c: "c2i (str ! i) = Inr d" using Suc.prems(1) [rule_format, of 0] ds by simp
  have "\<forall>k < n. c2i (str ! (i + 1 + k)) = Inr (ds' ! k)"
  proof safe
    fix k assume "k < n"
    with Suc.prems(1) [rule_format, of "Suc k"] ds show "c2i (str ! (i + 1 + k)) = Inr (ds' ! k)" by simp
  qed
  from Suc.IH [OF this, of "out[i := push_bit 4 d OR d]"] Suc.prems(2-4) ds
  have "bytes_loop str (out[i := push_bit 4 d OR d]) (i + 1) n = Some (take (i + 1) (out[i := push_bit 4 d OR d])
      @ map (\<lambda>d. push_bit 4 d OR d) ds' @ drop (i + 1 + n) (out[i := push_bit 4 d OR d]), None)"
    by simp
  then show ?case using c Suc.prems(3,4) ds by (simp add: take_Suc_update)
qed

lemma bytes_loop_num:
  "bytes_loop str out i (numeral n) = do {
     c \<leftarrow> rd str i;
     (case c2i c of
        Inl e \<Rightarrow> Some (out, Some e)
      | Inr d \<Rightarrow> do {
          out \<leftarrow> wr out i (push_bit 4 d OR d);
          bytes_loop str out (i + 1) (pred_numeral n) }) }"
  by (simp add: numeral_eq_Suc)

text \<open>\<open>bytes\<close> is meant to read the hexadecimal text that \<open>hexstr\<close> writes. It takes one digit for both
  halves of a byte: the text \<open>1a2b\<close> gives the bytes \<open>11 aa\<close>, not \<open>1a 2b\<close>.\<close>

lemma text_bytes_wrong:
  "hexstr (Some [26, 43]) (Some [0, 0, 0, 0]) 4 = Some (Some (of_string ''1a2b''), 4) \<and>
   text_bytes (of_string ''1a2b'') (Some [0, 0]) 2 = Some (Some [17, 170], None)"
  by (simp add: hexstr_def i2c_def of_string_def text_bytes_def c2i_def bytes_loop_num)

subsection \<open>What splitting computes\<close>

text \<open>The specification: the pieces between the occurrences of the delimiter, found from the left; the
  piece behind the last one only if it is not empty.\<close>

function pieces :: "bytes \<Rightarrow> bytes \<Rightarrow> bytes list" where
  "pieces d s =
     (if d = [] then [s]
      else case find_text d s of
        None \<Rightarrow> if s = [] then [] else [s]
      | Some k \<Rightarrow> take k s # pieces d (drop (k + length d) s))"
  by auto

lemma find_text_Some:
  "find_text d s = Some k \<Longrightarrow> k + length d \<le> length s \<and> take (length d) (drop k s) = d"
proof (induction d s arbitrary: k rule: find_text.induct)
  case (2 d c s)
  show ?case
  proof (cases "take (length d) (c # s) = d")
    case True
    then have "length d \<le> length (c # s)" by (metis length_take min.cobounded1)
    with True 2(2) show ?thesis by simp
  next
    case False
    then show ?thesis using 2 by auto
  qed
qed (auto split: if_splits)

lemma find_text_shrinks:
  "find_text d s = Some k \<Longrightarrow> d \<noteq> [] \<Longrightarrow> length s - (k + length d) < length s"
  using find_text_Some [of d s k] by (cases d) auto

termination pieces
  by (relation "measure (\<lambda>(d, s). length s)") (auto intro: find_text_shrinks)

declare pieces.simps [simp del]

text \<open>The pieces make up the text again.\<close>

lemma pieces_join:
  "d \<noteq> [] \<Longrightarrow> concat (map (\<lambda>p. p @ d) (pieces d s)) = s \<or> concat (map (\<lambda>p. p @ d) (pieces d s)) = s @ d"
proof (induction d s rule: pieces.induct)
  case (1 d s)
  show ?case
  proof (cases "find_text d s")
    case None
    then show ?thesis using 1(2) by (simp add: pieces.simps [of d s])
  next
    case (Some k)
    have "s = take k s @ d @ drop (k + length d) s"
      using find_text_Some [OF Some] by (metis append_take_drop_id drop_drop add.commute)
    with 1(1) [OF 1(2) Some 1(2)] show ?thesis
      by (auto simp: pieces.simps [of d s] Some 1(2))
  qed
qed

lemma c_str_at_drop: "0 \<notin> set s \<Longrightarrow> p \<le> length s \<Longrightarrow> c_str_at (drop p (s @ 0 # r)) = Some (drop p s)"
  using set_drop_subset [of p s]
  by (auto simp: c_str_at_def takeWhile_append2 takeWhile_tail intro!: takeWhile_eq_all_conv [THEN iffD2])

lemma split_cmp_text:
  assumes "0 \<notin> set s" "0 \<notin> set d" "d \<noteq> []" "p \<le> length s"
  shows "split_cmp (s @ 0 # r) p (d @ 0 # r') = Some (map_option (\<lambda>k. p + k) (find_text d (drop p s)))"
proof -
  obtain c d' where d: "d = c # d'" "c \<noteq> 0" using assms by (cases d) auto
  then have "rd (d @ 0 # r') 0 = Some c" by simp
  then show ?thesis
    using c_str_at_drop [OF assms(1,4), of r] c_str_at_drop [OF assms(2), of 0 r'] d(2)
    by (simp add: split_cmp_def c_strstr_def)
qed

text \<open>Both loops, over a text with its NUL: they differ in what they do at the end of the text, which a
  delimiter that is not empty never reaches.\<close>

locale splitting =
  fixes step :: "bytes list \<times> nat \<times> nat option \<Rightarrow>
      (bytes list \<times> nat \<times> nat option + bytes list \<times> nat) option"
    and s r d r' :: bytes
  assumes stops: "step (out, ptr, None) = Some (Inr (out, ptr))"
    and goes: "a < length s \<Longrightarrow> step (out, ptr, Some a) = do {
        x \<leftarrow> piece (s @ 0 # r) ptr a;
        ap \<leftarrow> split_cmp (s @ 0 # r) (a + length d) (d @ 0 # r');
        Some (Inl (out @ [x], a + length d, ap)) }"
begin

lemma loop:
  assumes texts: "0 \<notin> set s" "0 \<notin> set d" "d \<noteq> []"
  shows "ptr \<le> length s \<Longrightarrow>
   \<exists>out' ptr'. c_while step (out, ptr, map_option (\<lambda>k. ptr + k) (find_text d (drop ptr s))) = Some (out', ptr') \<and>
     ptr' \<le> length s \<and>
     out' @ (if ptr' < length s then [drop ptr' s] else []) = out @ pieces d (drop ptr s)"
proof (induction "length s - ptr" arbitrary: ptr out rule: less_induct)
  case less
  show ?case
  proof (cases "find_text d (drop ptr s)")
    case None
    have "c_while step (out, ptr, None) = Some (out, ptr)" by (rule c_while_stop) (rule stops)
    then show ?thesis using None texts less.prems by (simp add: pieces.simps [of d "drop ptr s"])
  next
    case (Some k)
    have k: "k + length d \<le> length s - ptr" "take (length d) (drop k (drop ptr s)) = d"
      using find_text_Some [OF Some] by simp_all
    have d: "0 < length d" using texts by simp
    let ?p = "ptr + k + length d"
    have b: "ptr + k < length s" "?p \<le> length s" "length s - ?p < length s - ptr"
      using k d less.prems by linarith+
    have "piece (s @ 0 # r) ptr (ptr + k) = Some (take k (drop ptr s))"
      using k less.prems by (simp add: piece_def)
    then have "c_while step (out, ptr, Some (ptr + k)) =
        c_while step (out @ [take k (drop ptr s)], ?p, map_option (\<lambda>k. ?p + k) (find_text d (drop ?p s)))"
      using goes [of "ptr + k" out ptr] split_cmp_text [OF texts, of ?p r r'] b
      by (intro c_while_next) simp
    moreover have "pieces d (drop ptr s) = take k (drop ptr s) # pieces d (drop ?p s)"
      using Some texts by (simp add: pieces.simps [of d "drop ptr s"] ac_simps)
    ultimately show ?thesis using b less.hyps [of ?p "out @ [take k (drop ptr s)]"] Some by auto
  qed
qed

end

interpretation split_loop: splitting
    "split_step (s @ 0 # r) (length s) (d @ 0 # r') (length d)" s r d r' for s r d r'
  by unfold_locales (auto simp: split_step_def)

interpretation parts_loop: splitting
    "parts_step (s @ 0 # r) (length s) (d @ 0 # r') (length d)" s r d r' for s r d r'
  by unfold_locales (auto simp: parts_step_def)

lemma delim_length_text: "0 \<notin> set d \<Longrightarrow> d \<noteq> [] \<Longrightarrow> delim_length (Some (d @ 0 # r)) = Some (length d)"
  using c_strlen_append [of d r] by (cases d) (auto simp: delim_length_def)

text \<open>C31: on a view with a NUL right behind its last byte, as a literal or a string has it, and none inside, and a
  delimiter that is not empty, \<open>split\<close> and \<open>parts\<close> both give the pieces between the delimiters, a trailing empty
  piece left out. On a view into a longer text, and with the empty delimiter, they differ: see \<open>split_view_diverges\<close> and
  \<open>split_empty_delimiter\<close>.\<close>

theorem split_parts_pieces:
  assumes "0 \<notin> set s" "0 \<notin> set d" "d \<noteq> []"
  shows "split (s @ 0 # r) (length s) (Some (d @ 0 # r')) = Some (pieces d s) \<and>
    parts (s @ 0 # r) (length s) (Some (d @ 0 # r')) = Some (pieces d s)"
proof -
  have cmp: "split_cmp (s @ 0 # r) 0 (d @ 0 # r') = Some (map_option (\<lambda>k. 0 + k) (find_text d (drop 0 s)))"
    by (rule split_cmp_text) (use assms in simp_all)
  have last: "piece (s @ 0 # r) ptr (length s) = Some (drop ptr s)" if "ptr \<le> length s" for ptr
    using that by (simp add: piece_def)
  have whole: "out @ (if ptr < length s then [drop ptr s] else []) = pieces d s \<longleftrightarrow>
      (if ptr < length s then out @ [drop ptr s] else out) = pieces d s" for out ptr by simp
  show ?thesis
    using split_loop.loop [OF assms, of 0 r r' "[]"] parts_loop.loop [OF assms, of 0 r r' "[]"]
      delim_length_text [OF assms(2,3), of r'] assms(3)
    by (auto simp: split_def parts_def cmp last whole split: if_splits)
qed

theorem split_parts_pieces_witness:
  "split ([49, 44, 44, 50, 44] @ 0 # []) 5 (Some ([44] @ 0 # [])) = Some [[49], [], [50]] \<and>
   parts ([49, 44, 44, 50, 44] @ 0 # []) 5 (Some ([44] @ 0 # [])) = Some [[49], [], [50]]"
proof -
  have pieces: "pieces [44] [49, 44, 44, 50, 44] = [[49], [], [50]]" by (simp add: pieces.simps)
  have len: "length [49, 44, 44, 50, 44 :: byte] = 5" by simp
  show ?thesis
    using split_parts_pieces [of "[49, 44, 44, 50, 44]" "[44]" "[]" "[]"] unfolding pieces len by simp
qed

text \<open>A view into a longer text that the delimiter follows directly: when \<open>split\<close> has found the end of the view, it looks
  for the delimiter there again, and never leaves its loop. The condition of \<open>parts\<close> ends it. For the view
  \<open>a,b\<close> of the text \<open>a,b,c\<close>, \<open>split\<close> does not return.\<close>

lemma split_view_stays:
  assumes "0 \<notin> set s" "0 \<notin> set d" "d \<noteq> []" "n \<le> length s" "find_text d (drop n s) = Some 0"
  shows "c_steps (split_step (s @ 0 # r) n (d @ 0 # r') (length d)) k (out, ptr, Some n) = Some (Inl (out, ptr, Some n))"
    and "c_while (parts_step (s @ 0 # r) n (d @ 0 # r') (length d)) (out, ptr, Some n) = Some (out, ptr)"
proof -
  have "split_step (s @ 0 # r) n (d @ 0 # r') (length d) (out, ptr, Some n) = Some (Inl (out, ptr, Some n))"
    using split_cmp_text [OF assms(1-4), of r r'] assms(5) by (simp add: split_step_def)
  then show "c_steps (split_step (s @ 0 # r) n (d @ 0 # r') (length d)) k (out, ptr, Some n) = Some (Inl (out, ptr, Some n))"
    by (induction k) simp_all
  show "c_while (parts_step (s @ 0 # r) n (d @ 0 # r') (length d)) (out, ptr, Some n) = Some (out, ptr)"
    by (rule c_while_stop) (simp add: parts_step_def)
qed

lemma split_view_diverges:
  defines "text_abc \<equiv> [97, 44, 98, 44, 99, 0]"
  shows "\<exists>x. c_steps (split_step text_abc 3 [44, 0] 1) k ([], 0, Some 1) = Some (Inl x)"
    and "split text_abc 3 (Some [44, 0]) = None"
    and "parts text_abc 3 (Some [44, 0]) = Some [[97], [98]]"
proof -
  let ?s = "[97, 44, 98, 44, 99 :: byte]" and ?step = "split_step text_abc 3 [44, 0] 1"
  have m: "text_abc = ?s @ 0 # []" by (simp add: text_abc_def)
  have cmp: "split_cmp text_abc 0 [44, 0] = Some (Some 1)" "split_cmp text_abc 2 [44, 0] = Some (Some 3)"
    using split_cmp_text [of ?s "[44]" 0 "[]" "[]"] split_cmp_text [of ?s "[44]" 2 "[]" "[]"] by (simp_all add: m)
  have pieces: "piece text_abc 0 1 = Some [97]" "piece text_abc 2 3 = Some [98]"
    by (simp_all add: piece_def text_abc_def)
  have step: "?step ([], 0, Some 1) = Some (Inl ([[97]], 2, Some 3))"
    using cmp(2) pieces by (simp add: split_step_def del: One_nat_def)
  have stays: "c_steps ?step k ([[97]], 2, Some 3) = Some (Inl ([[97]], 2, Some 3))" for k
    using split_view_stays(1) [of ?s "[44]" 3 "[]" "[]" k "[[97]]" 2] by (simp add: m)
  have all: "\<exists>x. c_steps ?step k ([], 0, Some 1) = Some (Inl x)" for k
    using stays by (cases k) (simp_all add: step [simplified])
  then show "\<exists>x. c_steps ?step k ([], 0, Some 1) = Some (Inl x)" .
  have len: "delim_length (Some [44, 0]) = Some 1" using delim_length_text [of "[44]" "[]"] by simp
  have "c_while ?step ([], 0, Some 1) = None" by (rule c_while_diverges) (rule all)
  then show "split text_abc 3 (Some [44, 0]) = None" using cmp(1) by (simp add: split_def len)
  have "parts_step text_abc 3 [44, 0] 1 ([], 0, Some 1) = Some (Inl ([[97]], 2, Some 3))"
    using cmp(2) pieces by (simp add: parts_step_def del: One_nat_def)
  from c_while_next [of "parts_step text_abc 3 [44, 0] 1", OF this] c_while_stop [of "parts_step text_abc 3 [44, 0] 1" "([[97]], 2, Some 3)"]
  have "c_while (parts_step text_abc 3 [44, 0] 1) ([], 0, Some 1) = Some ([[97]], 2)" by (simp add: parts_step_def)
  then show "parts text_abc 3 (Some [44, 0]) = Some [[97], [98]]"
    using cmp(1) pieces by (simp add: parts_def len)
qed

text \<open>An empty delimiter makes \<open>split\<close>, but not \<open>parts\<close>, loop for ever: at the end of the text the loop
  of \<open>split\<close> finds the end again.\<close>

lemma split_empty_delimiter:
  assumes "0 \<notin> set s"
  shows "split (s @ 0 # r) (length s) (Some (0 # r')) = None"
    and "c_steps (split_step (s @ 0 # r) (length s) (0 # r') 1) n ([], 0, Some (length s)) =
      Some (Inl ([], 0, Some (length s)))"
proof -
  let ?step = "split_step (s @ 0 # r) (length s) (0 # r') 1"
  have strlen: "c_strlen (drop p (s @ 0 # r)) = Some (length s - p)" if "p \<le> length s" for p
    using c_strlen_append [of "drop p s" r] that assms set_drop_subset [of p s] by auto
  have cmp: "split_cmp (s @ 0 # r) p (0 # r') = Some (Some (length s))" if "p \<le> length s" for p
    using strlen [OF that] that by (simp add: split_cmp_def)
  have step: "?step ([], 0, Some (length s)) = Some (Inl ([], 0, Some (length s)))"
    by (simp add: split_step_def cmp)
  show steps: "c_steps ?step n ([], 0, Some (length s)) = Some (Inl ([], 0, Some (length s)))" for n
    by (induction n) (simp_all add: step [simplified])
  have "c_while ?step ([], 0, Some (length s)) = None"
    by (rule c_while_diverges) (use steps in auto)
  then show "split (s @ 0 # r) (length s) (Some (0 # r')) = None"
    by (simp add: split_def delim_length_def cmp)
qed

subsection \<open>Numbers\<close>

text \<open>\<open>strtoll\<close>: the value, where it stopped, and whether \<open>errno\<close> was set. Without a digit it stops where
  it began.\<close>

definition digit_value :: "byte \<Rightarrow> nat option" where
  "digit_value c =
     (if 48 \<le> c \<and> c \<le> 57 then Some (unat c - 48)
      else if 97 \<le> c \<and> c \<le> 122 then Some (unat c - 87)
      else if 65 \<le> c \<and> c \<le> 90 then Some (unat c - 55)
      else None)"

fun strtoll_digits :: "nat \<Rightarrow> bytes \<Rightarrow> nat \<Rightarrow> nat \<Rightarrow> nat \<times> nat" where
  "strtoll_digits base [] v n = (v, n)"
| "strtoll_digits base (c # cs) v n =
     (case digit_value c of
        Some d \<Rightarrow> if d < base then strtoll_digits base cs (v * base + d) (n + 1) else (v, n)
      | None \<Rightarrow> (v, n))"

definition hex_prefix :: "bytes \<Rightarrow> bool" where
  "hex_prefix cs \<longleftrightarrow> (case cs of
     z # x # c # _ \<Rightarrow> z = 48 \<and> (x = 120 \<or> x = 88) \<and>
       (case digit_value c of Some d \<Rightarrow> d < 16 | None \<Rightarrow> False)
   | _ \<Rightarrow> False)"

definition c_strtoll :: "bytes \<Rightarrow> nat \<Rightarrow> int \<times> nat \<times> bool" where
  "c_strtoll cs base =
     (if base = 1 \<or> base > 36 then (0, 0, True)
      else
       (let s = length (takeWhile c_isspace cs);
            sign = (case drop s cs of c # _ \<Rightarrow> c = 45 \<or> c = 43 | [] \<Rightarrow> False);
            neg = (case drop s cs of c # _ \<Rightarrow> c = 45 | [] \<Rightarrow> False);
            s = (if sign then s + 1 else s);
            hex = (base = 0 \<or> base = 16) \<and> hex_prefix (drop s cs);
            oct = (case drop s cs of c # _ \<Rightarrow> c = 48 | [] \<Rightarrow> False);
            base = (if hex then 16 else if base = 0 then (if oct then 8 else 10) else base);
            s = (if hex then s + 2 else s);
            (v, n) = strtoll_digits base (drop s cs) 0 0;
            l = (if neg then - int v else int v) in
        if n = 0 then (0, 0, False)
        else if l < - (2 ^ 63) then (- (2 ^ 63), s + n, True)
        else if l \<ge> 2 ^ 63 then (2 ^ 63 - 1, s + n, True)
        else (l, s + n, False)))"

text \<open>The test \<open>str.data () == ep\<close> compares pointers into two objects and is never true.\<close>

definition strtonum :: "bytes \<Rightarrow> nat \<Rightarrow> int \<Rightarrow> int \<Rightarrow> text_error + int" where
  "strtonum str base lo hi =
     (if length str > 19 then Inl OutOfRange
      else if lo > hi then Inl OutOfRange
      else
       (let cstr = str @ replicate (32 - length str) 0;
            (l, ep, errno) = c_strtoll cstr base in
        if errno \<or> (cstr ! ep \<noteq> 46 \<and> cstr ! ep \<noteq> 0) then Inl Invalid
        else if l < lo then Inl OutOfRange
        else if l > hi then Inl OutOfRange
        else Inr l))"

lemma digit_value_decimal: "digit c \<Longrightarrow> digit_value c = Some (unat c - 48) \<and> unat c - 48 < 10"
  by (auto simp: digit_value_def digit_def word_le_nat_alt)

lemma digit_value_other: "\<not> digit c \<Longrightarrow> digit_value c = Some d \<Longrightarrow> 10 \<le> d"
  by (auto simp: digit_value_def digit_def word_le_nat_alt split: if_splits)

lemma strtoll_digits_decimal:
  "\<forall>c \<in> set cs. digit c \<Longrightarrow> \<not> (case xs of c # _ \<Rightarrow> digit c | [] \<Rightarrow> False) \<Longrightarrow>
   strtoll_digits 10 (cs @ xs) v n = (decimal v cs, n + length cs)"
proof (induction cs arbitrary: v n)
  case Nil
  then show ?case by (cases xs) (auto dest: digit_value_other split: option.splits)
next
  case (Cons c cs)
  from Cons show ?case using digit_value_decimal [of c] by simp
qed

text \<open>A decimal number of at most nineteen digits that fits in 64 bits is read with its value, if it lies
  between the bounds.\<close>

lemma strtonum_decimal:
  assumes "cs \<noteq> []" "\<forall>c \<in> set cs. digit c" "length cs \<le> 19" "decimal 0 cs < 2 ^ 63" "lo \<le> hi"
  shows "strtonum cs 10 lo hi =
    (if int (decimal 0 cs) < lo \<or> int (decimal 0 cs) > hi then Inl OutOfRange else Inr (int (decimal 0 cs)))"
proof -
  define pad where "pad = replicate (32 - length cs) (0 :: byte)"
  obtain c cs' where cs: "cs = c # cs'" using assms(1) by (cases cs) auto
  have c: "\<not> c_isspace c" "c \<noteq> 45" "c \<noteq> 43"
    using assms(2) cs by (auto simp: digit_def c_isspace_def word_le_nat_alt)
  have pad: "pad = 0 # replicate (31 - length cs) 0"
    using assms(3) by (simp add: pad_def Suc_diff_le [symmetric] flip: replicate_Suc)
  have digits: "strtoll_digits 10 (cs @ pad) 0 0 = (decimal 0 cs, length cs)"
    using strtoll_digits_decimal [OF assms(2), of pad 0 0] by (simp add: pad digit_def)
  have "c_strtoll (cs @ pad) 10 = (int (decimal 0 cs), length cs, False)"
    using digits c assms(1,4) by (simp add: c_strtoll_def cs Let_def)
  moreover have "(cs @ pad) ! length cs = 0" by (simp add: nth_append pad)
  ultimately show ?thesis using assms(3,5) by (simp add: strtonum_def pad_def [symmetric] Let_def)
qed

text \<open>No digits at all are accepted as zero where the code means to throw.\<close>

lemma strtonum_no_digits: "strtonum [] 10 0 100 = Inr 0" "strtonum (of_string ''.'') 10 0 100 = Inr 0"
  by (simp_all add: strtonum_def c_strtoll_def of_string_def replicate_num c_isspace_def digit_value_def)

end
