(* ===== verification/Args.thy ===== *)
theory Args
  imports Strings Hosts
begin

unbundle bit_operations_syntax

section \<open>Command line arguments\<close>

text \<open>
  \<open>args.hpp\<close> and \<open>args.cpp\<close>: commands with their arguments, and the parser that owns them. Texts are
  lists of bytes, an argument of the command line is the text before its NUL. An exception is a value of
  \<open>args_error\<close>; the state it leaves behind is returned with it. \<open>mParsed\<close> is a table of the library whose
  keys are compared without case by \<open>std_string_case_eq\<close> of \<open>utils.hpp\<close>, and hashed with case. Which keys the
  table compares, besides those that are the same, depends on the library: all of them or those whose hashes agree. That is
  \<open>pt_meets\<close>, an argument. A handler is left out but for the two of the parser itself.
\<close>

definition NOSF :: byte where [c_defs]: "NOSF = 0"

record Arg =
  Lf :: bytes
  Help :: bytes
  Sf :: byte
  Option :: bool
  Required :: bool
  Global :: bool
  Prompt :: bytes
  Hidden :: bool
  Default :: bytes

text \<open>\<open>Arg {lf, help, sf}\<close>, the other members as the class initialises them.\<close>

definition arg0 :: "bytes \<Rightarrow> bytes \<Rightarrow> byte \<Rightarrow> Arg" where
  "arg0 lf help sf = \<lparr>Lf = lf, Help = help, Sf = sf, Option = True, Required = False, Global = False,
     Prompt = [], Hidden = False, Default = []\<rparr>"

definition arg_check :: "Arg \<Rightarrow> byte \<Rightarrow> bytes \<Rightarrow> bool" where
  "arg_check a c l \<longleftrightarrow> (c \<noteq> NOSF \<and> c = Sf a) \<or> l = Lf a"

datatype Handler = No_handler | Show_version | Show_help | User_handler

text \<open>The comparison that \<open>strncasecmp\<close> makes ends at a NUL.\<close>

definition std_string_case_eq :: "bytes \<Rightarrow> bytes \<Rightarrow> bool" where
  "std_string_case_eq s1 s2 \<longleftrightarrow> length s1 = length s2 \<and>
     map c_tolower (takeWhile (\<lambda>c. c \<noteq> 0) s1) = map c_tolower (takeWhile (\<lambda>c. c \<noteq> 0) s2)"

text \<open>The entries are in the order in which they were added; \<open>pt_meets es k lf\<close> tells whether a look-up of \<open>lf\<close> in a
  table that holds \<open>es\<close> compares it with a key \<open>k\<close> that is not the same.\<close>

record parsed =
  pt_meets :: "(bytes \<times> bytes) list \<Rightarrow> bytes \<Rightarrow> bytes \<Rightarrow> bool"
  pt_entries :: "(bytes \<times> bytes) list"

definition pt_find :: "parsed \<Rightarrow> bytes \<Rightarrow> bytes option" where
  "pt_find t lf = map_option snd
     (find (\<lambda>(k, v). k = lf \<or> (pt_meets t (pt_entries t) k lf \<and> std_string_case_eq k lf)) (pt_entries t))"

text \<open>\<open>emplace\<close> keeps the value that is there.\<close>

definition pt_emplace :: "bytes \<Rightarrow> bytes \<Rightarrow> parsed \<Rightarrow> parsed" where
  "pt_emplace lf val t =
     (if pt_find t lf = None then t\<lparr>pt_entries := pt_entries t @ [(lf, val)]\<rparr> else t)"

type_synonym meets = "(bytes \<times> bytes) list \<Rightarrow> bytes \<Rightarrow> bytes \<Rightarrow> bool"

record Command =
  mName :: bytes
  mDesc :: bytes
  mArgs :: "Arg list"
  mPositionals :: "bytes list"
  mLongest :: nat
  mRequired :: bool
  mInternal :: bool
  mInteractive :: bool
  mHasGlobalFlags :: bool
  mTakesArgs :: bool
  mHandler :: Handler
  mParsed :: parsed

datatype args_error =
    No_long_form
  | Duplicated bytes byte
  | Unsupported_syntax bytes
  | Not_recognized bytes byte
  | Through_prompt bytes
  | Already_passed bytes
  | Expects_value bytes
  | Takes_no_value bytes
  | Missing_required "bytes list"
  | Not_provided bytes
  | Missing_positional bytes
  | Duplicate_global bytes
  | Duplicate_command bytes

subsection \<open>Building a command\<close>

definition arg_length :: "Arg \<Rightarrow> nat" where
  "arg_length a = (if Option a then length (Lf a) else length (Lf a) + 5)"

definition command_add :: "Command \<Rightarrow> Arg \<Rightarrow> args_error + Command" where
  "command_add cmd arg =
     (if Lf arg = [] then Inl No_long_form
      else case find (\<lambda>a. arg_check a (Sf arg) (Lf arg)) (mArgs cmd) of
        Some a \<Rightarrow> Inl (Duplicated (Lf a) (Sf arg))
      | None \<Rightarrow> Inr (cmd\<lparr>
          mRequired := mRequired cmd \<or> Required arg,
          mTakesArgs := mTakesArgs cmd \<or> \<not> Option arg,
          mLongest := max (mLongest cmd) (arg_length arg),
          mArgs := mArgs cmd @ [arg\<lparr>Global := False\<rparr>]\<rparr>))"

definition command0 :: "meets \<Rightarrow> bytes \<Rightarrow> bytes \<Rightarrow> Command" where
  "command0 meets name desc = \<lparr>mName = name, mDesc = desc, mArgs = [], mPositionals = [], mLongest = 0,
     mRequired = False, mInternal = False, mInteractive = False, mHasGlobalFlags = False,
     mTakesArgs = False, mHandler = No_handler, mParsed = \<lparr>pt_meets = meets, pt_entries = []\<rparr>\<rparr>"

definition command_new :: "meets \<Rightarrow> bytes \<Rightarrow> bytes \<Rightarrow> bool \<Rightarrow> args_error + Command" where
  "command_new meets name desc help =
     (if help then command_add (command0 meets name desc)
        (arg0 (of_string ''help'') (of_string ''Show this command's help'') 104)
      else Inr (command0 meets name desc))"

subsection \<open>Looking up\<close>

definition command_check :: "Command \<Rightarrow> bytes \<Rightarrow> byte \<Rightarrow> Arg option" where
  "command_check cmd lf sf = find (\<lambda>arg. arg_check arg sf lf) (mArgs cmd)"

definition command_get :: "Command \<Rightarrow> bytes \<Rightarrow> byte \<Rightarrow> args_error + Arg" where
  "command_get cmd lf sf =
     (case command_check cmd lf sf of
        Some arg \<Rightarrow> Inr arg
      | None \<Rightarrow> Inl (Not_recognized lf sf))"

definition command_at :: "Command \<Rightarrow> nat \<Rightarrow> bytes \<Rightarrow> args_error + bytes" where
  "command_at cmd index errMsg =
     (if length (mPositionals cmd) \<le> index
      then if errMsg \<noteq> [] then Inl (Missing_positional errMsg) else Inr []
      else Inr (mPositionals cmd ! index))"

definition command_value :: "Command \<Rightarrow> bytes \<Rightarrow> bytes" where
  "command_value cmd lf = (case pt_find (mParsed cmd) lf of Some v \<Rightarrow> v | None \<Rightarrow> [])"

text \<open>\<open>isalpha\<close> of the C locale, and \<open>Command::isValid\<close>: the number of dashes, or \<open>0\<close>.\<close>

definition c_isalpha :: "byte \<Rightarrow> bool" where
  "c_isalpha c \<longleftrightarrow> (65 \<le> c \<and> c \<le> 90) \<or> (97 \<le> c \<and> c \<le> 122)"

definition isValid :: "bytes \<Rightarrow> nat" where
  "isValid flag =
     (case flag of
        [] \<Rightarrow> 0
      | [_] \<Rightarrow> 0
      | c0 # c1 # cs \<Rightarrow>
          if c0 \<noteq> 45 then 0
          else if c1 \<noteq> 45 then (if c1 \<noteq> 0 \<and> c_isalpha c1 then 1 else 0)
          else (case cs of [] \<Rightarrow> 0 | c2 # _ \<Rightarrow> if c2 \<noteq> 0 \<and> c_isalpha c2 then 2 else 0))"

subsection \<open>Parsing\<close>

definition emplace :: "Command \<Rightarrow> bytes \<Rightarrow> bytes \<Rightarrow> Command" where
  "emplace cmd lf val = cmd\<lparr>mParsed := pt_emplace lf val (mParsed cmd)\<rparr>"

text \<open>One word of the command line: the command, and an error, or whether help was asked for and the
  words left. \<open>cVal\<close> is what \<open>strchr\<close> found: the position of the \<open>=\<close>, which is then overwritten with a NUL,
  so that the text from there on is empty.\<close>

type_synonym word_result = "Command \<times> (args_error + bool \<times> bytes list)"

definition parse_long :: "Command \<Rightarrow> bytes \<Rightarrow> bytes option \<Rightarrow> bytes list \<Rightarrow> word_result" where
  "parse_long cmd cArg cVal argv =
     (case command_get cmd (drop 2 cArg) NOSF of
        Inl e \<Rightarrow> (cmd, Inl e)
      | Inr arg \<Rightarrow>
         (if Prompt arg \<noteq> [] then (cmd, Inl (Through_prompt (Lf arg)))
          else if Sf arg = 104 then (cmd, Inr (True, argv))
          else if pt_find (mParsed cmd) (Lf arg) \<noteq> None then (cmd, Inl (Already_passed (Lf arg)))
          else if \<not> Option arg then
            (case cVal of
               Some v \<Rightarrow> (emplace cmd (Lf arg) v, Inr (False, argv))
             | None \<Rightarrow>
                (case argv of
                   [] \<Rightarrow> (cmd, Inl (Expects_value (Lf arg)))
                 | v # argv \<Rightarrow> (emplace cmd (Lf arg) v, Inr (False, argv))))
          else if cVal \<noteq> None then (cmd, Inl (Takes_no_value (Lf arg)))
          else (emplace cmd (Lf arg) [49], Inr (False, argv))))"

text \<open>The loop over the letters behind a single dash.\<close>

fun parse_short :: "Command \<Rightarrow> bytes \<Rightarrow> bytes option \<Rightarrow> bytes list \<Rightarrow> word_result" where
  "parse_short cmd [] cVal argv = (cmd, Inr (False, argv))"
| "parse_short cmd (c # cs) cVal argv =
     (case command_get cmd [] c of
        Inl e \<Rightarrow> (cmd, Inl e)
      | Inr arg \<Rightarrow>
         (if Sf arg = 104 then (cmd, Inr (True, argv))
          else if \<not> Option arg then
            (if cs \<noteq> [] then (cmd, Inl (Expects_value (Lf arg)))
             else case cVal of
               Some v \<Rightarrow> parse_short (emplace cmd (Lf arg) v) cs cVal argv
             | None \<Rightarrow>
                (case argv of
                   [] \<Rightarrow> (cmd, Inl (Expects_value (Lf arg)))
                 | v # argv \<Rightarrow> parse_short (emplace cmd (Lf arg) v) cs (Some v) argv))
          else if cVal \<noteq> None then (cmd, Inl (Takes_no_value (Lf arg)))
          else parse_short (emplace cmd (Lf arg) [49]) cs cVal argv))"

definition parse_word :: "Command \<Rightarrow> bytes \<Rightarrow> bytes list \<Rightarrow> word_result" where
  "parse_word cmd arg argv =
     (let cArg = takeWhile (\<lambda>c. c \<noteq> 61) arg;
          cVal = (if 61 \<in> set arg then Some [] else None) in
      if cArg = [] \<or> hd cArg \<noteq> 45
      then (cmd\<lparr>mPositionals := mPositionals cmd @ [cArg]\<rparr>, Inr (False, argv))
      else
       (let dashes = isValid cArg in
        if dashes = 0 then (cmd, Inl (Unsupported_syntax cArg))
        else if dashes = 2 then parse_long cmd cArg cVal argv
        else parse_short cmd (drop 1 cArg) cVal argv))"

definition parse_step ::
    "Command \<times> bytes list \<Rightarrow> (Command \<times> bytes list + Command \<times> (args_error + bool)) option" where
  "parse_step = (\<lambda>(cmd, argv).
     case argv of
       [] \<Rightarrow> Some (Inr (cmd, Inr False))
     | arg # argv \<Rightarrow>
        (let (cmd, r) = parse_word cmd arg argv in
         case r of
           Inl e \<Rightarrow> Some (Inr (cmd, Inl e))
         | Inr (isHelp, argv) \<Rightarrow>
             Some (if isHelp then Inr (cmd, Inr True) else Inl (cmd, argv))))"

text \<open>The console: the lines of the standard input, and what \<open>getpass\<close> returns for a prompt. \<open>readParam\<close>
  falls back to the default at the end of the input.\<close>

record console =
  stdin :: "bytes list"
  getpass :: "bytes \<Rightarrow> bytes"

definition readParam :: "console \<Rightarrow> bytes \<Rightarrow> bytes option \<times> console" where
  "readParam con def =
     (case stdin con of
        line # lines \<Rightarrow> (Some line, con\<lparr>stdin := lines\<rparr>)
      | [] \<Rightarrow> (if def \<noteq> [] then Some def else None, con))"

definition readPasswd :: "console \<Rightarrow> bytes \<Rightarrow> bytes option \<times> console" where
  "readPasswd con display = (Some (getpass con display), con)"

definition requestValue :: "console \<Rightarrow> Command \<Rightarrow> Arg \<Rightarrow> (Command \<times> args_error option) \<times> console" where
  "requestValue con cmd arg =
     (let (status, con) =
        (if Hidden arg then readPasswd con (Prompt arg) else readParam con (Default arg)) in
      if status = None \<and> Required arg then ((cmd, Some (Not_provided (Lf arg))), con)
      else ((emplace cmd (Lf arg) (case status of Some v \<Rightarrow> v | None \<Rightarrow> []), None), con))"

text \<open>The loop over the arguments that are required: it collects the missing ones.\<close>

fun require_all ::
    "console \<Rightarrow> Command \<Rightarrow> Arg list \<Rightarrow> bytes list \<Rightarrow> (Command \<times> args_error option) \<times> console" where
  "require_all con cmd [] missing =
     ((cmd, if missing \<noteq> [] then Some (Missing_required missing) else None), con)"
| "require_all con cmd (arg # args) missing =
     (if \<not> Required arg \<or> pt_find (mParsed cmd) (Lf arg) \<noteq> None then require_all con cmd args missing
      else if Prompt arg \<noteq> [] then
        (let ((cmd, e), con) = requestValue con cmd arg in
         if e \<noteq> None then ((cmd, e), con) else require_all con cmd args missing)
      else require_all con cmd args (missing @ [Lf arg]))"

definition command_parse ::
    "console \<Rightarrow> Command \<Rightarrow> bytes list \<Rightarrow> ((Command \<times> (args_error + bool)) \<times> console) option" where
  "command_parse con cmd argv = do {
     (cmd, r) \<leftarrow> c_while parse_step (cmd, argv);
     Some (case r of
        Inl e \<Rightarrow> ((cmd, Inl e), con)
      | Inr isHelp \<Rightarrow>
          if isHelp then ((cmd, Inr True), con)
          else (let ((cmd, e), con) = require_all con cmd (mArgs cmd) [] in
                ((cmd, case e of Some e \<Rightarrow> Inl e | None \<Rightarrow> Inr False), con))) }"

subsection \<open>The parser\<close>

record Parser =
  mCommands :: "Command list"
  mGlobals :: "Arg list"
  mCommand :: "nat option"
  mAppName :: bytes
  mDescription :: bytes
  mAppVersion :: bytes
  mLongestCmd :: nat
  mLongestFlag :: nat
  pTakesArgs :: bool
  mInter :: bool

text \<open>\<open>Parser::find\<close> returns a pointer into \<open>mCommands\<close>: the index.\<close>

fun find_command :: "bytes \<Rightarrow> Command list \<Rightarrow> nat option" where
  "find_command name [] = None"
| "find_command name (c # cs) =
     (if mName c = name then Some 0 else map_option Suc (find_command name cs))"

definition findArg :: "Parser \<Rightarrow> bytes \<Rightarrow> byte \<Rightarrow> Arg option" where
  "findArg p name sf = find (\<lambda>a. Lf a = name \<or> (sf \<noteq> NOSF \<and> sf = Sf a)) (mGlobals p)"

definition add_global :: "Parser \<Rightarrow> Arg \<Rightarrow> args_error + Parser" where
  "add_global p arg =
     (if findArg p (Lf arg) NOSF = None
      then Inr (p\<lparr>pTakesArgs := pTakesArgs p \<or> \<not> Option arg,
             mLongestFlag := max (mLongestFlag p) (arg_length arg),
             mGlobals := mGlobals p @ [arg\<lparr>Global := True\<rparr>]\<rparr>)
      else Inl (Duplicate_global (Lf arg)))"

fun add_globals :: "Arg list \<Rightarrow> Command \<Rightarrow> Command" where
  "add_globals [] cmd = cmd"
| "add_globals (ga # gas) cmd =
     (if command_check cmd (Lf ga) (Sf ga) = None
      then add_globals gas (cmd\<lparr>mHasGlobalFlags := True, mArgs := mArgs cmd @ [ga]\<rparr>)
      else add_globals gas cmd)"

definition add_command :: "Parser \<Rightarrow> Command \<Rightarrow> args_error + Parser" where
  "add_command p cmd =
     (if find_command (mName cmd) (mCommands p) = None
      then
       (let cmd = add_globals (mGlobals p) cmd;
            inter = (mInter p \<or> mInteractive cmd);
            len = (if inter then length (mName cmd) + 14 else length (mName cmd)) in
        Inr (p\<lparr>mInter := inter, mLongestCmd := max (mLongestCmd p) len,
               mCommands := mCommands p @ [cmd]\<rparr>))
      else Inl (Duplicate_command (mName cmd)))"

definition parser0 :: "bytes \<Rightarrow> bytes \<Rightarrow> bytes \<Rightarrow> Parser" where
  "parser0 app version descript = \<lparr>mCommands = [], mGlobals = [], mCommand = None, mAppName = app,
     mDescription = descript, mAppVersion = version, mLongestCmd = 0, mLongestFlag = 0,
     pTakesArgs = False, mInter = False\<rparr>"

definition rbind :: "'e + 'a \<Rightarrow> ('a \<Rightarrow> 'e + 'b) \<Rightarrow> 'e + 'b" where
  "rbind m f = (case m of Inl e \<Rightarrow> Inl e | Inr x \<Rightarrow> f x)"

definition parser_new :: "meets \<Rightarrow> bytes \<Rightarrow> bytes \<Rightarrow> bytes \<Rightarrow> args_error + Parser" where
  "parser_new meets app version descript =
     rbind (add_global (parser0 app version descript)
       (arg0 (of_string ''help'') (of_string ''Show help for the active command for application'') 104)) (\<lambda>p.
     rbind (add_command p ((command0 meets (of_string ''version'') (of_string ''Show the application version''))
       \<lparr>mHandler := Show_version, mInternal := True\<rparr>)) (\<lambda>p.
     add_command p ((command0 meets (of_string ''help'') (of_string ''Display this application help''))
       \<lparr>mHandler := Show_help, mInternal := True\<rparr>)))"

subsection \<open>Help texts\<close>

text \<open>What is written to the stream. \<open>pad n\<close> is \<open>std::fill_n\<close> with blanks; the widths are differences of
  \<open>size_t\<close> values and wrap around.\<close>

definition pad :: "nat \<Rightarrow> bytes" where
  "pad n = replicate n 32"

definition flag_mark :: "Arg \<Rightarrow> byte" where
  "flag_mark arg = (if Prompt arg \<noteq> [] then 63 else if Required arg then 42 else 32)"

definition flag_value :: "bool \<Rightarrow> Arg \<Rightarrow> bytes" where
  "flag_value takes arg =
     (if Option arg then (if takes then of_string ''     '' else []) else of_string '' arg0'')"

definition command_flag :: "Command \<Rightarrow> Arg \<Rightarrow> bytes" where
  "command_flag cmd arg =
     of_string ''    ''
     @ (if Sf arg \<noteq> NOSF then [45, Sf arg] @ of_string '', '' else of_string ''    '')
     @ of_string ''--'' @ Lf arg @ [flag_mark arg] @ flag_value (mTakesArgs cmd) arg
     @ pad (sz_sub (mLongest cmd + 1) (length (Lf arg))) @ Help arg @ [10]"

definition command_showHelp :: "Command \<Rightarrow> bytes \<Rightarrow> bool \<Rightarrow> bytes" where
  "command_showHelp cmd app isHelp =
     (if isHelp then mDesc cmd @ [10, 10] else [])
     @ of_string ''Usage:'' @ [10] @ of_string ''  '' @ app @ [32] @ mName cmd
     @ (if mArgs cmd \<noteq> []
        then of_string '' [flags...]'' @ [10, 10] @ of_string ''Flags:'' @ [10]
          @ concat (map (command_flag cmd) (filter (\<lambda>arg. \<not> Global arg) (mArgs cmd)))
        else [10])"

definition global_flag :: "Parser \<Rightarrow> Arg \<Rightarrow> bytes" where
  "global_flag p ga =
     of_string ''    ''
     @ (if Sf ga \<noteq> NOSF then [45, Sf ga] @ (if Lf ga \<noteq> [] then of_string '', '' else [])
        else of_string ''    '')
     @ of_string ''--'' @ Lf ga @ [flag_mark ga] @ flag_value (pTakesArgs p) ga
     @ pad (sz_sub (mLongestFlag p) (length (Lf ga))) @ [32] @ Help ga @ [10]"

definition command_line :: "Parser \<Rightarrow> Command \<Rightarrow> bytes" where
  "command_line p cmd =
     (let remaining = sz_sub (mLongestCmd p) (length (mName cmd));
          remaining = (if mInteractive cmd then sz_sub remaining 14 else remaining) in
      of_string ''  '' @ mName cmd @ [32]
      @ (if mInteractive cmd then of_string ''(interactive) '' else [])
      @ pad remaining @ mDesc cmd @ [10])"

definition getHelp :: "Parser \<Rightarrow> bytes option \<Rightarrow> bytes" where
  "getHelp p prefix =
     (case prefix of
        Some s \<Rightarrow> s @ [10]
      | None \<Rightarrow>
          if mDescription p \<noteq> [] then mDescription p @ [10]
          else mAppName p @ (if mAppVersion p \<noteq> [] then of_string '' v'' @ mAppVersion p else []) @ [10])
     @ [10] @ of_string ''Usage:'' @ of_string ''    '' @ mAppName p @ of_string '' [command ...]'' @ [10, 10]
     @ (if mCommands p \<noteq> []
        then of_string ''Available Commands:'' @ [10] @ concat (map (command_line p) (mCommands p)) else [])
     @ (if mGlobals p \<noteq> []
        then of_string ''Flags:'' @ [10] @ concat (map (global_flag p) (mGlobals p)) else [])
     @ [10] @ of_string ''Use '' @ [34] @ mAppName p @ [34]
     @ of_string '' [command] --help for more information about a command'' @ [10, 10]"

definition getCommandHelp :: "Parser \<Rightarrow> Command \<Rightarrow> bool \<Rightarrow> bytes" where
  "getCommandHelp p cmd isHelp =
     command_showHelp cmd (mAppName p) isHelp
     @ (if mHasGlobalFlags cmd
        then [10] @ of_string ''Global Flags:'' @ [10]
          @ concat (map (global_flag p) (filter Global (mArgs cmd))) else [])
     @ [10]"

subsection \<open>The command line of the application\<close>

text \<open>What \<open>Parser::parse\<close> does: it exits with a code, returns with the command parsed, or the handler of
  an internal command throws. The outputs are what it writes to the two streams; the text of an
  exception is \<open>what e\<close>.\<close>

datatype parse_end = Exit nat | Parsed

definition run_handler :: "Parser \<Rightarrow> Handler \<Rightarrow> bytes" where
  "run_handler p h =
     (case h of
        Show_version \<Rightarrow> mAppName p @ of_string '' v'' @ mAppVersion p @ [10]
          @ (if mDescription p \<noteq> [] then mDescription p @ [10] else [])
      | Show_help \<Rightarrow> getHelp p None
      | _ \<Rightarrow> [])"

definition parser_parse ::
    "(args_error \<Rightarrow> bytes) \<Rightarrow> console \<Rightarrow> Parser \<Rightarrow> bytes list \<Rightarrow>
     ((Parser \<times> parse_end \<times> bytes \<times> bytes) \<times> console) option" where
  "parser_parse what con p argv =
     (case argv of
        [] \<Rightarrow> Some ((p, Exit 1, getHelp p None, []), con)
      | [_] \<Rightarrow> Some ((p, Exit 1, getHelp p None, []), con)
      | _ # cmdstr # args \<Rightarrow>
         (if cmdstr \<noteq> [] \<and> hd cmdstr = 45 then
            Some ((p, Exit 1, [],
              if isValid cmdstr = 0 then of_string ''error: bad flag syntax: '' @ cmdstr @ [10]
              else of_string ''error: free floating flags are not supported'' @ [10]), con)
          else case find_command cmdstr (mCommands p) of
            None \<Rightarrow> Some ((p, Exit 1, [], of_string ''error: unknown command '' @ [34] @ cmdstr @ [34]
                @ of_string '' for '' @ [34] @ mAppName p @ [34, 10]), con)
          | Some i \<Rightarrow> do {
              ((cmd, r), con) \<leftarrow> command_parse con (mCommands p ! i) args;
              let p = p\<lparr>mCommands := (mCommands p)[i := cmd]\<rparr>;
              Some ((case r of
                 Inl e \<Rightarrow> (p, Exit 1, [], what e @ [10] @ getCommandHelp p cmd False)
               | Inr True \<Rightarrow> (p, Exit 0, getCommandHelp p cmd True, [])
               | Inr False \<Rightarrow>
                   (let p = p\<lparr>mCommand := Some i\<rparr> in
                    if mInternal cmd then (p, Exit 0, run_handler p (mHandler cmd), [])
                    else (p, Parsed, [], []))), con) }))"

subsection \<open>Parsing comes to an end\<close>

lemma parse_short_rest:
  "parse_short cmd cs cVal argv = (cmd', Inr (h, argv')) \<Longrightarrow> length argv' \<le> length argv"
  by (induction cmd cs cVal argv rule: parse_short.induct)
     (auto split: sum.splits if_splits option.splits list.splits)

lemma parse_word_rest:
  "parse_word cmd arg argv = (cmd', Inr (h, argv')) \<Longrightarrow> length argv' \<le> length argv"
  by (auto simp: parse_word_def parse_long_def Let_def dest: parse_short_rest
      split: sum.splits if_splits option.splits list.splits)

interpretation parsing: bounded_loop parse_step "\<lambda>_. True" "\<lambda>(cmd, argv). length argv" "\<lambda>_. True"
proof unfold_locales
  fix s s' :: "Command \<times> bytes list"
  assume "parse_step s = Some (Inl s')"
  then show "(case s' of (cmd, argv) \<Rightarrow> length argv) < (case s of (cmd, argv) \<Rightarrow> length argv)"
    by (auto simp: parse_step_def less_Suc_eq_le split: list.splits prod.splits sum.splits if_splits
        dest: parse_word_rest)
qed (auto simp: parse_step_def split: prod.splits list.splits sum.splits)

lemma command_parse_total: "command_parse con cmd argv \<noteq> None"
  using parsing.returns [of "(cmd, argv)"]
  by (auto simp: command_parse_def split: sum.splits if_splits prod.splits option.splits)

subsection \<open>What a command line means\<close>

text \<open>The words of a command line written with long options, and how they are written.\<close>

datatype cli_word = Flag Arg | Valued Arg bytes | Positional bytes

fun render :: "cli_word \<Rightarrow> bytes list" where
  "render (Flag a) = [45 # 45 # Lf a]"
| "render (Valued a v) = [45 # 45 # Lf a, v]"
| "render (Positional s) = [s]"

definition long_ok :: "Command \<Rightarrow> Arg \<Rightarrow> bool" where
  "long_ok cmd a \<longleftrightarrow> command_check cmd (Lf a) NOSF = Some a \<and> Prompt a = [] \<and> Sf a \<noteq> 104 \<and>
     Lf a \<noteq> [] \<and> c_isalpha (hd (Lf a)) \<and> 61 \<notin> set (Lf a)"

fun word_ok :: "Command \<Rightarrow> cli_word \<Rightarrow> bool" where
  "word_ok cmd (Flag a) \<longleftrightarrow> long_ok cmd a \<and> Option a"
| "word_ok cmd (Valued a v) \<longleftrightarrow> long_ok cmd a \<and> \<not> Option a"
| "word_ok cmd (Positional s) \<longleftrightarrow> 61 \<notin> set s \<and> (s = [] \<or> hd s \<noteq> 45)"

fun word_values :: "cli_word \<Rightarrow> (bytes \<times> bytes) list" where
  "word_values (Flag a) = [(Lf a, [49])]"
| "word_values (Valued a v) = [(Lf a, v)]"
| "word_values (Positional s) = []"

fun word_positionals :: "cli_word \<Rightarrow> bytes list" where
  "word_positionals (Positional s) = [s]"
| "word_positionals _ = []"

lemma takeWhile_all: "x \<notin> set xs \<Longrightarrow> takeWhile (\<lambda>c. c \<noteq> x) xs = xs"
  by (auto intro!: takeWhile_eq_all_conv [THEN iffD2])

lemma long_ok_valid: "long_ok cmd a \<Longrightarrow> isValid (45 # 45 # Lf a) = 2"
  by (cases "Lf a") (auto simp: long_ok_def isValid_def c_isalpha_def)

lemma long_ok_update [simp]:
  "long_ok (cmd\<lparr>mParsed := m\<rparr>) a = long_ok cmd a" "long_ok (cmd\<lparr>mPositionals := ps\<rparr>) a = long_ok cmd a"
  by (simp_all add: long_ok_def command_check_def)

lemma word_ok_update [simp]:
  "word_ok (cmd\<lparr>mParsed := m\<rparr>) w = word_ok cmd w" "word_ok (cmd\<lparr>mPositionals := ps\<rparr>) w = word_ok cmd w"
  by (cases w; simp)+

text \<open>A table whose keys differ not only in case finds a name under that name only, whatever the library compares.\<close>

definition no_clash :: "bytes set \<Rightarrow> bool" where
  "no_clash N \<longleftrightarrow> (\<forall>m \<in> N. \<forall>n \<in> N. std_string_case_eq m n \<longrightarrow> m = n)"

lemma pt_find_none:
  assumes "no_clash (insert lf (fst ` set (pt_entries t)))" "lf \<notin> fst ` set (pt_entries t)"
  shows "pt_find t lf = None"
proof -
  have "\<not> (k = lf \<or> pt_meets t (pt_entries t) k lf \<and> std_string_case_eq k lf)" if "(k, v) \<in> set (pt_entries t)" for k v
  proof -
    have k: "k \<in> fst ` set (pt_entries t)" using that by force
    then have "k \<noteq> lf" using assms(2) by blast
    moreover have "std_string_case_eq k lf \<longrightarrow> k = lf" using assms(1) k unfolding no_clash_def by blast
    ultimately show ?thesis by blast
  qed
  then show ?thesis by (auto simp: pt_find_def find_None_iff)
qed

lemma pt_find_some:
  assumes "no_clash (fst ` set (pt_entries t))" "distinct (map fst (pt_entries t))" "(lf, v) \<in> set (pt_entries t)"
  shows "pt_find t lf = Some v"
proof -
  let ?P = "\<lambda>(k, v). k = lf \<or> pt_meets t (pt_entries t) k lf \<and> std_string_case_eq k lf"
  have lf: "lf \<in> fst ` set (pt_entries t)" using assms(3) by force
  obtain k w where k: "find ?P (pt_entries t) = Some (k, w)"
    using assms(3) by (cases "find ?P (pt_entries t)") (auto simp: find_None_iff)
  then have kw: "(k, w) \<in> set (pt_entries t)" "?P (k, w)" by (auto simp: find_Some_iff in_set_conv_nth)
  have "k \<in> fst ` set (pt_entries t)" using kw(1) by force
  then have "k = lf" using kw(2) assms(1) lf unfolding no_clash_def by blast
  then have "w = v" using kw(1) assms(2,3) by (metis eq_key_imp_eq_value)
  then show ?thesis by (simp add: pt_find_def k)
qed

lemma no_clash_subset: "no_clash N \<Longrightarrow> M \<subseteq> N \<Longrightarrow> no_clash M"
  unfolding no_clash_def by blast

abbreviation with_parsed :: "(bytes \<times> bytes) list \<Rightarrow> Command \<Rightarrow> Command" where
  "with_parsed vs cmd \<equiv> cmd\<lparr>mParsed := (mParsed cmd)\<lparr>pt_entries := pt_entries (mParsed cmd) @ vs\<rparr>\<rparr>"

abbreviation names_of :: "Command \<Rightarrow> bytes set" where
  "names_of cmd \<equiv> fst ` set (pt_entries (mParsed cmd))"

lemma emplace_new: "pt_find (mParsed cmd) lf = None \<Longrightarrow> emplace cmd lf v = with_parsed [(lf, v)] cmd"
  by (simp add: emplace_def pt_emplace_def)

lemma parse_long_ok:
  assumes "long_ok cmd a" "pt_find (mParsed cmd) (Lf a) = None"
  shows "parse_long cmd (45 # 45 # Lf a) cVal argv =
    (if Option a then if cVal = None then (with_parsed [(Lf a, [49])] cmd, Inr (False, argv))
       else (cmd, Inl (Takes_no_value (Lf a)))
     else case cVal of
       Some v \<Rightarrow> (with_parsed [(Lf a, v)] cmd, Inr (False, argv))
     | None \<Rightarrow> (case argv of [] \<Rightarrow> (cmd, Inl (Expects_value (Lf a)))
         | v # argv \<Rightarrow> (with_parsed [(Lf a, v)] cmd, Inr (False, argv))))"
  using assms by (simp add: parse_long_def command_get_def long_ok_def emplace_new split: option.split list.split)

lemma parse_step_word:
  assumes "word_ok cmd w" "\<forall>(n, v) \<in> set (word_values w). pt_find (mParsed cmd) n = None"
  shows "parse_step (cmd, render w @ argv) =
    Some (Inl (with_parsed (word_values w) (cmd\<lparr>mPositionals := mPositionals cmd @ word_positionals w\<rparr>), argv))"
proof (cases w)
  case (Positional s)
  then show ?thesis using assms by (simp add: parse_step_def parse_word_def takeWhile_all)
next
  case (Flag a)
  with assms have ok: "long_ok cmd a" by simp
  then have "61 \<notin> set (Lf a)" by (simp add: long_ok_def)
  with Flag long_ok_valid [OF ok] show ?thesis using assms
    by (simp add: parse_step_def parse_word_def takeWhile_all parse_long_ok Let_def)
next
  case (Valued a v)
  with assms have ok: "long_ok cmd a" by simp
  then have "61 \<notin> set (Lf a)" by (simp add: long_ok_def)
  with Valued long_ok_valid [OF ok] show ?thesis using assms
    by (simp add: parse_step_def parse_word_def takeWhile_all parse_long_ok Let_def)
qed

text \<open>The names that a command line binds.\<close>

abbreviation word_names :: "cli_word list \<Rightarrow> bytes list" where
  "word_names ws \<equiv> map fst (concat (map word_values ws))"

lemma word_values_new:
  assumes "no_clash (names_of cmd \<union> set (word_names (w # ws)))" "names_of cmd \<inter> set (word_names (w # ws)) = {}"
  shows "\<forall>(n, v) \<in> set (word_values w). pt_find (mParsed cmd) n = None"
proof (intro ballI, clarify)
  fix n v assume "(n, v) \<in> set (word_values w)"
  then have n: "n \<in> set (word_names (w # ws))" by force
  show "pt_find (mParsed cmd) n = None"
    by (rule pt_find_none) (use assms n in \<open>auto intro: no_clash_subset\<close>)
qed

lemma parse_words:
  "\<forall>w \<in> set ws. word_ok cmd w \<Longrightarrow> distinct (word_names ws) \<Longrightarrow>
   no_clash (names_of cmd \<union> set (word_names ws)) \<Longrightarrow> names_of cmd \<inter> set (word_names ws) = {} \<Longrightarrow>
   c_while parse_step (cmd, concat (map render ws)) =
     Some (with_parsed (concat (map word_values ws))
       (cmd\<lparr>mPositionals := mPositionals cmd @ concat (map word_positionals ws)\<rparr>), Inr False)"
proof (induction ws arbitrary: cmd)
  case Nil
  then show ?case by (intro c_while_stop) (simp add: parse_step_def)
next
  case (Cons w ws)
  let ?cmd = "with_parsed (word_values w) (cmd\<lparr>mPositionals := mPositionals cmd @ word_positionals w\<rparr>)"
  have "parse_step (cmd, render w @ concat (map render ws)) = Some (Inl (?cmd, concat (map render ws)))"
    using Cons.prems(1) word_values_new [OF Cons.prems(3,4)] by (intro parse_step_word) simp_all
  from c_while_next [of parse_step, OF this]
  have "c_while parse_step (cmd, concat (map render (w # ws))) = c_while parse_step (?cmd, concat (map render ws))"
    by simp
  also have "\<dots> = Some (with_parsed (concat (map word_values ws))
       (?cmd\<lparr>mPositionals := mPositionals ?cmd @ concat (map word_positionals ws)\<rparr>), Inr False)"
  proof (rule Cons.IH)
    show "no_clash (names_of ?cmd \<union> set (word_names ws))"
      by (rule no_clash_subset [OF Cons.prems(3)]) auto
    have "fst ` set (word_values w) \<inter> set (word_names ws) = {}" using Cons.prems(2) by simp
    moreover have "names_of cmd \<inter> set (word_names ws) = {}" using Cons.prems(4) by auto
    moreover have "names_of ?cmd = names_of cmd \<union> fst ` set (word_values w)" by (simp add: image_Un)
    ultimately show "names_of ?cmd \<inter> set (word_names ws) = {}" by (simp only: Int_Un_distrib2 Un_empty_left)
  qed (use Cons.prems in auto)
  finally show ?case by simp
qed

text \<open>All that is required is there: nothing is asked for, nothing is missing.\<close>

lemma require_all_given:
  "\<forall>a \<in> set args. Required a \<longrightarrow> pt_find (mParsed cmd) (Lf a) \<noteq> None \<Longrightarrow>
   require_all con cmd args [] = ((cmd, None), con)"
  by (induction args) auto

text \<open>C28: a command line of long options, their values in the next word, and positional arguments means
  what it says. Each option is bound to its value (\<open>1\<close> for a flag) and looked up under its name, the positional
  arguments are kept in their order, and nothing else of the command changes, provided that the options are distinct
  arguments of the command that are not prompted for, that no two names differ only in case, neither on the
  line nor to what was parsed before, and that every required argument is among them. No input is read from the console.
  This holds for every library, whichever keys its table compares.\<close>

theorem command_parse_words:
  assumes "\<forall>w \<in> set ws. word_ok cmd w"
    and "distinct (map fst (pt_entries (mParsed cmd) @ concat (map word_values ws)))"
    and "no_clash (fst ` set (pt_entries (mParsed cmd) @ concat (map word_values ws)))"
    and "\<forall>a \<in> set (mArgs cmd). Required a \<longrightarrow>
      Lf a \<in> fst ` set (pt_entries (mParsed cmd) @ concat (map word_values ws))"
  shows "\<exists>cmd'. command_parse con cmd (concat (map render ws)) = Some ((cmd', Inr False), con) \<and>
    cmd' = cmd\<lparr>mPositionals := mPositionals cmd @ concat (map word_positionals ws),
      mParsed := (mParsed cmd)\<lparr>pt_entries := pt_entries (mParsed cmd) @ concat (map word_values ws)\<rparr>\<rparr> \<and>
    (\<forall>(n, v) \<in> set (pt_entries (mParsed cmd) @ concat (map word_values ws)). command_value cmd' n = v)"
proof -
  let ?vs = "concat (map word_values ws)"
  let ?cmd = "cmd\<lparr>mPositionals := mPositionals cmd @ concat (map word_positionals ws),
      mParsed := (mParsed cmd)\<lparr>pt_entries := pt_entries (mParsed cmd) @ ?vs\<rparr>\<rparr>"
  have found: "pt_find (mParsed ?cmd) n = Some v" if "(n, v) \<in> set (pt_entries (mParsed cmd) @ ?vs)" for n v
    using assms(2,3) that by (intro pt_find_some) simp_all
  have "require_all con ?cmd (mArgs ?cmd) [] = ((?cmd, None), con)"
  proof (rule require_all_given, intro ballI impI)
    fix a assume "a \<in> set (mArgs ?cmd)" "Required a"
    then have "Lf a \<in> fst ` set (pt_entries (mParsed cmd) @ ?vs)" using assms(4) by simp
    then obtain v where "(Lf a, v) \<in> set (pt_entries (mParsed cmd) @ ?vs)" by force
    then show "pt_find (mParsed ?cmd) (Lf a) \<noteq> None" using found by blast
  qed
  moreover have "c_while parse_step (cmd, concat (map render ws)) = Some (?cmd, Inr False)"
    using parse_words [of ws cmd] assms(1-3) by (simp add: image_Un)
  ultimately have "command_parse con cmd (concat (map render ws)) = Some ((?cmd, Inr False), con)"
    by (simp add: command_parse_def)
  moreover have "command_value ?cmd n = v" if "(n, v) \<in> set (pt_entries (mParsed cmd) @ ?vs)" for n v
    using found [OF that] unfolding command_value_def by simp
  then have "\<forall>(n, v) \<in> set (pt_entries (mParsed cmd) @ ?vs). command_value ?cmd n = v" by blast
  ultimately show ?thesis by blast
qed

text \<open>Two names that differ only in case: when the table compares them, the second option counts as passed
  already; when their hashes keep them apart, both are bound. The program does not say which.\<close>

lemma parse_long_case:
  assumes "pt_entries (mParsed cmd) = [(k, v)]" "k \<noteq> Lf a" "std_string_case_eq k (Lf a)" "long_ok cmd a" "Option a"
  shows "parse_long cmd (45 # 45 # Lf a) None argv =
    (if pt_meets (mParsed cmd) [(k, v)] k (Lf a) then (cmd, Inl (Already_passed (Lf a)))
     else (with_parsed [(Lf a, [49])] cmd, Inr (False, argv)))"
  using assms by (auto simp: parse_long_def command_get_def long_ok_def emplace_def pt_emplace_def pt_find_def)

text \<open>The command of the example in the tests: two required numbers. The table compares everything.\<close>

definition add_command_example :: Command where
  "add_command_example = (command0 (\<lambda>_ _ _. True) (of_string ''add'') [])\<lparr>mArgs :=
     [(arg0 (of_string ''start'') [] 97)\<lparr>Option := False, Required := True\<rparr>,
      (arg0 (of_string ''next'') [] 98)\<lparr>Option := False, Required := True\<rparr>]\<rparr>"

theorem command_parse_words_witness:
  "\<exists>cmd'. command_parse \<lparr>stdin = [], getpass = (\<lambda>_. [])\<rparr> add_command_example
     [of_string ''--start'', of_string ''100'', of_string ''--next'', of_string ''10'', of_string ''13''] =
     Some ((cmd', Inr False), \<lparr>stdin = [], getpass = (\<lambda>_. [])\<rparr>) \<and>
   mPositionals cmd' = [of_string ''13''] \<and>
   command_value cmd' (of_string ''start'') = of_string ''100'' \<and> command_value cmd' (of_string ''next'') = of_string ''10''"
proof -
  let ?ws = "[Valued (mArgs add_command_example ! 0) (of_string ''100''),
    Valued (mArgs add_command_example ! 1) (of_string ''10''), Positional (of_string ''13'')]"
  have "\<exists>cmd'. command_parse \<lparr>stdin = [], getpass = (\<lambda>_. [])\<rparr> add_command_example (concat (map render ?ws)) =
      Some ((cmd', Inr False), \<lparr>stdin = [], getpass = (\<lambda>_. [])\<rparr>) \<and>
    cmd' = add_command_example\<lparr>mPositionals := mPositionals add_command_example @ concat (map word_positionals ?ws),
      mParsed := (mParsed add_command_example)\<lparr>pt_entries := pt_entries (mParsed add_command_example) @ concat (map word_values ?ws)\<rparr>\<rparr> \<and>
    (\<forall>(n, v) \<in> set (pt_entries (mParsed add_command_example) @ concat (map word_values ?ws)). command_value cmd' n = v)"
    by (rule command_parse_words)
       (simp_all add: add_command_example_def command0_def arg0_def long_ok_def command_check_def
        arg_check_def of_string_def c_isalpha_def NOSF_def no_clash_def std_string_case_eq_def)
  then show ?thesis
    by (auto simp: add_command_example_def command0_def arg0_def of_string_def)
qed

text \<open>\<open>--name=value\<close> loses the value. For an argument that takes one, \<open>parse\<close> binds the empty text, whatever
  stands behind the equals sign: the pointer it keeps is to the sign itself, which it overwrites with
  a NUL.\<close>

theorem command_parse_equals:
  assumes "long_ok cmd a" "\<not> Option a" "pt_find (mParsed cmd) (Lf a) = None"
    and "\<forall>b \<in> set (mArgs cmd). Required b \<longrightarrow> b = a"
  shows "command_parse con cmd [45 # 45 # Lf a @ 61 # val] =
    Some ((with_parsed [(Lf a, [])] cmd, Inr False), con)"
proof -
  let ?cmd = "with_parsed [(Lf a, [])] cmd"
  have a: "61 \<notin> set (Lf a)" using assms(1) by (simp add: long_ok_def)
  have "parse_step (cmd, [45 # 45 # Lf a @ 61 # val]) = Some (Inl (?cmd, []))"
    using assms a long_ok_valid [OF assms(1)]
    by (simp add: parse_step_def parse_word_def takeWhile_tail takeWhile_append2 takeWhile_all parse_long_ok Let_def)
  moreover have "parse_step (?cmd, []) = Some (Inr (?cmd, Inr False))" by (simp add: parse_step_def)
  ultimately have "c_while parse_step (cmd, [45 # 45 # Lf a @ 61 # val]) = Some (?cmd, Inr False)"
    by (simp add: c_while_next c_while_stop)
  moreover have "find (\<lambda>(k, v). k = Lf a \<or> Q k) (es @ [(Lf a, [])]) \<noteq> None" for es :: "(bytes \<times> bytes) list" and Q
    by (auto simp: find_None_iff)
  then have "pt_find (mParsed ?cmd) (Lf a) \<noteq> None" by (simp add: pt_find_def)
  then have "require_all con ?cmd (mArgs ?cmd) [] = ((?cmd, None), con)"
    using assms(4) by (intro require_all_given) auto
  ultimately show ?thesis by (simp add: command_parse_def)
qed

theorem command_parse_equals_witness:
  "\<exists>cmd'. command_parse \<lparr>stdin = [], getpass = (\<lambda>_. [])\<rparr>
     (add_command_example\<lparr>mArgs := [mArgs add_command_example ! 0]\<rparr>) [of_string ''--start=100''] =
     Some ((cmd', Inr False), \<lparr>stdin = [], getpass = (\<lambda>_. [])\<rparr>) \<and> pt_entries (mParsed cmd') = [(of_string ''start'', [])]"
proof -
  let ?cmd = "add_command_example\<lparr>mArgs := [mArgs add_command_example ! 0]\<rparr>"
  let ?a = "mArgs add_command_example ! 0"
  have "command_parse \<lparr>stdin = [], getpass = (\<lambda>_. [])\<rparr> ?cmd [45 # 45 # Lf ?a @ 61 # of_string ''100''] =
    Some ((with_parsed [(Lf ?a, [])] ?cmd, Inr False), \<lparr>stdin = [], getpass = (\<lambda>_. [])\<rparr>)"
    by (rule command_parse_equals)
       (simp_all add: add_command_example_def command0_def arg0_def long_ok_def command_check_def
        arg_check_def of_string_def c_isalpha_def NOSF_def pt_find_def)
  then show ?thesis by (simp add: add_command_example_def command0_def arg0_def of_string_def)
qed

end
