(* ===== verification/MillList.thy ===== *)
theory MillList
  imports Prelude
begin

section \<open>The doubly linked list\<close>

text \<open>
  \<open>list.cpp\<close>. Items live at addresses; the heap maps an address to the item's two links, and \<open>None\<close> is
  the null pointer. The operations are sequences of stores, in the order of the code.
\<close>

type_synonym ptr = "nat option"

record mill_list_item =
  l_prev :: ptr
  l_next :: ptr

record mill_list =
  l_first :: ptr
  l_last :: ptr

type_synonym item_heap = "nat \<Rightarrow> mill_list_item"

definition mill_list_init :: "mill_list" where
  "mill_list_init = \<lparr>l_first = None, l_last = None\<rparr>"

definition set_prev :: "ptr \<Rightarrow> ptr \<Rightarrow> item_heap \<Rightarrow> item_heap" where
  "set_prev p v h = (case p of None \<Rightarrow> h | Some a \<Rightarrow> h(a := (h a)\<lparr>l_prev := v\<rparr>))"

definition set_next :: "ptr \<Rightarrow> ptr \<Rightarrow> item_heap \<Rightarrow> item_heap" where
  "set_next p v h = (case p of None \<Rightarrow> h | Some a \<Rightarrow> h(a := (h a)\<lparr>l_next := v\<rparr>))"

definition mill_list_insert ::
    "mill_list \<Rightarrow> nat \<Rightarrow> ptr \<Rightarrow> item_heap \<Rightarrow> mill_list \<times> item_heap" where
  "mill_list_insert self item it h =
     (let h = set_prev (Some item) (case it of Some a \<Rightarrow> l_prev (h a) | None \<Rightarrow> l_last self) h;
          h = set_next (Some item) it h;
          h = set_next (l_prev (h item)) (Some item) h;
          h = set_prev (l_next (h item)) (Some item) h;
          self = (if l_first self = None \<or> l_first self = it
                  then self\<lparr>l_first := Some item\<rparr> else self);
          self = (if it = None then self\<lparr>l_last := Some item\<rparr> else self) in
      (self, h))"

definition mill_list_erase :: "mill_list \<Rightarrow> nat \<Rightarrow> item_heap \<Rightarrow> ptr \<times> mill_list \<times> item_heap" where
  "mill_list_erase self item h =
     (let (self, h) =
        (case l_prev (h item) of
           Some a \<Rightarrow> (self, set_next (Some a) (l_next (h item)) h)
         | None \<Rightarrow> (self\<lparr>l_first := l_next (h item)\<rparr>, h));
          (self, h) =
        (case l_next (h item) of
           Some a \<Rightarrow> (self, set_prev (Some a) (l_prev (h item)) h)
         | None \<Rightarrow> (self\<lparr>l_last := l_prev (h item)\<rparr>, h));
          next = l_next (h item);
          h = set_prev (Some item) None h;
          h = set_next (Some item) None h in
      (next, self, h))"

subsection \<open>The list a heap holds\<close>

definition head_ptr :: "nat list \<Rightarrow> ptr \<Rightarrow> ptr" where
  "head_ptr xs n = (case xs of [] \<Rightarrow> n | x # _ \<Rightarrow> Some x)"

definition last_ptr :: "nat list \<Rightarrow> ptr \<Rightarrow> ptr" where
  "last_ptr xs p = (if xs = [] then p else Some (last xs))"

text \<open>\<open>dll h p xs n\<close>: the items \<open>xs\<close> are chained, with \<open>p\<close> before the first and \<open>n\<close> behind the last.\<close>

fun dll :: "item_heap \<Rightarrow> ptr \<Rightarrow> nat list \<Rightarrow> ptr \<Rightarrow> bool" where
  "dll h p [] n \<longleftrightarrow> True"
| "dll h p (x # xs) n \<longleftrightarrow> l_prev (h x) = p \<and> l_next (h x) = head_ptr xs n \<and> dll h (Some x) xs n"

definition holds_list :: "item_heap \<Rightarrow> mill_list \<Rightarrow> nat list \<Rightarrow> bool" where
  "holds_list h self xs \<longleftrightarrow>
     distinct xs \<and> l_first self = head_ptr xs None \<and> l_last self = last_ptr xs None \<and> dll h None xs None"

lemma ptr_simps [simp]:
  "head_ptr [] n = n" "head_ptr (x # xs) n = Some x" "last_ptr [] p = p" "last_ptr (xs @ [x]) p = Some x"
  "last_ptr (x # xs) p = last_ptr xs (Some x)"
  by (simp_all add: head_ptr_def last_ptr_def)

lemma head_ptr_append: "head_ptr (xs @ ys) n = head_ptr xs (head_ptr ys n)"
  by (cases xs) simp_all

lemma last_ptr_append: "last_ptr (xs @ ys) p = last_ptr ys (last_ptr xs p)"
  by (cases ys rule: rev_cases) (simp_all add: last_ptr_def)

lemma dll_append: "dll h p (xs @ ys) n \<longleftrightarrow> dll h p xs (head_ptr ys n) \<and> dll h (last_ptr xs p) ys n"
  by (induction xs arbitrary: p) (auto simp: head_ptr_append)

lemma dll_other [simp]: "a \<notin> set xs \<Longrightarrow> dll (h(a := v)) p xs n \<longleftrightarrow> dll h p xs n"
  by (induction xs arbitrary: p) auto

lemma dll_agree: "(\<And>x. x \<in> set xs \<Longrightarrow> h' x = h x) \<Longrightarrow> dll h' p xs n \<longleftrightarrow> dll h p xs n"
  by (induction xs arbitrary: p) auto

text \<open>Relinking the ends of a chain.\<close>

lemma dll_relink_first:
  "dll h p (x # xs) n \<Longrightarrow> x \<notin> set xs \<Longrightarrow> dll (h(x := (h x)\<lparr>l_prev := q\<rparr>)) q (x # xs) n"
  by simp

lemma dll_relink_last:
  "dll h p (xs @ [x]) n \<Longrightarrow> x \<notin> set xs \<Longrightarrow> dll (h(x := (h x)\<lparr>l_next := m\<rparr>)) p (xs @ [x]) m"
  by (simp add: dll_append)

lemma set_next_last:
  assumes "dll h None xs m" "distinct xs"
  shows "dll (set_next (last_ptr xs None) n h) None xs n"
    and "\<And>y. y \<notin> set xs \<Longrightarrow> set_next (last_ptr xs None) n h y = h y"
  using assms dll_relink_last [of h None "butlast xs" "last xs" m n]
  by (cases xs rule: rev_cases; simp add: set_next_def)+

lemma set_prev_first:
  assumes "dll h p ys None" "distinct ys"
  shows "dll (set_prev (head_ptr ys None) q h) q ys None"
    and "\<And>y. y \<notin> set ys \<Longrightarrow> set_prev (head_ptr ys None) q h y = h y"
  using assms by (cases ys; simp add: set_prev_def)+

lemma set_next_agree: "y \<notin> set xs \<Longrightarrow> set_next (last_ptr xs None) n h y = h y"
  by (cases xs rule: rev_cases) (auto simp: set_next_def)

lemma set_prev_agree: "y \<notin> set ys \<Longrightarrow> set_prev (head_ptr ys None) q h y = h y"
  by (cases ys) (auto simp: set_prev_def)

text \<open>A chain in three parts, around an item.\<close>

lemma dll_around:
  "dll h None (xs @ item # ys) None \<longleftrightarrow>
   dll h None xs (Some item) \<and> l_prev (h item) = last_ptr xs None \<and>
   l_next (h item) = head_ptr ys None \<and> dll h (Some item) ys None"
  by (simp add: dll_append)

lemma mill_list_insert_holds:
  assumes holds: "holds_list h self (xs @ ys)" and new: "item \<notin> set (xs @ ys)"
    and res: "mill_list_insert self item (head_ptr ys None) h = (self', h')"
  shows "holds_list h' self' (xs @ item # ys) \<and> (\<forall>a. a \<notin> set (xs @ item # ys) \<longrightarrow> h' a = h a)"
proof -
  let ?p = "last_ptr xs None" and ?n = "head_ptr ys None"
  have dist: "distinct xs" "distinct ys" "set xs \<inter> set ys = {}"
    and chain: "dll h None xs ?n" "dll h ?p ys None"
    and ends: "l_first self = head_ptr xs ?n" "l_last self = last_ptr ys ?p"
    using holds by (auto simp: holds_list_def dll_append head_ptr_append last_ptr_append)
  have before: "(case ?n of Some a \<Rightarrow> l_prev (h a) | None \<Rightarrow> l_last self) = ?p"
    using chain ends by (cases ys) auto
  define h2 where "h2 = h(item := (h item)\<lparr>l_prev := ?p, l_next := ?n\<rparr>)"
  define h3 where "h3 = set_next ?p (Some item) h2"
  have h2: "h2 a = h a" if "a \<noteq> item" for a using that by (simp add: h2_def)
  have h3: "h3 a = h2 a" if "a \<notin> set xs" for a using that by (simp add: h3_def set_next_agree)
  have heap: "h' = set_prev ?n (Some item) h3"
    using res new h3 [of item] before
    by (simp add: mill_list_insert_def set_prev_def [of "Some item"] set_next_def [of "Some item"] Let_def h2_def h3_def)
  have h': "h' a = h3 a" if "a \<notin> set ys" for a using that by (simp add: heap set_prev_agree)
  have left: "dll h' None xs (Some item)"
  proof -
    have "dll h2 None xs ?n" using chain(1) new by (simp add: h2_def)
    then have "dll h3 None xs (Some item)" unfolding h3_def by (rule set_next_last) (rule dist)
    then show ?thesis using h' dist(3) by (subst dll_agree [of xs h' h3]) auto
  qed
  moreover have "dll h' (Some item) ys None"
  proof -
    have "dll h3 ?p ys None" using chain(2) new dist(3)
      by (subst dll_agree [of ys h3 h]) (use h3 h2 in \<open>metis UnI2 disjoint_iff set_append\<close>)
    then show ?thesis unfolding heap by (rule set_prev_first) (rule dist)
  qed
  moreover have "h' item = (h item)\<lparr>l_prev := ?p, l_next := ?n\<rparr>"
    using new h' [of item] h3 [of item] by (simp add: h2_def)
  moreover have "l_first self' = head_ptr (xs @ item # ys) None" "l_last self' = last_ptr (xs @ item # ys) None"
    using res ends dist(3) by (cases xs; cases ys; force simp: mill_list_insert_def Let_def last_ptr_append last_ptr_def)+
  ultimately have "holds_list h' self' (xs @ item # ys)"
    using new dist by (auto simp: holds_list_def dll_around)
  moreover have "h' a = h a" if "a \<notin> set (xs @ item # ys)" for a using that h' h3 h2 by simp
  ultimately show ?thesis by blast
qed

lemma erase_prev:
  "(case p of Some a \<Rightarrow> (self, set_next (Some a) v h) | None \<Rightarrow> (self\<lparr>l_first := v\<rparr>, h)) =
   (if p = None then self\<lparr>l_first := v\<rparr> else self, set_next p v h)"
  by (cases p) (simp_all add: set_next_def)

lemma erase_next:
  "(case p of Some a \<Rightarrow> (self, set_prev (Some a) v h) | None \<Rightarrow> (self\<lparr>l_last := v\<rparr>, h)) =
   (if p = None then self\<lparr>l_last := v\<rparr> else self, set_prev p v h)"
  by (cases p) (simp_all add: set_prev_def)

lemma mill_list_erase_holds:
  assumes holds: "holds_list h self (xs @ item # ys)"
    and res: "mill_list_erase self item h = (next_item, self', h')"
  shows "holds_list h' self' (xs @ ys) \<and> next_item = head_ptr ys None \<and>
    h' item = (h item)\<lparr>l_prev := None, l_next := None\<rparr> \<and> (\<forall>a. a \<notin> set (xs @ item # ys) \<longrightarrow> h' a = h a)"
proof -
  let ?p = "last_ptr xs None" and ?n = "head_ptr ys None"
  have dist: "distinct xs" "distinct ys" "set xs \<inter> set ys = {}" "item \<notin> set xs" "item \<notin> set ys"
    and chain: "dll h None xs (Some item)" "dll h (Some item) ys None"
    and item: "l_prev (h item) = ?p" "l_next (h item) = ?n"
    and ends: "l_first self = head_ptr xs (Some item)" "l_last self = last_ptr ys (Some item)"
    using holds by (auto simp: holds_list_def dll_around head_ptr_append last_ptr_append)
  define h1 where "h1 = set_next ?p ?n h"
  define h2 where "h2 = set_prev ?n ?p h1"
  have h1: "h1 a = h a" if "a \<notin> set xs" for a using that by (simp add: h1_def set_next_agree)
  have h2: "h2 a = h1 a" if "a \<notin> set ys" for a using that by (simp add: h2_def set_prev_agree)
  have hi: "h2 item = h item" using h1 h2 dist by simp
  have hi1: "h1 item = h item" using h1 dist by simp
  have res': "next_item = ?n" "h' = h2(item := (h item)\<lparr>l_prev := None, l_next := None\<rparr>)"
    "l_first self' = head_ptr xs ?n" "l_last self' = last_ptr ys ?p"
  proof -
    have eq: "mill_list_erase self item h =
       (?n, (let self = (if ?p = None then self\<lparr>l_first := ?n\<rparr> else self) in
             if ?n = None then self\<lparr>l_last := ?p\<rparr> else self),
        h2(item := (h item)\<lparr>l_prev := None, l_next := None\<rparr>))"
      by (simp add: mill_list_erase_def erase_prev erase_next item hi1 hi Let_def set_next_def [of "Some item"]
          set_prev_def [of "Some item"] flip: h1_def) (simp add: hi item flip: h2_def)
    with res show "next_item = ?n" "h' = h2(item := (h item)\<lparr>l_prev := None, l_next := None\<rparr>)" by auto
    show "l_first self' = head_ptr xs ?n" "l_last self' = last_ptr ys ?p"
      using res ends unfolding eq by (cases xs; cases ys; force simp: Let_def last_ptr_def)+
  qed
  have "dll h' None (xs @ ys) None"
  proof -
    have "dll h1 None xs ?n" unfolding h1_def using chain(1) dist(1) by (rule set_next_last)
    then have "dll h' None xs ?n" using h2 dist res'(2) by (subst dll_agree [of xs h' h1]) auto
    moreover have "dll h1 (Some item) ys None" using chain(2) h1 dist by (subst dll_agree [of ys h1 h]) auto
    then have "dll h2 ?p ys None" unfolding h2_def using dist(2) by (rule set_prev_first)
    then have "dll h' ?p ys None" using dist res'(2) by (subst dll_agree [of ys h' h2]) auto
    ultimately show ?thesis by (simp add: dll_append)
  qed
  then show ?thesis using res' dist h1 h2 hi
    by (auto simp: holds_list_def head_ptr_append last_ptr_append)
qed

text \<open>C32: \<open>mill_list_insert\<close> before an item of the list, or at its end, yields the list with the item at that
  place, linked both ways, and writes no item outside the list; \<open>mill_list_erase\<close> takes it out again,
  returns what followed it, and leaves the list as it was and the item unlinked.\<close>

theorem mill_list_insert_erase:
  assumes "holds_list h self (xs @ ys)" "item \<notin> set (xs @ ys)"
    and "mill_list_insert self item (head_ptr ys None) h = (self1, h1)"
    and "mill_list_erase self1 item h1 = (next_item, self2, h2)"
  shows "holds_list h1 self1 (xs @ item # ys) \<and> (\<forall>a. a \<notin> set (xs @ item # ys) \<longrightarrow> h1 a = h a) \<and>
    holds_list h2 self2 (xs @ ys) \<and> next_item = head_ptr ys None \<and>
    l_prev (h2 item) = None \<and> l_next (h2 item) = None"
proof -
  note i = mill_list_insert_holds [OF assms(1-3)]
  note e = mill_list_erase_holds [OF conjunct1 [OF i] assms(4)]
  from i e show ?thesis by simp
qed

text \<open>Item 7 between 5 and 9.\<close>

lemma mill_list_insert_erase_witness:
  "\<exists>h1 self1 self2 h2. holds_list h1 self1 [5, 7, 9] \<and> mill_list_erase self1 7 h1 = (Some 9, self2, h2) \<and>
     holds_list h2 self2 [5, 9]"
proof -
  let ?h = "(\<lambda>_. \<lparr>l_prev = None, l_next = None\<rparr>)(5 := \<lparr>l_prev = None, l_next = Some 9\<rparr>,
     9 := \<lparr>l_prev = Some 5, l_next = None\<rparr>)"
  let ?l = "\<lparr>l_first = Some 5, l_last = Some 9\<rparr>"
  have a: "holds_list ?h ?l ([5] @ [9])" by (simp add: holds_list_def)
  obtain self1 h1 where i: "mill_list_insert ?l 7 (head_ptr [9] None) ?h = (self1, h1)" by fastforce
  obtain n self2 h2 where e: "mill_list_erase self1 7 h1 = (n, self2, h2)" using prod_cases3 by blast
  have "7 \<notin> set ([5] @ [9 :: nat])" by simp
  from mill_list_insert_erase [OF a this i e] e show ?thesis by auto
qed

end
