(* ===== verification/Timers.thy ===== *)
theory Timers
  imports MillList
begin

section \<open>The timers of a thread\<close>

text \<open>
  \<open>thread.cpp\<close>: the events and delays a thread of the scheduler waits for, and its list of timers. The
  timer inside an event or a delay has the address of its owner, so one number stands for both. Times
  are milliseconds. Resuming a coroutine runs \<open>await_resume\<close> and then code of the application: it is the argument
  \<open>resume\<close>, a function of the owner and the whole thread, which may change both. The eventfd that wakes the
  thread is in \<open>Loop\<close>; \<open>epoll_ctl\<close> is an argument that returns an error number or \<open>0\<close>. The weak compare-exchanges on states fail only when the states differ.
\<close>

datatype timer_target = No_target | Event_target | Delay_target

datatype event_state = esCREATED | esFIRED | esERROR | esSCHEDULED | esABANDONED | esTIMEOUT

datatype delay_state = tsCREATED | tsSCHEDULED | tsABANDONED | tsFIRED

datatype direction = Dir_in | Dir_out

record 'x thread =
  th_timers :: mill_list
  th_heap :: item_heap
  th_dd :: "nat \<Rightarrow> int"
  th_target :: "nat \<Rightarrow> timer_target"
  th_event :: "nat \<Rightarrow> event_state"
  th_delay :: "nat \<Rightarrow> delay_state"
  th_ion :: "nat \<Rightarrow> direction"
  th_inflight :: nat
  th_maxInflight :: nat
  th_totalQueued :: nat
  th_world :: 'x

type_synonym 'x resume = "nat \<Rightarrow> 'x thread \<Rightarrow> 'x thread"

subsection \<open>The list of timers\<close>

text \<open>The loop that looks for the first timer with a later deadline.\<close>

definition addTimer_step :: "'x thread \<Rightarrow> nat \<Rightarrow> ptr \<Rightarrow> (ptr + ptr) option" where
  "addTimer_step th t it =
     (case it of
        None \<Rightarrow> Some (Inr None)
      | Some a \<Rightarrow>
          Some (if th_dd th t < th_dd th a then Inr it else Inl (l_next (th_heap th a))))"

definition addTimer :: "nat \<Rightarrow> 'x thread \<Rightarrow> 'x thread option" where
  "addTimer t th = do {
     it \<leftarrow> c_while (addTimer_step th t) (l_first (th_timers th));
     let (timers, h) = mill_list_insert (th_timers th) t it (th_heap th);
     Some (th\<lparr>th_timers := timers, th_heap := h\<rparr>) }"

definition erase_timer :: "nat \<Rightarrow> 'x thread \<Rightarrow> 'x thread" where
  "erase_timer t th =
     (let (_, timers, h) = mill_list_erase (th_timers th) t (th_heap th) in
      th\<lparr>th_timers := timers, th_heap := h\<rparr>)"

definition cancelTimer :: "nat \<Rightarrow> 'x thread \<Rightarrow> 'x thread" where
  "cancelTimer t th = (if th_target th t \<noteq> No_target then erase_timer t th else th)"

text \<open>\<open>timer = {}\<close>\<close>

definition clear_timer :: "nat \<Rightarrow> 'x thread \<Rightarrow> 'x thread" where
  "clear_timer t th =
     th\<lparr>th_heap := (th_heap th)(t := \<lparr>l_prev = None, l_next = None\<rparr>),
        th_dd := (th_dd th)(t := 0), th_target := (th_target th)(t := No_target)\<rparr>"

text \<open>The counters are 64 bits wide.\<close>

definition record_queued :: "'x thread \<Rightarrow> 'x thread" where
  "record_queued th =
     (let n = (th_inflight th + 1) mod 2 ^ 64 in
      th\<lparr>th_inflight := n, th_maxInflight := max n (th_maxInflight th),
         th_totalQueued := (th_totalQueued th + 1) mod 2 ^ 64\<rparr>)"

definition done_inflight :: "'x thread \<Rightarrow> 'x thread" where
  "done_inflight th = th\<lparr>th_inflight := sz_sub (th_inflight th) 1\<rparr>"

subsection \<open>Events and delays\<close>

datatype ctl_op = CTL_ADD | CTL_MOD | CTL_DEL

definition EEXIST :: nat where "EEXIST = 17"

text \<open>\<open>TRY_OP\<close>: the result of the last \<open>epoll_ctl\<close>.\<close>

definition add_event_step :: "(ctl_op \<Rightarrow> nat \<Rightarrow> nat) \<Rightarrow> nat \<Rightarrow> ctl_op \<Rightarrow> (ctl_op + bool) option" where
  "add_event_step epoll_ctl e op =
     (let ec = epoll_ctl op e in
      Some (if ec = 0 then Inr True else if ec = EEXIST then Inl CTL_MOD else Inr False))"

definition add_event :: "(ctl_op \<Rightarrow> nat \<Rightarrow> nat) \<Rightarrow> nat \<Rightarrow> 'x thread \<Rightarrow> ('x thread \<times> bool) option" where
  "add_event epoll_ctl e th =
     (if th_event th e = esSCHEDULED then None
      else do {
        ok \<leftarrow> c_while (add_event_step epoll_ctl e) CTL_ADD;
        if ok then do {
          th \<leftarrow> (if th_dd th e > 0
                then addTimer e (th\<lparr>th_target := (th_target th)(e := Event_target)\<rparr>) else Some th);
          Some (record_queued (th\<lparr>th_event := (th_event th)(e := esSCHEDULED)\<rparr>), True) }
        else Some (th, False) })"

definition add_delay :: "nat \<Rightarrow> 'x thread \<Rightarrow> 'x thread option" where
  "add_delay d th =
     (if th_delay th d = tsSCHEDULED then None
      else do {
        th \<leftarrow> addTimer d (th\<lparr>th_delay := (th_delay th)(d := tsSCHEDULED),
                             th_target := (th_target th)(d := Delay_target)\<rparr>);
        Some (record_queued th) })"

definition drop_event_timer :: "nat \<Rightarrow> 'x thread \<Rightarrow> 'x thread" where
  "drop_event_timer e th =
     (if th_target th e \<noteq> No_target then clear_timer e (cancelTimer e th) else th)"

definition handleEvent :: "'x resume \<Rightarrow> nat \<Rightarrow> 'x thread \<Rightarrow> 'x thread" where
  "handleEvent resume e th = resume e (done_inflight (drop_event_timer e th))"

text \<open>One event that \<open>epoll_wait\<close> reports, in the loop of the thread: \<open>err\<close> tells of \<open>EPOLLERR\<close> or
  \<open>EPOLLHUP\<close>, \<open>input\<close> of \<open>EPOLLIN\<close> and \<open>output\<close> of \<open>EPOLLOUT\<close>.\<close>

definition triggered :: "'x resume \<Rightarrow> bool \<Rightarrow> bool \<Rightarrow> bool \<Rightarrow> nat \<Rightarrow> 'x thread \<Rightarrow> 'x thread option" where
  "triggered resume err input output e th =
     (if th_event th e = esSCHEDULED then
        if err then Some (handleEvent resume e (th\<lparr>th_event := (th_event th)(e := esERROR)\<rparr>))
        else if (if th_ion th e = Dir_in then input else output)
        then Some (handleEvent resume e (th\<lparr>th_event := (th_event th)(e := esFIRED)\<rparr>))
        else None
      else Some th)"

definition remove_event :: "'x resume \<Rightarrow> nat \<Rightarrow> 'x thread \<Rightarrow> 'x thread" where
  "remove_event resume e th =
     (if th_event th e = esSCHEDULED
      then resume e (done_inflight (drop_event_timer e (th\<lparr>th_event := (th_event th)(e := esABANDONED)\<rparr>)))
      else th)"

definition remove_delay :: "'x resume \<Rightarrow> nat \<Rightarrow> 'x thread \<Rightarrow> 'x thread" where
  "remove_delay resume d th =
     (if th_delay th d = tsSCHEDULED
      then resume d (done_inflight (clear_timer d (cancelTimer d (th\<lparr>th_delay := (th_delay th)(d := tsABANDONED)\<rparr>))))
      else th)"

subsection \<open>Firing\<close>

definition fire_target :: "'x resume \<Rightarrow> nat \<Rightarrow> 'x thread \<Rightarrow> 'x thread option" where
  "fire_target resume t th =
     (case th_target th t of
        Event_target \<Rightarrow> Some
          (if th_event th t = esSCHEDULED
           then resume t (done_inflight (th\<lparr>th_event := (th_event th)(t := esTIMEOUT)\<rparr>)) else th)
      | Delay_target \<Rightarrow> Some
          (if th_delay th t = tsSCHEDULED
           then resume t (done_inflight (th\<lparr>th_delay := (th_delay th)(t := tsFIRED)\<rparr>)) else th)
      | No_target \<Rightarrow> None)"

definition fire_step :: "'x resume \<Rightarrow> int \<Rightarrow> 'x thread \<Rightarrow> ('x thread + 'x thread) option" where
  "fire_step resume tp th =
     (case l_first (th_timers th) of
        None \<Rightarrow> Some (Inr th)
      | Some it \<Rightarrow>
          if th_dd th it > tp then Some (Inr th)
          else do { th \<leftarrow> fire_target resume it (erase_timer it th); Some (Inl th) })"

definition fireExpiredTimers :: "'x resume \<Rightarrow> int \<Rightarrow> 'x thread \<Rightarrow> 'x thread option" where
  "fireExpiredTimers resume tp th = c_while (fire_step resume tp) th"

text \<open>A 64-bit difference, converted to \<open>int\<close>.\<close>

definition int32 :: "int \<Rightarrow> int" where
  "int32 z = (z + 2 ^ 31) mod 2 ^ 32 - 2 ^ 31"

definition computeWaitTimeout :: "int \<Rightarrow> 'x thread \<Rightarrow> int" where
  "computeWaitTimeout now th =
     (case l_first (th_timers th) of
        None \<Rightarrow> -1
      | Some it \<Rightarrow> (let at = th_dd th it - now in if at \<le> 0 then 0 else int32 at))"

subsection \<open>The timers in the order of their deadlines\<close>

definition holds_timers :: "'x thread \<Rightarrow> nat list \<Rightarrow> bool" where
  "holds_timers th xs \<longleftrightarrow>
     holds_list (th_heap th) (th_timers th) xs \<and> sorted (map (th_dd th) xs)"

lemma addTimer_find:
  assumes "dll (th_heap th) p xs None"
  shows "c_while (addTimer_step th t) (head_ptr xs None) =
    Some (head_ptr (dropWhile (\<lambda>x. th_dd th x \<le> th_dd th t) xs) None)"
  using assms
proof (induction xs arbitrary: p)
  case Nil
  then show ?case by (simp add: c_while_stop addTimer_step_def)
next
  case (Cons x xs)
  show ?case
  proof (cases "th_dd th x \<le> th_dd th t")
    case True
    then have "c_while (addTimer_step th t) (Some x) = c_while (addTimer_step th t) (head_ptr xs None)"
      using Cons.prems by (intro c_while_next) (simp add: addTimer_step_def)
    with True Cons.IH [of "Some x"] Cons.prems show ?thesis by simp
  next
    case False
    then show ?thesis by (simp add: c_while_stop addTimer_step_def)
  qed
qed

lemma addTimer_holds:
  assumes "holds_timers th xs" "t \<notin> set xs"
  defines "before \<equiv> takeWhile (\<lambda>x. th_dd th x \<le> th_dd th t) xs"
    and "after \<equiv> dropWhile (\<lambda>x. th_dd th x \<le> th_dd th t) xs"
  obtains timers h where "addTimer t th = Some (th\<lparr>th_timers := timers, th_heap := h\<rparr>)"
    "holds_timers (th\<lparr>th_timers := timers, th_heap := h\<rparr>) (before @ t # after)"
proof -
  have xs: "xs = before @ after" by (simp add: before_def after_def)
  have holds: "holds_list (th_heap th) (th_timers th) (before @ after)" "sorted (map (th_dd th) xs)"
    using assms(1) by (simp_all add: holds_timers_def xs [symmetric])
  obtain timers h where ins: "mill_list_insert (th_timers th) t (head_ptr after None) (th_heap th) = (timers, h)"
    by (cases "mill_list_insert (th_timers th) t (head_ptr after None) (th_heap th)")
  have "l_first (th_timers th) = head_ptr xs None" "dll (th_heap th) None xs None"
    using holds(1) by (simp_all add: holds_list_def xs)
  then have find: "c_while (addTimer_step th t) (l_first (th_timers th)) = Some (head_ptr after None)"
    using addTimer_find by (simp add: after_def)
  have "holds_list h timers (before @ t # after)"
    using mill_list_insert_holds [OF holds(1) _ ins] assms(2) xs by auto
  moreover have "\<forall>x \<in> set before. th_dd th x \<le> th_dd th t"
    by (auto simp: before_def dest: set_takeWhileD)
  moreover have "\<forall>x \<in> set after. th_dd th t \<le> th_dd th x"
  proof (cases after)
    case (Cons y ys)
    then have "\<not> th_dd th y \<le> th_dd th t"
      using hd_dropWhile [of "\<lambda>x. th_dd th x \<le> th_dd th t" xs] by (simp add: after_def)
    moreover have "sorted (map (th_dd th) (y # ys))" using holds(2) xs Cons by (simp add: sorted_append)
    ultimately show ?thesis using Cons by fastforce
  qed simp
  ultimately have "holds_timers (th\<lparr>th_timers := timers, th_heap := h\<rparr>) (before @ t # after)"
    using holds(2) xs by (auto simp: holds_timers_def sorted_append)
  moreover have "addTimer t th = Some (th\<lparr>th_timers := timers, th_heap := h\<rparr>)"
    by (simp add: addTimer_def find ins)
  ultimately show ?thesis using that by blast
qed

lemma erase_timer_holds:
  assumes "holds_timers th (xs @ t # ys)"
  obtains timers h where "erase_timer t th = th\<lparr>th_timers := timers, th_heap := h\<rparr>"
    "holds_timers (th\<lparr>th_timers := timers, th_heap := h\<rparr>) (xs @ ys)"
proof -
  obtain n timers h where res: "mill_list_erase (th_timers th) t (th_heap th) = (n, timers, h)"
    by (cases "mill_list_erase (th_timers th) t (th_heap th)")
  have "holds_list h timers (xs @ ys)"
    using mill_list_erase_holds [OF _ res] assms by (auto simp: holds_timers_def)
  moreover have "sorted (map (th_dd th) (xs @ ys))"
    using assms by (auto simp: holds_timers_def sorted_append)
  ultimately have "holds_timers (th\<lparr>th_timers := timers, th_heap := h\<rparr>) (xs @ ys)"
    by (simp add: holds_timers_def)
  with res that show ?thesis by (simp add: erase_timer_def)
qed

text \<open>Whether a timer that expires finds its owner still waiting.\<close>

definition fires :: "'x thread \<Rightarrow> nat \<Rightarrow> bool" where
  "fires th t \<longleftrightarrow>
     (case th_target th t of
        Event_target \<Rightarrow> th_event th t = esSCHEDULED
      | Delay_target \<Rightarrow> th_delay th t = tsSCHEDULED
      | No_target \<Rightarrow> False)"

lemma holds_timers_updates [simp]:
  "holds_timers (th\<lparr>th_world := w\<rparr>) = holds_timers th"
  "holds_timers (th\<lparr>th_inflight := n\<rparr>) = holds_timers th"
  "holds_timers (th\<lparr>th_event := ev\<rparr>) = holds_timers th"
  "holds_timers (th\<lparr>th_delay := dl\<rparr>) = holds_timers th"
  by (auto simp: holds_timers_def fun_eq_iff)

subsection \<open>What a coroutine may do when it is resumed\<close>

text \<open>An owner somebody waits for, and what the coroutine that waits for it finds when it is resumed: the state
  that \<open>await_resume\<close> exchanges. \<open>Queue_wake\<close> is for the coroutines of the queue in \<open>Loop\<close>.\<close>

definition waiting :: "'x thread \<Rightarrow> nat \<Rightarrow> bool" where
  "waiting th x \<longleftrightarrow> th_event th x = esSCHEDULED \<or> th_delay th x = tsSCHEDULED"

datatype wake = Queue_wake nat | Event_wake nat event_state | Delay_wake nat delay_state

definition wake_of :: "'x thread \<Rightarrow> nat \<Rightarrow> wake" where
  "wake_of th t = (if th_target th t = Delay_target then Delay_wake t (th_delay th t) else Event_wake t (th_event th t))"

definition expiry :: "'x thread \<Rightarrow> nat \<Rightarrow> wake" where
  "expiry th t = (if th_target th t = Delay_target then Delay_wake t tsFIRED else Event_wake t esTIMEOUT)"

text \<open>The list of timers is sound: every timer in it has an owner, and an event somebody waits for is in it
  exactly when it has a timer.\<close>

definition timers_ok :: "'x thread \<Rightarrow> nat list \<Rightarrow> bool" where
  "timers_ok th xs \<longleftrightarrow> holds_timers th xs \<and> (\<forall>t \<in> set xs. th_target th t \<noteq> No_target) \<and>
     (\<forall>e. th_event th e = esSCHEDULED \<longrightarrow> th_delay th e \<noteq> tsSCHEDULED \<and>
        (th_target th e = No_target \<or> th_target th e = Event_target \<and> e \<in> set xs))"

definition untouched :: "'x thread \<Rightarrow> 'x thread \<Rightarrow> nat \<Rightarrow> bool" where
  "untouched th th' x \<longleftrightarrow> th_dd th' x = th_dd th x \<and> th_target th' x = th_target th x \<and>
     th_event th' x = th_event th x \<and> th_delay th' x = th_delay th x \<and> th_ion th' x = th_ion th x"

text \<open>Until it waits again, a coroutine may do what it likes with its own awaitable and the world, and make
  others wait: new timers go into the list, with deadlines ahead of the clock. It leaves alone what others
  wait for (nothing in the program calls \<open>Thread::remove\<close>), does not wait for the events in \<open>S\<close>, and
  time does not run backwards. \<open>X\<close> are the owners that have been served in between.\<close>

definition co_keeps ::
    "nat set \<Rightarrow> ('x \<Rightarrow> int) \<Rightarrow> nat set \<Rightarrow> 'x thread \<Rightarrow> nat list \<Rightarrow> 'x thread \<Rightarrow> nat list \<Rightarrow> bool" where
  "co_keeps S now X th xs th' ys \<longleftrightarrow> timers_ok th' ys \<and> now (th_world th) \<le> now (th_world th') \<and>
     (\<forall>x. x \<notin> X \<and> (waiting th x \<or> x \<in> set xs) \<longrightarrow> untouched th th' x) \<and>
     (\<forall>e \<in> S. th_event th e \<noteq> esSCHEDULED \<longrightarrow> th_event th' e \<noteq> esSCHEDULED) \<and>
     filter (\<lambda>y. y \<in> set xs \<and> y \<notin> X) ys = filter (\<lambda>x. x \<notin> X) xs \<and>
     (\<forall>y \<in> set ys. y \<notin> set xs \<or> y \<in> X \<longrightarrow> now (th_world th) < th_dd th' y)"

text \<open>Every coroutine behaves like this, and writes into a log of the world what it finds.\<close>

definition co_ok :: "nat set \<Rightarrow> ('x \<Rightarrow> int) \<Rightarrow> ('x \<Rightarrow> wake list) \<Rightarrow> 'x resume \<Rightarrow> bool" where
  "co_ok S now log resume \<longleftrightarrow> (\<forall>t th xs. timers_ok th xs \<and> t \<notin> set xs \<and> \<not> waiting th t \<longrightarrow>
     (\<exists>ys. co_keeps S now {} th xs (resume t th) ys) \<and>
     log (th_world (resume t th)) = log (th_world th) @ [wake_of th t])"

lemma co_okD:
  assumes "co_ok S now log resume" "timers_ok th xs" "t \<notin> set xs" "\<not> waiting th t"
  obtains ys where "timers_ok (resume t th) ys" "filter (\<lambda>y. y \<in> set xs) ys = xs"
    "\<forall>y \<in> set ys - set xs. now (th_world th) < th_dd (resume t th) y"
    "now (th_world th) \<le> now (th_world (resume t th))"
    "\<forall>x. waiting th x \<or> x \<in> set xs \<longrightarrow> untouched th (resume t th) x"
    "log (th_world (resume t th)) = log (th_world th) @ [wake_of th t]"
  using assms unfolding co_ok_def co_keeps_def by (simp add: Ball_def) blast

text \<open>What is kept is kept by one coroutine after the other.\<close>

lemma co_keeps_trans:
  assumes "co_keeps S now X th xs th1 ys" "co_keeps S now Y th1 ys th2 zs"
  shows "co_keeps S now (X \<union> Y) th xs th2 zs"
proof -
  note 1 = assms(1) [unfolded co_keeps_def] and 2 = assms(2) [unfolded co_keeps_def]
  have w: "waiting th1 x" if "untouched th th1 x" "waiting th x" for x using that by (simp add: waiting_def untouched_def)
  have sub: "x \<in> set ys" if "x \<in> set xs" "x \<notin> X" for x
  proof -
    have "x \<in> set (filter (\<lambda>x. x \<notin> X) xs)" using that by simp
    then show ?thesis using 1 by (metis (no_types, lifting) filter_is_subset subsetD)
  qed
  have "untouched th th2 x" if "x \<notin> X \<union> Y" "waiting th x \<or> x \<in> set xs" for x
  proof -
    have "untouched th th1 x" using that 1 by blast
    moreover have "untouched th1 th2 x" using that 2 w [OF calculation] sub [of x] by blast
    ultimately show ?thesis by (simp add: untouched_def)
  qed
  moreover have "filter (\<lambda>y. y \<in> set xs \<and> y \<notin> X \<union> Y) zs = filter (\<lambda>x. x \<notin> X \<union> Y) xs"
  proof -
    have "filter (\<lambda>y. y \<in> set xs \<and> y \<notin> X \<union> Y) zs =
        filter (\<lambda>y. y \<in> set xs \<and> y \<notin> X) (filter (\<lambda>y. y \<in> set ys \<and> y \<notin> Y) zs)"
      unfolding filter_filter using sub by (intro filter_cong) auto
    also have "\<dots> = filter (\<lambda>y. y \<notin> Y) (filter (\<lambda>y. y \<in> set xs \<and> y \<notin> X) ys)"
      using 2 by (simp add: conj_ac)
    also have "\<dots> = filter (\<lambda>x. x \<notin> X \<union> Y) xs" using 1 by (simp add: conj_ac)
    finally show ?thesis .
  qed
  moreover have "now (th_world th) < th_dd th2 y" if "y \<in> set zs" "y \<notin> set xs \<or> y \<in> X \<union> Y" for y
  proof (cases "y \<notin> set ys \<or> y \<in> Y")
    case True
    then have "now (th_world th1) < th_dd th2 y" using 2 that(1) by blast
    with 1 show ?thesis by linarith
  next
    case False
    then have "th_dd th2 y = th_dd th1 y" using 2 by (auto simp: untouched_def)
    moreover have "now (th_world th) < th_dd th1 y" using 1 False that(2) by blast
    ultimately show ?thesis by simp
  qed
  ultimately show ?thesis unfolding co_keeps_def using 1 2 by (meson order_trans)
qed

text \<open>Changes that no coroutine sees.\<close>

lemma co_keeps_same:
  assumes "timers_ok th xs" "now (th_world th) \<le> now (th_world th')" "th_timers th' = th_timers th" "th_heap th' = th_heap th"
    "th_dd th' = th_dd th" "th_target th' = th_target th" "th_event th' = th_event th" "th_delay th' = th_delay th" "th_ion th' = th_ion th"
  shows "co_keeps S now {} th xs th' xs"
  using assms by (auto simp: co_keeps_def untouched_def timers_ok_def holds_timers_def filter_id_conv)

lemma untouched_fires: "untouched th th' x \<Longrightarrow> fires th' x = fires th x \<and> expiry th' x = expiry th x"
  by (simp add: untouched_def fires_def expiry_def split: timer_target.split)

subsection \<open>Firing in the order of the deadlines\<close>

text \<open>One timer: its owner, if somebody waits for it, goes to the state for a timeout and is resumed.\<close>

lemma fire_one:
  assumes "timers_ok th (t # zs)" "th_dd th t \<le> tp" "tp \<le> now (th_world th)" "co_ok S now log resume"
  shows "\<exists>th' ys. fire_step resume tp th = Some (Inl th') \<and> timers_ok th' ys \<and> filter (\<lambda>y. y \<in> set zs) ys = zs \<and>
    (\<forall>y \<in> set ys - set zs. tp < th_dd th' y) \<and> (\<forall>x \<in> set zs. untouched th th' x) \<and>
    now (th_world th) \<le> now (th_world th') \<and>
    log (th_world th') = log (th_world th) @ (if fires th t then [expiry th t] else [])"
proof -
  have h: "holds_timers th ([] @ t # zs)" using assms(1) by (simp add: timers_ok_def)
  have first: "l_first (th_timers th) = Some t" and t: "t \<notin> set zs"
    using h by (auto simp: holds_timers_def holds_list_def)
  obtain ts hp where e: "erase_timer t th = th\<lparr>th_timers := ts, th_heap := hp\<rparr>"
    "holds_timers (th\<lparr>th_timers := ts, th_heap := hp\<rparr>) zs"
    by (rule erase_timer_holds [OF h, unfolded append_Nil])
  have tgt: "th_target th t \<noteq> No_target" "th_event th t = esSCHEDULED \<longrightarrow>
      th_delay th t \<noteq> tsSCHEDULED \<and> th_target th t = Event_target"
    using assms(1) by (auto simp: timers_ok_def)
  have step: "fire_step resume tp th =
      do { th' \<leftarrow> fire_target resume t (th\<lparr>th_timers := ts, th_heap := hp\<rparr>); Some (Inl th') }"
    using assms(2) first e(1) by (simp add: fire_step_def)
  define th1 where "th1 = done_inflight ((th\<lparr>th_timers := ts, th_heap := hp\<rparr>)
    \<lparr>th_event := if th_target th t = Event_target then (th_event th)(t := esTIMEOUT) else th_event th,
     th_delay := if th_target th t = Event_target then th_delay th else (th_delay th)(t := tsFIRED)\<rparr>)"
  show ?thesis
  proof (cases "fires th t")
    case False
    then have "fire_target resume t (th\<lparr>th_timers := ts, th_heap := hp\<rparr>) = Some (th\<lparr>th_timers := ts, th_heap := hp\<rparr>)"
      using tgt(1) by (auto simp: fire_target_def fires_def split: timer_target.splits)
    moreover have "timers_ok (th\<lparr>th_timers := ts, th_heap := hp\<rparr>) zs"
      using assms(1) e(2) False tgt by (auto simp: timers_ok_def fires_def)
    ultimately show ?thesis using False step
      by (intro exI [of _ "th\<lparr>th_timers := ts, th_heap := hp\<rparr>"] exI [of _ zs]) (simp add: untouched_def)
  next
    case True
    have "fire_target resume t (th\<lparr>th_timers := ts, th_heap := hp\<rparr>) = Some (resume t th1)"
      using True tgt(1) by (auto simp: fire_target_def fires_def th1_def done_inflight_def split: timer_target.splits)
    moreover have ok: "timers_ok th1 zs"
      using assms(1) e(2) t tgt(2) True
      by (auto simp: timers_ok_def th1_def done_inflight_def holds_timers_def fires_def split: timer_target.splits)
    moreover have nw: "\<not> waiting th1 t" and wk: "wake_of th1 t = expiry th t"
      using True tgt by (auto simp: waiting_def th1_def done_inflight_def fires_def wake_of_def expiry_def split: timer_target.splits)
    moreover have w: "th_world th1 = th_world th" and u: "\<And>x. x \<in> set zs \<Longrightarrow> untouched th th1 x"
      using t by (auto simp: th1_def done_inflight_def untouched_def)
    moreover obtain ys where "timers_ok (resume t th1) ys" "filter (\<lambda>y. y \<in> set zs) ys = zs"
      "\<forall>y \<in> set ys - set zs. now (th_world th1) < th_dd (resume t th1) y"
      "now (th_world th1) \<le> now (th_world (resume t th1))"
      "\<forall>x. waiting th1 x \<or> x \<in> set zs \<longrightarrow> untouched th1 (resume t th1) x"
      "log (th_world (resume t th1)) = log (th_world th1) @ [wake_of th1 t]"
      by (rule co_okD [OF assms(4) ok t nw])
    moreover have "untouched th (resume t th1) x" if "x \<in> set zs" for x
      using u [OF that] calculation that by (simp add: untouched_def)
    moreover have "\<forall>y \<in> set ys - set zs. tp < th_dd (resume t th1) y" using calculation assms(3) by (metis order_le_less_trans)
    ultimately show ?thesis using step True
      by (intro exI [of _ "resume t th1"] exI [of _ ys]) simp
  qed
qed

lemma takeWhile_due:
  fixes d :: "'a \<Rightarrow> 'b :: linorder"
  shows "sorted (map d xs) \<Longrightarrow> takeWhile (\<lambda>t. d t \<le> tp) xs = filter (\<lambda>t. d t \<le> tp) xs"
proof (induction xs)
  case (Cons a xs)
  have "filter (\<lambda>t. d t \<le> tp) xs = []" if "\<not> d a \<le> tp" using Cons.prems that by (force simp: filter_empty_conv)
  with Cons show ?case by simp
qed simp

text \<open>What a sublist that stays in place tells of a filter.\<close>

lemma filter_sublist:
  assumes "filter (\<lambda>y. y \<in> set zs) ys = zs" "\<And>y. y \<in> set ys \<Longrightarrow> Q y \<Longrightarrow> y \<in> set zs" "\<And>y. y \<in> set zs \<Longrightarrow> Q y = P y"
  shows "filter Q ys = filter P zs"
proof -
  have "filter Q ys = filter Q (filter (\<lambda>y. y \<in> set zs) ys)" using assms(2) by (auto intro: filter_cong)
  also have "\<dots> = filter P zs" unfolding assms(1) using assms(3) by (rule filter_cong [OF refl])
  finally show ?thesis .
qed

lemma fire_all:
  assumes "timers_ok th xs" "tp \<le> now (th_world th)" "co_ok S now log resume"
  shows "\<exists>th' ys. fireExpiredTimers resume tp th = Some th' \<and> timers_ok th' ys \<and> (\<forall>y \<in> set ys. tp < th_dd th' y) \<and>
    filter (\<lambda>y. y \<in> set xs \<and> tp < th_dd th y) ys = filter (\<lambda>t. tp < th_dd th t) xs \<and>
    (\<forall>x \<in> set xs. tp < th_dd th x \<longrightarrow> untouched th th' x) \<and> now (th_world th) \<le> now (th_world th') \<and>
    log (th_world th') = log (th_world th) @ map (expiry th) (filter (fires th) (filter (\<lambda>t. th_dd th t \<le> tp) xs))"
  using assms(1,2)
proof (induction "length (filter (\<lambda>t. th_dd th t \<le> tp) xs)" arbitrary: th xs)
  case 0
  then have late: "\<forall>t \<in> set xs. tp < th_dd th t" by (auto simp: filter_empty_conv not_le)
  have "l_first (th_timers th) = head_ptr xs None"
    using 0 by (simp add: timers_ok_def holds_timers_def holds_list_def)
  with late have "fire_step resume tp th = Some (Inr th)" by (cases xs) (auto simp: fire_step_def)
  then have "fireExpiredTimers resume tp th = Some th" unfolding fireExpiredTimers_def by (rule c_while_stop)
  with 0 late show ?case
    by (intro exI [of _ th] exI [of _ xs]) (auto simp: untouched_def intro!: filter_cong)
next
  case (Suc n)
  have sorted: "sorted (map (th_dd th) xs)" using Suc.prems(1) by (simp add: timers_ok_def holds_timers_def)
  obtain t zs where xs: "xs = t # zs" and due: "th_dd th t \<le> tp"
    using Suc.hyps(2) sorted takeWhile_due [OF sorted, of tp] by (cases xs) (auto split: if_splits)
  obtain th1 ys where 1: "fire_step resume tp th = Some (Inl th1)" "timers_ok th1 ys" "filter (\<lambda>y. y \<in> set zs) ys = zs"
      "\<forall>y \<in> set ys - set zs. tp < th_dd th1 y" "\<forall>x \<in> set zs. untouched th th1 x" "now (th_world th) \<le> now (th_world th1)"
      "log (th_world th1) = log (th_world th) @ (if fires th t then [expiry th t] else [])"
    using fire_one [OF Suc.prems(1) [unfolded xs] due Suc.prems(2) assms(3)] by blast
  have dd: "th_dd th1 y = th_dd th y" if "y \<in> set zs" for y using 1(5) that by (simp add: untouched_def)
  have rest: "filter (\<lambda>y. th_dd th1 y \<le> tp) ys = filter (\<lambda>y. th_dd th y \<le> tp) zs"
    using 1(4) dd by (intro filter_sublist [OF 1(3)]) (auto simp flip: not_le)
  have sub: "set zs \<subseteq> set ys" using 1(3) by (metis filter_is_subset)
  have "fireExpiredTimers resume tp th = fireExpiredTimers resume tp th1"
    unfolding fireExpiredTimers_def using 1(1) by (rule c_while_next)
  moreover obtain th' ys' where 2: "fireExpiredTimers resume tp th1 = Some th'" "timers_ok th' ys'" "\<forall>y \<in> set ys'. tp < th_dd th' y"
      "filter (\<lambda>y. y \<in> set ys \<and> tp < th_dd th1 y) ys' = filter (\<lambda>t. tp < th_dd th1 t) ys"
      "\<forall>x \<in> set ys. tp < th_dd th1 x \<longrightarrow> untouched th1 th' x" "now (th_world th1) \<le> now (th_world th')"
      "log (th_world th') = log (th_world th1) @ map (expiry th1) (filter (fires th1) (filter (\<lambda>y. th_dd th y \<le> tp) zs))"
    using Suc.hyps(1) [of th1 ys] Suc.hyps(2) Suc.prems(2) 1(2,6) rest xs due by auto
  moreover have "filter (\<lambda>y. y \<in> set xs \<and> tp < th_dd th y) ys' = filter (\<lambda>t. tp < th_dd th t) xs"
  proof -
    have "filter (\<lambda>y. y \<in> set xs \<and> tp < th_dd th y) ys' =
        filter (\<lambda>y. y \<in> set zs) (filter (\<lambda>y. y \<in> set ys \<and> tp < th_dd th1 y) ys')"
      unfolding filter_filter using sub dd due xs by (intro filter_cong) auto
    also have "\<dots> = filter (\<lambda>y. tp < th_dd th1 y) (filter (\<lambda>y. y \<in> set zs) ys)"
      unfolding 2(4) filter_filter by (simp add: conj_commute)
    also have "\<dots> = filter (\<lambda>t. tp < th_dd th t) xs" unfolding 1(3) using dd due xs by (auto intro!: filter_cong)
    finally show ?thesis .
  qed
  moreover have "untouched th th' x" if "x \<in> set xs" "tp < th_dd th x" for x
    using that 1(5) 2(5) sub dd [of x] due xs by (auto simp: untouched_def)
  moreover have "map (expiry th1) (filter (fires th1) (filter (\<lambda>y. th_dd th y \<le> tp) zs)) =
      map (expiry th) (filter (fires th) (filter (\<lambda>y. th_dd th y \<le> tp) zs))"
    using 1(5) untouched_fires [of th th1] by (auto intro!: map_cong filter_cong)
  ultimately show ?case using 1(6,7) xs due by (intro exI [of _ th'] exI [of _ ys']) auto
qed

text \<open>C26: a thread keeps its timers in the order of their deadlines. A new timer goes behind those that
  are due no later, cancelling a timer takes it, and nothing else, out of the list, and firing leaves a sorted
  list of timers that are not yet due, whatever timers the coroutines that are resumed add.\<close>

theorem timers_sorted:
  assumes "holds_timers th xs"
  shows "(t \<notin> set xs \<longrightarrow> (\<exists>th'. addTimer t th = Some th' \<and>
      holds_timers th' (takeWhile (\<lambda>x. th_dd th x \<le> th_dd th t) xs @ t #
        dropWhile (\<lambda>x. th_dd th x \<le> th_dd th t) xs))) \<and>
    (t \<in> set xs \<and> th_target th t \<noteq> No_target \<longrightarrow> holds_timers (cancelTimer t th) (remove1 t xs)) \<and>
    (timers_ok th xs \<and> co_ok S now log resume \<and> tp \<le> now (th_world th) \<longrightarrow>
      (\<exists>th' ys. fireExpiredTimers resume tp th = Some th' \<and> holds_timers th' ys \<and> (\<forall>y \<in> set ys. tp < th_dd th' y)))"
proof (intro conjI impI)
  assume "t \<notin> set xs"
  from addTimer_holds [OF assms this] show "\<exists>th'. addTimer t th = Some th' \<and>
      holds_timers th' (takeWhile (\<lambda>x. th_dd th x \<le> th_dd th t) xs @ t #
        dropWhile (\<lambda>x. th_dd th x \<le> th_dd th t) xs)" by metis
next
  assume t: "t \<in> set xs \<and> th_target th t \<noteq> No_target"
  then obtain ys zs where xs: "xs = ys @ t # zs" "t \<notin> set ys" by (metis split_list_first)
  from erase_timer_holds [of th ys t zs] assms xs obtain timers h
    where "erase_timer t th = th\<lparr>th_timers := timers, th_heap := h\<rparr>"
      "holds_timers (th\<lparr>th_timers := timers, th_heap := h\<rparr>) (ys @ zs)" by metis
  with t xs show "holds_timers (cancelTimer t th) (remove1 t xs)"
    by (simp add: cancelTimer_def remove1_append)
next
  assume "timers_ok th xs \<and> co_ok S now log resume \<and> tp \<le> now (th_world th)"
  then show "\<exists>th' ys. fireExpiredTimers resume tp th = Some th' \<and> holds_timers th' ys \<and> (\<forall>y \<in> set ys. tp < th_dd th' y)"
    using fire_all [of th xs tp now S log resume] by (auto simp: timers_ok_def)
qed

text \<open>C27: when timers expire, exactly those with a deadline that has passed leave the list, in the order
  of their deadlines. The coroutine of each whose owner is still waiting is resumed once, and finds an event in
  the state for a timeout or a delay fired; an owner that was served in the meantime is left alone. The
  timers that are not due stay, in their order. The coroutines may take their results, wait again and make
  others wait, with deadlines ahead of the clock, as \<open>co_ok\<close> says.\<close>

theorem fireExpiredTimers_correct:
  assumes "timers_ok th xs" "tp \<le> now (th_world th)" "co_ok S now log resume"
  shows "\<exists>th' ys. fireExpiredTimers resume tp th = Some th' \<and> timers_ok th' ys \<and> (\<forall>y \<in> set ys. tp < th_dd th' y) \<and>
    filter (\<lambda>y. y \<in> set xs \<and> tp < th_dd th y) ys = filter (\<lambda>t. tp < th_dd th t) xs \<and>
    log (th_world th') = log (th_world th) @
      map (expiry th) (filter (fires th) (takeWhile (\<lambda>t. th_dd th t \<le> tp) xs))"
proof -
  have "sorted (map (th_dd th) xs)" using assms(1) by (simp add: timers_ok_def holds_timers_def)
  note due = takeWhile_due [OF this, of tp]
  from fire_all [OF assms] show ?thesis unfolding due by blast
qed

subsection \<open>A coroutine that sleeps again\<close>

text \<open>\<open>await_resume\<close> of an event or a delay, for the state of its owner. The coroutine below takes its result,
  which \<open>tick\<close> writes into the world, and, if \<open>again\<close> tells so, waits for the same delay again.\<close>

definition await_resume :: "nat \<Rightarrow> 'x thread \<Rightarrow> 'x thread" where
  "await_resume t th =
     (if th_target th t = Delay_target then th\<lparr>th_delay := (th_delay th)(t := tsCREATED)\<rparr>
      else th\<lparr>th_event := (th_event th)(t := esCREATED)\<rparr>)"

definition sleeper :: "('x \<Rightarrow> int) \<Rightarrow> (wake \<Rightarrow> 'x \<Rightarrow> 'x) \<Rightarrow> (nat \<Rightarrow> nat option) \<Rightarrow> 'x resume" where
  "sleeper clock tick again t th =
     (let th1 = (await_resume t th)\<lparr>th_world := tick (wake_of th t) (th_world th)\<rparr> in
      case again t of
        None \<Rightarrow> th1
      | Some ms \<Rightarrow>
          (case add_delay t (th1\<lparr>th_dd := (th_dd th1)(t := clock (th_world th1) + 1 + int ms)\<rparr>) of
             None \<Rightarrow> th1 | Some th2 \<Rightarrow> th2))"

definition clock_tick :: "wake \<Rightarrow> int \<times> wake list \<Rightarrow> int \<times> wake list" where
  "clock_tick v w = (fst w + 1, snd w @ [v])"

lemma filter_insert:
  "t \<notin> set xs \<Longrightarrow> filter (\<lambda>y. y \<in> set xs) (takeWhile P xs @ t # dropWhile P xs) = xs"
proof -
  assume t: "t \<notin> set xs"
  have "filter (\<lambda>y. y \<in> set xs) (takeWhile P xs) = takeWhile P xs" "filter (\<lambda>y. y \<in> set xs) (dropWhile P xs) = dropWhile P xs"
    by (auto simp: filter_id_conv dest: set_takeWhileD set_dropWhileD)
  with t show ?thesis by simp
qed

lemma add_delay_ok:
  assumes "timers_ok th xs" "t \<notin> set xs" "\<not> waiting th t"
  obtains th' ys where "add_delay t th = Some th'" "timers_ok th' ys" "filter (\<lambda>y. y \<in> set xs) ys = xs"
    "set ys = insert t (set xs)" "th_dd th' = th_dd th" "th_world th' = th_world th" "th_event th' = th_event th"
    "th_delay th' = (th_delay th)(t := tsSCHEDULED)" "th_target th' = (th_target th)(t := Delay_target)" "th_ion th' = th_ion th"
proof -
  let ?th = "th\<lparr>th_delay := (th_delay th)(t := tsSCHEDULED), th_target := (th_target th)(t := Delay_target)\<rparr>"
  let ?P = "\<lambda>x. th_dd th x \<le> th_dd th t"
  let ?ys = "takeWhile ?P xs @ t # dropWhile ?P xs"
  have "holds_timers ?th xs" using assms(1) by (simp add: timers_ok_def holds_timers_def)
  then obtain ts hp where 1: "addTimer t ?th = Some (?th\<lparr>th_timers := ts, th_heap := hp\<rparr>)"
    "holds_timers (?th\<lparr>th_timers := ts, th_heap := hp\<rparr>) (takeWhile (\<lambda>x. th_dd ?th x \<le> th_dd ?th t) xs @ t #
       dropWhile (\<lambda>x. th_dd ?th x \<le> th_dd ?th t) xs)"
    using assms(2) by (rule addTimer_holds)
  let ?th' = "record_queued (?th\<lparr>th_timers := ts, th_heap := hp\<rparr>)"
  have "set (takeWhile ?P xs) \<union> set (dropWhile ?P xs) = set xs" by (metis set_append takeWhile_dropWhile_id)
  then have ys: "set ?ys = insert t (set xs)" by auto
  have "holds_timers ?th' ?ys" using 1(2) by (simp add: holds_timers_def record_queued_def Let_def)
  moreover have "th_event ?th' = th_event th" "th_delay ?th' = (th_delay th)(t := tsSCHEDULED)"
    "th_target ?th' = (th_target th)(t := Delay_target)" by (simp_all add: record_queued_def Let_def)
  ultimately have "timers_ok ?th' ?ys"
    using assms ys unfolding timers_ok_def waiting_def by (auto simp del: set_append list.set)
  moreover have "add_delay t th = Some ?th'" using assms(3) 1(1) by (simp add: add_delay_def waiting_def)
  ultimately show ?thesis using ys filter_insert [OF assms(2), of ?P]
    by (intro that [of ?th' ?ys]) (simp_all add: record_queued_def Let_def del: set_append filter_append)
qed

lemma add_delay_world: "add_delay d th = Some th' \<Longrightarrow> th_world th' = th_world th"
  by (auto simp: add_delay_def addTimer_def record_queued_def Let_def split_def bind_eq_Some_conv split: if_splits)

lemma sleeper_world: "th_world (sleeper clock tick again t th) = tick (wake_of th t) (th_world th)"
  by (auto simp: sleeper_def Let_def split: option.split dest: add_delay_world)

lemma await_resume_fields:
  assumes "\<not> waiting th t"
  obtains ev dl where "await_resume t th = th\<lparr>th_event := ev, th_delay := dl\<rparr>"
    "\<And>x. x \<noteq> t \<Longrightarrow> ev x = th_event th x \<and> dl x = th_delay th x" "ev t \<noteq> esSCHEDULED" "dl t \<noteq> tsSCHEDULED"
proof (cases "th_target th t = Delay_target")
  case True
  then show ?thesis using assms
    by (intro that [of "(th_delay th)(t := tsCREATED)" "th_event th"]) (simp_all add: await_resume_def waiting_def)
next
  case False
  then show ?thesis using assms
    by (intro that [of "th_delay th" "(th_event th)(t := esCREATED)"]) (simp_all add: await_resume_def waiting_def)
qed

lemma sleeper_ok:
  assumes "\<And>v w. clock w \<le> clock (tick v w)" "\<And>v w. log (tick v w) = log w @ [v]"
  shows "co_ok S clock log (sleeper clock tick again)"
  unfolding co_ok_def
proof (intro allI impI)
  fix t :: nat and th :: "'a thread" and xs
  assume a: "timers_ok th xs \<and> t \<notin> set xs \<and> \<not> waiting th t"
  let ?w = "tick (wake_of th t) (th_world th)"
  let ?th1 = "(await_resume t th)\<lparr>th_world := ?w\<rparr>"
  have c: "clock (th_world th) \<le> clock ?w" by (rule assms(1))
  from a have "\<not> waiting th t" by simp
  from await_resume_fields [OF this] obtain ev dl where r: "await_resume t th = th\<lparr>th_event := ev, th_delay := dl\<rparr>"
    "\<And>x. x \<noteq> t \<Longrightarrow> ev x = th_event th x \<and> dl x = th_delay th x" "ev t \<noteq> esSCHEDULED" "dl t \<noteq> tsSCHEDULED" by blast
  have ev: "th_event th x = esSCHEDULED \<and> dl x = th_delay th x \<and> x \<noteq> t" if "ev x = esSCHEDULED" for x
    using r(2,3) that by (cases "x = t") simp_all
  have keep: "ev x = th_event th x \<and> dl x = th_delay th x" if "waiting th x \<or> x \<in> set xs" for x
    using r(2) a that by (cases "x = t") simp_all
  have 1: "timers_ok ?th1 xs" "\<not> waiting ?th1 t"
    using a r(1,3,4) ev by (auto simp: timers_ok_def waiting_def)
  have "\<exists>ys. co_keeps S clock {} th xs (sleeper clock tick again t th) ys"
  proof (cases "again t")
    case None
    then have "sleeper clock tick again t th = ?th1" by (simp add: sleeper_def)
    moreover have "co_keeps S clock {} th xs ?th1 xs"
      using 1(1) c keep ev r(1) by (auto simp: co_keeps_def untouched_def filter_id_conv)
    ultimately show ?thesis by auto
  next
    case (Some ms)
    let ?th2 = "?th1\<lparr>th_dd := (th_dd th)(t := clock ?w + 1 + int ms)\<rparr>"
    have "sorted (map (th_dd ?th2) xs) = sorted (map (th_dd th) xs)"
      using a by (intro arg_cong [where f = sorted] map_cong) auto
    then have 2: "timers_ok ?th2 xs" "\<not> waiting ?th2 t"
      using a 1 r(1) by (simp_all add: timers_ok_def holds_timers_def waiting_def)
    have t: "t \<notin> set xs" using a by simp
    obtain th' ys where th': "add_delay t ?th2 = Some th'" "timers_ok th' ys" "filter (\<lambda>y. y \<in> set xs) ys = xs"
      "set ys = insert t (set xs)" "th_dd th' = th_dd ?th2" "th_world th' = th_world ?th2" "th_event th' = th_event ?th2"
      "th_delay th' = (th_delay ?th2)(t := tsSCHEDULED)" "th_target th' = (th_target ?th2)(t := Delay_target)" "th_ion th' = th_ion ?th2"
      by (rule add_delay_ok [OF 2(1) t 2(2)])
    have "sleeper clock tick again t th = th'" using Some th'(1) r(1) by (simp add: sleeper_def)
    moreover have "\<forall>x. waiting th x \<or> x \<in> set xs \<longrightarrow> untouched th th' x"
    proof (intro allI impI)
      fix x assume x: "waiting th x \<or> x \<in> set xs"
      then have "x \<noteq> t" using a by auto
      with keep [OF x] show "untouched th th' x" using th'(5-10) r(1) by (simp add: untouched_def)
    qed
    moreover have "\<forall>e \<in> S. th_event th e \<noteq> esSCHEDULED \<longrightarrow> th_event th' e \<noteq> esSCHEDULED"
      using th'(7) r(1) ev by auto
    moreover have "\<forall>y \<in> set ys - set xs. clock (th_world th) < th_dd th' y" using th'(4,5) c by auto
    ultimately show ?thesis using th'(2,3,6) c by (auto simp: co_keeps_def intro!: exI [of _ ys])
  qed
  then show "(\<exists>ys. co_keeps S clock {} th xs (sleeper clock tick again t th) ys) \<and>
      log (th_world (sleeper clock tick again t th)) = log (th_world th) @ [wake_of th t]"
    by (simp add: sleeper_world assms(2))
qed

text \<open>A thread with two delays and an event that has been served.\<close>

definition three_timers :: "(int \<times> wake list) thread" where
  "three_timers = \<lparr>th_timers = \<lparr>l_first = Some 1, l_last = Some 3\<rparr>,
     th_heap = (\<lambda>t. if t = 1 then \<lparr>l_prev = None, l_next = Some 2\<rparr>
       else if t = 2 then \<lparr>l_prev = Some 1, l_next = Some 3\<rparr> else \<lparr>l_prev = Some 2, l_next = None\<rparr>),
     th_dd = (\<lambda>t. 10 * int t), th_target = (\<lambda>t. if t = 2 then Event_target else Delay_target),
     th_event = (\<lambda>t. esFIRED), th_delay = (\<lambda>t. tsSCHEDULED), th_ion = (\<lambda>t. Dir_in), th_inflight = 2, th_maxInflight = 3,
     th_totalQueued = 3, th_world = (20, [])\<rparr>"

lemma three_timers_holds: "holds_timers three_timers [1, 2, 3]"
  by (simp add: holds_timers_def holds_list_def three_timers_def last_ptr_def)

theorem timers_sorted_witness:
  "\<exists>th'. addTimer 0 (three_timers\<lparr>th_dd := (th_dd three_timers)(0 := 20)\<rparr>) = Some th' \<and>
     holds_timers th' [1, 2, 0, 3]"
proof -
  let ?th = "three_timers\<lparr>th_dd := (th_dd three_timers)(0 := 20)\<rparr>"
  have "holds_timers ?th [1, 2, 3]" using three_timers_holds by (simp add: holds_timers_def)
  from timers_sorted [OF this, of 0] show ?thesis by (simp add: three_timers_def)
qed

theorem fireExpiredTimers_correct_witness:
  "\<exists>th' ys. fireExpiredTimers (sleeper fst clock_tick (\<lambda>t. if t = 1 then Some 100 else None)) 20 three_timers = Some th' \<and>
     timers_ok th' ys \<and> filter (\<lambda>y. y \<in> {1, 2, 3} \<and> 20 < th_dd three_timers y) ys = [3] \<and>
     snd (th_world th') = [Delay_wake 1 tsFIRED]"
proof -
  have "timers_ok three_timers [1, 2, 3]" using three_timers_holds by (simp add: timers_ok_def three_timers_def)
  from fireExpiredTimers_correct [OF this _ sleeper_ok [of fst clock_tick snd], of 20 "\<lambda>t. if t = 1 then Some 100 else None"]
  show ?thesis by (simp add: clock_tick_def three_timers_def fires_def expiry_def) blast
qed

text \<open>How long the thread sleeps: until the earliest deadline, if that is less than 24.8 days away. A deadline
  further off is cut to 32 bits: 25 days become a negative number, for which \<open>epoll_wait\<close>
  does not wake up at all, and 49.7 days become no sleep at all.\<close>

lemma computeWaitTimeout_earliest:
  assumes "holds_timers th (t # ts)" "th_dd th t - now < 2 ^ 31"
  shows "computeWaitTimeout now th = max 0 (th_dd th t - now)"
    and "\<forall>x \<in> set (t # ts). now < th_dd th x \<longrightarrow> now + computeWaitTimeout now th \<le> th_dd th x"
proof -
  have first: "l_first (th_timers th) = Some t" and sorted: "\<forall>x \<in> set ts. th_dd th t \<le> th_dd th x"
    using assms(1) by (auto simp: holds_timers_def holds_list_def)
  show eq: "computeWaitTimeout now th = max 0 (th_dd th t - now)"
    using assms(2) by (simp add: computeWaitTimeout_def first int32_def)
  show "\<forall>x \<in> set (t # ts). now < th_dd th x \<longrightarrow> now + computeWaitTimeout now th \<le> th_dd th x"
    unfolding eq using sorted by auto
qed

lemma computeWaitTimeout_cut:
  assumes "holds_timers th (t # ts)"
  shows "th_dd th t - now = 2 ^ 31 \<Longrightarrow> computeWaitTimeout now th = - (2 ^ 31)"
    and "th_dd th t - now = 2 ^ 32 \<Longrightarrow> computeWaitTimeout now th = 0"
proof -
  have first: "l_first (th_timers th) = Some t"
    using assms by (simp add: holds_timers_def holds_list_def)
  show "th_dd th t - now = 2 ^ 31 \<Longrightarrow> computeWaitTimeout now th = - (2 ^ 31)"
    "th_dd th t - now = 2 ^ 32 \<Longrightarrow> computeWaitTimeout now th = 0"
    by (simp_all add: computeWaitTimeout_def first int32_def)
qed

end
