(* ===== verification/Mutex.thy ===== *)
theory Mutex
  imports Prelude
begin

section \<open>The asynchronous mutex\<close>

text \<open>
  \<open>mutex.cpp\<close>, over all interleavings of any number of coroutines. \<open>_state\<close> is a number: \<open>1\<close> when the mutex
  is free, \<open>0\<close> when it is held and nobody has queued since the queue was last taken, and otherwise the
  address of the last \<open>lock_operation\<close> queued. A coroutine and its lock operation share one address,
  which is at least \<open>2\<close>; each coroutine has at most one lock operation at a time. What a thread does
  between two atomic operations touches only data that no other thread uses, and is one step with the
  atomic operation before it. The loads and exchanges are taken in one order for all threads.
\<close>

definition NOT_LOCKED :: nat where [c_defs]: "NOT_LOCKED = 1"
definition LOCKED_NO_WAITERS :: nat where [c_defs]: "LOCKED_NO_WAITERS = 0"

text \<open>Where a coroutine is: outside; in the loop of \<open>await_suspend\<close>, with \<open>oldState\<close>; there with \<open>_next\<close>
  set; suspended; holding the mutex; and in \<open>unlock\<close> after its compare-exchange failed.\<close>

datatype lock_pc = Outside | Looping nat | Linked nat | Suspended | Holding | Draining

record mutex =
  m_state :: nat
  m_waiters :: nat
  m_next :: "nat \<Rightarrow> nat"
  m_pc :: "nat \<Rightarrow> lock_pc"

definition mutex_init :: mutex where
  "mutex_init = \<lparr>m_state = NOT_LOCKED, m_waiters = 0, m_next = (\<lambda>_. 0), m_pc = (\<lambda>_. Outside)\<rparr>"

datatype lock_event = Acquired nat | Queued nat | Released nat | Resumed nat nat

type_synonym mutex_act = "mutex \<Rightarrow> (mutex \<times> lock_event list) option"

definition set_pc :: "nat \<Rightarrow> lock_pc \<Rightarrow> mutex \<Rightarrow> mutex" where
  "set_pc p pc m = m\<lparr>m_pc := (m_pc m)(p := pc)\<rparr>"

subsection \<open>Locking\<close>

definition tryLock :: "nat \<Rightarrow> mutex_act" where
  "tryLock p m =
     (if m_pc m p \<noteq> Outside then None
      else if m_state m = NOT_LOCKED
      then Some (set_pc p Holding (m\<lparr>m_state := LOCKED_NO_WAITERS\<rparr>), [Acquired p])
      else Some (m, []))"

text \<open>\<open>await_suspend\<close>: the load, and the two compare-exchanges. A weak compare-exchange may fail
  (\<open>spurious\<close>) without a reason; then \<open>oldState\<close> is what it read.\<close>

definition lock_load :: "nat \<Rightarrow> mutex_act" where
  "lock_load p m =
     (if m_pc m p = Outside then Some (set_pc p (Looping (m_state m)) m, []) else None)"

definition lock_acquire :: "nat \<Rightarrow> bool \<Rightarrow> mutex_act" where
  "lock_acquire p spurious m =
     (case m_pc m p of
        Looping old \<Rightarrow>
          if old = NOT_LOCKED then
            (if m_state m = old \<and> \<not> spurious
             then Some (set_pc p Holding (m\<lparr>m_state := LOCKED_NO_WAITERS\<rparr>), [Acquired p])
             else Some (set_pc p (Looping (m_state m)) m, []))
          else Some (set_pc p (Linked old) (m\<lparr>m_next := (m_next m)(p := old)\<rparr>), [])
      | _ \<Rightarrow> None)"

definition lock_enqueue :: "nat \<Rightarrow> bool \<Rightarrow> mutex_act" where
  "lock_enqueue p spurious m =
     (case m_pc m p of
        Linked old \<Rightarrow>
          if m_state m = old \<and> \<not> spurious
          then Some (set_pc p Suspended (m\<lparr>m_state := p\<rparr>), [Queued p])
          else Some (set_pc p (Looping (m_state m)) m, [])
      | _ \<Rightarrow> None)"

subsection \<open>Unlocking\<close>

text \<open>The \<open>do\<close> loop that turns the stack of new waiters over.\<close>

definition drain_step ::
    "(nat \<Rightarrow> nat) \<times> nat \<times> nat \<Rightarrow> ((nat \<Rightarrow> nat) \<times> nat \<times> nat + (nat \<Rightarrow> nat) \<times> nat) option" where
  "drain_step = (\<lambda>(nxt, header, n).
     let tmp = nxt n; nxt = nxt(n := header); header = n in
     Some (if tmp \<noteq> 0 then Inl (nxt, header, tmp) else Inr (nxt, header)))"

definition hand_over :: "nat \<Rightarrow> nat \<Rightarrow> mutex_act" where
  "hand_over p header m =
     (if header = 0 then None
      else Some (set_pc header Holding (set_pc p Outside (m\<lparr>m_waiters := m_next m header\<rparr>)), [Resumed p header]))"

definition unlock_begin :: "nat \<Rightarrow> mutex_act" where
  "unlock_begin p m =
     (if m_pc m p = Holding then
        (if m_state m = NOT_LOCKED then None
         else if m_waiters m = 0 then
           (if m_state m = LOCKED_NO_WAITERS
            then Some (set_pc p Outside (m\<lparr>m_state := NOT_LOCKED\<rparr>), [Released p])
            else Some (set_pc p Draining m, []))
         else hand_over p (m_waiters m) m)
      else None)"

definition unlock_drain :: "nat \<Rightarrow> mutex_act" where
  "unlock_drain p m =
     (if m_pc m p = Draining then
        (if m_state m = LOCKED_NO_WAITERS \<or> m_state m = NOT_LOCKED then None
         else do {
           (nxt, header) \<leftarrow> c_while drain_step (m_next m, 0, m_state m);
           hand_over p header (m\<lparr>m_state := LOCKED_NO_WAITERS, m_next := nxt\<rparr>) })
      else None)"

subsection \<open>Runs\<close>

datatype lock_action =
    Try nat | Load nat | Acquire nat bool | Enqueue nat bool | Unlock nat | Drain nat

fun perform :: "lock_action \<Rightarrow> mutex_act" where
  "perform (Try p) = tryLock p"
| "perform (Load p) = lock_load p"
| "perform (Acquire p s) = lock_acquire p s"
| "perform (Enqueue p s) = lock_enqueue p s"
| "perform (Unlock p) = unlock_begin p"
| "perform (Drain p) = unlock_drain p"

fun actor :: "lock_action \<Rightarrow> nat" where
  "actor (Try p) = p"
| "actor (Load p) = p"
| "actor (Acquire p s) = p"
| "actor (Enqueue p s) = p"
| "actor (Unlock p) = p"
| "actor (Drain p) = p"

inductive mutex_run :: "mutex \<Rightarrow> lock_event list \<Rightarrow> bool" where
  start: "mutex_run mutex_init []"
| step: "mutex_run m es \<Longrightarrow> 2 \<le> actor a \<Longrightarrow> perform a m = Some (m', es') \<Longrightarrow> mutex_run m' (es @ es')"

subsection \<open>The queues\<close>

fun chain :: "(nat \<Rightarrow> nat) \<Rightarrow> nat \<Rightarrow> nat list \<Rightarrow> bool" where
  "chain nxt p [] \<longleftrightarrow> p = 0"
| "chain nxt p (x # xs) \<longleftrightarrow> p = x \<and> x \<noteq> 0 \<and> chain nxt (nxt x) xs"

lemma chain_other [simp]: "a \<notin> set xs \<Longrightarrow> chain (nxt(a := v)) p xs = chain nxt p xs"
  by (induction xs arbitrary: p) auto

lemma drain_reverses:
  "chain nxt p (x # xs) \<Longrightarrow> chain nxt h ys \<Longrightarrow> distinct (x # xs) \<Longrightarrow> set (x # xs) \<inter> set ys = {} \<Longrightarrow>
   \<exists>nxt' h'. c_while drain_step (nxt, h, p) = Some (nxt', h') \<and> chain nxt' h' (rev (x # xs) @ ys) \<and>
     (\<forall>a. a \<notin> set (x # xs) \<longrightarrow> nxt' a = nxt a)"
proof (induction xs arbitrary: nxt p x h ys)
  case Nil
  then have "drain_step (nxt, h, p) = Some (Inr (nxt(x := h), x))" by (simp add: drain_step_def)
  then have "c_while drain_step (nxt, h, p) = Some (nxt(x := h), x)" by (rule c_while_stop)
  with Nil show ?case by auto
next
  case (Cons y xs)
  let ?n = "nxt(x := h)"
  have "drain_step (nxt, h, p) = Some (Inl (?n, x, y))" using Cons.prems(1) by (auto simp: drain_step_def Let_def)
  then have "c_while drain_step (nxt, h, p) = c_while drain_step (?n, x, y)" by (rule c_while_next)
  moreover have c1: "chain ?n y (y # xs)" using Cons.prems(1,3) by auto
  have c2: "chain ?n x (x # ys)"
  proof -
    have "x \<notin> set ys" "x \<noteq> 0" using Cons.prems by auto
    then show ?thesis using Cons.prems(2) by simp
  qed
  have d: "distinct (y # xs)" "set (y # xs) \<inter> set (x # ys) = {}" using Cons.prems(3,4) by auto
  obtain nxt' h' where "c_while drain_step (?n, x, y) = Some (nxt', h')"
    "chain nxt' h' (rev (y # xs) @ x # ys)" "\<forall>a. a \<notin> set (y # xs) \<longrightarrow> nxt' a = ?n a"
    using Cons.IH [OF c1 c2 d] by blast
  ultimately show ?case by (intro exI [of _ nxt'] exI [of _ h']) auto
qed

text \<open>The invariant: \<open>Q\<close> is the queue of waiters, oldest first, and \<open>S\<close> the stack of those that came
  since, newest first. Together they are the coroutines that are suspended.\<close>

definition owns :: "mutex \<Rightarrow> nat \<Rightarrow> bool" where
  "owns m p \<longleftrightarrow> m_pc m p = Holding \<or> m_pc m p = Draining"

definition mutex_inv :: "mutex \<Rightarrow> nat list \<Rightarrow> nat list \<Rightarrow> bool" where
  "mutex_inv m Q S \<longleftrightarrow>
     chain (m_next m) (m_waiters m) Q \<and> distinct (Q @ S) \<and> (\<forall>p \<in> set (Q @ S). 2 \<le> p) \<and>
     (\<forall>p. m_pc m p = Suspended \<longleftrightarrow> p \<in> set (Q @ S)) \<and>
     (if m_state m = NOT_LOCKED then Q = [] \<and> S = [] \<and> (\<forall>p. \<not> owns m p)
      else chain (m_next m) (m_state m) S \<and> (\<exists>p. owns m p)) \<and>
     (\<forall>p q. owns m p \<longrightarrow> owns m q \<longrightarrow> p = q) \<and>
     (\<forall>p. m_pc m p = Draining \<longrightarrow> Q = [] \<and> S \<noteq> []) \<and>
     (\<forall>p old. m_pc m p = Linked old \<longrightarrow> m_next m p = old \<and> old \<noteq> NOT_LOCKED)"

text \<open>The waiters in the order in which they queued, less those that were resumed.\<close>

fun still_queued :: "lock_event list \<Rightarrow> nat list \<Rightarrow> nat list" where
  "still_queued [] q = q"
| "still_queued (Queued p # es) q = still_queued es (q @ [p])"
| "still_queued (Resumed p w # es) q = still_queued es (tl q)"
| "still_queued (_ # es) q = still_queued es q"

lemma still_queued_append: "still_queued (es @ es') q = still_queued es' (still_queued es q)"
  by (induction es q rule: still_queued.induct) auto

lemma mutex_inv_init: "mutex_inv mutex_init [] []"
  by (simp add: mutex_inv_def mutex_init_def owns_def)

lemma set_pc_simps [simp]:
  "m_state (set_pc p pc m) = m_state m" "m_waiters (set_pc p pc m) = m_waiters m"
  "m_next (set_pc p pc m) = m_next m" "m_pc (set_pc p pc m) = (m_pc m)(p := pc)"
  by (simp_all add: set_pc_def)

lemma chain_nil: "chain nxt 0 xs \<longleftrightarrow> xs = []"
  by (cases xs) auto

lemma inv_suspended: "mutex_inv m Q S \<Longrightarrow> m_pc m p = Suspended \<longleftrightarrow> p \<in> set Q \<or> p \<in> set S"
  by (simp add: mutex_inv_def)

lemma inv_owner: "mutex_inv m Q S \<Longrightarrow> owns m p \<Longrightarrow> owns m q \<Longrightarrow> q = p"
  unfolding mutex_inv_def by blast

lemma inv_acquire:
  assumes "mutex_inv m Q S" "m_state m = NOT_LOCKED" "\<And>q. m_pc m p \<noteq> Suspended"
  shows "mutex_inv (set_pc p Holding (m\<lparr>m_state := LOCKED_NO_WAITERS\<rparr>)) Q S"
  using assms by (auto simp: mutex_inv_def owns_def c_defs)

lemma inv_looping:
  assumes "mutex_inv m Q S" "\<not> owns m p" "m_pc m p \<noteq> Suspended"
  shows "mutex_inv (set_pc p (Looping old) m) Q S"
  using assms by (auto simp: mutex_inv_def owns_def split: if_splits)

lemma inv_linked:
  assumes "mutex_inv m Q S" "\<not> owns m p" "m_pc m p \<noteq> Suspended" "old \<noteq> NOT_LOCKED"
  shows "mutex_inv (set_pc p (Linked old) (m\<lparr>m_next := (m_next m)(p := old)\<rparr>)) Q S"
proof -
  have "p \<notin> set Q" "p \<notin> set S" using inv_suspended [OF assms(1), of p] assms(3) by auto
  then show ?thesis using assms by (auto simp: mutex_inv_def owns_def split: if_splits)
qed

lemma inv_enqueue:
  assumes "mutex_inv m Q S" "m_pc m p = Linked (m_state m)" "2 \<le> p"
  shows "mutex_inv (set_pc p Suspended (m\<lparr>m_state := p\<rparr>)) Q (p # S)"
proof -
  have "p \<notin> set Q" "p \<notin> set S" using inv_suspended [OF assms(1), of p] assms(2) by auto
  moreover have "m_next m p = m_state m" "m_state m \<noteq> NOT_LOCKED" using assms(1,2) by (auto simp: mutex_inv_def)
  moreover have "p \<noteq> NOT_LOCKED" using assms(3) by (simp add: c_defs)
  moreover obtain r where "owns m r" using assms(1) \<open>m_state m \<noteq> NOT_LOCKED\<close> by (auto simp: mutex_inv_def)
  moreover from this have "r \<noteq> p" using assms(2) by (auto simp: owns_def)
  ultimately have "owns (set_pc p Suspended (m\<lparr>m_state := p\<rparr>)) r" by (simp add: owns_def)
  then show ?thesis using assms \<open>p \<notin> set Q\<close> \<open>p \<notin> set S\<close> \<open>p \<noteq> NOT_LOCKED\<close> \<open>m_next m p = m_state m\<close>
      \<open>m_state m \<noteq> NOT_LOCKED\<close>
    unfolding mutex_inv_def by (auto simp: owns_def)
qed

lemma inv_release:
  assumes "mutex_inv m Q S" "m_pc m p = Holding" "m_waiters m = 0" "m_state m = LOCKED_NO_WAITERS"
  shows "mutex_inv (set_pc p Outside (m\<lparr>m_state := NOT_LOCKED\<rparr>)) Q S"
proof -
  have e: "Q = []" "S = []" using assms by (auto simp: mutex_inv_def c_defs chain_nil)
  have "q = p" if "owns m q" for q using assms(1,2) that by (auto simp: mutex_inv_def owns_def)
  then show ?thesis using assms e by (auto simp: mutex_inv_def owns_def c_defs)
qed

lemma inv_begin_drain:
  assumes "mutex_inv m Q S" "m_pc m p = Holding" "m_waiters m = 0" "m_state m \<noteq> LOCKED_NO_WAITERS"
    "m_state m \<noteq> NOT_LOCKED"
  shows "mutex_inv (set_pc p Draining m) Q S"
proof -
  have e: "Q = []" "S \<noteq> []" using assms by (auto simp: mutex_inv_def c_defs chain_nil)
  have o: "owns m p" using assms(2) by (simp add: owns_def)
  have "p \<notin> set S" using inv_suspended [OF assms(1), of p] assms(2) by auto
  moreover have "q = p" if "owns m q" for q using assms(1) o that by (rule inv_owner)
  ultimately show ?thesis using assms e o by (auto simp: mutex_inv_def owns_def)
qed

text \<open>Handing over takes the head of the queue. \<open>m\<close> is the state in which \<open>header\<close> was found; the chain of
  the queue is the one after the drain.\<close>

lemma inv_hand_over:
  assumes "mutex_inv m Q S" "owns m p" "set (w # Q') \<union> set S' = set Q \<union> set S" "distinct ((w # Q') @ S')"
    "chain nxt w (w # Q')" "chain nxt st S'" "st \<noteq> NOT_LOCKED"
    "\<And>a. m_pc m a \<noteq> Suspended \<Longrightarrow> nxt a = m_next m a"
    "hand_over p w (m\<lparr>m_state := st, m_next := nxt\<rparr>) = Some (m', es)"
  shows "mutex_inv m' Q' S'" "es = [Resumed p w]"
proof -
  have w: "m_pc m w = Suspended" using assms(3) inv_suspended [OF assms(1), of w] by auto
  then have "w \<noteq> p" using assms(2) by (auto simp: owns_def)
  have own: "\<not> owns m q" if "q \<noteq> p" for q using inv_owner [OF assms(1,2)] that by blast
  have "w \<noteq> 0" using assms(5) by simp
  with assms(9) have eq: "m' = set_pc w Holding (set_pc p Outside (m\<lparr>m_state := st, m_next := nxt, m_waiters := nxt w\<rparr>))"
    and es: "es = [Resumed p w]" unfolding hand_over_def by simp_all
  have m': "m_pc m' = (m_pc m)(p := Outside, w := Holding)" "m_state m' = st" "m_next m' = nxt" "m_waiters m' = nxt w"
    unfolding eq by simp_all
  have o: "owns m' q \<longleftrightarrow> q = w" for q
    using own [of q] \<open>w \<noteq> p\<close> assms(2) unfolding owns_def m'(1) by (cases "q = w"; cases "q = p") simp_all
  have s: "m_pc m' q = Suspended \<longleftrightarrow> q \<in> set (Q' @ S')" for q
  proof -
    have "p \<notin> set Q \<union> set S" using inv_suspended [OF assms(1), of p] assms(2) by (auto simp: owns_def)
    then have "p \<notin> set (Q' @ S')" using assms(3) by auto
    moreover have "w \<notin> set (Q' @ S')" using assms(4) by auto
    moreover have "q \<in> set (Q' @ S') \<longleftrightarrow> m_pc m q = Suspended" if "q \<noteq> w"
      using that assms(3) inv_suspended [OF assms(1), of q] by auto
    ultimately show ?thesis unfolding m'(1) by (cases "q = w"; cases "q = p") simp_all
  qed
  have d: "m_pc m' q \<noteq> Draining" for q
    using own [of q] \<open>w \<noteq> p\<close> assms(2) unfolding owns_def m'(1) by (cases "q = w"; cases "q = p") simp_all
  have l: "m_next m' q = old \<and> old \<noteq> NOT_LOCKED" if "m_pc m' q = Linked old" for q old
  proof -
    have "m_pc m q = Linked old" using that unfolding m'(1) by (cases "q = w"; cases "q = p") simp_all
    moreover from this have "nxt q = m_next m q" by (intro assms(8)) simp
    ultimately show ?thesis using assms(1) unfolding mutex_inv_def m'(3) by simp
  qed
  have "2 \<le> q" if "q \<in> set (Q' @ S')" for q
    using that assms(1,3) by (auto simp: mutex_inv_def)
  then show "mutex_inv m' Q' S'" using assms(4-7) o s d l unfolding mutex_inv_def
    by (intro conjI allI impI ballI) (auto simp: m'(2-4))
  show "es = [Resumed p w]" by (rule es)
qed

definition kept :: "mutex \<Rightarrow> lock_event list \<Rightarrow> nat list \<Rightarrow> bool" where
  "kept m es q \<longleftrightarrow> (\<exists>Q S. mutex_inv m Q S \<and> Q @ rev S = still_queued es q \<and>
     (\<forall>p w. Resumed p w \<in> set es \<longrightarrow> q \<noteq> [] \<and> hd q = w))"

lemma keptI:
  "mutex_inv m Q S \<Longrightarrow> Q @ rev S = still_queued es q \<Longrightarrow>
   (\<And>p w. Resumed p w \<in> set es \<Longrightarrow> q \<noteq> [] \<and> hd q = w) \<Longrightarrow> kept m es q"
  unfolding kept_def by blast

lemma kept_quiet [simp]:
  assumes "mutex_inv m Q S"
  shows "kept m [] (Q @ rev S)" "kept m [Acquired p] (Q @ rev S)" "kept m [Released p] (Q @ rev S)"
  by (rule keptI [OF assms]; simp)+

text \<open>Every action keeps the invariant, and the queue grows at its end and shrinks at its head.\<close>

lemma unlock_begin_inv:
  assumes "mutex_inv m Q S" "unlock_begin p m = Some (m', es)"
  shows "kept m' es (Q @ rev S)"
proof (cases "m_waiters m = 0")
  case True
  then show ?thesis using assms inv_release [OF assms(1), of p] inv_begin_drain [OF assms(1), of p]
    by (auto simp: unlock_begin_def split: if_splits)
next
  case False
  then have p: "m_pc m p = Holding" and st: "m_state m \<noteq> NOT_LOCKED" and h: "hand_over p (m_waiters m) m = Some (m', es)"
    using assms(2) by (auto simp: unlock_begin_def split: if_splits)
  obtain Q' where Q: "Q = m_waiters m # Q'" and c: "chain (m_next m) (m_waiters m) Q"
    using assms(1) False by (cases Q) (auto simp: mutex_inv_def)
  have o: "owns m p" using p by (simp add: owns_def)
  have "distinct ((m_waiters m # Q') @ S)" "chain (m_next m) (m_state m) S"
    using assms(1) Q st by (auto simp: mutex_inv_def)
  then have "mutex_inv m' Q' S" "es = [Resumed p (m_waiters m)]"
    using inv_hand_over [OF assms(1) o, of "m_waiters m" Q' S "m_next m" "m_state m" m' es] c st h Q by auto
  then show ?thesis using Q by (auto intro: keptI)
qed

lemma unlock_drain_inv:
  assumes "mutex_inv m Q S" "unlock_drain p m = Some (m', es)"
  shows "kept m' es (Q @ rev S)"
proof -
  have p: "m_pc m p = Draining" and st: "m_state m \<noteq> NOT_LOCKED"
    using assms(2) by (auto simp: unlock_drain_def split: if_splits)
  have o: "owns m p" using p by (simp add: owns_def)
  have "Q = []" "S \<noteq> []" using assms(1) p unfolding mutex_inv_def by blast+
  then obtain x xs where S: "S = x # xs" by (cases S) auto
  have c: "chain (m_next m) (m_state m) (x # xs)" "distinct (x # xs)"
    using assms(1) st S by (auto simp: mutex_inv_def)
  have "chain (m_next m) 0 []" "set (x # xs) \<inter> set [] = {}" by simp_all
  from drain_reverses [OF c(1) this(1) c(2) this(2)] obtain nxt w where
    d: "c_while drain_step (m_next m, 0, m_state m) = Some (nxt, w)" "chain nxt w (rev S)"
    "\<And>a. a \<notin> set S \<Longrightarrow> nxt a = m_next m a" using S by auto
  obtain Q' where Q: "rev S = w # Q'" using d(2) S by (cases "rev S") auto
  have h: "hand_over p w (m\<lparr>m_state := LOCKED_NO_WAITERS, m_next := nxt\<rparr>) = Some (m', es)"
    using assms(2) p st d(1) by (auto simp: unlock_drain_def split: if_splits)
  have "set (w # Q') = set S" using Q by (metis set_rev)
  moreover have "distinct (w # Q')" using c(2) S Q by (metis distinct_rev)
  moreover have "nxt a = m_next m a" if "m_pc m a \<noteq> Suspended" for a
    using that inv_suspended [OF assms(1), of a] by (intro d(3)) auto
  ultimately have "mutex_inv m' Q' []" "es = [Resumed p w]"
    using inv_hand_over [OF assms(1) o, of w Q' "[]" nxt LOCKED_NO_WAITERS m' es] d(2) h Q \<open>Q = []\<close>
    by (auto simp: c_defs)
  then show ?thesis using Q \<open>Q = []\<close> by (auto intro: keptI)
qed

lemma perform_inv:
  assumes "mutex_inv m Q S" "2 \<le> actor a" "perform a m = Some (m', es)"
  shows "kept m' es (Q @ rev S)"
proof (cases a)
  case (Try p)
  then show ?thesis using assms inv_acquire [OF assms(1), of p]
    by (auto simp: tryLock_def split: if_splits)
next
  case (Load p)
  then have "m_pc m p = Outside" and m': "m' = set_pc p (Looping (m_state m)) m" "es = []"
    using assms(3) by (auto simp: lock_load_def split: if_splits)
  then have "mutex_inv m' Q S" using assms(1) by (simp add: inv_looping owns_def)
  then show ?thesis using m' by simp
next
  case (Acquire p s)
  then obtain old where "m_pc m p = Looping old" "lock_acquire p s m = Some (m', es)"
    using assms(3) by (auto simp: lock_acquire_def split: lock_pc.splits)
  moreover from this(1) have "\<not> owns m p" "m_pc m p \<noteq> Suspended" by (simp_all add: owns_def)
  ultimately show ?thesis
    using inv_acquire [OF assms(1), of p] inv_looping [OF assms(1), of p] inv_linked [OF assms(1), of p]
    by (auto simp: lock_acquire_def split: if_splits)
next
  case (Enqueue p s)
  then obtain old where "m_pc m p = Linked old" "lock_enqueue p s m = Some (m', es)"
    using assms(3) by (auto simp: lock_enqueue_def split: lock_pc.splits)
  moreover from this(1) have "\<not> owns m p" "m_pc m p \<noteq> Suspended" by (simp_all add: owns_def)
  ultimately show ?thesis
    using Enqueue assms(2) inv_enqueue [OF assms(1), of p] inv_looping [OF assms(1), of p]
    by (auto simp: lock_enqueue_def split: if_splits intro: keptI)
next
  case (Unlock p)
  then show ?thesis using unlock_begin_inv [OF assms(1)] assms(3) by simp
next
  case (Drain p)
  then show ?thesis using unlock_drain_inv [OF assms(1)] assms(3) by simp
qed


text \<open>The owner can always go on.\<close>

lemma unlock_begin_some: "mutex_inv m Q S \<Longrightarrow> m_pc m p = Holding \<Longrightarrow> unlock_begin p m \<noteq> None"
  by (auto simp: mutex_inv_def unlock_begin_def hand_over_def owns_def split: if_splits)

lemma unlock_drain_some:
  assumes "mutex_inv m Q S" "m_pc m p = Draining"
  shows "unlock_drain p m \<noteq> None"
proof -
  have st: "m_state m \<noteq> NOT_LOCKED" and ne: "S \<noteq> []" and c: "chain (m_next m) (m_state m) S" "distinct S"
    using assms unfolding mutex_inv_def owns_def by (auto split: if_splits)
  obtain x xs where S: "S = x # xs" using ne by (cases S) auto
  have "chain (m_next m) 0 []" "set (x # xs) \<inter> set [] = {}" by simp_all
  from drain_reverses [OF _ this(1) _ this(2)] c obtain nxt w where
    d: "c_while drain_step (m_next m, 0, m_state m) = Some (nxt, w)" "chain nxt w (rev S)" using S by auto
  have "m_state m \<noteq> 0" using c(1) S by auto
  moreover have "w \<noteq> 0" using d(2) S chain_nil [of nxt "rev S"] by (cases "w = 0") auto
  ultimately show ?thesis using assms(2) st d(1) by (simp add: unlock_drain_def hand_over_def c_defs)
qed

lemma mutex_run_inv: "mutex_run m es \<Longrightarrow> \<exists>Q S. mutex_inv m Q S \<and> Q @ rev S = still_queued es []"
proof (induction rule: mutex_run.induct)
  case start
  show ?case using mutex_inv_init by auto
next
  case (step m es a m' es')
  then obtain Q S where "mutex_inv m Q S" and q: "Q @ rev S = still_queued es []" by blast
  then have "kept m' es' (Q @ rev S)" using step.hyps by (intro perform_inv)
  then show ?case using q by (auto simp: kept_def still_queued_append)
qed

text \<open>An action reports a coroutine as resumed only when it is the head of the queue.\<close>

lemma mutex_run_resumes:
  "mutex_run m es \<Longrightarrow> es = es1 @ Resumed p w # es2 \<Longrightarrow> \<exists>q. still_queued es1 [] = w # q"
proof (induction arbitrary: es1 es2 rule: mutex_run.induct)
  case (step m es a m' es')
  obtain Q S where i: "mutex_inv m Q S" and q: "Q @ rev S = still_queued es []"
    using mutex_run_inv [OF step.hyps(1)] by blast
  have k: "kept m' es' (Q @ rev S)" using perform_inv [OF i] step.hyps by blast
  from step.prems consider es3 where "es = es1 @ Resumed p w # es3" | es3 where "es1 = es @ es3" "es' = es3 @ Resumed p w # es2"
    by (auto simp: append_eq_append_conv2 Cons_eq_append_conv append_eq_Cons_conv)
  then show ?case
  proof cases
    case 1
    then show ?thesis by (rule step.IH)
  next
    case 2
    have "length es' \<le> 1" using step.hyps(3)
      by (cases a) (auto simp: tryLock_def lock_load_def lock_acquire_def lock_enqueue_def unlock_begin_def
          unlock_drain_def hand_over_def split: if_splits lock_pc.splits bind_splits)
    then have "es3 = []" using 2 by simp
    moreover have "Q @ rev S \<noteq> [] \<and> hd (Q @ rev S) = w" using k 2 by (auto simp: kept_def)
    ultimately show ?thesis using 2 q by (cases "still_queued es []") auto
  qed
qed simp

text \<open>C11: The mutex, in every interleaving of every number of coroutines, with compare-exchanges that may
  fail for no reason: never do two coroutines own it; a coroutine is suspended only while another owns the
  mutex, so that none is left behind; whoever \<open>unlock\<close> resumes is the one that has waited longest, in the
  order in which they queued; and no assertion of \<open>unlock\<close> fails: the owner can always go on.\<close>

theorem mutex_run_safe:
  assumes "mutex_run m es"
  shows "(owns m p \<and> owns m q \<longrightarrow> p = q) \<and>
    (m_pc m p = Suspended \<longleftrightarrow> p \<in> set (still_queued es [])) \<and>
    (m_pc m p = Suspended \<longrightarrow> (\<exists>q. owns m q)) \<and>
    (es = es1 @ Resumed r w # es2 \<longrightarrow> (\<exists>rest. still_queued es1 [] = w # rest)) \<and>
    (m_pc m p = Holding \<longrightarrow> unlock_begin p m \<noteq> None) \<and>
    (m_pc m p = Draining \<longrightarrow> unlock_drain p m \<noteq> None)"
proof -
  obtain Q S where i: "mutex_inv m Q S" and q: "Q @ rev S = still_queued es []"
    using mutex_run_inv [OF assms] by blast
  have "m_pc m p = Suspended \<longleftrightarrow> p \<in> set (still_queued es [])"
    using inv_suspended [OF i, of p] by (simp flip: q)
  moreover have "m_pc m p = Suspended \<longrightarrow> (\<exists>q. owns m q)"
    using i by (auto simp: mutex_inv_def split: if_splits)
  ultimately show ?thesis
    using inv_owner [OF i] mutex_run_resumes [OF assms] unlock_begin_some [OF i] unlock_drain_some [OF i] by blast
qed

lemma mutex_run_safe_witness:
  "\<exists>m. m_pc m 3 = Holding \<and> m_pc m 2 = Outside \<and> m_pc m 4 = Suspended \<and> (\<exists>q. owns m q) \<and>
     unlock_begin 3 m \<noteq> None"
proof -
  let ?as = "[Load 2, Acquire 2 False, Load 3, Load 4, Acquire 4 False, Acquire 3 False,
     Enqueue 3 False, Enqueue 4 False, Acquire 4 False, Enqueue 4 True, Acquire 4 False, Enqueue 4 False, Unlock 2, Drain 2]"
  let ?run = "foldl (\<lambda>r a. do { (m, es) \<leftarrow> r; (m', es') \<leftarrow> perform a m; Some (m', es @ es') }) (Some (mutex_init, []))"
  have s: "mutex_run m' es'" if "mutex_run m es" "2 \<le> actor a" "(do { (m2, es2) \<leftarrow> perform a m; Some (m2, es @ es2) }) = Some (m', es')"
    for m es a m' es' using that(3) mutex_run.step [OF that(1,2)] by (auto split: bind_splits)
  have run: "mutex_run m es" if "?run as = Some (m, es)" "\<forall>a \<in> set as. 2 \<le> actor a" for as m es
    using that
  proof (induction as arbitrary: m es rule: rev_induct)
    case Nil then show ?case by (simp add: mutex_run.start)
  next
    case (snoc a as)
    then show ?case by (auto split: bind_splits intro: s)
  qed
  obtain m where m: "?run ?as = Some (m, [Acquired 2, Queued 3, Queued 4, Resumed 2 3])"
     "m_pc m 3 = Holding" "m_pc m 2 = Outside" "m_pc m 4 = Suspended"
    by (simp add: mutex_init_def c_defs tryLock_def lock_load_def lock_acquire_def lock_enqueue_def unlock_begin_def
        unlock_drain_def hand_over_def set_pc_def c_while.simps drain_step_def)
  have r: "mutex_run m [Acquired 2, Queued 3, Queued 4, Resumed 2 3]"
    by (rule run [OF m(1)]) simp
  show ?thesis using mutex_run_safe [OF r, of 4 4] mutex_run_safe [OF r, of 3 3] m by blast
qed

end
