(* ===== verification/Event.thy ===== *)
theory Event
  imports Mutex
begin

unbundle bit_operations_syntax

section \<open>The events between coroutines\<close>

text \<open>
  \<open>event.cpp\<close>. \<open>ManualResetEvent\<close> over all interleavings of any number of waiting coroutines and of threads that
  set and reset it, in the way of \<open>Mutex\<close>: a coroutine and its wait operation share one address, which is
  at least \<open>2\<close>; the event itself has the address \<open>1\<close>; \<open>_state\<close> is that address when the event is set, \<open>0\<close> when
  it is not and nobody waits, and else the address of the last operation queued. One step is one atomic
  operation with the work on private data that follows it.
\<close>

definition THIS_EVENT :: nat where [c_defs]: "THIS_EVENT = 1"

datatype wait_pc = Not_waiting | Unready | Trying nat | Waiting

text \<open>\<open>e_setting t\<close> is \<open>current\<close> of a thread \<open>t\<close> in \<open>set\<close>, \<open>0\<close> when it is not there.\<close>

record manual_event =
  e_state :: nat
  e_next :: "nat \<Rightarrow> nat"
  e_pc :: "nat \<Rightarrow> wait_pc"
  e_setting :: "nat \<Rightarrow> nat"

definition manual_event_init :: "bool \<Rightarrow> manual_event" where
  "manual_event_init initiallySet =
     \<lparr>e_state = (if initiallySet then THIS_EVENT else 0), e_next = (\<lambda>_. 0), e_pc = (\<lambda>_. Not_waiting),
      e_setting = (\<lambda>_. 0)\<rparr>"

datatype wait_event = Passed nat | Waits nat | Woken nat nat

type_synonym event_act = "manual_event \<Rightarrow> (manual_event \<times> wait_event list) option"

definition set_wait :: "nat \<Rightarrow> wait_pc \<Rightarrow> manual_event \<Rightarrow> manual_event" where
  "set_wait p pc e = e\<lparr>e_pc := (e_pc e)(p := pc)\<rparr>"

definition event_isSet :: "manual_event \<Rightarrow> bool" where
  "event_isSet e \<longleftrightarrow> e_state e = THIS_EVENT"

subsection \<open>Waiting\<close>

definition wait_ready :: "nat \<Rightarrow> event_act" where
  "wait_ready p e =
     (if e_pc e p \<noteq> Not_waiting then None
      else if event_isSet e then Some (e, [Passed p])
      else Some (set_wait p Unready e, []))"

text \<open>\<open>await_suspend\<close>: the head of the loop with the state just read, and the compare-exchange, which may
  fail for no reason (\<open>spurious\<close>).\<close>

definition wait_check :: "nat \<Rightarrow> event_act" where
  "wait_check p e =
     (if e_state e = THIS_EVENT then Some (set_wait p Not_waiting e, [Passed p])
      else Some (set_wait p (Trying (e_state e)) (e\<lparr>e_next := (e_next e)(p := e_state e)\<rparr>), []))"

definition wait_load :: "nat \<Rightarrow> event_act" where
  "wait_load p e = (if e_pc e p = Unready then wait_check p e else None)"

definition wait_enqueue :: "nat \<Rightarrow> bool \<Rightarrow> event_act" where
  "wait_enqueue p spurious e =
     (case e_pc e p of
        Trying old \<Rightarrow>
          if e_state e = old \<and> \<not> spurious then Some (set_wait p Waiting (e\<lparr>e_state := p\<rparr>), [Waits p])
          else wait_check p e
      | _ \<Rightarrow> None)"

subsection \<open>Setting and resetting\<close>

definition event_set :: "nat \<Rightarrow> event_act" where
  "event_set t e =
     (if e_setting e t \<noteq> 0 then None
      else
       (let oldState = e_state e; e = e\<lparr>e_state := THIS_EVENT\<rparr> in
        Some (if oldState \<noteq> THIS_EVENT then e\<lparr>e_setting := (e_setting e)(t := oldState)\<rparr> else e, [])))"

definition event_resume :: "nat \<Rightarrow> event_act" where
  "event_resume t e =
     (let current = e_setting e t in
      if current = 0 then None
      else Some (set_wait current Not_waiting (e\<lparr>e_setting := (e_setting e)(t := e_next e current)\<rparr>),
             [Woken t current]))"

definition event_reset :: "bool \<Rightarrow> event_act" where
  "event_reset spurious e =
     Some (if e_state e = THIS_EVENT \<and> \<not> spurious then e\<lparr>e_state := 0\<rparr> else e, [])"

subsection \<open>Runs\<close>

datatype event_action = A_ready nat | A_load nat | A_enqueue nat bool | A_set nat | A_resume nat | A_reset bool

fun event_perform :: "event_action \<Rightarrow> event_act" where
  "event_perform (A_ready p) = wait_ready p"
| "event_perform (A_load p) = wait_load p"
| "event_perform (A_enqueue p s) = wait_enqueue p s"
| "event_perform (A_set t) = event_set t"
| "event_perform (A_resume t) = event_resume t"
| "event_perform (A_reset s) = event_reset s"

fun event_waiter :: "event_action \<Rightarrow> nat" where
  "event_waiter (A_ready p) = p"
| "event_waiter (A_load p) = p"
| "event_waiter (A_enqueue p s) = p"
| "event_waiter _ = 2"

inductive event_run :: "bool \<Rightarrow> manual_event \<Rightarrow> wait_event list \<Rightarrow> bool" for set0 where
  start: "event_run set0 (manual_event_init set0) []"
| step: "event_run set0 e es \<Longrightarrow> 2 \<le> event_waiter a \<Longrightarrow> event_perform a e = Some (e', es') \<Longrightarrow>
    event_run set0 e' (es @ es')"

text \<open>The coroutines that wait after a run.\<close>

fun still_waiting :: "wait_event list \<Rightarrow> nat set \<Rightarrow> nat set" where
  "still_waiting [] q = q"
| "still_waiting (Waits p # es) q = still_waiting es (insert p q)"
| "still_waiting (Woken t w # es) q = still_waiting es (q - {w})"
| "still_waiting (Passed p # es) q = still_waiting es q"

lemma still_waiting_append: "still_waiting (es @ es') q = still_waiting es' (still_waiting es q)"
  by (induction es q rule: still_waiting.induct) auto

text \<open>The invariant: \<open>S\<close> is the stack of operations in \<open>_state\<close>, \<open>L t\<close> what a thread \<open>t\<close> in \<open>set\<close> has still to
  resume.\<close>

definition event_inv :: "manual_event \<Rightarrow> nat list \<Rightarrow> (nat \<Rightarrow> nat list) \<Rightarrow> bool" where
  "event_inv e S L \<longleftrightarrow>
     (if event_isSet e then S = [] else chain (e_next e) (e_state e) S) \<and>
     (\<forall>t. chain (e_next e) (e_setting e t) (L t)) \<and>
     distinct S \<and> (\<forall>t. distinct (L t) \<and> set S \<inter> set (L t) = {}) \<and>
     (\<forall>t t'. t \<noteq> t' \<longrightarrow> set (L t) \<inter> set (L t') = {}) \<and>
     (\<forall>p. e_pc e p = Waiting \<longleftrightarrow> p \<in> set S \<union> (\<Union>t. set (L t))) \<and>
     (\<forall>p old. e_pc e p = Trying old \<longrightarrow> e_next e p = old \<and> old \<noteq> THIS_EVENT) \<and>
     (\<forall>p \<in> set S. 2 \<le> p)"

lemma event_inv_init: "event_inv (manual_event_init set0) [] (\<lambda>_. [])"
  by (simp add: event_inv_def manual_event_init_def event_isSet_def c_defs)

lemma set_wait_simps [simp]:
  "e_state (set_wait p pc e) = e_state e" "e_setting (set_wait p pc e) = e_setting e"
  "e_next (set_wait p pc e) = e_next e" "e_pc (set_wait p pc e) = (e_pc e)(p := pc)"
  "event_isSet (set_wait p pc e) = event_isSet e"
  by (simp_all add: set_wait_def event_isSet_def)

lemma inv_waiting: "event_inv e S L \<Longrightarrow> e_pc e p = Waiting \<longleftrightarrow> p \<in> set S \<or> (\<exists>t. p \<in> set (L t))"
  by (simp add: event_inv_def)

lemma event_inv_idle:
  assumes "event_inv e S L" "e_pc e p \<noteq> Waiting" "pc \<noteq> Waiting" "\<And>old. pc \<noteq> Trying old"
  shows "event_inv (set_wait p pc e) S L"
  using assms by (auto simp: event_inv_def split: if_splits)

lemma event_inv_trying:
  assumes "event_inv e S L" "e_pc e p \<noteq> Waiting" "old \<noteq> THIS_EVENT"
  shows "event_inv (set_wait p (Trying old) (e\<lparr>e_next := (e_next e)(p := old)\<rparr>)) S L"
proof -
  have "p \<notin> set S" "\<And>t. p \<notin> set (L t)" using inv_waiting [OF assms(1), of p] assms(2) by auto
  then show ?thesis using assms by (auto simp: event_inv_def event_isSet_def split: if_splits)
qed

lemma wait_check_inv:
  assumes "event_inv e S L" "e_pc e p \<noteq> Waiting" "wait_check p e = Some (e', es)"
  shows "event_inv e' S L \<and> still_waiting es q = q"
  using assms by (auto simp: wait_check_def event_inv_idle event_inv_trying split: if_splits)

lemma event_inv_enqueue:
  assumes "event_inv e S L" "e_pc e p = Trying (e_state e)" "2 \<le> p"
  shows "event_inv (set_wait p Waiting (e\<lparr>e_state := p\<rparr>)) (p # S) L"
proof -
  have "p \<notin> set S" "\<And>t. p \<notin> set (L t)" using inv_waiting [OF assms(1), of p] assms(2) by auto
  moreover have "e_next e p = e_state e" "e_state e \<noteq> THIS_EVENT" using assms(1,2) by (auto simp: event_inv_def)
  moreover have "p \<noteq> THIS_EVENT" using assms(3) by (simp add: c_defs)
  ultimately show ?thesis using assms by (auto simp: event_inv_def event_isSet_def)
qed

lemma event_inv_set:
  assumes "event_inv e S L" "e_setting e t = 0" "\<not> event_isSet e"
  shows "event_inv (e\<lparr>e_state := THIS_EVENT, e_setting := (e_setting e)(t := e_state e)\<rparr>) [] (L(t := S))"
proof -
  have "chain (e_next e) (e_setting e t) (L t)" using assms(1) by (simp add: event_inv_def)
  then have "L t = []" using assms(2) by (simp add: chain_nil)
  moreover have "set S \<inter> set (L t') = {}" for t' using assms(1) by (simp add: event_inv_def)
  moreover have "(\<exists>u. p \<in> set ((L(t := S)) u)) \<longleftrightarrow> p \<in> set S \<or> (\<exists>u. p \<in> set (L u))" for p
    by (metis \<open>L t = []\<close> empty_iff empty_set fun_upd_apply)
  ultimately show ?thesis
    using assms by (simp add: event_inv_def event_isSet_def Int_commute)
qed

lemma event_inv_reset:
  assumes "event_inv e S L" "event_isSet e"
  shows "event_inv (e\<lparr>e_state := 0\<rparr>) S L"
  using assms by (auto simp: event_inv_def event_isSet_def c_defs)

lemma event_inv_resume:
  assumes "event_inv e S L" "event_resume t e = Some (e', es)"
  shows "\<exists>w ws. L t = w # ws \<and> es = [Woken t w] \<and> event_inv e' S (L(t := ws))"
proof -
  have c: "chain (e_next e) (e_setting e t) (L t)" "distinct (L t)" using assms(1) by (simp_all add: event_inv_def)
  have "e_setting e t \<noteq> 0" using assms(2) by (simp add: event_resume_def Let_def split: if_splits)
  then obtain w ws where L: "L t = w # ws" using c(1) by (cases "L t") auto
  have w: "e_setting e t = w" "chain (e_next e) (e_next e w) ws" "w \<notin> set ws" using c L by auto
  have e': "e' = set_wait w Not_waiting (e\<lparr>e_setting := (e_setting e)(t := e_next e w)\<rparr>)" "es = [Woken t w]"
    using assms(2) w(1) \<open>e_setting e t \<noteq> 0\<close> unfolding event_resume_def Let_def by simp_all
  have wt: "w \<in> set (L t)" using L by simp
  have "set S \<inter> set (L t) = {}" using assms(1) by (simp add: event_inv_def)
  then have S: "w \<notin> set S" using wt by blast
  have T: "w \<notin> set (L u)" if "u \<noteq> t" for u
  proof -
    have "set (L u) \<inter> set (L t) = {}" using assms(1) that by (simp add: event_inv_def)
    then show ?thesis using wt by blast
  qed
  have "(p \<in> set S \<or> (\<exists>u. p \<in> set ((L(t := ws)) u))) \<longleftrightarrow> p \<noteq> w \<and> e_pc e p = Waiting" for p
    unfolding inv_waiting [OF assms(1), of p] using S T L w(3)
    by (metis fun_upd_apply list.set_intros(2) set_ConsD)
  then have "e_pc e' p = Waiting \<longleftrightarrow> p \<in> set S \<union> (\<Union>u. set ((L(t := ws)) u))" for p
    using e' by simp
  moreover have "\<forall>p old. e_pc e' p = Trying old \<longrightarrow> e_next e' p = old \<and> old \<noteq> THIS_EVENT"
    using assms(1) e' by (simp add: event_inv_def)
  moreover have "\<forall>u. chain (e_next e') (e_setting e' u) ((L(t := ws)) u)"
    using assms(1) e' w by (simp add: event_inv_def)
  moreover have "distinct ((L(t := ws)) u) \<and> set S \<inter> set ((L(t := ws)) u) = {}" for u
  proof -
    have "distinct (L u) \<and> set S \<inter> set (L u) = {}" using assms(1) by (simp add: event_inv_def)
    then show ?thesis using L by (cases "u = t") simp_all
  qed
  moreover have "\<forall>u u'. u \<noteq> u' \<longrightarrow> set ((L(t := ws)) u) \<inter> set ((L(t := ws)) u') = {}"
  proof (intro allI impI)
    fix u u' :: nat assume "u \<noteq> u'"
    then have "set (L u) \<inter> set (L u') = {}" using assms(1) by (simp add: event_inv_def)
    then show "set ((L(t := ws)) u) \<inter> set ((L(t := ws)) u') = {}" using L by auto
  qed
  ultimately have "event_inv e' S (L(t := ws))"
    using assms(1) e' unfolding event_inv_def by (simp add: event_isSet_def)
  then show ?thesis using L e' by simp
qed

lemma event_perform_inv:
  assumes "event_inv e S L" "2 \<le> event_waiter a" "event_perform a e = Some (e', es)"
  shows "\<exists>S' L'. event_inv e' S' L' \<and>
    (\<forall>q. still_waiting es q = q \<or> (\<exists>p. es = [Waits p]) \<or> (\<exists>t w. es = [Woken t w] \<and> e_pc e w = Waiting))"
proof (cases a)
  case (A_ready p)
  then show ?thesis using assms event_inv_idle [OF assms(1), of p Unready]
    by (auto simp: wait_ready_def split: if_splits)
next
  case (A_load p)
  then have "e_pc e p \<noteq> Waiting" "wait_check p e = Some (e', es)"
    using assms(3) by (auto simp: wait_load_def split: if_splits)
  then show ?thesis using wait_check_inv [OF assms(1)] by blast
next
  case (A_enqueue p s)
  then obtain old where old: "e_pc e p = Trying old" "wait_enqueue p s e = Some (e', es)"
    using assms(3) by (auto simp: wait_enqueue_def split: wait_pc.splits)
  show ?thesis
  proof (cases "e_state e = old \<and> \<not> s")
    case True
    then show ?thesis using old event_inv_enqueue [OF assms(1), of p] A_enqueue assms(2)
      by (auto simp: wait_enqueue_def)
  next
    case False
    then have "e_pc e p \<noteq> Waiting" "wait_check p e = Some (e', es)" using old by (auto simp: wait_enqueue_def)
    then show ?thesis using wait_check_inv [OF assms(1)] by blast
  qed
next
  case (A_set t)
  show ?thesis
  proof (cases "event_isSet e")
    case True
    then have "e' = e" "es = []" using assms(3) A_set by (auto simp: event_set_def event_isSet_def Let_def split: if_splits)
    then show ?thesis using assms(1) by auto
  next
    case False
    then have "e_setting e t = 0"
      "e' = e\<lparr>e_state := THIS_EVENT, e_setting := (e_setting e)(t := e_state e)\<rparr>" "es = []"
      using assms(3) A_set by (auto simp: event_set_def event_isSet_def Let_def split: if_splits)
    then show ?thesis using event_inv_set [OF assms(1) _ False, of t] by auto
  qed
next
  case (A_resume t)
  then obtain w ws where r: "L t = w # ws" "es = [Woken t w]" "event_inv e' S (L(t := ws))"
    using event_inv_resume [OF assms(1), of t e' es] assms(3) by auto
  have "w \<in> set (L t)" using r(1) by simp
  then have "e_pc e w = Waiting" using inv_waiting [OF assms(1), of w] by blast
  then show ?thesis using r by blast
next
  case (A_reset s)
  then show ?thesis using assms event_inv_reset [OF assms(1)]
    by (auto simp: event_reset_def event_isSet_def split: if_splits)
qed


text \<open>An invariant of runs: the coroutines whose wait has begun and not ended are those that wait.\<close>

lemma event_perform_waiting:
  assumes "event_inv e S L" "event_perform a e = Some (e', es)"
  shows "{p. e_pc e' p = Waiting} = still_waiting es {p. e_pc e p = Waiting}"
proof (cases a)
  case (A_resume t)
  then obtain w ws where r: "L t = w # ws" "es = [Woken t w]" "event_inv e' S (L(t := ws))"
    using event_inv_resume [OF assms(1), of t e' es] assms(2) by auto
  then have "e_setting e t = w" using assms(1) by (auto simp: event_inv_def dest: spec [of _ t])
  then have "e' = set_wait w Not_waiting (e\<lparr>e_setting := (e_setting e)(t := e_next e w)\<rparr>)"
    using assms(2) A_resume by (simp add: event_resume_def Let_def split: if_splits)
  then show ?thesis using r(2) by auto
qed (use assms(2) in \<open>auto simp: wait_ready_def wait_load_def wait_check_def wait_enqueue_def event_set_def
    event_reset_def Let_def split: if_splits wait_pc.splits\<close>)

lemma event_run_inv:
  "event_run set0 e es \<Longrightarrow>
   (\<exists>S L. event_inv e S L) \<and> {p. e_pc e p = Waiting} = still_waiting es {}"
proof (induction rule: event_run.induct)
  case start
  have "{p. e_pc (manual_event_init set0) p = Waiting} = {}" by (simp add: manual_event_init_def)
  then show ?case using event_inv_init [of set0] by fastforce
next
  case (step e es a e' es')
  then obtain S L where i: "event_inv e S L" by blast
  show ?case using event_perform_inv [OF i step.hyps(2,3)] event_perform_waiting [OF i step.hyps(3)] step.IH
    by (auto simp: still_waiting_append)
qed

text \<open>C12: \<open>ManualResetEvent\<close>, in every interleaving: the coroutines suspended are those whose wait has begun
  and that were not resumed since; when the event is set and no thread is in the loop of \<open>set\<close>, none is;
  and what a thread in that loop resumes next is a suspended coroutine, never one that is gone.\<close>

theorem event_run_safe:
  assumes "event_run set0 e es"
  shows "(e_pc e p = Waiting \<longleftrightarrow> p \<in> still_waiting es {}) \<and>
    (event_isSet e \<and> (\<forall>t. e_setting e t = 0) \<longrightarrow> e_pc e p \<noteq> Waiting) \<and>
    (e_setting e t \<noteq> 0 \<longrightarrow> e_pc e (e_setting e t) = Waiting \<and> event_resume t e \<noteq> None)"
proof -
  obtain S L where i: "event_inv e S L" and w: "{p. e_pc e p = Waiting} = still_waiting es {}"
    using event_run_inv [OF assms] by blast
  have c: "chain (e_next e) (e_setting e t) (L t)" for t using i by (simp add: event_inv_def)
  have "e_pc e p \<noteq> Waiting" if "event_isSet e" "\<forall>t. e_setting e t = 0"
  proof -
    have "L t = []" for t using c [of t] that(2) by (simp add: chain_nil)
    moreover have "S = []" using i that(1) by (simp add: event_inv_def)
    ultimately show ?thesis using inv_waiting [OF i, of p] by simp
  qed
  moreover have "e_pc e (e_setting e t) = Waiting" if "e_setting e t \<noteq> 0"
  proof -
    have "e_setting e t \<in> set (L t)" using c [of t] that by (cases "L t") auto
    then show ?thesis using inv_waiting [OF i, of "e_setting e t"] by blast
  qed
  ultimately show ?thesis using w by (auto simp: event_resume_def Let_def)
qed

theorem event_run_safe_witness:
  "\<exists>e. event_run False e [Waits 2, Waits 3, Woken 9 3, Woken 9 2, Passed 4] \<and> event_isSet e \<and> e_pc e 3 \<noteq> Waiting"
proof -
  let ?as = "[A_ready 2, A_ready 3, A_load 2, A_load 3, A_enqueue 2 False, A_enqueue 3 True, A_enqueue 3 False,
     A_set 9, A_resume 9, A_resume 9, A_ready 4]"
  let ?run = "foldl (\<lambda>r a. do { (e, es) \<leftarrow> r; (e', es') \<leftarrow> event_perform a e; Some (e', es @ es') })
     (Some (manual_event_init False, []))"
  have run: "event_run False e es" if "?run as = Some (e, es)" "\<forall>a \<in> set as. 2 \<le> event_waiter a" for as e es
    using that
  proof (induction as arbitrary: e es rule: rev_induct)
    case Nil then show ?case using event_run.start [of False] by simp
  next
    case (snoc a as)
    then show ?case by (auto split: bind_splits intro: event_run.step)
  qed
  obtain e where e: "?run ?as = Some (e, [Waits 2, Waits 3, Woken 9 3, Woken 9 2, Passed 4])"
     "event_isSet e" "\<forall>t. e_setting e t = 0"
    by (simp add: manual_event_init_def c_defs wait_ready_def wait_load_def wait_check_def wait_enqueue_def
        event_set_def event_resume_def set_wait_def event_isSet_def)
  have r: "event_run False e [Waits 2, Waits 3, Woken 9 3, Woken 9 2, Passed 4]"
    by (rule run [OF e(1)]) simp
  show ?thesis using event_run_safe [OF r, of 3] r e by blast
qed

subsection \<open>The event that resets itself\<close>

text \<open>
  \<open>AutoResetEvent\<close>: the state counts how often the event was set, in its low half, and the waiters, in its
  high half. \<open>co_await\<close> returns an operation without an event whichever way it goes, and such an operation is
  ready: its result is the new state, and that the coroutine does not suspend. The compare-exchange in
  \<open>set\<close> and \<open>reset\<close> is repeated until it succeeds; \<open>raced\<close> is the state another thread leaves between the
  load and the strong exchange of \<open>co_await\<close>.
\<close>

type_synonym auto_state = "64 word"

definition SET_INCREMENT :: auto_state where "SET_INCREMENT = 1"
definition WAITER_INCREMENT :: auto_state where "WAITER_INCREMENT = push_bit 32 1"

definition get_set_count :: "auto_state \<Rightarrow> u32" where
  "get_set_count state = ucast state"

definition get_waiter_count :: "auto_state \<Rightarrow> u32" where
  "get_waiter_count state = ucast (drop_bit 32 state)"

definition get_resumable_waiter_count :: "auto_state \<Rightarrow> u32" where
  "get_resumable_waiter_count state = min (get_waiter_count state) (get_set_count state)"

record auto_operation =
  op_event :: bool
  op_refCount :: nat

definition auto_operation0 :: auto_operation where
  "auto_operation0 = \<lparr>op_event = False, op_refCount = 0\<rparr>"

definition auto_co_await :: "auto_state \<Rightarrow> auto_state \<Rightarrow> auto_state \<times> auto_operation" where
  "auto_co_await oldState raced =
     (if get_set_count oldState > get_waiter_count oldState \<and> raced = oldState
      then (oldState - SET_INCREMENT, auto_operation0)
      else (raced, auto_operation0))"

definition auto_ready :: "auto_operation \<Rightarrow> bool" where
  "auto_ready op \<longleftrightarrow> \<not> op_event op"

definition auto_set :: "auto_state \<Rightarrow> auto_state \<times> bool" where
  "auto_set oldState =
     (if get_set_count oldState > get_waiter_count oldState then (oldState, False)
      else (oldState + SET_INCREMENT, oldState \<noteq> 0 \<and> get_set_count oldState = 0))"

definition auto_reset :: "auto_state \<Rightarrow> auto_state" where
  "auto_reset oldState =
     (if get_set_count oldState > get_waiter_count oldState then oldState - SET_INCREMENT else oldState)"

inductive auto_reach :: "auto_state \<Rightarrow> bool" where
  "auto_reach 0"
| "auto_reach SET_INCREMENT"
| "auto_reach s \<Longrightarrow> auto_reach (fst (auto_set s))"
| "auto_reach s \<Longrightarrow> auto_reach (auto_reset s)"
| "auto_reach s \<Longrightarrow> auto_reach raced \<Longrightarrow> auto_reach (fst (auto_co_await s raced))"

text \<open>No coroutine ever waits for such an event, so that it is set or not set, without waiters, and \<open>set\<close>
  never goes on to resume one.\<close>

lemma auto_reach_values: "auto_reach s \<Longrightarrow> s = 0 \<or> s = 1"
  by (induction rule: auto_reach.induct)
     (auto simp: auto_set_def auto_reset_def auto_co_await_def SET_INCREMENT_def get_set_count_def get_waiter_count_def)

lemma auto_never_waits:
  assumes "auto_reach s"
  shows "auto_ready (snd (auto_co_await s raced)) \<and> \<not> snd (auto_set s)"
  using auto_reach_values [OF assms]
  by (auto simp: auto_ready_def auto_co_await_def auto_operation0_def auto_set_def get_set_count_def)

end
