(* ===== verification/Tcp.thy ===== *)
theory Tcp
  imports Addr Timers
begin

unbundle bit_operations_syntax

section \<open>TCP sockets of the async library\<close>

text \<open>
  \<open>socket.cpp\<close>, \<open>tcp.cpp\<close> and \<open>fdops.cpp\<close>. The system calls are a record of functions on a world; a call
  that fails returns its \<open>errno\<close>. \<open>co_await fdwait (...)\<close> is one of them: it returns the state of the event and
  the value that \<open>errno\<close> has afterwards, whatever ran meanwhile. A buffer is the list of its bytes. Sizes
  are \<open>size_t\<close> and below \<open>2 ^ 63\<close>; a result is converted to \<open>int\<close>. The numbers of the errors are those of Linux.
\<close>

datatype IO = IN | OUT

record 'w net =
  n_now :: "'w \<Rightarrow> int \<times> 'w"
  n_fdwait :: "int \<Rightarrow> IO \<Rightarrow> int \<Rightarrow> nat \<Rightarrow> 'w \<Rightarrow> (event_state \<times> int) \<times> 'w"
  n_send :: "int \<Rightarrow> bytes \<Rightarrow> 'w \<Rightarrow> (int + nat) \<times> 'w"
  n_recv :: "int \<Rightarrow> nat \<Rightarrow> 'w \<Rightarrow> (int + bytes) \<times> 'w"
  n_read :: "int \<Rightarrow> nat \<Rightarrow> 'w \<Rightarrow> (int + bytes) \<times> 'w"
  n_write :: "int \<Rightarrow> bytes \<Rightarrow> 'w \<Rightarrow> (int + nat) \<times> 'w"
  n_getfl :: "int \<Rightarrow> 'w \<Rightarrow> nat option \<times> 'w"
  n_setfl :: "int \<Rightarrow> nat \<Rightarrow> 'w \<Rightarrow> bool \<times> 'w"
  n_reuseaddr :: "int \<Rightarrow> 'w \<Rightarrow> bool \<times> 'w"
  n_socket :: "nat \<Rightarrow> 'w \<Rightarrow> (int + int) \<times> 'w"
  n_connect :: "int \<Rightarrow> dns_sockaddr \<Rightarrow> 'w \<Rightarrow> int option \<times> 'w"
  n_so_error :: "int \<Rightarrow> 'w \<Rightarrow> (int + int) \<times> 'w"
  n_accept :: "int \<Rightarrow> 'w \<Rightarrow> (int + int \<times> dns_sockaddr) \<times> 'w"
  n_bind :: "int \<Rightarrow> dns_sockaddr \<Rightarrow> 'w \<Rightarrow> int option \<times> 'w"
  n_listen :: "int \<Rightarrow> int \<Rightarrow> 'w \<Rightarrow> int option \<times> 'w"
  n_getsockname :: "int \<Rightarrow> 'w \<Rightarrow> (int + dns_sockaddr) \<times> 'w"
  n_shutdown :: "int \<Rightarrow> 'w \<Rightarrow> 'w"
  n_close :: "int \<Rightarrow> 'w \<Rightarrow> 'w"

definition EAGAIN :: int where [c_defs]: "EAGAIN = 11"
definition EPIPE :: int where [c_defs]: "EPIPE = 32"
definition ECONNRESET :: int where [c_defs]: "ECONNRESET = 104"
definition ETIMEDOUT :: int where [c_defs]: "ETIMEDOUT = 110"
definition EINPROGRESS :: int where [c_defs]: "EINPROGRESS = 115"

definition INVALID_FD :: int where [c_defs]: "INVALID_FD = -1"
definition THREAD_ID_ANY :: nat where [c_defs]: "THREAD_ID_ANY = 65535"

record suil_socket =
  sk_fd :: int
  sk_error :: int
  sk_tID :: nat

definition int16 :: "int \<Rightarrow> int" where
  "int16 z = (z + 2 ^ 15) mod 2 ^ 16 - 2 ^ 15"

definition set_error :: "int \<Rightarrow> suil_socket \<Rightarrow> suil_socket" where
  "set_error e so = so\<lparr>sk_error := int16 e\<rparr>"

text \<open>Milliseconds to a deadline; \<open>-1\<close> is none.\<close>

definition afterd :: "'w net \<Rightarrow> int \<Rightarrow> 'w \<Rightarrow> int \<times> 'w" where
  "afterd net timeout w =
     (if timeout \<le> 0 then (-1, w) else (let (t, w) = n_now net w in (t + timeout, w)))"

subsection \<open>Sending\<close>

text \<open>A wait that did not fire leaves its error in the socket.\<close>

definition wait_error :: "event_state \<Rightarrow> int \<Rightarrow> suil_socket \<Rightarrow> suil_socket" where
  "wait_error ev e so = set_error (if ev = esTIMEOUT then ETIMEDOUT else e) so"

definition send_step ::
    "'w net \<Rightarrow> bytes \<Rightarrow> int \<Rightarrow> suil_socket \<times> 'w \<Rightarrow> (suil_socket \<times> 'w + (suil_socket \<times> int) \<times> 'w) option" where
  "send_step net buf deadline = (\<lambda>(so, w).
     let (r, w) = n_send net (sk_fd so) buf w in
     case r of
       Inl e \<Rightarrow>
         if e = EPIPE then Some (Inr ((set_error ECONNRESET so, -1), w))
         else if e \<noteq> EAGAIN then Some (Inr ((set_error e so, -1), w))
         else
          (let ((ev, e), w) = n_fdwait net (sk_fd so) OUT deadline (sk_tID so) w in
           if ev \<noteq> esFIRED then Some (Inr ((wait_error ev e so, -1), w)) else Some (Inl (so, w)))
     | Inr n \<Rightarrow> Some (Inr ((so, int n), w)))"

definition sock_send ::
    "'w net \<Rightarrow> bytes \<Rightarrow> int \<Rightarrow> suil_socket \<Rightarrow> 'w \<Rightarrow> ((suil_socket \<times> int) \<times> 'w) option" where
  "sock_send net buf timeout so w = do {
     let (deadline, w) = afterd net timeout w;
     ((so, n), w) \<leftarrow> c_while (send_step net buf deadline) (so, w);
     Some ((so, int32 n), w) }"

text \<open>\<open>n\<close> is \<open>nSent\<close>; \<open>continue\<close> goes to the condition of the loop.\<close>

definition sendAll_step ::
    "'w net \<Rightarrow> bytes \<Rightarrow> int \<Rightarrow> suil_socket \<times> nat \<times> 'w \<Rightarrow>
     (suil_socket \<times> nat \<times> 'w + (suil_socket \<times> int) \<times> 'w) option" where
  "sendAll_step net buf deadline = (\<lambda>(so, n, w).
     let (r, w) = n_send net (sk_fd so) (drop n buf) w in
     case r of
       Inl e \<Rightarrow>
         if e = EPIPE then Some (Inr ((set_error ECONNRESET so, int n), w))
         else if e \<noteq> EAGAIN then Some (Inr ((set_error e so, -1), w))
         else
          (let ((ev, e), w) = n_fdwait net (sk_fd so) OUT deadline (sk_tID so) w in
           if ev \<noteq> esFIRED then Some (Inr ((wait_error ev e so, -1), w))
           else Some (if n < length buf then Inl (so, n, w) else Inr ((so, int n), w)))
     | Inr k \<Rightarrow>
         if k = 0 then Some (Inr ((set_error ECONNRESET so, int n), w))
         else Some (if n + k < length buf then Inl (so, n + k, w) else Inr ((so, int (n + k)), w)))"

definition sendAll ::
    "'w net \<Rightarrow> bytes \<Rightarrow> int \<Rightarrow> suil_socket \<Rightarrow> 'w \<Rightarrow> ((suil_socket \<times> int) \<times> 'w) option" where
  "sendAll net buf timeout so w = do {
     let (deadline, w) = afterd net timeout w;
     ((so, n), w) \<leftarrow> c_while (sendAll_step net buf deadline) (so, 0, w);
     Some ((so, int32 n), w) }"

subsection \<open>Receiving\<close>

definition receive_step ::
    "'w net \<Rightarrow> int \<Rightarrow> suil_socket \<times> bytes \<times> 'w \<Rightarrow>
     (suil_socket \<times> bytes \<times> 'w + (suil_socket \<times> bytes \<times> int) \<times> 'w) option" where
  "receive_step net deadline = (\<lambda>(so, buf, w).
     let (r, w) = n_recv net (sk_fd so) (length buf) w in
     case r of
       Inl e \<Rightarrow>
         if e = EPIPE then Some (Inr ((set_error ECONNRESET so, buf, -1), w))
         else if e \<noteq> EAGAIN then Some (Inr ((set_error e so, buf, -1), w))
         else
          (let ((ev, e), w) = n_fdwait net (sk_fd so) IN deadline (sk_tID so) w in
           if ev \<noteq> esFIRED then Some (Inr ((wait_error ev e so, buf, -1), w))
           else Some (Inl (so, buf, w)))
     | Inr bs \<Rightarrow> do {
         buf \<leftarrow> wr_mem buf 0 bs;
         Some (Inr ((if bs = [] then set_error ECONNRESET so else so, buf, int (length bs)), w)) })"

definition receive ::
    "'w net \<Rightarrow> bytes \<Rightarrow> int \<Rightarrow> suil_socket \<Rightarrow> 'w \<Rightarrow> ((suil_socket \<times> bytes \<times> int) \<times> 'w) option" where
  "receive net buf timeout so w = do {
     let (deadline, w) = afterd net timeout w;
     ((so, buf, n), w) \<leftarrow> c_while (receive_step net deadline) (so, buf, w);
     Some ((so, buf, int32 n), w) }"

definition receiveAll_step ::
    "'w net \<Rightarrow> int \<Rightarrow> suil_socket \<times> bytes \<times> nat \<times> 'w \<Rightarrow>
     (suil_socket \<times> bytes \<times> nat \<times> 'w + (suil_socket \<times> bytes \<times> int) \<times> 'w) option" where
  "receiveAll_step net deadline = (\<lambda>(so, buf, n, w).
     let (r, w) = n_recv net (sk_fd so) (length buf - n) w in
     case r of
       Inl e \<Rightarrow>
         if e = EPIPE then Some (Inr ((set_error ECONNRESET so, buf, int n), w))
         else if e \<noteq> EAGAIN then Some (Inr ((set_error e so, buf, -1), w))
         else
          (let ((ev, e), w) = n_fdwait net (sk_fd so) IN deadline (sk_tID so) w in
           if ev \<noteq> esFIRED then Some (Inr ((wait_error ev e so, buf, -1), w))
           else Some (if n < length buf then Inl (so, buf, n, w) else Inr ((so, buf, int n), w)))
     | Inr bs \<Rightarrow>
         if bs = [] then Some (Inr ((set_error ECONNRESET so, buf, int n), w))
         else do {
           buf \<leftarrow> wr_mem buf n bs;
           Some (if n + length bs < length buf then Inl (so, buf, n + length bs, w)
                 else Inr ((so, buf, int (n + length bs)), w)) })"

definition receiveAll ::
    "'w net \<Rightarrow> bytes \<Rightarrow> int \<Rightarrow> suil_socket \<Rightarrow> 'w \<Rightarrow> ((suil_socket \<times> bytes \<times> int) \<times> 'w) option" where
  "receiveAll net buf timeout so w = do {
     let (deadline, w) = afterd net timeout w;
     ((so, buf, n), w) \<leftarrow> c_while (receiveAll_step net deadline) (so, buf, 0, w);
     Some ((so, buf, int32 n), w) }"

subsection \<open>Descriptors\<close>

text \<open>\<open>fdops.cpp\<close>: \<open>read\<close> and \<open>write\<close> return \<open>-1\<close> also when the wait did not fire.\<close>

definition fd_read_step ::
    "'w net \<Rightarrow> int \<Rightarrow> int \<Rightarrow> bytes \<times> 'w \<Rightarrow> (bytes \<times> 'w + (bytes \<times> int) \<times> 'w) option" where
  "fd_read_step net fd deadline = (\<lambda>(buf, w).
     let (r, w) = n_read net fd (length buf) w in
     case r of
       Inl e \<Rightarrow>
         if e = EAGAIN then
          (let ((ev, _), w) = n_fdwait net fd IN deadline THREAD_ID_ANY w in
           Some (if ev \<noteq> esFIRED then Inr ((buf, -1), w) else Inl (buf, w)))
         else Some (Inr ((buf, -1), w))
     | Inr bs \<Rightarrow> do {
         buf \<leftarrow> wr_mem buf 0 bs;
         Some (Inr ((buf, int (length bs)), w)) })"

definition fd_read :: "'w net \<Rightarrow> int \<Rightarrow> bytes \<Rightarrow> int \<Rightarrow> 'w \<Rightarrow> ((bytes \<times> int) \<times> 'w) option" where
  "fd_read net fd buf timeout w =
     (if fd < 0 \<or> buf = [] then Some ((buf, -1), w)
      else do {
        let (deadline, w) = afterd net timeout w;
        ((buf, n), w) \<leftarrow> c_while (fd_read_step net fd deadline) (buf, w);
        Some ((buf, int32 n), w) })"

definition fd_write_step ::
    "'w net \<Rightarrow> int \<Rightarrow> bytes \<Rightarrow> int \<Rightarrow> 'w \<Rightarrow> ('w + int \<times> 'w) option" where
  "fd_write_step net fd buf deadline = (\<lambda>w.
     let (r, w) = n_write net fd buf w in
     case r of
       Inl e \<Rightarrow>
         if e = EAGAIN then
          (let ((ev, _), w) = n_fdwait net fd OUT deadline THREAD_ID_ANY w in
           Some (if ev \<noteq> esFIRED then Inr (-1, w) else Inl w))
         else Some (Inr (-1, w))
     | Inr n \<Rightarrow> Some (Inr (int n, w)))"

definition fd_write :: "'w net \<Rightarrow> int \<Rightarrow> bytes \<Rightarrow> int \<Rightarrow> 'w \<Rightarrow> (int \<times> 'w) option" where
  "fd_write net fd buf timeout w =
     (if fd < 0 then Some (-1, w)
      else do {
        let (deadline, w) = afterd net timeout w;
        (n, w) \<leftarrow> c_while (fd_write_step net fd buf deadline) w;
        Some (int32 n, w) })"

subsection \<open>Sockets\<close>

text \<open>\<open>Socket (fd, err)\<close> ignores \<open>err\<close>; \<open>TcpSocket (fd, err, tId)\<close> binds it to a thread. \<open>threads\<close> is the number
  of threads of the scheduler.\<close>

definition socket0 :: suil_socket where
  "socket0 = \<lparr>sk_fd = INVALID_FD, sk_error = 0, sk_tID = THREAD_ID_ANY\<rparr>"

definition bindToThread :: "nat \<Rightarrow> nat \<Rightarrow> suil_socket \<Rightarrow> suil_socket option" where
  "bindToThread threads tID so =
     (if tID = THREAD_ID_ANY \<or> tID < threads then Some (so\<lparr>sk_tID := tID\<rparr>) else None)"

record tcp_socket =
  tcp_sock :: suil_socket
  tcp_addr :: dns_sockaddr

definition tcp_socket_new :: "nat \<Rightarrow> int \<Rightarrow> int \<Rightarrow> nat \<Rightarrow> tcp_socket option" where
  "tcp_socket_new threads fd err tId = do {
     so \<leftarrow> bindToThread threads tId (socket0\<lparr>sk_fd := fd, sk_error := 0\<rparr>);
     Some \<lparr>tcp_sock = so, tcp_addr = no_address\<rparr> }"

definition tcp_isValid :: "tcp_socket \<Rightarrow> bool" where
  "tcp_isValid s \<longleftrightarrow> sk_fd (tcp_sock s) \<noteq> INVALID_FD"

definition socket_close :: "'w net \<Rightarrow> suil_socket \<Rightarrow> 'w \<Rightarrow> suil_socket \<times> 'w" where
  "socket_close net so w =
     (if sk_fd so \<noteq> INVALID_FD
      then (so\<lparr>sk_fd := -1, sk_error := 0\<rparr>, n_close net (sk_fd so) w) else (so, w))"

definition tcp_close :: "'w net \<Rightarrow> tcp_socket \<Rightarrow> 'w \<Rightarrow> tcp_socket \<times> 'w" where
  "tcp_close net s w =
     (if tcp_isValid s
      then (let (so, w) = socket_close net (tcp_sock s) w in (\<lparr>tcp_sock = so, tcp_addr = no_address\<rparr>, w))
      else (s, w))"

definition tcp_detach :: "tcp_socket \<Rightarrow> tcp_socket \<times> int" where
  "tcp_detach s =
     (\<lparr>tcp_sock = (tcp_sock s)\<lparr>sk_fd := INVALID_FD\<rparr>,
       tcp_addr = (if tcp_isValid s then no_address else tcp_addr s)\<rparr>, sk_fd (tcp_sock s))"

definition tcptune :: "'w net \<Rightarrow> int \<Rightarrow> 'w \<Rightarrow> 'w option" where
  "tcptune net s w =
     (if s < 0 then None
      else
       (let (opt, w) = n_getfl net s w;
            opt = (case opt of Some f \<Rightarrow> f | None \<Rightarrow> 0);
            (ok, w) = n_setfl net s (opt OR O_NONBLOCK) w in
        if \<not> ok then None
        else (let (ok, w) = n_reuseaddr net s w in if ok then Some w else None)))"

text \<open>\<open>connect\<close> as a \<open>co_return\<close> of the descriptor, the error handed to the constructor, and the thread.\<close>

definition tcp_connect ::
    "'w net \<Rightarrow> nat \<Rightarrow> dns_sockaddr \<Rightarrow> nat \<Rightarrow> int \<Rightarrow> 'w \<Rightarrow> (tcp_socket \<times> 'w) option" where
  "tcp_connect net threads addr queueID timeout w =
     (let ret = (\<lambda>fd err tid w. do { s \<leftarrow> tcp_socket_new threads fd err tid; Some (s, w) });
          (s, w) = n_socket net (dns_sa_family addr) w in
      case s of
        Inl e \<Rightarrow> ret (-1) e THREAD_ID_ANY w
      | Inr s \<Rightarrow> do {
          w \<leftarrow> tcptune net s w;
          let (rc, w) = n_connect net s addr w;
          (case rc of
             None \<Rightarrow> ret s 0 queueID w
           | Some e \<Rightarrow>
               if e \<noteq> EINPROGRESS then ret s e queueID w
               else
                (let (deadline, w) = afterd net timeout w;
                     ((ev, e), w) = n_fdwait net s OUT deadline queueID w in
                 if ev \<noteq> esFIRED then ret s e queueID w
                 else
                  (let (err, w) = n_so_error net s w in
                   case err of
                     Inl e \<Rightarrow> ret s e queueID (n_close net s w)
                   | Inr e \<Rightarrow> if e \<noteq> 0 then ret s e queueID (n_close net s w) else ret s 0 queueID w))) })"

subsection \<open>Listeners\<close>

record tcp_listener =
  ln_fd :: int
  ln_port :: int
  ln_error :: int

definition listener :: "int \<Rightarrow> int \<Rightarrow> int \<Rightarrow> tcp_listener" where
  "listener fd port err = \<lparr>ln_fd = fd, ln_port = port, ln_error = err\<rparr>"

definition listener_close :: "'w net \<Rightarrow> tcp_listener \<Rightarrow> 'w \<Rightarrow> tcp_listener \<times> 'w" where
  "listener_close net l w =
     (if ln_fd l \<noteq> INVALID_FD
      then (l\<lparr>ln_fd := INVALID_FD, ln_port := 0\<rparr>, n_shutdown net (ln_fd l) w) else (l, w))"

text \<open>The loop of \<open>acceptOn\<close>; the variable is the listener, and the result the socket accepted.\<close>

definition accept_step ::
    "'w net \<Rightarrow> nat \<Rightarrow> int \<Rightarrow> tcp_listener \<times> 'w \<Rightarrow>
     (tcp_listener \<times> 'w + (tcp_listener \<times> tcp_socket) \<times> 'w) option" where
  "accept_step net tId deadline = (\<lambda>(l, w).
     let sock = \<lparr>tcp_sock = socket0, tcp_addr = no_address\<rparr>; (r, w) = n_accept net (ln_fd l) w in
     case r of
       Inr (fd, addr) \<Rightarrow> do {
         w \<leftarrow> tcptune net fd w;
         Some (Inr ((l\<lparr>ln_error := 0\<rparr>, \<lparr>tcp_sock = socket0\<lparr>sk_fd := fd\<rparr>, tcp_addr = addr\<rparr>), w)) }
     | Inl e \<Rightarrow>
         if e \<noteq> EAGAIN then Some (Inr ((l\<lparr>ln_error := e\<rparr>, sock), w))
         else
          (let ((ev, e), w) = n_fdwait net (ln_fd l) IN deadline tId w in
           Some (if ev \<noteq> esFIRED then Inr ((l\<lparr>ln_error := e\<rparr>, sock), w) else Inl (l, w))))"

definition acceptOn ::
    "'w net \<Rightarrow> nat \<Rightarrow> int \<Rightarrow> tcp_listener \<Rightarrow> 'w \<Rightarrow> ((tcp_listener \<times> tcp_socket) \<times> 'w) option" where
  "acceptOn net tId timeout l w =
     (let (deadline, w) = afterd net timeout w in c_while (accept_step net tId deadline) (l, w))"

definition tcp_listen ::
    "'w net \<Rightarrow> dns_sockaddr \<Rightarrow> int \<Rightarrow> 'w \<Rightarrow> (tcp_listener \<times> 'w) option" where
  "tcp_listen net addr backlog w =
     (let (s, w) = n_socket net (dns_sa_family addr) w in
      case s of
        Inl e \<Rightarrow> Some (listener (-1) 0 (-1), w)
      | Inr s \<Rightarrow> do {
          w \<leftarrow> tcptune net s w;
          let (rc, w) = n_bind net s addr w;
          (case rc of
             Some e \<Rightarrow> Some (listener (-1) 0 e, n_close net (-1) w)
           | None \<Rightarrow>
              (let (rc, w) = n_listen net s backlog w in
               case rc of
                 Some e \<Rightarrow> Some (listener (-1) 0 e, n_close net (-1) w)
               | None \<Rightarrow>
                   if sa_port addr = 0 then
                    (let (name, w) = n_getsockname net s w in
                     case name of
                       Inl e \<Rightarrow> Some (listener (-1) 0 e, n_close net s w)
                     | Inr a \<Rightarrow> Some (listener s (int (sa_port a)) (-1), w))
                   else Some (listener s (int (sa_port addr)) (-1), w))) })"

subsection \<open>Whole transfers\<close>

text \<open>
  What the transfers rely on. The bytes that were sent and the bytes that wait to be received are functions
  of the world; \<open>patience\<close> bounds how often a wait can still fire, so that a peer cannot keep a transfer
  waking up without data for ever.
\<close>

definition transport :: "'w net \<Rightarrow> int \<Rightarrow> ('w \<Rightarrow> bytes) \<Rightarrow> ('w \<Rightarrow> bytes) \<Rightarrow> ('w \<Rightarrow> nat) \<Rightarrow> bool" where
  "transport net fd sent pending patience \<longleftrightarrow>
     (\<forall>w t w'. n_now net w = (t, w') \<longrightarrow> sent w' = sent w \<and> pending w' = pending w) \<and>
     (\<forall>bs w k w'. n_send net fd bs w = (Inr k, w') \<longrightarrow>
        k \<le> length bs \<and> sent w' = sent w @ take k bs \<and> patience w' \<le> patience w) \<and>
     (\<forall>bs w e w'. n_send net fd bs w = (Inl e, w') \<longrightarrow> sent w' = sent w \<and> patience w' \<le> patience w) \<and>
     (\<forall>n w bs w'. n_recv net fd n w = (Inr bs, w') \<longrightarrow>
        length bs \<le> n \<and> pending w = bs @ pending w' \<and> patience w' \<le> patience w) \<and>
     (\<forall>n w e w'. n_recv net fd n w = (Inl e, w') \<longrightarrow> pending w' = pending w \<and> patience w' \<le> patience w) \<and>
     (\<forall>io d t w ev e w'. n_fdwait net fd io d t w = ((ev, e), w') \<longrightarrow>
        sent w' = sent w \<and> pending w' = pending w \<and> (ev = esFIRED \<longrightarrow> patience w' < patience w))"

lemma transport_send:
  assumes "transport net fd sent pending patience"
  shows "n_send net fd bs w = (Inr k, w') \<Longrightarrow> k \<le> length bs \<and> sent w' = sent w @ take k bs \<and> patience w' \<le> patience w"
    and "n_send net fd bs w = (Inl e, w') \<Longrightarrow> sent w' = sent w \<and> patience w' \<le> patience w"
  using assms unfolding transport_def by metis+

lemma transport_recv:
  assumes "transport net fd sent pending patience"
  shows "n_recv net fd n w = (Inr bs, w') \<Longrightarrow> length bs \<le> n \<and> pending w = bs @ pending w' \<and> patience w' \<le> patience w"
    and "n_recv net fd n w = (Inl e, w') \<Longrightarrow> pending w' = pending w \<and> patience w' \<le> patience w"
  using assms unfolding transport_def by metis+

lemma transport_wait:
  assumes "transport net fd sent pending patience" "n_fdwait net fd io d t w = ((ev, e), w')"
  shows "sent w' = sent w \<and> pending w' = pending w \<and> (ev = esFIRED \<longrightarrow> patience w' < patience w)"
  using assms unfolding transport_def by metis

lemma afterd_same:
  assumes "transport net fd sent pending patience" "afterd net timeout w = (d, w')"
  shows "sent w' = sent w \<and> pending w' = pending w"
proof -
  obtain t w1 where n: "n_now net w = (t, w1)" by fastforce
  then have "sent w1 = sent w \<and> pending w1 = pending w" using assms(1) unfolding transport_def by metis
  then show ?thesis using assms(2) n by (auto simp: afterd_def split: if_splits)
qed

lemma set_error_fd [simp]: "sk_fd (set_error e so) = sk_fd so" "sk_fd (wait_error ev e so) = sk_fd so"
  by (simp_all add: set_error_def wait_error_def)

text \<open>The loop of \<open>sendAll\<close>; the socket changes only when it ends.\<close>

definition sending ::
    "'w net \<Rightarrow> ('w \<Rightarrow> bytes) \<Rightarrow> ('w \<Rightarrow> bytes) \<Rightarrow> ('w \<Rightarrow> nat) \<Rightarrow> bytes \<Rightarrow> suil_socket \<Rightarrow> bytes \<Rightarrow>
     suil_socket \<times> nat \<times> 'w \<Rightarrow> bool" where
  "sending net sent pending patience buf so0 sent0 = (\<lambda>(so, n, w).
     transport net (sk_fd so0) sent pending patience \<and> so = so0 \<and> n \<le> length buf \<and>
     (n = length buf \<longrightarrow> buf = []) \<and> sent w = sent0 @ take n buf)"

definition sent_all ::
    "('w \<Rightarrow> bytes) \<Rightarrow> bytes \<Rightarrow> suil_socket \<Rightarrow> bytes \<Rightarrow> (suil_socket \<times> int) \<times> 'w \<Rightarrow> bool" where
  "sent_all sent buf so0 sent0 = (\<lambda>((so, r), w).
     \<exists>k \<le> length buf. sent w = sent0 @ take k buf \<and> (r = -1 \<or> r = int k) \<and>
       sk_fd so = sk_fd so0 \<and> (r = int (length buf) \<and> buf \<noteq> [] \<longrightarrow> so = so0))"

interpretation send_all: bounded_loop "sendAll_step net buf deadline" "sending net sent pending patience buf so0 sent0"
  "\<lambda>(so, n, w). length buf - n + patience w" "sent_all sent buf so0 sent0"
proof -
  have all: "\<exists>x. sendAll_step net buf deadline (so, n, w) = Some x \<and>
      (case x of
         Inl s' \<Rightarrow> sending net sent pending patience buf so0 sent0 s' \<and>
           (case s' of (so, n, w) \<Rightarrow> length buf - n + patience w) < length buf - n + patience w
       | Inr r \<Rightarrow> sent_all sent buf so0 sent0 r)"
    if inv: "sending net sent pending patience buf so0 sent0 (so, n, w)" for so n w
  proof -
    have tr: "transport net (sk_fd so0) sent pending patience" and so: "so = so0" and n: "n \<le> length buf" "n = length buf \<longrightarrow> buf = []"
      and s: "sent w = sent0 @ take n buf" using inv by (simp_all add: sending_def)
    obtain r w1 where snd: "n_send net (sk_fd so0) (drop n buf) w = (r, w1)" by fastforce
    show ?thesis
    proof (cases r)
      case (Inr k)
      note k = transport_send(1) [OF tr snd [unfolded Inr]]
      then have s1: "sent w1 = sent0 @ take (n + k) buf" using s by (simp add: take_add)
      show ?thesis
      proof (cases "k = 0")
        case True
        then show ?thesis using s1 snd Inr n so
          by (auto simp: sendAll_step_def sent_all_def set_error_def intro!: exI [of _ n])
      next
        case False
        then show ?thesis using s1 snd Inr n so k tr
          by (auto simp: sendAll_step_def sent_all_def sending_def intro!: exI [of _ "n + k"])
      qed
    next
      case (Inl e)
      note e = transport_send(2) [OF tr snd [unfolded Inl]]
      obtain ev e' w2 where wt: "n_fdwait net (sk_fd so0) OUT deadline (sk_tID so0) w1 = ((ev, e'), w2)"
        using prod_cases3 by (metis surj_pair)
      note wt' = transport_wait [OF tr wt]
      show ?thesis using snd Inl e wt wt' s so n tr
        by (auto simp: sendAll_step_def sent_all_def sending_def intro!: exI [of _ n])
    qed
  qed
  show "bounded_loop (sendAll_step net buf deadline) (sending net sent pending patience buf so0 sent0)
      (\<lambda>(so, n, w). length buf - n + patience w) (sent_all sent buf so0 sent0)"
    by unfold_locales (use all in \<open>force split: prod.splits\<close>)+
qed

lemma int32_small: "0 \<le> z + 2 ^ 31 \<Longrightarrow> z < 2 ^ 31 \<Longrightarrow> int32 z = z"
  by (simp add: int32_def mod_pos_pos_trivial)

text \<open>C13: \<open>sendAll\<close> on a socket whose peer is not awake for ever returns. What it has sent is a beginning of
  the buffer, however the network cut it up; the result is \<open>-1\<close> or the number of bytes sent; and when that
  is the size of the buffer, all of it has been sent, once and in order, and the socket shows no error.\<close>

theorem sendAll_correct:
  assumes "transport net (sk_fd so) sent pending patience" "length buf < 2 ^ 31"
  shows "\<exists>so' r w' k. sendAll net buf timeout so w = Some ((so', r), w') \<and> k \<le> length buf \<and>
    sent w' = sent w @ take k buf \<and> (r = -1 \<or> r = int k) \<and>
    (r = int (length buf) \<and> buf \<noteq> [] \<longrightarrow> so' = so)"
proof -
  obtain d w1 where d: "afterd net timeout w = (d, w1)" by fastforce
  have "sending net sent pending patience buf so (sent w) (so, 0, w1)"
    using assms(1) afterd_same [OF assms(1) d] by (simp add: sending_def)
  from send_all.returns [OF this, of d] obtain so' r w' where
    r: "c_while (sendAll_step net buf d) (so, 0, w1) = Some ((so', r), w')"
      "sent_all sent buf so (sent w) ((so', r), w')" by (metis surj_pair)
  then obtain k where k: "k \<le> length buf" "sent w' = sent w @ take k buf" "r = -1 \<or> r = int k"
      "r = int (length buf) \<and> buf \<noteq> [] \<longrightarrow> so' = so"
    by (auto simp: sent_all_def)
  then have "int32 r = r" using assms(2) by (auto simp: int32_small)
  then have "sendAll net buf timeout so w = Some ((so', r), w')" using d r(1) by (simp add: sendAll_def)
  with k show ?thesis by blast
qed

text \<open>The loop of \<open>receiveAll\<close>.\<close>

definition receiving ::
    "'w net \<Rightarrow> ('w \<Rightarrow> bytes) \<Rightarrow> ('w \<Rightarrow> bytes) \<Rightarrow> ('w \<Rightarrow> nat) \<Rightarrow> bytes \<Rightarrow> suil_socket \<Rightarrow> bytes \<Rightarrow>
     suil_socket \<times> bytes \<times> nat \<times> 'w \<Rightarrow> bool" where
  "receiving net sent pending patience buf0 so0 stream = (\<lambda>(so, buf, n, w).
     transport net (sk_fd so0) sent pending patience \<and> so = so0 \<and> n \<le> length buf0 \<and>
     (n = length buf0 \<longrightarrow> buf0 = []) \<and>
     (\<exists>got. length got = n \<and> buf = got @ drop n buf0 \<and> stream = got @ pending w))"

definition received_all ::
    "('w \<Rightarrow> bytes) \<Rightarrow> bytes \<Rightarrow> suil_socket \<Rightarrow> bytes \<Rightarrow> (suil_socket \<times> bytes \<times> int) \<times> 'w \<Rightarrow> bool" where
  "received_all pending buf0 so0 stream = (\<lambda>((so, buf, r), w).
     \<exists>got. length got \<le> length buf0 \<and> buf = got @ drop (length got) buf0 \<and> stream = got @ pending w \<and>
       (r = -1 \<or> r = int (length got)) \<and> (r = int (length buf0) \<and> buf0 \<noteq> [] \<longrightarrow> so = so0))"

interpretation receive_all: bounded_loop "receiveAll_step net deadline"
  "receiving net sent pending patience buf0 so0 stream"
  "\<lambda>(so, buf, n, w). length buf0 - n + patience w" "received_all pending buf0 so0 stream"
proof -
  have all: "\<exists>x. receiveAll_step net deadline (so, buf, n, w) = Some x \<and>
      (case x of
         Inl s' \<Rightarrow> receiving net sent pending patience buf0 so0 stream s' \<and>
           (case s' of (so, buf, n, w) \<Rightarrow> length buf0 - n + patience w) < length buf0 - n + patience w
       | Inr r \<Rightarrow> received_all pending buf0 so0 stream r)"
    if inv: "receiving net sent pending patience buf0 so0 stream (so, buf, n, w)" for so buf n w
  proof -
    obtain got where tr: "transport net (sk_fd so0) sent pending patience" and so: "so = so0"
      and n: "n \<le> length buf0" "n = length buf0 \<longrightarrow> buf0 = []"
      and got: "length got = n" "buf = got @ drop n buf0" "stream = got @ pending w"
      using inv by (auto simp: receiving_def)
    have len: "length buf = length buf0" using got n by simp
    obtain r w1 where rcv: "n_recv net (sk_fd so0) (length buf0 - n) w = (r, w1)" by fastforce
    show ?thesis
    proof (cases r)
      case (Inr bs)
      note bs = transport_recv(1) [OF tr rcv [unfolded Inr]]
      show ?thesis
      proof (cases "bs = []")
        case True
        then show ?thesis using bs rcv Inr n so got len
          by (auto simp: receiveAll_step_def received_all_def intro!: exI [of _ got])
      next
        case False
        have "n < length buf0" using bs False n by (cases "n = length buf0") auto
        have wr: "wr_mem buf n bs = Some ((got @ bs) @ drop (n + length bs) buf0)"
        proof -
          have "n + length bs \<le> length buf" using bs n len by linarith
          then have "wr_mem buf n bs = Some (take n buf @ bs @ drop (n + length bs) buf)" by simp
          moreover have "take n buf = got" "drop (n + length bs) buf = drop (n + length bs) buf0"
            using got(1) unfolding got(2) by (simp_all add: add.commute)
          ultimately show ?thesis by simp
        qed
        moreover have "length buf0 - (n + length bs) + patience w1 < length buf0 - n + patience w"
        proof -
          have "0 < length bs" using False by simp
          then show ?thesis using bs \<open>n < length buf0\<close> by linarith
        qed
        ultimately show ?thesis using bs rcv Inr n so got len tr False
          by (auto simp: receiveAll_step_def received_all_def receiving_def intro!: exI [of _ "got @ bs"])
      qed
    next
      case (Inl e)
      note e = transport_recv(2) [OF tr rcv [unfolded Inl]]
      obtain ev e' w2 where wt: "n_fdwait net (sk_fd so0) IN deadline (sk_tID so0) w1 = ((ev, e'), w2)"
        using prod_cases3 by (metis surj_pair)
      note wt' = transport_wait [OF tr wt]
      show ?thesis using rcv Inl e wt wt' so n tr got len
        by (auto simp: receiveAll_step_def received_all_def receiving_def intro!: exI [of _ got])
    qed
  qed
  show "bounded_loop (receiveAll_step net deadline) (receiving net sent pending patience buf0 so0 stream)
      (\<lambda>(so, buf, n, w). length buf0 - n + patience w) (received_all pending buf0 so0 stream)"
    by unfold_locales (use all in \<open>force split: prod.splits\<close>)+
qed

text \<open>C14: \<open>receiveAll\<close> likewise. The bytes it took off the stream are at the start of the buffer, the rest of
  the buffer is as it was, and the result is their number or \<open>-1\<close>; a result of the size of the buffer means
  that the buffer is full of the next bytes of the stream, and the socket shows no error.\<close>

theorem receiveAll_correct:
  assumes "transport net (sk_fd so) sent pending patience" "length buf < 2 ^ 31"
  shows "\<exists>so' r w' got. receiveAll net buf timeout so w = Some ((so', got @ drop (length got) buf, r), w') \<and>
    length got \<le> length buf \<and> pending w = got @ pending w' \<and> (r = -1 \<or> r = int (length got)) \<and>
    (r = int (length buf) \<and> buf \<noteq> [] \<longrightarrow> so' = so)"
proof -
  obtain d w1 where d: "afterd net timeout w = (d, w1)" by fastforce
  have "receiving net sent pending patience buf so (pending w) (so, buf, 0, w1)"
    using assms(1) afterd_same [OF assms(1) d] by (simp add: receiving_def)
  from receive_all.returns [OF this, of d] obtain so' buf' r w' where
    r: "c_while (receiveAll_step net d) (so, buf, 0, w1) = Some ((so', buf', r), w')"
      "received_all pending buf so (pending w) ((so', buf', r), w')" by (metis surj_pair)
  then obtain got where got: "length got \<le> length buf" "buf' = got @ drop (length got) buf"
      "pending w = got @ pending w'" "r = -1 \<or> r = int (length got)"
      "r = int (length buf) \<and> buf \<noteq> [] \<longrightarrow> so' = so"
    by (auto simp: received_all_def)
  then have "int32 r = r" using assms(2) by (auto simp: int32_small)
  then have "receiveAll net buf timeout so w = Some ((so', buf', r), w')"
    using d r(1) by (simp add: receiveAll_def)
  with got show ?thesis by blast
qed

text \<open>Both on a transport of segments: the world is the sizes of the segments still to come (\<open>0\<close> makes a call
  wait), the bytes to be received, and the bytes sent. A wait takes a \<open>0\<close> away.\<close>

type_synonym wire = "nat list \<times> bytes \<times> bytes"

definition wire_net :: "wire net" where
  "wire_net = \<lparr>
     n_now = (\<lambda>w. (0, w)),
     n_fdwait = (\<lambda>fd io d t (segs, p, s).
       if segs \<noteq> [] then ((esFIRED, 0), (tl segs, p, s)) else ((esTIMEOUT, 0), (segs, p, s))),
     n_send = (\<lambda>fd bs (segs, p, s). case segs of
         0 # _ \<Rightarrow> (Inl EAGAIN, (segs, p, s))
       | k # ks \<Rightarrow> (Inr (min k (length bs)), (ks, p, s @ take (min k (length bs)) bs))
       | [] \<Rightarrow> (Inl EAGAIN, (segs, p, s))),
     n_recv = (\<lambda>fd n (segs, p, s). case segs of
         0 # _ \<Rightarrow> (Inl EAGAIN, (segs, p, s))
       | k # ks \<Rightarrow> (Inr (take (min k n) p), (ks, drop (min k n) p, s))
       | [] \<Rightarrow> (Inl EAGAIN, (segs, p, s))),
     n_read = (\<lambda>fd n w. (Inl EAGAIN, w)), n_write = (\<lambda>fd bs w. (Inl EAGAIN, w)),
     n_getfl = (\<lambda>fd w. (Some 0, w)), n_setfl = (\<lambda>fd f w. (True, w)), n_reuseaddr = (\<lambda>fd w. (True, w)),
     n_socket = (\<lambda>af w. (Inr 3, w)), n_connect = (\<lambda>fd a w. (None, w)), n_so_error = (\<lambda>fd w. (Inr 0, w)),
     n_accept = (\<lambda>fd w. (Inl EAGAIN, w)), n_bind = (\<lambda>fd a w. (None, w)), n_listen = (\<lambda>fd b w. (None, w)),
     n_getsockname = (\<lambda>fd w. (Inl EAGAIN, w)), n_shutdown = (\<lambda>fd w. w), n_close = (\<lambda>fd w. w)\<rparr>"

lemma wire_transport: "transport wire_net fd (snd \<circ> snd) (fst \<circ> snd) (length \<circ> fst)"
  by (auto simp: transport_def wire_net_def split: list.splits nat.splits if_splits)

theorem sendAll_correct_witness:
  "\<exists>so' r w' k. sendAll wire_net [1, 2, 3, 4, 5] 0 (socket0\<lparr>sk_fd := 3\<rparr>) ([2, 0, 9], [], [7]) = Some ((so', r), w') \<and>
     k \<le> length [1, 2, 3, 4, 5 :: byte] \<and> snd (snd w') = [7] @ take k [1, 2, 3, 4, 5]"
  using sendAll_correct [OF wire_transport, where buf = "[1, 2, 3, 4, 5]" and so = "socket0\<lparr>sk_fd := 3\<rparr>"
      and timeout = 0 and w = "([2, 0, 9], [], [7])"]
  by (simp del: length_Cons) blast

theorem receiveAll_correct_witness:
  "\<exists>so' r w' got. receiveAll wire_net [0, 0, 0] 0 (socket0\<lparr>sk_fd := 3\<rparr>) ([2, 0, 9], [1, 2, 3, 4], []) =
       Some ((so', got @ drop (length got) [0, 0, 0], r), w') \<and>
     length got \<le> 3 \<and> [1, 2, 3, 4] = got @ fst (snd w')"
  using receiveAll_correct [OF wire_transport, where buf = "[0, 0, 0]" and so = "socket0\<lparr>sk_fd := 3\<rparr>"
      and timeout = 0 and w = "([2, 0, 9], [1, 2, 3, 4], [])"]
  by auto

lemma sendAll_example:
  "sendAll wire_net [1, 2, 3, 4, 5] 0 (socket0\<lparr>sk_fd := 3\<rparr>) ([2, 0, 9], [], [7]) =
     Some ((socket0\<lparr>sk_fd := 3\<rparr>, 5), ([], [], [7, 1, 2, 3, 4, 5]))"
  by (simp add: sendAll_def afterd_def c_while.simps sendAll_step_def wire_net_def c_defs socket0_def int32_def)

text \<open>An empty buffer is reported as a connection that was reset.\<close>

lemma sendAll_empty:
  assumes "n_send net (sk_fd so) [] w = (Inr 0, w')" "timeout \<le> 0"
  shows "sendAll net [] timeout so w = Some ((so\<lparr>sk_error := 104\<rparr>, 0), w')"
proof -
  have "sendAll_step net [] (-1) (so, 0, w) = Some (Inr ((so\<lparr>sk_error := 104\<rparr>, 0), w'))"
    using assms(1) by (simp add: sendAll_step_def set_error_def int16_def c_defs)
  then show ?thesis using assms(2) by (simp add: sendAll_def afterd_def c_while_stop int32_def)
qed

subsection \<open>A refused connection\<close>

text \<open>C16: \<open>TcpSocket::connect\<close> to a peer that refuses the connection, as the socket reports after the wait,
  closes the descriptor and returns a socket that is valid, shows no error and still has it: when that
  socket is closed, the descriptor is closed a second time.\<close>

theorem tcp_connect_refused:
  assumes "n_socket net (dns_sa_family addr) w = (Inr s, w1)" "tcptune net s w1 = Some w2"
    and "n_connect net s addr w2 = (Some EINPROGRESS, w3)" "afterd net timeout w3 = (d, w4)"
    and "n_fdwait net s OUT d tid w4 = ((esFIRED, e0), w5)"
    and "n_so_error net s w5 = (Inr e, w6)" "e \<noteq> 0" "tid = THREAD_ID_ANY \<or> tid < threads"
  shows "\<exists>sock. tcp_connect net threads addr tid timeout w = Some (sock, n_close net s w6) \<and>
    tcp_isValid sock \<and> sk_error (tcp_sock sock) = 0 \<and>
    snd (tcp_close net sock (n_close net s w6)) = n_close net s (n_close net s w6)"
proof -
  let ?so = "socket0\<lparr>sk_fd := s, sk_error := 0, sk_tID := tid\<rparr>"
  have "0 \<le> s" using assms(2) by (simp add: tcptune_def split: if_splits)
  moreover have "tcp_connect net threads addr tid timeout w =
      Some (\<lparr>tcp_sock = ?so, tcp_addr = no_address\<rparr>, n_close net s w6)"
    using assms by (simp add: tcp_connect_def tcp_socket_new_def bindToThread_def Let_def)
  ultimately show ?thesis
    by (auto simp: tcp_isValid_def tcp_close_def socket_close_def c_defs)
qed


text \<open>The world counts how often descriptor 3 is closed.\<close>

definition refusing_net :: "nat net" where
  "refusing_net = \<lparr>
     n_now = (\<lambda>w. (0, w)), n_fdwait = (\<lambda>fd io d t w. ((esFIRED, 0), w)),
     n_send = (\<lambda>fd bs w. (Inl EPIPE, w)), n_recv = (\<lambda>fd n w. (Inl EPIPE, w)),
     n_read = (\<lambda>fd n w. (Inl EPIPE, w)), n_write = (\<lambda>fd bs w. (Inl EPIPE, w)),
     n_getfl = (\<lambda>fd w. (Some 0, w)), n_setfl = (\<lambda>fd f w. (True, w)), n_reuseaddr = (\<lambda>fd w. (True, w)),
     n_socket = (\<lambda>af w. (Inr 3, w)), n_connect = (\<lambda>fd a w. (Some EINPROGRESS, w)),
     n_so_error = (\<lambda>fd w. (Inr 111, w)), n_accept = (\<lambda>fd w. (Inl EAGAIN, w)), n_bind = (\<lambda>fd a w. (None, w)),
     n_listen = (\<lambda>fd b w. (None, w)), n_getsockname = (\<lambda>fd w. (Inl EAGAIN, w)), n_shutdown = (\<lambda>fd w. w),
     n_close = (\<lambda>fd w. if fd = 3 then w + 1 else w)\<rparr>"

theorem tcp_connect_refused_witness:
  "\<exists>sock. tcp_connect refusing_net 4 (Sin 80 1) THREAD_ID_ANY 0 0 = Some (sock, 1) \<and> tcp_isValid sock \<and>
     snd (tcp_close refusing_net sock 1) = 2"
proof -
  have t: "tcptune refusing_net 3 0 = Some 0" by (simp add: tcptune_def refusing_net_def)
  show ?thesis
    using tcp_connect_refused [where net = refusing_net and addr = "Sin 80 1" and s = 3 and ?w1.0 = 0 and ?w2.0 = 0
        and ?w3.0 = 0 and ?w4.0 = 0 and ?w5.0 = 0 and ?w6.0 = 0 and w = 0 and timeout = 0 and tid = THREAD_ID_ANY
        and threads = 4 and e = 111 and ?e0.0 = 0 and d = "-1", OF _ t]
    by (auto simp: refusing_net_def afterd_def)
qed

text \<open>A listener that could not be bound leaves its descriptor open: \<open>close (-1)\<close> is called in its place.\<close>

lemma tcp_listen_leaks:
  assumes "n_socket net (dns_sa_family addr) w = (Inr s, w1)" "tcptune net s w1 = Some w2"
    and "n_bind net s addr w2 = (Some e, w3)"
  shows "tcp_listen net addr backlog w = Some (listener (-1) 0 e, n_close net (-1) w3)"
  using assms by (simp add: tcp_listen_def)

text \<open>\<open>close\<close> of a listener shuts its descriptor down and forgets it.\<close>

lemma listener_close_leaks:
  "ln_fd l \<noteq> INVALID_FD \<Longrightarrow>
   listener_close net l w = (l\<lparr>ln_fd := INVALID_FD, ln_port := 0\<rparr>, n_shutdown net (ln_fd l) w)"
  by (simp add: listener_close_def)

end
