(* ===== verification/Tasks.thy ===== *)
theory Tasks
  imports Timers
begin

section \<open>The scheduler, and waiting for tasks\<close>

text \<open>
  \<open>scheduler.cpp\<close>: which thread an event, a delay or a coroutine goes to. \<open>sync.cpp\<close>: the event a thread outside
  the scheduler waits on. \<open>scope.hpp\<close>: \<open>AsyncScope\<close>, which a coroutine joins to wait for tasks. \<open>fdwait.cpp\<close>: what
  moving an event keeps. The threads are those of \<open>Timers\<close>; starting them is left out.
\<close>

subsection \<open>The scheduler\<close>

definition MAXIMUM_CONCURRENCY :: nat where [c_defs]: "MAXIMUM_CONCURRENCY = 64"
definition ANY_THREAD :: nat where [c_defs]: "ANY_THREAD = 65535"
definition UINT64_MAX :: nat where [c_defs]: "UINT64_MAX = 2 ^ 64 - 1"

text \<open>The number of threads for an argument of \<open>init\<close>; \<open>_threadCount\<close> has 16 bits.\<close>

definition thread_count :: "nat \<Rightarrow> nat \<Rightarrow> nat option" where
  "thread_count concurrency threadCount =
     (if concurrency \<ge> threadCount
      then Some (min MAXIMUM_CONCURRENCY ((if threadCount = 0 then concurrency else threadCount) mod 65536))
      else None)"

fun minLoad_loop :: "nat \<Rightarrow> nat \<Rightarrow> nat \<Rightarrow> nat list \<Rightarrow> nat" where
  "minLoad_loop i minLoad tid [] = tid"
| "minLoad_loop i minLoad tid (load # loads) =
     (if load = 0 then i
      else if load < minLoad then minLoad_loop (i + 1) load i loads
      else minLoad_loop (i + 1) minLoad tid loads)"

definition minLoadSchedule :: "'x thread list \<Rightarrow> nat" where
  "minLoadSchedule threads = minLoad_loop 0 UINT64_MAX 0 (map th_inflight threads)"

record 'x scheduler =
  s_threads :: "'x thread list"
  s_totalScheduled :: nat

text \<open>The three \<open>schedule\<close> functions share their frame; \<open>add\<close> is what the thread does.\<close>

definition schedule_on ::
    "('x thread \<Rightarrow> 'x thread option) \<Rightarrow> nat \<Rightarrow> 'x scheduler \<Rightarrow> 'x scheduler option" where
  "schedule_on add tid s =
     (let tid = (if tid = ANY_THREAD then minLoadSchedule (s_threads s) else tid) in
      if tid < length (s_threads s) then do {
        th \<leftarrow> add (s_threads s ! tid);
        Some (s\<lparr>s_threads := (s_threads s)[tid := th],
                s_totalScheduled := (s_totalScheduled s + 1) mod 2 ^ 64\<rparr>) }
      else None)"

text \<open>The result of \<open>Thread::add\<close> is not looked at.\<close>

definition schedule_event ::
    "(ctl_op \<Rightarrow> nat \<Rightarrow> nat) \<Rightarrow> nat \<Rightarrow> nat \<Rightarrow> 'x scheduler \<Rightarrow> 'x scheduler option" where
  "schedule_event epoll_ctl e = schedule_on (\<lambda>th. map_option fst (add_event epoll_ctl e th))"

definition schedule_delay :: "nat \<Rightarrow> nat \<Rightarrow> 'x scheduler \<Rightarrow> 'x scheduler option" where
  "schedule_delay d = schedule_on (add_delay d)"

text \<open>\<open>enqueue\<close> puts a coroutine into the queue of the thread.\<close>

definition schedule_coroutine ::
    "('x thread \<Rightarrow> 'x thread) \<Rightarrow> nat \<Rightarrow> 'x scheduler \<Rightarrow> 'x scheduler option" where
  "schedule_coroutine enqueue = schedule_on (\<lambda>th. Some (record_queued (enqueue th)))"

lemma minLoad_loop_least:
  assumes "\<forall>l \<in> set loads. l < 2 ^ 64"
    and "seen \<noteq> [] \<Longrightarrow> tid < length seen \<and> minLoad = seen ! tid \<and> (\<forall>l \<in> set seen. minLoad \<le> l)"
    and "seen = [] \<Longrightarrow> minLoad = UINT64_MAX \<and> tid = 0" "seen @ loads \<noteq> []"
  shows "minLoad_loop (length seen) minLoad tid loads < length (seen @ loads) \<and>
    (\<forall>l \<in> set (seen @ loads). (seen @ loads) ! minLoad_loop (length seen) minLoad tid loads \<le> l)"
  using assms
proof (induction loads arbitrary: seen minLoad tid)
  case Nil
  then show ?case by auto
next
  case (Cons load loads)
  show ?case
  proof (cases "load = 0")
    case True
    then show ?thesis by (simp add: nth_append)
  next
    case False
    note IH = Cons.IH [of "seen @ [load]"]
    show ?thesis
    proof (cases "load < minLoad \<or> seen = []")
      case True
      show ?thesis
      proof (cases "load < minLoad")
        case True
        have "\<forall>l \<in> set seen. load \<le> l" using Cons.prems(2) True by (cases "seen = []") fastforce+
        with True False IH [of "length seen" load] Cons.prems(1) show ?thesis by (simp add: nth_append)
      next
        case max: False
        then have "seen = []" "load = UINT64_MAX" "minLoad = UINT64_MAX" "tid = 0"
          using True Cons.prems(1,3) by (auto simp: c_defs)
        then show ?thesis using IH [of 0 UINT64_MAX] False Cons.prems(1) by simp
      qed
    next
      case ge: False
      then have "tid < length seen \<and> minLoad = seen ! tid \<and> (\<forall>l \<in> set seen. minLoad \<le> l)"
        using Cons.prems(2) by blast
      then have m: "tid < length seen" "minLoad = seen ! tid" "\<forall>l \<in> set seen. minLoad \<le> l" by blast+
      have "minLoad_loop (Suc (length seen)) minLoad tid loads < length ((seen @ [load]) @ loads) \<and>
        (\<forall>l \<in> set ((seen @ [load]) @ loads).
           ((seen @ [load]) @ loads) ! minLoad_loop (Suc (length seen)) minLoad tid loads \<le> l)"
        using IH [of tid minLoad] m ge Cons.prems(1) by (simp add: nth_append)
      then show ?thesis using ge False by simp
    qed
  qed
qed

lemma minLoadSchedule_least:
  assumes "threads \<noteq> []" "\<forall>th \<in> set threads. th_inflight th < 2 ^ 64"
  shows "minLoadSchedule threads < length threads \<and>
    (\<forall>th \<in> set threads. th_inflight (threads ! minLoadSchedule threads) \<le> th_inflight th)"
  using minLoad_loop_least [of "map th_inflight threads" "[]" 0 UINT64_MAX] assms
  by (auto simp: minLoadSchedule_def)

subsection \<open>Waiting outside the scheduler\<close>

text \<open>\<open>lightweight_manual_reset_event::wait\<close>: \<open>load\<close> reads the value, \<open>futex\<close> waits for it to change from \<open>0\<close>
  and returns an error number or \<open>0\<close>.\<close>

definition sync_wait_step ::
    "('w \<Rightarrow> int \<times> 'w) \<Rightarrow> ('w \<Rightarrow> int \<times> 'w) \<Rightarrow> 'w \<Rightarrow> ('w + 'w) option" where
  "sync_wait_step load futex w =
     (let (result, w) = futex w in
      if result = 11 then Some (Inr w)
      else (let (oldValue, w) = load w in Some (if oldValue = 0 then Inl w else Inr w)))"

definition sync_wait :: "('w \<Rightarrow> int \<times> 'w) \<Rightarrow> ('w \<Rightarrow> int \<times> 'w) \<Rightarrow> 'w \<Rightarrow> 'w option" where
  "sync_wait load futex w =
     (let (oldValue, w) = load w in if oldValue = 0 then c_while (sync_wait_step load futex) w else Some w)"

text \<open>When the system reports \<open>EAGAIN\<close> only for a value that is not \<open>0\<close>, and the event is not reset
  meanwhile, the wait ends only after the event has been set, spurious wake-ups or not.\<close>

lemma sync_wait_set:
  assumes "\<And>w v w'. load w = (v, w') \<Longrightarrow> v \<noteq> 0 \<Longrightarrow> was_set w'"
    and "\<And>w w'. futex w = (11, w') \<Longrightarrow> was_set w'"
    and "sync_wait load futex w = Some w'"
  shows "was_set w'"
proof (cases "fst (load w) = 0")
  case True
  then have "c_while (sync_wait_step load futex) (snd (load w)) = Some w'"
    using assms(3) by (simp add: sync_wait_def split: prod.splits)
  then show ?thesis
    by (rule c_while_invariant [where I = "\<lambda>_. True" and Q = was_set])
       (auto simp: sync_wait_step_def Let_def split: prod.splits if_splits intro: assms(1,2))
next
  case False
  then show ?thesis using assms(1) [of w] assms(3) by (auto simp: sync_wait_def split: prod.splits)
qed

subsection \<open>Joining a scope\<close>

text \<open>
  \<open>_count\<close>, a \<open>size_t\<close> that does not overflow, starts at 1, for the join itself. \<open>sc_running\<close> counts the tasks that are running, and is not in the
  code. A task is spawned before the scope is joined, or by a task of the scope; so \<open>_count\<close> does not fall to 0
  between the two steps of \<open>on_work_started\<close>, which are one here. The join is two steps: it stores the
  continuation, then gives up its count.
\<close>

datatype join_pc = Not_joined | Join_stored | Join_suspended | Joined

record async_scope =
  sc_count :: nat
  sc_continuation :: bool
  sc_running :: nat
  sc_join :: join_pc

definition async_scope0 :: async_scope where
  "async_scope0 = \<lparr>sc_count = 1, sc_continuation = False, sc_running = 0, sc_join = Not_joined\<rparr>"

definition on_work_started :: "async_scope \<Rightarrow> async_scope option" where
  "on_work_started s =
     (if sc_count s \<noteq> 0 then Some (s\<lparr>sc_count := sc_count s + 1, sc_running := sc_running s + 1\<rparr>) else None)"

text \<open>The result tells whether the continuation is resumed; a null handle cannot be.\<close>

definition on_work_finished :: "async_scope \<Rightarrow> (async_scope \<times> bool) option" where
  "on_work_finished s =
     (let s' = s\<lparr>sc_count := sz_sub (sc_count s) 1, sc_running := sc_running s - 1\<rparr> in
      if sc_count s = 1
      then (if sc_continuation s then Some (s'\<lparr>sc_join := Joined\<rparr>, True) else None)
      else Some (s', False))"

definition join_begin :: "async_scope \<Rightarrow> (async_scope \<times> bool) option" where
  "join_begin s =
     (if sc_join s \<noteq> Not_joined then None
      else if sc_count s = 0 then Some (s\<lparr>sc_join := Joined\<rparr>, True)
      else Some (s\<lparr>sc_continuation := True, sc_join := Join_stored\<rparr>, False))"

definition join_suspend :: "async_scope \<Rightarrow> (async_scope \<times> bool) option" where
  "join_suspend s =
     (if sc_join s \<noteq> Join_stored then None
      else
       (let s' = s\<lparr>sc_count := sz_sub (sc_count s) 1\<rparr> in
        if sc_count s > 1 then Some (s'\<lparr>sc_join := Join_suspended\<rparr>, False)
        else Some (s'\<lparr>sc_join := Joined\<rparr>, True)))"

text \<open>Runs, with the number of times that the joining coroutine went on.\<close>

inductive scope_run :: "async_scope \<Rightarrow> nat \<Rightarrow> bool" where
  start: "scope_run async_scope0 0"
| spawn: "scope_run s n \<Longrightarrow> sc_join s = Not_joined \<or> sc_running s > 0 \<Longrightarrow>
    on_work_started s = Some s' \<Longrightarrow> scope_run s' n"
| finish: "scope_run s n \<Longrightarrow> sc_running s > 0 \<Longrightarrow> on_work_finished s = Some (s', r) \<Longrightarrow>
    scope_run s' (n + of_bool r)"
| join: "scope_run s n \<Longrightarrow> join_begin s = Some (s', r) \<Longrightarrow> scope_run s' (n + of_bool r)"
| suspend: "scope_run s n \<Longrightarrow> join_suspend s = Some (s', r) \<Longrightarrow> scope_run s' (n + of_bool r)"

definition scope_inv :: "async_scope \<Rightarrow> nat \<Rightarrow> bool" where
  "scope_inv s n \<longleftrightarrow>
     sc_count s = sc_running s + of_bool (sc_join s = Not_joined \<or> sc_join s = Join_stored) \<and>
     sc_continuation s = (sc_join s \<noteq> Not_joined) \<and>
     (sc_join s = Join_suspended \<longrightarrow> sc_running s > 0) \<and> (sc_join s = Joined \<longrightarrow> sc_running s = 0) \<and>
     n = of_bool (sc_join s = Joined)"

lemma scope_inv_finish:
  assumes "scope_inv s n" "sc_running s > 0" "on_work_finished s = Some (s', r)"
  shows "scope_inv s' (n + of_bool r)"
proof -
  have c: "sc_count s = sc_running s + of_bool (sc_join s = Not_joined \<or> sc_join s = Join_stored)"
    using assms(1) by (simp add: scope_inv_def)
  show ?thesis
  proof (cases "sc_count s = 1")
    case True
    then have "s' = s\<lparr>sc_count := 0, sc_running := 0, sc_join := Joined\<rparr>" "r" "sc_continuation s"
      using assms(2,3) c by (auto simp: on_work_finished_def Let_def split: if_splits)
    then show ?thesis using assms c True by (cases "sc_join s") (simp_all add: scope_inv_def)
  next
    case False
    then have "s' = s\<lparr>sc_count := sc_count s - 1, sc_running := sc_running s - 1\<rparr>" "\<not> r"
      using assms(2,3) c by (auto simp: on_work_finished_def Let_def)
    then show ?thesis using assms c False by (cases "sc_join s") (simp_all add: scope_inv_def)
  qed
qed

lemma scope_inv_suspend:
  assumes "scope_inv s n" "join_suspend s = Some (s', r)"
  shows "scope_inv s' (n + of_bool r)"
proof -
  have j: "sc_join s = Join_stored" using assms(2) by (simp add: join_suspend_def Let_def split: if_splits)
  then have c: "sc_count s = sc_running s + 1" using assms(1) by (simp add: scope_inv_def)
  then show ?thesis using assms j by (auto simp: join_suspend_def scope_inv_def Let_def split: if_splits)
qed

lemma scope_run_inv: "scope_run s n \<Longrightarrow> scope_inv s n"
proof (induction rule: scope_run.induct)
  case start
  show ?case by (simp add: scope_inv_def async_scope0_def)
next
  case (spawn s n s')
  then show ?case by (cases "sc_join s") (auto simp: scope_inv_def on_work_started_def split: if_splits)
next
  case (finish s n s' r)
  then show ?case using scope_inv_finish by blast
next
  case (join s n s' r)
  then show ?case by (auto simp: scope_inv_def join_begin_def split: if_splits)
next
  case (suspend s n s' r)
  then show ?case using scope_inv_suspend by blast
qed

text \<open>C15: \<open>AsyncScope\<close>: the coroutine that joins a scope goes on at most once, and only when no task is running;
  it is suspended only while one is; whenever a task ends, the continuation it may have to resume is there;
  and no assertion fails.\<close>

theorem scope_join_safe:
  assumes "scope_run s n"
  shows "n \<le> 1 \<and> (n = 1 \<longleftrightarrow> sc_join s = Joined) \<and> (sc_join s = Joined \<longrightarrow> sc_running s = 0) \<and>
    (sc_join s = Join_suspended \<longrightarrow> sc_running s > 0) \<and>
    (sc_running s > 0 \<longrightarrow> on_work_finished s \<noteq> None) \<and>
    (sc_join s = Not_joined \<or> sc_running s > 0 \<longrightarrow> on_work_started s \<noteq> None)"
  using scope_run_inv [OF assms]
  by (auto simp: scope_inv_def on_work_finished_def on_work_started_def Let_def)

theorem scope_join_safe_witness:
  "\<exists>s. scope_run s 1 \<and> sc_join s = Joined \<and> sc_running s = 0"
proof -
  let ?s = "\<lambda>c k r j. \<lparr>sc_count = c, sc_continuation = k, sc_running = r, sc_join = j\<rparr>"
  note defs = async_scope0_def on_work_started_def join_begin_def join_suspend_def on_work_finished_def sz_sub_def
  have "scope_run (?s 2 False 1 Not_joined) 0" using scope_run.start by (rule scope_run.spawn) (simp_all add: defs)
  then have "scope_run (?s 2 True 1 Join_stored) (0 + of_bool False)" by (rule scope_run.join) (simp add: defs)
  then have "scope_run (?s 1 True 1 Join_suspended) (0 + of_bool False + of_bool False)"
    by (rule scope_run.suspend) (simp add: defs)
  then have "scope_run (?s 0 True 0 Joined) (0 + of_bool False + of_bool False + of_bool True)"
    by (rule scope_run.finish) (simp_all add: defs)
  then have r: "scope_run (?s 0 True 0 Joined) 1" by simp
  show ?thesis using scope_join_safe [OF r] r by (intro exI [of _ "?s 0 True 0 Joined"]) simp
qed

subsection \<open>Moving an event\<close>

record event_handle =
  eh_fd :: int
  eh_tid :: nat
  eh_state :: event_state
  eh_ion :: direction
  eh_coro :: "nat option"
  eh_dd :: int

text \<open>Of \<open>timerHandle\<close> only the deadline is set before the event is scheduled.\<close>

definition event_handle0 :: event_handle where
  "event_handle0 = \<lparr>eh_fd = -1, eh_tid = ANY_THREAD, eh_state = esCREATED, eh_ion = Dir_in, eh_coro = None, eh_dd = 0\<rparr>"

text \<open>The assignment leaves the direction of the target alone; it returns both events.\<close>

definition event_assign :: "event_handle \<Rightarrow> event_handle \<Rightarrow> (event_handle \<times> event_handle) option" where
  "event_assign h other =
     (if eh_state h \<noteq> esCREATED then None
      else Some
       (h\<lparr>eh_state := eh_state other, eh_tid := eh_tid other, eh_fd := eh_fd other,
          eh_dd := eh_dd other, eh_coro := eh_coro other\<rparr>,
        other\<lparr>eh_state := esABANDONED, eh_tid := 0, eh_fd := -1, eh_dd := 0, eh_coro := None\<rparr>))"

definition event_destroy :: "event_handle \<Rightarrow> unit option" where
  "event_destroy h = (if eh_state h = esCREATED then Some () else None)"

text \<open>An event that is moved waits for input, whatever it was made for, and the assertion in the destructor
  of what is left of it fails.\<close>

lemma event_move:
  "event_assign event_handle0 h = Some (h1, h2) \<Longrightarrow> eh_ion h1 = Dir_in \<and> event_destroy h2 = None"
  by (auto simp: event_assign_def event_handle0_def event_destroy_def)

end
