(* ===== verification/Loop.thy ===== *)
theory Loop
  imports Tasks
begin

section \<open>The loop of a thread\<close>

text \<open>
  The rest of \<open>thread.cpp\<close>: the loop around \<open>epoll_wait\<close>, the \<open>eventfd\<close> that wakes it, the queue of coroutines
  that were scheduled, and the end of the thread; the awaitables \<open>Delay\<close> of \<open>delay.cpp\<close> and \<open>Event\<close> of
  \<open>fdwait.cpp\<close>. The world of \<open>Timers\<close> is a record: what the loop keeps beside its timers, and the world of the
  application. The queue is one of a library: \<open>enqueue\<close> and \<open>try_dequeue\<close> are arguments. \<open>run\<close> resumes a coroutine
  of the queue, \<open>resume\<close> the one that waits for an event or a delay, \<open>now\<close> is the clock; both get the whole
  thread and return it, and \<open>run_ok\<close> and \<open>loop_co_ok\<close> say what the theorem on a round asks of them.
\<close>

record ('q, 'y) loop =
  lp_active :: bool
  lp_signaling :: bool
  lp_evfd :: int
  lp_epfd :: int
  lp_wakes :: nat
  lp_maxPolled :: nat
  lp_queue :: 'q
  lp_world :: 'y

type_synonym ('q, 'y) looped = "('q, 'y) loop thread"

definition on_loop :: "(('q, 'y) loop \<Rightarrow> ('q, 'y) loop) \<Rightarrow> ('q, 'y) looped \<Rightarrow> ('q, 'y) looped" where
  "on_loop f th = th\<lparr>th_world := f (th_world th)\<rparr>"

subsection \<open>Waking the thread\<close>

text \<open>A write to an \<open>eventfd\<close> fails on an invalid descriptor and when the counter is full, a read when the counter
  is zero; then the assertions fail.\<close>

definition thread_signal :: "('q, 'y) looped \<Rightarrow> ('q, 'y) looped option" where
  "thread_signal th =
     (let w = th_world th in
      if lp_signaling w then Some th
      else if lp_evfd w = -1 \<or> lp_wakes w + 1 \<ge> UINT64_MAX then None
      else Some (on_loop (lp_wakes_update (\<lambda>n. n + 1)) th))"

definition handleThreadEvent :: "('q, 'y) looped \<Rightarrow> ('q, 'y) looped option" where
  "handleThreadEvent th =
     (if lp_evfd (th_world th) = -1 \<or> lp_wakes (th_world th) = 0 then None
      else Some (on_loop (lp_wakes_update (\<lambda>n. 0)) th))"

definition thread_schedule :: "(nat \<Rightarrow> 'q \<Rightarrow> 'q) \<Rightarrow> nat \<Rightarrow> ('q, 'y) looped \<Rightarrow> ('q, 'y) looped option" where
  "thread_schedule enqueue coro th = thread_signal (record_queued (on_loop (lp_queue_update (enqueue coro)) th))"

subsection \<open>One round\<close>

definition run_scheduled_step ::
    "('q \<Rightarrow> (nat \<times> 'q) option) \<Rightarrow> ('q, 'y) loop resume \<Rightarrow> ('q, 'y) looped \<Rightarrow>
     (('q, 'y) looped + ('q, 'y) looped) option" where
  "run_scheduled_step try_dequeue run th = Some
     (if \<not> lp_active (th_world th) then Inr th
      else case try_dequeue (lp_queue (th_world th)) of
        None \<Rightarrow> Inr th
      | Some (coro, q) \<Rightarrow> Inl (run coro (done_inflight (on_loop (lp_queue_update (\<lambda>_. q)) th))))"

text \<open>What \<open>epoll_wait\<close> reports: the \<open>eventfd\<close>, or an event with its error, input and output bits. When a
  coroutine has ended the thread, the rest is not looked at.\<close>

datatype polled = Thread_event | Ready bool bool bool nat

fun poll_events ::
    "('q, 'y) loop resume \<Rightarrow> polled list \<Rightarrow> ('q, 'y) looped \<Rightarrow> nat \<Rightarrow> (('q, 'y) looped \<times> nat) option" where
  "poll_events resume [] th found = Some (th, found)"
| "poll_events resume (p # ps) th found =
     (if \<not> lp_active (th_world th) then Some (th, found)
      else case p of
        Thread_event \<Rightarrow> do { th \<leftarrow> handleThreadEvent th; poll_events resume ps th found }
      | Ready err input output e \<Rightarrow> do {
          th1 \<leftarrow> triggered resume err input output e th;
          poll_events resume ps th1 (if th_event th e = esSCHEDULED then found + 1 else found) })"

definition EINTR :: nat where "EINTR = 4"

definition thread_round ::
    "('q \<Rightarrow> (nat \<times> 'q) option) \<Rightarrow> ('q, 'y) loop resume \<Rightarrow> ('q, 'y) loop resume \<Rightarrow> ('y \<Rightarrow> int) \<Rightarrow>
     (int \<Rightarrow> ('q, 'y) looped \<Rightarrow> (nat + polled list) \<times> ('q, 'y) looped) \<Rightarrow> ('q, 'y) looped \<Rightarrow>
     (('q, 'y) looped + ('q, 'y) looped) option" where
  "thread_round try_dequeue run resume now epoll_wait th =
     (if \<not> lp_active (th_world th) then Some (Inr th)
      else do {
        let (count, th) = epoll_wait (computeWaitTimeout (now (lp_world (th_world th))) th) th;
        if \<not> lp_active (th_world th) then Some (Inr th)
        else if (case count of Inl errno \<Rightarrow> errno \<noteq> EINTR | Inr _ \<Rightarrow> False) then None
        else do {
          th \<leftarrow> c_while (run_scheduled_step try_dequeue run) th;
          (th, found) \<leftarrow> poll_events resume (case count of Inl _ \<Rightarrow> [] | Inr ps \<Rightarrow> ps) th 0;
          let th = on_loop (lp_maxPolled_update (\<lambda>n. max n found)) th;
          th \<leftarrow> (if lp_active (th_world th) then fireExpiredTimers resume (now (lp_world (th_world th))) th else Some th);
          Some (Inl th) } })"

definition thread_loop ::
    "('q \<Rightarrow> (nat \<times> 'q) option) \<Rightarrow> ('q, 'y) loop resume \<Rightarrow> ('q, 'y) loop resume \<Rightarrow> ('y \<Rightarrow> int) \<Rightarrow>
     (int \<Rightarrow> ('q, 'y) looped \<Rightarrow> (nat + polled list) \<times> ('q, 'y) looped) \<Rightarrow> ('q, 'y) looped \<Rightarrow>
     ('q, 'y) looped option" where
  "thread_loop try_dequeue run resume now epoll_wait th = c_while (thread_round try_dequeue run resume now epoll_wait) th"

subsection \<open>The end of the thread\<close>

text \<open>What the thread does behind its loop: the second assignment is to \<open>_evfd\<close> again. The descriptors that are
  closed come back.\<close>

definition thread_stop :: "('q, 'y) looped \<Rightarrow> ('q, 'y) looped \<times> int list" where
  "thread_stop th =
     (let w = th_world th;
          (w, c1) = (if lp_evfd w \<noteq> -1 then (w\<lparr>lp_evfd := -1\<rparr>, [lp_evfd w]) else (w, []));
          (w, c2) = (if lp_epfd w \<noteq> -1 then (w\<lparr>lp_evfd := -1\<rparr>, [lp_epfd w]) else (w, []))
      in (th\<lparr>th_world := w\<rparr>, c1 @ c2))"

text \<open>\<open>abort\<close> up to the \<open>join\<close>; what other threads do between its two steps is the argument \<open>meanwhile\<close>.\<close>

definition thread_abort :: "(('q, 'y) looped \<Rightarrow> ('q, 'y) looped) \<Rightarrow> ('q, 'y) looped \<Rightarrow> ('q, 'y) looped option" where
  "thread_abort meanwhile th = thread_signal (meanwhile (on_loop (lp_active_update (\<lambda>_. False)) th))"

text \<open>A thread that is running wakes up for an \<open>abort\<close> and leaves its loop. When it wakes up for another
  reason before it is signalled, it has closed its \<open>eventfd\<close>, and the assertion of \<open>signal\<close> fails. The
  descriptor of \<open>epoll\<close> stays in its field after it is closed.\<close>

lemma thread_abort_wakes:
  assumes "lp_evfd (th_world th) \<noteq> -1" "lp_wakes (th_world th) + 1 < UINT64_MAX" "\<not> lp_signaling (th_world th)"
  shows "\<exists>th'. thread_abort id th = Some th' \<and> 0 < lp_wakes (th_world th') \<and>
    thread_loop try_dequeue run resume now epoll_wait th' = Some th'"
  using assms
  by (auto simp: thread_abort_def thread_signal_def on_loop_def thread_loop_def thread_round_def Let_def intro!: c_while_stop)

lemma thread_abort_races:
  assumes "\<not> lp_signaling (th_world th)"
  shows "thread_abort (fst \<circ> thread_stop) th = None"
    and "lp_epfd (th_world (fst (thread_stop th))) = lp_epfd (th_world th)"
  using assms by (simp_all add: thread_abort_def thread_signal_def thread_stop_def on_loop_def Let_def)

subsection \<open>Who is resumed in a round\<close>

text \<open>Values of the queue are coroutines in the order in which \<open>try_dequeue\<close> hands them out.\<close>

definition fifo :: "('q \<Rightarrow> (nat \<times> 'q) option) \<Rightarrow> ('q \<Rightarrow> nat list) \<Rightarrow> bool" where
  "fifo try_dequeue contents \<longleftrightarrow> (\<forall>q. case contents q of
     [] \<Rightarrow> try_dequeue q = None
   | c # cs \<Rightarrow> \<exists>q'. try_dequeue q = Some (c, q') \<and> contents q' = cs)"

text \<open>What a coroutine leaves alone in the record of the loop. It may schedule others, and signal the thread.\<close>

definition loop_keeps :: "('q \<Rightarrow> nat list) \<Rightarrow> ('q, 'y) loop \<Rightarrow> ('q, 'y) loop \<Rightarrow> nat list \<Rightarrow> bool" where
  "loop_keeps contents w w' new \<longleftrightarrow> lp_active w' = lp_active w \<and> lp_evfd w' = lp_evfd w \<and> lp_wakes w \<le> lp_wakes w' \<and>
     contents (lp_queue w') = contents (lp_queue w) @ new"

definition loop_co_ok ::
    "nat set \<Rightarrow> ('y \<Rightarrow> int) \<Rightarrow> ('y \<Rightarrow> wake list) \<Rightarrow> ('q \<Rightarrow> nat list) \<Rightarrow> ('q, 'y) loop resume \<Rightarrow> bool" where
  "loop_co_ok S now log contents resume \<longleftrightarrow> co_ok S (now \<circ> lp_world) (log \<circ> lp_world) resume \<and>
     (\<forall>t th. \<exists>new. loop_keeps contents (th_world th) (th_world (resume t th)) new)"

text \<open>The coroutines of the queue: \<open>budget\<close> bounds how many of them are still scheduled while the queue is
  worked off.\<close>

definition run_ok ::
    "nat set \<Rightarrow> ('y \<Rightarrow> int) \<Rightarrow> ('y \<Rightarrow> wake list) \<Rightarrow> ('q \<Rightarrow> nat list) \<Rightarrow> ('y \<Rightarrow> nat) \<Rightarrow> ('q, 'y) loop resume \<Rightarrow> bool" where
  "run_ok S now log contents budget run \<longleftrightarrow> (\<forall>c th xs. timers_ok th xs \<longrightarrow>
     (\<exists>ys. co_keeps S (now \<circ> lp_world) {} th xs (run c th) ys) \<and>
     log (lp_world (th_world (run c th))) = log (lp_world (th_world th)) @ [Queue_wake c] \<and>
     (\<exists>new. loop_keeps contents (th_world th) (th_world (run c th)) new \<and>
        length new + budget (lp_world (th_world (run c th))) \<le> budget (lp_world (th_world th))))"

lemma co_keeps_holds: "co_keeps S now X th xs th' ys \<Longrightarrow> timers_ok th' ys"
  by (simp add: co_keeps_def)

lemma run_scheduled_all:
  assumes "fifo try_dequeue contents" "lp_active (th_world th)" "timers_ok th xs"
    and "run_ok S now log contents budget run"
  shows "\<exists>th' ys more_new. c_while (run_scheduled_step try_dequeue run) th = Some th' \<and>
    co_keeps S (now \<circ> lp_world) {} th xs th' ys \<and> contents (lp_queue (th_world th')) = [] \<and>
    lp_active (th_world th') \<and> lp_evfd (th_world th') = lp_evfd (th_world th) \<and> lp_wakes (th_world th) \<le> lp_wakes (th_world th') \<and>
    log (lp_world (th_world th')) = log (lp_world (th_world th)) @ map Queue_wake (contents (lp_queue (th_world th)) @ more_new)"
  using assms(2,3)
proof (induction "length (contents (lp_queue (th_world th))) + budget (lp_world (th_world th))" arbitrary: th xs rule: less_induct)
  case less
  show ?case
  proof (cases "contents (lp_queue (th_world th))")
    case Nil
    then have "try_dequeue (lp_queue (th_world th)) = None"
      using assms(1) [unfolded fifo_def, rule_format, of "lp_queue (th_world th)"] by simp
    then have "run_scheduled_step try_dequeue run th = Some (Inr th)" by (simp add: run_scheduled_step_def)
    from c_while_stop [of "run_scheduled_step try_dequeue run", OF this] show ?thesis
      using Nil less.prems co_keeps_same [of th xs "now \<circ> lp_world" th S]
      by (intro exI [of _ th] exI [of _ xs] exI [of _ "[]"]) simp
  next
    case (Cons c cs)
    then obtain q where q: "try_dequeue (lp_queue (th_world th)) = Some (c, q)" "contents q = cs"
      using assms(1) [unfolded fifo_def, rule_format, of "lp_queue (th_world th)"] by auto
    let ?u = "done_inflight (on_loop (lp_queue_update (\<lambda>_. q)) th)" and ?th = "run c (done_inflight (on_loop (lp_queue_update (\<lambda>_. q)) th))"
    have "run_scheduled_step try_dequeue run th = Some (Inl ?th)"
      using less.prems q by (simp add: run_scheduled_step_def)
    note step = c_while_next [of "run_scheduled_step try_dequeue run", OF this]
    have w: "th_world ?u = (th_world th)\<lparr>lp_queue := q\<rparr>" by (simp add: on_loop_def done_inflight_def)
    have k0: "co_keeps S (now \<circ> lp_world) {} th xs ?u xs"
      using less.prems(2) by (intro co_keeps_same) (simp_all add: on_loop_def done_inflight_def)
    obtain ys new where 1: "co_keeps S (now \<circ> lp_world) {} ?u xs ?th ys"
      "log (lp_world (th_world ?th)) = log (lp_world (th_world ?u)) @ [Queue_wake c]"
      "loop_keeps contents (th_world ?u) (th_world ?th) new"
      "length new + budget (lp_world (th_world ?th)) \<le> budget (lp_world (th_world ?u))"
      using assms(4) co_keeps_holds [OF k0] unfolding run_ok_def by meson
    note k = 1(3) [unfolded loop_keeps_def w, simplified]
    have "length (contents (lp_queue (th_world ?th))) + budget (lp_world (th_world ?th)) <
        length (contents (lp_queue (th_world th))) + budget (lp_world (th_world th))"
      using 1(4) k q(2) Cons w by simp
    moreover have "lp_active (th_world ?th)" using k less.prems by simp
    ultimately obtain th' ys' more' where 2: "c_while (run_scheduled_step try_dequeue run) ?th = Some th'"
      "co_keeps S (now \<circ> lp_world) {} ?th ys th' ys'" "contents (lp_queue (th_world th')) = []"
      "lp_active (th_world th')" "lp_evfd (th_world th') = lp_evfd (th_world ?th)" "lp_wakes (th_world ?th) \<le> lp_wakes (th_world th')"
      "log (lp_world (th_world th')) = log (lp_world (th_world ?th)) @ map Queue_wake (contents (lp_queue (th_world ?th)) @ more')"
      using less.hyps [of ?th ys] co_keeps_holds [OF 1(1)] by blast
    have "co_keeps S (now \<circ> lp_world) {} th xs th' ys'"
      using co_keeps_trans [OF co_keeps_trans [OF k0 1(1)] 2(2)] by simp
    then show ?thesis using 1(2) 2 k q(2) w Cons step
      by (intro exI [of _ th'] exI [of _ ys'] exI [of _ "new @ more'"]) simp
  qed
qed

text \<open>There must be a bound: with a coroutine that schedules another one whenever it is resumed, the thread
  never gets to its events and timers.\<close>

lemma run_scheduled_starves:
  assumes "fifo try_dequeue contents" "lp_active (th_world th)" "contents (lp_queue (th_world th)) \<noteq> []"
    and "\<And>c th. lp_active (th_world (run c th)) = lp_active (th_world th)"
    and "\<And>c th. contents (lp_queue (th_world (run c th))) = contents (lp_queue (th_world th)) @ [c]"
  shows "\<exists>th'. c_steps (run_scheduled_step try_dequeue run) n th = Some (Inl th')"
  using assms(2,3)
proof (induction n arbitrary: th)
  case (Suc n)
  then obtain c q where q: "try_dequeue (lp_queue (th_world th)) = Some (c, q)"
    using assms(1) [unfolded fifo_def, rule_format, of "lp_queue (th_world th)"] by (auto split: list.splits)
  let ?th = "run c (done_inflight (on_loop (lp_queue_update (\<lambda>_. q)) th))"
  have "run_scheduled_step try_dequeue run th = Some (Inl ?th)" using Suc.prems(1) q by (simp add: run_scheduled_step_def)
  moreover have "lp_active (th_world ?th)" "contents (lp_queue (th_world ?th)) \<noteq> []"
    using Suc.prems(1) by (simp_all add: assms(4,5) on_loop_def done_inflight_def)
  ultimately show ?case using Suc.IH [of ?th] by simp
qed simp


text \<open>The timer of an event that is served leaves the list before its coroutine is resumed.\<close>

lemma clear_timer_holds:
  assumes "holds_timers th xs" "t \<notin> set xs"
  shows "holds_timers (clear_timer t th) xs"
proof -
  have "map ((th_dd th)(t := 0)) xs = map (th_dd th) xs" using assms(2) by auto
  then show ?thesis using assms by (simp add: holds_timers_def clear_timer_def holds_list_def)
qed

lemma drop_event_timer_ok:
  assumes "timers_ok th xs" "th_event th e = esSCHEDULED" "state \<noteq> esSCHEDULED"
  defines "d \<equiv> drop_event_timer e (th\<lparr>th_event := (th_event th)(e := state)\<rparr>)"
  shows "timers_ok d (filter (\<lambda>t. t \<noteq> e) xs)" "\<not> waiting d e" "wake_of d e = Event_wake e state"
    "th_world d = th_world th" "\<And>x. x \<noteq> e \<Longrightarrow> untouched th d x" "th_event d e = state"
proof -
  let ?th = "th\<lparr>th_event := (th_event th)(e := state)\<rparr>"
  have d: "th_world d = th_world th" "th_event d = (th_event th)(e := state)" "th_delay d = th_delay th" "th_ion d = th_ion th"
    "th_target d e \<noteq> Delay_target" "t \<noteq> e \<Longrightarrow> th_dd d t = th_dd th t \<and> th_target d t = th_target th t" for t
    using assms(1,2) by (auto simp: d_def timers_ok_def drop_event_timer_def clear_timer_def cancelTimer_def erase_timer_def split: prod.splits)
  have e: "th_delay th e \<noteq> tsSCHEDULED" "th_target th e \<noteq> No_target \<longleftrightarrow> e \<in> set xs" "holds_timers th xs"
    using assms(1,2) by (auto simp: timers_ok_def)
  show "\<not> waiting d e" using d e(1) assms(3) by (simp add: waiting_def)
  show "wake_of d e = Event_wake e state" using d by (simp add: wake_of_def)
  show "th_world d = th_world th" "th_event d e = state" using d by simp_all
  show "\<And>x. x \<noteq> e \<Longrightarrow> untouched th d x" using d by (simp add: untouched_def)
  have h: "holds_timers ?th xs" using e(3) by simp
  have "holds_timers d (filter (\<lambda>t. t \<noteq> e) xs)"
  proof (cases "e \<in> set xs")
    case False
    then have "filter (\<lambda>t. t \<noteq> e) xs = xs" by (auto simp: filter_id_conv)
    then show ?thesis using False h e(2) by (simp add: d_def drop_event_timer_def)
  next
    case True
    have "distinct xs" using e(3) by (simp add: holds_timers_def holds_list_def)
    with True obtain ys zs where xs: "xs = ys @ e # zs" "e \<notin> set ys" "e \<notin> set zs" by (auto dest: split_list)
    then have "filter (\<lambda>t. t \<noteq> e) ys = ys" "filter (\<lambda>t. t \<noteq> e) zs = zs" by (auto simp: filter_id_conv)
    with xs have f: "filter (\<lambda>t. t \<noteq> e) xs = ys @ zs" by simp
    obtain ts hp where er: "erase_timer e ?th = ?th\<lparr>th_timers := ts, th_heap := hp\<rparr>"
      "holds_timers (?th\<lparr>th_timers := ts, th_heap := hp\<rparr>) (ys @ zs)"
      by (rule erase_timer_holds [of ?th ys e zs, OF h [unfolded xs(1)]])
    have "d = clear_timer e (?th\<lparr>th_timers := ts, th_heap := hp\<rparr>)"
      using True e(2) er(1) by (simp add: d_def drop_event_timer_def cancelTimer_def)
    then show ?thesis using clear_timer_holds [OF er(2)] xs f by simp
  qed
  moreover have "\<forall>t \<in> set (filter (\<lambda>t. t \<noteq> e) xs). th_target d t \<noteq> No_target"
    using assms(1) d(6) by (auto simp: timers_ok_def)
  moreover have "th_delay d x \<noteq> tsSCHEDULED \<and>
      (th_target d x = No_target \<or> th_target d x = Event_target \<and> x \<in> set (filter (\<lambda>t. t \<noteq> e) xs))"
    if "th_event d x = esSCHEDULED" for x
  proof -
    have "x \<noteq> e" using that d(2) assms(3) by auto
    then show ?thesis using that assms(1) d(2,3,6) by (simp add: timers_ok_def)
  qed
  ultimately show "timers_ok d (filter (\<lambda>t. t \<noteq> e) xs)" unfolding timers_ok_def by blast
qed

abbreviation served :: "bool \<times> nat \<Rightarrow> wake" where
  "served p \<equiv> Event_wake (snd p) (if fst p then esERROR else esFIRED)"

lemma trigger_one:
  assumes "timers_ok th xs" "th_event th e = esSCHEDULED" "err \<or> (if th_ion th e = Dir_in then input else output)"
    and "loop_co_ok S now log contents resume"
  shows "\<exists>th' ys. triggered resume err input output e th = Some th' \<and> co_keeps S (now \<circ> lp_world) {e} th xs th' ys \<and>
    log (lp_world (th_world th')) = log (lp_world (th_world th)) @ [served (err, e)] \<and>
    lp_active (th_world th') = lp_active (th_world th) \<and> lp_evfd (th_world th') = lp_evfd (th_world th) \<and>
    lp_wakes (th_world th) \<le> lp_wakes (th_world th')"
proof -
  define state where "state = (if err then esERROR else esFIRED)"
  define d where "d = drop_event_timer e (th\<lparr>th_event := (th_event th)(e := state)\<rparr>)"
  have s: "state \<noteq> esSCHEDULED" by (simp add: state_def)
  note d = drop_event_timer_ok [OF assms(1,2) s, folded d_def]
  let ?zs = "filter (\<lambda>t. t \<noteq> e) xs" and ?u = "done_inflight d"
  have wk: "wake_of ?u e = Event_wake e state" using d(3) by (auto simp: done_inflight_def wake_of_def split: if_splits)
  have "triggered resume err input output e th = Some (handleEvent resume e (th\<lparr>th_event := (th_event th)(e := state)\<rparr>))"
    using assms(2,3) by (auto simp: triggered_def state_def)
  then have t: "triggered resume err input output e th = Some (resume e ?u)" by (simp add: handleEvent_def d_def)
  have "th_event d x \<noteq> esSCHEDULED" if "th_event th x \<noteq> esSCHEDULED" for x
    using d(5) [of x] d(6) s that by (cases "x = e") (simp_all add: untouched_def)
  then have "co_keeps S (now \<circ> lp_world) {e} th xs d ?zs"
    using d by (auto simp: co_keeps_def intro!: filter_cong)
  moreover have k: "co_keeps S (now \<circ> lp_world) {} d ?zs ?u ?zs"
    using d(1) by (intro co_keeps_same) (simp_all add: done_inflight_def)
  moreover have "\<not> waiting ?u e" "e \<notin> set ?zs" "wake_of ?u e = Event_wake e state" "th_world ?u = th_world th"
    using d(2,4) wk by (simp_all add: done_inflight_def waiting_def)
  moreover obtain ys where ys: "co_keeps S (now \<circ> lp_world) {} ?u ?zs (resume e ?u) ys"
    "(log \<circ> lp_world) (th_world (resume e ?u)) = (log \<circ> lp_world) (th_world ?u) @ [wake_of ?u e]"
    using assms(4) calculation(3,4) co_keeps_holds [OF k] unfolding loop_co_ok_def co_ok_def by meson
  ultimately have "co_keeps S (now \<circ> lp_world) {e} th xs (resume e ?u) ys"
    using co_keeps_trans [OF co_keeps_trans [OF _ k]] by fastforce
  moreover obtain new where "loop_keeps contents (th_world ?u) (th_world (resume e ?u)) new"
    using assms(4) unfolding loop_co_ok_def by blast
  ultimately show ?thesis using t ys(2) \<open>wake_of ?u e = _\<close> \<open>th_world ?u = _\<close>
    by (intro exI [of _ "resume e ?u"] exI [of _ ys]) (simp add: loop_keeps_def state_def)
qed

text \<open>The events a round finds, with their error bits, in the order in which they are reported. An event is
  reported once, and with an error or with what it waits for.\<close>

fun ready :: "polled list \<Rightarrow> (bool \<times> nat) list" where
  "ready [] = []"
| "ready (Thread_event # ps) = ready ps"
| "ready (Ready err input output e # ps) = (err, e) # ready ps"

definition polled_ok :: "polled list \<Rightarrow> ('q, 'y) looped \<Rightarrow> bool" where
  "polled_ok ps th \<longleftrightarrow> distinct (map snd (ready ps)) \<and>
     length (filter ((=) Thread_event) ps) \<le> (if lp_evfd (th_world th) \<noteq> -1 \<and> 0 < lp_wakes (th_world th) then 1 else 0) \<and>
     (\<forall>err input output e. Ready err input output e \<in> set ps \<and> th_event th e = esSCHEDULED \<longrightarrow>
        err \<or> (if th_ion th e = Dir_in then input else output))"

lemma ready_mem: "Ready err input output e \<in> set ps \<Longrightarrow> (err, e) \<in> set (ready ps)"
  by (induction ps rule: ready.induct) auto

text \<open>The events that are still to be looked at stay as they are while others are served.\<close>

lemma polled_ok_keeps:
  assumes "polled_ok ps th" "co_keeps S now X th xs th' ys" "snd ` set (ready ps) \<inter> X = {}"
    and S: "\<forall>(err, e) \<in> set (ready ps). th_event th e \<noteq> esSCHEDULED \<longrightarrow> e \<in> S"
    and "lp_evfd (th_world th') = lp_evfd (th_world th)" "lp_wakes (th_world th) \<le> lp_wakes (th_world th')"
  shows "polled_ok ps th'"
    and "filter (\<lambda>(err, e). th_event th' e = esSCHEDULED) (ready ps) = filter (\<lambda>(err, e). th_event th e = esSCHEDULED) (ready ps)"
    and "\<forall>(err, e) \<in> set (ready ps). th_event th' e \<noteq> esSCHEDULED \<longrightarrow> e \<in> S"
proof -
  have e: "(th_event th' e = esSCHEDULED) = (th_event th e = esSCHEDULED)"
    and ion: "th_event th e = esSCHEDULED \<Longrightarrow> th_ion th' e = th_ion th e" if "(err, e) \<in> set (ready ps)" for err e
  proof -
    have X: "e \<notin> X" using assms(3) that by force
    have u: "untouched th th' e" if "th_event th e = esSCHEDULED"
      using assms(2) X that by (auto simp: co_keeps_def waiting_def)
    then show "th_event th e = esSCHEDULED \<Longrightarrow> th_ion th' e = th_ion th e" by (simp add: untouched_def)
    have "th_event th' e \<noteq> esSCHEDULED" if "th_event th e \<noteq> esSCHEDULED"
    proof -
      have "e \<in> S" using S \<open>(err, e) \<in> set (ready ps)\<close> that by auto
      then show ?thesis using assms(2) that by (auto simp: co_keeps_def)
    qed
    with u show "(th_event th' e = esSCHEDULED) = (th_event th e = esSCHEDULED)" by (auto simp: untouched_def)
  qed
  show "filter (\<lambda>(err, e). th_event th' e = esSCHEDULED) (ready ps) = filter (\<lambda>(err, e). th_event th e = esSCHEDULED) (ready ps)"
    using e by (intro filter_cong) auto
  show "\<forall>(err, e) \<in> set (ready ps). th_event th' e \<noteq> esSCHEDULED \<longrightarrow> e \<in> S" using S e by blast
  have "err \<or> (if th_ion th' a = Dir_in then input else output)"
    if "Ready err input output a \<in> set ps" "th_event th' a = esSCHEDULED" for err "input" "output" a
    using assms(1) that e [OF ready_mem [OF that(1)]] ion [OF ready_mem [OF that(1)]] by (simp add: polled_ok_def)
  moreover have "length (filter ((=) Thread_event) ps) \<le>
      (if lp_evfd (th_world th') \<noteq> -1 \<and> 0 < lp_wakes (th_world th') then 1 else 0)"
    using assms(1,5,6) by (auto simp: polled_ok_def split: if_splits)
  ultimately show "polled_ok ps th'" using assms(1) by (simp add: polled_ok_def)
qed

lemma poll_events_all:
  assumes "timers_ok th xs" "polled_ok ps th" "lp_active (th_world th)" "loop_co_ok S now log contents resume"
    and "\<forall>(err, e) \<in> set (ready ps). th_event th e \<noteq> esSCHEDULED \<longrightarrow> e \<in> S"
  defines "E \<equiv> filter (\<lambda>(err, e). th_event th e = esSCHEDULED) (ready ps)"
  shows "\<exists>th' ys. poll_events resume ps th found = Some (th', found + length E) \<and>
    co_keeps S (now \<circ> lp_world) (snd ` set E) th xs th' ys \<and> lp_active (th_world th') \<and>
    log (lp_world (th_world th')) = log (lp_world (th_world th)) @ map served E"
  using assms(1-3,5) unfolding E_def
proof (induction ps arbitrary: th found xs)
  case Nil
  then have "co_keeps S (now \<circ> lp_world) {} th xs th xs" by (intro co_keeps_same) simp_all
  with Nil show ?case by (intro exI [of _ th] exI [of _ xs]) (simp add: comp_def)
next
  case (Cons p ps)
  show ?case
  proof (cases p)
    case Thread_event
    let ?th = "on_loop (lp_wakes_update (\<lambda>n. 0)) th"
    have "handleThreadEvent th = Some ?th" using Cons.prems(2) Thread_event
      by (auto simp: polled_ok_def handleThreadEvent_def split: if_splits)
    moreover have k: "co_keeps S (now \<circ> lp_world) {} th xs ?th xs"
      using Cons.prems(1) by (intro co_keeps_same) (simp_all add: on_loop_def)
    moreover have "polled_ok ps ?th" "lp_active (th_world ?th)"
      using Cons.prems(2,3) Thread_event by (auto simp: on_loop_def polled_ok_def split: if_splits)
    moreover have ev: "th_event ?th = th_event th" "lp_world (th_world ?th) = lp_world (th_world th)"
      by (simp_all add: on_loop_def)
    moreover have "\<forall>(err, e) \<in> set (ready ps). th_event ?th e \<noteq> esSCHEDULED \<longrightarrow> e \<in> S"
      using Cons.prems(4) Thread_event ev(1) by simp
    note IH = Cons.IH [OF co_keeps_holds [OF k] calculation(3,4) this, of found, unfolded ev]
    moreover from IH obtain th' ys where 1: "poll_events resume ps ?th found =
        Some (th', found + length (filter (\<lambda>(err, e). th_event th e = esSCHEDULED) (ready ps)))"
      "co_keeps S (now \<circ> lp_world) (snd ` set (filter (\<lambda>(err, e). th_event th e = esSCHEDULED) (ready ps))) ?th xs th' ys"
      "lp_active (th_world th')" "log (lp_world (th_world th')) = log (lp_world (th_world th)) @
         map served (filter (\<lambda>(err, e). th_event th e = esSCHEDULED) (ready ps))"
      by blast
    ultimately show ?thesis using co_keeps_trans [OF k 1(2)] Thread_event Cons.prems(3)
      by (intro exI [of _ th'] exI [of _ ys]) (simp add: comp_def)
  next
    case (Ready err "input" "output" e)
    show ?thesis
    proof (cases "th_event th e = esSCHEDULED")
      case False
      then have "triggered resume err input output e th = Some th" by (simp add: triggered_def)
      moreover have "polled_ok ps th" using Cons.prems(2) Ready by (auto simp: polled_ok_def)
      ultimately show ?thesis using False Ready Cons.IH [of th xs found] Cons.prems by simp
    next
      case True
      let ?E = "filter (\<lambda>(err, e). th_event th e = esSCHEDULED) (ready ps)"
      have "err \<or> (if th_ion th e = Dir_in then input else output)"
        using Cons.prems(2) True Ready by (auto simp: polled_ok_def)
      from trigger_one [OF Cons.prems(1) True this assms(4)] obtain th1 ys where
        1: "triggered resume err input output e th = Some th1" "co_keeps S (now \<circ> lp_world) {e} th xs th1 ys"
          "log (lp_world (th_world th1)) = log (lp_world (th_world th)) @ [served (err, e)]"
          "lp_active (th_world th1) = lp_active (th_world th)" "lp_evfd (th_world th1) = lp_evfd (th_world th)"
          "lp_wakes (th_world th) \<le> lp_wakes (th_world th1)" by blast
      have ps: "polled_ok ps th" "snd ` set (ready ps) \<inter> {e} = {}"
        "\<forall>(err, e) \<in> set (ready ps). th_event th e \<noteq> esSCHEDULED \<longrightarrow> e \<in> S"
        using Cons.prems(2,4) Ready by (auto simp: polled_ok_def)
      note keep = polled_ok_keeps [OF ps(1) 1(2) ps(2,3) 1(5,6)]
      have "lp_active (th_world th1)" using 1(4) Cons.prems(3) by simp
      from Cons.IH [OF co_keeps_holds [OF 1(2)] keep(1) this keep(3), of "found + 1", unfolded keep(2)] obtain th' zs where
        2: "poll_events resume ps th1 (found + 1) = Some (th', found + 1 + length ?E)"
          "co_keeps S (now \<circ> lp_world) (snd ` set ?E) th1 ys th' zs" "lp_active (th_world th')"
          "log (lp_world (th_world th')) = log (lp_world (th_world th1)) @ map served ?E" by blast
      show ?thesis using co_keeps_trans [OF 1(2) 2(2)] 1(1,3) 2(1,3,4) True Ready Cons.prems(3)
        by (intro exI [of _ th'] exI [of _ zs]) (simp add: comp_def)
    qed
  qed
qed

fun waker :: "wake \<Rightarrow> nat" where
  "waker (Queue_wake c) = c"
| "waker (Event_wake e state) = e"
| "waker (Delay_wake d state) = d"

lemma fire_round:
  assumes "co_keeps S now X th xs th1 ys" "co_ok S now log resume"
  defines "tp \<equiv> now (th_world th1)"
  shows "\<exists>th' zs T. fireExpiredTimers resume tp th1 = Some th' \<and> timers_ok th' zs \<and> (\<forall>y \<in> set zs. tp < th_dd th' y) \<and>
    log (th_world th') = log (th_world th1) @ T \<and>
    filter (\<lambda>v. waker v \<in> set xs - X) T =
      map (expiry th) (filter (\<lambda>t. t \<notin> X \<and> th_dd th t \<le> tp \<and> fires th t) xs) \<and>
    filter (\<lambda>y. y \<in> set xs - X \<and> tp < th_dd th y) zs = filter (\<lambda>t. t \<notin> X \<and> tp < th_dd th t) xs"
proof -
  have ys: "filter (\<lambda>y. y \<in> set xs - X) ys = filter (\<lambda>x. x \<notin> X) xs" using assms(1) by (simp add: co_keeps_def)
  have u: "untouched th th1 x" if "x \<in> set xs - X" for x using assms(1) that by (simp add: co_keeps_def)
  have dd: "th_dd th1 y = th_dd th y" if "y \<in> set xs - X" for y using u [OF that] by (simp add: untouched_def)
  have f: "filter (\<lambda>y. y \<in> set xs - X \<and> P y) ys = filter (\<lambda>x. x \<notin> X \<and> Q x) xs"
    if "\<And>x. x \<in> set xs - X \<Longrightarrow> P x = Q x" for P Q
  proof -
    have "filter (\<lambda>y. y \<in> set xs - X \<and> P y) ys = filter P (filter (\<lambda>y. y \<in> set xs - X) ys)"
      by (simp only: filter_filter)
    also have "\<dots> = filter (\<lambda>x. x \<notin> X \<and> Q x) xs" unfolding ys filter_filter using that by (intro filter_cong) auto
    finally show ?thesis .
  qed
  have tp: "tp \<le> now (th_world th1)" by (simp add: tp_def)
  from fire_all [OF co_keeps_holds [OF assms(1)] tp assms(2)] obtain th' zs where
    1: "fireExpiredTimers resume tp th1 = Some th'" "timers_ok th' zs" "\<forall>y \<in> set zs. tp < th_dd th' y"
      "filter (\<lambda>y. y \<in> set ys \<and> tp < th_dd th1 y) zs = filter (\<lambda>t. tp < th_dd th1 t) ys"
      "log (th_world th') = log (th_world th1) @ map (expiry th1) (filter (fires th1) (filter (\<lambda>t. th_dd th1 t \<le> tp) ys))"
    by blast
  let ?T = "map (expiry th1) (filter (fires th1) (filter (\<lambda>t. th_dd th1 t \<le> tp) ys))"
  have w: "waker (expiry th1 t) = t" for t by (simp add: expiry_def)
  have "filter (\<lambda>v. waker v \<in> set xs - X) ?T =
      map (expiry th1) (filter (\<lambda>y. y \<in> set xs - X \<and> th_dd th1 y \<le> tp \<and> fires th1 y) ys)"
    unfolding filter_map o_def w filter_filter by (intro arg_cong [where f = "map (expiry th1)"] filter_cong) auto
  also have "\<dots> = map (expiry th1) (filter (\<lambda>t. t \<notin> X \<and> th_dd th t \<le> tp \<and> fires th t) xs)"
    by (subst f [of "\<lambda>y. th_dd th1 y \<le> tp \<and> fires th1 y" "\<lambda>y. th_dd th y \<le> tp \<and> fires th y"])
      (simp_all add: dd untouched_fires [OF u])
  also have "\<dots> = map (expiry th) (filter (\<lambda>t. t \<notin> X \<and> th_dd th t \<le> tp \<and> fires th t) xs)"
    using u untouched_fires by (intro map_cong) auto
  finally have T: "filter (\<lambda>v. waker v \<in> set xs - X) ?T = \<dots>" .
  have sub: "y \<in> set ys" if "y \<in> set xs - X" for y
    using that arg_cong [OF ys, of set] by auto
  have "filter (\<lambda>y. y \<in> set xs - X \<and> tp < th_dd th y) zs =
      filter (\<lambda>y. y \<in> set xs - X) (filter (\<lambda>y. y \<in> set ys \<and> tp < th_dd th1 y) zs)"
    unfolding filter_filter using sub dd by (intro filter_cong) auto
  also have "\<dots> = filter (\<lambda>y. y \<in> set xs - X \<and> tp < th_dd th1 y) ys"
    unfolding 1(4) filter_filter by (intro filter_cong) auto
  also have "\<dots> = filter (\<lambda>t. t \<notin> X \<and> tp < th_dd th t) xs" using dd by (intro f) simp
  finally show ?thesis using 1 T by blast
qed

text \<open>C25: a round of the loop resumes first the coroutines of the queue, until it is empty, those that are
  scheduled meanwhile included; then, in the order of the report, the coroutine of every event that is
  reported and was awaited when the round began, which finds the event fired or failed; then the owners of the timers that have
  expired at the clock \<open>tp\<close> and that no event has served, by their deadlines, in the state for a timeout. Each
  is resumed once. The timer of a served event is gone although it may have expired too, and the timers that
  are not due stay. \<open>T\<close> may hold more only of timers that were added during the round.
  The coroutines may take their results, wait again and make others wait, as \<open>co_ok\<close> says, which
  leaves out those that wait for an event that is reported in this round although nobody awaited it; those of the queue
  may schedule others a bounded number of times, without which \<open>run_scheduled_starves\<close>; none ends the thread.\<close>

theorem thread_round_resumes:
  assumes wait: "epoll_wait (computeWaitTimeout (now (lp_world (th_world start))) start) start = (Inr ps, th)"
    and "lp_active (th_world start)" "lp_active (th_world th)" "timers_ok th xs" "polled_ok ps th"
    and "fifo try_dequeue contents" "run_ok S now log contents budget run" "loop_co_ok S now log contents resume"
    and E_def: "E = filter (\<lambda>(err, e). th_event th e = esSCHEDULED) (ready ps)"
    and S_def: "S = {e \<in> snd ` set (ready ps). th_event th e \<noteq> esSCHEDULED}"
  shows "\<exists>th' ys scheduled T tp. thread_round try_dequeue run resume now epoll_wait start = Some (Inl th') \<and>
    log (lp_world (th_world th')) = log (lp_world (th_world th)) @
      map Queue_wake (contents (lp_queue (th_world th)) @ scheduled) @ map served E @ T \<and>
    filter (\<lambda>v. waker v \<in> set xs - snd ` set E) T =
      map (expiry th) (filter (\<lambda>t. t \<notin> snd ` set E \<and> th_dd th t \<le> tp \<and> fires th t) xs) \<and>
    now (lp_world (th_world th)) \<le> tp \<and> timers_ok th' ys \<and> (\<forall>y \<in> set ys. tp < th_dd th' y) \<and>
    filter (\<lambda>y. y \<in> set xs - snd ` set E \<and> tp < th_dd th y) ys = filter (\<lambda>t. t \<notin> snd ` set E \<and> tp < th_dd th t) xs"
proof -
  have S: "\<forall>(err, e) \<in> set (ready ps). th_event th e \<noteq> esSCHEDULED \<longrightarrow> e \<in> S" by (force simp: S_def)
  from run_scheduled_all [OF assms(6,3,4,7)] obtain th1 ys scheduled where
    1: "c_while (run_scheduled_step try_dequeue run) th = Some th1" "co_keeps S (now \<circ> lp_world) {} th xs th1 ys"
      "lp_active (th_world th1)" "lp_evfd (th_world th1) = lp_evfd (th_world th)" "lp_wakes (th_world th) \<le> lp_wakes (th_world th1)"
      "log (lp_world (th_world th1)) = log (lp_world (th_world th)) @ map Queue_wake (contents (lp_queue (th_world th)) @ scheduled)"
    by blast
  note keep = polled_ok_keeps [OF assms(5) 1(2) Int_empty_right S 1(4,5)]
  from poll_events_all [OF co_keeps_holds [OF 1(2)] keep(1) 1(3) assms(8) keep(3), of 0, unfolded keep(2), folded E_def]
  obtain th2 zs where
    2: "poll_events resume ps th1 0 = Some (th2, 0 + length E)" "co_keeps S (now \<circ> lp_world) (snd ` set E) th1 ys th2 zs"
      "lp_active (th_world th2)" "log (lp_world (th_world th2)) = log (lp_world (th_world th1)) @ map served E" by blast
  let ?u = "on_loop (lp_maxPolled_update (\<lambda>n. max n (length E))) th2"
  have w: "lp_active (th_world ?u)" "lp_world (th_world ?u) = lp_world (th_world th2)" using 2(3) by (simp_all add: on_loop_def)
  have "co_keeps S (now \<circ> lp_world) {} th2 zs ?u zs"
    using co_keeps_holds [OF 2(2)] by (intro co_keeps_same) (simp_all add: on_loop_def)
  from co_keeps_trans [OF co_keeps_trans [OF 1(2) 2(2)] this]
  have k: "co_keeps S (now \<circ> lp_world) (snd ` set E) th xs ?u zs" by (simp only: sup_bot.left_neutral sup_bot.right_neutral)
  have co: "co_ok S (now \<circ> lp_world) (log \<circ> lp_world) resume" using assms(8) by (simp add: loop_co_ok_def)
  let ?tp = "now (lp_world (th_world th2))"
  from fire_round [OF k co, unfolded comp_apply w(2)] obtain th3 vs T where
    3: "fireExpiredTimers resume ?tp ?u = Some th3" "timers_ok th3 vs" "\<forall>y \<in> set vs. ?tp < th_dd th3 y"
      "log (lp_world (th_world th3)) = log (lp_world (th_world th2)) @ T"
      "filter (\<lambda>v. waker v \<in> set xs - snd ` set E) T =
         map (expiry th) (filter (\<lambda>t. t \<notin> snd ` set E \<and> th_dd th t \<le> ?tp \<and> fires th t) xs)"
      "filter (\<lambda>y. y \<in> set xs - snd ` set E \<and> ?tp < th_dd th y) vs = filter (\<lambda>t. t \<notin> snd ` set E \<and> ?tp < th_dd th t) xs"
    by blast
  have "thread_round try_dequeue run resume now epoll_wait start = Some (Inl th3)"
    using assms(2,3) wait 1(1) 2(1) 3(1) w by (simp add: thread_round_def)
  moreover have "now (lp_world (th_world th)) \<le> ?tp" using k w(2) by (simp add: co_keeps_def)
  moreover have "log (lp_world (th_world th3)) = log (lp_world (th_world th)) @
      map Queue_wake (contents (lp_queue (th_world th)) @ scheduled) @ map served E @ T"
    using 1(6) 2(4) 3(4) by simp
  ultimately show ?thesis using 3(2,3,5,6) by blast
qed

text \<open>A thread with two coroutines in its queue, the first of which schedules another one, an event and two
  delays, of which one is not due. The first delay is taken up again; a coroutine takes a millisecond.\<close>

type_synonym round_world = "int \<times> wake list \<times> nat"

definition list_dequeue :: "nat list \<Rightarrow> (nat \<times> nat list) option" where
  "list_dequeue q = (case q of [] \<Rightarrow> None | c # cs \<Rightarrow> Some (c, cs))"

definition round_tick :: "wake \<Rightarrow> ('q, round_world) loop \<Rightarrow> ('q, round_world) loop" where
  "round_tick v w = (let (clock, log, n) = lp_world w in w\<lparr>lp_world := (clock + 1, log @ [v], n)\<rparr>)"

definition spawner :: "(nat list, round_world) loop resume" where
  "spawner c th =
     (let (clock, log, n) = lp_world (th_world th);
          th1 = on_loop (\<lambda>w. w\<lparr>lp_world := (clock + 1, log @ [Queue_wake c], n - 1)\<rparr>) th in
      if n = 0 then th1
      else case thread_schedule (\<lambda>c q. q @ [c]) (c + 2) th1 of None \<Rightarrow> th1 | Some th2 \<Rightarrow> th2)"

definition loop_example :: "(nat list, round_world) looped" where
  "loop_example = \<lparr>th_timers = th_timers three_timers, th_heap = th_heap three_timers, th_dd = th_dd three_timers,
     th_target = th_target three_timers, th_event = (\<lambda>e. if e = 2 then esSCHEDULED else esCREATED),
     th_delay = (\<lambda>d. if d = 2 then tsCREATED else tsSCHEDULED), th_ion = (\<lambda>_. Dir_in),
     th_inflight = 5, th_maxInflight = 5, th_totalQueued = 5,
     th_world = \<lparr>lp_active = True, lp_signaling = False, lp_evfd = 5, lp_epfd = 4, lp_wakes = 1, lp_maxPolled = 0,
       lp_queue = [7, 8], lp_world = (20, [], 1)\<rparr>\<rparr>"

lemma spawner_ok: "run_ok S fst (fst \<circ> snd) id (snd \<circ> snd) spawner"
  unfolding run_ok_def
proof (intro allI impI)
  fix c :: nat and th :: "(nat list, round_world) looped" and xs
  assume ok: "timers_ok th xs"
  obtain clock log n where w: "lp_world (th_world th) = (clock, log, n)" by (cases "lp_world (th_world th)")
  have same: "th_timers (spawner c th) = th_timers th" "th_heap (spawner c th) = th_heap th" "th_dd (spawner c th) = th_dd th"
    "th_target (spawner c th) = th_target th" "th_event (spawner c th) = th_event th" "th_delay (spawner c th) = th_delay th"
    "th_ion (spawner c th) = th_ion th"
    by (simp_all add: spawner_def w thread_schedule_def thread_signal_def record_queued_def on_loop_def Let_def)
  have world: "lp_world (th_world (spawner c th)) = (clock + 1, log @ [Queue_wake c], n - 1)"
    by (simp add: spawner_def w thread_schedule_def thread_signal_def record_queued_def on_loop_def Let_def)
  have "co_keeps S (fst \<circ> lp_world) {} th xs (spawner c th) xs"
    using ok same by (intro co_keeps_same) (simp_all add: w world)
  moreover have "\<exists>new. loop_keeps id (th_world th) (th_world (spawner c th)) new \<and> length new + (n - 1) \<le> n"
    by (cases "n = 0")
      (auto simp: loop_keeps_def spawner_def w thread_schedule_def thread_signal_def record_queued_def on_loop_def Let_def
        intro: exI [of _ "[]"] exI [of _ "[c + 2]"])
  ultimately show "(\<exists>ys. co_keeps S (fst \<circ> lp_world) {} th xs (spawner c th) ys) \<and>
      (fst \<circ> snd) (lp_world (th_world (spawner c th))) = (fst \<circ> snd) (lp_world (th_world th)) @ [Queue_wake c] \<and>
      (\<exists>new. loop_keeps id (th_world th) (th_world (spawner c th)) new \<and>
        length new + (snd \<circ> snd) (lp_world (th_world (spawner c th))) \<le> (snd \<circ> snd) (lp_world (th_world th)))"
    by (auto simp: w world)
qed

lemma round_sleeper_ok: "loop_co_ok S fst (fst \<circ> snd) contents (sleeper (fst \<circ> lp_world) round_tick again)"
  unfolding loop_co_ok_def
proof (intro conjI allI)
  show "co_ok S (fst \<circ> lp_world) (fst \<circ> snd \<circ> lp_world) (sleeper (fst \<circ> lp_world) round_tick again)"
    by (rule sleeper_ok) (simp_all add: round_tick_def split: prod.split)
  show "\<exists>new. loop_keeps contents (th_world th) (th_world (sleeper (fst \<circ> lp_world) round_tick again t th)) new" for t th
    unfolding sleeper_world by (auto simp: loop_keeps_def round_tick_def split: prod.split intro: exI [of _ "[]"])
qed

theorem thread_round_resumes_witness:
  "\<exists>th' ys T. thread_round list_dequeue spawner (sleeper (fst \<circ> lp_world) round_tick (\<lambda>t. if t = 1 then Some 100 else None))
      fst (\<lambda>_ th. (Inr [Thread_event, Ready False True False 2], th)) loop_example = Some (Inl th') \<and>
    fst (snd (lp_world (th_world th'))) = map Queue_wake [7, 8] @ T \<and> Event_wake 2 esFIRED \<in> set T \<and>
    Delay_wake 1 tsFIRED \<in> set T \<and> timers_ok th' ys"
proof -
  have "holds_timers loop_example [1, 2, 3]" using three_timers_holds by (simp add: holds_timers_def loop_example_def)
  then have "timers_ok loop_example [1, 2, 3]" by (auto simp: timers_ok_def loop_example_def three_timers_def)
  moreover have "fifo list_dequeue id" by (simp add: fifo_def list_dequeue_def split: list.split)
  moreover have "polled_ok [Thread_event, Ready False True False 2] loop_example"
    by (simp add: polled_ok_def loop_example_def)
  ultimately obtain th' ys scheduled T tp where
    1: "thread_round list_dequeue spawner (sleeper (fst \<circ> lp_world) round_tick (\<lambda>t. if t = 1 then Some 100 else None))
      fst (\<lambda>_ th. (Inr [Thread_event, Ready False True False 2], th)) loop_example = Some (Inl th')"
      "(fst \<circ> snd) (lp_world (th_world th')) = (fst \<circ> snd) (lp_world (th_world loop_example)) @
         map Queue_wake (id (lp_queue (th_world loop_example)) @ scheduled) @ map served [(False, 2)] @ T"
      "filter (\<lambda>v. waker v \<in> set [1, 2, 3] - snd ` set [(False, 2)]) T = map (expiry loop_example)
         (filter (\<lambda>t. t \<notin> snd ` set [(False, 2 :: nat)] \<and> th_dd loop_example t \<le> tp \<and> fires loop_example t) [1, 2, 3])"
      "fst (lp_world (th_world loop_example)) \<le> tp" "timers_ok th' ys"
    using thread_round_resumes [of "\<lambda>_ th. (Inr [Thread_event, Ready False True False 2], th)" fst loop_example
      "[Thread_event, Ready False True False 2]" loop_example "[1, 2, 3]" list_dequeue id "{}" "fst \<circ> snd" "snd \<circ> snd" spawner
      "sleeper (fst \<circ> lp_world) round_tick (\<lambda>t. if t = 1 then Some 100 else None)" "[(False, 2)]",
      OF refl _ _ _ _ _ spawner_ok round_sleeper_ok]
    by (auto simp: loop_example_def)
  have "expiry loop_example 1 \<in> set (filter (\<lambda>v. waker v \<in> set [1, 2, 3] - snd ` set [(False, 2)]) T)"
    unfolding 1(3) using 1(4) by (auto simp: loop_example_def three_timers_def fires_def)
  then have "Delay_wake 1 tsFIRED \<in> set T" by (simp add: expiry_def loop_example_def three_timers_def)
  then show ?thesis using 1(1,2,5)
    by (intro exI [of _ th'] exI [of _ ys] exI [of _ "map Queue_wake scheduled @ map served [(False, 2)] @ T"])
      (simp add: loop_example_def)
qed

subsection \<open>Delays and events as awaitables\<close>

record delay_handle =
  dl_state :: delay_state
  dl_dd :: int
  dl_coro :: "nat option"
  dl_tid :: nat

definition delay_new :: "int \<Rightarrow> int \<Rightarrow> nat \<Rightarrow> delay_handle" where
  "delay_new fastnow timeout tid = \<lparr>dl_state = tsCREATED, dl_dd = fastnow + timeout, dl_coro = None, dl_tid = tid\<rparr>"

text \<open>The move constructor assigns to a new object with these fields.\<close>

definition delay_handle0 :: delay_handle where
  "delay_handle0 = \<lparr>dl_state = tsCREATED, dl_dd = 0, dl_coro = None, dl_tid = ANY_THREAD\<rparr>"

definition delay_assign :: "delay_handle \<Rightarrow> delay_handle \<Rightarrow> (delay_handle \<times> delay_handle) option" where
  "delay_assign h other =
     (if dl_state h \<noteq> tsCREATED then None
      else Some (other, \<lparr>dl_state = tsABANDONED, dl_dd = 0, dl_coro = None, dl_tid = 0\<rparr>))"

definition delay_destroy :: "delay_handle \<Rightarrow> unit option" where
  "delay_destroy h = (if dl_state h = tsCREATED then Some () else None)"

definition delay_await_ready :: "delay_handle \<Rightarrow> bool" where
  "delay_await_ready h \<longleftrightarrow> dl_state h = tsFIRED"

definition delay_await_suspend ::
    "nat \<Rightarrow> nat \<Rightarrow> delay_handle \<Rightarrow> 'x scheduler \<Rightarrow> (delay_handle \<times> 'x scheduler) option" where
  "delay_await_suspend d coroutine h s =
     (if dl_state h \<noteq> tsCREATED then None
      else do { s \<leftarrow> schedule_delay d (dl_tid h) s; Some (h\<lparr>dl_coro := Some coroutine\<rparr>, s) })"

definition delay_await_resume :: "delay_handle \<Rightarrow> bool \<times> delay_handle" where
  "delay_await_resume h = (dl_state h = tsFIRED, h\<lparr>dl_state := tsCREATED\<rparr>)"

definition event_new :: "int \<Rightarrow> nat \<Rightarrow> event_handle option" where
  "event_new fd affinity = (if fd = -1 then None else Some (event_handle0\<lparr>eh_fd := fd, eh_tid := affinity\<rparr>))"

definition event_set_dd :: "int \<Rightarrow> event_handle \<Rightarrow> event_handle option" where
  "event_set_dd dd h = (if eh_state h = esCREATED then Some (h\<lparr>eh_dd := dd\<rparr>) else None)"

definition event_set_ion :: "direction \<Rightarrow> event_handle \<Rightarrow> event_handle option" where
  "event_set_ion ion h = (if eh_state h = esCREATED then Some (h\<lparr>eh_ion := ion\<rparr>) else None)"

definition fdwait :: "int \<Rightarrow> direction \<Rightarrow> int \<Rightarrow> nat \<Rightarrow> event_handle option" where
  "fdwait fd io dd affinity = do {
     event \<leftarrow> event_new fd affinity;
     event \<leftarrow> event_set_ion io event;
     event_set_dd dd event }"

definition event_await_ready :: "event_handle \<Rightarrow> bool" where
  "event_await_ready h \<longleftrightarrow> eh_state h = esFIRED"

definition event_await_suspend ::
    "(ctl_op \<Rightarrow> nat \<Rightarrow> nat) \<Rightarrow> nat \<Rightarrow> nat \<Rightarrow> event_handle \<Rightarrow> 'x scheduler \<Rightarrow> (event_handle \<times> 'x scheduler) option" where
  "event_await_suspend epoll_ctl e coroutine h s =
     (if eh_state h \<noteq> esCREATED then None
      else do { s \<leftarrow> schedule_event epoll_ctl e (eh_tid h) s; Some (h\<lparr>eh_coro := Some coroutine\<rparr>, s) })"

definition event_await_resume :: "event_handle \<Rightarrow> event_state \<times> event_handle" where
  "event_await_resume h = (eh_state h, h\<lparr>eh_coro := None, eh_state := esCREATED\<rparr>)"

text \<open>A delay that was moved from fails the assertion of its destructor, like an event.\<close>

lemma delay_move:
  "delay_assign delay_handle0 h = Some (h1, h2) \<Longrightarrow> h1 = h \<and> delay_destroy h2 = None"
  by (auto simp: delay_assign_def delay_handle0_def delay_destroy_def)

end
