(* ===== verification/HostsFile.thy ===== *)
theory HostsFile
  imports Resconf
begin

section \<open>The hosts file\<close>

text \<open>
  What \<open>dns_hosts_loadfile\<close> makes of a file, against the format of the file: a line is words up to a
  comment, the first of them an address, the others names of it. And \<open>dns_hosts_dump\<close>, which writes
  the table in that format; only the flags of the aliases do not come back.
\<close>

subsection \<open>Names in their buffers\<close>

definition anchored :: "bytes \<Rightarrow> bytes" where
  "anchored n = (if n = [] \<or> last n = 46 then n else n @ [46])"

definition name_buf :: "bytes \<Rightarrow> bytes" where
  "name_buf n = take 255 n @ replicate (256 - min 255 (length n)) 0"

lemma name_buf_cstr: "name_buf n = take 255 n @ 0 # replicate (255 - min 255 (length n)) 0"
proof -
  have "256 - min 255 (length n) = Suc (255 - min 255 (length n))" by simp
  then show ?thesis by (simp add: name_buf_def)
qed

lemma update_end: "(xs @ ys)[length xs := v] = xs @ (case ys of [] \<Rightarrow> [] | y # ys' \<Rightarrow> v # ys')"
  by (cases ys) (simp_all add: list_update_beyond)

lemma anchor_namebuf:
  assumes "n \<noteq> []" "length n \<le> 255" "length n \<le> length src" "take (length n) src = n"
  shows "\<exists>k. dns_d_anchor (replicate 256 0) 256 src (length n) = Some (name_buf (anchored n), k)"
proof -
  have l: "src ! (length n - 1) = last n"
    using assms by (metis last_conv_nth length_greater_0_conv diff_less less_numeral_extra(1) nth_take)
  have r: "length n - 1 < length src" using assms by (cases n) auto
  obtain d where d: "length n + d = 255" using assms(2) le_iff_add by metis
  have e: "256 - length n = Suc d" "255 - length n = d" using d by simp_all
  show ?thesis
  proof (cases "last n = 46")
    case True
    then show ?thesis using assms l r e d
      by (simp add: dns_d_anchor_def min_absorb2 anchored_def name_buf_cstr update_end Let_def)
  next
    case False
    show ?thesis
    proof (cases d)
      case 0
      then have ln: "length n = 255" using d by simp
      then have "(n @ [0])[255 := 0] = n @ [0]" using update_end [of n "[0]" 0] by simp
      then show ?thesis using assms l r ln False
        by (simp add: dns_d_anchor_def min_absorb2 anchored_def name_buf_cstr update_end put_def min_def Let_def)
    next
      case (Suc d')
      have "(n @ 46 # 0 # replicate d' 0)[Suc (length n) := 0] = n @ 46 # 0 # replicate d' 0"
        using update_end [of "n @ [46]" "0 # replicate d' 0" 0] by simp
      moreover have "254 - length n = d'" "min 255 (Suc (length n)) = Suc (length n)" using d Suc by simp_all
      ultimately show ?thesis using assms l r e d False Suc
        by (simp add: dns_d_anchor_def min_absorb2 anchored_def name_buf_cstr update_end put_def Let_def)
    qed
  qed
qed

text \<open>A routine that fills a buffer of \<open>N\<close> bytes and stays inside it.\<close>

definition fills :: "nat \<Rightarrow> (bytes \<times> 'a) option \<Rightarrow> bool" where
  "fills N m \<longleftrightarrow> (\<exists>d k. m = Some (d, k) \<and> length d = N)"

lemma fills_bind:
  assumes "fills N m" "\<And>d k. m = Some (d, k) \<Longrightarrow> length d = N \<Longrightarrow> fills N' (f d k)"
  shows "fills N' (Option.bind m (\<lambda>(d, k). f d k))"
  using assms by (auto simp: fills_def)

lemma fills_Some [simp]: "fills N (Some (d, k)) \<longleftrightarrow> length d = N"
  by (simp add: fills_def)

lemma fills_printchar: "lim \<le> length dst \<Longrightarrow> fills (length dst) (dns__printchar dst lim cp ch)"
  by (simp add: dns__printchar_def)

lemma fills_printstring:
  assumes "lim \<le> length dst" "len \<le> length src"
  shows "fills (length dst) (dns__printstring dst lim cp src len)"
proof (cases "cp < lim")
  case True
  then have "cp + min len (lim - cp) \<le> length dst" using assms by linarith
  then show ?thesis using True assms by (simp add: dns__printstring_def min.coboundedI1 wr_mem_def)
qed (simp add: dns__printstring_def)

lemma fills_printnul:
  assumes "0 < lim" "lim \<le> length dst"
  shows "\<exists>d. dns__printnul dst lim off = Some d \<and> length d = length dst"
  using assms by (simp add: dns__printnul_def)

lemma fills_print10_pad: "lim \<le> length dst \<Longrightarrow> fills (length dst) (dns__print10_pad k dst lim dp)"
proof (induction k arbitrary: dst dp)
  case (Suc k)
  show ?case unfolding dns__print10_pad.simps
    by (rule fills_bind [OF fills_printchar [OF Suc.prems]]) (metis Suc.IH Suc.prems)
qed simp

lemma fills_print10: "lim \<le> length dst \<Longrightarrow> fills (length dst) (dns__print10 dst lim off n pad)"
  unfolding dns__print10_def Let_def
  apply (rule fills_bind, erule fills_print10_pad)
  apply (rule fills_bind [where N = "length dst"])
   apply (metis fills_printstring order_refl)
  apply simp
  done

lemma fills_a_arpa:
  assumes "0 < lim" "lim \<le> length dst"
  shows "fills (length dst) (dns_a_arpa dst lim a)"
proof -
  have l: "fills N (dns_a_arpa_loop i dst lim cp a)" if "lim \<le> N" "length dst = N" for i dst N cp a
    using that
  proof (induction i arbitrary: dst cp a)
    case (Suc i)
    show ?case unfolding dns_a_arpa_loop.simps Let_def
      apply (rule fills_bind [where N = N])
       apply (metis fills_print10 Suc.prems)
      apply (rule fills_bind [where N = N])
       apply (metis fills_printchar Suc.prems(1))
      apply (rule Suc.IH; use Suc.prems in simp)
      done
  qed simp
  show ?thesis unfolding dns_a_arpa_def Let_def
    apply (rule fills_bind [OF l [OF assms(2)]], simp)
    apply (rule fills_bind [where N = "length dst"])
     subgoal for d c using fills_printstring [of lim d 13 "of_string ''in-addr.arpa.''" c] assms(2) by (simp add: of_string_def)
    subgoal for d c d' c' using fills_printnul [of lim d' "c + c'"] assms by auto
    done
qed

lemma fills_aaaa_arpa:
  assumes "0 < lim" "lim \<le> length dst" "16 \<le> length a"
  shows "fills (length dst) (dns_aaaa_arpa dst lim a)"
proof -
  have l: "fills N (dns_aaaa_arpa_loop i dst lim cp a)" if "lim \<le> N" "length dst = N" "i \<le> 16" for i dst N cp
    using that
  proof (induction i arbitrary: dst cp)
    case (Suc i)
    have p: "fills N (dns__printchar d lim cp c)" if "length d = N" for d cp c
      using fills_printchar [of lim d cp c] Suc.prems that by simp
    have r: "rd a i = Some (a ! i)" using Suc.prems assms(3) by simp
    show ?case unfolding dns_aaaa_arpa_loop.simps Let_def r Option.bind.simps
      by (intro fills_bind [where N = N] p Suc.IH Suc.prems(1,2)) (use Suc.prems in simp_all)
  qed simp
  show ?thesis unfolding dns_aaaa_arpa_def Let_def
    apply (rule fills_bind [OF l [OF assms(2)]], simp, simp)
    apply (rule fills_bind [where N = "length dst"])
     subgoal for d c using fills_printstring [of lim d 9 "of_string ''ip6.arpa.''" c] assms(2) by (simp add: of_string_def)
    subgoal for d c d' c' using fills_printnul [of lim d' "c + c'"] assms by auto
    done
qed

subsection \<open>What a line says\<close>

text \<open>The words of a line, separated by white space, up to a comment.\<close>

definition plain :: "byte \<Rightarrow> bool" where
  "plain c \<longleftrightarrow> \<not> c_isspace c \<and> \<not> dns_hosts_iscom c"

definition good_word :: "bytes \<Rightarrow> bool" where
  "good_word w \<longleftrightarrow> w \<noteq> [] \<and> (\<forall>c \<in> set w. plain c) \<and> 0 \<notin> set w"

function words_of :: "bytes \<Rightarrow> bytes list" where
  "words_of l = (let w = takeWhile plain l in
     (if w = [] then [] else [w]) @
     (case dropWhile plain l of
        [] \<Rightarrow> []
      | c # l' \<Rightarrow> if dns_hosts_iscom c then [] else words_of l'))"
  by pat_completeness auto

termination words_of
  by (relation "measure length") (auto, metis length_Cons length_dropWhile_le less_eq_Suc_le)

declare words_of.simps [simp del]

definition host_addr :: "inet_pton \<Rightarrow> bytes \<Rightarrow> (nat + bytes) option" where
  "host_addr pton w =
     (case dns_pton pton (if 58 \<in> set w then AF_INET6 else AF_INET)
        (w @ replicate (HOSTS_WORD - length w) 0) of Inl e \<Rightarrow> None | Inr a \<Rightarrow> Some a)"

definition arpa_of :: "nat + bytes \<Rightarrow> bytes" where
  "arpa_of a = fst (the (case a of Inl a4 \<Rightarrow> dns_a_arpa (replicate 74 0) 74 a4
     | Inr a6 \<Rightarrow> dns_aaaa_arpa (replicate 74 0) 74 a6))"

definition host_entry :: "nat + bytes \<Rightarrow> bytes \<Rightarrow> bool \<Rightarrow> dns_hosts_entry" where
  "host_entry a w al =
     \<lparr>he_host = name_buf (anchored w), he_arpa = arpa_of a, he_addr = a, he_alias = al\<rparr>"

definition line_entries :: "inet_pton \<Rightarrow> bytes \<Rightarrow> dns_hosts_entry list" where
  "line_entries pton l = (case words_of l of
     w # n # ns \<Rightarrow> (case host_addr pton w of
        Some a \<Rightarrow> host_entry a n False # map (\<lambda>n. host_entry a n True) ns
      | None \<Rightarrow> [])
   | _ \<Rightarrow> [])"

fun lines_of :: "bytes \<Rightarrow> bytes list" where
  "lines_of [] = [[]]"
| "lines_of (c # cs) = (if c = 10 then [] # lines_of cs
     else (case lines_of cs of l # ls \<Rightarrow> (c # l) # ls | [] \<Rightarrow> [[c]]))"


subsection \<open>Reading a line\<close>

definition line_end :: "bytes \<Rightarrow> bool" where
  "line_end rest \<longleftrightarrow> rest = [] \<or> hd rest = 10"

definition eol :: "bytes \<Rightarrow> bytes \<times> byte option" where
  "eol rest = (drop 1 rest, if rest = [] then None else Some 10)"

definition word_buf :: "bytes \<Rightarrow> bytes" where
  "word_buf w = w @ replicate (HOSTS_WORD - length w) 0"

lemma HOSTS_WORD_eq: "HOSTS_WORD = 256"
  by (simp add: c_defs)

lemma word_buf_strlen:
  assumes "0 \<notin> set w" "length w \<le> 255"
  shows "c_strlen (word_buf w) = Some (length w)"
proof -
  have "256 - length w = Suc (255 - length w)" using assms(2) by simp
  then show ?thesis using c_strlen_append [OF assms(1)] by (simp add: word_buf_def HOSTS_WORD_eq)
qed

lemma plain_simps: "plain c \<Longrightarrow> c \<noteq> 10 \<and> \<not> c_isspace c \<and> \<not> dns_hosts_iscom c"
  by (auto simp: plain_def c_isspace_def)

lemma word_skips:
  "10 \<notin> set l \<Longrightarrow> line_end rest \<Longrightarrow>
   dns_hosts_word (l @ rest) word wp True = Some (fst (eol rest), snd (eol rest), word, wp, True)"
  by (induction l) (auto simp: line_end_def eol_def neq_Nil_conv)

lemma word_takes:
  "(\<forall>c \<in> set w. plain c) \<Longrightarrow> length pre + length w \<le> 255 \<Longrightarrow>
   dns_hosts_word (w @ fp) (word_buf pre) (length pre) False =
     dns_hosts_word fp (word_buf (pre @ w)) (length pre + length w) False"
proof (induction w arbitrary: pre)
  case (Cons c w)
  have "(word_buf pre)[length pre := c] = word_buf (pre @ [c])"
    using Cons.prems(2) update_end [of pre "replicate (256 - length pre) 0" c]
    by (simp add: word_buf_def HOSTS_WORD_eq Suc_diff_Suc [symmetric] split: nat.splits)
  moreover have "wr (word_buf pre) (length pre) c = Some ((word_buf pre)[length pre := c])"
    using Cons.prems(2) by (intro wr_Some) (simp add: word_buf_def HOSTS_WORD_eq)
  ultimately show ?case using Cons.IH [of "pre @ [c]"] Cons.prems plain_simps [of c]
    by (simp add: HOSTS_WORD_eq Let_def)
qed simp

lemma word_reads:
  assumes "10 \<notin> set l" "line_end rest" "length (takeWhile plain l) \<le> 255"
  shows "dns_hosts_word (l @ rest) (replicate HOSTS_WORD 0) 0 False =
    (let w = takeWhile plain l in
     case dropWhile plain l of
       [] \<Rightarrow> Some (fst (eol rest), snd (eol rest), word_buf w, length w, False)
     | c # l' \<Rightarrow>
        if dns_hosts_iscom c then Some (fst (eol rest), snd (eol rest), word_buf w, length w, True)
        else Some (l' @ rest, Some c, word_buf w, length w, False))"
proof -
  let ?w = "takeWhile plain l" and ?r = "dropWhile plain l"
  have "l @ rest = ?w @ (?r @ rest)" by simp
  then have 1: "dns_hosts_word (l @ rest) (replicate HOSTS_WORD 0) 0 False =
      dns_hosts_word (?r @ rest) (word_buf ?w) (length ?w) False"
    using word_takes [of ?w "[]" "?r @ rest"] assms(3) set_takeWhileD [of _ plain l]
    by (auto simp: word_buf_def simp flip: append_assoc)
  show ?thesis
  proof (cases ?r)
    case Nil
    show ?thesis unfolding 1 Nil Let_def using assms(2) by (auto simp: line_end_def eol_def neq_Nil_conv)
  next
    case (Cons c l')
    have "set (c # l') \<subseteq> set l" by (metis Cons set_dropWhileD subsetI)
    then have c: "\<not> plain c" and n: "c \<noteq> 10" "10 \<notin> set l'"
      using assms(1) Cons by (auto simp: dropWhile_eq_Cons_conv)
    show ?thesis
    proof (cases "dns_hosts_iscom c")
      case True
      then show ?thesis using 1 Cons n word_skips [OF n(2) assms(2)] by (simp add: Let_def)
    next
      case False
      then have "c_isspace c" using c by (simp add: plain_def)
      then show ?thesis using 1 Cons n False by (simp add: Let_def)
    qed
  qed
qed

lemma name_buf_anchored:
  assumes "length w \<le> 255"
  shows "name_buf (anchored (take 255 (anchored w))) = name_buf (anchored w)"
proof (cases "length (anchored w) \<le> 255")
  case True
  then show ?thesis by (simp add: anchored_def)
next
  case False
  then have "length w = 255" "anchored w = w @ [46]" "last w \<noteq> 46" "w \<noteq> []"
    using assms by (auto simp: anchored_def split: if_splits)
  then show ?thesis by simp
qed

definition addr_ok :: "nat + bytes \<Rightarrow> bool" where
  "addr_ok a = (case a of Inl a4 \<Rightarrow> a4 < 4294967296 | Inr a6 \<Rightarrow> length a6 = 16)"

lemma insert_name:
  assumes "w \<noteq> []" "length w \<le> 255" "0 \<notin> set w" "addr_ok a"
  shows "dns_hosts_insert hosts (Some a) (name_buf (anchored w)) al =
    Some (hosts @ [host_entry a w al], None)"
proof -
  let ?n = "take 255 (anchored w)"
  have n: "?n \<noteq> []" "0 \<notin> set ?n" "length ?n \<le> 255"
    using assms by (auto simp: anchored_def dest: in_set_takeD)
  have s: "c_strlen (name_buf (anchored w)) = Some (length ?n)"
    unfolding name_buf_cstr by (rule c_strlen_append [OF n(2)])
  have "take (length ?n) (name_buf (anchored w)) = ?n" "length ?n \<le> length (name_buf (anchored w))"
    by (simp_all add: name_buf_def min_def)
  then obtain k where h: "dns_d_anchor (replicate 256 0) 256 (name_buf (anchored w)) (length ?n) =
      Some (name_buf (anchored w), k)"
    using anchor_namebuf [OF n(1,3)] name_buf_anchored [OF assms(2)] by metis
  have "\<exists>d k. (case a of Inl a4 \<Rightarrow> dns_a_arpa (replicate 74 0) 74 a4
      | Inr a6 \<Rightarrow> dns_aaaa_arpa (replicate 74 0) 74 a6) = Some (d, k)"
    using assms(4) fills_a_arpa [of 74 "replicate 74 0"] fills_aaaa_arpa [of 74 "replicate 74 0"]
    by (cases a) (simp_all add: fills_def addr_ok_def, blast, metis order_refl)
  then show ?thesis using s h
    by (auto simp: dns_hosts_insert_def host_entry_def arpa_of_def c_defs split: sum.splits)
qed


text \<open>The names of a line from the word number \<open>wc\<close> on.\<close>

fun name_entries :: "nat + bytes \<Rightarrow> nat \<Rightarrow> bytes list \<Rightarrow> dns_hosts_entry list" where
  "name_entries a wc [] = []"
| "name_entries a wc (w # ws) = host_entry a w (wc > 1) # name_entries a (wc + 1) ws"

lemma name_entries_alias: "1 < wc \<Longrightarrow> name_entries a wc ws = map (\<lambda>w. host_entry a w True) ws"
  by (induction ws arbitrary: wc) simp_all

definition words_ok :: "bytes list \<Rightarrow> bool" where
  "words_ok ws \<longleftrightarrow> (\<forall>w \<in> set ws. length w \<le> 255)"

lemma words_of_first:
  assumes "words_ok (words_of l)"
  shows "length (takeWhile plain l) \<le> 255"
  using assms by (subst (asm) words_of.simps) (auto simp: words_ok_def Let_def split: if_splits)

lemma words_of_rest:
  assumes "words_ok (words_of l)" "dropWhile plain l = c # l'" "\<not> dns_hosts_iscom c"
  shows "words_ok (words_of l')"
  using assms by (subst (asm) words_of.simps) (auto simp: words_ok_def Let_def)

text \<open>The first word of a line: it is the last one, or a line \<open>l'\<close> of further words follows.\<close>

lemma line_word:
  assumes "10 \<notin> set l" "0 \<notin> set l" "line_end rest" "words_ok (words_of l)"
  obtains (final) b where
      "dns_hosts_word (l @ rest) (replicate HOSTS_WORD 0) 0 False =
         Some (fst (eol rest), snd (eol rest), word_buf (takeWhile plain l), length (takeWhile plain l), b)"
      "words_of l = (if takeWhile plain l = [] then [] else [takeWhile plain l])"
    | (more) c l' where
      "dns_hosts_word (l @ rest) (replicate HOSTS_WORD 0) 0 False =
         Some (l' @ rest, Some c, word_buf (takeWhile plain l), length (takeWhile plain l), False)"
      "words_of l = (if takeWhile plain l = [] then [] else [takeWhile plain l]) @ words_of l'"
      "c \<noteq> 10" "10 \<notin> set l'" "0 \<notin> set l'" "words_ok (words_of l')" "length l' < length l"
proof (cases "dropWhile plain l")
  note rd = word_reads [OF assms(1,3) words_of_first [OF assms(4)]]
  case Nil
  then show ?thesis by (intro final [of False]) (simp_all add: rd Let_def words_of.simps [of l] del: dropWhile_eq_Nil_conv)
next
  note rd = word_reads [OF assms(1,3) words_of_first [OF assms(4)]]
  case (Cons c l')
  show ?thesis
  proof (cases "dns_hosts_iscom c")
    case True
    then show ?thesis by (intro final [of True]) (simp_all add: rd Cons Let_def words_of.simps [of l])
  next
    case False
    have "set (c # l') \<subseteq> set l" by (metis Cons set_dropWhileD subsetI)
    moreover have "length (c # l') \<le> length l" by (metis Cons length_dropWhile_le)
    ultimately show ?thesis using assms(1,2) words_of_rest [OF assms(4) Cons False] False
      by (intro more [of l' c]) (auto simp: rd Cons Let_def words_of.simps [of l])
  qed
qed

lemma takeWhile_word:
  assumes "0 \<notin> set l" "words_ok (words_of l)"
  shows "0 \<notin> set (takeWhile plain l)" "length (takeWhile plain l) \<le> 255"
  using assms words_of_first by (auto dest: set_takeWhileD)

lemma names_line:
  assumes "10 \<notin> set l" "0 \<notin> set l" "line_end rest" "words_ok (words_of l)" "addr_ok a" "1 \<le> wc"
  shows "c_while (dns_hosts_line_step pton) (l @ rest, a, wc, False, hosts) =
    Some (hosts @ name_entries a wc (words_of l), Inr (eol rest))"
  using assms
proof (induction "length l" arbitrary: l wc hosts rule: less_induct)
  case less
  let ?w = "takeWhile plain l" and ?step = "dns_hosts_line_step pton"
  note w = takeWhile_word [OF less.prems(2,4)]
  have host: "?w \<noteq> [] \<Longrightarrow> \<exists>k. dns_d_anchor (replicate 256 0) 256 (word_buf ?w) (length ?w) =
      Some (name_buf (anchored ?w), k)"
    by (rule anchor_namebuf) (use w in \<open>simp_all add: word_buf_def HOSTS_WORD_eq\<close>)
  have ins: "?w \<noteq> [] \<Longrightarrow> dns_hosts_insert hosts (Some a) (name_buf (anchored ?w)) (wc + 1 > 2) =
      Some (hosts @ [host_entry a ?w (wc > 1)], None)"
    using insert_name [OF _ w(2,1) less.prems(5)] by simp
  from less.prems(1-4) show ?case
  proof (cases rule: line_word)
    case (final b)
    have "?step (l @ rest, a, wc, False, hosts) =
        Some (Inr (hosts @ name_entries a wc (words_of l), Inr (eol rest)))"
      unfolding dns_hosts_line_step_def prod.case final(1)
      using host ins less.prems(6) by (auto simp: final(2) Let_def c_defs eol_def)
    then show ?thesis by (rule c_while_stop)
  next
    case (more c l')
    have "?step (l @ rest, a, wc, False, hosts) =
        Some (Inl (l' @ rest, a, if ?w = [] then wc else wc + 1, False,
          if ?w = [] then hosts else hosts @ [host_entry a ?w (wc > 1)]))"
      unfolding dns_hosts_line_step_def prod.case more(1)
      using host ins less.prems(6) more(3) by (auto simp: Let_def c_defs)
    then show ?thesis
      using less.hyps [OF more(7) more(4,5) less.prems(3) more(6) less.prems(5)] less.prems(6)
      by (simp add: c_while_next more(2))
  qed
qed

lemma line_skips:
  assumes "10 \<notin> set l" "line_end rest"
  shows "c_while (dns_hosts_line_step pton) (l @ rest, a, wc, True, hosts) = Some (hosts, Inr (eol rest))"
proof (rule c_while_stop)
  show "dns_hosts_line_step pton (l @ rest, a, wc, True, hosts) = Some (Inr (hosts, Inr (eol rest)))"
    using word_skips [OF assms, of "replicate HOSTS_WORD 0" 0]
    by (simp add: dns_hosts_line_step_def Let_def eol_def)
qed

definition pton_ok :: "inet_pton \<Rightarrow> bool" where
  "pton_ok pton \<longleftrightarrow> (\<forall>w a4. fst pton w = Some a4 \<longrightarrow> a4 < 4294967296) \<and>
     (\<forall>w a6. snd pton w = Some a6 \<longrightarrow> length a6 = 16)"

lemma host_addr_ok: "pton_ok pton \<Longrightarrow> host_addr pton w = Some a \<Longrightarrow> addr_ok a"
  by (auto simp: host_addr_def dns_pton_def pton_ok_def addr_ok_def split: option.splits if_splits)

lemma whole_line:
  assumes "10 \<notin> set l" "0 \<notin> set l" "line_end rest" "words_ok (words_of l)" "pton_ok pton"
  shows "c_while (dns_hosts_line_step pton) (l @ rest, Inl 0, 0, False, hosts) =
    Some (hosts @ line_entries pton l, Inr (eol rest))"
  using assms
proof (induction "length l" arbitrary: l rule: less_induct)
  case less
  let ?w = "takeWhile plain l" and ?step = "dns_hosts_line_step pton"
  note w = takeWhile_word [OF less.prems(2,4)]
  have colon: "set (take (length ?w) (word_buf ?w)) = set ?w" by (simp add: word_buf_def)
  note addr = word_buf_strlen [OF w] colon host_addr_def word_buf_def [of ?w]
  from less.prems(1-4) show ?case
  proof (cases rule: line_word)
    case (final b)
    have "?step (l @ rest, Inl 0, 0, False, hosts) = Some (Inr (hosts, Inr (eol rest)))"
      unfolding dns_hosts_line_step_def prod.case final(1)
      using addr(1) by (auto simp: Let_def eol_def split: sum.splits)
    then show ?thesis by (simp add: c_while_stop line_entries_def final(2))
  next
    case (more c l')
    note step = dns_hosts_line_step_def prod.case more(1)
    consider "?w = []" | "?w \<noteq> []" "host_addr pton ?w = None" | a where "?w \<noteq> []" "host_addr pton ?w = Some a"
      by blast
    then show ?thesis
    proof cases
      case 1
      then have "?step (l @ rest, Inl 0, 0, False, hosts) = Some (Inl (l' @ rest, Inl 0, 0, False, hosts))"
        unfolding step using more(3) by (simp add: Let_def)
      then show ?thesis using less.hyps [OF more(7) more(4,5) less.prems(3) more(6) less.prems(5)] 1 more(2)
        by (simp add: c_while_next line_entries_def)
    next
      case 2
      then obtain a where "?step (l @ rest, Inl 0, 0, False, hosts) = Some (Inl (l' @ rest, a, 1, True, hosts))"
        unfolding step using more(3) addr(1,2) by (auto simp: Let_def addr(3,4) split: sum.splits if_splits)
      moreover have "line_entries pton l = []" using 2 more(2) by (simp add: line_entries_def split: list.splits)
      ultimately show ?thesis using line_skips [OF more(4) less.prems(3)] by (simp add: c_while_next)
    next
      case (3 a)
      then have "?step (l @ rest, Inl 0, 0, False, hosts) = Some (Inl (l' @ rest, a, 1, False, hosts))"
        unfolding step using more(3) addr(1,2) by (auto simp: Let_def addr(3,4) split: sum.splits if_splits)
      moreover have "line_entries pton l = name_entries a 1 (words_of l')"
        using 3 more(2) by (simp add: line_entries_def name_entries_alias split: list.splits)
      ultimately show ?thesis
        using names_line [OF more(4,5) less.prems(3) more(6) host_addr_ok [OF less.prems(5) 3(2)] order_refl]
        by (simp add: c_while_next)
    qed
  qed
qed

subsection \<open>Reading the file\<close>

lemma lines_of_ne: "lines_of fp \<noteq> []"
  by (cases fp) (simp_all split: list.splits)

lemma lines_of_line: "10 \<notin> set l \<Longrightarrow> lines_of l = [l]"
  by (induction l) auto

lemma lines_of_append: "10 \<notin> set l \<Longrightarrow> lines_of (l @ 10 # fp) = l # lines_of fp"
  by (induction l) auto

lemma file_cases:
  obtains "10 \<notin> set fp" | l fp' where "fp = l @ 10 # fp'" "10 \<notin> set l"
  by (metis split_list_first)

definition file_entries :: "inet_pton \<Rightarrow> bytes \<Rightarrow> dns_hosts_entry list" where
  "file_entries pton fp = concat (map (line_entries pton) (lines_of fp))"

lemma hosts_loadfile_entries:
  assumes "0 \<notin> set fp" "pton_ok pton" "\<forall>l \<in> set (lines_of fp). words_ok (words_of l)"
  shows "dns_hosts_loadfile pton hosts fp = Some (hosts @ file_entries pton fp, None)"
  using assms(1,3)
proof (induction "length fp" arbitrary: fp hosts rule: less_induct)
  case less
  show ?case
  proof (cases fp rule: file_cases)
    case 1
    then have "words_ok (words_of fp)" using less.prems by (simp add: lines_of_line)
    from whole_line [OF 1 less.prems(1) _ this assms(2), of "[]"]
    have "dns_hosts_loadfile_step pton (fp, hosts) = Some (Inr (hosts @ line_entries pton fp, None))"
      by (simp add: dns_hosts_loadfile_step_def line_end_def eol_def)
    then show ?thesis using 1 by (simp add: dns_hosts_loadfile_def c_while_stop file_entries_def lines_of_line)
  next
    case (2 l fp')
    then have p: "0 \<notin> set l" "0 \<notin> set fp'" "words_ok (words_of l)" "\<forall>l \<in> set (lines_of fp'). words_ok (words_of l)"
      using less.prems by (simp_all add: lines_of_append)
    from whole_line [OF 2(2) p(1) _ p(3) assms(2), of "10 # fp'"]
    have "dns_hosts_loadfile_step pton (fp, hosts) = Some (Inl (fp', hosts @ line_entries pton l))"
      by (simp add: dns_hosts_loadfile_step_def line_end_def eol_def 2(1))
    then show ?thesis using less.hyps [OF _ p(2,4)] 2
      by (simp add: dns_hosts_loadfile_def c_while_next file_entries_def lines_of_append)
  qed
qed

text \<open>C18: on a file without NUL bytes whose words have at most 255 bytes, \<open>dns_hosts_loadfile\<close> appends to the
  table the entries its lines describe, line after line, each name anchored and every name after the first of a
  line as an alias, and reports no error; lines without an address are passed over.\<close>

theorem dns_hosts_loadfile_correct:
  assumes "0 \<notin> set fp" "pton_ok pton" "\<forall>l \<in> set (lines_of fp). words_ok (words_of l)"
  shows "dns_hosts_loadfile pton hosts fp = Some (hosts @ file_entries pton fp, None)"
  using assms by (rule hosts_loadfile_entries)


subsection \<open>A word that is too long\<close>

lemma word_passes:
  "(\<forall>c \<in> set w. plain c) \<Longrightarrow> 255 \<le> wp \<Longrightarrow>
   dns_hosts_word (w @ fp) word wp False = dns_hosts_word fp word (wp + length w) False"
proof (induction w arbitrary: wp)
  case (Cons c w)
  then show ?case using plain_simps [of c] by (simp add: HOSTS_WORD_eq Let_def)
qed simp

lemma word_read_space:
  assumes "\<forall>c \<in> set a. plain c" "length a \<le> 255"
  shows "dns_hosts_word (a @ 32 # w) (replicate HOSTS_WORD 0) 0 False =
    Some (w, Some 32, word_buf a, length a, False)"
  using word_takes [of a "[]" "32 # w"] assms
  by (simp add: word_buf_def c_isspace_def dns_hosts_iscom_def Let_def)

lemma word_read_long:
  assumes "\<forall>c \<in> set w. plain c" "255 \<le> length w"
  shows "dns_hosts_word w (replicate HOSTS_WORD 0) 0 False =
    Some ([], None, word_buf (take 255 w), length w, False)"
proof -
  have "\<forall>c \<in> set (take 255 w). plain c" "\<forall>c \<in> set (drop 255 w). plain c"
    using assms(1) by (auto dest: in_set_takeD in_set_dropD)
  then show ?thesis
    using word_takes [of "take 255 w" "[]" "drop 255 w @ []"] word_passes [of "drop 255 w" 255 "[]"] assms(2)
    by (simp add: word_buf_def)
qed

text \<open>A name of more than 256 bytes is read behind the end of \<open>word\<close>.\<close>

lemma dns_hosts_loadfile_long_word:
  assumes "good_word a" "length a \<le> 255" "host_addr pton a = Some addr"
    and "\<forall>c \<in> set w. plain c" "256 < length w"
  shows "dns_hosts_loadfile pton hosts (a @ 32 # w) = None"
proof -
  let ?step = "dns_hosts_line_step pton"
  have a: "\<forall>c \<in> set a. plain c" "a \<noteq> []" "0 \<notin> set a" using assms(1) by (auto simp: good_word_def)
  have "set (take (length a) (word_buf a)) = set a" by (simp add: word_buf_def)
  then have 1: "?step (a @ 32 # w, Inl 0, 0, False, hosts) = Some (Inl (w, addr, 1, False, hosts))"
    unfolding dns_hosts_line_step_def prod.case word_read_space [OF a(1) assms(2)]
    using assms(3) a(2) word_buf_strlen [OF a(3) assms(2)]
    by (auto simp: Let_def host_addr_def word_buf_def split: sum.splits if_splits)
  have "length (word_buf (take 255 w)) = 256" using assms(5) by (simp add: word_buf_def HOSTS_WORD_eq)
  then have "dns_d_anchor d 256 (word_buf (take 255 w)) (length w) = None" for d
    using assms(5) by (auto simp: dns_d_anchor_def rd_def split: bind_splits)
  then have 2: "?step (w, addr, 1, False, hosts) = None"
    unfolding dns_hosts_line_step_def prod.case word_read_long [OF assms(4) order_trans [OF _ less_imp_le [OF assms(5)]], simplified]
    using assms(5) by (auto simp: Let_def c_defs)
  have "c_while ?step (a @ 32 # w, Inl 0, 0, False, hosts) = None"
    using c_while_next [of ?step, OF 1] c_while_oob [of ?step, OF 2] by simp
  then show ?thesis unfolding dns_hosts_loadfile_def by (intro c_while_oob) (simp add: dns_hosts_loadfile_step_def)
qed

subsection \<open>Writing the table\<close>

text \<open>\<open>inet_ntop\<close> is the pair \<open>ntop\<close> of functions for the two families.\<close>

type_synonym inet_ntop = "(nat \<Rightarrow> bytes) \<times> (bytes \<Rightarrow> bytes)"

definition addr_text :: "inet_ntop \<Rightarrow> nat + bytes \<Rightarrow> bytes" where
  "addr_text ntop a = (case a of Inl a4 \<Rightarrow> fst ntop a4 | Inr a6 \<Rightarrow> snd ntop a6)"

definition INET_ADDRSTRLEN :: nat where [c_defs]: "INET_ADDRSTRLEN = 16"

fun dns_hosts_dump :: "inet_ntop \<Rightarrow> dns_hosts \<Rightarrow> bytes option" where
  "dns_hosts_dump ntop [] = Some []"
| "dns_hosts_dump ntop (ent # hosts) = do {
     let addr = addr_text ntop (he_addr ent);
     n \<leftarrow> c_strlen (he_host ent);
     rest \<leftarrow> dns_hosts_dump ntop hosts;
     Some (addr @ replicate (INET_ADDRSTRLEN - length addr) 32 @ [32] @ take n (he_host ent) @ [10] @ rest) }"

definition ntop_ok :: "inet_pton \<Rightarrow> inet_ntop \<Rightarrow> bool" where
  "ntop_ok pton ntop \<longleftrightarrow> (\<forall>a. addr_ok a \<longrightarrow> good_word (addr_text ntop a) \<and> length (addr_text ntop a) \<le> 46 \<and>
     host_addr pton (addr_text ntop a) = Some a)"

lemma words_of_space: "words_of (32 # l) = words_of l"
  by (subst words_of.simps) (simp add: plain_def c_isspace_def dns_hosts_iscom_def)

lemma words_of_spaces: "words_of (replicate n 32 @ l) = words_of l"
  by (induction n) (simp_all add: words_of_space)

lemma words_of_word:
  "good_word w \<Longrightarrow> words_of w = [w]" "good_word w \<Longrightarrow> words_of (w @ 32 # l) = w # words_of l"
proof -
  assume w: "good_word w"
  then have p: "\<forall>c \<in> set w. plain c" "w \<noteq> []" "\<not> plain 32"
    by (simp_all add: good_word_def plain_def [of 32] c_isspace_def)
  then have t: "takeWhile plain w = w" "dropWhile plain w = []"
    by (simp_all add: takeWhile_eq_all_conv dropWhile_eq_Nil_conv)
  have u: "takeWhile plain (w @ 32 # l) = w" "dropWhile plain (w @ 32 # l) = 32 # l"
    using p by simp_all
  show "words_of w = [w]"
    by (subst words_of.simps) (simp only: t Let_def p if_False list.case append_Nil2)
  show "words_of (w @ 32 # l) = w # words_of l"
    by (subst words_of.simps) (simp add: u Let_def p dns_hosts_iscom_def)
qed

lemma good_words: "0 \<notin> set l \<Longrightarrow> w \<in> set (words_of l) \<Longrightarrow> good_word w"
proof (induction l rule: words_of.induct)
  case (1 l)
  let ?w = "takeWhile plain l"
  have g: "good_word ?w" if "?w \<noteq> []"
    using that 1(2) by (auto simp: good_word_def dest: set_takeWhileD)
  show ?case
  proof (cases "w = ?w \<and> ?w \<noteq> []")
    case True
    then show ?thesis using g by simp
  next
    case False
    then obtain c l' where r: "dropWhile plain l = c # l'" "\<not> dns_hosts_iscom c" "w \<in> set (words_of l')"
      using 1(3) [unfolded words_of.simps [of l]]
      by (cases "dropWhile plain l") (auto simp: Let_def split: if_splits)
    moreover have "set (c # l') \<subseteq> set l" by (metis r(1) set_dropWhileD subsetI)
    ultimately show ?thesis using 1(1) [OF refl r(1,2) _ r(3)] 1(2) by auto
  qed
qed

lemma good_anchored: "good_word w \<Longrightarrow> good_word (anchored w)"
  by (auto simp: good_word_def anchored_def plain_def c_isspace_def dns_hosts_iscom_def)

definition host_entry_ok :: "dns_hosts_entry \<Rightarrow> bool" where
  "host_entry_ok e \<longleftrightarrow> (\<exists>a w al. e = host_entry a w al \<and> addr_ok a \<and> good_word w \<and> length w \<le> 254)"

lemma dump_line:
  assumes "ntop_ok pton ntop" "addr_ok a" "good_word w" "length w \<le> 254"
  shows "\<exists>l. dns_hosts_dump ntop (host_entry a w al # hosts) =
      map_option (\<lambda>rest. l @ 10 # rest) (dns_hosts_dump ntop hosts) \<and>
    10 \<notin> set l \<and> 0 \<notin> set l \<and> words_ok (words_of l) \<and> line_entries pton l = [host_entry a w False]"
proof -
  let ?t = "addr_text ntop a" and ?n = "anchored w"
  have t: "good_word ?t" "length ?t \<le> 46" "host_addr pton ?t = Some a" using assms(1,2) by (auto simp: ntop_ok_def)
  have n: "good_word ?n" "length ?n \<le> 255" using good_anchored [OF assms(3)] assms(4) by (auto simp: anchored_def)
  let ?l = "?t @ replicate (16 - length ?t) 32 @ [32] @ ?n"
  have ws: "words_of ?l = [?t, ?n]"
  proof -
    have "replicate k 32 @ [32] @ ?n = 32 # replicate k 32 @ ?n" for k
      by (simp only: replicate_app_Cons_same append_Cons append_Nil)
    then show ?thesis using words_of_word(2) [OF t(1)] words_of_word(1) [OF n(1)]
      by (simp only: words_of_spaces)
  qed
  have "c_strlen (he_host (host_entry a w al)) = Some (length ?n)"
    using c_strlen_append [of ?n] n by (simp add: host_entry_def name_buf_cstr good_word_def)
  moreover have "take (length ?n) (he_host (host_entry a w al)) = ?n"
    using n(2) by (simp add: host_entry_def name_buf_def)
  ultimately have "dns_hosts_dump ntop (host_entry a w al # hosts) =
      map_option (\<lambda>rest. ?l @ 10 # rest) (dns_hosts_dump ntop hosts)"
    by (cases "dns_hosts_dump ntop hosts") (simp_all add: host_entry_def INET_ADDRSTRLEN_def Let_def)
  moreover have "10 \<notin> set ?l" using t(1) n(1) plain_simps [of 10] by (auto simp: good_word_def)
  moreover have "0 \<notin> set ?l" using t(1) n(1) by (auto simp: good_word_def)
  moreover have "words_ok (words_of ?l)" using ws t(2) n(2) by (simp add: words_ok_def)
  moreover have "line_entries pton ?l = [host_entry a w False]"
    using ws t(3) by (simp add: line_entries_def host_entry_def) (simp add: anchored_def)
  ultimately show ?thesis by blast
qed

lemma dump_loads:
  assumes "ntop_ok pton ntop" "\<forall>e \<in> set hosts. host_entry_ok e"
  shows "\<exists>fp. dns_hosts_dump ntop hosts = Some fp \<and> 0 \<notin> set fp \<and>
    (\<forall>l \<in> set (lines_of fp). words_ok (words_of l)) \<and>
    file_entries pton fp = map (\<lambda>e. e\<lparr>he_alias := False\<rparr>) hosts"
  using assms(2)
proof (induction hosts)
  case Nil
  then show ?case by (simp add: file_entries_def line_entries_def words_of.simps words_ok_def)
next
  case (Cons e hosts)
  then obtain fp where fp: "dns_hosts_dump ntop hosts = Some fp" "0 \<notin> set fp"
    "\<forall>l \<in> set (lines_of fp). words_ok (words_of l)"
    "file_entries pton fp = map (\<lambda>e. e\<lparr>he_alias := False\<rparr>) hosts" by auto
  obtain a w al where e: "e = host_entry a w al" "addr_ok a" "good_word w" "length w \<le> 254"
    using Cons.prems by (auto simp: host_entry_ok_def)
  obtain l where l: "dns_hosts_dump ntop (e # hosts) = Some (l @ 10 # fp)" "10 \<notin> set l" "0 \<notin> set l"
    "words_ok (words_of l)" "line_entries pton l = [host_entry a w False]"
    using dump_line [OF assms(1) e(2-4), of al hosts] fp(1) e(1) by auto
  moreover have "e\<lparr>he_alias := False\<rparr> = host_entry a w False" by (simp add: e(1) host_entry_def)
  ultimately show ?case using fp by (simp add: file_entries_def lines_of_append)
qed

lemma file_entries_ok:
  assumes "pton_ok pton" "0 \<notin> set fp" "\<forall>l \<in> set (lines_of fp). \<forall>w \<in> set (words_of l). length w \<le> 254"
    "e \<in> set (file_entries pton fp)"
  shows "host_entry_ok e"
proof -
  obtain l where l: "l \<in> set (lines_of fp)" "e \<in> set (line_entries pton l)"
    using assms(4) by (auto simp: file_entries_def)
  have "set l \<subseteq> set fp" using l(1)
  proof (induction fp arbitrary: l)
    case (Cons c fp)
    then show ?case by (fastforce split: if_splits list.splits)
  qed simp
  then have "0 \<notin> set l" using assms(2) by auto
  then have "\<forall>w \<in> set (words_of l). good_word w \<and> length w \<le> 254" using good_words assms(3) l(1) by blast
  moreover obtain w n ns where ws: "words_of l = w # n # ns"
    using l(2) by (cases "words_of l" rule: remdups_adj.cases) (auto simp: line_entries_def)
  moreover obtain a where a: "host_addr pton w = Some a"
    using l(2) ws by (cases "host_addr pton w") (auto simp: line_entries_def)
  moreover note host_addr_ok [OF assms(1) a]
  moreover have "e = host_entry a n False \<or> (\<exists>n' \<in> set ns. e = host_entry a n' True)"
    using l(2) ws a by (auto simp: line_entries_def)
  ultimately show ?thesis unfolding host_entry_ok_def by (metis list.set_intros)
qed

text \<open>C20: what \<open>dns_hosts_loadfile\<close> reads from a file of words of at most 254 bytes, \<open>dns_hosts_dump\<close> writes as a
  file that reads as the same table, but for the aliases, which come back as names of their own; for every
  \<open>inet_ntop\<close> whose texts \<open>inet_pton\<close> reads.\<close>

theorem dns_hosts_dump_loadfile:
  assumes "pton_ok pton" "ntop_ok pton ntop" "0 \<notin> set fp"
    and "\<forall>l \<in> set (lines_of fp). \<forall>w \<in> set (words_of l). length w \<le> 254"
  shows "\<exists>hosts fp'. dns_hosts_loadfile pton [] fp = Some (hosts, None) \<and> dns_hosts_dump ntop hosts = Some fp' \<and>
    dns_hosts_loadfile pton [] fp' = Some (map (\<lambda>e. e\<lparr>he_alias := False\<rparr>) hosts, None)"
proof -
  have "\<forall>l \<in> set (lines_of fp). words_ok (words_of l)" using assms(4) by (fastforce simp: words_ok_def)
  then have "dns_hosts_loadfile pton [] fp = Some (file_entries pton fp, None)"
    using hosts_loadfile_entries [OF assms(3,1)] by simp
  moreover obtain fp' where "dns_hosts_dump ntop (file_entries pton fp) = Some fp'" "0 \<notin> set fp'"
    "\<forall>l \<in> set (lines_of fp'). words_ok (words_of l)"
    "file_entries pton fp' = map (\<lambda>e. e\<lparr>he_alias := False\<rparr>) (file_entries pton fp)"
    using dump_loads [OF assms(2)] file_entries_ok [OF assms(1,3,4)] by blast
  ultimately show ?thesis using hosts_loadfile_entries [OF _ assms(1)] by fastforce
qed

subsection \<open>Examples\<close>

text \<open>Addresses as text, for the examples: 32 binary digits, or a colon and two letters for each byte.\<close>

definition letters :: "bytes \<Rightarrow> bytes" where
  "letters a6 = 58 # concat (map (\<lambda>b. [of_nat (65 + unat b div 16), of_nat (65 + unat b mod 16)]) a6)"

definition of_letters :: "bytes \<Rightarrow> bytes" where
  "of_letters w =
     map (\<lambda>i. of_nat ((unat (w ! (1 + 2 * i)) - 65) * 16 + (unat (w ! (2 + 2 * i)) - 65))) [0..<16]"

definition digits_ntop :: inet_ntop where
  "digits_ntop = (\<lambda>a. map (\<lambda>i. if bit a i then 49 else 48) [0..<32], letters)"

definition digits_pton :: inet_pton where
  "digits_pton = (\<lambda>w. if set (take 32 w) \<subseteq> {48, 49} then Some (horner_sum of_bool 2 (map (\<lambda>c. c = 49) (take 32 w)))
     else None, \<lambda>w. Some (of_letters w))"

lemma digits_pton_ok: "pton_ok digits_pton"
proof -
  have "horner_sum of_bool 2 bs < (2::nat) ^ length bs" for bs
    by (induction bs) auto
  then have "horner_sum of_bool 2 (map (\<lambda>c. c = (49 :: byte)) (take 32 w)) < (2::nat) ^ 32" for w :: bytes
    by (metis (no_types, lifting) length_map length_take min.cobounded2 order_less_le_trans one_le_numeral power_increasing)
  then show ?thesis by (simp add: pton_ok_def digits_pton_def of_letters_def)
qed

lemma concat_pairs_nth:
  "i < length xs \<Longrightarrow> concat (map (\<lambda>x. [f x, g x]) xs) ! (2 * i) = f (xs ! i) \<and>
   concat (map (\<lambda>x. [f x, g x]) xs) ! Suc (2 * i) = g (xs ! i)"
proof (induction xs arbitrary: i)
  case (Cons x xs)
  then show ?case by (cases i) auto
qed simp

lemma unat_letter: "n < 16 \<Longrightarrow> unat (of_nat (65 + n) :: byte) = 65 + n"
  by (simp only: unat_of_nat) simp

lemma length_letters: "length (letters a6) = 1 + 2 * length a6"
  by (simp add: letters_def length_concat comp_def sum_list_triv)

lemma of_letters:
  assumes "length a6 = 16"
  shows "of_letters (letters a6 @ r) = a6"
proof (rule nth_equalityI)
  fix i assume "i < length (of_letters (letters a6 @ r))"
  then have i: "i < 16" by (simp add: of_letters_def)
  let ?t = "letters a6 @ r"
  have "?t ! (1 + 2 * i) = of_nat (65 + unat (a6 ! i) div 16)" "?t ! (2 + 2 * i) = of_nat (65 + unat (a6 ! i) mod 16)"
    using concat_pairs_nth [of i a6 "\<lambda>b. of_nat (65 + unat b div 16) :: byte" "\<lambda>b. of_nat (65 + unat b mod 16) :: byte"]
      length_letters [of a6] assms i
    by (simp_all add: nth_append letters_def)
  moreover have "unat (a6 ! i) div 16 < 16" "unat (a6 ! i) mod 16 < 16"
    using unat_byte_less [of "a6 ! i"] by (linarith, simp)
  ultimately have c: "unat (?t ! (1 + 2 * i)) = 65 + unat (a6 ! i) div 16" "unat (?t ! (2 + 2 * i)) = 65 + unat (a6 ! i) mod 16"
    by (simp_all only: unat_letter)
  have "of_letters ?t ! i = of_nat ((unat (?t ! (1 + 2 * i)) - 65) * 16 + (unat (?t ! (2 + 2 * i)) - 65))"
    using i by (simp only: of_letters_def nth_map length_upt nth_upt diff_zero add_0)
  then show "of_letters ?t ! i = a6 ! i" by (simp only: c diff_add_inverse div_mult_mod_eq) simp
qed (simp add: of_letters_def assms)

lemma good_letters: "good_word (letters a6)"
proof -
  have "plain c \<and> c \<noteq> 0" if "unat c = 65 + n" "n < 16" for c :: byte and n
    using that by (auto simp: plain_def c_isspace_def dns_hosts_iscom_def word_le_nat_alt word_unat_eq_iff)
  from this [OF unat_letter] have "plain (of_nat (65 + n)) \<and> of_nat (65 + n) \<noteq> (0 :: byte)" if "n < 16" for n
    using that by blast
  moreover have "unat b div 16 < 16" for b :: byte using unat_byte_less [of b] by linarith
  ultimately have "\<forall>c \<in> set (letters a6). c = 58 \<or> plain c \<and> c \<noteq> 0"
    by (auto simp: letters_def simp del: of_nat_add)
  moreover have "plain 58" by (simp add: plain_def c_isspace_def dns_hosts_iscom_def)
  moreover have "letters a6 \<noteq> []" by (simp add: letters_def)
  ultimately show ?thesis by (auto simp: good_word_def)
qed

lemma digits_ntop_ok: "ntop_ok digits_pton digits_ntop"
  unfolding ntop_ok_def
proof (intro allI impI)
  fix a
  assume a: "addr_ok a"
  show "good_word (addr_text digits_ntop a) \<and> length (addr_text digits_ntop a) \<le> 46 \<and>
    host_addr digits_pton (addr_text digits_ntop a) = Some a"
  proof (cases a)
    case (Inl a4)
    let ?t = "map (\<lambda>i. if bit a4 i then 49 else 48) [0..<32] :: bytes"
    have t: "addr_text digits_ntop a = ?t" by (simp add: addr_text_def digits_ntop_def Inl)
    have "horner_sum of_bool 2 (map (\<lambda>c. c = 49) ?t) = take_bit 32 a4"
      by (simp add: horner_sum_bit_eq_take_bit [symmetric] comp_def if_distrib cong: if_cong)
    also have "\<dots> = a4" using a by (simp add: Inl addr_ok_def take_bit_nat_eq_self)
    finally have "host_addr digits_pton ?t = Some a"
      by (auto simp: host_addr_def dns_pton_def digits_pton_def Inl AF_INET_def AF_INET6_def)
    moreover have "good_word ?t" by (auto simp: good_word_def plain_def c_isspace_def dns_hosts_iscom_def)
    ultimately show ?thesis unfolding t by simp
  next
    case (Inr a6)
    have l: "length a6 = 16" using a by (simp add: Inr addr_ok_def)
    have t: "addr_text digits_ntop a = letters a6" by (simp add: addr_text_def digits_ntop_def Inr)
    have "58 \<in> set (letters a6)" by (simp add: letters_def)
    then have "host_addr digits_pton (letters a6) = Some a"
      by (simp add: host_addr_def dns_pton_def digits_pton_def of_letters [OF l] Inr)
    then show ?thesis unfolding t using good_letters length_letters [of a6] l by simp
  qed
qed

definition example_hosts :: bytes where
  "example_hosts = of_string (replicate 32 CHR ''1'' @ '' gateway router # both\<newline>\<newline>x y'')"

lemma example_lines:
  "lines_of example_hosts = [of_string (replicate 32 CHR ''1'' @ '' gateway router # both''), [], of_string ''x y'']"
  by (simp add: example_hosts_def of_string_def replicate_num)

lemma example_words:
  "map words_of (lines_of example_hosts) =
   [[of_string (replicate 32 CHR ''1''), of_string ''gateway'', of_string ''router''], [], [of_string ''x'', of_string ''y'']]"
  by (simp add: example_lines of_string_def replicate_num words_of.simps plain_def c_isspace_def dns_hosts_iscom_def)

lemma example_good:
  "0 \<notin> set example_hosts" "\<forall>l \<in> set (lines_of example_hosts). \<forall>w \<in> set (words_of l). length w \<le> 254"
proof -
  show "0 \<notin> set example_hosts" by (simp add: example_hosts_def of_string_def)
  have "\<forall>ws \<in> set (map words_of (lines_of example_hosts)). \<forall>w \<in> set ws. length w \<le> 254"
    unfolding example_words by (simp add: of_string_def)
  then show "\<forall>l \<in> set (lines_of example_hosts). \<forall>w \<in> set (words_of l). length w \<le> 254" by simp
qed

lemma example_entries:
  "file_entries digits_pton example_hosts =
     [host_entry (Inl 4294967295) (of_string ''gateway'') False, host_entry (Inl 4294967295) (of_string ''router'') True]"
proof -
  have f: "file_entries pton fp = concat (map (\<lambda>ws. case ws of
     w # n # ns \<Rightarrow> (case host_addr pton w of
        Some a \<Rightarrow> host_entry a n False # map (\<lambda>n. host_entry a n True) ns
      | None \<Rightarrow> [])
   | _ \<Rightarrow> []) (map words_of (lines_of fp)))" for pton fp
    by (simp add: file_entries_def line_entries_def [abs_def] comp_def)
  have "host_addr digits_pton (of_string (replicate 32 CHR ''1'')) = Some (Inl 4294967295)"
    "host_addr digits_pton (of_string ''x'') = None"
    by (simp_all add: host_addr_def dns_pton_def digits_pton_def of_string_def AF_INET_def AF_INET6_def HOSTS_WORD_eq
        replicate_num)
  then show ?thesis by (simp add: f example_words)
qed

theorem dns_hosts_loadfile_correct_witness:
  "dns_hosts_loadfile digits_pton [] example_hosts =
     Some ([host_entry (Inl 4294967295) (of_string ''gateway'') False,
            host_entry (Inl 4294967295) (of_string ''router'') True], None)"
proof -
  have "\<forall>l \<in> set (lines_of example_hosts). words_ok (words_of l)"
    using example_good(2) by (fastforce simp: words_ok_def)
  from dns_hosts_loadfile_correct [OF example_good(1) digits_pton_ok this, of "[]"] show ?thesis
    by (simp add: example_entries)
qed

theorem dns_hosts_dump_loadfile_witness:
  "\<exists>hosts fp'. dns_hosts_loadfile digits_pton [] example_hosts = Some (hosts, None) \<and>
     dns_hosts_dump digits_ntop hosts = Some fp' \<and>
     dns_hosts_loadfile digits_pton [] fp' = Some (map (\<lambda>e. e\<lparr>he_alias := False\<rparr>) hosts, None)"
  by (rule dns_hosts_dump_loadfile [OF digits_pton_ok digits_ntop_ok example_good])

end
