(* ===== verification/NssFile.thy ===== *)
theory NssFile
  imports Nssconf
begin

section \<open>The name service switch file\<close>

text \<open>
  \<open>dns_nssconf_dump\<close> writes the sources of a configuration as the \<open>hosts\<close> line of an \<open>nsswitch.conf\<close>, and
  \<open>dns_nssconf_loadfile\<close> reads them back: the tokens of the line, the criteria in brackets, the string
  \<open>lookup\<close> they are stored in, and \<open>dns_nssconf_next\<close>, which takes that string apart again.
\<close>

subsection \<open>Writing\<close>

definition dns_nssconf_dump_status :: "nssconf_keyword \<Rightarrow> nssconf_keyword \<Rightarrow> nat \<Rightarrow> bytes \<times> nat" where
  "dns_nssconf_dump_status status action count =
     (if status = DNS_NSSCONF_SUCCESS \<and> action = DNS_NSSCONF_RETURN \<or>
         status \<noteq> DNS_NSSCONF_SUCCESS \<and> action = DNS_NSSCONF_CONTINUE then ([], count)
      else ([32] @ (if count = 0 then [91] else []) @
        of_string (dns_nssconf_k2s status @ ''='' @ dns_nssconf_k2s action), count + 1))"

definition nss_dump_source :: "dns_nssconf_source \<Rightarrow> bytes" where
  "nss_dump_source src = (
     let (a, n) = dns_nssconf_dump_status DNS_NSSCONF_SUCCESS (ns_success src) 0;
         (b, n) = dns_nssconf_dump_status DNS_NSSCONF_NOTFOUND (ns_notfound src) n;
         (c, n) = dns_nssconf_dump_status DNS_NSSCONF_UNAVAIL (ns_unavail src) n;
         (d, n) = dns_nssconf_dump_status DNS_NSSCONF_TRYAGAIN (ns_tryagain src) n
     in of_string ('' '' @ dns_nssconf_k2s (ns_source src)) @ a @ b @ c @ d @ (if n \<noteq> 0 then [93] else []))"

definition nss_dump_step :: "dns_resolv_conf \<Rightarrow> nat \<times> bytes \<Rightarrow> (nat \<times> bytes + bytes) option" where
  "nss_dump_step rc = (\<lambda>(i, fp).
     (let (hit, src, i) = dns_nssconf_next rc i in
      Some (if hit then Inl (i, fp @ nss_dump_source src) else Inr (fp @ [10]))))"

definition dns_nssconf_dump :: "dns_resolv_conf \<Rightarrow> bytes option" where
  "dns_nssconf_dump rc = c_while (nss_dump_step rc) (0, of_string ''hosts:'')"

subsection \<open>The sources of a configuration\<close>

text \<open>The criteria that differ from the defaults, and the code of a source in \<open>lookup\<close>.\<close>

definition nss_pairs :: "dns_nssconf_source \<Rightarrow> (nssconf_keyword \<times> nssconf_keyword) list" where
  "nss_pairs src = filter (\<lambda>(s, a). (s = DNS_NSSCONF_SUCCESS) \<noteq> (a = DNS_NSSCONF_RETURN))
     [(DNS_NSSCONF_SUCCESS, ns_success src), (DNS_NSSCONF_NOTFOUND, ns_notfound src),
      (DNS_NSSCONF_UNAVAIL, ns_unavail src), (DNS_NSSCONF_TRYAGAIN, ns_tryagain src)]"

definition src_ok :: "dns_nssconf_source \<Rightarrow> bool" where
  "src_ok src \<longleftrightarrow> {ns_success src, ns_notfound src, ns_unavail src, ns_tryagain src} \<subseteq> {DNS_NSSCONF_RETURN, DNS_NSSCONF_CONTINUE}"

definition nss_code :: "dns_nssconf_source \<Rightarrow> bytes" where
  "nss_code src = dns_nssconf_k2c (ns_source src) #
     concat (map (\<lambda>(s, a). [dns_nssconf_k2c s, dns_nssconf_k2c a]) (nss_pairs src))"

lemma length_nss_code: "length (nss_code src) = 1 + 2 * length (nss_pairs src)"
  by (simp add: nss_code_def length_concat comp_def split_beta sum_list_triv)

fun set_status :: "nssconf_keyword \<Rightarrow> nssconf_keyword \<Rightarrow> dns_nssconf_source \<Rightarrow> dns_nssconf_source" where
  "set_status DNS_NSSCONF_SUCCESS a src = src\<lparr>ns_success := a\<rparr>"
| "set_status DNS_NSSCONF_NOTFOUND a src = src\<lparr>ns_notfound := a\<rparr>"
| "set_status DNS_NSSCONF_UNAVAIL a src = src\<lparr>ns_unavail := a\<rparr>"
| "set_status DNS_NSSCONF_TRYAGAIN a src = src\<lparr>ns_tryagain := a\<rparr>"
| "set_status _ a src = src"

definition is_status :: "nssconf_keyword \<Rightarrow> bool" where
  "is_status s \<longleftrightarrow> s \<in> {DNS_NSSCONF_SUCCESS, DNS_NSSCONF_NOTFOUND, DNS_NSSCONF_UNAVAIL, DNS_NSSCONF_TRYAGAIN}"

definition is_action :: "nssconf_keyword \<Rightarrow> bool" where
  "is_action a \<longleftrightarrow> a \<in> {DNS_NSSCONF_RETURN, DNS_NSSCONF_CONTINUE}"

lemma set_status_ok: "is_action a \<Longrightarrow> src_ok src \<Longrightarrow> src_ok (set_status s a src)"
  by (cases s) (simp_all add: src_ok_def is_action_def)

lemma set_status_source: "ns_source (set_status s a src) = ns_source src"
  by (cases s) simp_all

lemma set_status_pairs: "length (nss_pairs (set_status s a src)) \<le> length (nss_pairs src) + 1"
  by (cases s) (simp_all add: nss_pairs_def)

lemma next_status_Suc:
  "nss_next_status (Suc k) rc src st =
     (let s = dns_nssconf_c2k (dns_nssconf_peek rc st); a = dns_nssconf_c2k (dns_nssconf_peek rc (st + 1)) in
      if dns_nssconf_peek rc st \<noteq> 0 \<and> dns_nssconf_peek rc (st + 1) \<noteq> 0 \<and> is_action a \<and> is_status s
      then nss_next_status k rc (set_status s a src) (st + 2) else (src, st))"
  by (cases "dns_nssconf_c2k (dns_nssconf_peek rc st)") (auto simp: Let_def is_action_def is_status_def)

declare nss_next_status.simps(2) [simp del]

lemma next_status:
  assumes "nss_next_status k rc src st = (src', st')" "src_ok src"
  shows "src_ok src' \<and> ns_source src' = ns_source src \<and> st \<le> st' \<and>
    2 * length (nss_pairs src') + st \<le> 2 * length (nss_pairs src) + st' \<and>
    (st' = st \<or> dns_nssconf_peek rc (st' - 1) \<noteq> 0)"
  using assms
proof (induction k arbitrary: src st)
  case (Suc k)
  let ?s = "dns_nssconf_c2k (dns_nssconf_peek rc st)" and ?a = "dns_nssconf_c2k (dns_nssconf_peek rc (st + 1))"
  show ?case
  proof (cases "dns_nssconf_peek rc st \<noteq> 0 \<and> dns_nssconf_peek rc (st + 1) \<noteq> 0 \<and> is_action ?a \<and> is_status ?s")
    case True
    then have "nss_next_status k rc (set_status ?s ?a src) (st + 2) = (src', st')"
      using Suc.prems(1) by (simp add: next_status_Suc Let_def)
    from Suc.IH [OF this set_status_ok] True Suc.prems(2) set_status_source [of ?s ?a src] set_status_pairs [of ?s ?a src]
    show ?thesis by (auto simp: diff_Suc split: nat.splits)
  next
    case False
    then show ?thesis using Suc.prems by (simp add: next_status_Suc Let_def split: if_splits)
  qed
qed simp


definition is_source :: "nssconf_keyword \<Rightarrow> bool" where
  "is_source k \<longleftrightarrow> k \<in> {DNS_NSSCONF_FILES, DNS_NSSCONF_DNS, DNS_NSSCONF_MDNS}"

definition src0 :: dns_nssconf_source where
  "src0 = \<lparr>ns_source = DNS_NSSCONF_INVALID, ns_success = DNS_NSSCONF_RETURN,
     ns_notfound = DNS_NSSCONF_CONTINUE, ns_unavail = DNS_NSSCONF_CONTINUE, ns_tryagain = DNS_NSSCONF_CONTINUE\<rparr>"

lemma next_source:
  assumes "nss_next_source k rc src0 st = (src, st')" "ns_source src \<noteq> DNS_NSSCONF_INVALID"
  shows "src_ok src \<and> is_source (ns_source src) \<and> st + length (nss_code src) \<le> st' \<and> dns_nssconf_peek rc (st' - 1) \<noteq> 0"
  using assms
proof (induction k arbitrary: st)
  case 0
  then show ?case by (auto simp: src0_def)
next
  case (Suc k)
  let ?s = "dns_nssconf_c2k (dns_nssconf_peek rc st)"
  show ?case
  proof (cases "dns_nssconf_peek rc st \<noteq> 0")
    case True
    show ?thesis
    proof (cases "is_source ?s")
      case t: True
      then have n: "nss_next_status LOOKUPS rc (src0\<lparr>ns_source := ?s\<rparr>) (st + 1) = (src, st')"
        using Suc.prems(1) True by (simp add: is_source_def Let_def)
      moreover have "src_ok (src0\<lparr>ns_source := ?s\<rparr>)" "nss_pairs (src0\<lparr>ns_source := ?s\<rparr>) = []"
        by (simp_all add: src_ok_def src0_def nss_pairs_def)
      ultimately show ?thesis using next_status [OF n] t True by (auto simp: length_nss_code)
    next
      case False
      then have "nss_next_source k rc src0 (st + 1) = (src, st')"
        using Suc.prems(1) True by (simp add: is_source_def Let_def)
      from Suc.IH [OF this Suc.prems(2)] show ?thesis by simp
    qed
  next
    case False
    then show ?thesis using Suc.prems by (auto simp: src0_def)
  qed
qed

lemma peek_bound: "dns_nssconf_peek rc i \<noteq> 0 \<Longrightarrow> i < LOOKUPS"
  by (auto simp: dns_nssconf_peek_def split: if_splits)

lemma next_ok:
  assumes "dns_nssconf_next rc st = (True, src, st')"
  shows "src_ok src" "is_source (ns_source src)" "st + length (nss_code src) \<le> st'" "dns_nssconf_peek rc (st' - 1) \<noteq> 0"
    "st < st'" "st' \<le> LOOKUPS"
proof -
  have "nss_next_source (LOOKUPS + 1) rc src0 st = (src, st')" "ns_source src \<noteq> DNS_NSSCONF_INVALID"
    using assms by (auto simp: dns_nssconf_next_def src0_def split: prod.splits)
  from next_source [OF this] show "src_ok src" "is_source (ns_source src)" "st + length (nss_code src) \<le> st'"
    "dns_nssconf_peek rc (st' - 1) \<noteq> 0" by simp_all
  then show "st < st'" "st' \<le> LOOKUPS" using peek_bound [of rc "st' - 1"] by (simp_all add: length_nss_code)
qed

function nss_sources :: "dns_resolv_conf \<Rightarrow> nat \<Rightarrow> dns_nssconf_source list" where
  "nss_sources rc i = (case dns_nssconf_next rc i of
     (hit, src, i') \<Rightarrow> if hit then src # nss_sources rc i' else [])"
  by pat_completeness auto

lemma next_decreases: "dns_nssconf_next rc i = (True, src, i') \<Longrightarrow> LOOKUPS - i' < LOOKUPS - i"
  using next_ok(5,6) [of rc i src i'] by simp

termination nss_sources
  by (relation "measure (\<lambda>(rc, i). LOOKUPS - i)") (simp, metis (full_types) case_prod_conv in_measure next_decreases)

declare nss_sources.simps [simp del]

lemma nss_dump_from:
  "c_while (nss_dump_step rc) (i, fp) = Some (fp @ concat (map nss_dump_source (nss_sources rc i)) @ [10])"
proof (induction rc i arbitrary: fp rule: nss_sources.induct)
  case (1 rc i)
  obtain hit src i' where n: "dns_nssconf_next rc i = (hit, src, i')" by (cases "dns_nssconf_next rc i") auto
  show ?case
  proof (cases hit)
    case True
    then have "nss_dump_step rc (i, fp) = Some (Inl (i', fp @ nss_dump_source src))" by (simp add: nss_dump_step_def n)
    from c_while_next [of "nss_dump_step rc", OF this] 1 [OF n [symmetric] refl True]
    show ?thesis by (simp add: nss_sources.simps [of rc i] n True)
  next
    case False
    then have "nss_dump_step rc (i, fp) = Some (Inr (fp @ [10]))" by (simp add: nss_dump_step_def n)
    from c_while_stop [of "nss_dump_step rc", OF this] show ?thesis by (simp add: nss_sources.simps [of rc i] n False)
  qed
qed

definition nss_codes :: "dns_nssconf_source list \<Rightarrow> bytes" where
  "nss_codes srcs = concat (map nss_code srcs)"

lemma nss_sources_ok:
  "(\<forall>src \<in> set (nss_sources rc i). src_ok src \<and> is_source (ns_source src)) \<and>
   (nss_sources rc i = [] \<or> i + length (nss_codes (nss_sources rc i)) \<le> LOOKUPS - (if rc_lookup rc ! (LOOKUPS - 1) = 0 then 1 else 0))"
proof (induction rc i rule: nss_sources.induct)
  case (1 rc i)
  obtain hit src i' where n: "dns_nssconf_next rc i = (hit, src, i')" by (cases "dns_nssconf_next rc i") auto
  show ?case
  proof (cases hit)
    case True
    from True have n': "dns_nssconf_next rc i = (True, src, i')" using n by simp
    note ok = next_ok [OF n']
    have "i' \<le> LOOKUPS - (if rc_lookup rc ! (LOOKUPS - 1) = 0 then 1 else 0)"
    proof (cases "i' = LOOKUPS")
      case True
      then show ?thesis using ok(4) by (auto simp: dns_nssconf_peek_def)
    qed (use ok(6) in auto)
    then show ?thesis using 1 [OF n [symmetric] refl True] ok
      by (auto simp: nss_sources.simps [of rc i] n True nss_codes_def)
  next
    case False
    then show ?thesis by (simp add: nss_sources.simps [of rc i] n)
  qed
qed

subsection \<open>The tokens\<close>

text \<open>The places of the tokens in the buffer, and a tokenizer that holds the words \<open>ws\<close>.\<close>

definition tok_off :: "bytes list \<Rightarrow> nat" where
  "tok_off ws = sum_list (map (\<lambda>w. length w + 1) ws)"

definition toks :: "dns_anyconf \<Rightarrow> bytes list \<Rightarrow> bool" where
  "toks cf ws \<longleftrightarrow> length ws \<le> ANYCONF_TOKENS \<and> length (cf_token cf) = ANYCONF_TOKENS \<and> length (cf_buffer cf) = ANYCONF_BUFFER \<and>
     cf_count cf = length ws \<and> cf_tp cf = tok_off ws \<and> cf_cp cf = tok_off ws \<and>
     (\<forall>i < length ws. cf_token cf ! i = tok_off (take i ws) \<and>
        (\<exists>r. drop (tok_off (take i ws)) (cf_buffer cf) = ws ! i @ 0 # r))"

definition word_char :: "byte \<Rightarrow> bool" where
  "word_char c = dns_anyconf_match ''%w_'' c"

text \<open>What follows a run of matching characters, and the stream behind it.\<close>

definition stops :: "(byte \<Rightarrow> bool) \<Rightarrow> bytes \<Rightarrow> bool" where
  "stops P rest \<longleftrightarrow> rest = [] \<or> \<not> P (hd rest)"

definition at :: "bytes \<Rightarrow> stream" where
  "at rest = (rest, rest = [])"

lemma fst_at [simp]: "fst (at r) = r"
  by (simp add: at_def)

lemma tok_off_snoc: "tok_off (ws @ [w]) = tok_off ws + length w + 1"
  by (simp add: tok_off_def)

lemma tok_off_take: "i < length ws \<Longrightarrow> tok_off (take i ws) + length (ws ! i) + 1 \<le> tok_off ws"
proof -
  assume i: "i < length ws"
  have "tok_off ws = tok_off (take i ws @ ws ! i # drop (Suc i) ws)" using i by (simp add: id_take_nth_drop [symmetric])
  then show ?thesis by (simp add: tok_off_def)
qed

lemma take_drop_cong:
  assumes "take t xs = take t ys" "k + n \<le> t"
  shows "take n (drop k xs) = take n (drop k ys)"
proof -
  have "take n (drop k zs) = drop k (take (n + k) (take t zs))" for zs :: "'a list"
    using assms(2) by (simp add: take_drop min_absorb1 add.commute)
  then show ?thesis using assms(1) by metis
qed

lemma skip_at:
  assumes "fst fp = xs @ rest" "\<forall>c \<in> set xs. dns_anyconf_match pat c" "stops (dns_anyconf_match pat) rest"
  shows "dns_anyconf_skip pat fp = (length xs, at rest)"
proof -
  have "dns_anyconf_skip_loop pat (xs @ rest) n = (n + length xs, at rest)" for n
    using assms(2,3)
  proof (induction xs arbitrary: n)
    case Nil
    then show ?case by (cases rest) (auto simp: stops_def at_def)
  qed simp
  then show ?thesis by (simp add: dns_anyconf_skip_def assms(1))
qed

lemma scan_none:
  assumes "stops (dns_anyconf_match pat) (fst fp)" "toks cf ws"
  shows "dns_anyconf_scan cf pat fp = Some (0, cf, at (fst fp))"
proof -
  have "dns_anyconf_scan_loop pat (fst fp) cf = Some (cf, at (fst fp), True)"
    using assms(1) by (cases "fst fp") (auto simp: stops_def at_def)
  then show ?thesis using assms(2) by (simp add: dns_anyconf_scan_def toks_def)
qed

lemma scan_loop_word:
  assumes "\<forall>c \<in> set w. dns_anyconf_match pat c" "stops (dns_anyconf_match pat) rest"
    "cf_cp cf + length w \<le> ANYCONF_BUFFER" "length (cf_buffer cf) = ANYCONF_BUFFER"
  shows "dns_anyconf_scan_loop pat (w @ rest) cf =
    Some (cf\<lparr>cf_buffer := take (cf_cp cf) (cf_buffer cf) @ w @ drop (cf_cp cf + length w) (cf_buffer cf),
             cf_cp := cf_cp cf + length w\<rparr>, at rest, True)"
  using assms
proof (induction w arbitrary: cf)
  case Nil
  then show ?case by (cases rest) (auto simp: stops_def at_def)
next
  case (Cons c w)
  let ?b = "cf_buffer cf" and ?p = "cf_cp cf"
  have p: "?p < length ?b" using Cons.prems by simp
  have "(?b[?p := c]) = take ?p ?b @ c # drop (Suc ?p) ?b" using p by (simp add: upd_conv_take_nth_drop)
  moreover have "take (Suc ?p) (?b[?p := c]) = take ?p ?b @ [c]" using p by (simp add: take_Suc_update)
  ultimately show ?case using Cons.IH [of "cf\<lparr>cf_buffer := ?b[?p := c], cf_cp := ?p + 1\<rparr>"] Cons.prems p
    by (simp add: dns_anyconf_addc_def add.commute [of "length w"])
qed

lemma scan_word:
  assumes "\<forall>c \<in> set w. word_char c" "w \<noteq> []" "0 \<notin> set w" "stops word_char rest" "toks cf ws"
    "tok_off ws + length w < ANYCONF_BUFFER" "length ws < ANYCONF_TOKENS" "fst fp = w @ rest"
  shows "\<exists>cf'. dns_anyconf_scan cf ''%w_'' fp = Some (length w, cf', at rest) \<and> toks cf' (ws @ [w])"
proof -
  note t = assms(5) [unfolded toks_def]
  let ?b = "take (tok_off ws) (cf_buffer cf) @ w @ drop (tok_off ws + length w) (cf_buffer cf)"
  let ?cf = "cf\<lparr>cf_buffer := ?b[tok_off ws + length w := 0], cf_token := (cf_token cf)[length ws := tok_off ws],
     cf_count := length ws + 1, cf_cp := tok_off ws + length w + 1, cf_tp := tok_off ws + length w + 1\<rparr>"
  have l: "length ?b = ANYCONF_BUFFER" using t assms(6) by simp
  have "dns_anyconf_scan_loop ''%w_'' (w @ rest) cf =
      Some (cf\<lparr>cf_buffer := ?b, cf_cp := tok_off ws + length w\<rparr>, at rest, True)"
    using scan_loop_word [of w "''%w_''" rest cf] assms t by (simp add: word_char_def [abs_def])
  then have s: "dns_anyconf_scan cf ''%w_'' fp = Some (length w, ?cf, at rest)"
    using t assms(2,6,7,8) l by (simp add: dns_anyconf_scan_def dns_anyconf_push_def Let_def)
  have "toks ?cf (ws @ [w])"
    unfolding toks_def
  proof (intro conjI allI impI)
    fix i assume i: "i < length (ws @ [w])"
    show "cf_token ?cf ! i = tok_off (take i (ws @ [w]))"
      using i t assms(7) by (cases "i = length ws") auto
    show "\<exists>r. drop (tok_off (take i (ws @ [w]))) (cf_buffer ?cf) = (ws @ [w]) ! i @ 0 # r"
    proof (cases "i = length ws")
      case True
      have u: "?b[tok_off ws + length w := 0] = take (tok_off ws) (cf_buffer cf) @ w @ 0 # drop (tok_off ws + length w + 1) (cf_buffer cf)"
        using assms(6) t by (simp add: list_update_append Cons_nth_drop_Suc [symmetric])
      show ?thesis using True assms(6) t by (simp add: u)
    next
      case False
      then have i: "i < length ws" using i by simp
      let ?o = "tok_off (take i ws)"
      obtain r where r: "drop ?o (cf_buffer cf) = ws ! i @ 0 # r" using t i by blast
      have le: "?o + length (ws ! i) + 1 \<le> tok_off ws" by (rule tok_off_take [OF i])
      have "take (length (ws ! i) + 1) (drop ?o (?b[tok_off ws + length w := 0])) = take (length (ws ! i) + 1) (drop ?o (cf_buffer cf))"
      proof -
        have "take (tok_off ws) (?b[tok_off ws + length w := 0]) = take (tok_off ws) (cf_buffer cf)"
          using t assms(6) by (simp add: list_update_append)
        from take_drop_cong [OF this] le show ?thesis by simp
      qed
      then have "take (length (ws ! i) + 1) (drop ?o (?b[tok_off ws + length w := 0])) = ws ! i @ [0]" by (simp add: r)
      then have "drop ?o (?b[tok_off ws + length w := 0]) = ws ! i @ 0 # drop (length (ws ! i) + 1) (drop ?o (?b[tok_off ws + length w := 0]))"
        by (metis append.assoc append_Cons append_Nil append_take_drop_id)
      then show ?thesis using i by (simp add: nth_append)
    qed
  qed (use t assms(2,6,7) l in \<open>simp_all add: tok_off_snoc\<close>)
  with s show ?thesis by blast
qed


lemma toks_word:
  assumes "toks cf ws" "i < length ws"
  shows "\<exists>r. cf_word cf i = dns_nssconf_keyword (ws ! i @ 0 # r)"
proof -
  obtain r where "drop (cf_token cf ! i) (cf_buffer cf) = ws ! i @ 0 # r" using assms by (auto simp: toks_def)
  moreover have "i < length (cf_token cf)" using assms by (simp add: toks_def)
  ultimately show ?thesis by (auto simp: cf_word_def)
qed

lemma toks_reset: "toks cf ws \<Longrightarrow> toks (dns_anyconf_reset cf) []"
  by (simp add: toks_def dns_anyconf_reset_def tok_off_def)

subsection \<open>Keywords\<close>

definition kw :: "nssconf_keyword \<Rightarrow> bytes" where
  "kw k = of_string (dns_nssconf_k2s k)"

definition named :: "nssconf_keyword \<Rightarrow> bool" where
  "named k \<longleftrightarrow> k \<noteq> DNS_NSSCONF_INVALID \<and> k \<noteq> DNS_NSSCONF_HOSTS"

lemmas match_simps = dns_anyconf_match_def of_string_def c_isalnum_def c_isalpha_def c_isdigit_def c_isspace_def

lemma kw_word:
  assumes "named k"
  shows "\<forall>c \<in> set (kw k). word_char c" "kw k \<noteq> []" "0 \<notin> set (kw k)" "length (kw k) \<le> 8"
  using assms by (cases k; simp add: named_def kw_def word_char_def match_simps)+

lemma kw_keyword: "named k \<Longrightarrow> dns_nssconf_keyword (kw k @ 0 # r) = Some k"
  by (cases k) (simp_all add: named_def kw_def dns_nssconf_keyword_def nssconf_list_def of_string_def c_tolower_def)

lemma toks_kw: "toks cf (map kw ks) \<Longrightarrow> i < length ks \<Longrightarrow> named (ks ! i) \<Longrightarrow> cf_word cf i = Some (ks ! i)"
  using toks_word [of cf "map kw ks" i] kw_keyword [of "ks ! i"] by auto

lemma scan_kw:
  assumes "fst fp = kw k @ rest" "named k" "stops word_char rest" "toks cf (map kw ks)" "length ks < ANYCONF_TOKENS"
    "\<forall>k \<in> set ks. named k"
  shows "\<exists>cf'. dns_anyconf_scan cf ''%w_'' fp = Some (length (kw k), cf', at rest) \<and> toks cf' (map kw (ks @ [k]))"
proof -
  have "sum_list (map (\<lambda>w. length w + 1) (map kw ks)) \<le> 9 * length ks"
    using assms(6) kw_word(4) by (induction ks) fastforce+
  then have "tok_off (map kw ks) + length (kw k) < ANYCONF_BUFFER"
    using assms(5) kw_word(4) [OF assms(2)] by (simp add: tok_off_def c_defs)
  then show ?thesis using scan_word [OF kw_word(1-3) [OF assms(2)] assms(3,4) _ _ assms(1)] assms(5) by simp
qed

subsection \<open>The text of a source\<close>

definition pair_ok :: "nssconf_keyword \<times> nssconf_keyword \<Rightarrow> bool" where
  "pair_ok p \<longleftrightarrow> is_status (fst p) \<and> is_action (snd p)"

fun pairs_text :: "(nssconf_keyword \<times> nssconf_keyword) list \<Rightarrow> bytes" where
  "pairs_text [] = []"
| "pairs_text ((s, a) # ps) = kw s @ [61] @ kw a @ (if ps = [] then [] else 32 # pairs_text ps)"

definition src_text :: "dns_nssconf_source \<Rightarrow> bytes" where
  "src_text src = kw (ns_source src) @
     (if nss_pairs src = [] then [] else [32, 91] @ pairs_text (nss_pairs src) @ [93])"

lemma dump_source_text: "src_ok src \<Longrightarrow> nss_dump_source src = 32 # src_text src"
  unfolding src_ok_def
  by (cases "ns_success src = DNS_NSSCONF_RETURN"; cases "ns_notfound src = DNS_NSSCONF_RETURN";
      cases "ns_unavail src = DNS_NSSCONF_RETURN"; cases "ns_tryagain src = DNS_NSSCONF_RETURN")
    (auto simp: nss_dump_source_def dns_nssconf_dump_status_def src_text_def nss_pairs_def kw_def of_string_def Let_def)

lemma nss_pairs_ok: "src_ok src \<Longrightarrow> \<forall>p \<in> set (nss_pairs src). pair_ok p"
  by (auto simp: nss_pairs_def src_ok_def pair_ok_def is_status_def is_action_def)

lemma length_nss_pairs: "length (nss_pairs src) \<le> 4"
  unfolding nss_pairs_def by (rule order_trans [OF length_filter_le]) simp

definition flat :: "(nssconf_keyword \<times> nssconf_keyword) list \<Rightarrow> nssconf_keyword list" where
  "flat ps = concat (map (\<lambda>(s, a). [s, a]) ps)"

lemma flat_simps [simp]: "flat [] = []" "flat ((s, a) # ps) = s # a # flat ps"
  by (simp_all add: flat_def)

lemma length_flat: "length (flat ps) = 2 * length ps"
  by (induction ps) auto

lemma ok_named: "is_status s \<Longrightarrow> named s" "is_action a \<Longrightarrow> named a" "is_source k \<Longrightarrow> named k"
  by (auto simp: is_status_def is_action_def is_source_def named_def)

lemma kw_hd: "named k \<Longrightarrow> word_char (hd (kw k))"
  using kw_word(1,2) [of k] by simp

lemma stops_word:
  "stops word_char (61 # r)" "stops word_char (93 # r)" "stops word_char (32 # r)" "stops word_char (10 # r)"
  by (simp_all add: stops_def word_char_def match_simps)

lemma word_char_stops:
  assumes "word_char c"
  shows "stops (dns_anyconf_match [CHR ''='', CHR '' '', CHR 0x09]) (c # r)"
    "stops (dns_anyconf_match [CHR '' '', CHR 0x09]) (c # r)"
    "stops (dns_anyconf_match [CHR ''['', CHR '' '', CHR 0x09]) (c # r)"
    "stops (dns_anyconf_match [CHR '']'', CHR '' '', CHR 0x09]) (c # r)"
    "stops (dns_anyconf_match [CHR '':'', CHR '' '', CHR 0x09]) (c # r)"
    "stops (dns_anyconf_match ''%s'') (c # r)"
  using assms by (auto simp: stops_def word_char_def match_simps word_le_nat_alt word_unat_eq_iff split: if_splits)

lemma kw_stops:
  assumes "named k"
  shows "stops (dns_anyconf_match [CHR ''='', CHR '' '', CHR 0x09]) (kw k @ r)"
    "stops (dns_anyconf_match [CHR '' '', CHR 0x09]) (kw k @ r)"
    "stops (dns_anyconf_match [CHR ''['', CHR '' '', CHR 0x09]) (kw k @ r)"
    "stops (dns_anyconf_match [CHR '']'', CHR '' '', CHR 0x09]) (kw k @ r)"
    "stops (dns_anyconf_match [CHR '':'', CHR '' '', CHR 0x09]) (kw k @ r)"
    "stops (dns_anyconf_match ''%s'') (kw k @ r)"
  using kw_word(1,2) [OF assms] word_char_stops by (cases "kw k"; simp)+

lemma pairs_text_hd:
  assumes "ps \<noteq> []" "\<forall>p \<in> set ps. pair_ok p"
  shows "\<exists>k r. pairs_text ps = kw k @ r \<and> named k"
proof -
  obtain s a ps' where "ps = (s, a) # ps'" using assms(1) by (cases ps) auto
  then have "pairs_text ps = kw s @ ([61] @ kw a @ (if ps' = [] then [] else 32 # pairs_text ps'))" "named s"
    using assms(2) by (auto simp: pair_ok_def ok_named)
  then show ?thesis by blast
qed

lemma criteria_loop:
  assumes "fst fp = pairs_text ps @ 93 # rest" "toks cf (map kw ks)" "\<forall>k \<in> set ks. named k"
    "length ks + 2 * length ps < ANYCONF_TOKENS" "\<forall>p \<in> set ps. pair_ok p"
  shows "\<exists>cf'. c_while nss_criteria_step (cf, fp) = Some (cf', at (93 # rest)) \<and> toks cf' (map kw (ks @ flat ps))"
  using assms
proof (induction ps arbitrary: cf ks fp)
  case Nil
  have "nss_criteria_step (cf, fp) = Some (Inr (cf, at (93 # rest)))"
    using scan_none [of "''%w_''" fp cf "map kw ks"] stops_word(2) Nil.prems(1,2)
    by (simp add: nss_criteria_step_def word_char_def [abs_def])
  from c_while_stop [of nss_criteria_step, OF this] Nil.prems(2) show ?case by simp
next
  case (Cons p ps)
  obtain s a where p: "p = (s, a)" by (cases p)
  have n: "named s" "named a" using Cons.prems(5) p by (auto simp: pair_ok_def ok_named)
  let ?more = "(if ps = [] then [] else 32 # pairs_text ps) @ 93 # rest"
  let ?next = "pairs_text ps @ 93 # rest"
  have st: "stops word_char ?more" using stops_word by simp
  obtain cf1 where 1: "dns_anyconf_scan cf ''%w_'' fp = Some (length (kw s), cf1, at (61 # kw a @ ?more))"
    "toks cf1 (map kw (ks @ [s]))"
    using scan_kw [OF _ n(1) stops_word(1) Cons.prems(2) _ Cons.prems(3), of fp "kw a @ ?more"] Cons.prems(1,4) p by auto
  have 2: "dns_anyconf_skip [CHR ''='', CHR '' '', CHR 0x09] (at (61 # kw a @ ?more)) = (1, at (kw a @ ?more))"
    using skip_at [of "at (61 # kw a @ ?more)" "[61]" "kw a @ ?more"] kw_stops(1) [OF n(2)] by (simp add: match_simps)
  obtain cf2 where 3: "dns_anyconf_scan cf1 ''%w_'' (at (kw a @ ?more)) = Some (length (kw a), cf2, at ?more)"
    "toks cf2 (map kw ((ks @ [s]) @ [a]))"
    using scan_kw [OF fst_at n(2) st 1(2)] Cons.prems(3,4) n(1) by auto
  have 4: "\<exists>m. dns_anyconf_skip [CHR '' '', CHR 0x09] (at ?more) = (m, at ?next)"
  proof (cases "ps = []")
    case True
    then show ?thesis using skip_at [of "at ?more" "[]" ?next] by (simp add: match_simps stops_def)
  next
    case False
    obtain k r where "pairs_text ps = kw k @ r" "named k"
      using pairs_text_hd [OF False] Cons.prems(5) by auto
    then show ?thesis using False skip_at [of "at ?more" "[32]" ?next] kw_stops(2) [of k] by (simp add: match_simps)
  qed
  then have "nss_criteria_step (cf, fp) = Some (Inl (cf2, at ?next))"
    using 1(1) 2 3(1) kw_word(2) [OF n(1)] kw_word(2) [OF n(2)] by (auto simp: nss_criteria_step_def Let_def)
  moreover have "\<exists>cf'. c_while nss_criteria_step (cf2, at ?next) = Some (cf', at (93 # rest)) \<and>
      toks cf' (map kw (((ks @ [s]) @ [a]) @ flat ps))"
    by (rule Cons.IH [OF fst_at 3(2)]) (use Cons.prems n in auto)
  ultimately show ?case by (simp add: c_while_next [of nss_criteria_step] p)
qed

definition pairs_code :: "(nssconf_keyword \<times> nssconf_keyword) list \<Rightarrow> bytes" where
  "pairs_code ps = concat (map (\<lambda>(s, a). [dns_nssconf_k2c s, dns_nssconf_k2c a]) ps)"

lemma pairs_code_simps [simp]:
  "pairs_code [] = []" "pairs_code ((s, a) # ps) = dns_nssconf_k2c s # dns_nssconf_k2c a # pairs_code ps"
  by (simp_all add: pairs_code_def)

lemma length_pairs_code: "length (pairs_code ps) = 2 * length ps"
  by (induction ps) auto

lemma wr_next:
  "length pre < length xs \<Longrightarrow> wr (pre @ drop (length pre) xs) (length pre) v =
     Some ((pre @ [v]) @ drop (length (pre @ [v])) xs)"
  by (simp add: wr_def list_update_append Cons_nth_drop_Suc [symmetric])

lemma nss_actions_codes:
  assumes "toks cf (map kw ks)" "drop i ks = flat ps" "\<forall>p \<in> set ps. pair_ok p" "length ps \<le> n"
    "length pre + 2 * length ps \<le> length lookup"
  shows "nss_actions n i cf (pre @ drop (length pre) lookup) (length pre) =
    Some ((pre @ pairs_code ps) @ drop (length (pre @ pairs_code ps)) lookup, length (pre @ pairs_code ps))"
  using assms
proof (induction ps arbitrary: n i pre)
  case Nil
  then have "length ks \<le> i" by simp
  moreover have "cf_count cf = length ks" using Nil.prems(1) by (simp add: toks_def)
  ultimately show ?case by (cases n) simp_all
next
  case (Cons p ps)
  obtain s a where p: "p = (s, a)" by (cases p)
  obtain m where n: "n = Suc m" "length ps \<le> m" using Cons.prems(4) by (cases n) auto
  have d: "drop i ks = s # a # flat ps" using Cons.prems(2) p by simp
  then have i: "i + 1 < length ks" "ks ! i = s" "ks ! Suc i = a" "drop (i + 2) ks = flat ps"
  proof -
    have "length (drop i ks) = length (s # a # flat ps)" using d by simp
    then show "i + 1 < length ks" by simp
    show "ks ! i = s" "ks ! Suc i = a" using d nth_drop [of i ks 0] nth_drop [of i ks 1] \<open>i + 1 < length ks\<close> by simp_all
    have "drop 2 (drop i ks) = flat ps" by (simp add: d)
    then show "drop (i + 2) ks = flat ps" by (simp add: add.commute)
  qed
  have sa: "is_status s" "is_action a" "named s" "named a"
    using Cons.prems(3) p by (auto simp: pair_ok_def ok_named)
  have w: "cf_word cf i = Some s" "cf_word cf (i + 1) = Some a"
    using toks_kw [OF Cons.prems(1), of i] toks_kw [OF Cons.prems(1), of "Suc i"] i sa by simp_all
  have c: "cf_count cf = length ks" using Cons.prems(1) by (simp add: toks_def)
  have l: "length pre < length lookup" "length (pre @ [dns_nssconf_k2c s]) < length lookup" using Cons.prems(5) by simp_all
  have "nss_actions n i cf (pre @ drop (length pre) lookup) (length pre) =
      nss_actions m (i + 2) cf ((pre @ [dns_nssconf_k2c s, dns_nssconf_k2c a]) @
        drop (length (pre @ [dns_nssconf_k2c s, dns_nssconf_k2c a])) lookup)
        (length (pre @ [dns_nssconf_k2c s, dns_nssconf_k2c a]))"
    using sa(2) i(1) w c sa(1) wr_next [OF l(1), of "dns_nssconf_k2c s"] wr_next [OF l(2), of "dns_nssconf_k2c a"]
    unfolding is_action_def insert_iff empty_iff simp_thms
    by (elim disjE) (simp_all add: n is_status_def Let_def)
  also have "\<dots> = Some ((pre @ pairs_code (p # ps)) @ drop (length (pre @ pairs_code (p # ps))) lookup, length (pre @ pairs_code (p # ps)))"
    using Cons.IH [OF Cons.prems(1) i(4) _ n(2), of "pre @ [dns_nssconf_k2c s, dns_nssconf_k2c a]"] Cons.prems(3,5)
    by (simp add: p)
  finally show ?case .
qed

fun srcs_text :: "dns_nssconf_source list \<Rightarrow> bytes" where
  "srcs_text [] = [10]"
| "srcs_text (src # srcs) = src_text src @ (if srcs = [] then [10] else 32 # srcs_text srcs)"

definition good_src :: "dns_nssconf_source \<Rightarrow> bool" where
  "good_src src \<longleftrightarrow> src_ok src \<and> is_source (ns_source src)"

lemma srcs_text_stops:
  assumes "\<forall>src \<in> set srcs. good_src src"
  shows "stops (dns_anyconf_match [CHR '' '', CHR 0x09]) (srcs_text srcs)"
    "stops (dns_anyconf_match [CHR '']'', CHR '' '', CHR 0x09]) (srcs_text srcs)"
    "stops (dns_anyconf_match [CHR '':'', CHR '' '', CHR 0x09]) (srcs_text srcs)"
    "hd (srcs_text srcs) \<noteq> 91" "srcs_text srcs \<noteq> []"
proof -
  have "srcs = [] \<or> (\<exists>k r. srcs_text srcs = kw k @ r \<and> named k)"
    using assms by (cases srcs) (auto simp: src_text_def good_src_def intro: ok_named)
  then have c: thesis if "srcs = [] \<Longrightarrow> thesis" "\<And>k r. srcs_text srcs = kw k @ r \<Longrightarrow> named k \<Longrightarrow> thesis" for thesis
    using that by blast
  show "stops (dns_anyconf_match [CHR '' '', CHR 0x09]) (srcs_text srcs)"
    by (rule c) (simp add: stops_def match_simps, simp add: kw_stops)
  show "stops (dns_anyconf_match [CHR '']'', CHR '' '', CHR 0x09]) (srcs_text srcs)"
    by (rule c) (simp add: stops_def match_simps, simp add: kw_stops)
  show "stops (dns_anyconf_match [CHR '':'', CHR '' '', CHR 0x09]) (srcs_text srcs)"
    by (rule c) (simp add: stops_def match_simps, simp add: kw_stops)
  have k: "kw k \<noteq> [] \<and> hd (kw k) \<noteq> 91" if "named k" for k
    using that by (cases k) (simp_all add: named_def kw_def of_string_def)
  show "hd (srcs_text srcs) \<noteq> 91" by (rule c) (simp, simp add: k)
  show "srcs_text srcs \<noteq> []" by (rule c) (simp, simp add: k)
qed

lemma criteria_ends:
  assumes "good_src src" "\<forall>src \<in> set srcs. good_src src" "toks cf (map kw [ns_source src])"
    "ending = (if srcs = [] then [10] else 32 # srcs_text srcs)"
    "fst fp = (if nss_pairs src = [] then srcs_text srcs else 91 # pairs_text (nss_pairs src) @ 93 # ending)"
  shows "\<exists>cf'. nss_criteria cf fp = Some (cf', at (srcs_text srcs)) \<and>
    toks cf' (map kw (ns_source src # flat (nss_pairs src)))"
proof -
  let ?k = "ns_source src" and ?ps = "nss_pairs src"
  have k: "named ?k" using assms(1) by (auto simp: good_src_def ok_named)
  note stop = srcs_text_stops [OF assms(2)]
  have peek: "dns_anyconf_peek fp = (Some (hd (fst fp)), at (fst fp))" if "fst fp \<noteq> []"
    using that by (cases "fst fp") (simp_all add: dns_anyconf_peek_def at_def)
  show ?thesis
  proof (cases "?ps = []")
    case True
    then have "nss_criteria cf fp = Some (cf, at (srcs_text srcs))"
      using peek assms(5) stop(4,5) by (simp add: nss_criteria_def)
    with True assms(3) show ?thesis by simp
  next
    case False
    let ?crit = "pairs_text ?ps @ 93 # ending"
    have ok: "\<forall>p \<in> set ?ps. pair_ok p" using nss_pairs_ok [of src] assms(1) by (simp add: good_src_def)
    obtain k' r where hd: "pairs_text ?ps = kw k' @ r" "named k'" using pairs_text_hd [OF False ok] by blast
    have 1: "dns_anyconf_skip [CHR ''['', CHR '' '', CHR 0x09] (at (91 # ?crit)) = (1, at ?crit)"
      using skip_at [of "at (91 # ?crit)" "[91]" ?crit] kw_stops(3) [OF hd(2)] by (simp add: match_simps hd(1))
    obtain cf2 where 2: "c_while nss_criteria_step (cf, at ?crit) = Some (cf2, at (93 # ending))"
      "toks cf2 (map kw ([?k] @ flat ?ps))"
      using criteria_loop [OF fst_at assms(3) _ _ ok, of ending] k length_nss_pairs [of src] by (auto simp: c_defs)
    obtain xs where xs: "ending = xs @ srcs_text srcs" "\<forall>c \<in> set xs. c = 32"
      by (rule that [of "if srcs = [] then [] else [32]"]) (simp_all add: assms(4))
    have m: "\<forall>c \<in> set (93 # xs). dns_anyconf_match [CHR '']'', CHR '' '', CHR 0x09] c"
      using xs(2) by (auto simp: match_simps)
    have 3: "dns_anyconf_skip [CHR '']'', CHR '' '', CHR 0x09] (at (93 # ending)) = (1 + length xs, at (srcs_text srcs))"
      using skip_at [OF _ m stop(2), of "at (93 # ending)"] xs(1) by simp
    show ?thesis using 1 2 3 peek assms(5) False by (simp add: nss_criteria_def Let_def)
  qed
qed

lemma store_code:
  assumes "good_src src" "toks cf (map kw (ns_source src # flat (nss_pairs src)))" "length lookup = LOOKUPS"
    "length pre + length (nss_code src) < LOOKUPS"
  shows "nss_store cf (pre @ drop (length pre) lookup) (length pre) =
    Some ((pre @ nss_code src) @ 0 # drop (length ((pre @ nss_code src) @ [0])) lookup, length (pre @ nss_code src))"
proof -
  let ?k = "ns_source src" and ?ps = "nss_pairs src"
  let ?ks = "?k # flat ?ps"
  have k: "is_source ?k" "named ?k" using assms(1) by (auto simp: good_src_def ok_named)
  have c: "cf_count cf = length ?ks" using assms(2) by (simp add: toks_def)
  have code: "nss_code src = dns_nssconf_k2c ?k # pairs_code ?ps" "length (nss_code src) = length ?ks"
    by (simp add: nss_code_def pairs_code_def, simp add: length_nss_code length_flat)
  have word: "cf_word cf 0 = Some ?k" using toks_kw [OF assms(2), of 0] k by simp
  have w1: "wr (pre @ drop (length pre) lookup) (length pre) (dns_nssconf_k2c ?k) =
      Some ((pre @ [dns_nssconf_k2c ?k]) @ drop (length (pre @ [dns_nssconf_k2c ?k])) lookup)"
    using assms(3,4) by (intro wr_next) simp
  have acts: "nss_actions (cf_count cf) 1 cf ((pre @ [dns_nssconf_k2c ?k]) @ drop (length (pre @ [dns_nssconf_k2c ?k])) lookup)
      (length (pre @ [dns_nssconf_k2c ?k])) =
    Some ((pre @ nss_code src) @ drop (length (pre @ nss_code src)) lookup, length (pre @ nss_code src))"
    using nss_actions_codes [OF assms(2), of 1 ?ps "cf_count cf" "pre @ [dns_nssconf_k2c ?k]" lookup]
      nss_pairs_ok [of src] assms(1,3,4) c code by (simp add: good_src_def length_flat length_pairs_code)
  have w2: "wr ((pre @ nss_code src) @ drop (length (pre @ nss_code src)) lookup) (length (pre @ nss_code src)) 0 =
      Some (((pre @ nss_code src) @ [0]) @ drop (length ((pre @ nss_code src) @ [0])) lookup)"
    using assms(3,4) by (intro wr_next) simp
  have "\<not> LOOKUPS - length pre < cf_count cf + 1" using assms(4) c code(2) by simp
  moreover have "?k \<in> {DNS_NSSCONF_DNS, DNS_NSSCONF_MDNS, DNS_NSSCONF_FILES}" using k(1) by (auto simp: is_source_def)
  ultimately show ?thesis using word w1 acts w2 by (simp add: nss_store_def)
qed

lemma source_step:
  assumes "fst fp = src_text src @ (if srcs = [] then [10] else 32 # srcs_text srcs)" "good_src src"
    "\<forall>src \<in> set srcs. good_src src" "toks cf []" "length lookup = LOOKUPS"
    "length pre + length (nss_code src) < LOOKUPS"
  shows "\<exists>cf'. nss_source_step (cf, fp, pre @ drop (length pre) lookup, length pre) =
      Some (Inl (cf', at (srcs_text srcs), (pre @ nss_code src) @ 0 # drop (length ((pre @ nss_code src) @ [0])) lookup,
        length (pre @ nss_code src))) \<and> toks cf' []"
proof -
  let ?k = "ns_source src" and ?ps = "nss_pairs src" and ?sp = "[CHR '' '', CHR 0x09]"
  let ?rest = "if srcs = [] then [10] else 32 # srcs_text srcs"
  let ?crit = "pairs_text ?ps @ 93 # ?rest"
  have k: "named ?k" using assms(2) by (auto simp: good_src_def ok_named)
  define after where "after = (if ?ps = [] then ?rest else [32, 91] @ ?crit)"
  define next_at where "next_at = (if ?ps = [] then srcs_text srcs else 91 # ?crit)"
  have st: "stops word_char after" using stops_word by (simp add: after_def)
  have f: "fst fp = kw ?k @ after" by (simp add: assms(1) src_text_def after_def)
  obtain cf1 where 1: "dns_anyconf_scan cf ''%w_'' fp = Some (length (kw ?k), cf1, at after)" "toks cf1 (map kw [?k])"
    using scan_kw [OF f k st, of cf "[]"] assms(4) by (auto simp: ANYCONF_TOKENS_def)
  have "\<exists>m. dns_anyconf_skip ?sp (at after) = (m, at next_at)"
  proof -
    have "\<exists>xs. after = xs @ next_at \<and> (\<forall>c \<in> set xs. c = 32)"
      by (rule exI [of _ "if ?ps = [] \<and> srcs = [] then [] else [32]"]) (simp add: after_def next_at_def)
    then obtain xs where xs: "after = xs @ next_at" "\<forall>c \<in> set xs. c = 32" by blast
    have "stops (dns_anyconf_match ?sp) next_at"
      using srcs_text_stops(1) [OF assms(3)] by (simp add: next_at_def) (simp add: stops_def match_simps)
    moreover have "\<forall>c \<in> set xs. dns_anyconf_match ?sp c" using xs(2) by (auto simp: match_simps)
    ultimately show ?thesis using skip_at [of "at after" xs next_at ?sp] xs(1) by simp
  qed
  then obtain m where 2: "dns_anyconf_skip ?sp (at after) = (m, at next_at)" ..
  obtain cf2 where 3: "nss_criteria cf1 (at next_at) = Some (cf2, at (srcs_text srcs))" "toks cf2 (map kw (?k # flat ?ps))"
    using criteria_ends [OF assms(2,3) 1(2) refl, of "at next_at"] by (auto simp: next_at_def)
  show ?thesis
    using 1 2 3 store_code [OF assms(2) 3(2) assms(5,6)] toks_reset [OF 3(2)] kw_word(2) [OF k]
    by (simp add: nss_source_step_def)
qed

definition lookup_at :: "bytes \<Rightarrow> bytes \<Rightarrow> bool" where
  "lookup_at code lookup \<longleftrightarrow> (\<exists>r. lookup = code @ 0 # r) \<and> length lookup = LOOKUPS"

lemma source_loop:
  assumes "fst fp = srcs_text srcs" "\<forall>src \<in> set srcs. good_src src" "toks cf []" "lookup_at pre lookup"
    "length pre + length (nss_codes srcs) < LOOKUPS"
  shows "\<exists>cf' l. c_while nss_source_step (cf, fp, lookup, length pre) = Some (cf', at [10], l) \<and>
    toks cf' [] \<and> lookup_at (pre @ nss_codes srcs) l"
  using assms
proof (induction srcs arbitrary: cf fp pre lookup)
  case Nil
  have "nss_source_step (cf, fp, lookup, length pre) = Some (Inr (cf, at [10], lookup))"
    using scan_none [OF _ Nil.prems(3), of "''%w_''" fp] stops_word(4) [of "[]"] Nil.prems(1)
    by (simp add: nss_source_step_def word_char_def [abs_def])
  from c_while_stop [of nss_source_step, OF this] show ?case using Nil.prems(3,4) by (auto simp: nss_codes_def)
next
  case (Cons src srcs)
  have l: "length lookup = LOOKUPS" "pre @ drop (length pre) lookup = lookup" using Cons.prems(4) by (auto simp: lookup_at_def)
  have c: "nss_codes (src # srcs) = nss_code src @ nss_codes srcs" by (simp add: nss_codes_def)
  let ?l = "(pre @ nss_code src) @ 0 # drop (length ((pre @ nss_code src) @ [0])) lookup"
  obtain cf' where 1: "nss_source_step (cf, fp, lookup, length pre) =
      Some (Inl (cf', at (srcs_text srcs), ?l, length (pre @ nss_code src)))" "toks cf' []"
    using source_step [of fp src srcs cf lookup pre] Cons.prems l c by auto
  have "lookup_at (pre @ nss_code src) ?l" using l(1) Cons.prems(5) c by (auto simp: lookup_at_def)
  from Cons.IH [OF fst_at _ 1(2) this] Cons.prems(2,5) c
  show ?case by (simp add: c_while_next [of nss_source_step, OF 1(1)])
qed

lemma toks_any: "length (cf_token cf) = ANYCONF_TOKENS \<Longrightarrow> length (cf_buffer cf) = ANYCONF_BUFFER \<Longrightarrow>
    toks (dns_anyconf_reset cf) []"
  by (simp add: toks_def dns_anyconf_reset_def tok_off_def)

lemma hosts_entry:
  assumes "fst fp = of_string ''hosts:'' @ (if srcs = [] then [10] else 32 # srcs_text srcs)"
    "\<forall>src \<in> set srcs. good_src src" "toks (dns_anyconf_reset cf) []" "length lookup = LOOKUPS"
    "length (nss_codes srcs) < LOOKUPS"
  shows "\<exists>cf' l. nss_entry cf fp lookup = Some (cf', at [10], l) \<and> toks cf' [] \<and> lookup_at (nss_codes srcs) l"
proof -
  let ?cf = "dns_anyconf_reset cf" and ?rest = "if srcs = [] then [10] else 32 # srcs_text srcs"
  let ?word = "of_string ''hosts''"
  have t: "fst fp = ?word @ 58 # ?rest" using assms(1) by (simp add: of_string_def)
  have 1: "dns_anyconf_skip ''%s'' fp = (0, at (?word @ 58 # ?rest))"
    using skip_at [of fp "[]" "?word @ 58 # ?rest"] t by (simp add: stops_def match_simps)
  have st: "stops word_char (58 # ?rest)" by (simp add: stops_def word_char_def match_simps)
  obtain cf1 where 2: "dns_anyconf_scan ?cf ''%w_'' (at (?word @ 58 # ?rest)) = Some (5, cf1, at (58 # ?rest))" "toks cf1 [?word]"
    using scan_word [OF _ _ _ st assms(3), of ?word "at (?word @ 58 # ?rest)"]
    by (auto simp: of_string_def word_char_def match_simps tok_off_def c_defs)
  have 3: "cf_word cf1 0 = Some DNS_NSSCONF_HOSTS"
  proof -
    have "dns_nssconf_keyword (?word @ 0 # r) = Some DNS_NSSCONF_HOSTS" for r
      by (simp add: dns_nssconf_keyword_def nssconf_list_def of_string_def c_tolower_def)
    then show ?thesis using toks_word [OF 2(2), of 0] by auto
  qed
  have "cf_token cf1 ! 0 = 0" "0 < length (cf_token cf1)" "cf_count cf1 = 1"
    using 2(2) by (auto simp: toks_def tok_off_def)
  then obtain cf2 where 4: "dns_anyconf_pop cf1 = Some cf2" "toks cf2 []"
    using 2(2) by (auto simp: dns_anyconf_pop_def toks_def tok_off_def)
  have 5: "\<exists>m. dns_anyconf_skip [CHR '':'', CHR '' '', CHR 0x09] (at (58 # ?rest)) = (Suc m, at (srcs_text srcs))"
  proof -
    have "\<exists>xs. 58 # ?rest = (58 # xs) @ srcs_text srcs \<and> (\<forall>c \<in> set xs. c = 32)"
      by (rule exI [of _ "if srcs = [] then [] else [32]"]) simp
    then obtain xs where xs: "58 # ?rest = (58 # xs) @ srcs_text srcs" "\<forall>c \<in> set xs. c = 32" by blast
    have "\<forall>c \<in> set (58 # xs). dns_anyconf_match [CHR '':'', CHR '' '', CHR 0x09] c" using xs(2) by (auto simp: match_simps)
    from skip_at [OF _ this srcs_text_stops(3) [OF assms(2)], of "at (58 # ?rest)"] xs(1) show ?thesis by simp
  qed
  have "lookup_at [] (lookup[0 := 0])" using assms(4) by (cases lookup) (auto simp: lookup_at_def c_defs)
  from source_loop [OF fst_at assms(2) 4(2) this] assms(5)
  obtain cf3 l where 6: "c_while nss_source_step (cf2, at (srcs_text srcs), lookup[0 := 0], 0) = Some (cf3, at [10], l)"
    "toks cf3 []" "lookup_at (nss_codes srcs) l" by auto
  have "wr lookup 0 0 = Some (lookup[0 := 0])" using assms(4) by (simp add: c_defs)
  then show ?thesis using 1 2(1) 3 4(1) 5 6 by (auto simp: nss_entry_def Let_def)
qed

definition nss_file :: "dns_nssconf_source list \<Rightarrow> bytes" where
  "nss_file srcs = of_string ''hosts:'' @ (if srcs = [] then [10] else 32 # srcs_text srcs)"

lemma stops_eol: "stops (dns_anyconf_match [CHR ''^'', CHR 0x0A]) [10]" "stops P []"
  by (simp_all add: stops_def match_simps)

lemma loadfile_file:
  assumes "\<forall>src \<in> set srcs. good_src src" "length (nss_codes srcs) < LOOKUPS"
  shows "\<exists>l. c_while nss_loadfile_step (anyconf0, (nss_file srcs, False), replicate LOOKUPS 0) = Some l \<and> lookup_at (nss_codes srcs) l"
proof -
  have t0: "toks (dns_anyconf_reset anyconf0) []" by (rule toks_any) (simp_all add: anyconf0_def)
  obtain cf1 l where 1: "nss_entry anyconf0 (nss_file srcs, False) (replicate LOOKUPS 0) = Some (cf1, at [10], l)"
    "toks cf1 []" "lookup_at (nss_codes srcs) l"
    using hosts_entry [OF _ assms(1) t0 _ assms(2), of "(nss_file srcs, False)" "replicate LOOKUPS 0"]
    by (auto simp: nss_file_def)
  have s1: "nss_loadfile_step (anyconf0, (nss_file srcs, False), replicate LOOKUPS 0) = Some (Inl (cf1, at [10], l))"
    using 1(1) skip_at [OF _ _ stops_eol(1), of "at [10]" "[]"] by (simp add: nss_loadfile_step_def)
  have "dns_anyconf_skip ''%s'' (at [10]) = (1, at [])"
    using skip_at [of "at [10]" "[10]" "[]" "''%s''"] by (simp add: stops_def match_simps)
  moreover have "dns_anyconf_scan (dns_anyconf_reset cf1) ''%w_'' (at []) = Some (0, dns_anyconf_reset cf1, at [])"
    using scan_none [of "''%w_''" "at []"] toks_reset [OF 1(2)] by (simp add: stops_eol(2))
  ultimately have "nss_entry cf1 (at [10]) l = Some (dns_anyconf_reset cf1, at [], l)" by (simp add: nss_entry_def Let_def)
  moreover have "dns_anyconf_skip [CHR ''^'', CHR 0x0A] (at []) = (0, at [])"
    using skip_at [OF _ _ stops_eol(2), of "at []" "[]"] by simp
  ultimately have s2: "nss_loadfile_step (cf1, at [10], l) = Some (Inl (dns_anyconf_reset cf1, at [], l))"
    by (simp add: nss_loadfile_step_def at_def)
  have s3: "nss_loadfile_step (dns_anyconf_reset cf1, at [], l) = Some (Inr l)" by (simp add: nss_loadfile_step_def at_def)
  show ?thesis using 1(3) c_while_next [of nss_loadfile_step, OF s1] c_while_next [of nss_loadfile_step, OF s2]
      c_while_stop [of nss_loadfile_step, OF s3] by simp
qed


subsection \<open>The sources of a code\<close>

lemma peek_code:
  assumes "rc_lookup rc = pre @ rest" "length (rc_lookup rc) = LOOKUPS"
  shows "dns_nssconf_peek rc (length pre) = (case rest of [] \<Rightarrow> 0 | c # _ \<Rightarrow> c)"
  using assms by (auto simp: dns_nssconf_peek_def nth_append split: list.splits)

lemma next_status_codes:
  assumes "rc_lookup rc = pre @ pairs_code ps @ rest" "length (rc_lookup rc) = LOOKUPS"
    "\<forall>p \<in> set ps. pair_ok p" "length ps < n" "rest = [] \<or> \<not> is_status (dns_nssconf_c2k (hd rest))"
  shows "nss_next_status n rc src (length pre) =
    (fold (\<lambda>(s, a). set_status s a) ps src, length (pre @ pairs_code ps))"
  using assms
proof (induction ps arbitrary: n pre src)
  case Nil
  obtain m where "n = Suc m" using Nil.prems(4) by (cases n) auto
  moreover have "dns_nssconf_peek rc (length pre) = 0 \<or> \<not> is_status (dns_nssconf_c2k (dns_nssconf_peek rc (length pre)))"
    using peek_code [OF _ Nil.prems(2), of pre rest] Nil.prems(1,5) by (cases rest) auto
  ultimately show ?case by (auto simp: next_status_Suc Let_def)
next
  case (Cons p ps)
  obtain s a where p: "p = (s, a)" by (cases p)
  obtain m where m: "n = Suc m" "length ps < m" using Cons.prems(4) by (cases n) auto
  have sa: "is_status s" "is_action a" using Cons.prems(3) p by (auto simp: pair_ok_def)
  have c: "dns_nssconf_c2k (dns_nssconf_k2c s) = s" "dns_nssconf_k2c s \<noteq> 0"
    "dns_nssconf_c2k (dns_nssconf_k2c a) = a" "dns_nssconf_k2c a \<noteq> 0"
    using sa by (auto simp: is_status_def is_action_def dns_nssconf_c2k_def)
  let ?pre = "pre @ [dns_nssconf_k2c s, dns_nssconf_k2c a]"
  have k: "dns_nssconf_peek rc (length pre) = dns_nssconf_k2c s" "dns_nssconf_peek rc (length pre + 1) = dns_nssconf_k2c a"
    using peek_code [of rc pre] peek_code [of rc "pre @ [dns_nssconf_k2c s]"] Cons.prems(1,2) p by simp_all
  have "nss_next_status n rc src (length pre) = nss_next_status m rc (set_status s a src) (length ?pre)"
    using k c sa by (simp add: m(1) next_status_Suc Let_def)
  also have "\<dots> = (fold (\<lambda>(s, a). set_status s a) ps (set_status s a src), length (?pre @ pairs_code ps))"
    using Cons.IH [of ?pre m "set_status s a src"] Cons.prems m(2) p by simp
  finally show ?case by (simp add: p)
qed

lemma fold_pairs:
  assumes "src_ok src"
  shows "fold (\<lambda>(s, a). set_status s a) (nss_pairs src) (src0\<lparr>ns_source := ns_source src\<rparr>) = src"
  using assms unfolding src_ok_def
  by (cases src; cases "ns_success src = DNS_NSSCONF_RETURN"; cases "ns_notfound src = DNS_NSSCONF_RETURN";
      cases "ns_unavail src = DNS_NSSCONF_RETURN"; cases "ns_tryagain src = DNS_NSSCONF_RETURN")
    (auto simp: nss_pairs_def src0_def)

lemma source_code:
  assumes "is_source k"
  shows "dns_nssconf_c2k (dns_nssconf_k2c k) = k" "dns_nssconf_k2c k \<noteq> 0"
  using assms by (auto simp: is_source_def dns_nssconf_c2k_def)

lemma next_code:
  assumes "rc_lookup rc = pre @ nss_code src @ rest" "length (rc_lookup rc) = LOOKUPS" "good_src src"
    "rest = [] \<or> \<not> is_status (dns_nssconf_c2k (hd rest))"
  shows "dns_nssconf_next rc (length pre) = (True, src, length (pre @ nss_code src))"
proof -
  let ?k = "ns_source src"
  have code: "nss_code src = dns_nssconf_k2c ?k # pairs_code (nss_pairs src)" by (simp add: nss_code_def pairs_code_def)
  have k: "is_source ?k" "?k \<noteq> DNS_NSSCONF_INVALID" using assms(3) by (auto simp: good_src_def is_source_def)
  have peek: "dns_nssconf_peek rc (length pre) = dns_nssconf_k2c ?k" using peek_code [OF assms(1,2)] by (simp add: code)
  have "nss_next_status LOOKUPS rc (src0\<lparr>ns_source := ?k\<rparr>) (length (pre @ [dns_nssconf_k2c ?k])) =
      (src, length ((pre @ [dns_nssconf_k2c ?k]) @ pairs_code (nss_pairs src)))"
    using next_status_codes [of rc "pre @ [dns_nssconf_k2c ?k]" "nss_pairs src" rest LOOKUPS] assms fold_pairs [of src]
      nss_pairs_ok [of src] length_nss_pairs [of src] by (simp add: code good_src_def LOOKUPS_def)
  moreover have "nss_next_source (LOOKUPS + 1) rc src0 (length pre) =
      nss_next_status LOOKUPS rc (src0\<lparr>ns_source := ?k\<rparr>) (length pre + 1)"
    using peek source_code [OF k(1)] k(1) by (simp add: is_source_def Let_def)
  ultimately have "nss_next_source (LOOKUPS + 1) rc src0 (length pre) = (src, length (pre @ nss_code src))"
    by (simp add: code)
  then show ?thesis using k(2) by (simp add: dns_nssconf_next_def src0_def)
qed

lemma next_zero: "dns_nssconf_peek rc i = 0 \<Longrightarrow> nss_sources rc i = []"
  by (subst nss_sources.simps) (simp add: dns_nssconf_next_def)

lemma sources_codes:
  assumes "rc_lookup rc = pre @ nss_codes srcs @ replicate n 0" "length (rc_lookup rc) = LOOKUPS"
    "\<forall>src \<in> set srcs. good_src src"
  shows "nss_sources rc (length pre) = srcs"
  using assms
proof (induction srcs arbitrary: pre)
  case Nil
  then have "dns_nssconf_peek rc (length pre) = 0"
    using peek_code [of rc pre "replicate n 0"] by (cases n) (simp_all add: nss_codes_def)
  then show ?case by (rule next_zero)
next
  case (Cons src srcs)
  have c: "rc_lookup rc = pre @ nss_code src @ (nss_codes srcs @ replicate n 0)" using Cons.prems(1) by (simp add: nss_codes_def)
  have "nss_codes srcs @ replicate n 0 = [] \<or> \<not> is_status (dns_nssconf_c2k (hd (nss_codes srcs @ replicate n 0)))"
  proof (cases srcs)
    case Nil
    then show ?thesis by (cases n) (simp_all add: nss_codes_def is_status_def dns_nssconf_c2k_def)
  next
    case (Cons s ss)
    then have s: "is_source (ns_source s)" using Cons.prems(3) by (simp add: good_src_def)
    then have "\<not> is_status (ns_source s)" by (auto simp: is_source_def is_status_def)
    then show ?thesis using Cons source_code(1) [OF s] by (simp add: nss_codes_def nss_code_def)
  qed
  from next_code [OF c Cons.prems(2) _ this] Cons.prems(3)
  have "dns_nssconf_next rc (length pre) = (True, src, length (pre @ nss_code src))" by simp
  then have "nss_sources rc (length pre) = src # nss_sources rc (length (pre @ nss_code src))"
    by (subst nss_sources.simps) simp
  then show ?case using Cons.IH [of "pre @ nss_code src"] Cons.prems c by simp
qed

lemma codes_nonzero: "\<forall>src \<in> set srcs. good_src src \<Longrightarrow> 0 \<notin> set (nss_codes srcs)"
proof (induction srcs)
  case (Cons src srcs)
  have "dns_nssconf_k2c k \<noteq> 0" for k by (cases k) simp_all
  then have "0 \<notin> set (nss_code src)" by (auto simp: nss_code_def)
  then show ?case using Cons by (simp add: nss_codes_def)
qed (simp add: nss_codes_def)

text \<open>C19: the \<open>hosts\<close> line that \<open>dns_nssconf_dump\<close> writes for a terminated \<open>lookup\<close> string with at least one source,
  \<open>dns_nssconf_loadfile\<close> reads, into any configuration, as the same sources in the same order with the same
  reactions to success, failure and errors.\<close>

theorem dns_nssconf_dump_loadfile:
  assumes "rc_lookup rc ! (LOOKUPS - 1) = 0" "nss_sources rc 0 \<noteq> []"
  shows "\<exists>fp rc'. dns_nssconf_dump rc = Some fp \<and> dns_nssconf_loadfile rc0 fp = Some rc' \<and>
    nss_sources rc' 0 = nss_sources rc 0"
proof -
  let ?s = "nss_sources rc 0"
  have g: "\<forall>src \<in> set ?s. good_src src" using nss_sources_ok [of rc 0] by (auto simp: good_src_def)
  have len: "length (nss_codes ?s) < LOOKUPS" using nss_sources_ok [of rc 0] assms by (auto simp: c_defs)
  have "concat (map nss_dump_source srcs) @ [10] = (if srcs = [] then [10] else 32 # srcs_text srcs)"
    if "\<forall>src \<in> set srcs. good_src src" for srcs
    using that by (induction srcs) (auto simp: good_src_def dump_source_text)
  from this [OF g] have 1: "dns_nssconf_dump rc = Some (nss_file ?s)"
    unfolding dns_nssconf_dump_def nss_dump_from by (simp add: nss_file_def)
  obtain l where 2: "c_while nss_loadfile_step (anyconf0, (nss_file ?s, False), replicate LOOKUPS 0) = Some l"
    "lookup_at (nss_codes ?s) l"
    using loadfile_file [OF g len] by blast
  then obtain r where l: "l = nss_codes ?s @ 0 # r" "length l = LOOKUPS" by (auto simp: lookup_at_def)
  have nz: "nss_codes ?s \<noteq> []" "0 \<notin> set (nss_codes ?s)"
    using assms(2) codes_nonzero [OF g] by (auto simp: nss_codes_def nss_code_def neq_Nil_conv)
  have "l ! 0 \<noteq> 0" using l nz by (cases "nss_codes ?s") auto
  then have 3: "dns_nssconf_loadfile rc0 (nss_file ?s) = Some (rc0\<lparr>rc_lookup := c_strncpy l LOOKUPS\<rparr>)"
    using 2(1) l(2) by (simp add: dns_nssconf_loadfile_def c_defs)
  have "takeWhile (\<lambda>c. c \<noteq> 0) l = nss_codes ?s" using nz(2) l by (simp add: takeWhile_tail) (metis (mono_tags, lifting) takeWhile_eq_all_conv)
  then have "c_strncpy l LOOKUPS = nss_codes ?s @ replicate (LOOKUPS - length (nss_codes ?s)) 0"
    using len by (simp add: c_strncpy_def min_def)
  then have "nss_sources (rc0\<lparr>rc_lookup := c_strncpy l LOOKUPS\<rparr>) (length []) = ?s"
    using sources_codes [of "rc0\<lparr>rc_lookup := c_strncpy l LOOKUPS\<rparr>" "[]" ?s "LOOKUPS - length (nss_codes ?s)"] g len
    by simp
  with 1 3 show ?thesis by auto
qed

text \<open>The example of \<open>nsswitch.conf(5)\<close>, with the lookup string \<open>fNRb\<close>.\<close>

definition example_nss :: dns_resolv_conf where
  "example_nss = \<lparr>rc_nameserver = [], rc_search = [], rc_lookup = of_string ''fNRb'' @ replicate 32 0,
     rc_edns0 = False, rc_ndots = 1, rc_timeout = 5, rc_attempts = 2, rc_rotate = False, rc_recurse = False,
     rc_smart = False, rc_tcp = DNS_RESCONF_TCP_ENABLE, rc_iface = Sin 0 0\<rparr>"

lemma example_sources: "length (nss_sources example_nss 0) = 2"
proof -
  let ?s = "[src0\<lparr>ns_source := DNS_NSSCONF_FILES, ns_notfound := DNS_NSSCONF_RETURN\<rparr>, src0\<lparr>ns_source := DNS_NSSCONF_DNS\<rparr>]"
  have "rc_lookup example_nss = [] @ nss_codes ?s @ replicate 32 0"
    by (simp add: example_nss_def nss_codes_def nss_code_def nss_pairs_def src0_def of_string_def)
  moreover have "\<forall>src \<in> set ?s. good_src src" by (simp add: good_src_def src_ok_def is_source_def src0_def)
  moreover have "length (rc_lookup example_nss) = LOOKUPS" by (simp add: example_nss_def of_string_def c_defs)
  ultimately have "nss_sources example_nss (length ([] :: bytes)) = ?s" by (intro sources_codes)
  then show ?thesis by simp
qed

theorem dns_nssconf_dump_loadfile_witness:
  "\<exists>fp rc'. dns_nssconf_dump example_nss = Some fp \<and> dns_nssconf_loadfile example_nss fp = Some rc' \<and>
     nss_sources rc' 0 = nss_sources example_nss 0"
proof (rule dns_nssconf_dump_loadfile)
  show "rc_lookup example_nss ! (LOOKUPS - 1) = 0" by (simp add: example_nss_def of_string_def c_defs)
  show "nss_sources example_nss 0 \<noteq> []" using example_sources by auto
qed

end
