(* ===== verification/Dump.thy ===== *)
theory Dump
  imports NssFile HostsFile Hints
begin

section \<open>Dumps\<close>

text \<open>
  \<open>dns_resconf_dump\<close> and \<open>dns_hints_dump\<close>: what they print, as the list of its bytes. A name server is
  printed as \<open>dns_resconf_pton\<close> reads it. Not everything comes back: the parser keeps six words of a
  line, and a \<open>lookup\<close> line does not shorten what was there.
\<close>

subsection \<open>The configuration\<close>

definition sa_text :: "inet_ntop \<Rightarrow> dns_sockaddr \<Rightarrow> bytes" where
  "sa_text ntop sa = (case dns_sa_addr sa of Some a \<Rightarrow> addr_text ntop a | None \<Rightarrow> of_string ''[INVALID]'')"

definition resconf_dump_server :: "inet_ntop \<Rightarrow> dns_sockaddr \<Rightarrow> bytes" where
  "resconf_dump_server ntop sa =
     (if dns_sa_port sa = 53 then of_string ''nameserver '' @ sa_text ntop sa @ [10]
      else of_string ''nameserver ['' @ sa_text ntop sa @ of_string '']:'' @ decimal_text (dns_sa_port sa) @ [10])"

fun resconf_dump_servers :: "inet_ntop \<Rightarrow> dns_sockaddr list \<Rightarrow> bytes" where
  "resconf_dump_servers ntop [] = []"
| "resconf_dump_servers ntop (sa # sas) =
     (if dns_sa_family sa = AF_UNSPEC then []
      else resconf_dump_server ntop sa @ resconf_dump_servers ntop sas)"

fun resconf_dump_search :: "bytes list \<Rightarrow> bytes option" where
  "resconf_dump_search [] = Some []"
| "resconf_dump_search (s # ss) = do {
     c \<leftarrow> rd s 0;
     if c = 0 then Some []
     else do {
       n \<leftarrow> c_strlen s;
       out \<leftarrow> resconf_dump_search ss;
       Some (32 # take n s @ out) } }"

fun resconf_dump_lookup :: "bytes \<Rightarrow> bytes" where
  "resconf_dump_lookup [] = []"
| "resconf_dump_lookup (c # cs) =
     (if c = 0 then []
      else (if c = 98 then of_string '' bind'' else if c = 102 then of_string '' file''
            else if c = 99 then of_string '' cache'' else []) @ resconf_dump_lookup cs)"

definition resconf_dump_options :: "dns_resolv_conf \<Rightarrow> bytes" where
  "resconf_dump_options rc =
     of_string ''options ndots:'' @ decimal_text (rc_ndots rc) @ of_string '' timeout:'' @ decimal_text (rc_timeout rc) @
     of_string '' attempts:'' @ decimal_text (rc_attempts rc) @
     (if rc_edns0 rc then of_string '' edns0'' else []) @ (if rc_rotate rc then of_string '' rotate'' else []) @
     (if rc_recurse rc then of_string '' recurse'' else []) @ (if rc_smart rc then of_string '' smart'' else []) @
     (case rc_tcp rc of
        DNS_RESCONF_TCP_ENABLE \<Rightarrow> []
      | DNS_RESCONF_TCP_ONLY \<Rightarrow> of_string '' tcp''
      | DNS_RESCONF_TCP_DISABLE \<Rightarrow> of_string '' tcp:disable'') @ [10]"

definition dns_resconf_dump :: "inet_ntop \<Rightarrow> dns_resolv_conf \<Rightarrow> bytes option" where
  "dns_resconf_dump ntop rc = do {
     search \<leftarrow> resconf_dump_search (rc_search rc);
     hosts \<leftarrow> dns_nssconf_dump rc;
     Some (resconf_dump_servers ntop (rc_nameserver rc) @
       of_string ''search'' @ search @ [10] @ of_string ''; '' @ hosts @
       of_string ''lookup'' @ resconf_dump_lookup (rc_lookup rc) @ [10] @ resconf_dump_options rc @
       (if dns_sa_family (rc_iface rc) \<noteq> AF_UNSPEC
        then of_string ''interface '' @ sa_text ntop (rc_iface rc) @ [32] @ decimal_text (dns_sa_port (rc_iface rc)) @ [10]
        else [])) }"

text \<open>An address that \<open>inet_ntop\<close> has no text for ends the dump with \<open>EAFNOSUPPORT\<close>.\<close>

definition EAFNOSUPPORT :: dns_error where "EAFNOSUPPORT = OS_ERROR 97"

definition int_text :: "int \<Rightarrow> bytes" where
  "int_text i = (if i < 0 then 45 # decimal_text (nat (- i)) else decimal_text (nat i))"

fun hints_dump_slots :: "inet_ntop \<Rightarrow> (dns_sockaddr \<times> u32) list \<Rightarrow> bytes \<times> dns_error option" where
  "hints_dump_slots ntop [] = ([], None)"
| "hints_dump_slots ntop ((sa, priority) # sas) =
     (case dns_sa_addr sa of
        None \<Rightarrow> ([], Some EAFNOSUPPORT)
      | Some a \<Rightarrow>
          (let (out, e) = hints_dump_slots ntop sas in
           (of_string [CHR 0x09, CHR ''(''] @ int_text (sint priority) @ of_string '') ['' @ addr_text ntop a @
            of_string '']:'' @ decimal_text (dns_sa_port sa) @ [10] @ out, e)))"

fun dns_hints_dump :: "inet_ntop \<Rightarrow> dns_hints \<Rightarrow> (bytes \<times> dns_error option) option" where
  "dns_hints_dump ntop [] = Some ([], None)"
| "dns_hints_dump ntop (soa # H) = do {
     n \<leftarrow> c_strlen (hs_zone soa);
     let (out, e) = hints_dump_slots ntop (take (hs_count soa) (hs_addrs soa));
     let out = of_string ''ZONE '' @ [34] @ take n (hs_zone soa) @ [34, 10] @ out;
     (case e of
        Some error \<Rightarrow> Some (out, Some error)
      | None \<Rightarrow> do { (rest, e) \<leftarrow> dns_hints_dump ntop H; Some (out @ rest, e) }) }"


subsection \<open>Reading a name server back\<close>

lemma pton_port_decimal:
  "n < 65536 \<Longrightarrow> pton_port (decimal_text n @ rest) 0 = pton_port rest n"
proof (induction n arbitrary: rest rule: decimal_text.induct)
  case (1 n)
  have digit: "pton_port (of_nat (48 + d) # rest) m = pton_port rest (m * 10 + d)" if "d < 10" "m * 10 + d < 65536" for d m rest
  proof -
    have "unat (of_nat (48 + d) :: byte) = 48 + d" using that(1) by (simp only: unat_of_nat) simp
    then have "c_isdigit (of_nat (48 + d))" "(of_nat (48 + d) :: byte) \<noteq> 0" "unat (of_nat (48 + d) :: byte) - 48 = d"
      using that(1) by (auto simp: c_isdigit_def word_le_nat_alt word_unat_eq_iff simp del: of_nat_add)
    then show ?thesis using that(2) by simp
  qed
  show ?case
  proof (cases "n < 10")
    case True
    then show ?thesis using digit [of n 0] by (simp add: decimal_text.simps [of n] del: of_nat_add)
  next
    case False
    have "pton_port (decimal_text n @ rest) 0 = pton_port (of_nat (48 + n mod 10) # rest) (n div 10)"
      using 1 False by (simp add: decimal_text.simps [of n] del: of_nat_add)
    also have "\<dots> = pton_port rest n" using digit [of "n mod 10" "n div 10"] 1(2) by simp
    finally show ?thesis .
  qed
qed

lemma pton_loop_text:
  assumes "\<forall>c \<in> set t. c \<notin> {0, 32, 9, 91, 93}" "length buf + length t \<le> 127"
  shows "dns_resconf_pton_loop (t @ src) buf v6 = dns_resconf_pton_loop src (buf @ t) (v6 \<or> 58 \<in> set t)"
  using assms by (induction t arbitrary: buf v6) auto

text \<open>What the dump writes for a name server, \<open>dns_resconf_pton\<close> reads as that server.\<close>

lemma dns_resconf_pton_dump:
  assumes "dns_sa_addr sa = Some a" "0 < dns_sa_port sa" "dns_sa_port sa < 65536"
    and "\<forall>c \<in> set (addr_text ntop a). c \<notin> {0, 32, 9, 91, 93}" "length (addr_text ntop a) \<le> 46"
    and "dns_pton pton (if 58 \<in> set (addr_text ntop a) then AF_INET6 else AF_INET) (addr_text ntop a @ [0]) = Inr a"
    and "resconf_dump_server ntop sa = of_string ''nameserver '' @ w @ [10]"
  shows "dns_resconf_pton pton (w @ 0 # r) = Some (Inr sa)"
proof -
  let ?t = "addr_text ntop a" and ?p = "dns_sa_port sa"
  have sa: "sa_of_addr ?p a = sa" using assms(1) by (cases sa) auto
  have t: "sa_text ntop sa = ?t" by (simp add: sa_text_def assms(1))
  show ?thesis
  proof (cases "?p = 53")
    case True
    then have "w = ?t" using assms(7) t by (simp add: resconf_dump_server_def)
    then show ?thesis using pton_loop_text [OF assms(4), of "[]" "0 # r" False] assms(5,6) True sa
      by (simp add: dns_resconf_pton_def)
  next
    case False
    then have w: "w = 91 # ?t @ 93 # 58 # decimal_text ?p" using assms(7) t by (simp add: resconf_dump_server_def of_string_def)
    have "pton_port (58 # decimal_text ?p @ 0 # r) 0 = Some ?p"
      using pton_port_decimal [OF assms(3), of "0 # r"] by (simp add: c_isdigit_def)
    then show ?thesis using pton_loop_text [OF assms(4), of "[]" "93 # 58 # decimal_text ?p @ 0 # r" False] assms(2,5,6) w sa
      by (simp add: dns_resconf_pton_def)
  qed
qed

subsection \<open>What does not come back\<close>

text \<open>The words of a \<open>lookup\<close> line are written over the start of what was there before.\<close>

lemma resconf_lookup_keeps:
  assumes "rc_lookup rc = 98 # 102 # l"
  shows "resconf_apply pton [of_string ''lookup'' @ [0], of_string ''bind'' @ [0]] 2 (sa, rc) = Some (sa, rc)"
  using assms by (simp add: resconf_apply_def dns_resconf_keyword_def resconf_words_def of_string_def c_tolower_def c_defs)

end
