(* ===== verification/Local.thy ===== *)
theory Local
  imports Nssconf Addrinfo Resolution
begin

section \<open>The files of the system and the objects made from them\<close>

text \<open>
  The functions of \<open>dns.c\<close> that load \<open>/etc/hosts\<close>, \<open>/etc/resolv.conf\<close> and \<open>/etc/nsswitch.conf\<close> into fresh
  objects, the reference counts of these objects, and \<open>dns_res_stub\<close>, which makes a resolver from them.
  The objects are on a heap of counts; their contents are the values of the theories before. Counts are
  64-bit numbers, allocation succeeds.
\<close>

subsection \<open>Reference counts\<close>

text \<open>An object that is not allocated has no count, and any access to it has no result.\<close>

record 'w dns_ref =
  rf_resconf :: nat
  rf_hosts :: nat
  rf_hints :: nat
  rf_res :: "'w dns_resolver"

record 'w objs =
  ob_next :: nat
  ob_count :: "nat \<Rightarrow> nat option"
  ob_hosts :: "nat \<Rightarrow> dns_hosts"
  ob_resconf :: "nat \<Rightarrow> dns_resolv_conf"
  ob_hints :: "nat \<Rightarrow> dns_hints"
  ob_res :: "nat \<Rightarrow> 'w dns_ref"

definition ob_alloc :: "nat \<Rightarrow> 'w objs \<Rightarrow> nat \<times> 'w objs" where
  "ob_alloc count h = (ob_next h, h\<lparr>ob_next := ob_next h + 1, ob_count := (ob_count h)(ob_next h \<mapsto> count)\<rparr>)"

definition ob_free :: "nat \<Rightarrow> 'w objs \<Rightarrow> 'w objs" where
  "ob_free p h = h\<lparr>ob_count := (ob_count h)(p := None)\<rparr>"

text \<open>The value before the change.\<close>

definition dns_atomic_fetch_add :: "nat \<Rightarrow> 'w objs \<Rightarrow> (nat \<times> 'w objs) option" where
  "dns_atomic_fetch_add p h = do {
     c \<leftarrow> ob_count h p;
     Some (c, h\<lparr>ob_count := (ob_count h)(p \<mapsto> (c + 1) mod 18446744073709551616)\<rparr>) }"

definition dns_atomic_fetch_sub :: "nat \<Rightarrow> 'w objs \<Rightarrow> (nat \<times> 'w objs) option" where
  "dns_atomic_fetch_sub p h = do {
     c \<leftarrow> ob_count h p;
     Some (c, h\<lparr>ob_count := (ob_count h)(p \<mapsto> sz_sub c 1)\<rparr>) }"

text \<open>The four kinds of objects have the same \<open>close\<close> and \<open>mortal\<close>; the null pointer is \<open>None\<close>.\<close>

definition ob_close :: "nat option \<Rightarrow> 'w objs \<Rightarrow> 'w objs option" where
  "ob_close p h = (case p of
     None \<Rightarrow> Some h
   | Some p \<Rightarrow> do {
       (c, h) \<leftarrow> dns_atomic_fetch_sub p h;
       Some (if c \<noteq> 1 then h else ob_free p h) })"

definition ob_mortal :: "nat option \<Rightarrow> 'w objs \<Rightarrow> 'w objs option" where
  "ob_mortal p h = (case p of
     None \<Rightarrow> Some h
   | Some p \<Rightarrow> do { (c, h) \<leftarrow> dns_atomic_fetch_sub p h; Some h })"

definition dns_hosts_acquire :: "nat \<Rightarrow> 'w objs \<Rightarrow> (nat \<times> 'w objs) option" where
  [c_defs]: "dns_hosts_acquire = dns_atomic_fetch_add"
definition dns_hosts_release :: "nat \<Rightarrow> 'w objs \<Rightarrow> (nat \<times> 'w objs) option" where
  [c_defs]: "dns_hosts_release = dns_atomic_fetch_sub"
definition dns_hosts_mortal :: "nat option \<Rightarrow> 'w objs \<Rightarrow> 'w objs option" where
  [c_defs]: "dns_hosts_mortal = ob_mortal"
definition dns_hosts_close :: "nat option \<Rightarrow> 'w objs \<Rightarrow> 'w objs option" where
  [c_defs]: "dns_hosts_close = ob_close"

definition dns_resconf_acquire :: "nat \<Rightarrow> 'w objs \<Rightarrow> (nat \<times> 'w objs) option" where
  [c_defs]: "dns_resconf_acquire = dns_atomic_fetch_add"
definition dns_resconf_release :: "nat \<Rightarrow> 'w objs \<Rightarrow> (nat \<times> 'w objs) option" where
  [c_defs]: "dns_resconf_release = dns_atomic_fetch_sub"
definition dns_resconf_mortal :: "nat option \<Rightarrow> 'w objs \<Rightarrow> 'w objs option" where
  [c_defs]: "dns_resconf_mortal = ob_mortal"
definition dns_resconf_close :: "nat option \<Rightarrow> 'w objs \<Rightarrow> 'w objs option" where
  [c_defs]: "dns_resconf_close = ob_close"

definition dns_hints_acquire :: "nat \<Rightarrow> 'w objs \<Rightarrow> (nat \<times> 'w objs) option" where
  [c_defs]: "dns_hints_acquire = dns_atomic_fetch_add"
definition dns_hints_release :: "nat \<Rightarrow> 'w objs \<Rightarrow> (nat \<times> 'w objs) option" where
  [c_defs]: "dns_hints_release = dns_atomic_fetch_sub"
definition dns_hints_mortal :: "nat option \<Rightarrow> 'w objs \<Rightarrow> 'w objs option" where
  [c_defs]: "dns_hints_mortal = ob_mortal"
definition dns_hints_close :: "nat option \<Rightarrow> 'w objs \<Rightarrow> 'w objs option" where
  [c_defs]: "dns_hints_close = ob_close"

definition dns_res_acquire :: "nat \<Rightarrow> 'w objs \<Rightarrow> (nat \<times> 'w objs) option" where
  [c_defs]: "dns_res_acquire = dns_atomic_fetch_add"
definition dns_res_release :: "nat \<Rightarrow> 'w objs \<Rightarrow> (nat \<times> 'w objs) option" where
  [c_defs]: "dns_res_release = dns_atomic_fetch_sub"
definition dns_res_mortal :: "nat option \<Rightarrow> 'w objs \<Rightarrow> 'w objs option" where
  [c_defs]: "dns_res_mortal = ob_mortal"

subsection \<open>Files\<close>

text \<open>\<open>fopen\<close> gives the bytes of a file or \<open>errno\<close>; \<open>gethostname\<close> the name with its NUL.\<close>

record sysfiles =
  fs_open :: "string \<Rightarrow> dns_error + bytes"
  fs_hostname :: "dns_error + bytes"
  fs_pton :: inet_pton

definition dns_hosts_loadpath :: "sysfiles \<Rightarrow> dns_hosts \<Rightarrow> string \<Rightarrow> (dns_hosts \<times> dns_error option) option" where
  "dns_hosts_loadpath fs hosts path =
     (case fs_open fs path of
        Inl e \<Rightarrow> Some (hosts, Some e)
      | Inr fp \<Rightarrow> dns_hosts_loadfile (fs_pton fs) hosts fp)"

definition dns_resconf_loadpath ::
    "sysfiles \<Rightarrow> dns_resolv_conf \<Rightarrow> string \<Rightarrow> (dns_resolv_conf \<times> dns_error option) option" where
  "dns_resconf_loadpath fs rc path =
     (case fs_open fs path of
        Inl e \<Rightarrow> Some (rc, Some e)
      | Inr fp \<Rightarrow> do { rc \<leftarrow> dns_resconf_loadfile (fs_pton fs) rc fp; Some (rc, None) })"

definition dns_nssconf_loadpath ::
    "sysfiles \<Rightarrow> dns_resolv_conf \<Rightarrow> string \<Rightarrow> (dns_resolv_conf \<times> dns_error option) option" where
  "dns_nssconf_loadpath fs rc path =
     (case fs_open fs path of
        Inl e \<Rightarrow> Some (rc, Some e)
      | Inr fp \<Rightarrow> do { rc \<leftarrow> dns_nssconf_loadfile rc fp; Some (rc, None) })"

subsection \<open>Making the objects\<close>

definition dns_hosts_open :: "'w objs \<Rightarrow> nat \<times> 'w objs" where
  "dns_hosts_open h = (let (p, h) = ob_alloc 1 h in (p, h\<lparr>ob_hosts := (ob_hosts h)(p := [])\<rparr>))"

definition dns_hosts_local :: "sysfiles \<Rightarrow> 'w objs \<Rightarrow> ((dns_error + nat) \<times> 'w objs) option" where
  "dns_hosts_local fs h = do {
     let (p, h) = dns_hosts_open h;
     (hosts, e) \<leftarrow> dns_hosts_loadpath fs (ob_hosts h p) ''/etc/hosts'';
     let h = h\<lparr>ob_hosts := (ob_hosts h)(p := hosts)\<rparr>;
     (case e of
        None \<Rightarrow> Some (Inr p, h)
      | Some error \<Rightarrow> do { h \<leftarrow> dns_hosts_close (Some p) h; Some (Inl error, h) }) }"

text \<open>Without a host name the object is freed again. \<open>dns_resconf_open\<close> of \<open>Resconf\<close> fills it.\<close>

definition resconf_open_object :: "sysfiles \<Rightarrow> 'w objs \<Rightarrow> ((dns_error + nat) \<times> 'w objs) option" where
  "resconf_open_object fs h = do {
     let (p, h) = ob_alloc 0 h;
     (case fs_hostname fs of
        Inl e \<Rightarrow> Some (Inl e, ob_free p h)
      | Inr name \<Rightarrow> do {
          rc \<leftarrow> dns_resconf_open name;
          let h = h\<lparr>ob_resconf := (ob_resconf h)(p := rc)\<rparr>;
          (_, h) \<leftarrow> dns_resconf_acquire p h;
          Some (Inr p, h) }) }"

definition dns_resconf_local :: "sysfiles \<Rightarrow> 'w objs \<Rightarrow> ((dns_error + nat) \<times> 'w objs) option" where
  "dns_resconf_local fs h = do {
     (r, h) \<leftarrow> resconf_open_object fs h;
     (case r of
        Inl error \<Rightarrow> Some (Inl error, h)
      | Inr p \<Rightarrow> do {
          (rc, e) \<leftarrow> dns_resconf_loadpath fs (ob_resconf h p) ''/etc/resolv.conf'';
          let h = h\<lparr>ob_resconf := (ob_resconf h)(p := rc)\<rparr>;
          (case e of
             Some error \<Rightarrow> do { h \<leftarrow> dns_resconf_close (Some p) h; Some (Inl error, h) }
           | None \<Rightarrow> do {
               (rc, e) \<leftarrow> dns_nssconf_loadpath fs (ob_resconf h p) ''/etc/nsswitch.conf'';
               let h = h\<lparr>ob_resconf := (ob_resconf h)(p := rc)\<rparr>;
               if e = None \<or> e = Some ENOENT then Some (Inr p, h)
               else do { h \<leftarrow> dns_resconf_close (Some p) h; Some (Inl (the e), h) } }) }) }"

definition dns_resconf_root :: "sysfiles \<Rightarrow> 'w objs \<Rightarrow> ((dns_error + nat) \<times> 'w objs) option" where
  "dns_resconf_root fs h = do {
     (r, h) \<leftarrow> dns_resconf_local fs h;
     Some (r, case r of
        Inr p \<Rightarrow> h\<lparr>ob_resconf := (ob_resconf h)(p := (ob_resconf h p)\<lparr>rc_recurse := True\<rparr>)\<rparr>
      | Inl _ \<Rightarrow> h) }"

definition dns_hints_open :: "'w objs \<Rightarrow> (nat \<times> 'w objs) option" where
  "dns_hints_open h = do {
     let (p, h) = ob_alloc 0 h;
     let h = h\<lparr>ob_hints := (ob_hints h)(p := [])\<rparr>;
     (_, h) \<leftarrow> dns_hints_acquire p h;
     Some (p, h) }"

text \<open>\<open>dns_hints_insert_resconf\<close> fails only for want of memory.\<close>

definition dns_hints_local :: "sysfiles \<Rightarrow> nat option \<Rightarrow> 'w objs \<Rightarrow> ((dns_error + nat) \<times> 'w objs) option" where
  "dns_hints_local fs resconf h = do {
     (r, h) \<leftarrow> (case resconf of
        Some rc \<Rightarrow> do { (_, h) \<leftarrow> dns_resconf_acquire rc h; Some (Inr rc, h) }
      | None \<Rightarrow> dns_resconf_local fs h);
     (case r of
        Inl error \<Rightarrow> Some (Inl error, h)
      | Inr rc \<Rightarrow> do {
          (p, h) \<leftarrow> dns_hints_open h;
          (H, n) \<leftarrow> dns_hints_insert_resconf (ob_hints h p) [46, 0] (ob_resconf h rc);
          let h = h\<lparr>ob_hints := (ob_hints h)(p := H)\<rparr>;
          h \<leftarrow> dns_resconf_close (Some rc) h;
          Some (Inr p, h) }) }"

subsection \<open>The resolver\<close>

definition ob_acquire :: "nat option \<Rightarrow> 'w objs \<Rightarrow> 'w objs option" where
  "ob_acquire p h = (case p of None \<Rightarrow> Some h
     | Some p \<Rightarrow> do { (_, h) \<leftarrow> dns_atomic_fetch_add p h; Some h })"

definition res_close_three :: "nat option \<Rightarrow> nat option \<Rightarrow> nat option \<Rightarrow> 'w objs \<Rightarrow> 'w objs option" where
  "res_close_three resconf hosts hints h = do {
     h \<leftarrow> dns_resconf_close resconf h;
     h \<leftarrow> dns_hosts_close hosts h;
     dns_hints_close hints h }"

text \<open>\<open>dns_res_open\<close> of \<open>Resolver\<close> makes the contents of the object; when it fails it has destroyed the socket
  again, and the object with its null pointers is freed. There is no cache.\<close>

definition res_open_object ::
    "'w os \<Rightarrow> nat option \<Rightarrow> nat option \<Rightarrow> nat option \<Rightarrow> 'w dns_options option \<Rightarrow> 'w objs \<Rightarrow> 'w \<Rightarrow>
     ((dns_error option + nat) \<times> 'w objs \<times> 'w) option" where
  "res_open_object os resconf hosts hints opts h w = do {
     h \<leftarrow> ob_acquire resconf h;
     h \<leftarrow> ob_acquire hosts h;
     h \<leftarrow> ob_acquire hints h;
     (case (resconf, hosts, hints) of
        (Some rc, Some hs, Some H) \<Rightarrow> do {
          let (p, h) = ob_alloc 1 h;
          (r, w) \<leftarrow> dns_res_open os (Some (ob_resconf h rc)) (Some (ob_hosts h hs)) (Some (ob_hints h H)) None opts w;
          (case r of
             Inl e \<Rightarrow> do {
               h \<leftarrow> res_close_three resconf hosts hints (ob_free p h);
               Some (Inl e, h, w) }
           | Inr R \<Rightarrow> Some (Inr p, h\<lparr>ob_res := (ob_res h)(p :=
               \<lparr>rf_resconf = rc, rf_hosts = hs, rf_hints = H, rf_res = R\<rparr>)\<rparr>, w)) }
      | _ \<Rightarrow> do { h \<leftarrow> res_close_three resconf hosts hints h; Some (Inl None, h, w) }) }"

definition res_close_object :: "'w os \<Rightarrow> nat option \<Rightarrow> 'w objs \<Rightarrow> 'w \<Rightarrow> ('w objs \<times> 'w) option" where
  "res_close_object os p h w = (case p of
     None \<Rightarrow> Some (h, w)
   | Some p \<Rightarrow> do {
       (c, h) \<leftarrow> dns_res_release p h;
       if 1 < c then Some (h, w)
       else do {
         let R = ob_res h p;
         let w = dns_res_close os (rf_res R) w;
         h \<leftarrow> dns_hints_close (Some (rf_hints R)) h;
         h \<leftarrow> dns_hosts_close (Some (rf_hosts R)) h;
         h \<leftarrow> dns_resconf_close (Some (rf_resconf R)) h;
         Some (ob_free p h, w) } })"

text \<open>The \<open>epilog\<close> gives back the references of the three objects, null pointers included.\<close>

definition dns_res_stub ::
    "sysfiles \<Rightarrow> 'w os \<Rightarrow> 'w dns_options option \<Rightarrow> 'w objs \<Rightarrow> 'w \<Rightarrow>
     ((dns_error option + nat) \<times> 'w objs \<times> 'w) option" where
  "dns_res_stub fs os opts h w = do {
     (resconf, h) \<leftarrow> dns_resconf_local fs h;
     (case resconf of
        Inl e \<Rightarrow> do { h \<leftarrow> res_close_three None None None h; Some (Inl (Some e), h, w) }
      | Inr rc \<Rightarrow> do {
     (hosts, h) \<leftarrow> dns_hosts_local fs h;
     (case hosts of
        Inl e \<Rightarrow> do { h \<leftarrow> res_close_three (Some rc) None None h; Some (Inl (Some e), h, w) }
      | Inr hs \<Rightarrow> do {
     (hints, h) \<leftarrow> dns_hints_local fs (Some rc) h;
     (case hints of
        Inl e \<Rightarrow> do { h \<leftarrow> res_close_three (Some rc) (Some hs) None h; Some (Inl (Some e), h, w) }
      | Inr H \<Rightarrow> do {
     (r, h, w) \<leftarrow> res_open_object os (Some rc) (Some hs) (Some H) opts h w;
     h \<leftarrow> res_close_three (Some rc) (Some hs) (Some H) h;
     Some (r, h, w) }) }) }) }"

subsection \<open>What the operations do to the counts\<close>

text \<open>Nothing is allocated from the next address on.\<close>

definition fresh :: "'w objs \<Rightarrow> bool" where
  "fresh h \<longleftrightarrow> (\<forall>p \<ge> ob_next h. ob_count h p = None)"

text \<open>A reference that is given back leaves no trace.\<close>

lemma ob_acquire_close:
  assumes "ob_count h p = Some c" "0 < c" "c < 18446744073709551615"
  shows "\<exists>h'. ob_acquire (Some p) h = Some h' \<and> ob_close (Some p) h' = Some h"
  using assms by (simp add: ob_acquire_def ob_close_def dns_atomic_fetch_add_def dns_atomic_fetch_sub_def)
    (metis (no_types, lifting) fun_upd_triv fun_upd_upd objs.surjective objs.update_convs(2))

text \<open>The same functions on values, without objects.\<close>

definition resconf_local_spec :: "sysfiles \<Rightarrow> (dns_error + dns_resolv_conf) option" where
  "resconf_local_spec fs =
     (case fs_hostname fs of
        Inl e \<Rightarrow> Some (Inl e)
      | Inr name \<Rightarrow> do {
          rc \<leftarrow> dns_resconf_open name;
          (rc, e) \<leftarrow> dns_resconf_loadpath fs rc ''/etc/resolv.conf'';
          (case e of
             Some error \<Rightarrow> Some (Inl error)
           | None \<Rightarrow> do {
               (rc, e) \<leftarrow> dns_nssconf_loadpath fs rc ''/etc/nsswitch.conf'';
               Some (if e = None \<or> e = Some ENOENT then Inr rc else Inl (the e)) }) })"

definition hosts_local_spec :: "sysfiles \<Rightarrow> (dns_error + dns_hosts) option" where
  "hosts_local_spec fs = do {
     (hosts, e) \<leftarrow> dns_hosts_loadpath fs [] ''/etc/hosts'';
     Some (case e of None \<Rightarrow> Inr hosts | Some error \<Rightarrow> Inl error) }"

definition stub_spec ::
    "sysfiles \<Rightarrow> 'w os \<Rightarrow> 'w dns_options option \<Rightarrow> 'w \<Rightarrow> ((dns_error option + 'w dns_resolver) \<times> 'w) option" where
  "stub_spec fs os opts w = do {
     r \<leftarrow> resconf_local_spec fs;
     (case r of
        Inl e \<Rightarrow> Some (Inl (Some e), w)
      | Inr rc \<Rightarrow> do {
     r \<leftarrow> hosts_local_spec fs;
     (case r of
        Inl e \<Rightarrow> Some (Inl (Some e), w)
      | Inr hosts \<Rightarrow> do {
     (H, n) \<leftarrow> dns_hints_insert_resconf [] [46, 0] rc;
     dns_res_open os (Some rc) (Some hosts) (Some H) None opts w }) }) }"

lemma resconf_local_run:
  assumes "fresh h" "resconf_local_spec fs = Some r"
  shows "\<exists>h' r'. dns_resconf_local fs h = Some (r', h') \<and> ob_next h' = ob_next h + 1 \<and>
    (case r of
       Inl e \<Rightarrow> r' = Inl e \<and> ob_count h' = ob_count h
     | Inr rc \<Rightarrow> r' = Inr (ob_next h) \<and> ob_count h' = (ob_count h)(ob_next h \<mapsto> 1) \<and> ob_resconf h' (ob_next h) = rc)"
proof -
  have n: "ob_count h (ob_next h) = None" using assms(1) by (simp add: fresh_def)
  then have u: "(ob_count h)(ob_next h := None) = ob_count h" by (simp add: fun_upd_idem)
  show ?thesis using assms(2)
    by (auto simp: resconf_local_spec_def dns_resconf_local_def resconf_open_object_def ob_alloc_def ob_free_def u
        dns_resconf_acquire_def dns_atomic_fetch_add_def dns_resconf_close_def ob_close_def dns_atomic_fetch_sub_def Let_def
        split: sum.splits Option.bind_splits option.splits if_splits)
qed

lemma hosts_local_run:
  assumes "fresh h" "hosts_local_spec fs = Some r"
  shows "\<exists>h' r'. dns_hosts_local fs h = Some (r', h') \<and> ob_next h' = ob_next h + 1 \<and> ob_resconf h' = ob_resconf h \<and>
    (case r of
       Inl e \<Rightarrow> r' = Inl e \<and> ob_count h' = ob_count h
     | Inr hosts \<Rightarrow> r' = Inr (ob_next h) \<and> ob_count h' = (ob_count h)(ob_next h \<mapsto> 1) \<and> ob_hosts h' (ob_next h) = hosts)"
proof -
  have n: "ob_count h (ob_next h) = None" using assms(1) by (simp add: fresh_def)
  then have u: "(ob_count h)(ob_next h := None) = ob_count h" by (simp add: fun_upd_idem)
  show ?thesis using assms(2)
    by (auto simp: hosts_local_spec_def dns_hosts_local_def dns_hosts_open_def ob_alloc_def ob_free_def u
        dns_hosts_close_def ob_close_def dns_atomic_fetch_sub_def Let_def
        split: sum.splits Option.bind_splits option.splits if_splits)
qed

lemma hints_local_run:
  assumes "fresh h" "ob_count h rc = Some 1" "dns_hints_insert_resconf [] [46, 0] (ob_resconf h rc) = Some (H, n)"
  shows "\<exists>h'. dns_hints_local fs (Some rc) h = Some (Inr (ob_next h), h') \<and> ob_next h' = ob_next h + 1 \<and>
    ob_resconf h' = ob_resconf h \<and> ob_hosts h' = ob_hosts h \<and>
    ob_count h' = (ob_count h)(ob_next h \<mapsto> 1) \<and> ob_hints h' (ob_next h) = H"
proof -
  have "ob_next h \<noteq> rc" using assms(1,2) by (auto simp: fresh_def)
  then show ?thesis using assms(2,3)
    by (simp add: dns_hints_local_def dns_hints_open_def ob_alloc_def dns_resconf_acquire_def dns_atomic_fetch_add_def
        dns_hints_acquire_def dns_resconf_close_def ob_close_def dns_atomic_fetch_sub_def Let_def fun_upd_twist fun_upd_idem)
qed


lemma fresh_more: "fresh h \<Longrightarrow> ob_next h' = ob_next h + 1 \<Longrightarrow>
    ob_count h' = ob_count h \<or> ob_count h' = (ob_count h)(ob_next h \<mapsto> c) \<Longrightarrow> fresh h'"
  by (auto simp: fresh_def)

lemma close_last: "ob_count h p = Some 1 \<Longrightarrow> ob_close (Some p) h = Some (h\<lparr>ob_count := (ob_count h)(p := None)\<rparr>)"
  by (simp add: ob_close_def dns_atomic_fetch_sub_def ob_free_def)

lemma close_shared: "ob_count h p = Some 2 \<Longrightarrow> ob_close (Some p) h = Some (h\<lparr>ob_count := (ob_count h)(p \<mapsto> 1)\<rparr>)"
  by (simp add: ob_close_def dns_atomic_fetch_sub_def)

lemma acquire_once: "ob_count h p = Some 1 \<Longrightarrow> ob_acquire (Some p) h = Some (h\<lparr>ob_count := (ob_count h)(p \<mapsto> 2)\<rparr>)"
  by (simp add: ob_acquire_def dns_atomic_fetch_add_def numeral_2_eq_2)

lemma close_null: "ob_close None h = Some h"
  by (simp add: ob_close_def)

lemmas close_simps = close_last close_shared acquire_once close_null res_close_three_def
  dns_resconf_close_def dns_hosts_close_def dns_hints_close_def

lemma res_open_run:
  assumes "fresh h" "ob_count h rc = Some 1" "ob_count h hs = Some 1" "ob_count h H = Some 1" "distinct [rc, hs, H]"
    and "dns_res_open os (Some (ob_resconf h rc)) (Some (ob_hosts h hs)) (Some (ob_hints h H)) None opts w = Some (r, w')"
  shows "\<exists>h' r'. res_open_object os (Some rc) (Some hs) (Some H) opts h w = Some (r', h', w') \<and> ob_next h' = ob_next h + 1 \<and>
    (case r of
       Inl e \<Rightarrow> r' = Inl e \<and> ob_count h' = ob_count h
     | Inr R \<Rightarrow> r' = Inr (ob_next h) \<and>
         ob_count h' = (ob_count h)(rc \<mapsto> 2, hs \<mapsto> 2, H \<mapsto> 2, ob_next h \<mapsto> 1) \<and>
         ob_res h' (ob_next h) = \<lparr>rf_resconf = rc, rf_hosts = hs, rf_hints = H, rf_res = R\<rparr>)"
proof -
  let ?p = "ob_next h"
  have p: "?p \<noteq> rc" "?p \<noteq> hs" "?p \<noteq> H" "ob_count h ?p = None" using assms(1-4) by (auto simp: fresh_def)
  show ?thesis
  proof (cases r)
    case (Inr R)
    then show ?thesis using assms p
      by (simp add: res_open_object_def close_simps ob_alloc_def Let_def)
  next
    case (Inl e)
    have "((ob_count h)(rc \<mapsto> 2, hs \<mapsto> 2, H \<mapsto> 2, ?p \<mapsto> 1, ?p := None, rc \<mapsto> 1, hs \<mapsto> 1, H \<mapsto> 1)) = ob_count h"
      using assms(2-5) p by (auto simp: fun_eq_iff)
    then show ?thesis using assms p Inl
      by (simp add: res_open_object_def close_simps ob_alloc_def ob_free_def Let_def)
  qed
qed

lemma res_open_epilog:
  assumes "fresh h" "ob_count h rc = Some 1" "ob_count h hs = Some 1" "ob_count h H = Some 1" "distinct [rc, hs, H]"
    and "dns_res_open os (Some (ob_resconf h rc)) (Some (ob_hosts h hs)) (Some (ob_hints h H)) None opts w = Some (r, w')"
    and "C = (ob_count h)(rc := None, hs := None, H := None)"
  shows "\<exists>r' h1 h2. res_open_object os (Some rc) (Some hs) (Some H) opts h w = Some (r', h1, w') \<and>
    res_close_three (Some rc) (Some hs) (Some H) h1 = Some h2 \<and> fresh h2 \<and>
    (case r of
       Inl e \<Rightarrow> r' = Inl e \<and> ob_count h2 = C
     | Inr R \<Rightarrow> \<exists>p h3. r' = Inr p \<and> rf_res (ob_res h2 p) = R \<and>
         res_close_object os (Some p) h2 w' = Some (h3, dns_res_close os R w') \<and> ob_count h3 = C)"
proof -
  let ?p = "ob_next h"
  have p: "?p \<noteq> rc" "?p \<noteq> hs" "?p \<noteq> H" "ob_count h ?p = None" using assms(1-4) by (auto simp: fresh_def)
  obtain h1 r' where 1: "res_open_object os (Some rc) (Some hs) (Some H) opts h w = Some (r', h1, w')"
    "ob_next h1 = ob_next h + 1" and
    c: "case r of Inl e \<Rightarrow> r' = Inl e \<and> ob_count h1 = ob_count h
     | Inr R \<Rightarrow> r' = Inr ?p \<and> ob_count h1 = (ob_count h)(rc \<mapsto> 2, hs \<mapsto> 2, H \<mapsto> 2, ?p \<mapsto> 1) \<and>
         ob_res h1 ?p = \<lparr>rf_resconf = rc, rf_hosts = hs, rf_hints = H, rf_res = R\<rparr>"
    using res_open_run [OF assms(1-6)] by blast
  show ?thesis
  proof (cases r)
    case (Inl e)
    then show ?thesis using 1 c assms(1-5,7) by (auto simp: close_simps fresh_def)
  next
    case (Inr R)
    have f: "ob_count h q = None" if "?p \<le> q" for q using assms(1) that by (simp add: fresh_def)
    have "C = (ob_count h)(rc := None, hs := None, H := None, ?p := None)" using assms(7) p(4) by (auto simp: fun_eq_iff)
    then show ?thesis using 1 c assms(2-5) p Inr f
      by (auto simp: close_simps fresh_def res_close_object_def dns_res_release_def dns_atomic_fetch_sub_def ob_free_def
          fun_upd_twist Let_def)
  qed
qed

lemma hints_open_epilog:
  assumes "fresh h" "ob_count h rc = Some 1" "ob_count h hs = Some 1" "rc \<noteq> hs"
    and "dns_hints_insert_resconf [] [46, 0] (ob_resconf h rc) = Some (H, n)"
    and "dns_res_open os (Some (ob_resconf h rc)) (Some (ob_hosts h hs)) (Some H) None opts w = Some (r, w')"
    and "C = (ob_count h)(rc := None, hs := None)"
  shows "\<exists>h1 r' h2 h3. dns_hints_local fs (Some rc) h = Some (Inr (ob_next h), h1) \<and>
    res_open_object os (Some rc) (Some hs) (Some (ob_next h)) opts h1 w = Some (r', h2, w') \<and>
    res_close_three (Some rc) (Some hs) (Some (ob_next h)) h2 = Some h3 \<and> fresh h3 \<and>
    (case r of
       Inl e \<Rightarrow> r' = Inl e \<and> ob_count h3 = C
     | Inr R \<Rightarrow> \<exists>p h4. r' = Inr p \<and> rf_res (ob_res h3 p) = R \<and>
         res_close_object os (Some p) h3 w' = Some (h4, dns_res_close os R w') \<and> ob_count h4 = C)"
proof -
  let ?H = "ob_next h"
  have n: "?H \<noteq> rc" "?H \<noteq> hs" "ob_count h ?H = None" using assms(1-3) by (auto simp: fresh_def)
  from hints_local_run [OF assms(1,2,5), of fs] obtain h1 where
    1: "dns_hints_local fs (Some rc) h = Some (Inr ?H, h1)" "ob_next h1 = ob_next h + 1"
      "ob_resconf h1 = ob_resconf h" "ob_hosts h1 = ob_hosts h" "ob_count h1 = (ob_count h)(?H \<mapsto> 1)" "ob_hints h1 ?H = H"
    by blast
  have f: "fresh h1" using 1(5) by (intro fresh_more [OF assms(1) 1(2), of 1]) simp
  have c: "ob_count h1 rc = Some 1" "ob_count h1 hs = Some 1" "ob_count h1 ?H = Some 1" "distinct [rc, hs, ?H]"
    using 1(5) assms(2-4) n by auto
  have "C = (ob_count h1)(rc := None, hs := None, ?H := None)" using assms(7) 1(5) n by (auto simp: fun_eq_iff)
  from res_open_epilog [OF f c, unfolded 1(3,4,6), OF assms(6) this] show ?thesis using 1(1) by blast
qed

text \<open>C17: \<open>dns_res_stub\<close> never touches an object that is freed, and does with its objects what the same
  functions do with their contents. When it fails, every object it made is freed again; when it returns a
  resolver, \<open>dns_res_close\<close> of that resolver frees the resolver, its configuration, hosts and hints, and nothing
  else, whichever of the files of the system are missing.\<close>

theorem dns_res_stub_refines:
  assumes "fresh h" "stub_spec fs os opts w = Some (r, w')"
  shows "\<exists>h' r'. dns_res_stub fs os opts h w = Some (r', h', w') \<and> fresh h' \<and>
    (case r of
       Inl e \<Rightarrow> r' = Inl e \<and> ob_count h' = ob_count h
     | Inr R \<Rightarrow> \<exists>p h''. r' = Inr p \<and> rf_res (ob_res h' p) = R \<and>
         res_close_object os (Some p) h' w' = Some (h'', dns_res_close os R w') \<and> ob_count h'' = ob_count h)"
proof -
  obtain r1 where s1: "resconf_local_spec fs = Some r1" using assms(2) by (auto simp: stub_spec_def split: Option.bind_splits)
  from resconf_local_run [OF assms(1) s1] obtain h1 r1' where 1: "dns_resconf_local fs h = Some (r1', h1)"
    "ob_next h1 = ob_next h + 1" and c1: "case r1 of Inl e \<Rightarrow> r1' = Inl e \<and> ob_count h1 = ob_count h
     | Inr rc \<Rightarrow> r1' = Inr (ob_next h) \<and> ob_count h1 = (ob_count h)(ob_next h \<mapsto> 1) \<and> ob_resconf h1 (ob_next h) = rc" by blast
  have f1: "fresh h1" using c1 by (intro fresh_more [OF assms(1) 1(2), of 1]) (auto split: sum.splits)
  show ?thesis
  proof (cases r1)
    case (Inl e)
    then show ?thesis using assms(2) s1 1 c1 f1 by (auto simp: stub_spec_def dns_res_stub_def close_simps)
  next
    case rc: (Inr rc)
    let ?rc = "ob_next h"
    have n: "ob_count h p = None" if "ob_next h \<le> p" for p using assms(1) that by (simp add: fresh_def)
    obtain r2 where s2: "hosts_local_spec fs = Some r2" using assms(2) s1 rc by (auto simp: stub_spec_def split: Option.bind_splits)
    from hosts_local_run [OF f1 s2] obtain h2 r2' where 2: "dns_hosts_local fs h1 = Some (r2', h2)"
      "ob_next h2 = ob_next h1 + 1" "ob_resconf h2 = ob_resconf h1" and
      c2: "case r2 of Inl e \<Rightarrow> r2' = Inl e \<and> ob_count h2 = ob_count h1
       | Inr hosts \<Rightarrow> r2' = Inr (ob_next h1) \<and> ob_count h2 = (ob_count h1)(ob_next h1 \<mapsto> 1) \<and> ob_hosts h2 (ob_next h1) = hosts" by blast
    have f2: "fresh h2" using c2 by (intro fresh_more [OF f1 2(2), of 1]) (auto split: sum.splits)
    show ?thesis
    proof (cases r2)
      case (Inl e)
      have "(ob_count h)(?rc \<mapsto> 1, ?rc := None) = ob_count h" using n by (simp add: fun_upd_idem)
      then show ?thesis using assms(2) s1 s2 1 2 c1 c2 f2 rc Inl
        by (auto simp: stub_spec_def dns_res_stub_def close_simps fresh_def)
    next
      case hs: (Inr hosts)
      obtain H k where s3: "dns_hints_insert_resconf [] [46, 0] rc = Some (H, k)"
        and s4: "dns_res_open os (Some rc) (Some hosts) (Some H) None opts w = Some (r, w')"
        using assms(2) s1 s2 rc hs by (auto simp: stub_spec_def split: Option.bind_splits prod.splits)
      let ?hs = "ob_next h1"
      have v: "ob_resconf h2 ?rc = rc" "ob_hosts h2 ?hs = hosts" using c1 c2 rc hs 2(3) by simp_all
      have "ob_count h2 ?rc = Some 1" "ob_count h2 ?hs = Some 1" "?rc \<noteq> ?hs" using c1 c2 rc hs 1(2) by simp_all
      moreover have "ob_count h = (ob_count h2)(?rc := None, ?hs := None)" using c1 c2 rc hs 1(2) n by (auto simp: fun_eq_iff)
      moreover note hints_open_epilog [OF f2 _ _ _ s3 [folded v(1)] s4 [folded v], of "ob_count h" fs]
      ultimately obtain h3 r' h4 h5 where
        3: "dns_hints_local fs (Some ?rc) h2 = Some (Inr (ob_next h2), h3)"
          "res_open_object os (Some ?rc) (Some ?hs) (Some (ob_next h2)) opts h3 w = Some (r', h4, w')"
          "res_close_three (Some ?rc) (Some ?hs) (Some (ob_next h2)) h4 = Some h5" and
        c3: "fresh h5" "case r of Inl e \<Rightarrow> r' = Inl e \<and> ob_count h5 = ob_count h
           | Inr R \<Rightarrow> \<exists>p h''. r' = Inr p \<and> rf_res (ob_res h5 p) = R \<and>
               res_close_object os (Some p) h5 w' = Some (h'', dns_res_close os R w') \<and> ob_count h'' = ob_count h"
        by blast
      have "dns_res_stub fs os opts h w = Some (r', h5, w')" using 1(1) 2(1) 3 c1 c2 rc hs by (simp add: dns_res_stub_def)
      then show ?thesis using c3 by blast
    qed
  qed
qed

subsection \<open>An example\<close>

text \<open>All files are there and empty.\<close>

definition empty_files :: sysfiles where
  "empty_files = \<lparr>fs_open = (\<lambda>path. Inr []), fs_hostname = Inr (of_string ''h'' @ [0]), fs_pton = (\<lambda>w. None, \<lambda>w. None)\<rparr>"

definition no_objs :: "'w objs" where
  "no_objs = \<lparr>ob_next = 1, ob_count = (\<lambda>p. None), ob_hosts = (\<lambda>p. []), ob_resconf = (\<lambda>p. quiet_conf),
     ob_hints = (\<lambda>p. []), ob_res = (\<lambda>p. undefined)\<rparr>"

lemma empty_resconf:
  "\<exists>rc. resconf_local_spec empty_files = Some (Inr rc) \<and> rc_nameserver rc = [Sin 53 0, Sa_other AF_UNSPEC, Sa_other AF_UNSPEC] \<and>
     rc_iface rc = Sin 0 0 \<and> rc_tcp rc = DNS_RESCONF_TCP_ENABLE \<and> \<not> rc_rotate rc"
proof -
  have N: "NAMEBUF = 0 # 0 # 0 # replicate 253 0" by (simp add: NAMEBUF_def c_defs replicate_num)
  have "\<exists>rc. dns_resconf_open (of_string ''h'' @ [0]) = Some rc \<and>
     rc_nameserver rc = [Sin 53 0, Sa_other AF_UNSPEC, Sa_other AF_UNSPEC] \<and>
     rc_iface rc = Sin 0 0 \<and> rc_tcp rc = DNS_RESCONF_TCP_ENABLE \<and> \<not> rc_rotate rc"
    by (simp add: dns_resconf_open_def N of_string_def dns_d_anchor_def put_def dns_d_cleave_def c_defs)
  then obtain rc where rc: "dns_resconf_open (of_string ''h'' @ [0]) = Some rc"
     "rc_nameserver rc = [Sin 53 0, Sa_other AF_UNSPEC, Sa_other AF_UNSPEC]"
     "rc_iface rc = Sin 0 0" "rc_tcp rc = DNS_RESCONF_TCP_ENABLE" "\<not> rc_rotate rc" by blast
  have "dns_resconf_loadfile pton rc [] = Some rc" for pton rc
    by (simp add: dns_resconf_loadfile_def c_while_stop dns_resconf_loadfile_step_def)
  moreover have "dns_nssconf_loadfile rc [] = Some rc" for rc
  proof -
    let ?s = "\<lambda>e. (anyconf0, ([], e), replicate LOOKUPS 0)"
    have "dns_anyconf_reset anyconf0 = anyconf0" by (simp add: anyconf0_def dns_anyconf_reset_def)
    then have "nss_loadfile_step (?s False) = Some (Inl (?s True))"
      by (simp add: nss_loadfile_step_def nss_entry_def dns_anyconf_skip_def dns_anyconf_scan_def anyconf0_def Let_def)
    moreover have "nss_loadfile_step (?s True) = Some (Inr (replicate LOOKUPS 0))" by (simp add: nss_loadfile_step_def)
    ultimately have "c_while nss_loadfile_step (?s False) = Some (replicate LOOKUPS 0)"
      by (simp add: c_while_next c_while_stop)
    then show ?thesis by (simp add: dns_nssconf_loadfile_def c_defs)
  qed
  ultimately show ?thesis using rc
    by (simp add: resconf_local_spec_def empty_files_def dns_resconf_loadpath_def dns_nssconf_loadpath_def)
qed

lemma empty_stub: "\<exists>R. stub_spec empty_files quiet_os None () = Some (Inr R, ())"
proof -
  obtain rc where rc: "resconf_local_spec empty_files = Some (Inr rc)" "rc_nameserver rc = [Sin 53 0, Sa_other AF_UNSPEC, Sa_other AF_UNSPEC]"
    "rc_iface rc = Sin 0 0" "rc_tcp rc = DNS_RESCONF_TCP_ENABLE" "\<not> rc_rotate rc" using empty_resconf by blast
  have "hosts_local_spec empty_files = Some (Inr [])"
    by (simp add: hosts_local_spec_def dns_hosts_loadpath_def empty_files_def dns_hosts_loadfile_def c_while_stop
        dns_hosts_loadfile_step_def dns_hosts_line_step_def)
  moreover have "\<exists>H n. dns_hints_insert_resconf [] [46, 0] rc = Some (H, n)"
    using rc by (simp add: dns_hints_insert_resconf_def dns_hints_insert_def dns__printstring_def NAMEBUF_def hints_soa0_def
        dns_hints_slot_def dns_sa_len_def dns_af_len_def c_defs)
  moreover have "\<exists>R. dns_res_open quiet_os (Some rc) (Some []) (Some H) None None () = Some (Inr R, ())" for H
    using quiet_so_init rc(3,4) by (auto simp: dns_res_open_def dns_res_tcp2type_def Let_def)
  ultimately show ?thesis using rc(1) by (auto simp: stub_spec_def)
qed

theorem dns_res_stub_refines_witness:
  "\<exists>h' r' R p h''. dns_res_stub empty_files quiet_os None no_objs () = Some (r', h', ()) \<and> fresh h' \<and>
     r' = Inr p \<and> rf_res (ob_res h' p) = R \<and>
     res_close_object quiet_os (Some p) h' () = Some (h'', dns_res_close quiet_os R ()) \<and> ob_count h'' = (\<lambda>p. None)"
proof -
  obtain R where R: "stub_spec empty_files quiet_os None () = Some (Inr R, ())" using empty_stub by blast
  have "fresh (no_objs :: unit objs)" by (simp add: fresh_def no_objs_def)
  from dns_res_stub_refines [OF this R] show ?thesis by (auto simp: no_objs_def)
qed

end
