(* ===== verification/Spec2Isabelle.thy ===== *)
theory Spec2Isabelle
  imports Prelude Strings Packet Names RR RData Push Codec Crypto Iter Selection Hosts Resconf Nssconf Hints Misc Socket Exchange Resolver Addrinfo Question Resolution Progress Iteration Lookup Addr Base64 Url Text Args MillList Timers Mutex Event Tcp Tasks Loop HostsFile NssFile Dump Local
begin

text \<open>
  A verification library for spark-xy: the DNS library of its async runtime, written in C
  (\<open>src/libs/async/src/dns/dns.c\<close> and \<open>dns.h\<close>), the C++ runtime around it, and the utilities.

  \<^bold>\<open>The program.\<close> A resolver (\<open>dns_res_*\<close>) answers a question from the hosts table, a cache and name servers. It
  is a state machine with a stack of frames: it makes a query packet, hands it to a socket (\<open>dns_so_*\<close>),
  which sends it over UDP and again over TCP when the answer is truncated, checks what comes back, and
  goes on from the answer: to the records asked for, to another name (CNAME), or to other servers, which
  it finds in a hint table or asks for. The packets are built and read by the name and record routines
  (\<open>dns_d_*\<close>, \<open>dns_rr_*\<close>, \<open>dns_any_*\<close> and a group of functions for each record type). Configuration comes
  from \<open>resolv.conf\<close>, \<open>nsswitch.conf\<close> and \<open>hosts\<close>. \<open>dns_ai_*\<close> is \<open>getaddrinfo\<close> on top of the resolver, and
  \<open>SocketAddress::remote\<close> of \<open>addr.cpp\<close> its client. Every operation that would block returns \<open>EAGAIN\<close> and is
  called again. The runtime runs coroutines on threads: the scheduler (\<open>scheduler.cpp\<close>) hands a coroutine to the
  thread with the least load; a thread (\<open>thread.cpp\<close>) keeps the timers of waiting coroutines in a linked
  list (\<open>list.cpp\<close>); \<open>mutex.cpp\<close> and \<open>event.cpp\<close> let coroutines wait for each other, a scope (\<open>scope.hpp\<close>) for
  the ones it spawned; \<open>tcp.cpp\<close> and \<open>socket.cpp\<close> send and receive with a deadline.

  \<^bold>\<open>The theories.\<close> Definitions have the names of the code; a loop or a part of a function that has none of its
  own is named after the function, \<open>_step\<close> is the body of a loop.

  \<^item> \<open>Prelude\<close>: buffers with checked access, unsigned integers of the code as naturals with their wrap-around,
    loops (\<open>c_while\<close>), the interface \<open>bounded_loop\<close> of a loop with a measure and an invariant.
  \<^item> \<open>Strings\<close>: string functions, the text of a name, the \<open>dns__print\<close> family, error codes.
  \<^item> \<open>Packet\<close>, \<open>Names\<close>, \<open>RR\<close>, \<open>RData\<close>, \<open>Push\<close>, \<open>Iter\<close>: \<open>struct dns_packet\<close>; labels, compression and names; where
    the records are; the data of every record type; appending a record; comparison and iteration.
  \<^item> \<open>Crypto\<close>, \<open>Selection\<close>: the permutation generator that makes query identifiers, \<open>dns_k_shuffle16\<close>, and
    selection from a finite order by least elements, which the sorted iterators rest on.
  \<^item> \<open>Hosts\<close>, \<open>Resconf\<close>, \<open>Nssconf\<close>, \<open>Hints\<close>, \<open>Misc\<close>: socket addresses and the hosts table, the two
    configuration files, the table of name servers, the names of codes.
  \<^item> \<open>Socket\<close>: clock, polling and the exchange with a server; \<open>Resolver\<close>: the cache interface and every state of
    \<open>dns_res_exec\<close>; \<open>Addrinfo\<close>: \<open>dns_ai_*\<close>.
  \<^item> \<open>Local\<close>: loading the files of the system into objects with reference counts, and \<open>dns_res_stub\<close>; \<open>HostsFile\<close>,
    \<open>NssFile\<close>, \<open>Dump\<close>: the dumps of the tables, and what a file that is read or written says.
  \<^item> \<open>Codec\<close>, \<open>Exchange\<close>, \<open>Progress\<close>, \<open>Question\<close>, \<open>Resolution\<close>, \<open>Iteration\<close>, \<open>Lookup\<close> hold no code: they prove what
    the theories before them promise together.
  \<^item> \<open>Addr\<close> (\<open>addr.cpp\<close>), \<open>MillList\<close> (\<open>list.cpp\<close>), \<open>Timers\<close> and \<open>Loop\<close> (\<open>thread.cpp\<close>, \<open>delay.cpp\<close>),
    \<open>Mutex\<close> (\<open>mutex.cpp\<close>), \<open>Event\<close> (\<open>event.cpp\<close>),
    \<open>Tcp\<close> (\<open>socket.cpp\<close>, \<open>tcp.cpp\<close>, \<open>fdops.cpp\<close>), \<open>Tasks\<close> (\<open>scheduler.cpp\<close>, \<open>sync.cpp\<close>, \<open>scope.hpp\<close>, \<open>fdwait.hpp\<close>).
  \<^item> \<open>Base64\<close> (\<open>b64.cpp\<close>), \<open>Url\<close> (\<open>url.cpp\<close>), \<open>Text\<close> (\<open>utils.cpp\<close>), \<open>Args\<close> (\<open>args.cpp\<close>, \<open>args.hpp\<close>).

  \<^bold>\<open>What a definition says.\<close> A function of the code is a function to an option: \<open>None\<close> is a run without a
  result, which read or wrote outside an object, failed an assertion, or never returned. A theorem that
  says \<open>Some\<close> is a theorem of safety and of termination at once; \<open>c_steps\<close> counts iterations where the two
  have to be told apart. An error code is a value, \<open>Inl\<close> beside a result or an option \<open>dns_error\<close> beside the
  changed state. Structures are records that are returned changed. Loops run under \<open>c_while\<close>, a partial
  function, so no fuel bounds a run. \<open>unsigned short\<close> offsets are naturals under \<open>u16\<close>, \<open>size_t\<close> differences go
  through \<open>sz_sub\<close> (64 bits), the ciphers work on 32-bit words, and bytes are 8-bit words.

  A union is a datatype with a constructor for each member; where the code parses into a union nobody has
  initialised, its contents are an argument \<open>junk\<close>. A buffer \<open>malloc\<close> returns is filled with zeros. The system
  calls are the record \<open>os\<close> of functions on a world of type \<open>'w\<close>: what holds for every \<open>os\<close> holds for every
  network. Random numbers, \<open>inet_pton\<close>, \<open>inet_ntop\<close>, \<open>getifaddrs\<close>, \<open>epoll_ctl\<close>, the cache, the coroutines that
  a thread resumes and the hash table of \<open>args.hpp\<close> are arguments likewise. A coroutine is a function of the whole
  thread: it takes its result, waits again, makes others wait and schedules them; \<open>co_ok\<close> (in \<open>Timers\<close>), \<open>loop_co_ok\<close> and
  \<open>run_ok\<close> (in \<open>Loop\<close>) say what the theorems on timers and rounds ask of it, and \<open>sleeper\<close> and \<open>spawner\<close>, which
  wait again and schedule others, meet it. Allocation succeeds. Layouts are those of an LP64 machine
  (\<open>offsetof (struct dns_packet, data) = 84\<close>, little-endian identifiers); the numbers of \<open>AF_*\<close>, \<open>AI_*\<close> and
  \<open>POLL*\<close> are those of Linux; \<open>isalnum\<close> and its like are those of the C locale. In \<open>Mutex\<close>, \<open>Event\<close> and
  \<open>Tasks\<close> the atomic operations of all threads have one order, and a step is one of them with the work on
  private data.

  \<^bold>\<open>What is proved.\<close> The properties are the theorems whose text begins with their number.

  \<^item> Names: what \<open>dns_d_expand\<close> returns is the text of the name the packet holds, and it stays in bounds on any
    packet, however often it loops; what \<open>dns_d_push\<close> writes, it reads back. It does not return on a name that
    points at itself behind a label, and compression can write another name than it was given.
  \<^item> Records: a pushed record without names in its data, OPT excepted, is read back by \<open>dns_rr_parse\<close> and
    \<open>dns_any_parse\<close> (\<open>Codec\<close>, over the interface \<open>rdata_codec\<close> of builder and parser); parsed records lie within the packet; skipping makes progress; the
    memoised sections agree with the recomputed ones; a \<open>dns_rr_foreach\<close> is a fold over the matching records.
  \<^item> Order: the permutation generator visits its whole range once, the ciphers are inverse to each other,
    the shuffle is a bijection, hint servers come out once each in the order of priority and slot.
  \<^item> Exchange: whatever arrives, an accepted answer is one to the query; the TCP reader refines the reading of
    a length-prefixed message from a byte stream; sockets only move forward, keep their types, and report the
    descriptor they wait for. A resumed TCP transfer goes on at a wrong offset, and one datagram keeps it for ever
    in the loop that expands the name of the reply.
  \<^item> Resolver: the query it makes is the question it was given; its stack stays within eight frames, and every
    state finds the packets it reads; a successful check hands over its answer once.
  \<^item> Files: a hosts file is read as the entries its lines describe, and the dumped table and \<open>hosts\<close> line of
    \<open>nsswitch.conf\<close> read back; a name longer than the buffer is read behind its end. \<open>dns_res_stub\<close> makes the
    resolver its files describe; no object is used after it is freed, and none is left when it fails or the
    resolver is closed.
  \<^item> Addresses: a numeric host is its own answer; \<open>remote\<close> returns only families its mode admits, and spins when
    the lookup fails for good.
  \<^item> Runtime: the timer list stays a sorted linked list, exactly the expired timers fire, in their order and in
    the state for a timeout; a round of the thread loop resumes everyone who is due once, whatever coroutines that keep
    the contract do in between, while one that always schedules another starves events and timers; the
    mutex has one owner, forgets no waiter, and resumes them in the order in which they came; an event
    resumes each of its waiters once, and a set one lets nobody wait; the end of a scope resumes the coroutine
    that joins it once and not before its last task; a transfer over TCP sends a prefix of its buffer, and
    what it reports is what it sent or received; a refused connection is not reported.
  \<^item> Utilities: decoders invert encoders; \<open>trim\<close>, \<open>strip\<close>, \<open>split\<close> and \<open>parts\<close> against their specifications
    on texts that end with their view, while on a part of a text \<open>split\<close> may not return; a
    written command line parses into the values it was written from if no names differ only in case, which the table of parsed
    values may or may not tell apart, while \<open>--name=value\<close> loses its value.

  \<^bold>\<open>The interfaces.\<close> \<open>bounded_loop\<close> (in \<open>Prelude\<close>) is the contract of a loop with an invariant, a measure and
  a postcondition; the loops of names, sections, ciphers, TCP reading, transfers, URLs and command lines
  interpret it. \<open>rdata_codec\<close> (in \<open>Codec\<close>) pairs a builder of record data with its parser, one interpretation
  for each kind of data; \<open>feistel\<close> (in \<open>Crypto\<close>) gives a permutation from a round function; \<open>selection\<close> gives
  the enumeration of a finite order, which \<open>Hints\<close> interprets; \<open>splitting\<close> (in \<open>Text\<close>) covers the loops of
  \<open>split\<close> and \<open>parts\<close>.

  \<^bold>\<open>Not modelled.\<close> \<open>dns_p_dump\<close> and \<open>dns_anyconf_dump\<close>, which print for the debugger, and the tracing macros. The
  command line tool under \<open>DNS_MAIN\<close>. The vendored lock-free queue. The coroutine and promise types, which the compiler transforms;
  the creation of threads; \<open>poll.cpp\<close>, an older poller that nothing calls; the
  guards of scopes and the moves of sockets; \<open>resumeWaiters\<close> of \<open>AutoResetEvent\<close>, which no path reaches with
  a waiter. Logging, dates, identifiers, terminal colours, exceptions: output. Handlers of command line
  arguments are functions of the application.
\<close>

end
